(* ===== verification/Go_Prelude.thy ===== *)
theory Go_Prelude
  imports Complex_Main "HOL-Library.Word" "HOL-Library.Char_ord" "HOL-Library.List_Lexorder"
    "HOL-Library.Multiset"
begin

text \<open>
  What the components share of Go and of its standard library.

  A Go string (and a byte slice) is a list of bytes, an Isabelle \<^typ>\<open>string\<close>; a rune is a
  natural number. The theory holds UTF-8 decoding and encoding as package \<^verbatim>\<open>unicode/utf8\<close>
  does them, the operations of packages \<^verbatim>\<open>strings\<close>, \<^verbatim>\<open>strconv\<close> and \<^verbatim>\<open>unicode\<close>
  that the program calls, the two's-complement reading of 64-bit arithmetic, and the generic
  lemmas on lists, options and finite maps the components use. The Unicode tables beyond
  Latin-1, regular expressions, \<^verbatim>\<open>time.ParseDuration\<close> and the third-party matchers are
  not defined here: they are the fields of the record \<open>golib\<close>, an argument of the
  definitions that use them.
\<close>

named_theorems go_str \<open>facts about the string operations\<close>
named_theorems go_utf8 \<open>facts about UTF-8 decoding\<close>

section \<open>Bytes and runes\<close>

type_synonym rune = nat

definition byte :: "char \<Rightarrow> nat" where
  "byte c = of_char c"

definition isAscii :: "string \<Rightarrow> bool" where
  "isAscii s \<longleftrightarrow> (\<forall>c \<in> set s. byte c < 128)"

definition cont :: "nat \<Rightarrow> bool" where
  "cont b \<longleftrightarrow> 128 \<le> b \<and> b \<le> 191"

text \<open>
  The second byte of a multi-byte sequence has a narrower range after some first bytes, so
  that overlong forms, surrogates and values above U+10FFFF are rejected
  (\<^verbatim>\<open>utf8.acceptRanges\<close>).
\<close>

definition second_ok :: "nat \<Rightarrow> nat \<Rightarrow> bool" where
  "second_ok b0 b1 \<longleftrightarrow>
     (if b0 = 224 then 160 \<le> b1 \<and> b1 \<le> 191
      else if b0 = 237 then 128 \<le> b1 \<and> b1 \<le> 159
      else if b0 = 240 then 144 \<le> b1 \<and> b1 \<le> 191
      else if b0 = 244 then 128 \<le> b1 \<and> b1 \<le> 143
      else cont b1)"

definition runeError :: rune where
  "runeError = 65533"

text \<open>\<open>decodeRune\<close> reads one rune and its width; an invalid byte is U+FFFD of width 1.\<close>

definition decodeRune :: "string \<Rightarrow> rune \<times> nat" where
  "decodeRune s = (case map byte s of
      [] \<Rightarrow> (runeError, 0)
    | b0 # r \<Rightarrow>
        if b0 < 128 then (b0, 1)
        else if 194 \<le> b0 \<and> b0 \<le> 223 then
          (case r of b1 # _ \<Rightarrow>
             if cont b1 then ((b0 - 192) * 64 + (b1 - 128), 2) else (runeError, 1)
           | [] \<Rightarrow> (runeError, 1))
        else if 224 \<le> b0 \<and> b0 \<le> 239 then
          (case r of b1 # b2 # _ \<Rightarrow>
             if second_ok b0 b1 \<and> cont b2
             then ((b0 - 224) * 4096 + (b1 - 128) * 64 + (b2 - 128), 3) else (runeError, 1)
           | _ \<Rightarrow> (runeError, 1))
        else if 240 \<le> b0 \<and> b0 \<le> 244 then
          (case r of b1 # b2 # b3 # _ \<Rightarrow>
             if second_ok b0 b1 \<and> cont b2 \<and> cont b3
             then ((b0 - 240) * 262144 + (b1 - 128) * 4096 + (b2 - 128) * 64 + (b3 - 128), 4)
             else (runeError, 1)
           | _ \<Rightarrow> (runeError, 1))
        else (runeError, 1))"

text \<open>
  The runes of a string with the bytes each was read from: what \<^verbatim>\<open>for _, r := range s\<close>
  visits. The width is at least 1 on a non-empty string, so the loop ends.
\<close>

function runeSegs :: "string \<Rightarrow> (rune \<times> string) list" where
  "runeSegs s = (if s = [] then []
     else (let w = max 1 (snd (decodeRune s)) in (fst (decodeRune s), take w s) # runeSegs (drop w s)))"
  by pat_completeness auto
termination
  by (relation "measure length") (auto simp: Let_def)

declare runeSegs.simps [simp del]

definition runes :: "string \<Rightarrow> rune list" where
  "runes s = map fst (runeSegs s)"

definition encodeRune :: "rune \<Rightarrow> string" where
  "encodeRune r = map char_of
     (if r < 128 then [r]
      else if r < 2048 then [192 + r div 64, 128 + r mod 64]
      else if r < 65536 \<and> \<not> (55296 \<le> r \<and> r \<le> 57343)
        then [224 + r div 4096, 128 + r div 64 mod 64, 128 + r mod 64]
      else if 65536 \<le> r \<and> r \<le> 1114111
        then [240 + r div 262144, 128 + r div 4096 mod 64, 128 + r div 64 mod 64, 128 + r mod 64]
      else [239, 191, 189])"

section \<open>The library the program calls\<close>

text \<open>
  The parameters of the model. \<open>uDigit\<close>, \<open>uLetter\<close>, \<open>uUpper\<close>, \<open>uLower\<close> and \<open>uFold\<close>
  are the Unicode tables outside the ranges defined below; \<open>parseDuration\<close> is
  \<^verbatim>\<open>time.ParseDuration\<close> in nanoseconds; \<open>rxCompile\<close>, \<open>rxFind\<close> and \<open>rxFindAll\<close> are
  \<^verbatim>\<open>regexp.Compile\<close>, \<^verbatim>\<open>FindStringIndex\<close> and \<^verbatim>\<open>FindAllStringIndex\<close>;
  \<open>ahoMatch\<close> is the third-party \<^verbatim>\<open>ahocorasick.Matcher.Match\<close> (the indices of the patterns that
  occur in the text) and \<open>sortMatches\<close> is \<^verbatim>\<open>sort.Slice\<close> on the start indices, which is not
  stable. \<open>rxParse\<close> is \<^verbatim>\<open>syntax.Parse\<close> with \<^verbatim>\<open>syntax.Perl\<close> followed by
  \<^verbatim>\<open>Simplify\<close>, its result reduced to the node kinds the program distinguishes, and
  \<open>getenv\<close> is the process environment.
\<close>

datatype reOp = OpAlternate | OpRepeat | OpOther

datatype reTree = RE reOp "reTree list"

record 'rx golib =
  uDigit :: "rune \<Rightarrow> bool"
  uLetter :: "rune \<Rightarrow> bool"
  uUpper :: "rune \<Rightarrow> rune"
  uLower :: "rune \<Rightarrow> rune"
  uFold :: "rune \<Rightarrow> rune \<Rightarrow> bool"
  parseDuration :: "string \<Rightarrow> int option"
  rxCompile :: "string \<Rightarrow> string + 'rx"
  rxFind :: "'rx \<Rightarrow> string \<Rightarrow> (nat \<times> nat) option"
  rxFindAll :: "'rx \<Rightarrow> string \<Rightarrow> (nat \<times> nat) list"
  rxParse :: "string \<Rightarrow> string + reTree"
  getenv :: "string \<Rightarrow> string"
  ahoMatch :: "string list \<Rightarrow> string \<Rightarrow> nat list"
  sortMatches :: "(nat \<times> nat) list \<Rightarrow> (nat \<times> nat) list"

section \<open>Package unicode\<close>

definition isDigit :: "'rx golib \<Rightarrow> rune \<Rightarrow> bool" where
  "isDigit G r = (if r \<le> 255 then 48 \<le> r \<and> r \<le> 57 else uDigit G r)"

definition isLetter :: "'rx golib \<Rightarrow> rune \<Rightarrow> bool" where
  "isLetter G r = (if r \<le> 255 then
       (65 \<le> r \<and> r \<le> 90) \<or> (97 \<le> r \<and> r \<le> 122) \<or> r = 170 \<or> r = 181 \<or> r = 186
       \<or> (192 \<le> r \<and> r \<noteq> 215 \<and> r \<noteq> 247)
     else uLetter G r)"

definition isSpaceRune :: "rune \<Rightarrow> bool" where
  "isSpaceRune r \<longleftrightarrow> (9 \<le> r \<and> r \<le> 13) \<or> r = 32 \<or> r = 133 \<or> r = 160 \<or> r = 5760
     \<or> (8192 \<le> r \<and> r \<le> 8202) \<or> r = 8232 \<or> r = 8233 \<or> r = 8239 \<or> r = 8287 \<or> r = 12288"

definition lowerAscii :: "rune \<Rightarrow> rune" where
  "lowerAscii r = (if 65 \<le> r \<and> r \<le> 90 then r + 32 else r)"

definition upperAscii :: "rune \<Rightarrow> rune" where
  "upperAscii r = (if 97 \<le> r \<and> r \<le> 122 then r - 32 else r)"

definition toLowerRune :: "'rx golib \<Rightarrow> rune \<Rightarrow> rune" where
  "toLowerRune G r = (if r < 128 then lowerAscii r else uLower G r)"

definition toUpperRune :: "'rx golib \<Rightarrow> rune \<Rightarrow> rune" where
  "toUpperRune G r = (if r < 128 then upperAscii r else uUpper G r)"

section \<open>Package strings\<close>

definition mapBytes :: "(nat \<Rightarrow> nat) \<Rightarrow> string \<Rightarrow> string" where
  "mapBytes f s = map (\<lambda>c. char_of (f (byte c))) s"

text \<open>
  \<^verbatim>\<open>strings.ToLower\<close> and \<^verbatim>\<open>ToUpper\<close>: byte by byte on ASCII input, otherwise rune by
  rune (an invalid byte becomes U+FFFD, so the length may change).
\<close>

definition strToLower :: "'rx golib \<Rightarrow> string \<Rightarrow> string" where
  "strToLower G s = (if isAscii s then mapBytes lowerAscii s
     else concat (map (\<lambda>r. encodeRune (toLowerRune G r)) (runes s)))"

definition strToUpper :: "'rx golib \<Rightarrow> string \<Rightarrow> string" where
  "strToUpper G s = (if isAscii s then mapBytes upperAscii s
     else concat (map (\<lambda>r. encodeRune (toUpperRune G r)) (runes s)))"

definition runeFold :: "'rx golib \<Rightarrow> rune \<Rightarrow> rune \<Rightarrow> bool" where
  "runeFold G a b \<longleftrightarrow> a = b \<or>
     (if a < 128 \<and> b < 128 then lowerAscii a = lowerAscii b else uFold G a b)"

definition strEqualFold :: "'rx golib \<Rightarrow> string \<Rightarrow> string \<Rightarrow> bool" where
  "strEqualFold G s t \<longleftrightarrow> list_all2 (runeFold G) (runes s) (runes t)"

definition strTrimSpace :: "string \<Rightarrow> string" where
  "strTrimSpace s =
     (let sp = (\<lambda>(r, b). isSpaceRune r)
      in concat (map snd (rev (dropWhile sp (rev (dropWhile sp (runeSegs s)))))))"

definition hasPrefix :: "string \<Rightarrow> string \<Rightarrow> bool" where
  "hasPrefix s p \<longleftrightarrow> take (length p) s = p"

definition trimPrefix :: "string \<Rightarrow> string \<Rightarrow> string" where
  "trimPrefix s p = (if hasPrefix s p then drop (length p) s else s)"

text \<open>\<^verbatim>\<open>strings.Index\<close>: the first start of an occurrence, \<open>None\<close> for -1.\<close>

fun strIndex :: "string \<Rightarrow> string \<Rightarrow> nat option" where
  "strIndex [] p = (if p = [] then Some 0 else None)"
| "strIndex (c # s) p =
     (if hasPrefix (c # s) p then Some 0 else map_option Suc (strIndex s p))"

definition strContains :: "string \<Rightarrow> string \<Rightarrow> bool" where
  "strContains s p \<longleftrightarrow> strIndex s p \<noteq> None"

text \<open>Splitting at a one-byte separator, and joining.\<close>

fun strSplit :: "char \<Rightarrow> string \<Rightarrow> string list" where
  "strSplit d [] = [[]]"
| "strSplit d (c # s) =
     (if c = d then [] # strSplit d s
      else (case strSplit d s of [] \<Rightarrow> [[c]] | w # ws \<Rightarrow> (c # w) # ws))"

fun strJoin :: "string \<Rightarrow> string list \<Rightarrow> string" where
  "strJoin d [] = []"
| "strJoin d [w] = w"
| "strJoin d (w # v # ws) = w @ d @ strJoin d (v # ws)"

text \<open>\<open>strings.ReplaceAll\<close> with a non-empty old string.\<close>

function strReplaceAll :: "string \<Rightarrow> string \<Rightarrow> string \<Rightarrow> string" where
  "strReplaceAll p q [] = []"
| "strReplaceAll p q (c # s) =
     (if p \<noteq> [] \<and> hasPrefix (c # s) p then q @ strReplaceAll p q (drop (length p) (c # s))
      else c # strReplaceAll p q s)"
  by pat_completeness auto
termination
  by (relation "measure (\<lambda>(p, q, s). length s)") (auto simp: hasPrefix_def)

fun firstNonEmpty :: "string list \<Rightarrow> string" where
  "firstNonEmpty [] = []"
| "firstNonEmpty (v # vs) = (if v \<noteq> [] then v else firstNonEmpty vs)"

section \<open>Package strconv and 64-bit integers\<close>

definition wrap64 :: "int \<Rightarrow> int" where
  "wrap64 x = (x + 2 ^ 63) mod 2 ^ 64 - 2 ^ 63"

definition digitChar :: "nat \<Rightarrow> char" where
  "digitChar d = char_of (48 + d)"

fun natToStr :: "nat \<Rightarrow> string" where
  "natToStr n = (if n < 10 then [digitChar n] else natToStr (n div 10) @ [digitChar (n mod 10)])"

declare natToStr.simps [simp del]

definition itoa :: "int \<Rightarrow> string" where
  "itoa n = (if n < 0 then CHR ''-'' # natToStr (nat (- n)) else natToStr (nat n))"

definition isDecimal :: "string \<Rightarrow> bool" where
  "isDecimal s \<longleftrightarrow> s \<noteq> [] \<and> (\<forall>c \<in> set s. 48 \<le> byte c \<and> byte c \<le> 57)"

definition decimalValue :: "string \<Rightarrow> nat" where
  "decimalValue s = foldl (\<lambda>a c. a * 10 + (byte c - 48)) 0 s"

text \<open>
  \<^verbatim>\<open>strconv.Atoi\<close> and \<^verbatim>\<open>ParseInt(s, 10, 64)\<close>: an optional sign, decimal digits, and a
  value that fits 64 bits; anything else is the error \<open>None\<close>.
\<close>

definition atoi :: "string \<Rightarrow> int option" where
  "atoi s =
     (let neg = (hasPrefix s ''-''); d = (if hasPrefix s ''-'' \<or> hasPrefix s ''+'' then tl s else s);
          v = int (decimalValue d)
      in if \<not> isDecimal d then None
         else if neg then (if v \<le> 2 ^ 63 then Some (- v) else None)
         else (if v < 2 ^ 63 then Some v else None))"

section \<open>Shared lemmas\<close>

lemma byte_less [simp]: "byte c < 256"
  by (simp add: byte_def)

lemma byte_char_of [simp]: "n < 256 \<Longrightarrow> byte (char_of n) = n"
  by (simp add: byte_def)

lemma byte_inject [simp]: "byte c = byte d \<longleftrightarrow> c = d"
  by (auto simp: byte_def)

lemma isAscii_simps [simp]:
  "isAscii []" "isAscii (c # s) \<longleftrightarrow> byte c < 128 \<and> isAscii s"
  "isAscii (s @ t) \<longleftrightarrow> isAscii s \<and> isAscii t"
  by (auto simp: isAscii_def)

lemma runeSegs_Nil [simp, go_utf8]: "runeSegs [] = []"
  by (subst runeSegs.simps) simp

lemma runes_Nil [simp, go_utf8]: "runes [] = []"
  by (simp add: runes_def)

lemma runeSegs_ascii_Cons [go_utf8]:
  "byte c < 128 \<Longrightarrow> runeSegs (c # s) = (byte c, [c]) # runeSegs s"
  by (subst runeSegs.simps) (simp add: decodeRune_def)

lemma runeSegs_ascii [go_utf8]: "isAscii s \<Longrightarrow> runeSegs s = map (\<lambda>c. (byte c, [c])) s"
  by (induction s) (auto simp: runeSegs_ascii_Cons)

lemma runes_ascii [go_utf8]: "isAscii s \<Longrightarrow> runes s = map byte s"
  by (simp add: runes_def runeSegs_ascii)

text \<open>Decoding loses no byte: the segments of a string are the string.\<close>

lemma concat_runeSegs [go_utf8]: "concat (map snd (runeSegs s)) = s"
proof (induction s rule: runeSegs.induct)
  case (1 s)
  show ?case
  proof (cases "s = []")
    case True
    then show ?thesis by simp
  next
    case False
    with 1 show ?thesis
      by (subst runeSegs.simps) (simp add: Let_def)
  qed
qed

lemma length_runes_le: "length (runes s) \<le> length s"
proof (induction s rule: runeSegs.induct)
  case (1 s)
  show ?case
  proof (cases "s = []")
    case False
    let ?w = "max 1 (snd (decodeRune s))"
    from False 1 have "length (runes (drop ?w s)) \<le> length (drop ?w s)"
      by (simp add: Let_def)
    also have "\<dots> < length s" using False by simp
    finally have "Suc (length (runes (drop ?w s))) \<le> length s" by simp
    with False show ?thesis
      by (simp add: runes_def runeSegs.simps [of s] Let_def)
  qed simp
qed

lemma hasPrefix_append [simp, go_str]: "hasPrefix (p @ s) p"
  by (simp add: hasPrefix_def)

lemma hasPrefix_conv [go_str]: "hasPrefix s p \<longleftrightarrow> (\<exists>t. s = p @ t)"
  unfolding hasPrefix_def by (metis append_take_drop_id append_eq_conv_conj)

text \<open>\<open>occursAt s p i\<close>: the bytes of \<open>p\<close> stand in \<open>s\<close> at offset \<open>i\<close>.\<close>

definition occursAt :: "string \<Rightarrow> string \<Rightarrow> nat \<Rightarrow> bool" where
  "occursAt s p i \<longleftrightarrow> i \<le> length s \<and> hasPrefix (drop i s) p"

lemma occursAt_bound: "occursAt s p i \<Longrightarrow> i + length p \<le> length s"
proof -
  assume a: "occursAt s p i"
  then obtain t where "drop i s = p @ t" and "i \<le> length s"
    by (auto simp: occursAt_def hasPrefix_conv)
  then have "length s - i = length p + length t"
    by (metis length_append length_drop)
  with \<open>i \<le> length s\<close> show ?thesis by simp
qed

lemma occursAt_Cons [simp]:
  "occursAt (c # s) p (Suc i) \<longleftrightarrow> occursAt s p i"
  "occursAt s p 0 \<longleftrightarrow> hasPrefix s p"
  by (simp_all add: occursAt_def)

text \<open>\<open>strIndex\<close> returns the least occurrence, and \<open>None\<close> exactly when there is none.\<close>

lemma strIndex_Some_iff [go_str]:
  "strIndex s p = Some i \<longleftrightarrow> occursAt s p i \<and> (\<forall>j < i. \<not> occursAt s p j)"
proof (induction s arbitrary: i)
  case Nil
  then show ?case by (auto simp: occursAt_def hasPrefix_def)
next
  case (Cons c s)
  show ?case
  proof (cases i)
    case 0
    then show ?thesis using Cons by auto
  next
    case (Suc k)
    have "(\<forall>j < Suc k. \<not> occursAt (c # s) p j) \<longleftrightarrow>
        \<not> hasPrefix (c # s) p \<and> (\<forall>j < k. \<not> occursAt s p j)"
      by (simp add: All_less_Suc2)
    with Suc Cons show ?thesis by auto
  qed
qed

lemma strIndex_None_iff [go_str]: "strIndex s p = None \<longleftrightarrow> (\<forall>i. \<not> occursAt s p i)"
proof
  assume n: "strIndex s p = None"
  show "\<forall>i. \<not> occursAt s p i"
  proof (rule ccontr)
    assume "\<not> (\<forall>i. \<not> occursAt s p i)"
    then obtain i where "occursAt s p i" by blast
    define k where "k = (LEAST i. occursAt s p i)"
    have "occursAt s p k" unfolding k_def by (rule LeastI) fact
    moreover have "\<forall>j < k. \<not> occursAt s p j"
      unfolding k_def using not_less_Least by blast
    ultimately have "strIndex s p = Some k" by (simp add: strIndex_Some_iff)
    with n show False by simp
  qed
next
  assume "\<forall>i. \<not> occursAt s p i"
  then show "strIndex s p = None"
    by (cases "strIndex s p") (auto simp: strIndex_Some_iff)
qed

lemma strContains_iff [go_str]: "strContains s p \<longleftrightarrow> (\<exists>i. occursAt s p i)"
  unfolding strContains_def by (simp add: strIndex_None_iff)

lemma strIndex_bound: "strIndex s p = Some i \<Longrightarrow> i + length p \<le> length s"
  by (simp add: strIndex_Some_iff occursAt_bound)

lemma strSplit_not_Nil [simp]: "strSplit d s \<noteq> []"
  by (cases s) (auto split: list.splits)

lemma strJoin_Cons: "ws \<noteq> [] \<Longrightarrow> strJoin d (w # ws) = w @ d @ strJoin d ws"
  by (cases ws) simp_all

lemma strJoin_Cons_head: "strJoin d ((c # w) # ws) = c # strJoin d (w # ws)"
  by (cases ws) simp_all

lemma strJoin_split [go_str]: "strJoin [d] (strSplit d s) = s"
proof (induction s)
  case (Cons c s)
  then show ?case
    by (auto simp: strJoin_Cons strJoin_Cons_head split: list.splits)
qed simp

lemma wrap64_id: "- (2 ^ 63) \<le> x \<Longrightarrow> x < 2 ^ 63 \<Longrightarrow> wrap64 x = x"
  by (simp add: wrap64_def)

lemma wrap64_range: "- (2 ^ 63) \<le> wrap64 x \<and> wrap64 x < 2 ^ 63"
proof -
  have "0 \<le> (x + 2 ^ 63) mod 2 ^ 64" "(x + 2 ^ 63) mod 2 ^ 64 < 2 ^ 64"
    by (simp_all add: pos_mod_sign pos_mod_bound)
  then show ?thesis unfolding wrap64_def by simp
qed

text \<open>Printing a number and reading it back.\<close>

lemma byte_digitChar [simp]: "d < 10 \<Longrightarrow> byte (digitChar d) = 48 + d"
  by (simp add: digitChar_def)

lemma decimalValue_snoc [simp]: "decimalValue (s @ [c]) = decimalValue s * 10 + (byte c - 48)"
  by (simp add: decimalValue_def)

lemma natToStr_value [simp]: "decimalValue (natToStr n) = n"
proof (induction n rule: natToStr.induct)
  case (1 n)
  show ?case
  proof (cases "n < 10")
    case True
    then show ?thesis by (simp add: natToStr.simps [of n] decimalValue_def)
  next
    case False
    with 1 show ?thesis by (simp add: natToStr.simps [of n])
  qed
qed

lemma natToStr_decimal [simp]: "isDecimal (natToStr n)"
proof (induction n rule: natToStr.induct)
  case (1 n)
  then show ?case by (cases "n < 10") (simp_all add: natToStr.simps [of n] isDecimal_def)
qed

lemma isDecimal_no_sign: "isDecimal s \<Longrightarrow> \<not> hasPrefix s ''-'' \<and> \<not> hasPrefix s ''+''"
  by (cases s) (auto simp: isDecimal_def hasPrefix_def byte_def)

lemma atoi_itoa: "- (2 ^ 63) \<le> i \<Longrightarrow> i < 2 ^ 63 \<Longrightarrow> atoi (itoa i) = Some i"
proof (cases "i < 0")
  case True
  assume "- (2 ^ 63) \<le> i"
  with True show ?thesis by (simp add: atoi_def itoa_def hasPrefix_def)
next
  case False
  assume "i < 2 ^ 63"
  with False isDecimal_no_sign [OF natToStr_decimal] show ?thesis by (simp add: atoi_def itoa_def)
qed

lemma itoa_nat_inject [simp]: "itoa (int m) = itoa (int n) \<longleftrightarrow> m = n"
  by (metis itoa_def natToStr_value nat_int of_nat_less_0_iff)

text \<open>Identifiers of \<^verbatim>\<open>google/uuid\<close>, as numbers; 0 is the nil UUID.\<close>

type_synonym uuid = nat

section \<open>A concrete library\<close>

text \<open>
  An instance of the parameters for the witnesses: ASCII-only tables, patterns that are taken
  as literal strings, a multi-pattern matcher by search, a stable sort, and a few durations.
\<close>

fun litFindAll :: "nat \<Rightarrow> string \<Rightarrow> nat \<Rightarrow> string \<Rightarrow> (nat \<times> nat) list" where
  "litFindAll 0 p off s = []"
| "litFindAll (Suc k) p off s =
     (case strIndex s p of None \<Rightarrow> []
      | Some i \<Rightarrow> (off + i, off + i + length p)
          # litFindAll k p (off + i + max 1 (length p)) (drop (i + max 1 (length p)) s))"

definition litLib :: "string golib" where
  "litLib = \<lparr>uDigit = (\<lambda>_. False), uLetter = (\<lambda>_. False), uUpper = (\<lambda>r. r), uLower = (\<lambda>r. r),
     uFold = (\<lambda>_ _. False),
     parseDuration = map_of [(''50ms'', 50000000), (''2s'', 2000000000)],
     rxCompile = (\<lambda>e. if e = ''('' then Inl ''missing closing )'' else Inr e),
     rxFind = (\<lambda>p s. map_option (\<lambda>i. (i, i + length p)) (strIndex s p)),
     rxFindAll = (\<lambda>p s. litFindAll (length s + 1) p 0 s),
     rxParse = (\<lambda>e. if e = ''('' then Inl ''missing closing )'' else Inr (RE OpOther [])),
     getenv = (\<lambda>_. []),
     ahoMatch = (\<lambda>ps s. filter (\<lambda>i. strContains s (ps ! i)) [0..<length ps]),
     sortMatches = sort_key snd\<rparr>"

lemma litLib_sort: "mset (sortMatches litLib ms) = mset ms" "sorted (map snd (sortMatches litLib ms))"
  by (simp_all add: litLib_def)

lemma strContains_append: "strContains (xs @ p @ ys) p"
proof (induction xs)
  case Nil
  have "take (length p) (p @ ys) = p" by simp
  then show ?case by (cases "p @ ys") (auto simp: strContains_def hasPrefix_def simp del: take_append)
next
  case (Cons x xs)
  then show ?case by (simp add: strContains_def)
qed

end
