(* ===== verification/Severity.thy ===== *)
theory Severity
  imports Go_Prelude
begin

text \<open>
  The severity order of \<^verbatim>\<open>internal/shared/severity/severity.go\<close>: severities are strings,
  compared case-insensitively through a table of ranks. An unknown severity has rank 0, and an
  unknown threshold is never met.
\<close>

definition severityOrder :: "string \<Rightarrow> int" where
  "severityOrder k =
     (case map_of [(''INFO'', 1), (''WARNING'', 2), (''HIGH'', 3), (''ERROR'', 4), (''CRITICAL'', 5)] k
      of Some n \<Rightarrow> n | None \<Rightarrow> 0)"

definition MeetsThreshold :: "'rx golib \<Rightarrow> string \<Rightarrow> string \<Rightarrow> bool" where
  "MeetsThreshold G sev threshold =
     (let s = severityOrder (strToUpper G sev); t = severityOrder (strToUpper G threshold)
      in if t = 0 then False else s \<ge> t)"

lemma severityOrder_range: "0 \<le> severityOrder k \<and> severityOrder k \<le> 5"
  by (auto simp: severityOrder_def)

lemma severityOrder_known:
  "severityOrder k \<noteq> 0 \<longleftrightarrow> k \<in> {''INFO'', ''WARNING'', ''HIGH'', ''ERROR'', ''CRITICAL''}"
  by (auto simp: severityOrder_def)

text \<open>Meeting a threshold is monotone in both arguments.\<close>

lemma MeetsThreshold_mono:
  assumes "MeetsThreshold G sev th"
    and "severityOrder (strToUpper G sev) \<le> severityOrder (strToUpper G sev')"
    and "severityOrder (strToUpper G th') \<noteq> 0"
    and "severityOrder (strToUpper G th') \<le> severityOrder (strToUpper G th)"
  shows "MeetsThreshold G sev' th'"
  using assms by (auto simp: MeetsThreshold_def Let_def split: if_splits)

lemma MeetsThreshold_unknown: "severityOrder (strToUpper G th) = 0 \<Longrightarrow> \<not> MeetsThreshold G sev th"
  by (simp add: MeetsThreshold_def)

end
