(* ===== verification/Verifiers.thy ===== *)
theory Verifiers
  imports Go_Prelude
begin

text \<open>
  The match verifiers of \<^verbatim>\<open>internal/scanner/verifiers.go\<close> (Luhn, SSN, IBAN, e-mail) and the
  second copy of the Luhn check in \<^verbatim>\<open>internal/shared/redact/redact.go\<close>. Each takes the bytes
  of a match and walks its runes.
\<close>

section \<open>Definitions\<close>

text \<open>The value \<^verbatim>\<open>int(r - '0')\<close> of each digit rune, in order.\<close>

definition digitsOf :: "'rx golib \<Rightarrow> string \<Rightarrow> int list" where
  "digitsOf G s = map (\<lambda>r. int r - 48) (filter (isDigit G) (runes s))"

text \<open>The loop from the last digit to the first, doubling every second digit.\<close>

fun luhnLoop :: "bool \<Rightarrow> int list \<Rightarrow> int" where
  "luhnLoop alt [] = 0"
| "luhnLoop alt (d # ds) =
     (if alt then (if d * 2 > 9 then d * 2 - 9 else d * 2) else d) + luhnLoop (\<not> alt) ds"

definition LuhnCheck :: "'rx golib \<Rightarrow> string \<Rightarrow> bool" where
  "LuhnCheck G s =
     (let digits = digitsOf G s
      in if length digits < 13 \<or> length digits > 19 then False
         else luhnLoop False (rev digits) mod 10 = 0)"

text \<open>\<open>redact.luhnValid\<close>, written out again in another package.\<close>

definition luhnValid :: "'rx golib \<Rightarrow> string \<Rightarrow> bool" where
  "luhnValid G s =
     (let digits = map (\<lambda>r. int r - 48) (filter (isDigit G) (runes s)); n = length digits
      in if n < 13 \<or> n > 19 then False
         else fst (foldl (\<lambda>(sum, alt) i.
                 let d = digits ! i;
                     d' = (if alt then (if d * 2 > 9 then d * 2 - 9 else d * 2) else d)
                 in (sum + d', \<not> alt)) (0, False) (rev [0..<n])) mod 10 = 0)"

fun ssnAreaLoop :: "'rx golib \<Rightarrow> rune list \<Rightarrow> nat \<Rightarrow> int \<Rightarrow> nat \<times> int" where
  "ssnAreaLoop G [] n area = (n, area)"
| "ssnAreaLoop G (r # rs) n area =
     (if isDigit G r
      then (if n + 1 = 3 then (n + 1, area * 10 + (int r - 48))
            else ssnAreaLoop G rs (n + 1) (area * 10 + (int r - 48)))
      else ssnAreaLoop G rs n area)"

definition SSNAreaValid :: "'rx golib \<Rightarrow> string \<Rightarrow> bool" where
  "SSNAreaValid G s =
     (let (n, area) = ssnAreaLoop G (runes s) 0 0
      in if n < 3 then False
         else if area = 0 \<or> area = 666 \<or> area \<ge> 900 then False
         else True)"

text \<open>The digit-collecting loop of \<open>SSNValid\<close>: \<open>None\<close> when a tenth digit is met.\<close>

fun ssnDigits :: "'rx golib \<Rightarrow> rune list \<Rightarrow> int list \<Rightarrow> int list option" where
  "ssnDigits G [] d = Some d"
| "ssnDigits G (r # rs) d =
     (if \<not> isDigit G r then ssnDigits G rs d
      else if length d = 9 then None
      else ssnDigits G rs (d @ [int r - 48]))"

definition SSNValid :: "'rx golib \<Rightarrow> string \<Rightarrow> bool" where
  "SSNValid G s =
     (case ssnDigits G (runes s) [] of
        None \<Rightarrow> False
      | Some d \<Rightarrow>
          if length d \<noteq> 9 then False
          else
            (let area = d ! 0 * 100 + d ! 1 * 10 + d ! 2;
                 grp = d ! 3 * 10 + d ! 4;
                 serial = d ! 5 * 1000 + d ! 6 * 100 + d ! 7 * 10 + d ! 8
             in if area = 0 \<or> area = 666 \<or> area \<ge> 900 then False
                else grp \<noteq> 0 \<and> serial \<noteq> 0))"

text \<open>
  \<open>IBANValid\<close>. A letter contributes its two decimal digits (A=10 .. Z=35), a digit rune the
  bytes of its UTF-8 encoding, each read as \<^verbatim>\<open>int(chunk[i]-'0')\<close> in 8-bit arithmetic.
\<close>

definition itoa2 :: "int \<Rightarrow> string" where
  "itoa2 v = [char_of (nat (48 + v div 10)), char_of (nat (48 + v mod 10))]"

definition ibanNormalize :: "'rx golib \<Rightarrow> string \<Rightarrow> rune list" where
  "ibanNormalize G s =
     map (\<lambda>r. if isLetter G r then toUpperRune G r else r)
       (filter (\<lambda>r. \<not> (r = 32 \<or> r = 9 \<or> r = 45)) (runes s))"

definition modStep :: "int \<Rightarrow> char \<Rightarrow> int" where
  "modStep m c = (m * 10 + (int (byte c) - 48) mod 256) mod 97"

fun ibanMod :: "'rx golib \<Rightarrow> rune list \<Rightarrow> int \<Rightarrow> int option" where
  "ibanMod G [] m = Some m"
| "ibanMod G (r # rs) m =
     (if isDigit G r then ibanMod G rs (foldl modStep m (encodeRune r))
      else (let v = int r - 65 + 10
            in if v < 10 \<or> v > 35 then None
               else ibanMod G rs (foldl modStep m (itoa2 v))))"

definition IBANValid :: "'rx golib \<Rightarrow> string \<Rightarrow> bool" where
  "IBANValid G s =
     (let n = ibanNormalize G s
      in if length n < 15 \<or> length n > 34 then False
         else if \<not> (\<forall>r \<in> set n. isDigit G r \<or> (65 \<le> r \<and> r \<le> 90)) then False
         else if length n < 4 then False
         else (case ibanMod G (drop 4 n @ take 4 n) 0 of
                 None \<Rightarrow> False
               | Some m \<Rightarrow> m = 1))"

text \<open>\<open>EmailValid\<close>, over bytes after trimming.\<close>

definition labelChar :: "char \<Rightarrow> bool" where
  "labelChar c \<longleftrightarrow> (65 \<le> byte c \<and> byte c \<le> 90) \<or> (97 \<le> byte c \<and> byte c \<le> 122)
     \<or> (48 \<le> byte c \<and> byte c \<le> 57) \<or> c = CHR ''-''"

definition labelValid :: "string \<Rightarrow> bool" where
  "labelValid lab =
     (if length lab = 0 \<or> length lab > 63 then False
      else if hd lab = CHR ''-'' \<or> last lab = CHR ''-'' then False
      else list_all labelChar lab)"

definition EmailValid :: "string \<Rightarrow> bool" where
  "EmailValid s0 =
     (let s = strTrimSpace s0
      in if length s = 0 \<or> length s > 254 then False
         else if count_list s (CHR ''@'') \<noteq> 1 then False
         else
           (let local = takeWhile (\<lambda>c. c \<noteq> CHR ''@'') s;
                domain = drop (length local + 1) s
            in if length local = 0 \<or> length local > 64 \<or> length domain = 0 then False
               else if \<not> strContains domain ''.'' then False
               else list_all labelValid (strSplit (CHR ''.'') domain)))"

section \<open>Luhn\<close>

text \<open>A digit's contribution to the checksum at an even or odd position from the right.\<close>

definition luhnTerm :: "bool \<Rightarrow> int \<Rightarrow> int" where
  "luhnTerm alt d = (if alt then (if d * 2 > 9 then d * 2 - 9 else d * 2) else d)"

lemma luhnLoop_Cons: "luhnLoop alt (d # ds) = luhnTerm alt d + luhnLoop (\<not> alt) ds"
  by (simp add: luhnTerm_def)

lemma luhnLoop_append:
  "luhnLoop alt (xs @ ys) = luhnLoop alt xs + luhnLoop (if even (length xs) then alt else \<not> alt) ys"
  by (induction xs arbitrary: alt) auto

text \<open>Doubling is a bijection on the ten digits modulo 10, so a changed digit changes the sum.\<close>

lemma digit_cases: "0 \<le> d \<Longrightarrow> d \<le> 9 \<Longrightarrow> d \<in> {0, 1, 2, 3, 4, 5, 6, 7, 8, 9 :: int}"
  by (simp, presburger)

definition tenDigits :: "int list" where
  "tenDigits = [0, 1, 2, 3, 4, 5, 6, 7, 8, 9]"

lemma tenDigits_mem: "0 \<le> d \<Longrightarrow> d \<le> 9 \<Longrightarrow> d \<in> set tenDigits"
  using digit_cases unfolding tenDigits_def by simp

lemma luhnTerm_inj_table:
  "\<forall>alt \<in> set [True, False]. \<forall>d \<in> set tenDigits. \<forall>e \<in> set tenDigits.
     luhnTerm alt d mod 10 = luhnTerm alt e mod 10 \<longrightarrow> d = e"
  by code_simp

lemma luhnTerm_swap_table:
  "\<forall>alt \<in> set [True, False]. \<forall>d \<in> set tenDigits. \<forall>e \<in> set tenDigits.
     (luhnTerm alt d + luhnTerm (\<not> alt) e) mod 10 = (luhnTerm alt e + luhnTerm (\<not> alt) d) mod 10
     \<longrightarrow> d = e \<or> (d = 0 \<and> e = 9) \<or> (d = 9 \<and> e = 0)"
  by code_simp

lemma luhnTerm_inj:
  assumes "0 \<le> d" "d \<le> 9" "0 \<le> e" "e \<le> 9" "luhnTerm alt d mod 10 = luhnTerm alt e mod 10"
  shows "d = e"
proof -
  have "alt \<in> set [True, False]" "d \<in> set tenDigits" "e \<in> set tenDigits"
    by (simp, (rule tenDigits_mem, fact, fact)+)
  with assms(5) luhnTerm_inj_table show ?thesis by blast
qed

lemma luhnTerm_swap:
  assumes "0 \<le> d" "d \<le> 9" "0 \<le> e" "e \<le> 9"
    and "(luhnTerm alt d + luhnTerm (\<not> alt) e) mod 10 = (luhnTerm alt e + luhnTerm (\<not> alt) d) mod 10"
  shows "d = e \<or> {d, e} = {0, 9}"
proof -
  have "alt \<in> set [True, False]" "d \<in> set tenDigits" "e \<in> set tenDigits"
    by (simp, (rule tenDigits_mem, fact, fact)+)
  with assms(5) luhnTerm_swap_table show ?thesis by blast
qed

lemma mod10_cancel:
  fixes a b x y :: int
  assumes "(a + x + b) mod 10 = 0" "(a + y + b) mod 10 = 0"
  shows "x mod 10 = y mod 10"
proof -
  have "10 dvd (a + x + b) - (a + y + b)"
    using assms by (intro dvd_diff mod_0_imp_dvd)
  then show ?thesis by (simp add: mod_eq_dvd_iff)
qed

text \<open>The sum with one digit, or two neighbours, taken out.\<close>

definition luhnPos :: "bool \<Rightarrow> int list \<Rightarrow> bool" where
  "luhnPos alt xs = (if even (length xs) then alt else \<not> alt)"

lemma luhnLoop_split:
  "luhnLoop alt (xs @ d # ys) =
     luhnLoop alt xs + luhnTerm (luhnPos alt xs) d + luhnLoop (\<not> luhnPos alt xs) ys"
  by (simp add: luhnLoop_append luhnPos_def luhnTerm_def)

lemma luhnLoop_split2:
  "luhnLoop alt (xs @ d # e # ys) =
     luhnLoop alt xs + (luhnTerm (luhnPos alt xs) d + luhnTerm (\<not> luhnPos alt xs) e)
     + luhnLoop (luhnPos alt xs) ys"
  by (simp add: luhnLoop_append luhnPos_def luhnTerm_def)

lemma luhn_single_error:
  assumes "luhnLoop alt (xs @ d # ys) mod 10 = 0" "luhnLoop alt (xs @ e # ys) mod 10 = 0"
    and "0 \<le> d" "d \<le> 9" "0 \<le> e" "e \<le> 9"
  shows "d = e"
proof -
  have "luhnTerm (luhnPos alt xs) d mod 10 = luhnTerm (luhnPos alt xs) e mod 10"
    by (rule mod10_cancel [OF assms(1,2) [unfolded luhnLoop_split]])
  then show ?thesis by (rule luhnTerm_inj [OF assms(3-6)])
qed

lemma luhn_transposition:
  assumes "luhnLoop alt (xs @ d # e # ys) mod 10 = 0" "luhnLoop alt (xs @ e # d # ys) mod 10 = 0"
    and "0 \<le> d" "d \<le> 9" "0 \<le> e" "e \<le> 9"
  shows "d = e \<or> {d, e} = {0, 9}"
proof -
  have "(luhnTerm (luhnPos alt xs) d + luhnTerm (\<not> luhnPos alt xs) e) mod 10
      = (luhnTerm (luhnPos alt xs) e + luhnTerm (\<not> luhnPos alt xs) d) mod 10"
    by (rule mod10_cancel [OF assms(1,2) [unfolded luhnLoop_split2]])
  then show ?thesis by (rule luhnTerm_swap [OF assms(3-6)])
qed

text \<open>ASCII digits of a string: a digit list read back from text.\<close>

lemma digitsOf_ascii:
  "isAscii s \<Longrightarrow> digitsOf G s = map (\<lambda>c. int (byte c) - 48) (filter (\<lambda>c. isDigit G (byte c)) s)"
  by (induction s) (auto simp: digitsOf_def runes_ascii)

lemma digitsOf_append_ascii:
  "isAscii s \<Longrightarrow> isAscii t \<Longrightarrow> digitsOf G (s @ t) = digitsOf G s @ digitsOf G t"
  by (simp add: digitsOf_ascii)

lemma luhnValid_loop:
  fixes ds :: "int list"
  shows "k \<le> length ds \<Longrightarrow>
     foldl (\<lambda>(sum, alt) i. let d = ds ! i;
                  d' = (if alt then (if d * 2 > 9 then d * 2 - 9 else d * 2) else d)
              in (sum + d', \<not> alt)) (a, alt) (rev [0..<k])
     = (a + luhnLoop alt (rev (take k ds)), if even k then alt else \<not> alt)"
proof (induction k arbitrary: a alt)
  case (Suc k)
  then have "rev (take (Suc k) ds) = ds ! k # rev (take k ds)"
    by (simp add: take_Suc_conv_app_nth)
  with Suc show ?case by (auto simp: Let_def)
qed simp

section \<open>SSN\<close>

lemma ssnDigits_eq:
  "length d \<le> 9 \<Longrightarrow>
   ssnDigits G rs d = (let ds = d @ map (\<lambda>r. int r - 48) (filter (isDigit G) rs)
                       in if length ds \<le> 9 then Some ds else None)"
  by (induction rs arbitrary: d) (auto simp: Let_def)

lemma ssnAreaLoop_eq:
  "n < 3 \<Longrightarrow> ssnAreaLoop G rs n area =
     (let ds = take (3 - n) (map (\<lambda>r. int r - 48) (filter (isDigit G) rs))
      in (n + length ds, foldl (\<lambda>a d. a * 10 + d) area ds))"
proof (induction rs arbitrary: n area)
  case (Cons r rs)
  then have "n = 0 \<or> n = 1 \<or> n = 2" by auto
  with Cons show ?case by (auto simp: Let_def numeral_eq_Suc)
qed simp

section \<open>IBAN\<close>

text \<open>
  The specification of the mod-97 check: the whole number whose decimal digits are those of the
  rearranged account, letters expanded to two digits, taken modulo 97 once.
\<close>

fun ibanNumber :: "rune list \<Rightarrow> int \<Rightarrow> int" where
  "ibanNumber [] acc = acc"
| "ibanNumber (r # rs) acc =
     (if 48 \<le> r \<and> r \<le> 57 then ibanNumber rs (acc * 10 + (int r - 48))
      else ibanNumber rs (acc * 100 + (int r - 55)))"

definition ibanRune :: "rune \<Rightarrow> bool" where
  "ibanRune r \<longleftrightarrow> (48 \<le> r \<and> r \<le> 57) \<or> (65 \<le> r \<and> r \<le> 90)"

lemma modStep_mod: "0 \<le> d \<Longrightarrow> d \<le> 9 \<Longrightarrow> modStep (m mod 97) (char_of (nat (48 + d))) = (m * 10 + d) mod 97"
proof -
  assume d: "0 \<le> d" "d \<le> 9"
  have "modStep (m mod 97) (char_of (nat (48 + d))) = (m mod 97 * 10 + d) mod 97"
    using d by (simp add: modStep_def nat_add_distrib)
  also have "\<dots> = (m * 10 + d) mod 97"
    by (metis mod_add_left_eq mod_mult_left_eq)
  finally show ?thesis .
qed

lemma modStep_itoa2:
  assumes "65 \<le> r" "r \<le> (90::nat)"
  shows "foldl modStep (m mod 97) (itoa2 (int r - 55)) = (m * 100 + (int r - 55)) mod 97"
proof -
  let ?v = "int r - 55"
  have v: "0 \<le> ?v div 10" "?v div 10 \<le> 9" "0 \<le> ?v mod 10" "?v mod 10 \<le> 9" using assms by auto
  have "foldl modStep (m mod 97) (itoa2 ?v) = ((m * 10 + ?v div 10) * 10 + ?v mod 10) mod 97"
    using v by (simp add: itoa2_def modStep_mod)
  also have "(m * 10 + ?v div 10) * 10 + ?v mod 10 = m * 100 + ?v" by presburger
  finally show ?thesis .
qed

lemma ibanMod_number:
  "list_all ibanRune rs \<Longrightarrow> ibanMod G rs (m mod 97) = Some (ibanNumber rs m mod 97)"
proof (induction rs arbitrary: m)
  case (Cons r rs)
  show ?case
  proof (cases "48 \<le> r \<and> r \<le> 57")
    case True
    then have "encodeRune r = [char_of (nat (48 + (int r - 48)))]" by (simp add: encodeRune_def)
    then have "foldl modStep (m mod 97) (encodeRune r) = (m * 10 + (int r - 48)) mod 97"
      using True modStep_mod [of "int r - 48" m] by simp
    with True Cons show ?thesis by (simp add: isDigit_def)
  next
    case False
    with Cons.prems have r: "65 \<le> r" "r \<le> 90" by (auto simp: ibanRune_def)
    then have "\<not> isDigit G r" by (simp add: isDigit_def)
    with r Cons show ?thesis
      using modStep_itoa2 [OF r, of m] by (simp add: Let_def add.commute)
  qed
qed simp

section \<open>Properties\<close>

definition isDigitChar :: "char \<Rightarrow> bool" where
  "isDigitChar c \<longleftrightarrow> 48 \<le> byte c \<and> byte c \<le> 57"

definition digitVal :: "char \<Rightarrow> int" where
  "digitVal c = int (byte c) - 48"

lemma digitVal_bounds: "isDigitChar c \<Longrightarrow> 0 \<le> digitVal c \<and> digitVal c \<le> 9"
  by (auto simp: isDigitChar_def digitVal_def)

lemma digitVal_inject: "digitVal c = digitVal d \<longleftrightarrow> c = d"
  by (simp add: digitVal_def)

lemma digitsOf_Cons_digit:
  assumes "isAscii s" "isDigitChar c"
  shows "digitsOf G (c # s) = digitVal c # digitsOf G s"
  using assms by (simp add: digitsOf_ascii isDigitChar_def digitVal_def isDigit_def)

lemma isDigitChar_ascii: "isDigitChar c \<Longrightarrow> isAscii [c]"
  by (simp add: isDigitChar_def)

lemma LuhnCheck_sum: "LuhnCheck G s \<Longrightarrow> luhnLoop False (rev (digitsOf G s)) mod 10 = 0"
  by (simp add: LuhnCheck_def Let_def split: if_splits)

lemma digitsOf_mid:
  assumes "isAscii a" "isAscii b" "isDigitChar c"
  shows "digitsOf G (a @ c # b) = digitsOf G a @ digitVal c # digitsOf G b"
  using assms isDigitChar_ascii [of c]
  by (simp add: digitsOf_append_ascii [of a "c # b"] digitsOf_Cons_digit)

text \<open>
  Error detection: two candidates that differ in one digit cannot both pass \<open>LuhnCheck\<close>,
  whatever separators stand around the digits.
\<close>

theorem LuhnCheck_single_digit_error:
  assumes "isAscii a" "isAscii b" "isDigitChar c" "isDigitChar d" "c \<noteq> d"
    and "LuhnCheck G (a @ c # b)"
  shows "\<not> LuhnCheck G (a @ d # b)"
proof
  assume "LuhnCheck G (a @ d # b)"
  with assms have
    "luhnLoop False (rev (digitsOf G b) @ digitVal c # rev (digitsOf G a)) mod 10 = 0"
    "luhnLoop False (rev (digitsOf G b) @ digitVal d # rev (digitsOf G a)) mod 10 = 0"
    by (auto dest!: LuhnCheck_sum simp: digitsOf_mid)
  then have "digitVal c = digitVal d"
    by (rule luhn_single_error) (use assms digitVal_bounds in blast)+
  with \<open>c \<noteq> d\<close> show False by (simp add: digitVal_inject)
qed

theorem LuhnCheck_single_digit_error_witness:
  "LuhnCheck litLib (''4111 1111 1111 '' @ CHR ''1'' # ''111'')
   \<and> \<not> LuhnCheck litLib (''4111 1111 1111 '' @ CHR ''2'' # ''111'')"
proof -
  have h: "LuhnCheck litLib (''4111 1111 1111 '' @ CHR ''1'' # ''111'')"
    by code_simp
  have "\<not> LuhnCheck litLib (''4111 1111 1111 '' @ CHR ''2'' # ''111'')"
    by (rule LuhnCheck_single_digit_error [OF _ _ _ _ _ h])
      (simp_all add: isDigitChar_def byte_def isAscii_def)
  with h show ?thesis by blast
qed

text \<open>
  Error detection: swapping two neighbouring digits of a candidate that passes makes it
  fail, unless the two digits are equal or are 0 and 9 (the pair the checksum cannot see).
\<close>

theorem LuhnCheck_transposition_error:
  assumes "isAscii a" "isAscii b" "isDigitChar c" "isDigitChar d" "c \<noteq> d"
    and "{digitVal c, digitVal d} \<noteq> {0, 9}"
    and "LuhnCheck G (a @ c # d # b)"
  shows "\<not> LuhnCheck G (a @ d # c # b)"
proof
  assume b: "LuhnCheck G (a @ d # c # b)"
  have "digitsOf G (a @ c # d # b) = digitsOf G a @ digitVal c # digitVal d # digitsOf G b"
    "digitsOf G (a @ d # c # b) = digitsOf G a @ digitVal d # digitVal c # digitsOf G b"
    using assms digitsOf_mid [of a "d # b" c] digitsOf_mid [of a "c # b" d]
      isDigitChar_ascii [of c] isDigitChar_ascii [of d]
    by (simp_all add: digitsOf_Cons_digit)
  with LuhnCheck_sum [OF b] LuhnCheck_sum [OF assms(7)] have
    "luhnLoop False (rev (digitsOf G b) @ digitVal d # digitVal c # rev (digitsOf G a)) mod 10 = 0"
    "luhnLoop False (rev (digitsOf G b) @ digitVal c # digitVal d # rev (digitsOf G a)) mod 10 = 0"
    by simp_all
  then have "digitVal d = digitVal c \<or> {digitVal d, digitVal c} = {0, 9}"
    by (rule luhn_transposition) (use assms digitVal_bounds in blast)+
  with assms(5,6) show False by (auto simp: digitVal_inject)
qed

theorem LuhnCheck_transposition_error_witness:
  "LuhnCheck litLib (''401288888888188'' @ [CHR ''1'']) \<and>
   \<not> LuhnCheck litLib (''4'' @ CHR ''1'' # CHR ''0'' # ''2888888881881'')"
proof -
  have h: "LuhnCheck litLib (''4'' @ CHR ''0'' # CHR ''1'' # ''2888888881881'')"
    by code_simp
  have "\<not> LuhnCheck litLib (''4'' @ CHR ''1'' # CHR ''0'' # ''2888888881881'')"
    by (rule LuhnCheck_transposition_error [OF _ _ _ _ _ _ h])
      (simp_all add: isDigitChar_def byte_def isAscii_def digitVal_def doubleton_eq_iff)
  with h show ?thesis by simp
qed

text \<open>
  The copy of the Luhn check that log redaction uses (\<^verbatim>\<open>redact.luhnValid\<close>, indexing its
  digit slice from the end) decides exactly what the scanner's verifier decides, on every input.
\<close>

theorem luhnValid_eq_LuhnCheck: "luhnValid G s = LuhnCheck G s"
proof -
  let ?ds = "digitsOf G s"
  have "luhnValid G s \<longleftrightarrow> \<not> (length ?ds < 13 \<or> length ?ds > 19)
      \<and> luhnLoop False (rev (take (length ?ds) ?ds)) mod 10 = 0"
    unfolding luhnValid_def Let_def digitsOf_def [symmetric]
    using luhnValid_loop [of "length ?ds" ?ds 0 False]
    by (simp add: Let_def split_def)
  then show ?thesis by (simp add: LuhnCheck_def Let_def)
qed

definition ssnParts :: "int list \<Rightarrow> int \<times> int \<times> int" where
  "ssnParts ds =
     (let num = foldl (\<lambda>a d. a * 10 + d) 0
      in (num (take 3 ds), num (take 2 (drop 3 ds)), num (drop 5 ds)))"

text \<open>
  \<open>SSNValid\<close> accepts a text exactly when its digits are nine, \<open>AAAGGSSSS\<close>, with an area
  other than 000, 666 and 900-999, a group other than 00 and a serial other than 0000.
\<close>

theorem SSNValid_iff:
  "SSNValid G s \<longleftrightarrow>
     (let ds = digitsOf G s; (area, grp, serial) = ssnParts ds
      in length ds = 9 \<and> area \<notin> {0, 666} \<and> area < 900 \<and> grp \<noteq> 0 \<and> serial \<noteq> 0)"
proof (cases "length (digitsOf G s) = 9")
  case True
  then obtain a b c d e f g h i where ds: "digitsOf G s = [a, b, c, d, e, f, g, h, i]"
    by (auto simp: numeral_eq_Suc length_Suc_conv)
  then show ?thesis
    by (auto simp: SSNValid_def ssnDigits_eq digitsOf_def [symmetric] Let_def ssnParts_def
        numeral_eq_Suc algebra_simps)
next
  case False
  then show ?thesis
    by (simp add: SSNValid_def ssnDigits_eq digitsOf_def [symmetric] Let_def ssnParts_def)
qed

text \<open>
  On ASCII input \<open>IBANValid\<close>, which keeps a running remainder, decides the mod-97 check on
  the whole number: 15 to 34 letters and digits after normalisation, and the account with its
  first four characters moved to the end and letters read as 10..35 is 1 modulo 97.
\<close>

theorem IBANValid_mod97:
  assumes "isAscii s"
  shows "IBANValid G s \<longleftrightarrow>
     (let n = ibanNormalize G s
      in 15 \<le> length n \<and> length n \<le> 34 \<and> list_all ibanRune n
         \<and> ibanNumber (drop 4 n @ take 4 n) 0 mod 97 = 1)"
proof -
  let ?n = "ibanNormalize G s"
  have "\<forall>r \<in> set ?n. r < 128"
    using assms by (auto simp: ibanNormalize_def runes_ascii isAscii_def toUpperRune_def upperAscii_def)
  then have eq: "(\<forall>r \<in> set ?n. isDigit G r \<or> 65 \<le> r \<and> r \<le> 90) \<longleftrightarrow> list_all ibanRune ?n"
    by (fastforce simp: list_all_iff ibanRune_def isDigit_def)
  have "list_all ibanRune ?n \<Longrightarrow> list_all ibanRune (drop 4 ?n @ take 4 ?n)"
    by (auto simp: list_all_iff dest: in_set_dropD in_set_takeD)
  then have "list_all ibanRune ?n \<Longrightarrow>
      ibanMod G (drop 4 ?n @ take 4 ?n) 0 = Some (ibanNumber (drop 4 ?n @ take 4 ?n) 0 mod 97)"
    using ibanMod_number [of "drop 4 ?n @ take 4 ?n" G 0] by simp
  then show ?thesis
    unfolding IBANValid_def Let_def eq by auto
qed

theorem IBANValid_mod97_witness:
  "IBANValid litLib ''GB82 WEST 1234 5698 7654 32''
   \<and> (let n = ibanNormalize litLib ''GB82 WEST 1234 5698 7654 32''
      in ibanNumber (drop 4 n @ take 4 n) 0 mod 97 = 1)"
proof -
  have "isAscii ''GB82 WEST 1234 5698 7654 32''" by (simp add: byte_def)
  from IBANValid_mod97 [OF this, of litLib]
  have "IBANValid litLib ''GB82 WEST 1234 5698 7654 32'' \<Longrightarrow> ?thesis" by (simp add: Let_def)
  moreover have "IBANValid litLib ''GB82 WEST 1234 5698 7654 32''" by code_simp
  ultimately show ?thesis by blast
qed

end
