(* ===== verification/Rules_Types.thy ===== *)
theory Rules_Types
  imports Go_Prelude
begin

text \<open>
  The data of a rule pack (\<^verbatim>\<open>internal/rules/types.go\<close>) and of a scan
  (\<^verbatim>\<open>pkg/types/types.go\<close>). A pointer field that may be nil is an option; a Go map that is
  iterated over is an association list in iteration order; a \<^verbatim>\<open>float64\<close> is a real.
\<close>

section \<open>Rule packs\<close>

record metadata =
  m_Name :: string
  m_Version :: string
  m_Description :: string
  m_Author :: string
  m_License :: string
  m_Homepage :: string
  m_Repository :: string
  m_Tags :: "string list"

record options =
  o_CaseSensitive :: bool
  o_WholeWord :: bool

record pattern =
  pt_Name :: string
  pt_Regex :: string
  pt_Flags :: "string list"
  pt_Verifier :: string

record condition =
  c_Match :: "(string \<times> string list) list"

record semantic =
  s_Model :: string
  s_Temperature :: real
  s_MaxTokens :: int
  s_AnalysisPrompt :: string
  s_ConfidenceThreshold :: real
  s_FallbackOnError :: bool

record fallback =
  f_Patterns :: "pattern list"
  f_Action :: string

record response =
  rs_Action :: string
  rs_Message :: string
  rs_Replacement :: string

record cache =
  ca_Enabled :: bool
  ca_TTL :: string
  ca_MaxEntries :: int

record composition =
  co_Strategy :: string
  co_Priority :: int

record gate =
  g_Enabled :: bool
  g_MinTokenLen :: int

record performance =
  pf_MaxLength :: int
  pf_Timeout :: string
  pf_PerRuleTimeout :: string
  pf_TotalScanTimeout :: string
  pf_Gate :: gate

record override =
  ov_RuleID :: string
  ov_Severity :: string
  ov_Enabled :: "bool option"

record rule =
  r_ID :: string
  r_Name :: string
  r_Level :: int
  r_Severity :: string
  r_Category :: string
  r_Enabled :: "bool option"
  r_Verifier :: string
  r_Keywords :: "string list"
  r_Patterns :: "pattern list"
  r_Semantic :: "semantic option"
  r_Fallback :: "fallback option"
  r_Logic :: string
  r_Options :: options
  r_Response :: "response option"
  r_Cache :: "cache option"
  r_When :: "condition option"
  r_Unless :: "condition option"
  r_Timeout :: string

record rulePack =
  p_APIVersion :: string
  p_Kind :: string
  p_Metadata :: metadata
  p_Rules :: "rule list"
  p_Extends :: "string list"
  p_Imports :: "string list"
  p_Composition :: "composition option"
  p_Performance :: "performance option"
  p_Overrides :: "override list"
  p_Context :: "(string \<times> string) list"
  p_SourcePath :: string

abbreviation packName :: "rulePack \<Rightarrow> string" where
  "packName p \<equiv> m_Name (p_Metadata p)"

section \<open>Scan results\<close>

record violation =
  v_RuleID :: string
  v_Message :: string
  v_Severity :: string
  v_Line :: int
  v_Column :: int
  v_RuleTimeoutMs :: int
  v_Category :: string
  v_ResponseAction :: string
  v_ResponseMessage :: string
  v_ResponseReplacement :: string

record metrics =
  BytesRead :: int
  LinesRead :: int
  RegexAttempts :: int
  RegexSkipped :: int
  SemanticAttempts :: int
  SemanticSkipped :: int

record scanInfo =
  si_TotalViolations :: int
  si_ScanStatus :: string
  si_ScanDurationMs :: int
  si_RulesProcessed :: int
  si_RulesSkipped :: int
  si_RulesTimedOut :: int
  si_RulesErrored :: int
  si_Level1DurationMs :: int
  si_Level2DurationMs :: int
  si_Level3DurationMs :: int
  si_CacheHits :: int
  si_CacheMisses :: int
  si_ShouldBlock :: bool
  si_BlockReason :: string
  si_HighestSeverity :: string
  si_TriggerRuleCount :: int
  si_PeakMemoryBytes :: int
  si_CPUTimeMs :: int

record scanResult =
  sr_Input :: string
  sr_Violations :: "violation list"
  sr_Metrics :: metrics
  sr_ScanInfo :: scanInfo
  sr_DurationMs :: int

section \<open>Zero values\<close>

text \<open>The values Go gives to fields a composite literal leaves out.\<close>

definition zeroMetadata :: metadata where
  "zeroMetadata = \<lparr>m_Name = [], m_Version = [], m_Description = [], m_Author = [], m_License = [],
     m_Homepage = [], m_Repository = [], m_Tags = []\<rparr>"

definition zeroRule :: rule where
  "zeroRule = \<lparr>r_ID = [], r_Name = [], r_Level = 0, r_Severity = [], r_Category = [],
     r_Enabled = None, r_Verifier = [], r_Keywords = [], r_Patterns = [], r_Semantic = None,
     r_Fallback = None, r_Logic = [], r_Options = \<lparr>o_CaseSensitive = False, o_WholeWord = False\<rparr>,
     r_Response = None, r_Cache = None, r_When = None, r_Unless = None, r_Timeout = []\<rparr>"

definition zeroPack :: rulePack where
  "zeroPack = \<lparr>p_APIVersion = [], p_Kind = [], p_Metadata = zeroMetadata, p_Rules = [],
     p_Extends = [], p_Imports = [], p_Composition = None, p_Performance = None, p_Overrides = [],
     p_Context = [], p_SourcePath = []\<rparr>"

definition zeroViolation :: violation where
  "zeroViolation = \<lparr>v_RuleID = [], v_Message = [], v_Severity = [], v_Line = 0, v_Column = 0,
     v_RuleTimeoutMs = 0, v_Category = [], v_ResponseAction = [], v_ResponseMessage = [],
     v_ResponseReplacement = []\<rparr>"

definition zeroMetrics :: metrics where
  "zeroMetrics = \<lparr>BytesRead = 0, LinesRead = 0, RegexAttempts = 0, RegexSkipped = 0,
     SemanticAttempts = 0, SemanticSkipped = 0\<rparr>"

definition zeroScanInfo :: scanInfo where
  "zeroScanInfo = \<lparr>si_TotalViolations = 0, si_ScanStatus = [], si_ScanDurationMs = 0,
     si_RulesProcessed = 0, si_RulesSkipped = 0, si_RulesTimedOut = 0, si_RulesErrored = 0,
     si_Level1DurationMs = 0, si_Level2DurationMs = 0, si_Level3DurationMs = 0, si_CacheHits = 0,
     si_CacheMisses = 0, si_ShouldBlock = False, si_BlockReason = [], si_HighestSeverity = [],
     si_TriggerRuleCount = 0, si_PeakMemoryBytes = 0, si_CPUTimeMs = 0\<rparr>"

definition zeroScanResult :: scanResult where
  "zeroScanResult = \<lparr>sr_Input = [], sr_Violations = [], sr_Metrics = zeroMetrics,
     sr_ScanInfo = zeroScanInfo, sr_DurationMs = 0\<rparr>"

text \<open>\<open>ScanResult.ShouldBlock\<close> reads the flag the scan left in \<^verbatim>\<open>ScanInfo\<close>.\<close>

definition ShouldBlock :: "scanResult \<Rightarrow> bool" where
  "ShouldBlock sr = si_ShouldBlock (sr_ScanInfo sr)"

lemmas zero_defs =
  zeroMetadata_def zeroRule_def zeroPack_def zeroViolation_def zeroMetrics_def zeroScanInfo_def
  zeroScanResult_def

end
