(* ===== verification/Rules_Merge.thy ===== *)
theory Rules_Merge
  imports Rules_Types "HOL-Library.Product_Lexorder"
begin

text \<open>
  Merging rule packs: \<^verbatim>\<open>internal/rules/merge.go\<close>. Both merges resolve \<^verbatim>\<open>extends\<close> by a
  depth-first walk over pack names, then fold the packs in that order. The recursive closure
  \<^verbatim>\<open>visit\<close> is \<open>visitAll\<close> on the list of names still to visit, which returns the grown
  \<^verbatim>\<open>visited\<close> map (as a list) and the processing order.
\<close>

section \<open>Definitions\<close>

definition getPriority :: "rulePack \<Rightarrow> int" where
  "getPriority p = (case p_Composition p of Some c \<Rightarrow> co_Priority c | None \<Rightarrow> 0)"

text \<open>\<^verbatim>\<open>byName[n] = p\<close> for each pack in turn: the last pack of a name stays.\<close>

definition byName :: "rulePack list \<Rightarrow> string \<Rightarrow> rulePack option" where
  "byName packs = foldl (\<lambda>m p. m(packName p \<mapsto> p)) Map.empty packs"

text \<open>The names a visit of \<open>p\<close> recurses into.\<close>

definition knownDeps :: "rulePack list \<Rightarrow> rulePack \<Rightarrow> string list" where
  "knownDeps packs p = filter (\<lambda>d. byName packs d \<noteq> None) (p_Extends p)"

function visitAll :: "rulePack list \<Rightarrow> string list \<Rightarrow> string list \<Rightarrow> string list
    \<Rightarrow> string list \<times> string list" where
  "visitAll packs [] vis ord = (vis, ord)"
| "visitAll packs (n # ns) vis ord =
     (if n \<in> set vis then visitAll packs ns vis ord
      else (case byName packs n of
              None \<Rightarrow> visitAll packs ns (n # vis) ord
            | Some p \<Rightarrow>
                (let (vis', ord') = visitAll packs (knownDeps packs p) (n # vis) ord
                 in visitAll packs ns vis' (ord' @ [n]))))"
  by pat_completeness auto

text \<open>Later definitions of a rule id replace earlier ones.\<close>

definition mergeRules :: "rulePack list \<Rightarrow> string list \<Rightarrow> string \<Rightarrow> rule option" where
  "mergeRules packs order =
     foldl (\<lambda>m n. case byName packs n of None \<Rightarrow> m
                  | Some p \<Rightarrow> foldl (\<lambda>m r. m(r_ID r \<mapsto> r)) m (p_Rules p)) Map.empty order"

definition applyOverride :: "override \<Rightarrow> rule \<Rightarrow> rule" where
  "applyOverride ov r =
     (let r1 = (if ov_Severity ov \<noteq> [] then r\<lparr>r_Severity := ov_Severity ov\<rparr> else r)
      in (if ov_Enabled ov \<noteq> None then r1\<lparr>r_Enabled := ov_Enabled ov\<rparr> else r1))"

definition overrideById :: "(string \<Rightarrow> rule option) \<Rightarrow> override \<Rightarrow> (string \<Rightarrow> rule option)" where
  "overrideById m ov =
     (case m (ov_RuleID ov) of None \<Rightarrow> m | Some r \<Rightarrow> m(ov_RuleID ov \<mapsto> applyOverride ov r))"

definition mergeOverrides :: "rulePack list \<Rightarrow> string list \<Rightarrow> (string \<Rightarrow> rule option)
    \<Rightarrow> (string \<Rightarrow> rule option)" where
  "mergeOverrides packs order m =
     foldl (\<lambda>m n. case byName packs n of None \<Rightarrow> m
                  | Some p \<Rightarrow> foldl overrideById m (p_Overrides p)) m order"

definition ruleEnabled :: "rule \<Rightarrow> bool" where
  "ruleEnabled r \<longleftrightarrow> \<not> (r_Enabled r = Some False)"

text \<open>The ids of all rules of the packs in processing order: the keys of \<^verbatim>\<open>byID\<close>.\<close>

definition orderedRules :: "rulePack list \<Rightarrow> string list \<Rightarrow> rule list" where
  "orderedRules packs order =
     concat (map (\<lambda>n. case byName packs n of None \<Rightarrow> [] | Some p \<Rightarrow> p_Rules p) order)"

definition MergePacks :: "rulePack list \<Rightarrow> rule list" where
  "MergePacks packs =
     (let names = sort (map packName packs);
          order = snd (visitAll packs names [] []);
          byID = mergeOverrides packs order (mergeRules packs order);
          ids = filter (\<lambda>i. case byID i of Some r \<Rightarrow> ruleEnabled r | None \<Rightarrow> False)
                  (remdups (map r_ID (orderedRules packs order)))
      in map (\<lambda>i. the (byID i)) (sort ids))"

text \<open>
  \<open>MergePacksPriorityOrder\<close>. The comparison of the \<^verbatim>\<open>sort.Slice\<close> call; the sort itself is the
  argument \<open>srt\<close>, since \<^verbatim>\<open>sort.Slice\<close> does not say where it puts equal elements.
\<close>

definition packLess :: "rulePack \<Rightarrow> rulePack \<Rightarrow> bool" where
  "packLess p q =
     (let pi = getPriority p; pj = getPriority q
      in if pi \<noteq> pj then pi > pj else packName p < packName q)"

fun firstWins :: "string list \<Rightarrow> rule list \<Rightarrow> rule list" where
  "firstWins seen [] = []"
| "firstWins seen (r # rs) =
     (if r_ID r \<in> set seen then firstWins seen rs else r # firstWins (r_ID r # seen) rs)"

definition overrideInPlace :: "override list \<Rightarrow> rule \<Rightarrow> rule" where
  "overrideInPlace ovs r =
     foldl (\<lambda>r ov. if r_ID r \<noteq> ov_RuleID ov then r else applyOverride ov r) r ovs"

definition MergePacksPriorityOrder ::
    "(rulePack list \<Rightarrow> rulePack list) \<Rightarrow> rulePack list \<Rightarrow> rule list" where
  "MergePacksPriorityOrder srt packs =
     (let sorted_packs = srt packs;
          order = snd (visitAll sorted_packs (map packName sorted_packs) [] []);
          out = firstWins [] (orderedRules sorted_packs order);
          out' = foldl (\<lambda>out n. case byName sorted_packs n of None \<Rightarrow> out
                          | Some p \<Rightarrow> map (overrideInPlace (p_Overrides p)) out) out order
      in filter ruleEnabled out')"

text \<open>What \<^verbatim>\<open>sort.Slice\<close> promises: a permutation in which no later element is less.\<close>

definition sortsPacks :: "(rulePack list \<Rightarrow> rulePack list) \<Rightarrow> bool" where
  "sortsPacks srt \<longleftrightarrow> (\<forall>ps. mset (srt ps) = mset ps \<and> sorted_wrt (\<lambda>p q. \<not> packLess q p) (srt ps))"

section \<open>The pack index\<close>

lemma byName_snoc: "byName (ps @ [p]) = (byName ps)(packName p \<mapsto> p)"
  by (simp add: byName_def)

lemma byName_None_iff: "byName packs n = None \<longleftrightarrow> n \<notin> packName ` set packs"
  by (induction packs rule: rev_induct) (auto simp: byName_snoc, simp add: byName_def)

lemma byName_SomeD: "byName packs n = Some p \<Longrightarrow> p \<in> set packs \<and> packName p = n"
proof (induction packs rule: rev_induct)
  case Nil
  then show ?case by (simp add: byName_def)
qed (auto simp: byName_snoc split: if_splits)

lemma byName_distinct:
  "distinct (map packName packs) \<Longrightarrow> byName packs n = Some p \<longleftrightarrow> p \<in> set packs \<and> packName p = n"
proof (induction packs rule: rev_induct)
  case Nil
  then show ?case by (simp add: byName_def)
next
  case (snoc q packs)
  moreover from snoc.prems have "byName packs (packName q) = None"
    by (simp add: byName_None_iff)
  ultimately show ?case by (auto simp: byName_snoc)
qed

lemma byName_perm:
  assumes "mset packs = mset packs'" "distinct (map packName packs)"
  shows "byName packs = byName packs'"
proof
  fix n
  have d: "distinct (map packName packs')" using assms
    by (metis mset_eq_imp_distinct_iff mset_map)
  have s: "set packs = set packs'" using assms(1) by (metis set_mset_mset)
  show "byName packs n = byName packs' n"
    using byName_distinct [OF assms(2), of n] byName_distinct [OF d, of n] s
    by (metis not_None_eq)
qed

section \<open>Termination of the walk\<close>

lemma visitAll_mono_dom:
  "visitAll_dom (packs, ns, vis, ord) \<Longrightarrow> set vis \<subseteq> set (fst (visitAll packs ns vis ord))"
proof (induction packs ns vis ord rule: visitAll.pinduct)
  case (2 packs n ns vis ord)
  show ?case
  proof (cases "n \<in> set vis")
    case True
    with 2 show ?thesis by (simp add: visitAll.psimps)
  next
    case new: False
    show ?thesis
    proof (cases "byName packs n")
      case None
      with new 2 show ?thesis by (auto simp: visitAll.psimps)
    next
      case (Some p)
      obtain vis' ord' where v: "visitAll packs (knownDeps packs p) (n # vis) ord = (vis', ord')"
        by force
      with new Some 2 have "set (n # vis) \<subseteq> set vis'"
        by fastforce
      moreover have "set vis' \<subseteq> set (fst (visitAll packs ns vis' (ord' @ [n])))"
        using 2(5) [OF new Some refl, of vis' ord'] v by auto
      ultimately show ?thesis
        using new Some v 2(1) by (auto simp: visitAll.psimps)
    qed
  qed
qed (simp add: visitAll.psimps)

definition unvisited :: "rulePack list \<Rightarrow> string list \<Rightarrow> nat" where
  "unvisited packs vis = card (packName ` set packs - set vis)"

lemma unvisited_less:
  "n \<notin> set vis \<Longrightarrow> byName packs n = Some p \<Longrightarrow> set (n # vis) \<subseteq> set vis' \<Longrightarrow>
   unvisited packs vis' < unvisited packs vis"
  unfolding unvisited_def by (rule psubset_card_mono) (auto dest: byName_SomeD)

lemma unvisited_le: "unvisited packs (n # vis) \<le> unvisited packs vis"
  unfolding unvisited_def by (rule card_mono) auto

termination visitAll
proof (relation "measures [\<lambda>(packs, ns, vis, ord). unvisited packs vis, \<lambda>(packs, ns, vis, ord). length ns]",
    goal_cases)
  case (3 packs n ns vis ord)
  then show ?case using unvisited_le [of packs n vis] by auto
next
  case (4 packs n ns vis ord p)
  then show ?case using unvisited_less [of n vis packs p "n # vis"] by auto
next
  case (5 packs n ns vis ord p x vis' ord')
  then have "set (n # vis) \<subseteq> set vis'"
    using visitAll_mono_dom [of packs "knownDeps packs p" "n # vis" ord] by (metis fst_conv)
  with 5 show ?case using unvisited_less [of n vis packs p vis'] by auto
qed auto

declare visitAll.simps(2) [simp del]

section \<open>What the walk returns\<close>

definition depEdge :: "rulePack list \<Rightarrow> string \<Rightarrow> string \<Rightarrow> bool" where
  "depEdge packs n d \<longleftrightarrow> (\<exists>p. byName packs n = Some p \<and> d \<in> set (knownDeps packs p))"

abbreviation known :: "rulePack list \<Rightarrow> string set" where
  "known packs \<equiv> packName ` set packs"

lemma knownDeps_known: "set (knownDeps packs p) \<subseteq> known packs"
  by (auto simp: knownDeps_def byName_None_iff)

text \<open>
  One lemma carries the walk: every name given is visited, what is appended to the order is
  exactly the newly visited known names, each once.
\<close>

lemma visitAll_spec:
  assumes "visitAll packs ns vis ord = (vis', ord')"
  shows "set vis \<union> set ns \<subseteq> set vis' \<and> set vis' \<subseteq> set vis \<union> set ns \<union> known packs
    \<and> (\<exists>new. ord' = ord @ new \<and> distinct new \<and> set new = (set vis' - set vis) \<inter> known packs)"
  using assms
proof (induction packs ns vis ord arbitrary: vis' ord' rule: visitAll.induct)
  case (2 packs n ns vis ord)
  show ?case
  proof (cases "n \<in> set vis")
    case True
    with 2 show ?thesis by (auto simp: visitAll.simps)
  next
    case new: False
    show ?thesis
    proof (cases "byName packs n")
      case None
      then have n: "n \<notin> known packs" by (simp add: byName_None_iff)
      have "visitAll packs ns (n # vis) ord = (vis', ord')"
        using 2(5) new None by (simp add: visitAll.simps)
      note ih = 2(2) [OF new None this]
      from n have "(set vis' - set (n # vis)) \<inter> known packs = (set vis' - set vis) \<inter> known packs"
        by auto
      with ih show ?thesis by auto
    next
      case (Some p)
      then have n: "n \<in> known packs" by (metis byName_None_iff option.distinct(1))
      obtain v1 o1 where v: "visitAll packs (knownDeps packs p) (n # vis) ord = (v1, o1)" by force
      from 2(3) [OF new Some v] obtain n1 where
        a: "insert n (set vis) \<union> set (knownDeps packs p) \<subseteq> set v1"
          "set v1 \<subseteq> insert n (set vis) \<union> set (knownDeps packs p) \<union> known packs"
          "o1 = ord @ n1" "distinct n1" "set n1 = (set v1 - insert n (set vis)) \<inter> known packs"
        by auto
      have "visitAll packs ns v1 (o1 @ [n]) = (vis', ord')"
        using 2(5) new Some v by (simp add: visitAll.simps)
      from 2(4) [OF new Some refl v [symmetric] this] obtain n2 where
        b: "set v1 \<union> set ns \<subseteq> set vis'" "set vis' \<subseteq> set v1 \<union> set ns \<union> known packs"
          "ord' = (o1 @ [n]) @ n2" "distinct n2" "set n2 = (set vis' - set v1) \<inter> known packs"
        by auto
      have "ord' = ord @ (n1 @ n # n2)" using a b by simp
      moreover have "distinct (n1 @ n # n2)" using a b by auto
      moreover have "set (n1 @ n # n2) = (set vis' - set vis) \<inter> known packs"
        using a b n new by auto
      ultimately show ?thesis using a b knownDeps_known [of packs p] by auto
    qed
  qed
qed simp

text \<open>
  The order respects \<^verbatim>\<open>extends\<close>: a dependency comes before the pack that extends it, except on
  a cycle. The induction carries the packs still open (visited, not yet emitted): each of them
  reaches every name still to be visited.
\<close>

definition depOrdered :: "rulePack list \<Rightarrow> string list \<Rightarrow> bool" where
  "depOrdered packs ord \<longleftrightarrow> (\<forall>xs n ys. ord = xs @ n # ys \<longrightarrow>
     (\<forall>d. depEdge packs n d \<longrightarrow> d \<in> set xs \<or> (depEdge packs)\<^sup>*\<^sup>* d n))"

lemma depOrdered_snoc:
  "depOrdered packs (ord @ [n]) \<longleftrightarrow> depOrdered packs ord \<and>
     (\<forall>d. depEdge packs n d \<longrightarrow> d \<in> set ord \<or> (depEdge packs)\<^sup>*\<^sup>* d n)"
proof
  assume l: "depOrdered packs (ord @ [n])"
  have "depOrdered packs ord"
    unfolding depOrdered_def
  proof (intro allI impI)
    fix xs m ys d
    assume "ord = xs @ m # ys" "depEdge packs m d"
    moreover from this have "ord @ [n] = xs @ m # (ys @ [n])" by simp
    ultimately show "d \<in> set xs \<or> (depEdge packs)\<^sup>*\<^sup>* d m" using l unfolding depOrdered_def by blast
  qed
  moreover have "\<forall>d. depEdge packs n d \<longrightarrow> d \<in> set ord \<or> (depEdge packs)\<^sup>*\<^sup>* d n"
    using l unfolding depOrdered_def by blast
  ultimately show "depOrdered packs ord \<and>
     (\<forall>d. depEdge packs n d \<longrightarrow> d \<in> set ord \<or> (depEdge packs)\<^sup>*\<^sup>* d n)" by blast
next
  assume r: "depOrdered packs ord \<and>
     (\<forall>d. depEdge packs n d \<longrightarrow> d \<in> set ord \<or> (depEdge packs)\<^sup>*\<^sup>* d n)"
  show "depOrdered packs (ord @ [n])"
    unfolding depOrdered_def
  proof (intro allI impI)
    fix xs m ys d
    assume e: "ord @ [n] = xs @ m # ys" and d: "depEdge packs m d"
    show "d \<in> set xs \<or> (depEdge packs)\<^sup>*\<^sup>* d m"
    proof (cases ys rule: rev_cases)
      case Nil
      with e d r show ?thesis by auto
    next
      case (snoc ys' y)
      with e have "ord = xs @ m # ys'" by simp
      with d r show ?thesis unfolding depOrdered_def by blast
    qed
  qed
qed

lemma visitAll_depOrdered:
  assumes "visitAll packs ns vis ord = (vis', ord')" "depOrdered packs ord"
    and "\<forall>g \<in> (set vis \<inter> known packs) - set ord. \<forall>m \<in> set ns. (depEdge packs)\<^sup>*\<^sup>* g m"
  shows "depOrdered packs ord'"
  using assms
proof (induction packs ns vis ord arbitrary: vis' ord' rule: visitAll.induct)
  case (2 packs n ns vis ord)
  show ?case
  proof (cases "n \<in> set vis")
    case True
    with 2 show ?thesis by (auto simp: visitAll.simps)
  next
    case new: False
    show ?thesis
    proof (cases "byName packs n")
      case None
      then have "n \<notin> known packs" by (simp add: byName_None_iff)
      with 2(2) [OF new None _ 2(6)] 2(5,7) new None show ?thesis
        by (auto simp: visitAll.simps)
    next
      case (Some p)
      let ?deps = "knownDeps packs p"
      obtain v1 o1 where v: "visitAll packs ?deps (n # vis) ord = (v1, o1)" by force
      have edge: "depEdge packs n d" if "d \<in> set ?deps" for d
        using that Some by (auto simp: depEdge_def)
      have open1: "\<forall>g \<in> (set (n # vis) \<inter> known packs) - set ord. (depEdge packs)\<^sup>*\<^sup>* g n"
        using 2(7) by auto
      have "\<forall>g \<in> (set (n # vis) \<inter> known packs) - set ord. \<forall>m \<in> set ?deps. (depEdge packs)\<^sup>*\<^sup>* g m"
        using open1 edge by (meson rtranclp.rtrancl_into_rtrancl)
      then have o1: "depOrdered packs o1" by (rule 2(3) [OF new Some v 2(6)])
      from visitAll_spec [OF v] obtain n1 where
        a: "insert n (set vis) \<union> set ?deps \<subseteq> set v1" "o1 = ord @ n1"
          "set n1 = (set v1 - insert n (set vis)) \<inter> known packs"
        by auto
      have "d \<in> set o1 \<or> (depEdge packs)\<^sup>*\<^sup>* d n" if "depEdge packs n d" for d
      proof -
        from that Some have "d \<in> set ?deps" by (simp add: depEdge_def)
        then have "d \<in> set v1 \<inter> known packs" using a knownDeps_known by blast
        then show ?thesis using a open1 by auto
      qed
      then have o2: "depOrdered packs (o1 @ [n])" using o1 by (simp add: depOrdered_snoc)
      have w: "visitAll packs ns v1 (o1 @ [n]) = (vis', ord')"
        using 2(5) new Some v by (simp add: visitAll.simps)
      have "\<forall>g \<in> (set v1 \<inter> known packs) - set (o1 @ [n]). \<forall>m \<in> set ns. (depEdge packs)\<^sup>*\<^sup>* g m"
        using a 2(7) by auto
      then show ?thesis by (rule 2(4) [OF new Some refl v [symmetric] w o2])
    qed
  qed
qed simp

text \<open>The processing order of a merge that starts from a list of all the pack names.\<close>

definition processingOrder :: "rulePack list \<Rightarrow> string list \<Rightarrow> string list" where
  "processingOrder packs names = snd (visitAll packs names [] [])"

lemma processingOrder_spec:
  assumes "set names = known packs"
  shows "distinct (processingOrder packs names)" "set (processingOrder packs names) = known packs"
    "depOrdered packs (processingOrder packs names)"
proof -
  obtain v o1 where v: "visitAll packs names [] [] = (v, o1)" by force
  from visitAll_spec [OF v] assms show "distinct (processingOrder packs names)"
    "set (processingOrder packs names) = known packs"
    unfolding processingOrder_def v by auto
  have "depOrdered packs []" by (simp add: depOrdered_def)
  from visitAll_depOrdered [OF v this] show "depOrdered packs (processingOrder packs names)"
    unfolding processingOrder_def v by simp
qed

section \<open>Folding the packs\<close>

definition orderedOverrides :: "rulePack list \<Rightarrow> string list \<Rightarrow> override list" where
  "orderedOverrides packs order =
     concat (map (\<lambda>n. case byName packs n of None \<Rightarrow> [] | Some p \<Rightarrow> p_Overrides p) order)"

lemma foldl_upd_rules:
  "foldl (\<lambda>m r. m(r_ID r \<mapsto> r)) m rs i =
     (case find (\<lambda>r. r_ID r = i) (rev rs) of Some r \<Rightarrow> Some r | None \<Rightarrow> m i)"
  by (induction rs rule: rev_induct) auto

lemma foldl_concat_case:
  "foldl (\<lambda>m n. case g n of None \<Rightarrow> m | Some p \<Rightarrow> foldl f m (h p)) m order =
   foldl f m (concat (map (\<lambda>n. case g n of None \<Rightarrow> [] | Some p \<Rightarrow> h p) order))"
  by (induction order arbitrary: m) (auto split: option.splits)

lemma mergeRules_find:
  "mergeRules packs order i = find (\<lambda>r. r_ID r = i) (rev (orderedRules packs order))"
  unfolding mergeRules_def foldl_concat_case orderedRules_def foldl_upd_rules
  by (simp split: option.splits)

lemma applyOverride_ID [simp]: "r_ID (applyOverride ov r) = r_ID r"
  by (simp add: applyOverride_def Let_def)

lemma overrideInPlace_ID [simp]: "r_ID (overrideInPlace ovs r) = r_ID r"
  unfolding overrideInPlace_def by (induction ovs rule: rev_induct) auto

lemma overrideInPlace_Nil [simp]: "overrideInPlace [] r = r"
  by (simp add: overrideInPlace_def)

lemma overrideInPlace_append:
  "overrideInPlace (a @ b) r = overrideInPlace b (overrideInPlace a r)"
  by (simp add: overrideInPlace_def)

definition keyed :: "(string \<Rightarrow> rule option) \<Rightarrow> bool" where
  "keyed m \<longleftrightarrow> (\<forall>i r. m i = Some r \<longrightarrow> r_ID r = i)"

lemma overrideById_keyed: "keyed m \<Longrightarrow> keyed (overrideById m ov)"
  by (auto simp: keyed_def overrideById_def split: option.splits)

lemma foldl_overrideById:
  "keyed m \<Longrightarrow> foldl overrideById m ovs i = map_option (overrideInPlace ovs) (m i)"
proof (induction ovs rule: rev_induct)
  case Nil
  then show ?case by (simp add: overrideInPlace_def option.map_id0 [unfolded id_def])
next
  case (snoc ov ovs)
  have step: "overrideInPlace (ovs @ [ov]) r =
      (if r_ID r \<noteq> ov_RuleID ov then overrideInPlace ovs r else applyOverride ov (overrideInPlace ovs r))"
    for r using overrideInPlace_ID [of ovs r] unfolding overrideInPlace_def by simp
  from snoc show ?case
    by (cases "m i") (auto simp: overrideById_def step keyed_def split: option.splits)
qed

lemma mergeRules_keyed: "keyed (mergeRules packs order)"
  by (auto simp: keyed_def mergeRules_find find_Some_iff)

text \<open>The final definition of a rule id after both folds.\<close>

definition finalRule :: "rulePack list \<Rightarrow> string list \<Rightarrow> string \<Rightarrow> rule option" where
  "finalRule packs order i =
     map_option (overrideInPlace (orderedOverrides packs order))
       (find (\<lambda>r. r_ID r = i) (rev (orderedRules packs order)))"

lemma merged_final:
  "mergeOverrides packs order (mergeRules packs order) = finalRule packs order"
  unfolding mergeOverrides_def foldl_concat_case
  by (rule ext) (simp add: foldl_overrideById [OF mergeRules_keyed] mergeRules_find finalRule_def
      orderedOverrides_def)

lemma finalRule_ID: "finalRule packs order i = Some r \<Longrightarrow> r_ID r = i"
  by (auto simp: finalRule_def find_Some_iff)

lemma find_in_set: "find P xs = Some x \<Longrightarrow> x \<in> set xs \<and> P x"
  by (auto simp: find_Some_iff)

lemma finalRule_mem: "finalRule packs order i = Some r \<Longrightarrow> i \<in> set (map r_ID (orderedRules packs order))"
  by (auto simp: finalRule_def dest!: find_in_set)

definition mergeOrder :: "rulePack list \<Rightarrow> string list" where
  "mergeOrder packs = processingOrder packs (sort (map packName packs))"

definition mergedIds :: "rulePack list \<Rightarrow> string list" where
  "mergedIds packs =
     sort (filter (\<lambda>i. case finalRule packs (mergeOrder packs) i of Some r \<Rightarrow> ruleEnabled r | None \<Rightarrow> False)
            (remdups (map r_ID (orderedRules packs (mergeOrder packs)))))"

lemma MergePacks_alt:
  "MergePacks packs = map (\<lambda>i. the (finalRule packs (mergeOrder packs) i)) (mergedIds packs)"
  by (simp add: MergePacks_def Let_def merged_final mergedIds_def mergeOrder_def processingOrder_def)

lemma mergedIds_final:
  "i \<in> set (mergedIds packs) \<longleftrightarrow>
     (\<exists>r. finalRule packs (mergeOrder packs) i = Some r \<and> ruleEnabled r)"
  by (auto simp: mergedIds_def split: option.splits dest: finalRule_mem)

lemma map_ID_MergePacks: "map r_ID (MergePacks packs) = mergedIds packs"
  unfolding MergePacks_alt map_map
  by (rule map_idI) (auto simp: mergedIds_final dest: finalRule_ID)

lemma orderedRules_perm:
  "byName packs = byName packs' \<Longrightarrow> orderedRules packs order = orderedRules packs' order"
  "byName packs = byName packs' \<Longrightarrow> orderedOverrides packs order = orderedOverrides packs' order"
  by (simp_all add: orderedRules_def orderedOverrides_def)

lemma visitAll_cong:
  "byName packs = byName packs' \<Longrightarrow> visitAll packs ns vis ord = visitAll packs' ns vis ord"
proof (induction packs ns vis ord rule: visitAll.induct)
  case (2 packs n ns vis ord)
  then have deps: "knownDeps packs p = knownDeps packs' p" for p by (simp add: knownDeps_def)
  show ?case
    using 2 by (auto simp: visitAll.simps deps split: option.splits prod.splits)
qed simp

section \<open>First-wins merging\<close>

lemma firstWins_ids: "i \<in> set (map r_ID (firstWins seen rs)) \<longleftrightarrow> i \<in> set (map r_ID rs) \<and> i \<notin> set seen"
  by (induction seen rs rule: firstWins.induct) auto

lemma firstWins_distinct: "distinct (map r_ID (firstWins seen rs))"
proof (induction seen rs rule: firstWins.induct)
  case (2 seen r rs)
  then show ?case using firstWins_ids [of "r_ID r" "r_ID r # seen" rs] by auto
qed simp

lemma firstWins_mem:
  "r \<in> set (firstWins seen rs) \<longleftrightarrow> find (\<lambda>q. r_ID q = r_ID r) rs = Some r \<and> r_ID r \<notin> set seen"
proof (induction seen rs rule: firstWins.induct)
  case (2 seen q rs)
  then show ?case by (cases "r_ID q = r_ID r") auto
qed simp

lemma foldl_map_overrides:
  "foldl (\<lambda>out n. case g n of None \<Rightarrow> out | Some p \<Rightarrow> map (overrideInPlace (p_Overrides p)) out) out order
   = map (overrideInPlace (concat (map (\<lambda>n. case g n of None \<Rightarrow> [] | Some p \<Rightarrow> p_Overrides p) order))) out"
proof (induction order arbitrary: out)
  case Nil
  then show ?case by (simp add: overrideInPlace_def)
next
  case (Cons n order)
  then show ?case
    by (cases "g n") (simp_all add: overrideInPlace_append)
qed

definition priorityOrder :: "(rulePack list \<Rightarrow> rulePack list) \<Rightarrow> rulePack list \<Rightarrow> string list" where
  "priorityOrder srt packs = processingOrder (srt packs) (map packName (srt packs))"

lemma MergePacksPriorityOrder_alt:
  "MergePacksPriorityOrder srt packs =
     filter ruleEnabled (map (overrideInPlace (orderedOverrides (srt packs) (priorityOrder srt packs)))
       (firstWins [] (orderedRules (srt packs) (priorityOrder srt packs))))"
  by (simp add: MergePacksPriorityOrder_def Let_def foldl_map_overrides orderedOverrides_def
      priorityOrder_def processingOrder_def)

text \<open>With no \<^verbatim>\<open>extends\<close> the walk emits the names in the order it is given them.\<close>

lemma visitAll_no_extends:
  assumes "\<forall>p \<in> set packs. p_Extends p = []" "set ns \<subseteq> known packs" "distinct ns" "set ns \<inter> set vis = {}"
  shows "snd (visitAll packs ns vis ord) = ord @ ns"
  using assms
proof (induction ns arbitrary: vis ord)
  case (Cons n ns)
  then obtain p where p: "byName packs n = Some p"
    using byName_None_iff [of packs n] by auto
  with Cons.prems have "knownDeps packs p = []"
    by (auto simp: knownDeps_def dest: byName_SomeD)
  with p Cons show ?case by (auto simp: visitAll.simps)
qed simp

section \<open>Properties\<close>

lemma mergeOrder_spec:
  "distinct (mergeOrder packs)" "set (mergeOrder packs) = known packs" "depOrdered packs (mergeOrder packs)"
  unfolding mergeOrder_def by (rule processingOrder_spec, simp)+

text \<open>
  C4. \<open>MergePacks\<close> returns, in strictly increasing order of rule id, exactly the enabled rules
  among: for each id, the last definition in processing order with all overrides of that id
  applied in processing order.
\<close>

theorem MergePacks_spec:
  "sorted_wrt (<) (map r_ID (MergePacks packs)) \<and>
   (r \<in> set (MergePacks packs) \<longleftrightarrow>
      ruleEnabled r \<and>
      (\<exists>r0. find (\<lambda>q. r_ID q = r_ID r) (rev (orderedRules packs (mergeOrder packs))) = Some r0 \<and>
            r = overrideInPlace (orderedOverrides packs (mergeOrder packs)) r0))"
proof
  have "sorted (mergedIds packs)" "distinct (mergedIds packs)" by (simp_all add: mergedIds_def)
  then show "sorted_wrt (<) (map r_ID (MergePacks packs))"
    by (simp add: map_ID_MergePacks strict_sorted_iff)
  have "r \<in> set (MergePacks packs) \<longleftrightarrow>
      ruleEnabled r \<and> finalRule packs (mergeOrder packs) (r_ID r) = Some r"
  proof
    assume "r \<in> set (MergePacks packs)"
    then obtain i where "i \<in> set (mergedIds packs)" "r = the (finalRule packs (mergeOrder packs) i)"
      by (auto simp: MergePacks_alt)
    then show "ruleEnabled r \<and> finalRule packs (mergeOrder packs) (r_ID r) = Some r"
      using finalRule_ID by (fastforce simp: mergedIds_final)
  next
    assume a: "ruleEnabled r \<and> finalRule packs (mergeOrder packs) (r_ID r) = Some r"
    then have "r_ID r \<in> set (mergedIds packs)" by (auto simp: mergedIds_final)
    then have "the (finalRule packs (mergeOrder packs) (r_ID r)) \<in> set (MergePacks packs)"
      by (simp add: MergePacks_alt)
    with a show "r \<in> set (MergePacks packs)" by simp
  qed
  then show "r \<in> set (MergePacks packs) \<longleftrightarrow>
      ruleEnabled r \<and>
      (\<exists>r0. find (\<lambda>q. r_ID q = r_ID r) (rev (orderedRules packs (mergeOrder packs))) = Some r0 \<and>
            r = overrideInPlace (orderedOverrides packs (mergeOrder packs)) r0)"
    by (auto simp: finalRule_def)
qed

text \<open>
  The processing order of \<open>MergePacks\<close> holds every pack name once, and a pack comes after
  each known pack it extends, unless the two are on an \<^verbatim>\<open>extends\<close> cycle.
\<close>

theorem MergePacks_extends_first:
  assumes "byName packs n = Some p" "d \<in> set (p_Extends p)" "d \<in> known packs"
    and "\<not> (depEdge packs)\<^sup>*\<^sup>* d n"
  shows "distinct (mergeOrder packs) \<and> set (mergeOrder packs) = known packs
    \<and> (\<exists>xs ys zs. mergeOrder packs = xs @ d # ys @ n # zs)"
proof -
  have "n \<in> set (mergeOrder packs)"
    using assms(1) byName_None_iff [of packs n] by (simp add: mergeOrder_spec)
  then obtain us zs where us: "mergeOrder packs = us @ n # zs" by (auto simp: in_set_conv_decomp)
  have "depEdge packs n d"
    using assms by (auto simp: depEdge_def knownDeps_def byName_None_iff)
  with us assms(4) mergeOrder_spec(3) [of packs] have "d \<in> set us" unfolding depOrdered_def by blast
  then obtain xs ys where "us = xs @ d # ys" by (auto simp: in_set_conv_decomp)
  with us show ?thesis using mergeOrder_spec [of packs] by auto
qed

definition namedPack :: "string \<Rightarrow> string list \<Rightarrow> rule list \<Rightarrow> rulePack" where
  "namedPack n ext rs = zeroPack\<lparr>p_Metadata := zeroMetadata\<lparr>m_Name := n\<rparr>, p_Extends := ext, p_Rules := rs\<rparr>"

lemma namedPack_sel [simp]: "packName (namedPack n e r) = n" "p_Extends (namedPack n e r) = e"
  "p_Rules (namedPack n e r) = r" "p_Composition (namedPack n e r) = None"
  by (simp_all add: namedPack_def zero_defs)

theorem MergePacks_extends_first_witness:
  "\<exists>xs ys zs. mergeOrder [namedPack ''a'' [''b''] [], namedPack ''b'' [] []] = xs @ ''b'' # ys @ ''a'' # zs"
proof -
  let ?ps = "[namedPack ''a'' [''b''] [], namedPack ''b'' [] []]"
  have b: "byName ?ps ''a'' = Some (namedPack ''a'' [''b''] [])" "byName ?ps ''b'' = Some (namedPack ''b'' [] [])"
    by (simp_all add: byName_def)
  have "\<not> depEdge ?ps ''b'' x" for x by (simp add: depEdge_def b knownDeps_def)
  then have "\<not> (depEdge ?ps)\<^sup>*\<^sup>* ''b'' ''a''" by (auto elim: converse_rtranclpE)
  from MergePacks_extends_first [OF b(1) _ _ this] show ?thesis by simp
qed

text \<open>Packs matter through what their names stand for and the multiset of names.\<close>

lemma MergePacks_cong:
  assumes b: "byName packs = byName packs'" and "sort (map packName packs) = sort (map packName packs')"
  shows "MergePacks packs = MergePacks packs'"
proof -
  from assms have "mergeOrder packs = mergeOrder packs'"
    by (simp add: mergeOrder_def processingOrder_def visitAll_cong [OF b])
  then show ?thesis
    by (simp add: MergePacks_alt mergedIds_def finalRule_def orderedRules_perm [OF b])
qed

text \<open>
  The result of \<open>MergePacks\<close> does not depend on the order in which packs with distinct names
  are passed in (the order of directory entries, of database rows or of a map iteration).
\<close>

theorem MergePacks_order_independent:
  assumes "mset packs = mset packs'" "distinct (map packName packs)"
  shows "MergePacks packs = MergePacks packs'"
proof (rule MergePacks_cong)
  show "byName packs = byName packs'" using assms by (rule byName_perm)
  show "sort (map packName packs) = sort (map packName packs')"
    using assms(1) by (intro properties_for_sort) (simp_all add: mset_map)
qed

theorem MergePacks_order_independent_witness:
  "MergePacks [namedPack ''a'' [''b''] [zeroRule], namedPack ''b'' [] []]
   = MergePacks [namedPack ''b'' [] [], namedPack ''a'' [''b''] [zeroRule]]"
  by (rule MergePacks_order_independent) simp_all

lemma MergePacksPriorityOrder_char:
  "distinct (map r_ID (MergePacksPriorityOrder srt packs)) \<and>
   (r \<in> set (MergePacksPriorityOrder srt packs) \<longleftrightarrow>
      ruleEnabled r \<and>
      (\<exists>r0. find (\<lambda>q. r_ID q = r_ID r) (orderedRules (srt packs) (priorityOrder srt packs)) = Some r0 \<and>
            r = overrideInPlace (orderedOverrides (srt packs) (priorityOrder srt packs)) r0))"
proof
  let ?f = "overrideInPlace (orderedOverrides (srt packs) (priorityOrder srt packs))"
  let ?o = "firstWins [] (orderedRules (srt packs) (priorityOrder srt packs))"
  have "distinct (map r_ID (map ?f ?o))" using firstWins_distinct by (simp add: o_def)
  then show "distinct (map r_ID (MergePacksPriorityOrder srt packs))"
    unfolding MergePacksPriorityOrder_alt by (rule distinct_map_filter)
  have "(\<exists>r0 \<in> set ?o. r = ?f r0) \<longleftrightarrow>
      (\<exists>r0. find (\<lambda>q. r_ID q = r_ID r) (orderedRules (srt packs) (priorityOrder srt packs)) = Some r0
         \<and> r = ?f r0)"
    unfolding Bex_def firstWins_mem by (metis find_in_set overrideInPlace_ID set_empty empty_iff)
  moreover have "r \<in> set (MergePacksPriorityOrder srt packs) \<longleftrightarrow> ruleEnabled r \<and> (\<exists>r0 \<in> set ?o. r = ?f r0)"
    by (auto simp: MergePacksPriorityOrder_alt)
  ultimately show "r \<in> set (MergePacksPriorityOrder srt packs) \<longleftrightarrow>
      ruleEnabled r \<and>
      (\<exists>r0. find (\<lambda>q. r_ID q = r_ID r) (orderedRules (srt packs) (priorityOrder srt packs)) = Some r0 \<and>
            r = ?f r0)"
    by blast
qed

text \<open>
  \<open>MergePacksPriorityOrder\<close>: rule ids are distinct, every rule is enabled, and each is the
  first definition of its id in processing order with all overrides applied (first wins).
\<close>

theorem MergePacksPriorityOrder_spec:
  "distinct (map r_ID (MergePacksPriorityOrder srt packs)) \<and>
   (r \<in> set (MergePacksPriorityOrder srt packs) \<longleftrightarrow>
      ruleEnabled r \<and>
      (\<exists>r0. find (\<lambda>q. r_ID q = r_ID r) (orderedRules (srt packs) (priorityOrder srt packs)) = Some r0 \<and>
            r = overrideInPlace (orderedOverrides (srt packs) (priorityOrder srt packs)) r0))"
  by (rule MergePacksPriorityOrder_char)

lemma priorityOrder_no_extends:
  assumes "sortsPacks srt" "distinct (map packName packs)" "\<forall>p \<in> set packs. p_Extends p = []"
  shows "priorityOrder srt packs = map packName (srt packs)"
proof -
  have m: "mset (srt packs) = mset packs" using assms(1) by (simp add: sortsPacks_def)
  then have "set (srt packs) = set packs" "distinct (map packName (srt packs))"
    using assms(2) by (metis set_mset_mset, metis mset_eq_imp_distinct_iff mset_map)
  with assms(3) show ?thesis
    unfolding priorityOrder_def processingOrder_def by (subst visitAll_no_extends) auto
qed

lemma orderedRules_packs:
  assumes "distinct (map packName packs)"
  shows "orderedRules packs (map packName packs) = concat (map p_Rules packs)"
proof -
  have "byName packs (packName p) = Some p" if "p \<in> set packs" for p
    using that byName_distinct [OF assms] by blast
  then show ?thesis unfolding orderedRules_def map_map by (metis (no_types, lifting) comp_apply map_cong option.simps(5))
qed

lemma find_append: "find P (xs @ ys) = (case find P xs of None \<Rightarrow> find P ys | Some x \<Rightarrow> Some x)"
  by (induction xs) auto

lemma find_concat_rules:
  "find P (concat (map f ps)) = Some r \<Longrightarrow>
   \<exists>us p vs. ps = us @ p # vs \<and> r \<in> set (f p) \<and> (\<forall>q \<in> set us. \<forall>x \<in> set (f q). \<not> P x)"
proof (induction ps)
  case (Cons p ps)
  show ?case
  proof (cases "find P (f p)")
    case None
    then have none: "\<forall>x \<in> set (f p). \<not> P x" by (simp add: find_None_iff)
    with Cons.prems None have "find P (concat (map f ps)) = Some r"
      by (auto simp: find_append split: option.splits)
    from Cons.IH [OF this] obtain us q vs where "ps = us @ q # vs" "r \<in> set (f q)"
      "\<forall>q \<in> set us. \<forall>x \<in> set (f q). \<not> P x" by blast
    with none show ?thesis by (intro exI [of _ "p # us"] exI [of _ q] exI [of _ vs]) auto
  next
    case (Some x)
    with Cons.prems have "r \<in> set (f p)" by (auto simp: find_append dest: find_in_set)
    then show ?thesis by (intro exI [of _ "[]"] exI [of _ p] exI [of _ ps]) auto
  qed
qed simp

text \<open>
  Without \<^verbatim>\<open>extends\<close>, a rule of the priority merge comes from a pack of the highest
  priority among the packs that define its id.
\<close>

theorem MergePacksPriorityOrder_highest_wins:
  assumes "sortsPacks srt" "distinct (map packName packs)" "\<forall>p \<in> set packs. p_Extends p = []"
    and "r \<in> set (MergePacksPriorityOrder srt packs)"
  shows "\<exists>p \<in> set packs. \<exists>r0 \<in> set (p_Rules p). r_ID r0 = r_ID r \<and>
     (\<forall>q \<in> set packs. r_ID r \<in> r_ID ` set (p_Rules q) \<longrightarrow> getPriority q \<le> getPriority p)"
proof -
  let ?ps = "srt packs"
  have m: "mset ?ps = mset packs" and sorted: "sorted_wrt (\<lambda>p q. \<not> packLess q p) ?ps"
    using assms(1) by (simp_all add: sortsPacks_def)
  then have set: "set ?ps = set packs" and "distinct (map packName ?ps)"
    using assms(2) by (metis set_mset_mset, metis mset_eq_imp_distinct_iff mset_map)
  then have "orderedRules ?ps (priorityOrder srt packs) = concat (map p_Rules ?ps)"
    by (simp add: priorityOrder_no_extends [OF assms(1-3)] orderedRules_packs)
  with assms(4) obtain r0 where f: "find (\<lambda>q. r_ID q = r_ID r) (concat (map p_Rules ?ps)) = Some r0"
    using MergePacksPriorityOrder_char [of srt packs r] by auto
  from find_concat_rules [OF f] obtain us p vs where
    ps: "?ps = us @ p # vs" "r0 \<in> set (p_Rules p)" "\<forall>q \<in> set us. \<forall>x \<in> set (p_Rules q). r_ID x \<noteq> r_ID r"
    by blast
  have "getPriority q \<le> getPriority p" if "q \<in> set packs" "r_ID r \<in> r_ID ` set (p_Rules q)" for q
  proof -
    from that(2) ps(3) have "q \<notin> set us" by (metis imageE)
    moreover from that(1) set have "q \<in> set ?ps" by simp
    ultimately have "q = p \<or> q \<in> set vs" using ps(1) by auto
    with sorted ps(1) have "\<not> packLess q p \<or> q = p" by (auto simp: sorted_wrt_append)
    then show ?thesis by (auto simp: packLess_def Let_def split: if_splits)
  qed
  moreover have "p \<in> set packs" using ps(1) set by (metis in_set_conv_decomp)
  ultimately show ?thesis using ps(2) find_in_set [OF f] by blast
qed

definition sortPacksStable :: "rulePack list \<Rightarrow> rulePack list" where
  "sortPacksStable = sort_key (\<lambda>p. (- getPriority p, packName p))"

lemma sortPacksStable_sorts: "sortsPacks sortPacksStable"
proof -
  have "sorted_wrt (\<lambda>p q. \<not> packLess q p) (sortPacksStable ps)" for ps
  proof -
    have "sorted (map (\<lambda>p. (- getPriority p, packName p)) (sortPacksStable ps))"
      by (simp add: sortPacksStable_def)
    then show ?thesis
      unfolding sorted_map by (rule sorted_wrt_mono_rel [rotated])
        (auto simp: packLess_def Let_def less_eq_prod_def not_less)
  qed
  then show ?thesis by (simp add: sortsPacks_def sortPacksStable_def)
qed

theorem MergePacksPriorityOrder_highest_wins_witness:
  "\<exists>p \<in> set [namedPack ''a'' [] [zeroRule], namedPack ''b'' [] [zeroRule]].
     \<exists>r0 \<in> set (p_Rules p). r_ID r0 = r_ID zeroRule"
proof -
  let ?ps = "[namedPack ''a'' [] [zeroRule], namedPack ''b'' [] [zeroRule]]"
  have "zeroRule \<in> set (MergePacksPriorityOrder sortPacksStable ?ps)"
    by code_simp
  from MergePacksPriorityOrder_highest_wins [OF sortPacksStable_sorts _ _ this] show ?thesis by auto
qed

end
