(* ===== verification/Regex_Literals.thy ===== *)
theory Regex_Literals
  imports Go_Prelude
begin

text \<open>
  Literal-token extraction, the regex cache key and the coarse regex score:
  \<^verbatim>\<open>internal/scanner/regex_literals.go\<close> and \<^verbatim>\<open>internal/scanner/regex_complexity.go\<close>.
  The package variable \<^verbatim>\<open>minTokenLen\<close> is an argument.
\<close>

section \<open>Definitions\<close>

definition cacheKey :: "'rx golib \<Rightarrow> string \<Rightarrow> string list \<Rightarrow> string" where
  "cacheKey G expr flags =
     (if flags = [] then expr
      else expr @ ''::'' @ concat (map (\<lambda>f. strToLower G f @ '',''  ) flags))"

definition isTokenChar :: "char \<Rightarrow> bool" where
  "isTokenChar c \<longleftrightarrow> (97 \<le> byte c \<and> byte c \<le> 122) \<or> (65 \<le> byte c \<and> byte c \<le> 90)
     \<or> (48 \<le> byte c \<and> byte c \<le> 57) \<or> c = CHR ''_'' \<or> c = CHR ''-''"

definition toLowerFast :: "string \<Rightarrow> string" where
  "toLowerFast s = mapBytes lowerAscii s"

fun dedupeLoop :: "string list \<Rightarrow> string list \<Rightarrow> string list" where
  "dedupeLoop m [] = []"
| "dedupeLoop m (s # ss) =
     (if s \<in> set m then dedupeLoop m ss else s # dedupeLoop (s # m) ss)"

definition dedupe :: "string list \<Rightarrow> string list" where
  "dedupe ss = dedupeLoop [] ss"

definition isMeta :: "char \<Rightarrow> bool" where
  "isMeta c \<longleftrightarrow> c \<in> {CHR ''^'', CHR ''$'', CHR ''.'', CHR ''*'', CHR ''+'', CHR ''?'', CHR 0x7B,
     CHR 0x7D, CHR ''('', CHR '')'', CHR 0x7C}"

text \<open>\<open>flush\<close> ends the token run \<^verbatim>\<open>expr[start:i]\<close> when it has the length asked for.\<close>

definition flush :: "int \<Rightarrow> string \<Rightarrow> nat \<Rightarrow> nat option \<Rightarrow> string list \<Rightarrow> string list" where
  "flush k expr i start tokens =
     (case start of None \<Rightarrow> tokens
      | Some st \<Rightarrow> if int i - int st \<ge> k
          then tokens @ [toLowerFast (take (i - st) (drop st expr))] else tokens)"

fun extractLoop :: "int \<Rightarrow> string \<Rightarrow> string \<Rightarrow> nat \<Rightarrow> bool \<Rightarrow> bool \<Rightarrow> nat option \<Rightarrow> string list
    \<Rightarrow> string list" where
  "extractLoop k expr [] i inClass escaped start tokens = flush k expr i start tokens"
| "extractLoop k expr (c # cs) i inClass escaped start tokens =
     (if escaped then extractLoop k expr cs (Suc i) inClass False None (flush k expr i start tokens)
      else if c = CHR 0x5C then extractLoop k expr cs (Suc i) inClass True start tokens
      else if c = CHR ''['' then
        extractLoop k expr cs (Suc i) True False None (flush 4 expr i start tokens)
      else if c = CHR '']'' \<and> inClass then extractLoop k expr cs (Suc i) False False start tokens
      else if inClass then extractLoop k expr cs (Suc i) inClass False start tokens
      else if isMeta c then
        extractLoop k expr cs (Suc i) inClass False None (flush k expr i start tokens)
      else if isTokenChar c then
        extractLoop k expr cs (Suc i) inClass False
          (case start of None \<Rightarrow> Some i | Some st \<Rightarrow> Some st) tokens
      else if c = CHR ''-'' \<and> start \<noteq> None then
        extractLoop k expr cs (Suc i) inClass False start tokens
      else extractLoop k expr cs (Suc i) inClass False None (flush k expr i start tokens))"

definition extractLiteralTokensFromRegex :: "int \<Rightarrow> string \<Rightarrow> string list" where
  "extractLiteralTokensFromRegex minTokenLen expr =
     dedupe (extractLoop minTokenLen expr expr 0 False False None [])"

text \<open>
  \<open>regexComplexityScore\<close>. The slice \<^verbatim>\<open>groupHasQuant\<close> is a list whose last element is the
  current group; \<open>unboundedUpper\<close> is the look-ahead for \<^verbatim>\<open>{m,}\<close> after the opening brace.
\<close>

definition unboundedUpper :: "string \<Rightarrow> bool" where
  "unboundedUpper r =
     (case dropWhile (\<lambda>c. c \<noteq> CHR 0x7D \<and> c \<noteq> CHR '','') r of
        c # r' \<Rightarrow> c = CHR '','' \<and>
          (case dropWhile (\<lambda>c. c = CHR '' '') r' of d # _ \<Rightarrow> d = CHR 0x7D | [] \<Rightarrow> False)
      | [] \<Rightarrow> False)"

definition markQuant :: "bool list \<Rightarrow> bool list" where
  "markQuant g = (if g = [] then g else butlast g @ [True])"

text \<open>One pass of the \<^verbatim>\<open>switch c\<close>: the new depth and groups, and what is added to the score.\<close>

definition scoreStep :: "char \<Rightarrow> string \<Rightarrow> nat \<Rightarrow> bool list \<Rightarrow> nat \<times> bool list \<times> int" where
  "scoreStep c cs depth g =
     (if c = CHR ''('' then (depth + 1, g @ [False], 0)
      else if c = CHR '')'' then
        (if depth > 0 then
           (let d = depth - 1;
                q = (cs \<noteq> [] \<and> hd cs \<in> {CHR ''+'', CHR ''*'', CHR ''?''});
                inc = (if q then (if d + 1 < length g \<and> g ! (d + 1) then 8 else 3) else 0)
            in (d, (if g = [] then g else butlast g), inc))
         else (depth, g, 0))
      else if c = CHR 0x7C then (depth, g, 1)
      else if c = CHR ''.'' then
        (case cs of
           [] \<Rightarrow> (depth, g, 0)
         | d # r \<Rightarrow>
             if d = CHR ''+'' then (depth, markQuant g, 5)
             else if d = CHR ''*'' then (depth, markQuant g, 6)
             else if d = CHR 0x7B \<and> unboundedUpper r then (depth, g, 6)
             else (depth, g, 0))
      else if c = CHR ''+'' \<or> c = CHR ''*'' then
        (depth, markQuant g, if g \<noteq> [] \<and> last g then 4 else 0)
      else if c = CHR ''?'' then (depth, g, 1)
      else if c = CHR 0x7B then (depth, g, if unboundedUpper cs then 3 else 0)
      else (depth, g, 0))"

text \<open>The loop; an escape skips the character after it.\<close>

fun scoreLoop :: "string \<Rightarrow> nat \<Rightarrow> bool list \<Rightarrow> int \<Rightarrow> int" where
  "scoreLoop [] depth g score = score"
| "scoreLoop (c # cs) depth g score =
     (if c = CHR 0x5C then scoreLoop (tl cs) depth g score
      else (case scoreStep c cs depth g of (d, g', inc) \<Rightarrow> scoreLoop cs d g' (score + inc)))"

definition regexComplexityScore :: "string \<Rightarrow> int" where
  "regexComplexityScore expr =
     (if expr = [] then 0
      else (let score = scoreLoop expr 0 [False] 0 in if score < 0 then 0 else score))"

section \<open>Tokens\<close>

lemma dedupeLoop_set: "set (dedupeLoop m ss) = set ss - set m"
  by (induction m ss rule: dedupeLoop.induct) auto

lemma dedupeLoop_distinct: "distinct (dedupeLoop m ss)"
  by (induction m ss rule: dedupeLoop.induct) (auto simp: dedupeLoop_set)

lemma dedupe_spec [simp]: "set (dedupe ss) = set ss" "distinct (dedupe ss)"
  by (simp_all add: dedupe_def dedupeLoop_set dedupeLoop_distinct)

text \<open>
  Every token is the lower-cased image of a contiguous run of the expression and has at least
  the shorter of the two length bounds.
\<close>

definition tokenOf :: "int \<Rightarrow> string \<Rightarrow> string \<Rightarrow> bool" where
  "tokenOf k expr t \<longleftrightarrow> (\<exists>u w. expr = u @ w @ drop (length u + length w) expr \<and> t = toLowerFast w
     \<and> int (length w) \<ge> min k 4)"

lemma flush_tokens:
  assumes "\<forall>t \<in> set tokens. tokenOf k expr t" "i \<le> length expr"
    and "\<forall>st. start = Some st \<longrightarrow> st \<le> i" "j \<in> {k, 4}"
  shows "\<forall>t \<in> set (flush j expr i start tokens). tokenOf k expr t"
proof (cases start)
  case (Some st)
  let ?w = "take (i - st) (drop st expr)"
  have len: "length ?w = i - st" "st \<le> i" using assms Some by auto
  have "tokenOf k expr (toLowerFast ?w)" if "int i - int st \<ge> j"
    unfolding tokenOf_def
  proof (intro exI conjI)
    have "drop st expr = ?w @ drop i expr"
      using len(2) by (metis append_take_drop_id drop_drop le_add_diff_inverse2)
    then show "expr = take st expr @ ?w @ drop (length (take st expr) + length ?w) expr"
      using assms(2) len by (metis append_take_drop_id le_add_diff_inverse length_take min.absorb2 order_trans)
    show "int (length ?w) \<ge> min k 4" using len that assms(4) by auto
  qed simp
  with assms(1) Some show ?thesis by (auto simp: flush_def)
qed (use assms in \<open>auto simp: flush_def\<close>)

lemma extractLoop_tokens:
  assumes "\<forall>t \<in> set tokens. tokenOf k expr t" "i + length cs = length expr"
    and "\<forall>st. start = Some st \<longrightarrow> st \<le> i"
  shows "\<forall>t \<in> set (extractLoop k expr cs i inClass escaped start tokens). tokenOf k expr t"
  using assms
proof (induction cs arbitrary: i inClass escaped start tokens)
  case Nil
  then show ?case using flush_tokens [of tokens k expr i start k] by simp
next
  case (Cons c cs)
  have f: "\<forall>t \<in> set (flush j expr i start tokens). tokenOf k expr t" if "j \<in> {k, 4}" for j
    using flush_tokens [of tokens k expr i start j] Cons.prems that by simp
  have i: "Suc i + length cs = length expr" using Cons.prems by simp
  have st: "\<forall>st. start = Some st \<longrightarrow> st \<le> Suc i" using Cons.prems by auto
  have st2: "\<forall>st. (case start of None \<Rightarrow> Some i | Some st \<Rightarrow> Some st) = Some st \<longrightarrow> st \<le> Suc i"
    using Cons.prems by (auto split: option.splits)
  have "\<forall>t \<in> set (extractLoop k expr cs (Suc i) b e None (flush j expr i start tokens)). tokenOf k expr t"
    if "j \<in> {k, 4}" for j b e by (rule Cons.IH [OF f [OF that] i]) simp
  then have A: "Ball (set (extractLoop k expr cs (Suc i) b e None (flush k expr i start tokens))) (tokenOf k expr)"
    "Ball (set (extractLoop k expr cs (Suc i) b e None (flush 4 expr i start tokens))) (tokenOf k expr)"
    for b e by blast+
  have B: "Ball (set (extractLoop k expr cs (Suc i) b e start tokens)) (tokenOf k expr)" for b e
    using Cons.IH [OF Cons.prems(1) i st] by blast
  have C: "Ball (set (extractLoop k expr cs (Suc i) b e
      (case start of None \<Rightarrow> Some i | Some st \<Rightarrow> Some st) tokens)) (tokenOf k expr)" for b e
    using Cons.IH [OF Cons.prems(1) i st2] by blast
  show ?case by (simp add: A B C)
qed

section \<open>The score\<close>

text \<open>No character adds more than 8 and none lowers the score, so it is linear in the pattern.\<close>

lemma scoreStep_inc: "scoreStep c cs depth g = (d, g', inc) \<Longrightarrow> 0 \<le> inc \<and> inc \<le> 8"
  by (auto simp: scoreStep_def Let_def split: if_splits list.splits)

lemma scoreLoop_bounds:
  "score \<le> scoreLoop cs depth g score \<and> scoreLoop cs depth g score \<le> score + 8 * int (length cs)"
proof (induction cs depth g score rule: scoreLoop.induct)
  case (2 c cs depth g score)
  show ?case
  proof (cases "c = CHR 0x5C")
    case True
    with 2(1) show ?thesis by (cases cs) auto
  next
    case False
    obtain d g' inc where s: "scoreStep c cs depth g = (d, g', inc)" by (cases "scoreStep c cs depth g")
    with 2(2) [OF False s [symmetric] refl] scoreStep_inc [OF s] False show ?thesis by simp
  qed
qed simp

section \<open>Properties\<close>

text \<open>
  Every token of \<open>extractLiteralTokensFromRegex\<close> is the lower-cased image of a contiguous
  part of the pattern, at least as long as the smaller of \<^verbatim>\<open>minTokenLen\<close> and 4, and no token
  is listed twice.
\<close>

theorem extractLiteralTokens_sound:
  "distinct (extractLiteralTokensFromRegex k expr) \<and>
   set (extractLiteralTokensFromRegex k expr) \<subseteq> {t. tokenOf k expr t}"
proof -
  have "\<forall>t \<in> set (extractLoop k expr expr 0 False False None []). tokenOf k expr t"
    by (rule extractLoop_tokens) simp_all
  then show ?thesis by (auto simp: extractLiteralTokensFromRegex_def)
qed

text \<open>
  A run that an escape ends keeps the backslash: the pattern \<^verbatim>\<open>ssn\d\<close> yields the token
  \<^verbatim>\<open>ssn\\\<close>, with the backslash in it, although no text the pattern matches need contain one.
\<close>

theorem extractLiteralTokens_escape:
  "extractLiteralTokensFromRegex 3 (''ssn'' @ [CHR 0x5C, CHR ''d'']) = [''ssn'' @ [CHR 0x5C]]"
  by code_simp

text \<open>
  The cache key of a compiled regex is not injective: a pattern with the flag \<^verbatim>\<open>i\<close> and a
  pattern without flags can share one key, whatever the Unicode tables are.
\<close>

theorem cacheKey_collision:
  "cacheKey G ''(?i)a'' [''i''] = cacheKey G ''(?i)a::i,'' []"
proof -
  have "strToLower G ''i'' = ''i''"
    unfolding strToLower_def mapBytes_def isAscii_def by code_simp
  then show ?thesis by (simp add: cacheKey_def)
qed

text \<open>
  The coarse score is never negative and at most eight per pattern byte, so a pattern
  within the length limit has a bounded score.
\<close>

theorem regexComplexityScore_bounds:
  "0 \<le> regexComplexityScore expr \<and> regexComplexityScore expr \<le> 8 * int (length expr)"
  using scoreLoop_bounds [of 0 expr 0 "[False]"] by (auto simp: regexComplexityScore_def Let_def)

end
