(* ===== verification/Rules_Complexity.thy ===== *)
theory Rules_Complexity
  imports Rules_Types
begin

text \<open>
  Compiling rule patterns and bounding their structure: \<^verbatim>\<open>internal/rules/complexity.go\<close>,
  \<^verbatim>\<open>internal/rules/patterns.go\<close> and \<^verbatim>\<open>compileRegexStrict\<close> of
  \<^verbatim>\<open>internal/rules/validate.go\<close>. Parsing and compiling are the parameters \<^const>\<open>rxParse\<close> and
  \<^const>\<open>rxCompile\<close>; errors are strings or the constructors below.
\<close>

section \<open>Definitions\<close>

record complexityScore =
  Nodes :: int
  MaxDepth :: int
  Alternations :: int
  Repeats :: int

record complexityLimits =
  maxNodes :: int
  maxDepth :: int
  maxAlternations :: int
  maxRepeats :: int

definition envLimit :: "'rx golib \<Rightarrow> string \<Rightarrow> int \<Rightarrow> int" where
  "envLimit G key def =
     (let v = getenv G key
      in if v \<noteq> [] then (case atoi v of Some n \<Rightarrow> if n > 0 then n else def | None \<Rightarrow> def) else def)"

definition limitsFromEnv :: "'rx golib \<Rightarrow> complexityLimits" where
  "limitsFromEnv G =
     \<lparr>maxNodes = envLimit G ''PS_MAX_REGEX_NODES'' 750,
      maxDepth = envLimit G ''PS_MAX_REGEX_DEPTH'' 30,
      maxAlternations = envLimit G ''PS_MAX_REGEX_ALTERNATIONS'' 300,
      maxRepeats = envLimit G ''PS_MAX_REGEX_REPEATS'' 1000\<rparr>"

text \<open>The inline-flag prefix that the flags of a pattern stand for; the last flag comes first.\<close>

definition flagAllowed :: "string \<Rightarrow> bool" where
  "flagAllowed f \<longleftrightarrow> f \<in> {''ignorecase'', ''i'', ''multiline'', ''m''}"

definition flagPrefix :: "string \<Rightarrow> string" where
  "flagPrefix f = (if f = ''ignorecase'' \<or> f = ''i'' then ''(?i)''
     else if f = ''multiline'' \<or> f = ''m'' then ''(?m)'' else [])"

definition prefixedRegex :: "'rx golib \<Rightarrow> string \<Rightarrow> string list \<Rightarrow> string" where
  "prefixedRegex G expr flags =
     (if expr = [] then expr
      else foldl (\<lambda>prefix f0. let f = strToLower G f0
                   in if \<not> flagAllowed f then prefix else flagPrefix f @ prefix) [] flags @ expr)"

text \<open>The closure \<^verbatim>\<open>walk\<close>: the score is threaded through the tree.\<close>

fun walkRE :: "reTree \<Rightarrow> int \<Rightarrow> complexityScore \<Rightarrow> complexityScore"
  and walkREs :: "reTree list \<Rightarrow> int \<Rightarrow> complexityScore \<Rightarrow> complexityScore" where
  "walkRE (RE op subs) depth sc =
     (let sc1 = sc\<lparr>Nodes := Nodes sc + 1, MaxDepth := max depth (MaxDepth sc)\<rparr>
      in case op of
           OpAlternate \<Rightarrow>
             walkREs subs (depth + 1) (sc1\<lparr>Alternations := Alternations sc1 + (int (length subs) - 1)\<rparr>)
         | OpRepeat \<Rightarrow>
             (let sc2 = sc1\<lparr>Repeats := Repeats sc1 + 1\<rparr>
              in case subs of [] \<Rightarrow> sc2 | r # _ \<Rightarrow> walkRE r (depth + 2) sc2)
         | OpOther \<Rightarrow> walkREs subs (depth + 1) sc1)"
| "walkREs [] depth sc = sc"
| "walkREs (r # rs) depth sc = walkREs rs depth (walkRE r depth sc)"

definition zeroScore :: complexityScore where
  "zeroScore = \<lparr>Nodes = 0, MaxDepth = 0, Alternations = 0, Repeats = 0\<rparr>"

definition ComputeRegexComplexity :: "'rx golib \<Rightarrow> string \<Rightarrow> string list \<Rightarrow> string + complexityScore" where
  "ComputeRegexComplexity G expr flags =
     (if expr = [] then Inl ''empty regex''
      else case rxParse G (prefixedRegex G expr flags) of
             Inl e \<Rightarrow> Inl e
           | Inr tree \<Rightarrow> Inr (walkRE tree 1 zeroScore))"

definition withinLimits :: "complexityScore \<Rightarrow> complexityLimits \<Rightarrow> bool" where
  "withinLimits sc lims \<longleftrightarrow> \<not> (Nodes sc > maxNodes lims \<or> MaxDepth sc > maxDepth lims
     \<or> Alternations sc > maxAlternations lims \<or> Repeats sc > maxRepeats lims)"

text \<open>\<open>None\<close> is the nil error.\<close>

definition CheckRegexComplexity :: "'rx golib \<Rightarrow> string \<Rightarrow> string list \<Rightarrow> string option" where
  "CheckRegexComplexity G expr flags =
     (case ComputeRegexComplexity G expr flags of
        Inl e \<Rightarrow> Some e
      | Inr sc \<Rightarrow> if withinLimits sc (limitsFromEnv G) then None else Some ''regex too complex'')"

text \<open>\<open>compileRegexStrict\<close> refuses an unknown flag; the loop stops at the first one.\<close>

fun strictPrefix :: "'rx golib \<Rightarrow> string list \<Rightarrow> string \<Rightarrow> string option" where
  "strictPrefix G [] prefix = Some prefix"
| "strictPrefix G (f0 # fs) prefix =
     (let f = strToLower G f0
      in if \<not> flagAllowed f then None else strictPrefix G fs (flagPrefix f @ prefix))"

definition compileRegexStrict :: "'rx golib \<Rightarrow> string \<Rightarrow> string list \<Rightarrow> string + 'rx" where
  "compileRegexStrict G expr flags =
     (if expr = [] then Inl ''empty regex''
      else case strictPrefix G flags [] of
             None \<Rightarrow> Inl ''invalid flag''
           | Some prefix \<Rightarrow> rxCompile G (prefix @ expr))"

definition CompileWithComplexity :: "'rx golib \<Rightarrow> string \<Rightarrow> string list \<Rightarrow> string + 'rx" where
  "CompileWithComplexity G expr flags =
     (case CheckRegexComplexity G expr flags of Some e \<Rightarrow> Inl e
      | None \<Rightarrow> compileRegexStrict G expr flags)"

definition laxPrefix :: "'rx golib \<Rightarrow> string list \<Rightarrow> string" where
  "laxPrefix G flags = foldl (\<lambda>prefix f. flagPrefix (strToLower G f) @ prefix) [] flags"

definition CompilePattern :: "'rx golib \<Rightarrow> string \<Rightarrow> string list \<Rightarrow> string + 'rx" where
  "CompilePattern G expr flags =
     (if expr = [] then Inl ''empty regex'' else rxCompile G (laxPrefix G flags @ expr))"

text \<open>An error of \<open>CheckPatterns\<close> names the rule, the kind of pattern and its index.\<close>

datatype patternError = PatternError string bool nat string

definition checkList :: "'rx golib \<Rightarrow> string \<Rightarrow> bool \<Rightarrow> pattern list \<Rightarrow> patternError list" where
  "checkList G rid isFallback pats =
     concat (map (\<lambda>(i, pat). case CompilePattern G (pt_Regex pat) (pt_Flags pat) of
                    Inl e \<Rightarrow> [PatternError rid isFallback i e]
                  | Inr _ \<Rightarrow> []) (enumerate 0 pats))"

definition CheckPatterns :: "'rx golib \<Rightarrow> rulePack \<Rightarrow> patternError list" where
  "CheckPatterns G p =
     concat (map (\<lambda>r. checkList G (r_ID r) False (r_Patterns r) @
                      (case r_Fallback r of None \<Rightarrow> []
                       | Some fb \<Rightarrow> checkList G (r_ID r) True (f_Patterns fb))) (p_Rules p))"

section \<open>Limits\<close>

lemma envLimit_pos: "0 < def \<Longrightarrow> 0 < envLimit G key def"
  by (auto simp: envLimit_def Let_def split: option.splits)

section \<open>The walk\<close>

text \<open>What the score measures, as separate functions of the tree.\<close>

fun treeSize :: "reTree \<Rightarrow> nat" and forestSize :: "reTree list \<Rightarrow> nat" where
  "treeSize (RE op subs) = 1 + forestSize subs"
| "forestSize [] = 0"
| "forestSize (r # rs) = treeSize r + forestSize rs"

fun noRepeat :: "reTree \<Rightarrow> bool" and noRepeats :: "reTree list \<Rightarrow> bool" where
  "noRepeat (RE op subs) \<longleftrightarrow> op \<noteq> OpRepeat \<and> noRepeats subs"
| "noRepeats [] \<longleftrightarrow> True"
| "noRepeats (r # rs) \<longleftrightarrow> noRepeat r \<and> noRepeats rs"

fun treeDepth :: "reTree \<Rightarrow> nat" and forestDepth :: "reTree list \<Rightarrow> nat" where
  "treeDepth (RE op subs) = 1 + forestDepth subs"
| "forestDepth [] = 0"
| "forestDepth (r # rs) = max (treeDepth r) (forestDepth rs)"

lemma treeDepth_pos: "0 < treeDepth t"
  by (cases t) simp

lemma walkRE_noRepeat:
  "noRepeat t \<Longrightarrow> Nodes (walkRE t d sc) = Nodes sc + int (treeSize t) \<and>
     Repeats (walkRE t d sc) = Repeats sc \<and>
     MaxDepth (walkRE t d sc) = max (MaxDepth sc) (d + int (treeDepth t) - 1)"
  "noRepeats ts \<Longrightarrow> Nodes (walkREs ts d sc) = Nodes sc + int (forestSize ts) \<and>
     Repeats (walkREs ts d sc) = Repeats sc \<and>
     MaxDepth (walkREs ts d sc) = (if ts = [] then MaxDepth sc else max (MaxDepth sc) (d + int (forestDepth ts) - 1))"
proof (induction t d sc and ts d sc rule: walkRE_walkREs.induct)
  case (1 op subs depth sc)
  then show ?case by (cases op) (auto simp: Let_def)
next
  case (3 r rs depth sc)
  then show ?case using treeDepth_pos [of r] by auto
qed simp

section \<open>One prefix for three compilers\<close>

lemma strictPrefix_foldl:
  "list_all (\<lambda>f. flagAllowed (strToLower G f)) flags \<Longrightarrow>
   strictPrefix G flags pre = Some (foldl (\<lambda>p f. flagPrefix (strToLower G f) @ p) pre flags)"
  by (induction flags arbitrary: pre) (auto simp: Let_def)

lemma flagPrefix_unknown: "\<not> flagAllowed f \<Longrightarrow> flagPrefix f = []"
  by (auto simp: flagAllowed_def flagPrefix_def)

lemma prefixedRegex_lax: "expr \<noteq> [] \<Longrightarrow> prefixedRegex G expr flags = laxPrefix G flags @ expr"
proof -
  have "(\<lambda>prefix f0. let f = strToLower G f0 in if \<not> flagAllowed f then prefix else flagPrefix f @ prefix)
      = (\<lambda>prefix f. flagPrefix (strToLower G f) @ prefix)"
    by (rule ext)+ (auto simp: Let_def flagPrefix_unknown)
  then show "expr \<noteq> [] \<Longrightarrow> ?thesis" by (simp add: prefixedRegex_def laxPrefix_def)
qed

lemma concat_enumerate_Nil_iff:
  "concat (map (\<lambda>(i, x). case f x of Inl e \<Rightarrow> [g i e] | Inr _ \<Rightarrow> []) (enumerate n xs)) = [] \<longleftrightarrow>
     (\<forall>x \<in> set xs. \<exists>y. f x = Inr y)"
  by (induction xs arbitrary: n) (auto split: sum.splits)

lemma checkList_Nil_iff:
  "checkList G rid fb pats = [] \<longleftrightarrow>
     (\<forall>pat \<in> set pats. \<exists>rx. CompilePattern G (pt_Regex pat) (pt_Flags pat) = Inr rx)"
  unfolding checkList_def by (rule concat_enumerate_Nil_iff)

section \<open>Properties\<close>

text \<open>
  For a pattern whose flags are all known, the strict compiler of the validator, the lenient
  compiler of the loader and a direct compilation of the prefixed pattern give the same result.
\<close>

theorem pattern_compilers_agree:
  assumes "list_all (\<lambda>f. flagAllowed (strToLower G f)) flags" "expr \<noteq> []"
  shows "compileRegexStrict G expr flags = CompilePattern G expr flags
    \<and> CompilePattern G expr flags = rxCompile G (prefixedRegex G expr flags)"
  using assms strictPrefix_foldl [OF assms(1), of "[]"]
  by (simp add: compileRegexStrict_def CompilePattern_def prefixedRegex_lax laxPrefix_def)

theorem pattern_compilers_agree_witness:
  "compileRegexStrict litLib ''ab'' [''I'', ''m''] = Inr ''(?m)(?i)ab'' \<and>
   CompilePattern litLib ''ab'' [''I'', ''m''] = Inr ''(?m)(?i)ab''"
proof -
  have h: "list_all (\<lambda>f. flagAllowed (strToLower litLib f)) [''I'', ''m'']" by code_simp
  have "CompilePattern litLib ''ab'' [''I'', ''m''] = Inr ''(?m)(?i)ab''" by code_simp
  with pattern_compilers_agree [OF h, of "''ab''"] show ?thesis by simp
qed

text \<open>
  \<open>Simplify\<close> returns a tree without counted repetitions; on such a tree the walk counts
  every node, finds the height of the tree and counts no repetition, so the repeat limit
  (\<^verbatim>\<open>PS_MAX_REGEX_REPEATS\<close>) rejects nothing and acceptance is a bound on size, height and
  alternations only.
\<close>

theorem CheckRegexComplexity_bounds:
  assumes "rxParse G (prefixedRegex G expr flags) = Inr t" "noRepeat t" "expr \<noteq> []"
  shows "CheckRegexComplexity G expr flags = None \<longleftrightarrow>
     int (treeSize t) \<le> maxNodes (limitsFromEnv G) \<and> int (treeDepth t) \<le> maxDepth (limitsFromEnv G)
     \<and> Alternations (walkRE t 1 zeroScore) \<le> maxAlternations (limitsFromEnv G)"
proof -
  have "Nodes (walkRE t 1 zeroScore) = int (treeSize t)" "Repeats (walkRE t 1 zeroScore) = 0"
    "MaxDepth (walkRE t 1 zeroScore) = int (treeDepth t)"
    using walkRE_noRepeat(1) [OF assms(2), of 1 zeroScore] treeDepth_pos [of t]
    by (simp_all add: zeroScore_def)
  moreover have "0 < maxRepeats (limitsFromEnv G)"
    by (simp add: limitsFromEnv_def envLimit_pos)
  ultimately show ?thesis using assms(1,3)
    by (auto simp: CheckRegexComplexity_def ComputeRegexComplexity_def withinLimits_def)
qed

theorem CheckRegexComplexity_bounds_witness:
  "CheckRegexComplexity litLib ''ab'' [] = None"
proof -
  have h: "rxParse litLib (prefixedRegex litLib ''ab'' []) = Inr (RE OpOther [])" by code_simp
  have "int (treeSize (RE OpOther [])) \<le> maxNodes (limitsFromEnv litLib)
     \<and> int (treeDepth (RE OpOther [])) \<le> maxDepth (limitsFromEnv litLib)
     \<and> Alternations (walkRE (RE OpOther []) 1 zeroScore) \<le> maxAlternations (limitsFromEnv litLib)"
    by code_simp
  with CheckRegexComplexity_bounds [OF h] show ?thesis by simp
qed

end
