(* ===== verification/Aho.thy ===== *)
theory Aho
  imports Go_Prelude
begin

text \<open>
  The multi-keyword matcher of \<^verbatim>\<open>internal/scanner/aho.go\<close>. The automaton is third-party and is
  the parameter \<^const>\<open>ahoMatch\<close> (which patterns occur); what this file adds is the list of unique
  patterns, the enumeration of all start positions and their order. A match is the pair of
  pattern index and start index.
\<close>

section \<open>Definitions\<close>

record aho =
  patterns :: "string list"

type_synonym match = "nat \<times> nat"

fun uniqLoop :: "string list \<Rightarrow> string list \<Rightarrow> string list" where
  "uniqLoop seen [] = []"
| "uniqLoop seen (p # ps) =
     (if p = [] then uniqLoop seen ps
      else if p \<in> set seen then uniqLoop seen ps
      else p # uniqLoop (p # seen) ps)"

definition NewAho :: "string list \<Rightarrow> aho" where
  "NewAho ps = \<lparr>patterns = uniqLoop [] ps\<rparr>"

text \<open>
  All start positions of a pattern from \<open>pos\<close> on. The pattern is never empty, so a hit leaves
  \<open>pos\<close> within the text; the guard only makes the recursion total.
\<close>

function occurrences :: "string \<Rightarrow> string \<Rightarrow> nat \<Rightarrow> nat list" where
  "occurrences pat hs pos =
     (if pos > length hs then []
      else case strIndex (drop pos hs) pat of
             None \<Rightarrow> []
           | Some idx \<Rightarrow> (pos + idx) # occurrences pat hs (pos + idx + 1))"
  by pat_completeness auto
termination
  by (relation "measure (\<lambda>(pat, hs, pos). length hs + 1 - pos)") auto

declare occurrences.simps [simp del]

definition FindAll :: "'rx golib \<Rightarrow> aho option \<Rightarrow> string \<Rightarrow> match list" where
  "FindAll G a hay =
     (case a of
        None \<Rightarrow> []
      | Some a \<Rightarrow>
          if patterns a = [] then []
          else
            (let ids = ahoMatch G (patterns a) hay
             in if ids = [] then []
                else sortMatches G
                  (concat (map (\<lambda>pid. map (\<lambda>start. (pid, start)) (occurrences (patterns a ! pid) hay 0)) ids))))"

section \<open>Building\<close>

lemma uniqLoop_set: "set (uniqLoop seen ps) = set ps - set seen - {[]}"
  by (induction seen ps rule: uniqLoop.induct) auto

lemma uniqLoop_distinct: "distinct (uniqLoop seen ps)"
  by (induction seen ps rule: uniqLoop.induct) (auto simp: uniqLoop_set)

lemma NewAho_patterns [simp]:
  "set (patterns (NewAho ps)) = set ps - {[]}" "distinct (patterns (NewAho ps))"
  by (simp_all add: NewAho_def uniqLoop_set uniqLoop_distinct)

section \<open>Occurrences\<close>

lemma occursAt_drop: "pos \<le> length hs \<Longrightarrow> occursAt (drop pos hs) p i \<longleftrightarrow> occursAt hs p (pos + i)"
  by (auto simp: occursAt_def add.commute)

lemma occursAt_beyond: "p \<noteq> [] \<Longrightarrow> length hs \<le> i \<Longrightarrow> \<not> occursAt hs p i"
  using occursAt_bound [of hs p i] by (cases p) auto

lemma occurrences_set:
  "p \<noteq> [] \<Longrightarrow> set (occurrences p hs pos) = {i. pos \<le> i \<and> occursAt hs p i}"
proof (induction p hs pos rule: occurrences.induct)
  case (1 p hs pos)
  show ?case
  proof (cases "pos > length hs")
    case True
    then show ?thesis using occursAt_beyond [OF 1(2), of hs]
      by (fastforce simp: occurrences.simps [of p hs pos])
  next
    case in_range: False
    show ?thesis
    proof (cases "strIndex (drop pos hs) p")
      case None
      then have "\<not> occursAt hs p (pos + j)" for j
        using in_range by (simp add: strIndex_None_iff occursAt_drop)
      then have "\<not> occursAt hs p i" if "pos \<le> i" for i
        using that le_Suc_ex by blast
      with None in_range show ?thesis by (simp add: occurrences.simps [of p hs pos])
    next
      case (Some idx)
      then have hit: "occursAt hs p (pos + idx)" and least: "\<forall>j < idx. \<not> occursAt hs p (pos + j)"
        using in_range by (simp_all add: strIndex_Some_iff occursAt_drop)
      have "i = pos + idx \<or> pos + idx + 1 \<le> i" if "pos \<le> i" "occursAt hs p i" for i
      proof (rule ccontr)
        assume "\<not> (i = pos + idx \<or> pos + idx + 1 \<le> i)"
        then have "i - pos < idx" "i = pos + (i - pos)" using that(1) by auto
        with least that(2) show False by metis
      qed
      with hit have "{i. pos \<le> i \<and> occursAt hs p i}
          = insert (pos + idx) {i. pos + idx + 1 \<le> i \<and> occursAt hs p i}" by auto
      with 1(1) [OF in_range Some 1(2)] Some in_range show ?thesis
        by (simp add: occurrences.simps [of p hs pos])
    qed
  qed
qed

text \<open>The documented behaviour of the matcher and of the sort.\<close>

definition ahoSound :: "'rx golib \<Rightarrow> bool" where
  "ahoSound G \<longleftrightarrow> (\<forall>ps hay. set (ahoMatch G ps hay) = {i. i < length ps \<and> strContains hay (ps ! i)})"

definition sortSound :: "'rx golib \<Rightarrow> bool" where
  "sortSound G \<longleftrightarrow> (\<forall>ms. mset (sortMatches G ms) = mset ms \<and> sorted (map snd (sortMatches G ms)))"

lemma sortSound_set: "sortSound G \<Longrightarrow> set (sortMatches G ms) = set ms"
  unfolding sortSound_def by (metis set_mset_mset)

lemma litLib_sound: "ahoSound litLib" "sortSound litLib"
  by (auto simp: ahoSound_def sortSound_def litLib_def)

lemma FindAll_set:
  assumes "ahoSound G" "sortSound G"
  shows "set (FindAll G (Some (NewAho ps)) hay) =
    {(pid, start). pid < length (patterns (NewAho ps)) \<and> occursAt hay (patterns (NewAho ps) ! pid) start}"
proof -
  let ?P = "patterns (NewAho ps)"
  have ne: "?P ! pid \<noteq> []" if "pid < length ?P" for pid
    using that NewAho_patterns(1) [of ps] nth_mem [OF that] by fastforce
  have ids: "set (ahoMatch G ?P hay) = {i. i < length ?P \<and> strContains hay (?P ! i)}"
    using assms(1) by (simp add: ahoSound_def)
  have "set (concat (map (\<lambda>pid. map (\<lambda>start. (pid, start)) (occurrences (?P ! pid) hay 0)) (ahoMatch G ?P hay)))
      = {(pid, start). pid < length ?P \<and> occursAt hay (?P ! pid) start}"
    using ne by (auto simp: ids occurrences_set strContains_iff)
  moreover have "{(pid, start). pid < length ?P \<and> occursAt hay (?P ! pid) start} = {}"
    if "ahoMatch G ?P hay = []"
    using that ids by (auto simp: strContains_iff)
  ultimately show ?thesis
    by (auto simp: FindAll_def Let_def sortSound_set [OF assms(2)])
qed

lemma FindAll_empty_iff:
  assumes "ahoSound G" "sortSound G"
  shows "FindAll G (Some (NewAho ps)) hay = [] \<longleftrightarrow> (\<forall>p \<in> set ps. p \<noteq> [] \<longrightarrow> \<not> strContains hay p)"
proof -
  have "FindAll G (Some (NewAho ps)) hay = [] \<longleftrightarrow>
      (\<forall>i < length (patterns (NewAho ps)). \<not> strContains hay (patterns (NewAho ps) ! i))"
    using FindAll_set [OF assms, of ps hay] by (auto simp: set_empty [symmetric] strContains_iff simp del: set_empty)
  also have "\<dots> \<longleftrightarrow> (\<forall>p \<in> set (patterns (NewAho ps)). \<not> strContains hay p)"
    by (metis in_set_conv_nth)
  finally show ?thesis by auto
qed

section \<open>Properties\<close>

text \<open>
  Given a matcher that reports the occurring patterns and a correct sort, \<open>FindAll\<close> on a
  matcher built by \<open>NewAho\<close> lists every occurrence of every distinct non-empty keyword,
  overlapping ones included, and nothing else, in ascending order of start index.
\<close>

theorem FindAll_complete:
  assumes "ahoSound G" "sortSound G"
  shows "((\<exists>pid. (pid, i) \<in> set (FindAll G (Some (NewAho ps)) hay) \<and> patterns (NewAho ps) ! pid = kw)
      \<longleftrightarrow> kw \<in> set ps \<and> kw \<noteq> [] \<and> occursAt hay kw i)
    \<and> sorted (map snd (FindAll G (Some (NewAho ps)) hay))"
proof
  have "(\<exists>pid. (pid, i) \<in> set (FindAll G (Some (NewAho ps)) hay) \<and> patterns (NewAho ps) ! pid = kw)
      \<longleftrightarrow> kw \<in> set (patterns (NewAho ps)) \<and> occursAt hay kw i"
    unfolding FindAll_set [OF assms] in_set_conv_nth by auto
  then show "(\<exists>pid. (pid, i) \<in> set (FindAll G (Some (NewAho ps)) hay) \<and> patterns (NewAho ps) ! pid = kw)
      \<longleftrightarrow> kw \<in> set ps \<and> kw \<noteq> [] \<and> occursAt hay kw i" by auto
  show "sorted (map snd (FindAll G (Some (NewAho ps)) hay))"
    using assms(2) by (simp add: FindAll_def Let_def sortSound_def)
qed

theorem FindAll_complete_witness:
  "FindAll litLib (Some (NewAho [''aa'', [], ''b'', ''aa''])) ''baaa'' = [(1, 0), (0, 1), (0, 2)]
   \<and> occursAt ''baaa'' ''aa'' 2"
proof -
  have e: "FindAll litLib (Some (NewAho [''aa'', [], ''b'', ''aa''])) ''baaa'' = [(1, 0), (0, 1), (0, 2)]"
    by code_simp
  have "patterns (NewAho [''aa'', [], ''b'', ''aa'']) ! 0 = ''aa''" by code_simp
  with FindAll_complete [OF litLib_sound, of 2 "[''aa'', [], ''b'', ''aa'']" "''baaa''" "''aa''"] e
  show ?thesis by auto
qed

end
