(* ===== verification/Scanner.thy ===== *)
theory Scanner
  imports Rules_Merge Rules_Complexity Regex_Literals Aho
begin

text \<open>
  The scan engine's state and the compilation of rules: \<^verbatim>\<open>internal/scanner/scanner.go\<close>,
  \<^verbatim>\<open>limits.go\<close>, \<^verbatim>\<open>util.go\<close>, \<^verbatim>\<open>rule_eval.go\<close> and \<^verbatim>\<open>loader.go\<close>. The tracer, the logger
  and the unused bloom filter of the struct have no effect on results and are left out. The
  package variables \<^verbatim>\<open>minTokenLen\<close>, \<^verbatim>\<open>globalMaxPatternLength\<close> and \<^verbatim>\<open>globalRegexCache\<close> are the
  record \<open>globals\<close>, threaded through every function that reads or writes them.
\<close>

section \<open>Parameters: caches, clock, analyzer\<close>

text \<open>
  The LRU caches are third-party: their contents are association lists, their operations fields
  of \<open>world\<close>. \<open>now k\<close> is the time (in nanoseconds) the k-th reading of the clock gives. An
  analyzer is asked with the number of the call, a timeout, the line and the rule's
  configuration and answers a verdict, a confidence and an error.
\<close>

record semanticCacheEntry =
  e_ok :: bool
  e_conf :: real
  e_expiresAt :: int

type_synonym semLru = "(string \<times> semanticCacheEntry) list"
type_synonym 'rx rxLru = "(string \<times> 'rx) list"
type_synonym analyzer = "nat \<Rightarrow> int \<Rightarrow> string \<Rightarrow> semantic \<Rightarrow> bool \<times> real \<times> string option"

record 'rx world =
  lib :: "'rx golib"
  rcGet :: "'rx rxLru \<Rightarrow> string \<Rightarrow> 'rx rxLru \<times> 'rx option"
  rcAdd :: "'rx rxLru \<Rightarrow> string \<Rightarrow> 'rx \<Rightarrow> 'rx rxLru"
  scNew :: "int \<Rightarrow> semLru option"
  scGet :: "semLru \<Rightarrow> string \<Rightarrow> semLru \<times> semanticCacheEntry option"
  scAdd :: "semLru \<Rightarrow> string \<Rightarrow> semanticCacheEntry \<Rightarrow> semLru"
  scRemove :: "semLru \<Rightarrow> string \<Rightarrow> semLru"
  now :: "nat \<Rightarrow> int"

record 'rx globals =
  minTokenLen :: int
  globalMaxPatternLength :: int
  regexCache :: "'rx rxLru"

section \<open>Data\<close>

record stageBudgets =
  Canonicalization :: int
  Level1Keywords :: int
  Level2Regex :: int
  Level3Semantic :: int
  PerFile :: int

definition defaultBudgets :: stageBudgets where
  "defaultBudgets = \<lparr>Canonicalization = 5000000, Level1Keywords = 10000000, Level2Regex = 50000000,
     Level3Semantic = 300000000, PerFile = 10000000000\<rparr>"

definition DefaultQuarantineOnTimeout :: bool where
  "DefaultQuarantineOnTimeout = True"

definition DefaultQuarantineOnError :: bool where
  "DefaultQuarantineOnError = True"

record 'rx compiledRule =
  cr_id :: string
  cr_message :: string
  cr_severity :: string
  cr_category :: string
  cr_level :: int
  cr_keywords :: "string list"
  cr_regexes :: "'rx list"
  cr_verifiers :: "string list"
  cr_semantic :: "semantic option"
  cr_fallbackRegexes :: "'rx list"
  cr_when :: "condition option"
  cr_unless :: "condition option"
  cr_timeoutMs :: int
  cr_requireAll :: bool
  cr_caseSensitive :: bool
  cr_wholeWord :: bool
  cr_literalTokens :: "string list"
  cr_response :: "response option"
  cr_fallbackAction :: string
  cr_cacheEnabled :: bool
  cr_cacheTTL :: int
  cr_cacheMaxEntries :: int

record 'rx scanner =
  bufferSizeBytes :: int
  compiled :: "'rx compiledRule list"
  runtimeContext :: "(string \<rightharpoonup> string) option"
  budgets :: stageBudgets
  quarantineOnTimeout :: bool
  quarantineOnError :: bool
  firstMatch :: bool
  maxLineForRegex :: int
  fileTimeout :: int
  maxFileBytes :: int
  maxStreamBytes :: int
  compositionStrategy :: string
  semanticAnalyzer :: "analyzer option"
  defaultRuleTimeoutMs :: int
  defaultCaseSensitive :: bool
  defaultWholeWord :: bool
  ahoL1 :: "aho option"
  ruleTokenAho :: "string \<rightharpoonup> aho"
  chunkOverlapBytes :: int
  semanticCaches :: "string \<rightharpoonup> semLru"
  maxPatternLength :: int
  maxResidentMemoryBytes :: int
  totalScanBudget :: int

definition ScanEngineCstor :: "int \<Rightarrow> 'rx scanner" where
  "ScanEngineCstor maxTokenBytes =
     \<lparr>bufferSizeBytes = (if maxTokenBytes \<le> 0 then 16 * 1024 * 1024 else maxTokenBytes),
      compiled = [], runtimeContext = None, budgets = defaultBudgets,
      quarantineOnTimeout = DefaultQuarantineOnTimeout,
      quarantineOnError = DefaultQuarantineOnError,
      firstMatch = False, maxLineForRegex = 0, fileTimeout = 0, maxFileBytes = 0,
      maxStreamBytes = 0, compositionStrategy = [], semanticAnalyzer = None,
      defaultRuleTimeoutMs = 0, defaultCaseSensitive = False, defaultWholeWord = False,
      ahoL1 = None, ruleTokenAho = Map.empty, chunkOverlapBytes = 0,
      semanticCaches = Map.empty, maxPatternLength = 1000, maxResidentMemoryBytes = 0,
      totalScanBudget = 0\<rparr>"

section \<open>Setters\<close>

definition HasSemanticAnalyzer :: "'rx scanner \<Rightarrow> bool" where
  "HasSemanticAnalyzer s \<longleftrightarrow> semanticAnalyzer s \<noteq> None"

definition SetRuleDefaults :: "int \<Rightarrow> bool \<Rightarrow> bool \<Rightarrow> 'rx scanner \<Rightarrow> 'rx scanner" where
  "SetRuleDefaults timeoutMs caseSensitive wholeWord s =
     s\<lparr>defaultRuleTimeoutMs := timeoutMs, defaultCaseSensitive := caseSensitive,
       defaultWholeWord := wholeWord\<rparr>"

definition SetFileSizeLimit :: "int \<Rightarrow> 'rx scanner \<Rightarrow> 'rx scanner" where
  "SetFileSizeLimit n s = s\<lparr>maxFileBytes := n\<rparr>"

definition SetMaxStreamBytes :: "int \<Rightarrow> 'rx scanner \<Rightarrow> 'rx scanner" where
  "SetMaxStreamBytes n s = s\<lparr>maxStreamBytes := n\<rparr>"

definition SetCompositionStrategy :: "string \<Rightarrow> 'rx scanner \<Rightarrow> 'rx scanner" where
  "SetCompositionStrategy st s = s\<lparr>compositionStrategy := st\<rparr>"

definition SetBufferBytes :: "int \<Rightarrow> 'rx scanner \<Rightarrow> 'rx scanner" where
  "SetBufferBytes n s = (if n > 0 then s\<lparr>bufferSizeBytes := n\<rparr> else s)"

definition SetChunkOverlap :: "int \<Rightarrow> 'rx scanner \<Rightarrow> 'rx scanner" where
  "SetChunkOverlap n s = (if n \<ge> 0 then s\<lparr>chunkOverlapBytes := n\<rparr> else s)"

definition SetStreamingParams :: "int \<Rightarrow> int \<Rightarrow> 'rx scanner \<Rightarrow> 'rx scanner" where
  "SetStreamingParams bufferSize overlap s = SetChunkOverlap overlap (SetBufferBytes bufferSize s)"

definition SetRuntimeContext :: "(string \<rightharpoonup> string) option \<Rightarrow> 'rx scanner \<Rightarrow> 'rx scanner" where
  "SetRuntimeContext ctx s = s\<lparr>runtimeContext := ctx\<rparr>"

definition SetMaxPatternLength :: "int \<Rightarrow> 'rx scanner \<times> 'rx globals \<Rightarrow> 'rx scanner \<times> 'rx globals" where
  "SetMaxPatternLength n = (\<lambda>(s, g).
     if n > 0 then (s\<lparr>maxPatternLength := n\<rparr>, g\<lparr>globalMaxPatternLength := n\<rparr>) else (s, g))"

definition SetMaxResidentMemoryBytes :: "int \<Rightarrow> 'rx scanner \<Rightarrow> 'rx scanner" where
  "SetMaxResidentMemoryBytes b s = s\<lparr>maxResidentMemoryBytes := b\<rparr>"

definition SetTotalScanBudget :: "int \<Rightarrow> 'rx scanner \<Rightarrow> 'rx scanner" where
  "SetTotalScanBudget d s = s\<lparr>totalScanBudget := d\<rparr>"

definition SetQuarantineOnTimeout :: "bool \<Rightarrow> 'rx scanner \<Rightarrow> 'rx scanner" where
  "SetQuarantineOnTimeout b s = s\<lparr>quarantineOnTimeout := b\<rparr>"

definition SetQuarantineOnError :: "bool \<Rightarrow> 'rx scanner \<Rightarrow> 'rx scanner" where
  "SetQuarantineOnError b s = s\<lparr>quarantineOnError := b\<rparr>"

definition SetSemanticAnalyzer :: "analyzer option \<Rightarrow> 'rx scanner \<Rightarrow> 'rx scanner" where
  "SetSemanticAnalyzer a s = s\<lparr>semanticAnalyzer := a\<rparr>"

definition isWordChar :: "char \<Rightarrow> bool" where
  "isWordChar c =
     (let r = byte c
      in if 48 \<le> r \<and> r \<le> 57 then True
         else if 97 \<le> r \<and> r \<le> 122 then True
         else if 65 \<le> r \<and> r \<le> 90 then True
         else c = CHR ''_'' \<or> c = CHR ''-'')"

section \<open>Compiling rules\<close>

definition coalesce :: "string \<Rightarrow> string \<Rightarrow> string" where
  "coalesce v def = (if v = [] then def else v)"

text \<open>\<^verbatim>\<open>Duration.Milliseconds\<close> truncates towards zero.\<close>

definition durationMs :: "int \<Rightarrow> int" where
  "durationMs d = (if d \<ge> 0 then d div 1000000 else - ((- d) div 1000000))"

datatype compileError =
    PatternTooLong string nat
  | PatternTooComplex string nat string
  | PatternInvalid string nat string
  | FallbackInvalid string nat string

text \<open>
  \<open>compileRegex\<close> goes through the process-wide cache: a hit is returned without compiling, a
  miss is compiled and stored.
\<close>

definition compileRegex :: "'rx world \<Rightarrow> 'rx globals \<Rightarrow> string \<Rightarrow> string list
    \<Rightarrow> 'rx globals \<times> (string + 'rx)" where
  "compileRegex W g expr flags =
     (if expr = [] then (g, Inl ''empty regex'')
      else if globalMaxPatternLength g > 0 \<and> int (length expr) > globalMaxPatternLength g
        then (g, Inl ''too long'')
      else
        (let prefix = laxPrefix (lib W) flags;
             key = cacheKey (lib W) (prefix @ expr) flags
         in case rcGet W (regexCache g) key of
              (c, Some rx) \<Rightarrow> (g\<lparr>regexCache := c\<rparr>, Inr rx)
            | (c, None) \<Rightarrow>
                (case rxCompile (lib W) (prefix @ expr) of
                   Inl e \<Rightarrow> (g\<lparr>regexCache := c\<rparr>, Inl e)
                 | Inr rx \<Rightarrow> (g\<lparr>regexCache := rcAdd W c key rx\<rparr>, Inr rx))))"

text \<open>The loop over \<^verbatim>\<open>r.Patterns\<close>, from index \<open>i\<close>.\<close>

fun compilePatterns :: "'rx world \<Rightarrow> string \<Rightarrow> nat \<Rightarrow> pattern list
    \<Rightarrow> 'rx globals \<times> 'rx compiledRule \<times> compileError list
    \<Rightarrow> 'rx globals \<times> 'rx compiledRule \<times> compileError list" where
  "compilePatterns W rid i [] st = st"
| "compilePatterns W rid i (pat # pats) (g, cr, errs) =
     (if length (pt_Regex pat) > 1000
      then compilePatterns W rid (Suc i) pats (g, cr, errs @ [PatternTooLong rid i])
      else case CheckRegexComplexity (lib W) (pt_Regex pat) (pt_Flags pat) of
        Some e \<Rightarrow> compilePatterns W rid (Suc i) pats (g, cr, errs @ [PatternTooComplex rid i e])
      | None \<Rightarrow>
          (let (g', r) = compileRegex W g (pt_Regex pat) (pt_Flags pat);
               (cr', errs') = (case r of
                  Inl e \<Rightarrow> (cr, errs @ [PatternInvalid rid i e])
                | Inr rx \<Rightarrow> (cr\<lparr>cr_regexes := cr_regexes cr @ [rx],
                      cr_verifiers := cr_verifiers cr
                        @ [strToLower (lib W) (strTrimSpace (pt_Verifier pat))]\<rparr>, errs));
               toks = extractLiteralTokensFromRegex (minTokenLen g) (pt_Regex pat)
           in compilePatterns W rid (Suc i) pats
                (g', cr'\<lparr>cr_literalTokens := cr_literalTokens cr' @ toks\<rparr>, errs')))"

fun compileFallbacks :: "'rx world \<Rightarrow> string \<Rightarrow> nat \<Rightarrow> pattern list
    \<Rightarrow> 'rx globals \<times> 'rx compiledRule \<times> compileError list
    \<Rightarrow> 'rx globals \<times> 'rx compiledRule \<times> compileError list" where
  "compileFallbacks W rid i [] st = st"
| "compileFallbacks W rid i (p # ps) (g, cr, errs) =
     (let (g', r) = compileRegex W g (pt_Regex p) (pt_Flags p)
      in case r of
           Inl e \<Rightarrow> compileFallbacks W rid (Suc i) ps (g', cr, errs @ [FallbackInvalid rid i e])
         | Inr rx \<Rightarrow> compileFallbacks W rid (Suc i) ps
             (g', cr\<lparr>cr_fallbackRegexes := cr_fallbackRegexes cr @ [rx]\<rparr>, errs))"

text \<open>The fields that are set before any pattern is compiled.\<close>

definition compileHead :: "'rx golib \<Rightarrow> int \<Rightarrow> bool \<Rightarrow> bool \<Rightarrow> rule \<Rightarrow> 'rx compiledRule" where
  "compileHead G defTimeoutMs defCase defWord r =
     (let parsed = (if r_Timeout r \<noteq> []
            then (case parseDuration G (r_Timeout r) of Some d \<Rightarrow> durationMs d | None \<Rightarrow> 0) else 0);
          tmo = (if parsed = 0 \<and> defTimeoutMs > 0 then defTimeoutMs else parsed);
          cs = (if o_CaseSensitive (r_Options r) then True else defCase);
          ww = (if o_WholeWord (r_Options r) then True else defWord)
      in \<lparr>cr_id = r_ID r, cr_message = coalesce (r_Name r) ''rule violation'',
          cr_severity = coalesce (r_Severity r) ''INFO'', cr_category = r_Category r,
          cr_level = r_Level r,
          cr_keywords = (if cs then r_Keywords r else map (strToLower G) (r_Keywords r)),
          cr_regexes = [], cr_verifiers = [], cr_semantic = None, cr_fallbackRegexes = [],
          cr_when = r_When r, cr_unless = r_Unless r, cr_timeoutMs = tmo,
          cr_requireAll = strEqualFold G (r_Logic r) ''all'',
          cr_caseSensitive = cs, cr_wholeWord = ww, cr_literalTokens = [], cr_response = None,
          cr_fallbackAction = [], cr_cacheEnabled = False, cr_cacheTTL = 0,
          cr_cacheMaxEntries = 0\<rparr>)"

text \<open>The fields that are set after the patterns: semantic, response and cache settings.\<close>

definition compileTail :: "'rx golib \<Rightarrow> rule \<Rightarrow> 'rx compiledRule \<Rightarrow> 'rx compiledRule" where
  "compileTail G r cr =
     (let cr1 = cr\<lparr>cr_response := r_Response r\<rparr>
      in case r_Cache r of
           None \<Rightarrow> cr1
         | Some c \<Rightarrow>
             cr1\<lparr>cr_cacheEnabled := ca_Enabled c,
               cr_cacheMaxEntries := (if ca_MaxEntries c > 0 then ca_MaxEntries c else cr_cacheMaxEntries cr1),
               cr_cacheTTL := (let ttl = strTrimSpace (ca_TTL c)
                  in if ttl \<noteq> [] then (case parseDuration G ttl of Some d \<Rightarrow> d | None \<Rightarrow> cr_cacheTTL cr1)
                     else cr_cacheTTL cr1)\<rparr>)"

definition compileRule :: "'rx world \<Rightarrow> int \<Rightarrow> bool \<Rightarrow> bool \<Rightarrow> rule \<Rightarrow> 'rx globals
    \<Rightarrow> 'rx globals \<times> 'rx compiledRule \<times> compileError list" where
  "compileRule W defTimeoutMs defCase defWord r g =
     (let (g1, cr1, errs1) =
            compilePatterns W (r_ID r) 0 (r_Patterns r)
              (g, compileHead (lib W) defTimeoutMs defCase defWord r, []);
          cr2 = cr1\<lparr>cr_semantic := r_Semantic r\<rparr>;
          (g3, cr3, errs3) = (case r_Fallback r of
             None \<Rightarrow> (g1, cr2, errs1)
           | Some fb \<Rightarrow>
               (let (g', cr', errs') = compileFallbacks W (r_ID r) 0 (f_Patterns fb) (g1, cr2, errs1)
                in (g', cr'\<lparr>cr_fallbackAction := f_Action fb\<rparr>, errs')))
      in (g3, compileTail (lib W) r cr3, errs3))"

fun compileRules :: "'rx world \<Rightarrow> int \<Rightarrow> bool \<Rightarrow> bool \<Rightarrow> rule list \<Rightarrow> 'rx globals
    \<Rightarrow> 'rx globals \<times> 'rx compiledRule list \<times> compileError list" where
  "compileRules W t cs ww [] g = (g, [], [])"
| "compileRules W t cs ww (r # rs) g =
     (let (g1, cr, errs) = compileRule W t cs ww r g;
          (g2, crs, errs') = compileRules W t cs ww rs g1
      in (g2, cr # crs, errs @ errs'))"

section \<open>Context gating\<close>

definition conditionMatches :: "'rx golib \<Rightarrow> condition option \<Rightarrow> (string \<rightharpoonup> string) option \<Rightarrow> bool" where
  "conditionMatches G c ctx =
     (case c of
        None \<Rightarrow> True
      | Some c \<Rightarrow>
          if c_Match c = [] then True
          else case ctx of
            None \<Rightarrow> False
          | Some m \<Rightarrow> list_all (\<lambda>(k, vals). case m k of
                None \<Rightarrow> False
              | Some got \<Rightarrow> list_ex (\<lambda>v. strEqualFold G got v) vals) (c_Match c))"

definition contextMatches :: "'rx golib \<Rightarrow> condition option \<Rightarrow> condition option
    \<Rightarrow> (string \<rightharpoonup> string) option \<Rightarrow> bool" where
  "contextMatches G wh un ctx =
     (if un \<noteq> None \<and> conditionMatches G un ctx then False
      else if wh = None then True
      else conditionMatches G wh ctx)"

section \<open>Loading rule packs\<close>

definition strategyIs :: "'rx golib \<Rightarrow> string \<Rightarrow> rulePack \<Rightarrow> bool" where
  "strategyIs G name p =
     (case p_Composition p of None \<Rightarrow> False | Some c \<Rightarrow> strEqualFold G (co_Strategy c) name)"

definition keepShort :: "int \<Rightarrow> pattern list \<Rightarrow> pattern list" where
  "keepShort n = filter (\<lambda>p. int (length (pt_Regex p)) \<le> n)"

definition trimRule :: "int \<Rightarrow> rule \<Rightarrow> rule" where
  "trimRule n r = r\<lparr>r_Patterns := keepShort n (r_Patterns r),
     r_Fallback := map_option (\<lambda>fb. fb\<lparr>f_Patterns := keepShort n (f_Patterns fb)\<rparr>) (r_Fallback r)\<rparr>"

definition l1Keywords :: "'rx compiledRule list \<Rightarrow> string list" where
  "l1Keywords crs =
     concat (map (\<lambda>cr. if cr_level cr = 1 then filter (\<lambda>k. k \<noteq> []) (cr_keywords cr) else []) crs)"

definition tokenMatchers :: "'rx compiledRule list \<Rightarrow> string \<rightharpoonup> aho" where
  "tokenMatchers crs =
     foldl (\<lambda>m cr. if cr_literalTokens cr \<noteq> [] then m(cr_id cr \<mapsto> NewAho (cr_literalTokens cr)) else m)
       Map.empty crs"

text \<open>One iteration of the last loop: the settings a pack's composition and performance give.\<close>

definition applyPackSettings :: "'rx golib \<Rightarrow> 'rx scanner \<times> 'rx globals \<Rightarrow> rulePack
    \<Rightarrow> 'rx scanner \<times> 'rx globals" where
  "applyPackSettings G = (\<lambda>(s, g) p.
     (let s0 = (if strategyIs G ''first_match'' p then s\<lparr>firstMatch := True\<rparr> else s)
      in case p_Performance p of
           None \<Rightarrow> (s0, g)
         | Some pf \<Rightarrow>
             (let (s1, g1) =
                (if pf_MaxLength pf > 0 then
                   (let kw = l1Keywords (compiled s0)
                    in (s0\<lparr>maxLineForRegex :=
                           (if maxLineForRegex s0 = 0 \<or> pf_MaxLength pf < maxLineForRegex s0
                            then pf_MaxLength pf else maxLineForRegex s0),
                         ahoL1 := (if kw \<noteq> [] then Some (NewAho kw) else None),
                         ruleTokenAho := tokenMatchers (compiled s0)\<rparr>,
                        if g_MinTokenLen (pf_Gate pf) > 0
                        then g\<lparr>minTokenLen := g_MinTokenLen (pf_Gate pf)\<rparr> else g))
                 else (s0, g));
                  s2 = (if pf_Timeout pf \<noteq> [] then
                     (case parseDuration G (pf_Timeout pf) of
                        None \<Rightarrow> s1
                      | Some d \<Rightarrow> if fileTimeout s1 = 0 \<or> d < fileTimeout s1
                          then s1\<lparr>fileTimeout := d\<rparr> else s1)
                   else s1);
                  s3 = (if \<not> g_Enabled (pf_Gate pf) then s2\<lparr>ruleTokenAho := Map.empty\<rparr> else s2)
              in (s3, g1))))"

definition LoadRulePacks :: "'rx world \<Rightarrow> (rulePack list \<Rightarrow> rulePack list) \<Rightarrow> rulePack list
    \<Rightarrow> 'rx scanner \<times> 'rx globals \<Rightarrow> 'rx scanner \<times> 'rx globals" where
  "LoadRulePacks W srt packs = (\<lambda>(s, g).
     (let G = lib W;
          strat = strToLower G (compositionStrategy s);
          usePriority = (strat = ''priority_order'' \<or> list_ex (strategyIs G ''priority_order'') packs);
          s1 = (if strat = ''first_match'' then s\<lparr>firstMatch := True\<rparr> else s);
          merged = (if usePriority then MergePacksPriorityOrder srt packs else MergePacks packs);
          trimmed = (if maxPatternLength s1 > 0 then map (trimRule (maxPatternLength s1)) merged else merged);
          (g2, crs, errs) = compileRules W (defaultRuleTimeoutMs s1) (defaultCaseSensitive s1)
             (defaultWholeWord s1) trimmed g
      in foldl (applyPackSettings G) (s1\<lparr>compiled := crs\<rparr>, g2) packs))"

section \<open>Initial values and a concrete world\<close>

text \<open>The initial values of the package variables.\<close>

definition initGlobals :: "'rx globals" where
  "initGlobals = \<lparr>minTokenLen = 3, globalMaxPatternLength = 0, regexCache = []\<rparr>"

text \<open>For the witnesses: unbounded caches over the literal library, a clock ticking by 1 ms.\<close>

definition litWorld :: "string world" where
  "litWorld = \<lparr>lib = litLib, rcGet = (\<lambda>c k. (c, map_of c k)), rcAdd = (\<lambda>c k v. (k, v) # c),
     scNew = (\<lambda>n. if n > 0 then Some [] else None), scGet = (\<lambda>c k. (c, map_of c k)),
     scAdd = (\<lambda>c k v. (k, v) # c), scRemove = (\<lambda>c k. filter (\<lambda>e. fst e \<noteq> k) c),
     now = (\<lambda>k. 1000000 * int k)\<rparr>"

lemma litWorld_lib [simp]: "lib litWorld = litLib"
  by (simp add: litWorld_def)

section \<open>Compiling keeps the rules\<close>

lemma compilePatterns_head:
  "compilePatterns W rid i pats (g, cr, errs) = (g', cr', errs') \<Longrightarrow>
     cr_id cr' = cr_id cr \<and> cr_level cr' = cr_level cr \<and> cr_keywords cr' = cr_keywords cr
     \<and> cr_severity cr' = cr_severity cr \<and> cr_when cr' = cr_when cr \<and> cr_unless cr' = cr_unless cr
     \<and> cr_requireAll cr' = cr_requireAll cr
     \<and> length (cr_regexes cr') + length (cr_verifiers cr) = length (cr_verifiers cr') + length (cr_regexes cr)"
proof (induction pats arbitrary: i g cr errs)
  case (Cons pat pats)
  obtain g1 r where c: "compileRegex W g (pt_Regex pat) (pt_Flags pat) = (g1, r)" by fastforce
  from Cons.prems Cons.IH c show ?case
    by (cases r) (fastforce split: if_split_asm option.split_asm)+
qed simp

lemma compileFallbacks_head:
  "compileFallbacks W rid i ps (g, cr, errs) = (g', cr', errs') \<Longrightarrow>
     \<exists>fb. cr' = cr\<lparr>cr_fallbackRegexes := fb\<rparr>"
proof (induction ps arbitrary: i g cr errs)
  case Nil
  then show ?case by (intro exI [of _ "cr_fallbackRegexes cr"]) simp
next
  case (Cons p ps)
  obtain g1 r where c: "compileRegex W g (pt_Regex p) (pt_Flags p) = (g1, r)" by fastforce
  show ?case
  proof (cases r)
    case (Inl e)
    with Cons.prems c show ?thesis by (simp add: Cons.IH)
  next
    case (Inr rx)
    with Cons.prems c have "compileFallbacks W rid (Suc i) ps
        (g1, cr\<lparr>cr_fallbackRegexes := cr_fallbackRegexes cr @ [rx]\<rparr>, errs) = (g', cr', errs')" by simp
    from Cons.IH [OF this] show ?thesis by auto
  qed
qed

text \<open>What compilation keeps of a rule, whatever patterns are skipped.\<close>

definition compiledFrom :: "'rx golib \<Rightarrow> bool \<Rightarrow> rule \<Rightarrow> 'rx compiledRule \<Rightarrow> bool" where
  "compiledFrom G defCase r cr \<longleftrightarrow> cr_id cr = r_ID r \<and> cr_level cr = r_Level r
     \<and> cr_keywords cr = (if o_CaseSensitive (r_Options r) \<or> defCase then r_Keywords r
                         else map (strToLower G) (r_Keywords r))
     \<and> cr_severity cr = coalesce (r_Severity r) ''INFO''
     \<and> cr_when cr = r_When r \<and> cr_unless cr = r_Unless r
     \<and> cr_requireAll cr = strEqualFold G (r_Logic r) ''all''
     \<and> cr_semantic cr = r_Semantic r \<and> cr_response cr = r_Response r
     \<and> length (cr_verifiers cr) = length (cr_regexes cr)"

lemma compileRule_from:
  assumes "compileRule W t cs ww r g = (g', cr, errs)"
  shows "compiledFrom (lib W) cs r cr"
proof -
  obtain g1 cr1 errs1 where p: "compilePatterns W (r_ID r) 0 (r_Patterns r)
      (g, compileHead (lib W) t cs ww r, []) = (g1, cr1, errs1)" by (metis prod_cases3)
  note head = compilePatterns_head [OF p]
  have tail: "cr_id (compileTail G r x) = cr_id x" "cr_level (compileTail G r x) = cr_level x"
    "cr_keywords (compileTail G r x) = cr_keywords x" "cr_severity (compileTail G r x) = cr_severity x"
    "cr_when (compileTail G r x) = cr_when x" "cr_unless (compileTail G r x) = cr_unless x"
    "cr_requireAll (compileTail G r x) = cr_requireAll x" "cr_semantic (compileTail G r x) = cr_semantic x"
    "cr_regexes (compileTail G r x) = cr_regexes x" "cr_verifiers (compileTail G r x) = cr_verifiers x"
    "cr_response (compileTail G r x) = r_Response r" for G and x :: "'a compiledRule"
    by (simp_all add: compileTail_def Let_def split: option.split)
  have "\<exists>fb fa. cr = compileTail (lib W) r (cr1\<lparr>cr_semantic := r_Semantic r, cr_fallbackRegexes := fb, cr_fallbackAction := fa\<rparr>)"
  proof (cases "r_Fallback r")
    case None
    with assms p have "cr = compileTail (lib W) r (cr1\<lparr>cr_semantic := r_Semantic r\<rparr>)"
      by (simp add: compileRule_def)
    then show ?thesis
      by (intro exI [of _ "cr_fallbackRegexes cr1"] exI [of _ "cr_fallbackAction cr1"]) simp
  next
    case (Some fb)
    obtain g2 cr2 errs2 where f: "compileFallbacks W (r_ID r) 0 (f_Patterns fb)
        (g1, cr1\<lparr>cr_semantic := r_Semantic r\<rparr>, errs1) = (g2, cr2, errs2)" by (metis prod_cases3)
    from compileFallbacks_head [OF f] Some assms p f show ?thesis
      by (auto simp: compileRule_def)
  qed
  then show ?thesis
    using head by (auto simp: compiledFrom_def compileHead_def Let_def tail)
qed

lemma compileRules_from:
  "compileRules W t cs ww rs g = (g', crs, errs) \<Longrightarrow> list_all2 (compiledFrom (lib W) cs) rs crs"
proof (induction rs arbitrary: g g' crs errs)
  case (Cons r rs)
  then show ?case
    by (auto split: prod.split_asm dest: compileRule_from)
qed simp

section \<open>Loading\<close>

lemma compiledFrom_trim [simp]: "compiledFrom G cs (trimRule n r) = compiledFrom G cs r"
  by (auto simp: compiledFrom_def trimRule_def fun_eq_iff)

lemma applyPackSettings_keeps:
  "compiled (fst (applyPackSettings G (s, g) p)) = compiled s"
  "firstMatch (fst (applyPackSettings G (s, g) p)) \<longleftrightarrow> firstMatch s \<or> strategyIs G ''first_match'' p"
  by (auto simp: applyPackSettings_def Let_def split: option.split)

lemma applyPackSettings_fold:
  "compiled (fst (foldl (applyPackSettings G) sg packs)) = compiled (fst sg)
   \<and> (firstMatch (fst (foldl (applyPackSettings G) sg packs)) \<longleftrightarrow>
        firstMatch (fst sg) \<or> list_ex (strategyIs G ''first_match'') packs)"
proof (induction packs arbitrary: sg)
  case (Cons p packs)
  then show ?case
    using applyPackSettings_keeps [of G "fst sg" "snd sg" p] by simp
qed simp

text \<open>The settings derived from a pack's performance section.\<close>

definition samePerformance :: "'rx scanner \<Rightarrow> 'rx scanner \<Rightarrow> bool" where
  "samePerformance s s' \<longleftrightarrow> ahoL1 s' = ahoL1 s \<and> ruleTokenAho s' = ruleTokenAho s
     \<and> maxLineForRegex s' = maxLineForRegex s \<and> fileTimeout s' = fileTimeout s"

lemma applyPackSettings_fold_none:
  "list_all (\<lambda>p. p_Performance p = None) packs \<Longrightarrow>
     samePerformance (fst sg) (fst (foldl (applyPackSettings G) sg packs))"
proof (induction packs arbitrary: sg)
  case (Cons p packs)
  have "samePerformance (fst sg) (fst (applyPackSettings G sg p))"
    using Cons.prems by (cases sg) (simp add: applyPackSettings_def samePerformance_def Let_def)
  with Cons show ?case by (simp add: samePerformance_def)
qed (simp add: samePerformance_def)

definition usesPriority :: "'rx world \<Rightarrow> rulePack list \<Rightarrow> 'rx scanner \<Rightarrow> bool" where
  "usesPriority W packs s \<longleftrightarrow> strToLower (lib W) (compositionStrategy s) = ''priority_order''
     \<or> list_ex (strategyIs (lib W) ''priority_order'') packs"

lemma LoadRulePacks_fold:
  obtains s1 g1 where
    "LoadRulePacks W srt packs (s, g) = foldl (applyPackSettings (lib W)) (s1, g1) packs"
    "list_all2 (compiledFrom (lib W) (defaultCaseSensitive s))
       (if usesPriority W packs s then MergePacksPriorityOrder srt packs else MergePacks packs) (compiled s1)"
    "firstMatch s1 \<longleftrightarrow> firstMatch s \<or> strToLower (lib W) (compositionStrategy s) = ''first_match''"
    "samePerformance s s1"
proof -
  define s1 where "s1 = (if strToLower (lib W) (compositionStrategy s) = ''first_match''
    then s\<lparr>firstMatch := True\<rparr> else s)"
  define merged where "merged = (if usesPriority W packs s then MergePacksPriorityOrder srt packs
    else MergePacks packs)"
  define trimmed where "trimmed = (if maxPatternLength s1 > 0
    then map (trimRule (maxPatternLength s1)) merged else merged)"
  obtain g2 crs errs where c: "compileRules W (defaultRuleTimeoutMs s1) (defaultCaseSensitive s1)
      (defaultWholeWord s1) trimmed g = (g2, crs, errs)" by (metis prod_cases3)
  have "LoadRulePacks W srt packs (s, g) = foldl (applyPackSettings (lib W)) (s1\<lparr>compiled := crs\<rparr>, g2) packs"
    unfolding LoadRulePacks_def Let_def prod.case usesPriority_def [symmetric]
      s1_def [symmetric] merged_def [symmetric] trimmed_def [symmetric] c by (rule refl)
  moreover have "list_all2 (compiledFrom (lib W) (defaultCaseSensitive s)) merged crs"
    using compileRules_from [OF c] by (simp add: trimmed_def s1_def list_all2_conv_all_nth split: if_split_asm)
  ultimately show ?thesis
    by (intro that [of "s1\<lparr>compiled := crs\<rparr>" g2]) (simp_all add: merged_def s1_def samePerformance_def)
qed

lemma LoadRulePacks_compiled:
  "list_all2 (compiledFrom (lib W) (defaultCaseSensitive s))
     (if usesPriority W packs s then MergePacksPriorityOrder srt packs else MergePacks packs)
     (compiled (fst (LoadRulePacks W srt packs (s, g))))"
proof -
  obtain s1 g1 where "LoadRulePacks W srt packs (s, g) = foldl (applyPackSettings (lib W)) (s1, g1) packs"
    "list_all2 (compiledFrom (lib W) (defaultCaseSensitive s))
       (if usesPriority W packs s then MergePacksPriorityOrder srt packs else MergePacks packs) (compiled s1)"
    by (rule LoadRulePacks_fold)
  then show ?thesis using applyPackSettings_fold [of "lib W" "(s1, g1)" packs] by simp
qed

lemma applyPackSettings_defaults:
  "defaultCaseSensitive (fst (foldl (applyPackSettings G) sg packs)) = defaultCaseSensitive (fst sg)
   \<and> compositionStrategy (fst (foldl (applyPackSettings G) sg packs)) = compositionStrategy (fst sg)"
proof (induction packs arbitrary: sg)
  case (Cons p packs)
  have "defaultCaseSensitive (fst (applyPackSettings G sg p)) = defaultCaseSensitive (fst sg)
      \<and> compositionStrategy (fst (applyPackSettings G sg p)) = compositionStrategy (fst sg)"
    by (cases sg) (auto simp: applyPackSettings_def Let_def split: option.splits)
  with Cons show ?case by simp
qed simp

lemma LoadRulePacks_defaults:
  "defaultCaseSensitive (fst (LoadRulePacks W srt packs (s, g))) = defaultCaseSensitive s"
  "compositionStrategy (fst (LoadRulePacks W srt packs (s, g))) = compositionStrategy s"
  by (simp_all add: LoadRulePacks_def Let_def applyPackSettings_defaults split: prod.split)

section \<open>Properties of loading\<close>

text \<open>
  Loading replaces the whole rule list: afterwards the scanner holds exactly one compiled
  rule per merged rule, in merge order, with the rule's id, level, severity, conditions, logic,
  semantic block, response and (lowered unless case-sensitive) keywords, and one verifier per
  compiled pattern, whatever patterns were skipped and whatever was loaded before.
\<close>

theorem LoadRulePacks_rules:
  "list_all2 (compiledFrom (lib W) (defaultCaseSensitive s))
     (if usesPriority W packs s then MergePacksPriorityOrder srt packs else MergePacks packs)
     (compiled (fst (LoadRulePacks W srt packs (s, g))))"
  by (rule LoadRulePacks_compiled)

text \<open>
  Loading does not replace the settings derived from packs: \<open>firstMatch\<close> stays set once any
  load has set it, and loading packs without a performance section keeps the keyword matcher,
  the token gates, the line limit and the file timeout of the packs loaded before, although
  the matcher and the gates were built from rules that are gone.
\<close>

theorem LoadRulePacks_settings_survive:
  assumes "list_all (\<lambda>p. p_Performance p = None) packs"
  shows "(firstMatch (fst (LoadRulePacks W srt packs (s, g))) \<longleftrightarrow>
      firstMatch s \<or> strToLower (lib W) (compositionStrategy s) = ''first_match''
      \<or> list_ex (strategyIs (lib W) ''first_match'') packs)
    \<and> samePerformance s (fst (LoadRulePacks W srt packs (s, g)))"
proof -
  obtain s1 g1 where l: "LoadRulePacks W srt packs (s, g) = foldl (applyPackSettings (lib W)) (s1, g1) packs"
    and f: "firstMatch s1 \<longleftrightarrow> firstMatch s \<or> strToLower (lib W) (compositionStrategy s) = ''first_match''"
    and p: "samePerformance s s1" by (rule LoadRulePacks_fold)
  from applyPackSettings_fold_none [OF assms, of "(s1, g1)" "lib W"] p
  have "samePerformance s (fst (LoadRulePacks W srt packs (s, g)))"
    unfolding l by (simp add: samePerformance_def)
  with applyPackSettings_fold [of "lib W" "(s1, g1)" packs] f show ?thesis unfolding l by auto
qed

theorem LoadRulePacks_settings_survive_witness:
  "samePerformance ((ScanEngineCstor 0)\<lparr>ahoL1 := Some (NewAho [''secret''])\<rparr>)
     (fst (LoadRulePacks litWorld sortPacksStable
        [zeroPack\<lparr>p_Rules := [zeroRule\<lparr>r_ID := ''r1'', r_Keywords := [''hello'']\<rparr>]\<rparr>]
        ((ScanEngineCstor 0)\<lparr>ahoL1 := Some (NewAho [''secret''])\<rparr>, initGlobals)))"
  using LoadRulePacks_settings_survive [of "[zeroPack\<lparr>p_Rules := [zeroRule\<lparr>r_ID := ''r1'', r_Keywords := [''hello'']\<rparr>]\<rparr>]"
      litWorld sortPacksStable "(ScanEngineCstor 0)\<lparr>ahoL1 := Some (NewAho [''secret''])\<rparr>" initGlobals]
  by (simp add: zeroPack_def)

end
