(* ===== verification/Scanner_Eval.thy ===== *)
theory Scanner_Eval
  imports Scanner Verifiers
begin

text \<open>
  Evaluation of the compiled rules on one line: \<^verbatim>\<open>internal/scanner/evaluate.go\<close> and
  \<^verbatim>\<open>semantic.go\<close>. What the functions change is the record \<open>evalState\<close>: the result under
  construction, the set of de-duplication keys of the line, the semantic caches of the scanner,
  and how often the clock was read and the analyzer called. Logging is left out.
\<close>

section \<open>State\<close>

record evalState =
  es_res :: scanResult
  es_seen :: "string set"
  es_caches :: "string \<rightharpoonup> semLru"
  es_clock :: nat
  es_calls :: nat

definition violations :: "evalState \<Rightarrow> violation list" where
  "violations st = sr_Violations (es_res st)"

definition addViolation :: "string \<Rightarrow> violation \<Rightarrow> evalState \<Rightarrow> evalState" where
  "addViolation key v st =
     st\<lparr>es_seen := insert key (es_seen st),
        es_res := (es_res st)\<lparr>sr_Violations := sr_Violations (es_res st) @ [v]\<rparr>\<rparr>"

definition onMetrics :: "(metrics \<Rightarrow> metrics) \<Rightarrow> evalState \<Rightarrow> evalState" where
  "onMetrics f st = st\<lparr>es_res := (es_res st)\<lparr>sr_Metrics := f (sr_Metrics (es_res st))\<rparr>\<rparr>"

text \<open>The two composite literals of the file: without and with category and response.\<close>

definition bareViolation :: "'rx compiledRule \<Rightarrow> int \<Rightarrow> int \<Rightarrow> violation" where
  "bareViolation cr lineNum col =
     zeroViolation\<lparr>v_RuleID := cr_id cr, v_Message := cr_message cr, v_Severity := cr_severity cr,
       v_Line := lineNum, v_Column := col, v_RuleTimeoutMs := cr_timeoutMs cr\<rparr>"

definition fullViolation :: "'rx compiledRule \<Rightarrow> int \<Rightarrow> int \<Rightarrow> violation" where
  "fullViolation cr lineNum col =
     (let v = (bareViolation cr lineNum col)\<lparr>v_Category := cr_category cr\<rparr>
      in case cr_response cr of
           None \<Rightarrow> v
         | Some r \<Rightarrow> v\<lparr>v_ResponseAction := rs_Action r, v_ResponseMessage := rs_Message r,
             v_ResponseReplacement := rs_Replacement r\<rparr>)"

text \<open>The keys of the de-duplication map.\<close>

definition ruleKey :: "'rx compiledRule \<Rightarrow> int \<Rightarrow> string" where
  "ruleKey cr lineNum = cr_id cr @ ''|'' @ itoa lineNum"

definition kwKey :: "'rx compiledRule \<Rightarrow> int \<Rightarrow> string \<Rightarrow> nat \<Rightarrow> string" where
  "kwKey cr lineNum kw idx = ruleKey cr lineNum @ ''|kw|'' @ kw @ ''|'' @ itoa (int idx)"

definition kwAllKey :: "'rx compiledRule \<Rightarrow> int \<Rightarrow> string" where
  "kwAllKey cr lineNum = ruleKey cr lineNum @ ''|kw|all''"

definition rxKey :: "'rx compiledRule \<Rightarrow> int \<Rightarrow> nat \<Rightarrow> string" where
  "rxKey cr lineNum idx = ruleKey cr lineNum @ ''|rx|'' @ itoa (int idx)"

definition rxAllKey :: "'rx compiledRule \<Rightarrow> int \<Rightarrow> string" where
  "rxAllKey cr lineNum = ruleKey cr lineNum @ ''|rx|all''"

section \<open>Keywords\<close>

text \<open>The word-boundary test around a match of \<open>len\<close> bytes at \<open>idx\<close>.\<close>

definition wordBounded :: "string \<Rightarrow> nat \<Rightarrow> nat \<Rightarrow> bool" where
  "wordBounded hay idx len =
     (let leftOK = (idx = 0 \<or> \<not> isWordChar (hay ! (idx - 1)));
          rightPos = idx + len;
          rightOK = (rightPos \<ge> length hay \<or> \<not> isWordChar (hay ! rightPos))
      in leftOK \<and> rightOK)"

text \<open>
  The loop over the hits of the shared matcher. The result has the state, the keywords found,
  the first index, whether something was reported, and whether the function returned early.
\<close>

fun ahoLoop :: "bool \<Rightarrow> string list \<Rightarrow> string \<Rightarrow> int \<Rightarrow> 'rx compiledRule \<Rightarrow> match list
    \<Rightarrow> evalState \<Rightarrow> (string \<rightharpoonup> nat) \<Rightarrow> nat option \<Rightarrow> bool
    \<Rightarrow> evalState \<times> (string \<rightharpoonup> nat) \<times> nat option \<times> bool \<times> bool" where
  "ahoLoop fm pats lower lineNum cr [] st found firstIdx any = (st, found, firstIdx, any, False)"
| "ahoLoop fm pats lower lineNum cr (m # ms) st found firstIdx any =
     (let kw = pats ! fst m; idx = snd m
      in if cr_wholeWord cr \<and> \<not> wordBounded lower idx (length kw)
         then ahoLoop fm pats lower lineNum cr ms st found firstIdx any
         else
           (let isNew = (found kw = None);
                found' = (if isNew then found(kw \<mapsto> idx) else found);
                firstIdx' = (if isNew \<and> firstIdx = None then Some idx else firstIdx)
            in if cr_requireAll cr \<or> kwKey cr lineNum kw idx \<in> es_seen st
               then ahoLoop fm pats lower lineNum cr ms st found' firstIdx' any
               else
                 (let st' = addViolation (kwKey cr lineNum kw idx)
                        (fullViolation cr lineNum (int idx + 1)) st
                  in if fm then (st', found', firstIdx', True, True)
                     else ahoLoop fm pats lower lineNum cr ms st' found' firstIdx' True)))"

definition colOf :: "nat option \<Rightarrow> int" where
  "colOf firstIdx = (case firstIdx of None \<Rightarrow> 1 | Some i \<Rightarrow> int i + 1)"

definition evalKeywordsAho :: "bool \<Rightarrow> string list \<Rightarrow> string \<Rightarrow> int \<Rightarrow> 'rx compiledRule \<Rightarrow> match list
    \<Rightarrow> evalState \<Rightarrow> evalState \<times> bool" where
  "evalKeywordsAho fm pats lower lineNum cr hits st =
     (let (st1, found, firstIdx, any, returned) =
            ahoLoop fm pats lower lineNum cr hits st Map.empty None False
      in if returned then (st1, True)
         else if cr_requireAll cr \<and> cr_keywords cr \<noteq> []
              \<and> list_all (\<lambda>kw. found kw \<noteq> None) (cr_keywords cr)
              \<and> kwAllKey cr lineNum \<notin> es_seen st1
           then (addViolation (kwAllKey cr lineNum) (fullViolation cr lineNum (colOf firstIdx)) st1, True)
         else (st1, any))"

text \<open>The two loops without the matcher; \<open>None\<close> is a keyword that is missing or not a word.\<close>

fun allKeywords :: "bool \<Rightarrow> string \<Rightarrow> string list \<Rightarrow> nat option \<Rightarrow> nat option option" where
  "allKeywords ww hay [] firstIdx = Some firstIdx"
| "allKeywords ww hay (kw # kws) firstIdx =
     (case strIndex hay kw of
        None \<Rightarrow> None
      | Some idx \<Rightarrow>
          if ww \<and> \<not> wordBounded hay idx (length kw) then None
          else allKeywords ww hay kws (if firstIdx = None then Some idx else firstIdx))"

fun anyKeywords :: "string \<Rightarrow> int \<Rightarrow> 'rx compiledRule \<Rightarrow> string list \<Rightarrow> evalState \<Rightarrow> bool
    \<Rightarrow> evalState \<times> bool" where
  "anyKeywords hay lineNum cr [] st any = (st, any)"
| "anyKeywords hay lineNum cr (kw # kws) st any =
     (case strIndex hay kw of
        None \<Rightarrow> anyKeywords hay lineNum cr kws st any
      | Some idx \<Rightarrow>
          if cr_wholeWord cr \<and> \<not> wordBounded hay idx (length kw)
          then anyKeywords hay lineNum cr kws st any
          else if kwKey cr lineNum kw idx \<in> es_seen st
          then anyKeywords hay lineNum cr kws st any
          else anyKeywords hay lineNum cr kws
             (addViolation (kwKey cr lineNum kw idx) (fullViolation cr lineNum (int idx + 1)) st) True)"

definition evalKeywords :: "'rx scanner \<Rightarrow> string \<Rightarrow> string \<Rightarrow> int \<Rightarrow> 'rx compiledRule \<Rightarrow> match list
    \<Rightarrow> evalState \<Rightarrow> evalState \<times> bool" where
  "evalKeywords s lower line lineNum cr ahoHits st =
     (let hay = (if cr_caseSensitive cr then line else lower)
      in case (if \<not> cr_caseSensitive cr \<and> ahoHits \<noteq> [] then ahoL1 s else None) of
           Some a \<Rightarrow> evalKeywordsAho (firstMatch s) (patterns a) lower lineNum cr ahoHits st
         | None \<Rightarrow>
             if cr_requireAll cr \<and> cr_keywords cr \<noteq> [] then
               (case allKeywords (cr_wholeWord cr) hay (cr_keywords cr) None of
                  None \<Rightarrow> (st, False)
                | Some firstIdx \<Rightarrow>
                    if kwAllKey cr lineNum \<in> es_seen st then (st, False)
                    else (addViolation (kwAllKey cr lineNum)
                            (bareViolation cr lineNum (colOf firstIdx)) st, True))
             else anyKeywords hay lineNum cr (cr_keywords cr) st False)"

section \<open>Regular expressions\<close>

definition verifierOk :: "'rx golib \<Rightarrow> string \<Rightarrow> string \<Rightarrow> bool" where
  "verifierOk G verifier m =
     (if verifier = ''luhn'' then LuhnCheck G m
      else if verifier = ''ssn'' then SSNValid G m
      else if verifier = ''ssn_area'' then SSNAreaValid G m
      else if verifier = ''iban'' then IBANValid G m
      else if verifier = ''email'' then EmailValid m
      else True)"

definition subStr :: "string \<Rightarrow> nat \<Rightarrow> nat \<Rightarrow> string" where
  "subStr s i j = take (j - i) (drop i s)"

text \<open>\<open>None\<close>: some regex does not match; otherwise the least start of the first matches.\<close>

fun allRegexes :: "'rx golib \<Rightarrow> string \<Rightarrow> 'rx list \<Rightarrow> nat option \<Rightarrow> nat option option" where
  "allRegexes G line [] earliest = Some earliest"
| "allRegexes G line (rx # rxs) earliest =
     (case rxFind G rx line of
        None \<Rightarrow> None
      | Some loc \<Rightarrow> allRegexes G line rxs
          (Some (case earliest of None \<Rightarrow> fst loc
                 | Some e \<Rightarrow> if fst loc < e then fst loc else e)))"

text \<open>The inner loop over the matches of one pattern; \<open>ver\<close> is its verifier, if it has one.\<close>

fun regexMatches :: "'rx golib \<Rightarrow> string \<Rightarrow> int \<Rightarrow> 'rx compiledRule \<Rightarrow> string option
    \<Rightarrow> (nat \<times> nat) list \<Rightarrow> evalState \<times> bool \<times> int \<Rightarrow> evalState \<times> bool \<times> int" where
  "regexMatches G line lineNum cr ver [] acc = acc"
| "regexMatches G line lineNum cr ver (loc # locs) (st, matched, col) =
     (if \<not> (case ver of None \<Rightarrow> True | Some v \<Rightarrow> verifierOk G v (subStr line (fst loc) (snd loc)))
      then regexMatches G line lineNum cr ver locs (st, matched, col)
      else if rxKey cr lineNum (fst loc) \<in> es_seen st
      then regexMatches G line lineNum cr ver locs (st, matched, col)
      else regexMatches G line lineNum cr ver locs
        (addViolation (rxKey cr lineNum (fst loc)) (fullViolation cr lineNum (int (fst loc) + 1)) st,
         True, int (fst loc) + 1))"

fun anyRegexes :: "'rx golib \<Rightarrow> string \<Rightarrow> int \<Rightarrow> 'rx compiledRule \<Rightarrow> nat \<Rightarrow> 'rx list
    \<Rightarrow> evalState \<times> bool \<times> int \<Rightarrow> evalState \<times> bool \<times> int" where
  "anyRegexes G line lineNum cr i [] acc = acc"
| "anyRegexes G line lineNum cr i (rx # rxs) acc =
     (let ver = (if i < length (cr_verifiers cr) then Some (cr_verifiers cr ! i) else None)
      in anyRegexes G line lineNum cr (Suc i) rxs
           (regexMatches G line lineNum cr ver (rxFindAll G rx line) acc))"

definition evalRegexesStandard :: "'rx golib \<Rightarrow> string \<Rightarrow> int \<Rightarrow> 'rx compiledRule \<Rightarrow> evalState
    \<Rightarrow> evalState \<times> bool \<times> int" where
  "evalRegexesStandard G line lineNum cr st =
     (if cr_requireAll cr \<and> cr_regexes cr \<noteq> [] then
        (case allRegexes G line (cr_regexes cr) None of
           None \<Rightarrow> (st, False, 1)
         | Some earliest \<Rightarrow>
             if rxAllKey cr lineNum \<in> es_seen st then (st, False, 1)
             else (addViolation (rxAllKey cr lineNum)
                     (bareViolation cr lineNum (colOf earliest)) st, True, colOf earliest))
      else anyRegexes G line lineNum cr 0 (cr_regexes cr) (st, False, 1))"

section \<open>Semantic analysis\<close>

definition semanticTimeout :: "'rx scanner \<Rightarrow> 'rx compiledRule \<Rightarrow> int" where
  "semanticTimeout s cr =
     (if cr_timeoutMs cr > 0 then wrap64 (cr_timeoutMs cr * 1000000)
      else if fileTimeout s > 0 then
        (if fileTimeout s div 10 \<le> 0 then 2000000000 else fileTimeout s div 10)
      else 2000000000)"

text \<open>
  The cache lookup: a live entry with a positive verdict answers; a live negative one does not;
  an expired one is removed. The clock is read only on a hit.
\<close>

definition cacheLookup :: "'rx world \<Rightarrow> 'rx compiledRule \<Rightarrow> string \<Rightarrow> evalState \<Rightarrow> evalState \<times> bool" where
  "cacheLookup W cr line st =
     (if \<not> cr_cacheEnabled cr then (st, False)
      else case es_caches st (cr_id cr) of
        None \<Rightarrow> (st, False)
      | Some c \<Rightarrow>
          (case scGet W c line of
             (c', None) \<Rightarrow> (st\<lparr>es_caches := (es_caches st)(cr_id cr \<mapsto> c')\<rparr>, False)
           | (c', Some ce) \<Rightarrow>
               (let st1 = st\<lparr>es_caches := (es_caches st)(cr_id cr \<mapsto> c'), es_clock := Suc (es_clock st)\<rparr>
                in if now W (es_clock st) < e_expiresAt ce then (st1, e_ok ce)
                   else (st1\<lparr>es_caches := (es_caches st1)(cr_id cr \<mapsto> scRemove W c' line)\<rparr>, False))))"

definition cacheStore :: "'rx world \<Rightarrow> 'rx compiledRule \<Rightarrow> string \<Rightarrow> bool \<Rightarrow> real \<Rightarrow> evalState \<Rightarrow> evalState" where
  "cacheStore W cr line ok conf st =
     (if \<not> cr_cacheEnabled cr then st
      else
        (let cap = (if cr_cacheMaxEntries cr > 0 then cr_cacheMaxEntries cr else 256);
             caches = (if es_caches st (cr_id cr) = None
                then (case scNew W cap of None \<Rightarrow> es_caches st
                      | Some c \<Rightarrow> (es_caches st)(cr_id cr \<mapsto> c))
                else es_caches st)
         in case caches (cr_id cr) of
              None \<Rightarrow> st\<lparr>es_caches := caches\<rparr>
            | Some c \<Rightarrow>
                (let ttl = (if cr_cacheTTL cr > 0 then cr_cacheTTL cr else 900000000000)
                 in st\<lparr>es_caches := caches(cr_id cr \<mapsto> scAdd W c line
                         \<lparr>e_ok = ok, e_conf = conf, e_expiresAt = now W (es_clock st) + ttl\<rparr>),
                       es_clock := Suc (es_clock st)\<rparr>)))"

fun fallbackMatch :: "'rx golib \<Rightarrow> string \<Rightarrow> 'rx list \<Rightarrow> nat option" where
  "fallbackMatch G line [] = None"
| "fallbackMatch G line (rx # rxs) =
     (case rxFind G rx line of Some loc \<Rightarrow> Some (fst loc) | None \<Rightarrow> fallbackMatch G line rxs)"

text \<open>The result is the state, the verdict and the column.\<close>

definition evaluateSemantic :: "'rx world \<Rightarrow> 'rx scanner \<Rightarrow> string \<Rightarrow> 'rx compiledRule \<Rightarrow> int
    \<Rightarrow> evalState \<Rightarrow> evalState \<times> bool \<times> int" where
  "evaluateSemantic W s line cr col st =
     (case (cr_semantic cr, semanticAnalyzer s) of
        (Some sem, Some analyze) \<Rightarrow>
          (let (st1, hit) = cacheLookup W cr line st
           in if hit then (st1, True, col)
              else
                (let (ok, conf, err) = analyze (es_calls st1) (semanticTimeout s cr) line sem;
                     st2 = st1\<lparr>es_calls := Suc (es_calls st1)\<rparr>
                 in if err = None \<and> ok then (cacheStore W cr line ok conf st2, True, col)
                    else if err \<noteq> None \<and> \<not> s_FallbackOnError sem then (st2, False, col)
                    else case fallbackMatch (lib W) line (cr_fallbackRegexes cr) of
                        Some i \<Rightarrow> (st2, True, int i + 1)
                      | None \<Rightarrow> (st2, False, col)))
      | _ \<Rightarrow> (st, False, col))"

section \<open>A line\<close>

text \<open>The token gate of a rule is closed when it has a matcher and no token occurs.\<close>

definition gateClosed :: "'rx golib \<Rightarrow> 'rx scanner \<Rightarrow> string \<Rightarrow> 'rx compiledRule \<Rightarrow> bool" where
  "gateClosed G s lower cr =
     (case ruleTokenAho s (cr_id cr) of None \<Rightarrow> False | Some a \<Rightarrow> FindAll G (Some a) lower = [])"

definition incRegexAttempts :: "metrics \<Rightarrow> metrics" where
  "incRegexAttempts m = m\<lparr>RegexAttempts := RegexAttempts m + 1\<rparr>"

definition incRegexSkipped :: "metrics \<Rightarrow> metrics" where
  "incRegexSkipped m = m\<lparr>RegexSkipped := RegexSkipped m + 1\<rparr>"

definition incSemanticAttempts :: "metrics \<Rightarrow> metrics" where
  "incSemanticAttempts m = m\<lparr>SemanticAttempts := SemanticAttempts m + 1\<rparr>"

definition incSemanticSkipped :: "metrics \<Rightarrow> metrics" where
  "incSemanticSkipped m = m\<lparr>SemanticSkipped := SemanticSkipped m + 1\<rparr>"

text \<open>The regex stage of a rule: tried only within the line limit and through an open gate.\<close>

definition regexStage :: "'rx world \<Rightarrow> 'rx scanner \<Rightarrow> string \<Rightarrow> string \<Rightarrow> int \<Rightarrow> 'rx compiledRule
    \<Rightarrow> evalState \<Rightarrow> evalState \<times> bool \<times> int" where
  "regexStage W s lower line lineNum cr st =
     (if cr_regexes cr \<noteq> []
        \<and> (maxLineForRegex s = 0 \<or> int (length line) \<le> maxLineForRegex s)
        \<and> \<not> gateClosed (lib W) s lower cr
      then evalRegexesStandard (lib W) line lineNum cr (onMetrics incRegexAttempts st)
      else (st, False, 1))"

text \<open>The semantic stage of a rule that nothing matched so far, and its report.\<close>

definition semanticStage :: "'rx world \<Rightarrow> 'rx scanner \<Rightarrow> string \<Rightarrow> string \<Rightarrow> int \<Rightarrow> 'rx compiledRule
    \<Rightarrow> int \<Rightarrow> evalState \<Rightarrow> evalState \<times> bool" where
  "semanticStage W s lower line lineNum cr col st =
     (if cr_level cr \<noteq> 3 then (st, False)
      else if gateClosed (lib W) s lower cr then (onMetrics incSemanticSkipped st, False)
      else
        (let (st1, ok, col1) = evaluateSemantic W s line cr col (onMetrics incSemanticAttempts st)
         in if ok \<and> ruleKey cr lineNum \<notin> es_seen st1
            then (addViolation (ruleKey cr lineNum) (bareViolation cr lineNum col1) st1, True)
            else (st1, False)))"

text \<open>
  One iteration of the loop over the rules; the flag says that the iteration set
  \<^verbatim>\<open>matchedAny\<close>, which is also when \<^verbatim>\<open>first_match\<close> returns.
\<close>

definition evalRule :: "'rx world \<Rightarrow> 'rx scanner \<Rightarrow> string \<Rightarrow> string \<Rightarrow> int \<Rightarrow> match list
    \<Rightarrow> 'rx compiledRule \<Rightarrow> evalState \<Rightarrow> evalState \<times> bool" where
  "evalRule W s lower line lineNum ahoHits cr st =
     (if \<not> contextMatches (lib W) (cr_when cr) (cr_unless cr) (runtimeContext s) then (st, False)
      else
        (let (st1, kwHit) = (if cr_keywords cr \<noteq> []
               then evalKeywords s lower line lineNum cr ahoHits st else (st, False))
         in if kwHit then (st1, True)
            else
              (let (st2, rxHit, col) = regexStage W s lower line lineNum cr st1
               in if rxHit then (st2, True)
                  else
                    (let st3 = (if cr_regexes cr \<noteq> [] \<and> gateClosed (lib W) s lower cr
                           then onMetrics incRegexSkipped st2 else st2)
                     in semanticStage W s lower line lineNum cr col st3))))"

fun evalRules :: "'rx world \<Rightarrow> 'rx scanner \<Rightarrow> string \<Rightarrow> string \<Rightarrow> int \<Rightarrow> match list
    \<Rightarrow> 'rx compiledRule list \<Rightarrow> evalState \<Rightarrow> bool \<Rightarrow> evalState \<times> bool" where
  "evalRules W s lower line lineNum ahoHits [] st matchedAny = (st, matchedAny)"
| "evalRules W s lower line lineNum ahoHits (cr # crs) st matchedAny =
     (let (st1, hit) = evalRule W s lower line lineNum ahoHits cr st
      in if hit \<and> firstMatch s then (st1, True)
         else evalRules W s lower line lineNum ahoHits crs st1 (matchedAny \<or> hit))"

definition evaluateLine :: "'rx world \<Rightarrow> 'rx scanner \<Rightarrow> string \<Rightarrow> int \<Rightarrow> evalState \<Rightarrow> evalState \<times> bool" where
  "evaluateLine W s line lineNum st =
     (let lower = strToLower (lib W) line;
          ahoHits = FindAll (lib W) (ahoL1 s) lower
      in evalRules W s lower line lineNum ahoHits (compiled s) st False)"

text \<open>The segments of a long line: \<open>step\<close> bytes each, extended by the overlap where it fits.\<close>

function segments :: "nat \<Rightarrow> nat \<Rightarrow> string \<Rightarrow> nat \<Rightarrow> (nat \<times> nat) list" where
  "segments step overlap line start =
     (if step = 0 \<or> start \<ge> length line then []
      else
        (let e1 = min (start + step) (length line);
             e2 = (if e1 < length line \<and> e1 + overlap \<le> length line then e1 + overlap else e1)
         in (start, e2) # segments step overlap line (start + step)))"
  by pat_completeness auto
termination
  by (relation "measure (\<lambda>(step, overlap, line, start). length line - start)") auto

declare segments.simps [simp del]

text \<open>
  The evaluation of one line is an argument of the functions that read lines, so that what they
  rely on can be stated as an interface; the program's instance is \<^const>\<open>evaluateLine\<close>.
\<close>

type_synonym lineEval = "string \<Rightarrow> int \<Rightarrow> evalState \<Rightarrow> evalState \<times> bool"

definition evalSegments :: "lineEval \<Rightarrow> string \<Rightarrow> int \<Rightarrow> (nat \<times> nat) list \<Rightarrow> evalState \<Rightarrow> evalState" where
  "evalSegments ev line lineNum segs st =
     foldl (\<lambda>st (i, j). fst (ev (subStr line i j) lineNum st)) st segs"

definition evaluateLongLine :: "lineEval \<Rightarrow> int \<Rightarrow> string \<Rightarrow> int \<Rightarrow> int \<Rightarrow> evalState \<Rightarrow> evalState" where
  "evaluateLongLine ev bufferSize line lineNum overlap st =
     (let st0 = st\<lparr>es_seen := {}\<rparr>
      in if int (length line) \<le> bufferSize then fst (ev line lineNum st0)
         else evalSegments ev line lineNum
                (segments (nat bufferSize) (nat (max 0 overlap)) line 0) st0)"

section \<open>What an evaluation step does to the state\<close>

text \<open>
  \<open>grows P st st'\<close>: violations were only appended, each satisfies \<open>P\<close>, each brought
  exactly one new de-duplication key, and the counts of bytes and lines read are as before. \<open>reports P st (st', hit)\<close>: moreover \<open>hit\<close> tells whether
  something was appended.
\<close>

definition counted :: "evalState \<Rightarrow> int \<times> int" where
  "counted st = (BytesRead (sr_Metrics (es_res st)), LinesRead (sr_Metrics (es_res st)))"

definition grows :: "(violation \<Rightarrow> bool) \<Rightarrow> evalState \<Rightarrow> evalState \<Rightarrow> bool" where
  "grows P st st' \<longleftrightarrow> (\<exists>new. violations st' = violations st @ new \<and> list_all P new
     \<and> es_seen st \<subseteq> es_seen st' \<and> counted st' = counted st
     \<and> (finite (es_seen st) \<longrightarrow> finite (es_seen st')
          \<and> card (es_seen st') = card (es_seen st) + length new))"

definition reports :: "(violation \<Rightarrow> bool) \<Rightarrow> evalState \<Rightarrow> evalState \<times> bool \<Rightarrow> bool" where
  "reports P st r \<longleftrightarrow> grows P st (fst r) \<and> (snd r \<longleftrightarrow> violations (fst r) \<noteq> violations st)"

lemma violations_simps [simp]:
  "violations (addViolation key v st) = violations st @ [v]"
  "es_seen (addViolation key v st) = insert key (es_seen st)"
  "violations (onMetrics f st) = violations st" "es_seen (onMetrics f st) = es_seen st"
  "violations (st\<lparr>es_caches := c\<rparr>) = violations st"
  "violations (st\<lparr>es_clock := k\<rparr>) = violations st" "violations (st\<lparr>es_calls := k\<rparr>) = violations st"
  "violations (st\<lparr>es_seen := sn\<rparr>) = violations st"
  by (simp_all add: violations_def addViolation_def onMetrics_def)

lemma addViolation_frame [simp]:
  "es_caches (addViolation key v st) = es_caches st"
  "es_clock (addViolation key v st) = es_clock st" "es_calls (addViolation key v st) = es_calls st"
  "sr_Metrics (es_res (addViolation key v st)) = sr_Metrics (es_res st)"
  by (simp_all add: addViolation_def)

lemma onMetrics_frame [simp]:
  "es_caches (onMetrics f st) = es_caches st" "es_clock (onMetrics f st) = es_clock st"
  "es_calls (onMetrics f st) = es_calls st"
  "sr_Metrics (es_res (onMetrics f st)) = f (sr_Metrics (es_res st))"
  by (simp_all add: onMetrics_def)

lemma counted_simps [simp]:
  "counted (addViolation key v st) = counted st"
  "counted (st\<lparr>es_caches := c\<rparr>) = counted st"
  "counted (st\<lparr>es_clock := k\<rparr>) = counted st" "counted (st\<lparr>es_calls := k\<rparr>) = counted st"
  "counted (st\<lparr>es_seen := sn\<rparr>) = counted st"
  "counted (onMetrics incRegexAttempts st) = counted st"
  "counted (onMetrics incRegexSkipped st) = counted st"
  "counted (onMetrics incSemanticAttempts st) = counted st"
  "counted (onMetrics incSemanticSkipped st) = counted st"
  by (simp_all add: counted_def incRegexAttempts_def incRegexSkipped_def incSemanticAttempts_def
      incSemanticSkipped_def)

lemma grows_same: "violations st' = violations st \<Longrightarrow> es_seen st' = es_seen st
    \<Longrightarrow> counted st' = counted st \<Longrightarrow> grows P st st'"
  unfolding grows_def by simp

lemma grows_refl [simp]: "grows P st st"
  by (simp add: grows_same)

lemma grows_trans: "grows P st1 st2 \<Longrightarrow> grows P st2 st3 \<Longrightarrow> grows P st1 st3"
proof -
  assume "grows P st1 st2" "grows P st2 st3"
  then obtain n1 n2 where
    "violations st2 = violations st1 @ n1" "list_all P n1" "es_seen st1 \<subseteq> es_seen st2"
    "counted st2 = counted st1"
    "finite (es_seen st1) \<longrightarrow> finite (es_seen st2)
       \<and> card (es_seen st2) = card (es_seen st1) + length n1"
    "violations st3 = violations st2 @ n2" "list_all P n2" "es_seen st2 \<subseteq> es_seen st3"
    "counted st3 = counted st2"
    "finite (es_seen st2) \<longrightarrow> finite (es_seen st3)
       \<and> card (es_seen st3) = card (es_seen st2) + length n2"
    unfolding grows_def by blast
  then show ?thesis unfolding grows_def by (intro exI [of _ "n1 @ n2"]) auto
qed

lemma grows_add: "key \<notin> es_seen st \<Longrightarrow> P v \<Longrightarrow> grows P st (addViolation key v st)"
  unfolding grows_def by (intro exI [of _ "[v]"]) auto

lemma grows_mono: "grows P st st' \<Longrightarrow> (\<And>v. P v \<Longrightarrow> Q v) \<Longrightarrow> grows Q st st'"
  unfolding grows_def by (metis (mono_tags, lifting) list.pred_mono_strong)

lemma grows_len: "grows P st st' \<Longrightarrow> length (violations st) \<le> length (violations st')"
  unfolding grows_def by auto

lemma grows_eq: "grows P st st' \<Longrightarrow> length (violations st') = length (violations st)
    \<Longrightarrow> violations st' = violations st"
  unfolding grows_def by auto

lemma reports_same: "violations st' = violations st \<Longrightarrow> es_seen st' = es_seen st
    \<Longrightarrow> counted st' = counted st \<Longrightarrow> reports P st (st', False)"
  by (simp add: reports_def grows_same)

lemma reports_refl [simp]: "reports P st (st, False)"
  by (simp add: reports_same)

lemma reports_add: "key \<notin> es_seen st \<Longrightarrow> P v \<Longrightarrow> reports P st (addViolation key v st, True)"
  by (simp add: reports_def grows_add)

lemma reports_mono: "reports P st r \<Longrightarrow> (\<And>v. P v \<Longrightarrow> Q v) \<Longrightarrow> reports Q st r"
  unfolding reports_def using grows_mono by blast

text \<open>Sequencing: a silent step first, or any step first with the flags joined.\<close>

lemma reports_after: "violations st1 = violations st \<Longrightarrow> es_seen st1 = es_seen st
    \<Longrightarrow> counted st1 = counted st \<Longrightarrow> reports P st1 r \<Longrightarrow> reports P st r"
  unfolding reports_def grows_def by simp

lemma reports_seq: "reports P st (st1, h1) \<Longrightarrow> reports P st1 (st2, h2) \<Longrightarrow> reports P st (st2, h1 \<or> h2)"
proof -
  assume a: "reports P st (st1, h1)" "reports P st1 (st2, h2)"
  then have g: "grows P st st1" "grows P st1 st2" by (simp_all add: reports_def)
  then have "violations st2 \<noteq> violations st
      \<longleftrightarrow> violations st1 \<noteq> violations st \<or> violations st2 \<noteq> violations st1"
    by (metis grows_eq grows_len le_antisym)
  with a grows_trans [OF g] show ?thesis by (simp add: reports_def)
qed

section \<open>Every stage reports for its rule\<close>

definition ofRule :: "'rx compiledRule \<Rightarrow> int \<Rightarrow> violation \<Rightarrow> bool" where
  "ofRule cr lineNum v \<longleftrightarrow> v_RuleID v = cr_id cr \<and> v_Severity v = cr_severity cr
     \<and> v_Message v = cr_message cr \<and> v_Line v = lineNum \<and> 1 \<le> v_Column v"

lemma ofRule_violations [simp]:
  "ofRule cr n (bareViolation cr n col) \<longleftrightarrow> 1 \<le> col"
  "ofRule cr n (fullViolation cr n col) \<longleftrightarrow> 1 \<le> col"
  by (auto simp: ofRule_def bareViolation_def fullViolation_def Let_def split: option.split)

lemma colOf_pos [simp]: "1 \<le> colOf fi"
  by (auto simp: colOf_def split: option.split)

lemma ahoLoop_reports:
  "ahoLoop fm pats lower n cr ms st found fi any = (st', found', fi', any', ret)
    \<Longrightarrow> reports (ofRule cr n) st0 (st, any)
    \<Longrightarrow> reports (ofRule cr n) st0 (st', any') \<and> (ret \<longrightarrow> any')"
proof (induction ms arbitrary: st found fi any)
  case (Cons m ms)
  have "reports (ofRule cr n) st0 (addViolation key (fullViolation cr n (int idx + 1)) st, True)"
    if "key \<notin> es_seen st" for key idx
    using reports_seq [OF Cons.prems(2) reports_add [OF that]] by simp
  with Cons show ?case by (simp add: Let_def split: if_split_asm; blast)
qed simp

lemma evalKeywordsAho_reports:
  "reports (ofRule cr n) st (evalKeywordsAho fm pats lower n cr hits st)"
proof -
  obtain st1 found fi any ret where
    l: "ahoLoop fm pats lower n cr hits st Map.empty None False = (st1, found, fi, any, ret)"
    by (metis prod_cases5)
  from ahoLoop_reports [OF l reports_refl] have r: "reports (ofRule cr n) st (st1, any)" "ret \<longrightarrow> any"
    by simp_all
  have "reports (ofRule cr n) st (addViolation (kwAllKey cr n) (fullViolation cr n (colOf fi)) st1, True)"
    if "kwAllKey cr n \<notin> es_seen st1"
    using reports_seq [OF r(1) reports_add [OF that]] by simp
  with l r show ?thesis by (auto simp: evalKeywordsAho_def)
qed

lemma anyKeywords_reports:
  "reports (ofRule cr n) st0 (st, any) \<Longrightarrow> reports (ofRule cr n) st0 (anyKeywords hay n cr kws st any)"
proof (induction kws arbitrary: st any)
  case (Cons kw kws)
  have "reports (ofRule cr n) st0 (addViolation key (fullViolation cr n (int idx + 1)) st, True)"
    if "key \<notin> es_seen st" for key idx
    using reports_seq [OF Cons.prems reports_add [OF that]] by simp
  with Cons show ?case by (simp split: option.split)
qed simp

lemma evalKeywords_reports: "reports (ofRule cr n) st (evalKeywords s lower line n cr hits st)"
  by (simp add: evalKeywords_def Let_def evalKeywordsAho_reports anyKeywords_reports reports_add
      split: option.split)

lemma regexMatches_reports:
  "regexMatches G line n cr ver locs (st, m, c) = (st', m', c')
    \<Longrightarrow> reports (ofRule cr n) st0 (st, m) \<Longrightarrow> reports (ofRule cr n) st0 (st', m')"
proof (induction locs arbitrary: st m c)
  case (Cons loc locs)
  have "reports (ofRule cr n) st0 (addViolation key (fullViolation cr n (int idx + 1)) st, True)"
    if "key \<notin> es_seen st" for key idx
    using reports_seq [OF Cons.prems(2) reports_add [OF that]] by simp
  with Cons show ?case by (simp split: if_split_asm)
qed simp

lemma anyRegexes_reports:
  "anyRegexes G line n cr i rxs (st, m, c) = (st', m', c')
    \<Longrightarrow> reports (ofRule cr n) st0 (st, m) \<Longrightarrow> reports (ofRule cr n) st0 (st', m')"
proof (induction rxs arbitrary: i st m c)
  case (Cons rx rxs)
  obtain st1 m1 c1 where s1: "regexMatches G line n cr
      (if i < length (cr_verifiers cr) then Some (cr_verifiers cr ! i) else None)
      (rxFindAll G rx line) (st, m, c) = (st1, m1, c1)" by (metis prod_cases3)
  from regexMatches_reports [OF s1 Cons.prems(2)] Cons.IH Cons.prems(1) s1 show ?case
    by (simp add: Let_def)
qed simp

lemma evalRegexes_reports:
  "evalRegexesStandard G line n cr st = (st', m, c) \<Longrightarrow> reports (ofRule cr n) st (st', m)"
  unfolding evalRegexesStandard_def
  by (auto simp: reports_add dest: anyRegexes_reports [where ?st0.0 = st] split: if_split_asm option.split_asm)

lemma cacheLookup_frame:
  "cacheLookup W cr line st = (st1, hit) \<Longrightarrow> es_res st1 = es_res st \<and> es_seen st1 = es_seen st
     \<and> es_calls st1 = es_calls st"
  by (auto simp: cacheLookup_def Let_def split: if_split_asm option.split_asm prod.split_asm)

lemma cacheStore_frame [simp]:
  "es_res (cacheStore W cr line ok conf st) = es_res st"
  "es_seen (cacheStore W cr line ok conf st) = es_seen st"
  "es_calls (cacheStore W cr line ok conf st) = es_calls st"
  by (simp_all add: cacheStore_def Let_def split: option.split)

text \<open>The branches of \<open>evaluateSemantic\<close>, after the cache was asked and the analyzer answered.\<close>

lemma evaluateSemantic_cases:
  assumes "cr_semantic cr = Some sem" "semanticAnalyzer s = Some analyze"
    "cacheLookup W cr line st = (st1, hit)"
    "analyze (es_calls st1) (semanticTimeout s cr) line sem = (v, conf, err)"
  shows "evaluateSemantic W s line cr col st =
     (if hit then (st1, True, col)
      else if err = None \<and> v
        then (cacheStore W cr line v conf (st1\<lparr>es_calls := Suc (es_calls st1)\<rparr>), True, col)
      else if err \<noteq> None \<and> \<not> s_FallbackOnError sem
        then (st1\<lparr>es_calls := Suc (es_calls st1)\<rparr>, False, col)
      else case fallbackMatch (lib W) line (cr_fallbackRegexes cr) of
          Some i \<Rightarrow> (st1\<lparr>es_calls := Suc (es_calls st1)\<rparr>, True, int i + 1)
        | None \<Rightarrow> (st1\<lparr>es_calls := Suc (es_calls st1)\<rparr>, False, col))"
  by (simp only: evaluateSemantic_def assms Let_def prod.case option.case)

definition silent :: "evalState \<Rightarrow> int \<Rightarrow> evalState \<times> bool \<times> int \<Rightarrow> bool" where
  "silent st col = (\<lambda>(st', ok, col'). es_res st' = es_res st \<and> es_seen st' = es_seen st
     \<and> es_calls st' \<le> Suc (es_calls st) \<and> (1 \<le> col \<longrightarrow> 1 \<le> col'))"

lemma evaluateSemantic_silent: "silent st col (evaluateSemantic W s line cr col st)"
proof (cases "cr_semantic cr = None \<or> semanticAnalyzer s = None")
  case True
  then have "evaluateSemantic W s line cr col st = (st, False, col)"
    by (auto simp: evaluateSemantic_def split: option.split)
  then show ?thesis by (simp add: silent_def)
next
  case False
  then obtain sem analyze where sa: "cr_semantic cr = Some sem" "semanticAnalyzer s = Some analyze"
    by auto
  obtain st1 hit where c: "cacheLookup W cr line st = (st1, hit)" by fastforce
  obtain v conf err where v: "analyze (es_calls st1) (semanticTimeout s cr) line sem = (v, conf, err)"
    by (metis prod_cases3)
  have f: "es_res st1 = es_res st" "es_seen st1 = es_seen st" "es_calls st1 = es_calls st"
    using cacheLookup_frame [OF c] by simp_all
  show ?thesis
    unfolding evaluateSemantic_cases [OF sa c v] by (simp add: silent_def f split: option.split)
qed

lemma evaluateSemantic_frame:
  assumes "evaluateSemantic W s line cr col st = (st', ok, col')"
  shows "es_res st' = es_res st \<and> es_seen st' = es_seen st \<and> es_calls st' \<le> Suc (es_calls st)
     \<and> (1 \<le> col \<longrightarrow> 1 \<le> col')"
  using evaluateSemantic_silent [of st col W s line cr] assms by (simp add: silent_def)

lemma semanticStage_reports:
  assumes "1 \<le> col"
  shows "reports (ofRule cr n) st (semanticStage W s lower line n cr col st)"
proof -
  obtain st1 ok col1 where
    e: "evaluateSemantic W s line cr col (onMetrics incSemanticAttempts st) = (st1, ok, col1)"
    by (metis prod_cases3)
  from evaluateSemantic_frame [OF e] assms
  have f: "violations st1 = violations st" "es_seen st1 = es_seen st" "1 \<le> col1"
    and k: "counted st1 = counted st"
    by (simp_all add: violations_def counted_def onMetrics_def incSemanticAttempts_def)
  then have "reports (ofRule cr n) st
      (addViolation (ruleKey cr n) (bareViolation cr n col1) st1, True)" if "ruleKey cr n \<notin> es_seen st1"
    using reports_after [OF f(1,2) k reports_add [OF that]] by simp
  with f k show ?thesis
    by (auto simp: semanticStage_def e intro: reports_same)
qed

lemma regexStage_reports:
  "regexStage W s lower line n cr st = (st', m, c) \<Longrightarrow> reports (ofRule cr n) st (st', m)"
  by (auto simp: regexStage_def dest!: evalRegexes_reports intro: reports_after [rotated 3] split: if_split_asm)

lemma evalRegexes_col:
  "evalRegexesStandard G line n cr st = (st', m, c) \<Longrightarrow> 1 \<le> c"
proof -
  have rm: "1 \<le> c \<Longrightarrow> 1 \<le> snd (snd (regexMatches G line n cr ver locs (st, m, c)))" for ver locs st m c
    by (induction locs arbitrary: st m c) auto
  have ar: "1 \<le> c \<Longrightarrow> 1 \<le> snd (snd (anyRegexes G line n cr i rxs (st, m, c)))" for i rxs st m c
  proof (induction rxs arbitrary: i st m c)
    case (Cons rx rxs)
    then show ?case
      by (simp add: Let_def) (metis (no_types, lifting) rm prod.collapse)
  qed simp
  assume "evalRegexesStandard G line n cr st = (st', m, c)"
  then show "1 \<le> c"
    using ar [of 1 0 "cr_regexes cr" st False]
    by (auto simp: evalRegexesStandard_def split: if_split_asm option.split_asm)
qed

lemma regexStage_col: "regexStage W s lower line n cr st = (st', m, c) \<Longrightarrow> 1 \<le> c"
  by (auto simp: regexStage_def dest!: evalRegexes_col split: if_split_asm)

lemma evalRule_reports: "reports (ofRule cr n) st (evalRule W s lower line n hits cr st)"
proof -
  obtain st1 kw where k: "(if cr_keywords cr \<noteq> [] then evalKeywords s lower line n cr hits st
      else (st, False)) = (st1, kw)" by fastforce
  obtain st2 rx col where r: "regexStage W s lower line n cr st1 = (st2, rx, col)" by (metis prod_cases3)
  define st3 where "st3 = (if cr_regexes cr \<noteq> [] \<and> gateClosed (lib W) s lower cr
    then onMetrics incRegexSkipped st2 else st2)"
  obtain st4 sm where m: "semanticStage W s lower line n cr col st3 = (st4, sm)" by fastforce
  have R1: "reports (ofRule cr n) st (st1, kw)"
    using k evalKeywords_reports [of cr n st s lower line hits] by (simp split: if_split_asm)
  have R2: "reports (ofRule cr n) st1 (st2, rx)" by (rule regexStage_reports [OF r])
  have "reports (ofRule cr n) st3 (st4, sm)"
    using semanticStage_reports [OF regexStage_col [OF r], of cr n st3 W s lower line] m by simp
  then have R3: "reports (ofRule cr n) st2 (st4, sm)"
    by (rule reports_after [rotated 3]) (simp_all add: st3_def)
  have e: "evalRule W s lower line n hits cr st =
      (if \<not> contextMatches (lib W) (cr_when cr) (cr_unless cr) (runtimeContext s) then (st, False)
       else if kw then (st1, True) else if rx then (st2, True) else (st4, sm))"
    by (simp only: evalRule_def k r prod.case Let_def st3_def [symmetric] m)
  show ?thesis
    unfolding e using R1 reports_seq [OF R1 R2] reports_seq [OF R1 reports_seq [OF R2 R3]] by auto
qed

lemma evalRule_gated:
  "\<not> contextMatches (lib W) (cr_when cr) (cr_unless cr) (runtimeContext s)
    \<Longrightarrow> evalRule W s lower line n hits cr st = (st, False)"
  by (simp add: evalRule_def)

text \<open>A violation of a line: it names an enabled rule of the scanner, and the line.\<close>

definition fromRules :: "'rx world \<Rightarrow> 'rx scanner \<Rightarrow> int \<Rightarrow> violation \<Rightarrow> bool" where
  "fromRules W s lineNum v \<longleftrightarrow> list_ex (\<lambda>cr. ofRule cr lineNum v
     \<and> contextMatches (lib W) (cr_when cr) (cr_unless cr) (runtimeContext s)) (compiled s)"

lemma evalRules_reports:
  "reports P st0 (st, any)
    \<Longrightarrow> (\<And>cr v. cr \<in> set crs \<Longrightarrow> ofRule cr n v
          \<Longrightarrow> contextMatches (lib W) (cr_when cr) (cr_unless cr) (runtimeContext s) \<Longrightarrow> P v)
    \<Longrightarrow> reports P st0 (evalRules W s lower line n hits crs st any)"
proof (induction crs arbitrary: st any)
  case (Cons cr crs)
  obtain st1 hit where e: "evalRule W s lower line n hits cr st = (st1, hit)" by fastforce
  have "reports P st (st1, hit)"
  proof (cases "contextMatches (lib W) (cr_when cr) (cr_unless cr) (runtimeContext s)")
    case True
    with Cons.prems(2) have "P v" if "ofRule cr n v" for v using that by auto
    from reports_mono [OF evalRule_reports this] show ?thesis by (simp flip: e)
  next
    case False
    with e evalRule_gated [OF False, of lower line n hits st] show ?thesis by simp
  qed
  from reports_seq [OF Cons.prems(1) this] have R: "reports P st0 (st1, any \<or> hit)" .
  moreover have "reports P st0 (st1, True)" if hit using R that by simp
  moreover have "reports P st0 (evalRules W s lower line n hits crs st1 (any \<or> hit))"
    by (rule Cons.IH [OF R]) (auto intro: Cons.prems(2))
  ultimately show ?case using e by simp
qed simp

lemma evaluateLine_reports: "reports (fromRules W s n) st (evaluateLine W s line n st)"
  unfolding evaluateLine_def Let_def
  by (rule evalRules_reports) (auto simp: fromRules_def list_ex_iff)

section \<open>The interface between evaluating and reading lines\<close>

text \<open>
  What the readers of \<^verbatim>\<open>io.go\<close> rely on: evaluating a line only appends violations of that
  line, one new key each, and says whether it did.
\<close>

locale line_evaluator =
  fixes ev :: lineEval and ok :: "int \<Rightarrow> violation \<Rightarrow> bool"
  assumes ev_reports: "reports (ok n) st (ev line n st)"
begin

lemma ev_grows: "grows (ok n) st (fst (ev line n st))"
  using ev_reports by (simp add: reports_def)

lemma evalSegments_grows: "grows (ok n) st (evalSegments ev line n segs st)"
  unfolding evalSegments_def
proof (induction segs arbitrary: st)
  case (Cons seg segs)
  show ?case
    using grows_trans [OF ev_grows Cons.IH] by (cases seg) simp
qed simp

lemma evaluateLongLine_appends:
  "\<exists>new. violations (evaluateLongLine ev buf line n ov st) = violations st @ new \<and> list_all (ok n) new"
  "counted (evaluateLongLine ev buf line n ov st) = counted st"
proof -
  have "grows (ok n) (st\<lparr>es_seen := {}\<rparr>) (evaluateLongLine ev buf line n ov st)"
    by (simp add: evaluateLongLine_def Let_def ev_grows evalSegments_grows)
  then show "\<exists>new. violations (evaluateLongLine ev buf line n ov st) = violations st @ new \<and> list_all (ok n) new"
    "counted (evaluateLongLine ev buf line n ov st) = counted st"
    unfolding grows_def by (auto simp del: ex_simps)
qed

end

interpretation le: line_evaluator "evaluateLine W s" "fromRules W s"
  for W :: "'rx world" and s :: "'rx scanner"
  by unfold_locales (rule evaluateLine_reports)

section \<open>First match\<close>

text \<open>Where the loop stops under \<open>firstMatch\<close>: at the first rule that reports.\<close>

lemma evalRules_first_match:
  assumes "firstMatch s"
  shows "evalRules W s lower line n hits crs st False = (st', True) \<Longrightarrow>
    (\<exists>pre cr post st1. crs = pre @ cr # post
       \<and> evalRules W s lower line n hits pre st False = (st1, False)
       \<and> evalRule W s lower line n hits cr st1 = (st', True))"
proof (induction crs arbitrary: st)
  case (Cons cr crs)
  obtain st1 hit where e: "evalRule W s lower line n hits cr st = (st1, hit)" by fastforce
  show ?case
  proof (cases hit)
    case True
    with e Cons.prems assms show ?thesis
      by (intro exI [of _ "[]"] exI [of _ cr] exI [of _ crs] exI [of _ st]) auto
  next
    case False
    with e Cons.prems have "evalRules W s lower line n hits crs st1 False = (st', True)" by simp
    from Cons.IH [OF this] obtain pre c post st2 where
      "crs = pre @ c # post" "evalRules W s lower line n hits pre st1 False = (st2, False)"
      "evalRule W s lower line n hits c st2 = (st', True)" by blast
    with False e show ?thesis
      by (intro exI [of _ "cr # pre"] exI [of _ c] exI [of _ post] exI [of _ st2]) auto
  qed
qed simp

section \<open>Keyword rules\<close>

text \<open>A keyword counts when its first occurrence satisfies the word-boundary option.\<close>

definition keywordHit :: "bool \<Rightarrow> string \<Rightarrow> string \<Rightarrow> bool" where
  "keywordHit ww hay kw =
     (case strIndex hay kw of None \<Rightarrow> False | Some idx \<Rightarrow> \<not> ww \<or> wordBounded hay idx (length kw))"

lemma allKeywords_iff: "allKeywords ww hay kws fi \<noteq> None \<longleftrightarrow> list_all (keywordHit ww hay) kws"
  by (induction kws arbitrary: fi) (auto simp: keywordHit_def split: option.split)

lemma kwKey_inject: "kwKey cr n kw i = kwKey cr n kw j \<longleftrightarrow> i = j"
  by (simp add: kwKey_def)

lemma anyKeywords_hit:
  "snd (anyKeywords hay n cr kws st any) \<longleftrightarrow>
     any \<or> (\<exists>kw \<in> set kws. \<exists>idx. strIndex hay kw = Some idx
        \<and> (cr_wholeWord cr \<longrightarrow> wordBounded hay idx (length kw)) \<and> kwKey cr n kw idx \<notin> es_seen st)"
proof (induction kws arbitrary: st any)
  case (Cons kw kws)
  then show ?case by (auto split: option.split)
qed simp

lemma evalKeywords_plain:
  assumes "ahoL1 s = None \<or> cr_caseSensitive cr \<or> hits = []" "es_seen st = {}" "cr_keywords cr \<noteq> []"
    "hay = (if cr_caseSensitive cr then line else lower)"
  shows "snd (evalKeywords s lower line n cr hits st) \<longleftrightarrow>
    (if cr_requireAll cr then list_all (keywordHit (cr_wholeWord cr) hay) (cr_keywords cr)
     else list_ex (keywordHit (cr_wholeWord cr) hay) (cr_keywords cr))"
proof -
  have m: "(if \<not> cr_caseSensitive cr \<and> hits \<noteq> [] then ahoL1 s else None) = None" using assms(1) by auto
  have any: "snd (anyKeywords hay n cr (cr_keywords cr) st False)
      \<longleftrightarrow> list_ex (keywordHit (cr_wholeWord cr) hay) (cr_keywords cr)"
    by (auto simp: anyKeywords_hit assms(2) list_ex_iff keywordHit_def split: option.split)
  show ?thesis
    using any allKeywords_iff [of "cr_wholeWord cr" hay "cr_keywords cr" None] assms(2-4)
    by (auto simp: evalKeywords_def m Let_def split: option.split)
qed

lemma ahoLoop_any:
  assumes "\<not> cr_requireAll cr"
  shows "fst (snd (snd (snd (ahoLoop fm pats lower n cr ms st found fi any)))) \<longleftrightarrow>
     any \<or> (\<exists>m \<in> set ms. (cr_wholeWord cr \<longrightarrow> wordBounded lower (snd m) (length (pats ! fst m)))
        \<and> kwKey cr n (pats ! fst m) (snd m) \<notin> es_seen st)"
proof (induction ms arbitrary: fm st found fi any)
  case (Cons m ms)
  then show ?case by (simp add: Let_def assms)
qed simp

lemma evalKeywordsAho_any:
  assumes "\<not> cr_requireAll cr" "es_seen st = {}"
  shows "snd (evalKeywordsAho fm pats lower n cr hits st) \<longleftrightarrow>
    (\<exists>m \<in> set hits. cr_wholeWord cr \<longrightarrow> wordBounded lower (snd m) (length (pats ! fst m)))"
proof -
  obtain st1 found fi any ret where
    l: "ahoLoop fm pats lower n cr hits st Map.empty None False = (st1, found, fi, any, ret)"
    by (metis prod_cases5)
  have "any \<longleftrightarrow> (\<exists>m \<in> set hits. cr_wholeWord cr \<longrightarrow> wordBounded lower (snd m) (length (pats ! fst m)))"
    using ahoLoop_any [OF assms(1), of fm pats lower n hits st Map.empty None False] l assms(2) by simp
  moreover have "ret \<longrightarrow> any" using ahoLoop_reports [OF l reports_refl] by blast
  ultimately show ?thesis by (auto simp: evalKeywordsAho_def l assms(1))
qed

section \<open>Regex rules\<close>

lemma rxKey_inject [simp]: "rxKey cr n i = rxKey cr n j \<longleftrightarrow> i = j"
  by (simp add: rxKey_def)

text \<open>The start positions a rule's patterns give, verified, in the order they are visited.\<close>

definition verifiedStarts :: "'rx golib \<Rightarrow> string \<Rightarrow> string option \<Rightarrow> (nat \<times> nat) list \<Rightarrow> nat list" where
  "verifiedStarts G line ver locs = map fst (filter (\<lambda>loc.
     case ver of None \<Rightarrow> True | Some v \<Rightarrow> verifierOk G v (subStr line (fst loc) (snd loc))) locs)"

fun ruleStarts :: "'rx golib \<Rightarrow> string \<Rightarrow> string list \<Rightarrow> nat \<Rightarrow> 'rx list \<Rightarrow> nat list" where
  "ruleStarts G line vers i [] = []"
| "ruleStarts G line vers i (rx # rxs) =
     verifiedStarts G line (if i < length vers then Some (vers ! i) else None) (rxFindAll G rx line)
     @ ruleStarts G line vers (Suc i) rxs"

text \<open>First occurrences only, without those already seen.\<close>

fun firstOnly :: "nat set \<Rightarrow> nat list \<Rightarrow> nat list" where
  "firstOnly seen [] = []"
| "firstOnly seen (x # xs) = (if x \<in> seen then firstOnly seen xs else x # firstOnly (insert x seen) xs)"

lemma firstOnly_append: "firstOnly S (xs @ ys) = firstOnly S xs @ firstOnly (S \<union> set xs) ys"
  by (induction xs arbitrary: S) (auto simp: insert_absorb)

lemma firstOnly_set: "set (firstOnly S xs) = set xs - S"
  by (induction xs arbitrary: S) auto

lemma firstOnly_distinct: "distinct (firstOnly S xs)"
  by (induction xs arbitrary: S) (auto simp: firstOnly_set)

text \<open>\<open>seenStarts cr n st\<close>: the starts whose key is taken.\<close>

definition seenStarts :: "'rx compiledRule \<Rightarrow> int \<Rightarrow> evalState \<Rightarrow> nat set" where
  "seenStarts cr n st = {i. rxKey cr n i \<in> es_seen st}"

definition startViolations :: "'rx compiledRule \<Rightarrow> int \<Rightarrow> nat list \<Rightarrow> violation list" where
  "startViolations cr n = map (\<lambda>i. fullViolation cr n (int i + 1))"

lemma seenStarts_add [simp]:
  "seenStarts cr n (addViolation (rxKey cr n i) v st) = insert i (seenStarts cr n st)"
  by (auto simp: seenStarts_def)

lemma regexMatches_spec:
  "violations (fst (regexMatches G line n cr ver locs (st, m, c)))
      = violations st @ startViolations cr n (firstOnly (seenStarts cr n st) (verifiedStarts G line ver locs))
   \<and> seenStarts cr n (fst (regexMatches G line n cr ver locs (st, m, c)))
      = seenStarts cr n st \<union> set (verifiedStarts G line ver locs)"
proof (induction locs arbitrary: st m c)
  case (Cons loc locs)
  have k: "rxKey cr n (fst loc) \<in> es_seen st \<longleftrightarrow> fst loc \<in> seenStarts cr n st"
    by (simp add: seenStarts_def)
  show ?case
    using Cons by (auto simp: k verifiedStarts_def startViolations_def split: option.split)
qed (simp add: verifiedStarts_def startViolations_def)

lemma anyRegexes_spec:
  "violations (fst (anyRegexes G line n cr i rxs (st, m, c)))
      = violations st
        @ startViolations cr n (firstOnly (seenStarts cr n st) (ruleStarts G line (cr_verifiers cr) i rxs))"
proof (induction rxs arbitrary: i st m c)
  case (Cons rx rxs)
  let ?ver = "if i < length (cr_verifiers cr) then Some (cr_verifiers cr ! i) else None"
  obtain st1 m1 c1 where s1: "regexMatches G line n cr ?ver (rxFindAll G rx line) (st, m, c) = (st1, m1, c1)"
    by (metis prod_cases3)
  from regexMatches_spec [of G line n cr ?ver "rxFindAll G rx line" st m c] s1
  have v: "violations st1 = violations st @ startViolations cr n
        (firstOnly (seenStarts cr n st) (verifiedStarts G line ?ver (rxFindAll G rx line)))"
    and k: "seenStarts cr n st1 = seenStarts cr n st \<union> set (verifiedStarts G line ?ver (rxFindAll G rx line))"
    by simp_all
  show ?case
    unfolding anyRegexes.simps Let_def s1 Cons.IH ruleStarts.simps firstOnly_append v k
    by (simp add: startViolations_def)
qed (simp add: startViolations_def)

section \<open>Segments\<close>

definition segEnd :: "nat \<Rightarrow> nat \<Rightarrow> string \<Rightarrow> nat \<Rightarrow> nat" where
  "segEnd step overlap line start =
     (let e1 = min (start + step) (length line)
      in if e1 < length line \<and> e1 + overlap \<le> length line then e1 + overlap else e1)"

lemma segments_step:
  "0 < step \<Longrightarrow> start < length line \<Longrightarrow>
     segments step ov line start = (start, segEnd step ov line start) # segments step ov line (start + step)"
  by (simp add: segments.simps [of step ov line start] segEnd_def Let_def)

lemma segments_end: "length line \<le> start \<Longrightarrow> segments step ov line start = []"
  by (simp add: segments.simps)

lemma segments_set:
  assumes "0 < step"
  shows "set (segments step ov line start) =
    {(p, segEnd step ov line p) | p k. p = start + k * step \<and> p < length line}"
proof (induction "length line - start" arbitrary: start rule: less_induct)
  case less
  show ?case
  proof (cases "start < length line")
    case True
    with assms less [of "start + step"]
    have IH: "set (segments step ov line (start + step)) =
        {(p, segEnd step ov line p) | p k. p = start + step + k * step \<and> p < length line}" by simp
    have "(\<exists>k. p = start + k * step) \<longleftrightarrow> p = start \<or> (\<exists>k. p = start + step + k * step)" for p
    proof
      assume "\<exists>k. p = start + k * step"
      then obtain k where "p = start + k * step" by blast
      then show "p = start \<or> (\<exists>k. p = start + step + k * step)" by (cases k) auto
    next
      assume "p = start \<or> (\<exists>k. p = start + step + k * step)"
      then show "\<exists>k. p = start + k * step"
      proof
        assume "p = start"
        then show ?thesis by (intro exI [of _ 0]) simp
      next
        assume "\<exists>k. p = start + step + k * step"
        then obtain k where "p = start + step + k * step" by blast
        then show ?thesis by (intro exI [of _ "Suc k"]) simp
      qed
    qed
    with True assms IH show ?thesis by (auto simp: segments_step)
  next
    case False
    then show ?thesis by (auto simp: segments_end)
  qed
qed

definition covered :: "(nat \<times> nat) list \<Rightarrow> nat \<Rightarrow> nat \<Rightarrow> bool" where
  "covered segs i len \<longleftrightarrow> list_ex (\<lambda>(p, q). p \<le> i \<and> i + len \<le> q) segs"

lemma covered_iff:
  "0 < step \<Longrightarrow> covered (segments step ov line 0) i len \<longleftrightarrow>
     (\<exists>k. k * step < length line \<and> k * step \<le> i \<and> i + len \<le> segEnd step ov line (k * step))"
  by (auto simp: covered_def list_ex_iff segments_set)

text \<open>
  A long line is evaluated in segments so that a match across a segment boundary is not
  lost. For an overlap of at most one step and a window no longer than the overlap plus one byte
  that crosses the boundary after its own segment, some segment holds the whole window exactly
  when the overlap fits between the boundary and the end of the line: near the end of the line
  no overlap is added and a crossing match is missed.
\<close>

theorem segments_cover_iff:
  assumes "0 < step" "overlap \<le> step" "b = (i div step + 1) * step"
    "b < i + len" "len \<le> overlap + 1" "i + len \<le> length line"
  shows "covered (segments step overlap line 0) i len \<longleftrightarrow> b + overlap \<le> length line"
proof -
  have lo: "i div step * step \<le> i" and hi: "i < b"
    using assms(1,3) dividend_less_div_times [OF assms(1), of i] by (simp_all add: algebra_simps)
  have earlier: "k * step + step \<le> i div step * step" if "k * step \<le> i" "k \<noteq> i div step" for k
  proof -
    have "k \<le> i div step" using that(1) assms(1) by (simp add: less_eq_div_iff_mult_less_eq)
    with that(2) have "k + 1 \<le> i div step" by simp
    then have "(k + 1) * step \<le> i div step * step" by (rule mult_le_mono1)
    then show ?thesis by simp
  qed
  show ?thesis
  proof
    assume "covered (segments step overlap line 0) i len"
    then obtain k where k: "k * step \<le> i" "i + len \<le> segEnd step overlap line (k * step)"
      using covered_iff [OF assms(1)] by blast
    have "k = i div step"
    proof (rule ccontr)
      assume "k \<noteq> i div step"
      from earlier [OF k(1) this] have "segEnd step overlap line (k * step) \<le> i div step * step + step"
        using assms(2) by (auto simp: segEnd_def Let_def)
      with k(2) assms(3,4) show False by simp
    qed
    with k(2) assms(3,4) show "b + overlap \<le> length line"
      by (auto simp: segEnd_def Let_def split: if_split_asm)
  next
    assume fits: "b + overlap \<le> length line"
    then have "segEnd step overlap line (i div step * step) = b + overlap \<or> b = length line"
      using assms(3) by (auto simp: segEnd_def Let_def)
    with assms(4,6) have "segEnd step overlap line (i div step * step) = b + overlap" by simp
    moreover have "i + len \<le> b + overlap" using hi assms(5) by simp
    moreover have "i div step * step < length line" using le_less_trans [OF lo hi] fits by linarith
    ultimately show "covered (segments step overlap line 0) i len"
      unfolding covered_iff [OF assms(1)] using lo by (intro exI [of _ "i div step"]) simp
  qed
qed

theorem segments_cover_iff_witness:
  "\<not> covered (segments 4 2 ''abcdefghi'' 0) 7 2 \<and> covered (segments 4 2 ''abcdefghij'' 0) 7 2"
  using segments_cover_iff [of 4 2 8 7 2 "''abcdefghi''"]
    segments_cover_iff [of 4 2 8 7 2 "''abcdefghij''"] by simp

section \<open>Properties of a line\<close>

text \<open>
  C1. Evaluating a line (with the fresh de-duplication map its callers give it) only appends
  violations; it returns true exactly when it appended one; each new violation carries the
  line's number, a column of at least 1 and the id, message and severity of a compiled rule
  whose when/unless conditions the runtime context satisfies; and no two violations share a
  de-duplication key.
\<close>

theorem evaluateLine_sound:
  "case evaluateLine W s line lineNum (st\<lparr>es_seen := {}\<rparr>) of (st', matched) \<Rightarrow>
     \<exists>new. violations st' = violations st @ new \<and> matched = (new \<noteq> [])
       \<and> list_all (fromRules W s lineNum) new \<and> card (es_seen st') = length new"
proof -
  obtain st' m where e: "evaluateLine W s line lineNum (st\<lparr>es_seen := {}\<rparr>) = (st', m)" by fastforce
  from evaluateLine_reports [of W s lineNum "st\<lparr>es_seen := {}\<rparr>" line] e
  have "reports (fromRules W s lineNum) (st\<lparr>es_seen := {}\<rparr>) (st', m)" by simp
  then show ?thesis unfolding e reports_def grows_def by auto
qed

text \<open>
  Under \<open>first_match\<close> a line that matches is decided by the first rule that reports: the
  rules before it report nothing, the final state is the one that rule leaves, and every
  violation of the line is that rule's.
\<close>

theorem evaluateLine_first_match:
  assumes "firstMatch s" "evaluateLine W s line lineNum st = (st', True)"
  shows "\<exists>pre cr post st1. compiled s = pre @ cr # post
     \<and> evalRules W s (strToLower (lib W) line) line lineNum
          (FindAll (lib W) (ahoL1 s) (strToLower (lib W) line)) pre st False = (st1, False)
     \<and> evalRule W s (strToLower (lib W) line) line lineNum
          (FindAll (lib W) (ahoL1 s) (strToLower (lib W) line)) cr st1 = (st', True)
     \<and> (\<exists>new. violations st' = violations st @ new \<and> list_all (ofRule cr lineNum) new)"
proof -
  let ?lo = "strToLower (lib W) line" and ?h = "FindAll (lib W) (ahoL1 s) (strToLower (lib W) line)"
  from assms(2) have "evalRules W s ?lo line lineNum ?h (compiled s) st False = (st', True)"
    by (simp add: evaluateLine_def Let_def)
  from evalRules_first_match [OF assms(1) this] obtain pre cr post st1 where
    p: "compiled s = pre @ cr # post" "evalRules W s ?lo line lineNum ?h pre st False = (st1, False)"
    "evalRule W s ?lo line lineNum ?h cr st1 = (st', True)" by blast
  have "reports (\<lambda>_. True) st (st1, False)"
    using evalRules_reports [of "\<lambda>_. True" st st False pre lineNum W s ?lo line ?h] p(2) by simp
  then have "violations st1 = violations st" by (simp add: reports_def)
  moreover have "grows (ofRule cr lineNum) st1 st'"
    using evalRule_reports [of cr lineNum st1 W s ?lo line ?h] p(3) by (simp add: reports_def)
  ultimately have "\<exists>new. violations st' = violations st @ new \<and> list_all (ofRule cr lineNum) new"
    by (auto simp: grows_def)
  with p show ?thesis by blast
qed

text \<open>
  With the shared keyword matcher in use and something found by it, a case-insensitive
  any-logic rule that has keywords fires exactly when \<^emph>\<open>some\<close> keyword the matcher was built
  from stands in the lowered line at a position its word option accepts. The rule's own keyword
  list plays no role: a rule is reported for the keywords of other rules.
\<close>

theorem evalKeywords_shared_matcher:
  assumes "ahoSound (lib W)" "sortSound (lib W)" "ahoL1 s = Some (NewAho kws)"
    "hits = FindAll (lib W) (ahoL1 s) lower" "hits \<noteq> []"
    "\<not> cr_caseSensitive cr" "\<not> cr_requireAll cr" "es_seen st = {}"
  shows "snd (evalKeywords s lower line lineNum cr hits st) \<longleftrightarrow>
    (\<exists>kw idx. kw \<in> set kws \<and> kw \<noteq> [] \<and> occursAt lower kw idx
       \<and> (cr_wholeWord cr \<longrightarrow> wordBounded lower idx (length kw)))"
proof -
  let ?P = "patterns (NewAho kws)"
  have "snd (evalKeywords s lower line lineNum cr hits st) \<longleftrightarrow>
      (\<exists>m \<in> set hits. cr_wholeWord cr \<longrightarrow> wordBounded lower (snd m) (length (?P ! fst m)))"
    using assms evalKeywordsAho_any [OF assms(7,8)] by (simp add: evalKeywords_def Let_def)
  also have "\<dots> \<longleftrightarrow> (\<exists>pid idx. pid < length ?P \<and> occursAt lower (?P ! pid) idx
      \<and> (cr_wholeWord cr \<longrightarrow> wordBounded lower idx (length (?P ! pid))))"
    using FindAll_set [OF assms(1,2), of kws lower] assms(3,4) by auto
  also have "\<dots> \<longleftrightarrow> (\<exists>kw idx. kw \<in> set ?P \<and> occursAt lower kw idx
      \<and> (cr_wholeWord cr \<longrightarrow> wordBounded lower idx (length kw)))"
    unfolding in_set_conv_nth by auto
  finally show ?thesis by auto
qed

text \<open>
  An any-logic rule's patterns, evaluated on a line, append one violation for each distinct
  start position of a match that passes the pattern's verifier, in the order of patterns and
  matches, and nothing else; every one carries category and response of the rule.
\<close>

theorem evalRegexes_any_spec:
  assumes "\<not> cr_requireAll cr" "es_seen st = {}"
  shows "violations (fst (evalRegexesStandard G line lineNum cr st)) =
    violations st @ map (\<lambda>i. fullViolation cr lineNum (int i + 1))
      (firstOnly {} (ruleStarts G line (cr_verifiers cr) 0 (cr_regexes cr)))"
  using anyRegexes_spec [of G line lineNum cr 0 "cr_regexes cr" st False 1] assms
  by (simp add: evalRegexesStandard_def seenStarts_def startViolations_def)

section \<open>Properties of the semantic stage\<close>

lemma fallbackMatch_iff:
  "fallbackMatch G line rxs \<noteq> None \<longleftrightarrow> list_ex (\<lambda>rx. rxFind G rx line \<noteq> None) rxs"
  by (induction rxs) (auto split: option.split)

text \<open>
  The verdict of the semantic stage when the cache does not answer: the rule matches when
  the analyzer says so without an error, or when a fallback pattern matches and the analyzer
  either gave no error or the rule allows the fallback on error. In particular an analyzer
  error without that option is no match, whatever the fallback patterns say. One call of the
  analyzer is made.
\<close>

theorem evaluateSemantic_verdict:
  assumes "cr_semantic cr = Some sem" "semanticAnalyzer s = Some analyze"
    "cacheLookup W cr line st = (st1, False)"
    "analyze (es_calls st) (semanticTimeout s cr) line sem = (v, conf, err)"
  shows "(fst (snd (evaluateSemantic W s line cr col st)) \<longleftrightarrow>
      (err = None \<and> v) \<or> ((err = None \<or> s_FallbackOnError sem)
        \<and> list_ex (\<lambda>rx. rxFind (lib W) rx line \<noteq> None) (cr_fallbackRegexes cr)))
    \<and> es_calls (fst (evaluateSemantic W s line cr col st)) = Suc (es_calls st)"
proof -
  have c: "es_calls st1 = es_calls st" using cacheLookup_frame [OF assms(3)] by simp
  then have "analyze (es_calls st1) (semanticTimeout s cr) line sem = (v, conf, err)"
    using assms(4) by simp
  note e = evaluateSemantic_cases [OF assms(1-3) this, of col]
  show ?thesis
    unfolding e using c fallbackMatch_iff [of "lib W" line "cr_fallbackRegexes cr"]
    by (auto split: option.split)
qed

text \<open>The documented behaviour of the LRU cache that the semantic stage relies on.\<close>

definition lruGetAfterAdd :: "'rx world \<Rightarrow> bool" where
  "lruGetAfterAdd W \<longleftrightarrow> (\<forall>c k e. snd (scGet W (scAdd W c k e) k) = Some e)"

definition lruNewOk :: "'rx world \<Rightarrow> bool" where
  "lruNewOk W \<longleftrightarrow> (\<forall>n. 0 < n \<longrightarrow> scNew W n \<noteq> None)"

definition semanticTTL :: "'rx compiledRule \<Rightarrow> int" where
  "semanticTTL cr = (if cr_cacheTTL cr > 0 then cr_cacheTTL cr else 900000000000)"

lemma cacheStore_entry:
  assumes "lruNewOk W" "cr_cacheEnabled cr"
  shows "\<exists>c. es_caches (cacheStore W cr line ok conf st) (cr_id cr) = Some (scAdd W c line
      \<lparr>e_ok = ok, e_conf = conf, e_expiresAt = now W (es_clock st) + semanticTTL cr\<rparr>)
    \<and> es_clock (cacheStore W cr line ok conf st) = Suc (es_clock st)"
proof -
  let ?cap = "if cr_cacheMaxEntries cr > 0 then cr_cacheMaxEntries cr else 256"
  obtain c0 where n: "scNew W ?cap = Some c0"
    using assms(1) unfolding lruNewOk_def by (metis not_None_eq zero_less_numeral)
  show ?thesis
    by (cases "es_caches st (cr_id cr)") (auto simp: cacheStore_def assms(2) n semanticTTL_def Let_def)
qed

lemma cacheLookup_hit:
  assumes "lruGetAfterAdd W" "cr_cacheEnabled cr"
    "es_caches st (cr_id cr) = Some (scAdd W c line e)" "e_ok e" "now W (es_clock st) < e_expiresAt e"
  shows "snd (cacheLookup W cr line st)"
proof -
  obtain c' r where g: "scGet W (scAdd W c line e) line = (c', r)" by fastforce
  then have "r = Some e" using assms(1) unfolding lruGetAfterAdd_def by (metis snd_conv)
  with g show ?thesis by (simp add: cacheLookup_def assms Let_def)
qed

text \<open>
  A positive answer of the analyzer is remembered: when a rule with caching enabled got one
  for a line, evaluating the same line again before the entry's time to live has passed matches
  without another call of the analyzer.
\<close>

theorem evaluateSemantic_cached:
  assumes "lruGetAfterAdd W" "lruNewOk W" "cr_cacheEnabled cr"
    "cr_semantic cr = Some sem" "semanticAnalyzer s = Some analyze"
    "cacheLookup W cr line st = (st0, False)"
    "analyze (es_calls st) (semanticTimeout s cr) line sem = (True, conf, None)"
    "evaluateSemantic W s line cr col st = (st1, r)"
    "now W (es_clock st1) < now W (es_clock st0) + semanticTTL cr"
  shows "fst (snd (evaluateSemantic W s line cr col' st1))
    \<and> es_calls (fst (evaluateSemantic W s line cr col' st1)) = es_calls st1"
proof -
  let ?e = "\<lparr>e_ok = True, e_conf = conf, e_expiresAt = now W (es_clock st0) + semanticTTL cr\<rparr>"
  let ?st = "st0\<lparr>es_calls := Suc (es_calls st0)\<rparr>"
  have "es_calls st0 = es_calls st" using cacheLookup_frame [OF assms(6)] by simp
  with assms(7) have an: "analyze (es_calls st0) (semanticTimeout s cr) line sem = (True, conf, None)"
    by simp
  from evaluateSemantic_cases [OF assms(4-6) an, of col] assms(8)
  have st1: "st1 = cacheStore W cr line True conf ?st" by simp
  obtain c where c: "es_caches st1 (cr_id cr) = Some (scAdd W c line ?e)"
    using cacheStore_entry [OF assms(2,3), of line True conf ?st] by (auto simp: st1)
  obtain st2 hit where l: "cacheLookup W cr line st1 = (st2, hit)" by fastforce
  have hit: "hit" using cacheLookup_hit [OF assms(1,3) c] assms(9) l by simp
  obtain v' conf' err' where an2: "analyze (es_calls st2) (semanticTimeout s cr) line sem = (v', conf', err')"
    by (metis prod_cases3)
  from evaluateSemantic_cases [OF assms(4,5) l an2, of col'] cacheLookup_frame [OF l] hit
  show ?thesis by simp
qed

section \<open>Witnesses\<close>

text \<open>A small scanner: two level-1 keyword rules and the shared matcher over their keywords.\<close>

definition plainRule :: "string \<Rightarrow> int \<Rightarrow> string list \<Rightarrow> string compiledRule" where
  "plainRule i lvl kws = \<lparr>cr_id = i, cr_message = ''rule violation'', cr_severity = ''INFO'',
     cr_category = [], cr_level = lvl, cr_keywords = kws, cr_regexes = [], cr_verifiers = [],
     cr_semantic = None, cr_fallbackRegexes = [], cr_when = None, cr_unless = None, cr_timeoutMs = 0,
     cr_requireAll = False, cr_caseSensitive = False, cr_wholeWord = False, cr_literalTokens = [],
     cr_response = None, cr_fallbackAction = [], cr_cacheEnabled = False, cr_cacheTTL = 0,
     cr_cacheMaxEntries = 0\<rparr>"

definition demoRules :: "string compiledRule list" where
  "demoRules = [plainRule ''r1'' 1 [''alpha''], plainRule ''r2'' 1 [''beta'']]"

definition demoScanner :: "string scanner" where
  "demoScanner = (ScanEngineCstor 0)\<lparr>compiled := demoRules, ahoL1 := Some (NewAho (l1Keywords demoRules))\<rparr>"

definition emptyState :: evalState where
  "emptyState = \<lparr>es_res = zeroScanResult, es_seen = {}, es_caches = Map.empty, es_clock = 0, es_calls = 0\<rparr>"

definition demoRule :: "string compiledRule" where
  "demoRule = (plainRule ''s1'' 3 [])
     \<lparr>cr_regexes := [''4111''], cr_verifiers := [[]], cr_cacheEnabled := True,
      cr_fallbackRegexes := [''bad''],
      cr_semantic := Some \<lparr>s_Model = [], s_Temperature = 0, s_MaxTokens = 0, s_AnalysisPrompt = [],
        s_ConfidenceThreshold = 0, s_FallbackOnError = False\<rparr>\<rparr>"

definition demoAnalyzer :: analyzer where
  "demoAnalyzer k t line sem = (strContains line ''attack'', 1, if line = ''bad'' then Some ''timeout'' else None)"

definition demoSemantic :: "string scanner" where
  "demoSemantic = SetSemanticAnalyzer (Some demoAnalyzer) (ScanEngineCstor 0)"

lemma demoScanner_aho: "ahoL1 demoScanner = Some (NewAho [''alpha'', ''beta''])"
  by code_simp

theorem evaluateLine_first_match_witness:
  "let s = demoScanner\<lparr>firstMatch := True\<rparr>; st' = fst (evaluateLine litWorld s ''a Beta'' 1 emptyState)
   in \<exists>pre cr post. compiled s = pre @ cr # post
     \<and> (\<exists>new. violations st' = violations emptyState @ new \<and> list_all (ofRule cr 1) new)"
proof -
  define s where "s = demoScanner\<lparr>firstMatch := True\<rparr>"
  obtain st' m where e: "evaluateLine litWorld s ''a Beta'' 1 emptyState = (st', m)" by (meson surj_pair)
  have "snd (evaluateLine litWorld (demoScanner\<lparr>firstMatch := True\<rparr>) ''a Beta'' 1 emptyState)" by code_simp
  with e have t: "evaluateLine litWorld s ''a Beta'' 1 emptyState = (st', True)" by (simp add: s_def)
  have "firstMatch s" by (simp add: s_def)
  from evaluateLine_first_match [OF this t] show ?thesis
    unfolding Let_def s_def [symmetric] e fst_conv by blast
qed

theorem evalKeywords_shared_matcher_witness:
  "cr_id (compiled demoScanner ! 0) = ''r1'' \<and> cr_keywords (compiled demoScanner ! 0) = [''alpha'']
   \<and> snd (evalKeywords demoScanner ''only beta'' ''only beta'' 1 (compiled demoScanner ! 0)
       (FindAll litLib (ahoL1 demoScanner) ''only beta'') emptyState)"
proof -
  have "map (\<lambda>cr. (cr_id cr, cr_keywords cr, cr_caseSensitive cr, cr_requireAll cr, cr_wholeWord cr))
      (compiled demoScanner) = [(''r1'', [''alpha''], False, False, False), (''r2'', [''beta''], False, False, False)]"
    by code_simp
  then have r: "cr_id (compiled demoScanner ! 0) = ''r1''" "cr_keywords (compiled demoScanner ! 0) = [''alpha'']"
    "\<not> cr_caseSensitive (compiled demoScanner ! 0)" "\<not> cr_requireAll (compiled demoScanner ! 0)"
    "\<not> cr_wholeWord (compiled demoScanner ! 0)"
    by (cases "compiled demoScanner"; simp)+
  have h: "FindAll (lib litWorld) (ahoL1 demoScanner) ''only beta'' \<noteq> []" by code_simp
  have o: "occursAt ''only beta'' ''beta'' 5" by code_simp
  have sn: "es_seen emptyState = {}" by (simp add: emptyState_def)
  have ls: "ahoSound (lib litWorld)" "sortSound (lib litWorld)" by (simp_all add: litLib_sound)
  have "\<exists>kw idx. kw \<in> set [''alpha'', ''beta''] \<and> kw \<noteq> [] \<and> occursAt ''only beta'' kw idx
      \<and> (cr_wholeWord (compiled demoScanner ! 0) \<longrightarrow> wordBounded ''only beta'' idx (length kw))"
    by (rule exI [of _ "''beta''"], rule exI [of _ 5]) (use o r in simp)
  with evalKeywords_shared_matcher [OF ls demoScanner_aho refl h r(3,4) sn, of "''only beta''" 1] r(1,2)
  show ?thesis by simp
qed

theorem evalRegexes_any_spec_witness:
  "violations (fst (evalRegexesStandard litLib ''4111 x 4111'' 7 demoRule emptyState))
     = [fullViolation demoRule 7 1, fullViolation demoRule 7 8]"
proof -
  have "firstOnly {} (ruleStarts litLib ''4111 x 4111'' (cr_verifiers demoRule) 0 (cr_regexes demoRule)) = [0, 7]"
    by code_simp
  moreover have "\<not> cr_requireAll demoRule" "es_seen emptyState = {}" "violations emptyState = []" by code_simp+
  ultimately show ?thesis
    using evalRegexes_any_spec [of demoRule emptyState litLib "''4111 x 4111''" 7] by simp
qed

theorem evaluateSemantic_verdict_witness:
  "\<not> fst (snd (evaluateSemantic litWorld demoSemantic ''bad'' demoRule 1 emptyState))
   \<and> rxFind litLib ''bad'' ''bad'' \<noteq> None"
proof -
  let ?sem = "the (cr_semantic demoRule)"
  have a: "cr_semantic demoRule = Some ?sem" "semanticAnalyzer demoSemantic = Some demoAnalyzer"
    "cacheLookup litWorld demoRule ''bad'' emptyState = (emptyState, False)"
    by (simp_all add: demoRule_def demoSemantic_def SetSemanticAnalyzer_def cacheLookup_def emptyState_def)
  have e: "demoAnalyzer (es_calls emptyState) (semanticTimeout demoSemantic demoRule) ''bad'' ?sem
      = (False, 1, Some ''timeout'')"
    by (simp add: demoAnalyzer_def strContains_def hasPrefix_def)
  have "\<not> s_FallbackOnError ?sem" by (simp add: demoRule_def)
  with evaluateSemantic_verdict [OF a e, of 1] show ?thesis by (simp add: litLib_def hasPrefix_def)
qed

theorem evaluateSemantic_cached_witness:
  "let st1 = fst (evaluateSemantic litWorld demoSemantic ''attack'' demoRule 1 emptyState)
   in fst (snd (evaluateSemantic litWorld demoSemantic ''attack'' demoRule 1 st1))
      \<and> es_calls (fst (evaluateSemantic litWorld demoSemantic ''attack'' demoRule 1 st1)) = es_calls st1"
proof -
  let ?sem = "the (cr_semantic demoRule)"
  have laws: "lruGetAfterAdd litWorld" "lruNewOk litWorld"
    by (simp_all add: lruGetAfterAdd_def lruNewOk_def litWorld_def)
  have a: "cr_cacheEnabled demoRule" "cr_semantic demoRule = Some ?sem"
    "semanticAnalyzer demoSemantic = Some demoAnalyzer"
    "cacheLookup litWorld demoRule ''attack'' emptyState = (emptyState, False)"
    by (simp_all add: demoRule_def demoSemantic_def SetSemanticAnalyzer_def cacheLookup_def emptyState_def)
  have e: "demoAnalyzer (es_calls emptyState) (semanticTimeout demoSemantic demoRule) ''attack'' ?sem
      = (True, 1, None)"
    by (simp add: demoAnalyzer_def strContains_def hasPrefix_def)
  obtain st1 r where r: "evaluateSemantic litWorld demoSemantic ''attack'' demoRule 1 emptyState = (st1, r)"
    by (meson surj_pair)
  have "es_clock (fst (evaluateSemantic litWorld demoSemantic ''attack'' demoRule 1 emptyState)) = 1"
    by code_simp
  with r have k: "now litWorld (es_clock st1) < now litWorld (es_clock emptyState) + semanticTTL demoRule"
    by (simp add: litWorld_def emptyState_def semanticTTL_def demoRule_def plainRule_def)
  from evaluateSemantic_cached [OF laws a e r k, of 1] r show ?thesis by simp
qed

end
