(* ===== verification/Scanner_IO.thy ===== *)
theory Scanner_IO
  imports Scanner_Eval
begin

text \<open>
  Reading an input and scanning it line by line: \<^verbatim>\<open>internal/scanner/io.go\<close>, with the part of
  \<^verbatim>\<open>bufio.Scanner\<close> it depends on. An input is the bytes a reader delivers and the error it
  ends with (\<open>None\<close> for \<^verbatim>\<open>io.EOF\<close>), reported by a read of its own. A context is whether it
  has a deadline and, given the timeouts added to it, what its k-th poll answers; the memory
  statistics are a function of the poll, too.
\<close>

section \<open>Environment\<close>

record goContext =
  hasDeadline :: bool
  doneAt :: "int list \<Rightarrow> nat \<Rightarrow> string option"

record scanEnv =
  ctxDone :: "nat \<Rightarrow> string option"
  memSys :: "nat \<Rightarrow> int"

datatype scanError =
    CtxError string
  | MemoryCeiling int
  | ErrStreamLimitExceeded
  | Scanning string string
  | ChunkedRead string string
  | Opening string string
  | ExceedsMaxFileSize string int
  | InvalidFileSize string

definition tokenTooLong :: string where
  "tokenTooLong = ''bufio.Scanner: token too long''"

section \<open>Lines\<close>

definition newline :: char where
  "newline = char_of (10 :: nat)"

text \<open>
  The raw lines of an input: what stands between newlines, without an empty last part. A raw
  line with as many bytes as the buffer can grow to fails; the buffer starts with 64 KiB and
  grows up to the configured size.
\<close>

definition rawLines :: "string \<Rightarrow> string list" where
  "rawLines d = (let parts = strSplit newline d in if last parts = [] then butlast parts else parts)"

definition dropCR :: "string \<Rightarrow> string" where
  "dropCR l = (if l \<noteq> [] \<and> last l = char_of (13 :: nat) then butlast l else l)"

definition lineLimit :: "'rx scanner \<Rightarrow> int" where
  "lineLimit s = max 65536 (bufferSizeBytes s)"

section \<open>ScanReader\<close>

definition synthetic :: "string \<Rightarrow> string \<Rightarrow> violation" where
  "synthetic rid msg = zeroViolation\<lparr>v_RuleID := rid, v_Message := msg, v_Severity := ''HIGH''\<rparr>"

definition quarantine :: "string \<Rightarrow> string \<Rightarrow> evalState \<Rightarrow> evalState" where
  "quarantine rid msg st =
     st\<lparr>es_res := (es_res st)\<lparr>sr_Violations := sr_Violations (es_res st) @ [synthetic rid msg]\<rparr>\<rparr>"

definition countLine :: "int \<Rightarrow> metrics \<Rightarrow> metrics" where
  "countLine n m = m\<lparr>LinesRead := LinesRead m + 1, BytesRead := BytesRead m + n\<rparr>"

definition overStreamLimit :: "'rx scanner \<Rightarrow> evalState \<Rightarrow> bool" where
  "overStreamLimit s st \<longleftrightarrow> maxStreamBytes s > 0 \<and> BytesRead (sr_Metrics (es_res st)) > maxStreamBytes s"

text \<open>An early stop: quarantined as a violation, or the error.\<close>

definition stop :: "bool \<Rightarrow> string \<Rightarrow> string \<Rightarrow> scanError \<Rightarrow> evalState \<Rightarrow> evalState \<times> scanError option" where
  "stop quar rid msg err st = (if quar then (quarantine rid msg st, None) else (st, Some err))"

text \<open>
  The loop over the tokens. \<open>k\<close> numbers the polls, \<open>n\<close> is the number of the last line.
\<close>

fun scanLines :: "lineEval \<Rightarrow> 'rx scanner \<Rightarrow> scanEnv \<Rightarrow> string \<Rightarrow> nat \<Rightarrow> int \<Rightarrow> string list
    \<Rightarrow> string option \<Rightarrow> evalState \<Rightarrow> evalState \<times> scanError option" where
  "scanLines ev s env name k n [] rerr st =
     (case rerr of
        None \<Rightarrow> (st, None)
      | Some e \<Rightarrow> stop (quarantineOnError s) ''scan_error'' e (Scanning name e) st)"
| "scanLines ev s env name k n (raw # raws) rerr st =
     (if int (length raw) \<ge> lineLimit s
      then stop (quarantineOnError s) ''scan_error'' tokenTooLong (Scanning name tokenTooLong) st
      else case ctxDone env k of
        Some e \<Rightarrow> stop (quarantineOnTimeout s) ''timeout'' ''scan timed out'' (CtxError e) st
      | None \<Rightarrow>
          if maxResidentMemoryBytes s > 0 \<and> memSys env k > maxResidentMemoryBytes s
          then stop (quarantineOnError s) ''memory_limit'' ''memory ceiling exceeded''
                 (MemoryCeiling (memSys env k)) st
          else
            (let line = dropCR raw; st1 = onMetrics (countLine (int (length line))) st
             in if overStreamLimit s st1
                then stop (quarantineOnError s) ''stream_limit'' ''stream byte limit exceeded''
                       ErrStreamLimitExceeded st1
                else scanLines ev s env name (Suc k) (n + 1) raws rerr
                       (fst (ev line (n + 1) (st1\<lparr>es_seen := {}\<rparr>)))))"

definition freshState :: "string \<Rightarrow> (string \<rightharpoonup> semLru) \<Rightarrow> nat \<Rightarrow> nat \<Rightarrow> evalState" where
  "freshState name caches clock calls =
     \<lparr>es_res = zeroScanResult\<lparr>sr_Input := name\<rparr>, es_seen = {}, es_caches = caches,
      es_clock = clock, es_calls = calls\<rparr>"

definition setDuration :: "'rx world \<Rightarrow> int \<Rightarrow> evalState \<Rightarrow> evalState" where
  "setDuration W start st =
     st\<lparr>es_res := (es_res st)\<lparr>sr_DurationMs := durationMs (now W (es_clock st) - start)\<rparr>,
        es_clock := Suc (es_clock st)\<rparr>"

text \<open>The final state has the caches and counters; the result is the error or the scan result.\<close>

definition ScanReader :: "'rx world \<Rightarrow> 'rx scanner \<Rightarrow> scanEnv \<Rightarrow> string \<Rightarrow> string \<Rightarrow> string option
    \<Rightarrow> nat \<Rightarrow> nat \<Rightarrow> evalState \<times> (scanError + scanResult)" where
  "ScanReader W s env name d rerr clock calls =
     (let st0 = freshState name (semanticCaches s) (Suc clock) calls
      in case scanLines (evaluateLine W s) s env name 0 0 (rawLines d) rerr st0 of
           (st, Some e) \<Rightarrow> (st, Inl e)
         | (st, None) \<Rightarrow> (let st' = setDuration W (now W clock) st in (st', Inr (es_res st'))))"

section \<open>scanChunked\<close>

definition addBytes :: "int \<Rightarrow> metrics \<Rightarrow> metrics" where
  "addBytes n m = m\<lparr>BytesRead := BytesRead m + n\<rparr>"

definition addLine :: "metrics \<Rightarrow> metrics" where
  "addLine m = m\<lparr>LinesRead := LinesRead m + 1\<rparr>"

record chunkState =
  lineBuf :: string
  lineNum :: int
  chunkEval :: evalState

lemma dropWhile_tail_less: "d \<noteq> [] \<Longrightarrow> length (dropWhile P d) - Suc 0 < length d"
  using length_dropWhile_le [of P d] length_greater_0_conv [of d] by linarith

text \<open>
  The inner loop over the data of one read: the part before the first newline completes the
  line in the buffer. The result is the state, and the end of the whole scan if it was reached.
\<close>

function feed :: "lineEval \<Rightarrow> 'rx scanner \<Rightarrow> int \<Rightarrow> string \<Rightarrow> chunkState
    \<Rightarrow> chunkState \<times> (evalState \<times> scanError option) option" where
  "feed ev s overlap data c =
     (if data = [] then (c, None)
      else if newline \<in> set data then
        (let pre = takeWhile (\<lambda>x. x \<noteq> newline) data;
             line = lineBuf c @ pre;
             st1 = onMetrics (countLine (int (length line) + 1)) (chunkEval c)
         in if overStreamLimit s st1
            then (c, Some (stop (quarantineOnError s) ''stream_limit'' ''stream byte limit exceeded''
                             ErrStreamLimitExceeded st1))
            else feed ev s overlap (tl (dropWhile (\<lambda>x. x \<noteq> newline) data))
                   \<lparr>lineBuf = [], lineNum = lineNum c + 1,
                    chunkEval = evaluateLongLine ev (bufferSizeBytes s) line (lineNum c + 1) overlap st1\<rparr>)
      else
        (let st1 = onMetrics (addBytes (int (length data))) (chunkEval c)
         in if overStreamLimit s st1
            then (c, Some (stop (quarantineOnError s) ''stream_limit'' ''stream byte limit exceeded''
                             ErrStreamLimitExceeded st1))
            else (c\<lparr>lineBuf := lineBuf c @ data, chunkEval := st1\<rparr>, None)))"
  by pat_completeness auto
termination
  by (relation "measure (\<lambda>(ev, s, overlap, data, c). length data)")
    (auto simp: dropWhile_tail_less)

declare feed.simps [simp del]

text \<open>What follows the last read: the rest of the buffer is a line of its own, or the error.\<close>

definition chunkedEnd :: "lineEval \<Rightarrow> 'rx scanner \<Rightarrow> int \<Rightarrow> string \<Rightarrow> string option \<Rightarrow> chunkState
    \<Rightarrow> evalState \<times> scanError option" where
  "chunkedEnd ev s overlap name rerr c =
     (case rerr of
        Some e \<Rightarrow> (chunkEval c, Some (ChunkedRead name e))
      | None \<Rightarrow>
          if lineBuf c \<noteq> [] then
            (evaluateLongLine ev (bufferSizeBytes s) (lineBuf c) (lineNum c + 1) overlap
               (onMetrics addLine (chunkEval c)), None)
          else (chunkEval c, None))"

text \<open>The reads deliver the given chunks; the read after them delivers the error alone.\<close>

fun chunkedLoop :: "lineEval \<Rightarrow> 'rx scanner \<Rightarrow> scanEnv \<Rightarrow> int \<Rightarrow> string \<Rightarrow> nat \<Rightarrow> string list
    \<Rightarrow> string option \<Rightarrow> chunkState \<Rightarrow> evalState \<times> scanError option" where
  "chunkedLoop ev s env overlap name k [] rerr c = chunkedEnd ev s overlap name rerr c"
| "chunkedLoop ev s env overlap name k (data # reads) rerr c =
     (case feed ev s overlap data c of
        (c', Some r) \<Rightarrow> r
      | (c', None) \<Rightarrow>
          (case ctxDone env k of
             Some e \<Rightarrow> (chunkEval c', Some (CtxError e))
           | None \<Rightarrow> chunkedLoop ev s env overlap name (Suc k) reads rerr c'))"

definition overlapSize :: "'rx scanner \<Rightarrow> int" where
  "overlapSize s = (if chunkOverlapBytes s > 0 then chunkOverlapBytes s else 8 * 1024)"

definition scanChunked :: "'rx world \<Rightarrow> 'rx scanner \<Rightarrow> scanEnv \<Rightarrow> string \<Rightarrow> string list \<Rightarrow> string option
    \<Rightarrow> nat \<Rightarrow> nat \<Rightarrow> evalState \<times> (scanError + scanResult)" where
  "scanChunked W s env name reads rerr clock calls =
     (case chunkedLoop (evaluateLine W s) s env (overlapSize s) name 0 reads rerr
             \<lparr>lineBuf = [], lineNum = 0, chunkEval = freshState name (semanticCaches s) clock calls\<rparr> of
        (st, Some e) \<Rightarrow> (st, Inl e)
      | (st, None) \<Rightarrow> (st, Inr (es_res st)))"

section \<open>ScanFile\<close>

text \<open>The text of an error a scan of an open file can end with.\<close>

fun errorText :: "scanError \<Rightarrow> string" where
  "errorText (CtxError e) = e"
| "errorText (MemoryCeiling n) = ''memory ceiling exceeded: sys='' @ itoa n @ '' bytes''"
| "errorText ErrStreamLimitExceeded = ''stream byte limit exceeded''"
| "errorText (Scanning name e) = ''scanning '' @ name @ '': '' @ e"
| "errorText (ChunkedRead name e) = ''chunked read '' @ name @ '': '' @ e"
| "errorText (Opening name e) = ''opening '' @ name @ '': '' @ e"
| "errorText (ExceedsMaxFileSize name n) = name @ '' exceeds max file size limit ('' @ itoa n @ '' bytes)''"
| "errorText (InvalidFileSize name) = ''invalid file size for '' @ name"

text \<open>
  A file as the operating system shows it: what \<^verbatim>\<open>os.Stat\<close> answers (directory and size), the
  error of \<^verbatim>\<open>os.Open\<close>, the bytes and the error reading ends with, the error of
  \<^verbatim>\<open>Seek\<close>, and how the second pass is cut into reads.
\<close>

record osFile =
  fi_stat :: "(bool \<times> int) option"
  fi_open :: "string option"
  fi_data :: string
  fi_rerr :: "string option"
  fi_seek :: "string option"
  fi_reads :: "string list"

text \<open>The timeouts \<open>ScanFile\<close> adds before it looks at the file.\<close>

definition fileTimeouts :: "'rx scanner \<Rightarrow> goContext \<Rightarrow> int list" where
  "fileTimeouts s ctx =
     (if fileTimeout s > 0 then [fileTimeout s]
      else if \<not> hasDeadline ctx \<and> totalScanBudget s > 0 then [totalScanBudget s] else [])"

definition ScanFile :: "'rx world \<Rightarrow> 'rx scanner \<Rightarrow> goContext \<Rightarrow> (nat \<Rightarrow> int) \<Rightarrow> string \<Rightarrow> osFile
    \<Rightarrow> nat \<Rightarrow> nat \<Rightarrow> evalState \<times> (scanError + scanResult)" where
  "ScanFile W s ctx mem path f clock calls =
     (let ts = fileTimeouts s ctx; st0 = freshState path (semanticCaches s) clock calls
      in case doneAt ctx ts 0 of
        Some e \<Rightarrow> (st0, Inl (CtxError e))
      | None \<Rightarrow>
        (case (case fi_stat f of
            None \<Rightarrow> Inr ts
          | Some (isDir, sz) \<Rightarrow>
              if isDir then Inl (Opening path ''invalid argument'')
              else if maxFileBytes s > 0 \<and> sz > maxFileBytes s then Inl (ExceedsMaxFileSize path (maxFileBytes s))
              else if sz < 0 then Inl (InvalidFileSize path)
              else Inr (if fileTimeout s \<le> 0 \<and> PerFile (budgets s) > 0 then ts @ [PerFile (budgets s)] else ts)) of
           Inl e \<Rightarrow> (st0, Inl e)
         | Inr ts' \<Rightarrow>
             (let env = \<lparr>ctxDone = (\<lambda>k. doneAt ctx ts' (Suc k)), memSys = mem\<rparr>
              in case fi_open f of
                   Some e \<Rightarrow> (st0, Inl (Opening path e))
                 | None \<Rightarrow>
                     (case ScanReader W s env path (fi_data f) (fi_rerr f) clock calls of
                        (st, Inr res) \<Rightarrow> (st, Inr res)
                      | (st, Inl e) \<Rightarrow>
                          if \<not> strContains (errorText e) ''token too long'' then (st, Inl e)
                          else if fi_seek f \<noteq> None then (st, Inl e)
                          else scanChunked W (s\<lparr>semanticCaches := es_caches st\<rparr>)
                                 (env\<lparr>ctxDone := (\<lambda>k. ctxDone env (length (rawLines (fi_data f)) + k))\<rparr>)
                                 path (fi_reads f) (fi_rerr f) (es_clock st) (es_calls st)))))"

section \<open>The reader loop as evaluation line by line\<close>

fun lineByLine :: "lineEval \<Rightarrow> int \<Rightarrow> string list \<Rightarrow> evalState \<Rightarrow> evalState" where
  "lineByLine ev n [] st = st"
| "lineByLine ev n (l # ls) st =
     lineByLine ev (n + 1) ls
       (fst (ev l (n + 1) ((onMetrics (countLine (int (length l))) st)\<lparr>es_seen := {}\<rparr>)))"

lemma violations_quarantine [simp]:
  "violations (quarantine rid msg st) = violations st @ [synthetic rid msg]"
  "counted (quarantine rid msg st) = counted st"
  by (simp_all add: violations_def quarantine_def counted_def)

definition stopIds :: "string list" where
  "stopIds = [''scan_error'', ''timeout'', ''memory_limit'', ''stream_limit'']"

text \<open>\<open>stops s st r\<close>: the loop ended early after \<open>st\<close>, with one of the stop reasons.\<close>

definition stops :: "'rx scanner \<Rightarrow> evalState \<Rightarrow> evalState \<times> scanError option \<Rightarrow> bool" where
  "stops s st r \<longleftrightarrow> (\<exists>rid msg err q st1. violations st1 = violations st \<and> rid \<in> set stopIds
     \<and> (q = quarantineOnTimeout s \<or> q = quarantineOnError s) \<and> r = stop q rid msg err st1)"

lemma stopsI:
  assumes "violations st1 = violations st" "rid \<in> set stopIds"
    "q = quarantineOnTimeout s \<or> q = quarantineOnError s"
  shows "stops s st (stop q rid msg err st1)"
  unfolding stops_def using assms by blast

lemma scanLines_step:
  "stops s st (scanLines ev s env name k n (raw # raws) rerr st)
   \<or> scanLines ev s env name k n (raw # raws) rerr st
     = scanLines ev s env name (Suc k) (n + 1) raws rerr
        (fst (ev (dropCR raw) (n + 1) ((onMetrics (countLine (int (length (dropCR raw)))) st)\<lparr>es_seen := {}\<rparr>)))"
proof -
  have i: "''scan_error'' \<in> set stopIds" "''timeout'' \<in> set stopIds" "''memory_limit'' \<in> set stopIds"
    "''stream_limit'' \<in> set stopIds" by (simp_all add: stopIds_def)
  show ?thesis
    by (cases "ctxDone env k") (simp_all add: Let_def stopsI i)
qed

text \<open>
  However the loop ends, it has evaluated a prefix of the lines; unless that is all of them and
  the reader ended with EOF, it ends in one of the early stops.
\<close>

lemma scanLines_prefix:
  "(scanLines ev s env name k n raws rerr st = (lineByLine ev n (map dropCR raws) st, None) \<and> rerr = None)
   \<or> (\<exists>j \<le> length raws. stops s (lineByLine ev n (map dropCR (take j raws)) st)
        (scanLines ev s env name k n raws rerr st))"
proof (induction raws arbitrary: k n st)
  case Nil
  show ?case by (cases rerr) (auto simp: stopIds_def intro: stopsI)
next
  case (Cons raw raws)
  let ?st2 = "fst (ev (dropCR raw) (n + 1) ((onMetrics (countLine (int (length (dropCR raw)))) st)\<lparr>es_seen := {}\<rparr>))"
  from scanLines_step [of s st ev env name k n raw raws rerr] show ?case
  proof
    assume "stops s st (scanLines ev s env name k n (raw # raws) rerr st)"
    then show ?thesis by (intro disjI2 exI [of _ 0]) simp
  next
    assume e: "scanLines ev s env name k n (raw # raws) rerr st
      = scanLines ev s env name (Suc k) (n + 1) raws rerr ?st2"
    from Cons.IH [of "Suc k" "n + 1" ?st2] show ?thesis
    proof (elim disjE)
      assume "\<exists>j \<le> length raws. stops s (lineByLine ev (n + 1) (map dropCR (take j raws)) ?st2)
        (scanLines ev s env name (Suc k) (n + 1) raws rerr ?st2)"
      then obtain j where "j \<le> length raws" "stops s (lineByLine ev (n + 1) (map dropCR (take j raws)) ?st2)
        (scanLines ev s env name (Suc k) (n + 1) raws rerr ?st2)" by blast
      then show ?thesis unfolding e by (intro disjI2 exI [of _ "Suc j"]) simp
    next
      assume "scanLines ev s env name (Suc k) (n + 1) raws rerr ?st2
        = (lineByLine ev (n + 1) (map dropCR raws) ?st2, None) \<and> rerr = None"
      then show ?thesis unfolding e lineByLine.simps list.map by (intro disjI1)
    qed
  qed
qed

lemma scanLines_quarantined:
  assumes "quarantineOnTimeout s" "quarantineOnError s"
  shows "snd (scanLines ev s env name k n raws rerr st) = None"
  using scanLines_prefix [of ev s env name k n raws rerr st] assms
  by (auto simp: stops_def stop_def)

section \<open>Properties of reading\<close>

lemma ScanReader_stop_char:
  assumes "quarantineOnTimeout s" "quarantineOnError s"
  shows "\<exists>res. snd (ScanReader W s env name d rerr clock calls) = Inr res
    \<and> (let st0 = freshState name (semanticCaches s) (Suc clock) calls; lines = map dropCR (rawLines d)
       in (rerr = None \<and> sr_Violations res = violations (lineByLine (evaluateLine W s) 0 lines st0))
        \<or> (\<exists>j rid msg. j \<le> length lines \<and> rid \<in> set stopIds \<and> sr_Violations res =
             violations (lineByLine (evaluateLine W s) 0 (take j lines) st0) @ [synthetic rid msg]))"
proof -
  let ?ev = "evaluateLine W s" and ?raws = "rawLines d"
  let ?st0 = "freshState name (semanticCaches s) (Suc clock) calls"
  obtain st e where r: "scanLines ?ev s env name 0 0 ?raws rerr ?st0 = (st, e)" by fastforce
  have v: "sr_Violations (es_res (setDuration W t x)) = violations x" for t x
    by (simp add: setDuration_def violations_def)
  have "(e = None \<and> rerr = None \<and> violations st = violations (lineByLine ?ev 0 (map dropCR ?raws) ?st0))
      \<or> (\<exists>j rid msg. e = None \<and> j \<le> length ?raws \<and> rid \<in> set stopIds \<and>
          violations st = violations (lineByLine ?ev 0 (map dropCR (take j ?raws)) ?st0) @ [synthetic rid msg])"
    using scanLines_prefix [of ?ev s env name 0 0 ?raws rerr ?st0] unfolding r
  proof (elim disjE exE conjE)
    fix j assume "j \<le> length ?raws" "stops s (lineByLine ?ev 0 (map dropCR (take j ?raws)) ?st0) (st, e)"
    then obtain rid msg where "e = None" "rid \<in> set stopIds"
      "violations st = violations (lineByLine ?ev 0 (map dropCR (take j ?raws)) ?st0) @ [synthetic rid msg]"
      using assms unfolding stops_def stop_def by auto
    with \<open>j \<le> length ?raws\<close> show ?thesis by blast
  qed simp
  then show ?thesis
  proof (elim disjE exE conjE)
    fix j rid msg
    assume "e = None" "j \<le> length ?raws" "rid \<in> set stopIds"
      "violations st = violations (lineByLine ?ev 0 (map dropCR (take j ?raws)) ?st0) @ [synthetic rid msg]"
    then show ?thesis
      by (simp add: ScanReader_def Let_def r v take_map) blast
  next
    assume "e = None" "rerr = None" "violations st = violations (lineByLine ?ev 0 (map dropCR ?raws) ?st0)"
    then show ?thesis
      unfolding ScanReader_def Let_def r by (simp add: v)
  qed
qed

text \<open>
  C2. With the default quarantine settings a scan never fails and never stops silently: it
  returns a result, which either holds exactly the violations of evaluating every line of the
  input in turn (the reader having ended with EOF), or the violations of a prefix of the lines
  followed by one synthetic violation of severity HIGH that names the reason of the stop.
\<close>

theorem ScanReader_no_silent_stop:
  assumes "quarantineOnTimeout s" "quarantineOnError s"
  shows "\<exists>res. snd (ScanReader W s env name d rerr clock calls) = Inr res
    \<and> (let st0 = freshState name (semanticCaches s) (Suc clock) calls; lines = map dropCR (rawLines d)
       in (rerr = None \<and> sr_Violations res = violations (lineByLine (evaluateLine W s) 0 lines st0))
        \<or> (\<exists>j rid msg. j \<le> length lines \<and> rid \<in> set stopIds \<and> sr_Violations res =
             violations (lineByLine (evaluateLine W s) 0 (take j lines) st0) @ [synthetic rid msg]))"
  by (rule ScanReader_stop_char [OF assms])

theorem ScanReader_no_silent_stop_witness:
  "quarantineOnTimeout demoScanner \<and> quarantineOnError demoScanner
   \<and> (\<exists>res. snd (ScanReader litWorld demoScanner
        \<lparr>ctxDone = (\<lambda>k. if k < 1 then None else Some ''deadline''), memSys = (\<lambda>_. 0)\<rparr>
        ''in'' (''a'' @ [newline] @ ''b'') None 0 0) = Inr res)"
proof -
  have q: "quarantineOnTimeout demoScanner" "quarantineOnError demoScanner"
    by (simp_all add: demoScanner_def ScanEngineCstor_def DefaultQuarantineOnTimeout_def
        DefaultQuarantineOnError_def)
  from ScanReader_no_silent_stop [OF q] q show ?thesis by blast
qed

section \<open>Line numbers\<close>

locale numbered_evaluator = line_evaluator +
  assumes ok_line: "ok n v \<Longrightarrow> v_Line v = n"
begin

lemma ev_line:
  "\<exists>new. violations (fst (ev l n (st\<lparr>es_seen := sn\<rparr>))) = violations st @ new \<and> list_all (ok n) new"
  using ev_grows [of n "st\<lparr>es_seen := sn\<rparr>" l] unfolding grows_def by auto

lemma ev_counted [simp]: "counted (fst (ev l n st)) = counted st"
  using ev_grows [of n st l] unfolding grows_def by blast

lemma lineByLine_order:
  "\<exists>new. violations (lineByLine ev n ls st) = violations st @ new \<and> sorted (map v_Line new)
     \<and> list_all (\<lambda>v. n < v_Line v \<and> v_Line v \<le> n + int (length ls) \<and> ok (v_Line v) v) new"
proof (induction ls arbitrary: n st)
  case (Cons l ls)
  let ?st1 = "onMetrics (countLine (int (length l))) st"
  let ?st2 = "fst (ev l (n + 1) (?st1\<lparr>es_seen := {}\<rparr>))"
  obtain a where a: "violations ?st2 = violations st @ a" "list_all (ok (n + 1)) a"
    using ev_line [of l "n + 1" "{}" ?st1] by auto
  then have al: "\<forall>v \<in> set a. v_Line v = n + 1 \<and> ok (v_Line v) v"
    by (metis list_all_iff ok_line)
  obtain b where b: "violations (lineByLine ev (n + 1) ls ?st2) = violations ?st2 @ b"
    "sorted (map v_Line b)"
    "list_all (\<lambda>v. n + 1 < v_Line v \<and> v_Line v \<le> n + 1 + int (length ls) \<and> ok (v_Line v) v) b"
    using Cons.IH [of "n + 1" ?st2] by blast
  have "sorted (map v_Line a)" using al by (auto simp: sorted_iff_nth_mono)
  moreover have "\<forall>x \<in> set a. \<forall>y \<in> set b. v_Line x \<le> v_Line y"
    using al b(3) by (force simp: list_all_iff)
  ultimately have "sorted (map v_Line (a @ b))" using b(2) by (auto simp: sorted_append)
  moreover have "list_all (\<lambda>v. n < v_Line v \<and> v_Line v \<le> n + int (length (l # ls)) \<and> ok (v_Line v) v) (a @ b)"
    using al b(3) by (auto simp: list_all_iff)
  ultimately show ?case using a(1) b(1) by (intro exI [of _ "a @ b"]) simp
qed simp

lemma lineByLine_counted:
  "counted (lineByLine ev n ls st) =
     (fst (counted st) + int (sum_list (map length ls)), snd (counted st) + int (length ls))"
proof (induction ls arbitrary: n st)
  case (Cons l ls)
  have "counted (onMetrics (countLine k) st) = (fst (counted st) + k, snd (counted st) + 1)" for k
    by (simp add: counted_def countLine_def)
  with Cons show ?case by simp
qed simp

end

interpretation ne: numbered_evaluator "evaluateLine W s" "fromRules W s"
  for W :: "'rx world" and s :: "'rx scanner"
  by unfold_locales (auto simp: fromRules_def list_ex_iff ofRule_def)

text \<open>
  Evaluating the lines of an input in turn reports in reading order: the violations' line
  numbers ascend, each lies between 1 and the number of lines and names a rule enabled in the
  runtime context, and the metrics count exactly the lines and the bytes of the lines.
\<close>

theorem lineByLine_report:
  "let st = lineByLine (evaluateLine W s) 0 ls (freshState name caches clock calls)
   in sorted (map v_Line (violations st))
      \<and> list_all (\<lambda>v. 1 \<le> v_Line v \<and> v_Line v \<le> int (length ls) \<and> fromRules W s (v_Line v) v) (violations st)
      \<and> LinesRead (sr_Metrics (es_res st)) = int (length ls)
      \<and> BytesRead (sr_Metrics (es_res st)) = int (sum_list (map length ls))"
proof -
  let ?st0 = "freshState name caches clock calls"
  have z: "violations ?st0 = []" "counted ?st0 = (0, 0)"
    by (simp_all add: freshState_def violations_def counted_def zero_defs)
  obtain new where n: "violations (lineByLine (evaluateLine W s) 0 ls ?st0) = new" "sorted (map v_Line new)"
    "list_all (\<lambda>v. 0 < v_Line v \<and> v_Line v \<le> 0 + int (length ls) \<and> fromRules W s (v_Line v) v) new"
    using ne.lineByLine_order [of W s 0 ls ?st0] z(1) by auto
  have "list_all (\<lambda>v. 1 \<le> v_Line v \<and> v_Line v \<le> int (length ls) \<and> fromRules W s (v_Line v) v) new"
    using n(3) by (auto simp: list_all_iff)
  moreover have "counted (lineByLine (evaluateLine W s) 0 ls ?st0)
      = (int (sum_list (map length ls)), int (length ls))"
    using ne.lineByLine_counted [of W s 0 ls ?st0] z(2) by simp
  ultimately show ?thesis using n(1,2) by (simp add: Let_def counted_def)
qed

text \<open>
  Under the default quarantine settings the chunked reader is never used: how the file would
  be read a second time, and whether it can be rewound, has no influence on the result of
  \<open>ScanFile\<close>. An overlong line ends the scan with a \<open>scan_error\<close> violation instead.
\<close>

theorem ScanFile_never_chunks:
  assumes "quarantineOnTimeout s" "quarantineOnError s"
  shows "ScanFile W s ctx mem path (f\<lparr>fi_reads := reads, fi_seek := seek\<rparr>) clock calls
    = ScanFile W s ctx mem path f clock calls"
proof -
  have ok: "(case ScanReader W s env path (fi_data f) (fi_rerr f) clock calls of
      (st, Inr res) \<Rightarrow> (st, Inr res) | (st, Inl e) \<Rightarrow> X st e)
      = ScanReader W s env path (fi_data f) (fi_rerr f) clock calls" for env X
  proof -
    obtain st e where r: "scanLines (evaluateLine W s) s env path 0 0 (rawLines (fi_data f)) (fi_rerr f)
        (freshState path (semanticCaches s) (Suc clock) calls) = (st, e)" by fastforce
    then have "e = None" by (metis scanLines_quarantined [OF assms] snd_conv)
    with r show ?thesis by (simp add: ScanReader_def Let_def)
  qed
  have f: "fi_stat (f\<lparr>fi_reads := reads, fi_seek := seek\<rparr>) = fi_stat f"
    "fi_open (f\<lparr>fi_reads := reads, fi_seek := seek\<rparr>) = fi_open f"
    "fi_data (f\<lparr>fi_reads := reads, fi_seek := seek\<rparr>) = fi_data f"
    "fi_rerr (f\<lparr>fi_reads := reads, fi_seek := seek\<rparr>) = fi_rerr f" by simp_all
  show ?thesis
    unfolding ScanFile_def Let_def f ok by (rule refl)
qed

section \<open>Evaluation does not look at the metrics\<close>

definition noMetrics :: "evalState \<Rightarrow> evalState" where
  "noMetrics st = onMetrics (\<lambda>_. zeroMetrics) st"

lemma noMetrics_simps [simp]:
  "es_seen (noMetrics st) = es_seen st" "es_caches (noMetrics st) = es_caches st"
  "es_clock (noMetrics st) = es_clock st" "es_calls (noMetrics st) = es_calls st"
  "violations (noMetrics st) = violations st" "noMetrics (noMetrics st) = noMetrics st"
  "noMetrics (onMetrics f st) = noMetrics st"
  "noMetrics (st\<lparr>es_seen := sn\<rparr>) = (noMetrics st)\<lparr>es_seen := sn\<rparr>"
  "noMetrics (st\<lparr>es_caches := c\<rparr>) = (noMetrics st)\<lparr>es_caches := c\<rparr>"
  "noMetrics (st\<lparr>es_clock := k\<rparr>) = (noMetrics st)\<lparr>es_clock := k\<rparr>"
  "noMetrics (st\<lparr>es_calls := k\<rparr>) = (noMetrics st)\<lparr>es_calls := k\<rparr>"
  "noMetrics (addViolation key v st) = addViolation key v (noMetrics st)"
  by (simp_all add: noMetrics_def onMetrics_def violations_def addViolation_def)

text \<open>
  Two states that differ in the metrics only. A step is blind when it takes such states to such
  states, with the same answer.
\<close>

definition alike :: "evalState \<Rightarrow> evalState \<Rightarrow> bool" where
  "alike st st' \<longleftrightarrow> noMetrics st = noMetrics st'"

lemma alike_metrics [simp]: "alike (onMetrics f st) st' \<longleftrightarrow> alike st st'"
  "alike st (onMetrics f st') \<longleftrightarrow> alike st st'"
  by (simp_all add: alike_def)

lemma alike_seen: "alike st st' \<Longrightarrow> es_seen st = es_seen st'"
  unfolding alike_def by (metis noMetrics_simps(1))

lemma alike_violations: "alike st st' \<Longrightarrow> violations st = violations st'"
  unfolding alike_def by (metis noMetrics_simps(5))

lemma alike_fields: "alike st st' \<Longrightarrow> es_caches st = es_caches st' \<and> es_clock st = es_clock st' \<and> es_calls st = es_calls st'"
  unfolding alike_def by (metis noMetrics_simps(2-4))

lemma alike_add [intro]: "alike st st' \<Longrightarrow> alike (addViolation key v st) (addViolation key v st')"
  by (simp add: alike_def)

lemma alike_reset [intro]: "alike st st' \<Longrightarrow> alike (st\<lparr>es_seen := sn\<rparr>) (st'\<lparr>es_seen := sn\<rparr>)"
  by (simp add: alike_def)

lemma ahoLoop_alike:
  "alike st st' \<Longrightarrow> alike (fst (ahoLoop fm ps lo n cr ms st fd fi any)) (fst (ahoLoop fm ps lo n cr ms st' fd fi any))
     \<and> snd (ahoLoop fm ps lo n cr ms st fd fi any) = snd (ahoLoop fm ps lo n cr ms st' fd fi any)"
proof (induction ms arbitrary: fm st st' fd fi any)
  case (Cons m ms)
  then show ?case by (simp add: Let_def alike_seen [OF Cons.prems] alike_add)
qed simp

lemma anyKeywords_alike:
  "alike st st' \<Longrightarrow> alike (fst (anyKeywords hay n cr kws st any)) (fst (anyKeywords hay n cr kws st' any))
     \<and> snd (anyKeywords hay n cr kws st any) = snd (anyKeywords hay n cr kws st' any)"
proof (induction kws arbitrary: st st' any)
  case (Cons kw kws)
  then show ?case by (simp add: alike_seen [OF Cons.prems] alike_add split: option.split)
qed simp

lemma evalKeywordsAho_alike:
  assumes "alike st st'"
  shows "alike (fst (evalKeywordsAho fm ps lo n cr hits st)) (fst (evalKeywordsAho fm ps lo n cr hits st'))
    \<and> snd (evalKeywordsAho fm ps lo n cr hits st) = snd (evalKeywordsAho fm ps lo n cr hits st')"
proof -
  obtain st1 fd fi any ret where l: "ahoLoop fm ps lo n cr hits st Map.empty None False = (st1, fd, fi, any, ret)"
    by (metis prod_cases5)
  obtain st1' r where l': "ahoLoop fm ps lo n cr hits st' Map.empty None False = (st1', r)" by (meson surj_pair)
  from ahoLoop_alike [OF assms, of fm ps lo n cr hits Map.empty None False] l l'
  have a: "alike st1 st1'" "r = (fd, fi, any, ret)" by simp_all
  show ?thesis
    unfolding evalKeywordsAho_def l l' a(2) by (simp add: Let_def alike_seen [OF a(1)] a(1) alike_add)
qed

lemma evalKeywords_alike:
  assumes "alike st st'"
  shows "alike (fst (evalKeywords s lo l n cr hits st)) (fst (evalKeywords s lo l n cr hits st'))
    \<and> snd (evalKeywords s lo l n cr hits st) = snd (evalKeywords s lo l n cr hits st')"
  by (simp add: evalKeywords_def Let_def alike_seen [OF assms] assms alike_add
      anyKeywords_alike [OF assms] evalKeywordsAho_alike [OF assms] split: option.split) blast

lemma regexMatches_alike:
  "alike st st' \<Longrightarrow> alike (fst (regexMatches G l n cr ver locs (st, m, c))) (fst (regexMatches G l n cr ver locs (st', m, c)))
     \<and> snd (regexMatches G l n cr ver locs (st, m, c)) = snd (regexMatches G l n cr ver locs (st', m, c))"
proof (induction locs arbitrary: st st' m c)
  case (Cons loc locs)
  then show ?case by (simp add: alike_seen [OF Cons.prems] alike_add)
qed simp

lemma anyRegexes_alike:
  "alike st st' \<Longrightarrow> alike (fst (anyRegexes G l n cr i rxs (st, m, c))) (fst (anyRegexes G l n cr i rxs (st', m, c)))
     \<and> snd (anyRegexes G l n cr i rxs (st, m, c)) = snd (anyRegexes G l n cr i rxs (st', m, c))"
proof (induction rxs arbitrary: i st st' m c)
  case (Cons rx rxs)
  let ?ver = "if i < length (cr_verifiers cr) then Some (cr_verifiers cr ! i) else None"
  obtain a b c1 a' b' c1' where
    "regexMatches G l n cr ?ver (rxFindAll G rx l) (st, m, c) = (a, b, c1)"
    "regexMatches G l n cr ?ver (rxFindAll G rx l) (st', m, c) = (a', b', c1')" by (metis prod_cases3)
  with regexMatches_alike [OF Cons.prems, of G l n cr ?ver "rxFindAll G rx l" m c] Cons.IH
  show ?case by (simp add: Let_def)
qed simp

lemma evalRegexes_alike:
  "alike st st' \<Longrightarrow> alike (fst (evalRegexesStandard G l n cr st)) (fst (evalRegexesStandard G l n cr st'))
     \<and> snd (evalRegexesStandard G l n cr st) = snd (evalRegexesStandard G l n cr st')"
  by (auto simp: evalRegexesStandard_def anyRegexes_alike dest: alike_seen split: option.split)

lemma alike_caches [intro]: "alike st st' \<Longrightarrow> alike (st\<lparr>es_caches := c\<rparr>) (st'\<lparr>es_caches := c\<rparr>)"
  "alike st st' \<Longrightarrow> alike (st\<lparr>es_caches := c, es_clock := k\<rparr>) (st'\<lparr>es_caches := c, es_clock := k\<rparr>)"
  "alike st st' \<Longrightarrow> alike (st\<lparr>es_calls := j\<rparr>) (st'\<lparr>es_calls := j\<rparr>)"
  by (simp_all add: alike_def)

lemma cacheLookup_alike:
  assumes "alike st st'"
  shows "alike (fst (cacheLookup W cr l st)) (fst (cacheLookup W cr l st'))
    \<and> snd (cacheLookup W cr l st) = snd (cacheLookup W cr l st')"
proof -
  note f = alike_fields [OF assms]
  have "alike (st\<lparr>es_caches := c, es_clock := k, es_caches := c'\<rparr>) (st'\<lparr>es_caches := c, es_clock := k, es_caches := c'\<rparr>)" for c k c'
    using assms by (simp add: alike_def)
  then show ?thesis
    using assms by (auto simp: cacheLookup_def Let_def f split: option.split prod.split)
qed

lemma cacheStore_alike:
  assumes "alike st st'"
  shows "alike (cacheStore W cr l ok conf st) (cacheStore W cr l ok conf st')"
proof -
  have "alike (st\<lparr>es_caches := es_caches st'\<rparr>) st'"
    using alike_caches(1) [OF assms, of "es_caches st'"] by simp
  then show ?thesis
    by (simp add: cacheStore_def Let_def alike_fields [OF assms] assms alike_caches split: option.split)
qed

lemma evaluateSemantic_alike:
  assumes "alike st st'"
  shows "alike (fst (evaluateSemantic W s l cr col st)) (fst (evaluateSemantic W s l cr col st'))
    \<and> snd (evaluateSemantic W s l cr col st) = snd (evaluateSemantic W s l cr col st')"
proof (cases "cr_semantic cr = None \<or> semanticAnalyzer s = None")
  case True
  then have "evaluateSemantic W s l cr col x = (x, False, col)" for x
    by (auto simp: evaluateSemantic_def split: option.split)
  with assms show ?thesis by simp
next
  case False
  then obtain sem an where sa: "cr_semantic cr = Some sem" "semanticAnalyzer s = Some an" by auto
  obtain st1 hit where c: "cacheLookup W cr l st = (st1, hit)" by fastforce
  obtain st1' hit' where c': "cacheLookup W cr l st' = (st1', hit')" by fastforce
  from cacheLookup_alike [OF assms, of W cr l] c c' have a: "alike st1 st1'" "hit' = hit" by simp_all
  obtain v conf err where v: "an (es_calls st1) (semanticTimeout s cr) l sem = (v, conf, err)"
    by (metis prod_cases3)
  then have v': "an (es_calls st1') (semanticTimeout s cr) l sem = (v, conf, err)"
    using alike_fields [OF a(1)] by simp
  have k: "alike (st1\<lparr>es_calls := Suc (es_calls st1)\<rparr>) (st1'\<lparr>es_calls := Suc (es_calls st1')\<rparr>)"
    using alike_fields [OF a(1)] alike_caches(3) [OF a(1)] by simp
  show ?thesis
    unfolding evaluateSemantic_cases [OF sa c v] evaluateSemantic_cases [OF sa c' v'] a(2)
    by (simp add: a(1) k cacheStore_alike [OF k] split: option.split)
qed

lemma regexStage_alike:
  "alike st st' \<Longrightarrow> alike (fst (regexStage W s lo l n cr st)) (fst (regexStage W s lo l n cr st'))
     \<and> snd (regexStage W s lo l n cr st) = snd (regexStage W s lo l n cr st')"
  using evalRegexes_alike [of "onMetrics incRegexAttempts st" "onMetrics incRegexAttempts st'" "lib W" l n cr]
  by (simp add: regexStage_def)

lemma semanticStage_alike:
  assumes "alike st st'"
  shows "alike (fst (semanticStage W s lo l n cr col st)) (fst (semanticStage W s lo l n cr col st'))
     \<and> snd (semanticStage W s lo l n cr col st) = snd (semanticStage W s lo l n cr col st')"
proof -
  let ?i = "onMetrics incSemanticAttempts"
  obtain a b c where e: "evaluateSemantic W s l cr col (?i st) = (a, b, c)" by (metis prod_cases3)
  obtain a' b' c' where e': "evaluateSemantic W s l cr col (?i st') = (a', b', c')" by (metis prod_cases3)
  from evaluateSemantic_alike [of "?i st" "?i st'" W s l cr col] assms e e'
  have "alike a a'" "b' = b" "c' = c" by simp_all
  with assms show ?thesis
    by (simp add: semanticStage_def e e' alike_seen [of a a'] alike_add)
qed

lemma evalRule_alike:
  assumes "alike st st'"
  shows "alike (fst (evalRule W s lo l n hits cr st)) (fst (evalRule W s lo l n hits cr st'))
     \<and> snd (evalRule W s lo l n hits cr st) = snd (evalRule W s lo l n hits cr st')"
proof -
  let ?K = "\<lambda>st. if cr_keywords cr \<noteq> [] then evalKeywords s lo l n cr hits st else (st, False)"
  let ?G = "\<lambda>st. if cr_regexes cr \<noteq> [] \<and> gateClosed (lib W) s lo cr then onMetrics incRegexSkipped st else st"
  obtain st1 kw where k: "?K st = (st1, kw)" by fastforce
  obtain st1' kw' where k': "?K st' = (st1', kw')" by fastforce
  have a1: "alike st1 st1'" "kw' = kw"
    using evalKeywords_alike [OF assms, of s lo l n cr hits] k k' assms by (auto split: if_split_asm)
  obtain st2 rx col where r: "regexStage W s lo l n cr st1 = (st2, rx, col)" by (metis prod_cases3)
  obtain st2' rx' col' where r': "regexStage W s lo l n cr st1' = (st2', rx', col')" by (metis prod_cases3)
  have a2: "alike st2 st2'" "rx' = rx" "col' = col"
    using regexStage_alike [OF a1(1), of W s lo l n cr] r r' by simp_all
  have a3: "alike (?G st2) (?G st2')" using a2(1) by simp
  show ?thesis
    unfolding evalRule_def k k' Let_def prod.case r r' a1(2) a2(2,3)
    using assms a1(1) a2(1) semanticStage_alike [OF a3, of W s lo l n cr col] by simp
qed

lemma evalRules_alike:
  "alike st st' \<Longrightarrow> alike (fst (evalRules W s lo l n hits crs st any)) (fst (evalRules W s lo l n hits crs st' any))"
proof (induction crs arbitrary: st st' any)
  case (Cons cr crs)
  obtain a b where e: "evalRule W s lo l n hits cr st = (a, b)" by fastforce
  obtain a' b' where e': "evalRule W s lo l n hits cr st' = (a', b')" by fastforce
  from evalRule_alike [OF Cons.prems, of W s lo l n hits cr] e e' have "alike a a'" "b' = b" by simp_all
  with Cons.IH show ?case by (simp add: e e')
qed simp

section \<open>Chunked reading\<close>

lemma strSplit_append:
  "strSplit d (a @ b) = butlast (strSplit d a) @ strSplit d (last (strSplit d a) @ b)"
proof (induction a)
  case (Cons c a)
  obtain w ws where w: "strSplit d a = w # ws" by (cases "strSplit d a") auto
  show ?case
    using Cons w by (cases ws) (auto split: list.splits)
qed simp

lemma strSplit_single: "d \<notin> set a \<Longrightarrow> strSplit d a = [a]"
  by (induction a) auto

lemma strSplit_last: "d \<notin> set (last (strSplit d a))"
proof (induction a)
  case (Cons c a)
  obtain w ws where w: "strSplit d a = w # ws" by (cases "strSplit d a") auto
  show ?case using Cons w by (cases ws) auto
qed simp

lemma strSplit_line: "d \<notin> set a \<Longrightarrow> strSplit d (a @ d # b) = a # strSplit d b"
  by (induction a) auto

lemma newline_cut:
  assumes "newline \<in> set data"
  shows "data = takeWhile (\<lambda>x. x \<noteq> newline) data @ newline # tl (dropWhile (\<lambda>x. x \<noteq> newline) data)"
proof -
  have "dropWhile (\<lambda>x. x \<noteq> newline) data \<noteq> []" using assms by (simp add: dropWhile_eq_Nil_conv)
  moreover from this have "hd (dropWhile (\<lambda>x. x \<noteq> newline) data) = newline"
    using hd_dropWhile [of "\<lambda>x. x \<noteq> newline" data] by auto
  ultimately show ?thesis by (metis list.collapse takeWhile_dropWhile_id)
qed

fun longLines :: "lineEval \<Rightarrow> int \<Rightarrow> int \<Rightarrow> int \<Rightarrow> string list \<Rightarrow> evalState \<Rightarrow> evalState" where
  "longLines ev buf ov n [] st = st"
| "longLines ev buf ov n (l # ls) st =
     longLines ev buf ov (n + 1) ls (evaluateLongLine ev buf l (n + 1) ov st)"

lemma longLines_append:
  "longLines ev buf ov n (xs @ ys) st = longLines ev buf ov (n + int (length xs)) ys (longLines ev buf ov n xs st)"
  by (induction xs arbitrary: n st) (simp_all add: add.assoc)

text \<open>One read: the complete lines are evaluated, the last part stays in the buffer.\<close>

definition fed :: "lineEval \<Rightarrow> 'rx scanner \<Rightarrow> int \<Rightarrow> string \<Rightarrow> chunkState \<Rightarrow> chunkState \<Rightarrow> bool" where
  "fed ev s ov data c c' \<longleftrightarrow> (let parts = strSplit newline (lineBuf c @ data) in
     lineBuf c' = last parts \<and> lineNum c' = lineNum c + int (length (butlast parts))
     \<and> alike (chunkEval c') (longLines ev (bufferSizeBytes s) ov (lineNum c) (butlast parts) (chunkEval c)))"

text \<open>An evaluator whose outcome does not depend on the metrics.\<close>

locale blind_evaluator =
  fixes ev :: lineEval
  assumes ev_alike: "alike st st' \<Longrightarrow> alike (fst (ev l n st)) (fst (ev l n st'))"
begin

lemma evalSegments_alike:
  "alike st st' \<Longrightarrow> alike (evalSegments ev l n segs st) (evalSegments ev l n segs st')"
  unfolding evalSegments_def
proof (induction segs arbitrary: st st')
  case (Cons seg segs)
  then show ?case by (cases seg) (simp add: ev_alike)
qed simp

lemma evaluateLongLine_alike:
  "alike st st' \<Longrightarrow> alike (evaluateLongLine ev buf l n ov st) (evaluateLongLine ev buf l n ov st')"
  by (simp add: evaluateLongLine_def Let_def ev_alike evalSegments_alike alike_reset)

lemma longLines_alike:
  "alike st st' \<Longrightarrow> alike (longLines ev buf ov n ls st) (longLines ev buf ov n ls st')"
  by (induction ls arbitrary: n st st') (simp_all add: evaluateLongLine_alike)

lemma feed_fed:
  assumes "maxStreamBytes s \<le> 0"
  shows "newline \<notin> set (lineBuf c) \<Longrightarrow> \<exists>c'. feed ev s ov data c = (c', None) \<and> fed ev s ov data c c'"
proof (induction "length data" arbitrary: data c rule: less_induct)
  case less
  have nl: "\<not> overStreamLimit s st" for st using assms by (simp add: overStreamLimit_def)
  show ?case
  proof (cases "newline \<in> set data")
    case False
    have "strSplit newline (lineBuf c @ data) = [lineBuf c @ data]"
      using False less.prems by (simp add: strSplit_single)
    with False nl show ?thesis
      by (subst feed.simps) (simp add: Let_def fed_def alike_def)
  next
    case True
    let ?pre = "takeWhile (\<lambda>x. x \<noteq> newline) data" and ?rest = "tl (dropWhile (\<lambda>x. x \<noteq> newline) data)"
    let ?st = "onMetrics (countLine (int (length (lineBuf c @ ?pre)) + 1)) (chunkEval c)"
    let ?c = "\<lparr>lineBuf = [], lineNum = lineNum c + 1, chunkEval =
      evaluateLongLine ev (bufferSizeBytes s) (lineBuf c @ ?pre) (lineNum c + 1) ov ?st\<rparr>"
    have ne: "data \<noteq> []" using True by auto
    then have "length ?rest < length data" using dropWhile_tail_less by simp
    from less.hyps [OF this, of ?c] obtain c' where
      c': "feed ev s ov ?rest ?c = (c', None)" "fed ev s ov ?rest ?c c'" by auto
    have f: "feed ev s ov data c = feed ev s ov ?rest ?c"
      using True ne nl by (subst feed.simps) (simp add: Let_def)
    have "newline \<notin> set (lineBuf c @ ?pre)" using less.prems by (auto dest: set_takeWhileD)
    from strSplit_line [OF this, of ?rest] newline_cut [OF True]
    have sp: "strSplit newline (lineBuf c @ data) = (lineBuf c @ ?pre) # strSplit newline ?rest"
      by (metis append.assoc)
    have "alike (evaluateLongLine ev (bufferSizeBytes s) (lineBuf c @ ?pre) (lineNum c + 1) ov ?st)
        (evaluateLongLine ev (bufferSizeBytes s) (lineBuf c @ ?pre) (lineNum c + 1) ov (chunkEval c))"
      by (rule evaluateLongLine_alike) (simp add: alike_def)
    from longLines_alike [OF this] c'(2) have "fed ev s ov data c c'"
      unfolding fed_def sp by (simp add: Let_def alike_def del: length_butlast)
    with f c'(1) show ?thesis by auto
  qed
qed

lemma fed_trans:
  assumes "fed ev s ov d1 c c1" "fed ev s ov d2 c1 c2"
  shows "fed ev s ov (d1 @ d2) c c2"
proof -
  let ?p1 = "strSplit newline (lineBuf c @ d1)"
  let ?p2 = "strSplit newline (last ?p1 @ d2)"
  let ?L = "longLines ev (bufferSizeBytes s) ov"
  have sp: "strSplit newline (lineBuf c @ d1 @ d2) = butlast ?p1 @ ?p2"
    using strSplit_append [of newline "lineBuf c @ d1" d2] by simp
  have 1: "lineBuf c1 = last ?p1" "lineNum c1 = lineNum c + int (length (butlast ?p1))"
    "alike (chunkEval c1) (?L (lineNum c) (butlast ?p1) (chunkEval c))"
    using assms(1) by (simp_all add: fed_def Let_def)
  have 2: "lineBuf c2 = last ?p2" "lineNum c2 = lineNum c1 + int (length (butlast ?p2))"
    "alike (chunkEval c2) (?L (lineNum c1) (butlast ?p2) (chunkEval c1))"
    using assms(2) 1(1) by (simp_all add: fed_def Let_def)
  have "alike (chunkEval c2) (?L (lineNum c) (butlast ?p1 @ butlast ?p2) (chunkEval c))"
    using 2(3) longLines_alike [OF 1(3), of "bufferSizeBytes s" ov "lineNum c1" "butlast ?p2"] 1(2)
    by (simp add: longLines_append alike_def)
  with 1 2 show ?thesis
    by (simp add: fed_def sp Let_def butlast_append last_append del: length_butlast)
qed

lemma chunkedLoop_fed:
  assumes "maxStreamBytes s \<le> 0" "\<forall>k. ctxDone env k = None"
  shows "newline \<notin> set (lineBuf c) \<Longrightarrow>
    \<exists>c'. chunkedLoop ev s env ov name k reads rerr c = chunkedEnd ev s ov name rerr c'
      \<and> fed ev s ov (concat reads) c c'"
proof (induction reads arbitrary: c k)
  case Nil
  then have "fed ev s ov [] c c" by (simp add: fed_def strSplit_single alike_def)
  then show ?case by auto
next
  case (Cons d reads)
  obtain c1 where c1: "feed ev s ov d c = (c1, None)" "fed ev s ov d c c1"
    using feed_fed [OF assms(1) Cons.prems] by blast
  have "newline \<notin> set (lineBuf c1)" using c1(2) strSplit_last by (simp add: fed_def Let_def)
  from Cons.IH [OF this, of "Suc k"] obtain c' where
    "chunkedLoop ev s env ov name (Suc k) reads rerr c1 = chunkedEnd ev s ov name rerr c'"
    "fed ev s ov (concat reads) c1 c'" by blast
  with c1 assms(2) fed_trans [OF c1(2)] show ?case by auto
qed

text \<open>With no limit hit, the chunked reader evaluates the raw lines of the whole input.\<close>

lemma chunkedLoop_lines:
  assumes "maxStreamBytes s \<le> 0" "\<forall>k. ctxDone env k = None"
  shows "\<exists>st. chunkedLoop ev s env ov name 0 reads None \<lparr>lineBuf = [], lineNum = 0, chunkEval = st0\<rparr> = (st, None)
    \<and> alike st (longLines ev (bufferSizeBytes s) ov 0 (rawLines (concat reads)) st0)"
proof -
  let ?c = "\<lparr>lineBuf = [], lineNum = 0, chunkEval = st0\<rparr>"
  let ?parts = "strSplit newline (concat reads)" and ?L = "longLines ev (bufferSizeBytes s) ov"
  obtain c' where c': "chunkedLoop ev s env ov name 0 reads None ?c = chunkedEnd ev s ov name None c'"
    and f: "fed ev s ov (concat reads) ?c c'"
    using chunkedLoop_fed [OF assms, of ?c ov name 0 reads None] by auto
  then have l: "lineBuf c' = last ?parts" "lineNum c' = int (length (butlast ?parts))"
    "alike (chunkEval c') (?L 0 (butlast ?parts) st0)" by (simp_all add: fed_def Let_def)
  show ?thesis
  proof (cases "last ?parts = []")
    case True
    with l c' show ?thesis by (simp add: chunkedEnd_def rawLines_def Let_def)
  next
    case False
    then have "rawLines (concat reads) = butlast ?parts @ [last ?parts]"
      by (simp add: rawLines_def Let_def)
    moreover have "alike (evaluateLongLine ev (bufferSizeBytes s) (last ?parts) (lineNum c' + 1) ov
          (onMetrics addLine (chunkEval c')))
        (evaluateLongLine ev (bufferSizeBytes s) (last ?parts) (lineNum c' + 1) ov (?L 0 (butlast ?parts) st0))"
      by (rule evaluateLongLine_alike) (simp add: l(3))
    moreover have "?L 0 (butlast ?parts @ [last ?parts]) st0
        = evaluateLongLine ev (bufferSizeBytes s) (last ?parts) (lineNum c' + 1) ov (?L 0 (butlast ?parts) st0)"
      by (simp add: longLines_append l(2) del: append_butlast_last_id)
    ultimately show ?thesis
      using False by (simp add: c' chunkedEnd_def l(1))
  qed
qed

end

interpretation be: blind_evaluator "evaluateLine W s"
  for W :: "'rx world" and s :: "'rx scanner"
  by unfold_locales (simp add: evaluateLine_def Let_def evalRules_alike)

text \<open>
  C3. The violations the chunked reader reports do not depend on how the input is cut into reads:
  with no stream limit and a context that does not expire, it succeeds and its violations are those
  of evaluating the lines of the concatenated input one after the other. The byte counts, and the point
  where a stream limit stops the scan, do depend on the cut and are not part of the claim.
\<close>

theorem scanChunked_lines:
  assumes "maxStreamBytes s \<le> 0" "\<forall>k. ctxDone env k = None"
  shows "\<exists>res. snd (scanChunked W s env name reads None clock calls) = Inr res
    \<and> sr_Violations res = violations (longLines (evaluateLine W s) (bufferSizeBytes s) (overlapSize s) 0
        (rawLines (concat reads)) (freshState name (semanticCaches s) clock calls))"
proof -
  let ?st0 = "freshState name (semanticCaches s) clock calls"
  obtain st where st: "chunkedLoop (evaluateLine W s) s env (overlapSize s) name 0 reads None
      \<lparr>lineBuf = [], lineNum = 0, chunkEval = ?st0\<rparr> = (st, None)"
    and a: "alike st (longLines (evaluateLine W s) (bufferSizeBytes s) (overlapSize s) 0
        (rawLines (concat reads)) ?st0)"
    using be.chunkedLoop_lines [OF assms] by blast
  from alike_violations [OF a] st show ?thesis
    by (simp add: scanChunked_def violations_def)
qed

definition calmEnv :: scanEnv where
  "calmEnv = \<lparr>ctxDone = (\<lambda>_. None), memSys = (\<lambda>_. 0)\<rparr>"

theorem scanChunked_lines_witness:
  "\<exists>res res'. snd (scanChunked litWorld demoScanner calmEnv ''f'' [''al'', ''pha'' @ [newline], ''x''] None 0 0) = Inr res
     \<and> snd (scanChunked litWorld demoScanner calmEnv ''f'' [''alpha'' @ [newline] @ ''x''] None 0 0) = Inr res'
     \<and> sr_Violations res = sr_Violations res'"
proof -
  have h: "maxStreamBytes demoScanner \<le> 0" "\<forall>k. ctxDone calmEnv k = None"
    by (simp_all add: demoScanner_def ScanEngineCstor_def calmEnv_def)
  obtain res where r: "snd (scanChunked litWorld demoScanner calmEnv ''f'' [''al'', ''pha'' @ [newline], ''x''] None 0 0) = Inr res"
    and v: "sr_Violations res = violations (longLines (evaluateLine litWorld demoScanner) (bufferSizeBytes demoScanner)
      (overlapSize demoScanner) 0 (rawLines (concat [''al'', ''pha'' @ [newline], ''x'']))
      (freshState ''f'' (semanticCaches demoScanner) 0 0))"
    using scanChunked_lines [OF h] by blast
  obtain res' where r': "snd (scanChunked litWorld demoScanner calmEnv ''f'' [''alpha'' @ [newline] @ ''x''] None 0 0) = Inr res'"
    and v': "sr_Violations res' = violations (longLines (evaluateLine litWorld demoScanner) (bufferSizeBytes demoScanner)
      (overlapSize demoScanner) 0 (rawLines (concat [''alpha'' @ [newline] @ ''x'']))
      (freshState ''f'' (semanticCaches demoScanner) 0 0))"
    using scanChunked_lines [OF h] by blast
  have "concat [''al'', ''pha'' @ [newline], ''x''] = concat [''alpha'' @ [newline] @ ''x'']" by simp
  with r r' v v' show ?thesis by metis
qed

theorem ScanFile_never_chunks_witness:
  "ScanFile litWorld demoScanner \<lparr>hasDeadline = False, doneAt = (\<lambda>_ _. None)\<rparr> (\<lambda>_. 0) ''f''
     \<lparr>fi_stat = Some (False, 3), fi_open = None, fi_data = ''abc'', fi_rerr = None, fi_seek = Some ''e'', fi_reads = []\<rparr> 0 0
   = ScanFile litWorld demoScanner \<lparr>hasDeadline = False, doneAt = (\<lambda>_ _. None)\<rparr> (\<lambda>_. 0) ''f''
     \<lparr>fi_stat = Some (False, 3), fi_open = None, fi_data = ''abc'', fi_rerr = None, fi_seek = None, fi_reads = [''abc'']\<rparr> 0 0"
proof -
  have q: "quarantineOnTimeout demoScanner" "quarantineOnError demoScanner"
    by (simp_all add: demoScanner_def ScanEngineCstor_def DefaultQuarantineOnTimeout_def
        DefaultQuarantineOnError_def)
  from ScanFile_never_chunks [OF q, where W = litWorld and mem = "\<lambda>_. 0" and path = "''f''" and clock = 0
      and calls = 0 and reads = "[]" and seek = "Some ''e''"
      and ctx = "\<lparr>hasDeadline = False, doneAt = (\<lambda>_ _. None)\<rparr>"
      and f = "\<lparr>fi_stat = Some (False, 3), fi_open = None, fi_data = ''abc'', fi_rerr = None, fi_seek = None, fi_reads = [''abc'']\<rparr>"]
  show ?thesis by simp
qed

end
