(* ===== verification/Redact.thy ===== *)
theory Redact
  imports Verifiers
begin

text \<open>
  Redaction of secrets: \<^verbatim>\<open>internal/shared/redact/redact.go\<close>. The table of rules is an argument,
  each rule the compiled expression and whether \<^verbatim>\<open>luhnValid\<close> is its verifier; matching is
  \<^const>\<open>rxFindAll\<close>. The global toggle is an argument too.
\<close>

section \<open>Definitions\<close>

type_synonym 'rx redactRule = "'rx \<times> bool"

text \<open>\<open>ReplaceAllStringFunc\<close>: from \<open>pos\<close> on, every match is replaced by its image.\<close>

fun replaceSpans :: "(string \<Rightarrow> string) \<Rightarrow> string \<Rightarrow> nat \<Rightarrow> (nat \<times> nat) list \<Rightarrow> string" where
  "replaceSpans f s pos [] = drop pos s"
| "replaceSpans f s pos ((i, j) # spans) =
     take (i - pos) (drop pos s) @ f (take (j - i) (drop i s)) @ replaceSpans f s j spans"

definition redactedText :: string where
  "redactedText = ''[REDACTED]''"

definition redactOne :: "'rx golib \<Rightarrow> 'rx redactRule \<Rightarrow> string \<Rightarrow> string" where
  "redactOne G r out =
     replaceSpans (\<lambda>m. if snd r \<and> \<not> luhnValid G m then m else redactedText) out 0 (rxFindAll G (fst r) out)"

definition RedactText :: "'rx golib \<Rightarrow> bool \<Rightarrow> 'rx redactRule list \<Rightarrow> string \<Rightarrow> string" where
  "RedactText G enabled rules s = (if \<not> enabled then s else fold (redactOne G) rules s)"

definition RedactAndTruncate :: "'rx golib \<Rightarrow> bool \<Rightarrow> 'rx redactRule list \<Rightarrow> string \<Rightarrow> int \<Rightarrow> string" where
  "RedactAndTruncate G enabled rules s maxBytes =
     (let t = (if enabled then RedactText G enabled rules s else s)
      in if maxBytes > 0 \<and> int (length t) > maxBytes then take (nat maxBytes) t else t)"

section \<open>Replacing matches\<close>

text \<open>What \<^verbatim>\<open>FindAllStringIndex\<close> promises: spans inside the text, in order, without overlap.\<close>

fun spansFrom :: "nat \<Rightarrow> nat \<Rightarrow> (nat \<times> nat) list \<Rightarrow> bool" where
  "spansFrom n pos [] \<longleftrightarrow> pos \<le> n"
| "spansFrom n pos ((i, j) # spans) \<longleftrightarrow> pos \<le> i \<and> i \<le> j \<and> spansFrom n j spans"

lemma spansFrom_le: "spansFrom n pos spans \<Longrightarrow> pos \<le> n"
  by (induction n pos spans rule: spansFrom.induct) auto

lemma replaceSpans_id:
  "spansFrom (length s) pos spans \<Longrightarrow> (\<And>i j. (i, j) \<in> set spans \<Longrightarrow> f (take (j - i) (drop i s)) = take (j - i) (drop i s))
   \<Longrightarrow> replaceSpans f s pos spans = drop pos s"
proof (induction f s pos spans rule: replaceSpans.induct)
  case (2 f s pos i j spans)
  then have le: "pos \<le> i" "i \<le> j" "j \<le> length s" by (auto dest: spansFrom_le)
  have "take (i - pos) (drop pos s) @ take (j - i) (drop i s) @ drop j s = drop pos s"
    using le append_take_drop_id [of "i - pos" "drop pos s"] append_take_drop_id [of "j - i" "drop i s"] by simp
  then show ?case using 2 by simp
qed simp

text \<open>A pass over the table changes nothing when no expression has a verified match.\<close>

lemma RedactText_clean:
  assumes "list_all (\<lambda>r. spansFrom (length s) 0 (rxFindAll G (fst r) s)
      \<and> (\<forall>(i, j) \<in> set (rxFindAll G (fst r) s). snd r \<and> \<not> luhnValid G (take (j - i) (drop i s)))) rules"
  shows "RedactText G enabled rules s = s"
proof -
  have "redactOne G r s = s" if "spansFrom (length s) 0 (rxFindAll G (fst r) s)"
    "\<forall>(i, j) \<in> set (rxFindAll G (fst r) s). snd r \<and> \<not> luhnValid G (take (j - i) (drop i s))" for r
    unfolding redactOne_def by (subst replaceSpans_id) (use that in auto)
  then have "fold (redactOne G) rules s = s"
    using assms by (induction rules) auto
  then show ?thesis by (simp add: RedactText_def)
qed

lemma RedactAndTruncate_bound:
  "0 < maxBytes \<Longrightarrow> int (length (RedactAndTruncate G enabled rules s maxBytes)) \<le> maxBytes"
  by (auto simp: RedactAndTruncate_def Let_def)

end
