(* ===== verification/Decisions.thy ===== *)
theory Decisions
  imports Rules_Types
begin

text \<open>
  The bounded history of enforcement decisions: \<^verbatim>\<open>internal/application/decisions\<close>
  (\<^verbatim>\<open>record.go\<close>, \<^verbatim>\<open>log.go\<close>, \<^verbatim>\<open>page.go\<close>, \<^verbatim>\<open>capacity.go\<close>). A time is a number of
  nanoseconds and the zero time is \<open>None\<close>. The mutex is not modelled: every operation is one
  atomic step, as it is under the lock (\<open>Stats\<close> takes the lock twice; it is modelled on one
  state of the log). The clock is an argument of the operations that read it.
\<close>

section \<open>Data\<close>

definition Allow :: string where "Allow = ''allow''"
definition Deny :: string where "Deny = ''deny''"
definition Quarantine :: string where "Quarantine = ''quarantine''"

record decMatch =
  mt_RuleID :: string
  mt_Severity :: string
  mt_Category :: string
  mt_Action :: string
  mt_Message :: string

record decRecord =
  rc_Seq :: int
  rc_RequestID :: string
  rc_Time :: "int option"
  rc_Path :: string
  rc_Decision :: string
  rc_Reason :: string
  rc_Status :: int
  rc_LatencyMs :: real
  rc_BytesIn :: int
  rc_Violations :: int
  rc_Matches :: "decMatch list"

definition zeroRecord :: decRecord where
  "zeroRecord = \<lparr>rc_Seq = 0, rc_RequestID = [], rc_Time = None, rc_Path = [], rc_Decision = [],
     rc_Reason = [], rc_Status = 0, rc_LatencyMs = 0, rc_BytesIn = 0, rc_Violations = 0, rc_Matches = []\<rparr>"

definition MatchesFrom :: "violation list \<Rightarrow> decMatch list" where
  "MatchesFrom vs = map (\<lambda>v. \<lparr>mt_RuleID = v_RuleID v, mt_Severity = v_Severity v,
     mt_Category = v_Category v, mt_Action = v_ResponseAction v,
     mt_Message = firstNonEmpty [v_ResponseMessage v, v_Message v]\<rparr>) vs"

record query =
  q_Limit :: int
  q_Decision :: string
  q_Before :: int

record stats =
  st_Total :: int
  st_ByDecision :: "string \<rightharpoonup> int"
  st_BlockRate :: real
  st_LatencyP50Ms :: real
  st_LatencyP95Ms :: real
  st_LastMinute :: int
  st_Retained :: nat
  st_Capacity :: nat
  st_Since :: int

record decLog =
  lg_buf :: "decRecord list"
  lg_next :: nat
  lg_size :: nat
  lg_total :: int
  lg_counts :: "string \<rightharpoonup> int"
  lg_started :: int

section \<open>The log\<close>

definition DefaultCapacity :: int where "DefaultCapacity = 500"

definition NewLog :: "int \<Rightarrow> int \<Rightarrow> decLog" where
  "NewLog now capacity =
     (let cap = (if capacity \<le> 0 then DefaultCapacity else capacity)
      in \<lparr>lg_buf = replicate (nat cap) zeroRecord, lg_next = 0, lg_size = 0, lg_total = 0,
          lg_counts = [Allow \<mapsto> 0, Deny \<mapsto> 0, Quarantine \<mapsto> 0], lg_started = now\<rparr>)"

text \<open>What \<open>Add\<close> makes of a record: a time if it has none, and the next sequence number.\<close>

definition stamp :: "int \<Rightarrow> decLog \<Rightarrow> decRecord \<Rightarrow> decRecord" where
  "stamp now l r =
     r\<lparr>rc_Time := (if rc_Time r = None then Some now else rc_Time r), rc_Seq := lg_total l + 1\<rparr>"

definition countOf :: "(string \<rightharpoonup> int) \<Rightarrow> string \<Rightarrow> int" where
  "countOf m k = (case m k of None \<Rightarrow> 0 | Some v \<Rightarrow> v)"

definition Add :: "int \<Rightarrow> decRecord \<Rightarrow> decLog \<Rightarrow> decLog" where
  "Add now r l =
     (let r' = stamp now l r; n = length (lg_buf l)
      in l\<lparr>lg_total := lg_total l + 1,
           lg_buf := (lg_buf l)[lg_next l := r'],
           lg_next := (lg_next l + 1) mod n,
           lg_size := (if lg_size l < n then lg_size l + 1 else lg_size l),
           lg_counts := (lg_counts l)(rc_Decision r' \<mapsto> countOf (lg_counts l) (rc_Decision r') + 1)\<rparr>)"

text \<open>The slot of the i-th newest record, and the loop of \<open>scan\<close> over such indices.\<close>

definition slot :: "decLog \<Rightarrow> nat \<Rightarrow> decRecord" where
  "slot l i = lg_buf l ! ((lg_next l + length (lg_buf l) - i) mod length (lg_buf l))"

fun scanLoop :: "decLog \<Rightarrow> query \<Rightarrow> int \<Rightarrow> nat list \<Rightarrow> decRecord list \<Rightarrow> decRecord list" where
  "scanLoop l q limit [] out = out"
| "scanLoop l q limit (i # is) out =
     (let r = slot l i
      in if q_Decision q \<noteq> [] \<and> rc_Decision r \<noteq> q_Decision q then scanLoop l q limit is out
         else (let out' = out @ [r]
               in if limit > 0 \<and> int (length out') = limit then out'
                  else scanLoop l q limit is out'))"

definition scan :: "decLog \<Rightarrow> query \<Rightarrow> int \<Rightarrow> decRecord list" where
  "scan l q limit =
     (let start = (if q_Before q > 0 then max 1 (lg_total l - q_Before q + 2) else 1)
      in scanLoop l q limit [nat start..<Suc (lg_size l)] [])"

definition Recent :: "decLog \<Rightarrow> query \<Rightarrow> decRecord list" where
  "Recent l q = scan l q (q_Limit q)"

definition anyQuery :: query where
  "anyQuery = \<lparr>q_Limit = 0, q_Decision = [], q_Before = 0\<rparr>"

definition Get :: "decLog \<Rightarrow> string \<Rightarrow> decRecord option" where
  "Get l rid = find (\<lambda>r. rc_RequestID r = rid) (Recent l anyQuery)"

text \<open>
  The nearest-rank percentile. For the two values of \<open>p\<close> the program uses, the product in
  \<^verbatim>\<open>float64\<close> rounds to the exact integer whenever \<open>p * n\<close> is one, so its ceiling is the
  ceiling of the exact product.
\<close>

definition percentile :: "real list \<Rightarrow> real \<Rightarrow> real" where
  "percentile vs p =
     (if vs = [] then 0
      else (let sorted = sort vs; rank = \<lceil>p * real (length sorted)\<rceil> - 1
            in sorted ! nat (if rank < 0 then 0 else rank)))"

definition StatsOf :: "int \<Rightarrow> decLog \<Rightarrow> stats" where
  "StatsOf now l =
     (let records = Recent l anyQuery;
          by = lg_counts l;
          blocked = countOf by Deny + countOf by Quarantine;
          cutoff = now - 60000000000;
          latencies = map rc_LatencyMs records
      in \<lparr>st_Total = lg_total l, st_ByDecision = by,
          st_BlockRate = (if lg_total l > 0 then real_of_int blocked / real_of_int (lg_total l) else 0),
          st_LatencyP50Ms = percentile latencies (1 / 2),
          st_LatencyP95Ms = percentile latencies (95 / 100),
          st_LastMinute = int (length (filter (\<lambda>r. case rc_Time r of None \<Rightarrow> False
                                                | Some t \<Rightarrow> t > cutoff) records)),
          st_Retained = lg_size l, st_Capacity = length (lg_buf l), st_Since = lg_started l\<rparr>)"

section \<open>Paging\<close>

record page =
  pg_Records :: "decRecord list"
  pg_Next :: int

definition PageOf :: "decLog \<Rightarrow> query \<Rightarrow> page" where
  "PageOf l q =
     (if q_Limit q \<le> 0 then \<lparr>pg_Records = Recent l q, pg_Next = 0\<rparr>
      else
        (let records = scan l q (wrap64 (q_Limit q + 1))
         in if int (length records) \<le> q_Limit q then \<lparr>pg_Records = records, pg_Next = 0\<rparr>
            else (let records' = take (nat (q_Limit q)) records
                  in \<lparr>pg_Records = records', pg_Next = rc_Seq (last records')\<rparr>)))"

section \<open>Sizing\<close>

definition MinCapacity :: int where "MinCapacity = 10"
definition MaxCapacity :: int where "MaxCapacity = 50000"

datatype capacityError = NotAnInteger string | OutsideRange int

definition ParseCapacity :: "string \<Rightarrow> int \<times> capacityError option" where
  "ParseCapacity raw0 =
     (let raw = strTrimSpace raw0
      in if raw = [] then (DefaultCapacity, None)
         else case atoi raw of
           None \<Rightarrow> (DefaultCapacity, Some (NotAnInteger raw))
         | Some n \<Rightarrow> if n < MinCapacity \<or> n > MaxCapacity then (DefaultCapacity, Some (OutsideRange n))
             else (n, None))"

definition NewLogFromEnv :: "'rx golib \<Rightarrow> int \<Rightarrow> decLog" where
  "NewLogFromEnv G now = NewLog now (fst (ParseCapacity (getenv G ''PS_DECISION_LOG_SIZE'')))"

section \<open>Invariant and abstraction\<close>

definition cap :: "decLog \<Rightarrow> nat" where
  "cap l = length (lg_buf l)"

text \<open>The retained records, newest first.\<close>

definition hist :: "decLog \<Rightarrow> decRecord list" where
  "hist l = map (\<lambda>i. slot l (Suc i)) [0..<lg_size l]"

definition logInv :: "decLog \<Rightarrow> bool" where
  "logInv l \<longleftrightarrow> 0 < cap l \<and> lg_next l < cap l \<and> lg_size l \<le> cap l
     \<and> int (lg_size l) \<le> lg_total l \<and> (lg_size l < cap l \<longrightarrow> lg_next l = lg_size l)
     \<and> (\<forall>i \<in> {1..lg_size l}. rc_Seq (slot l i) = lg_total l - int i + 1)"

lemma logInv_NewLog: "logInv (NewLog now c)"
  by (auto simp: logInv_def NewLog_def cap_def DefaultCapacity_def Let_def)

lemma hist_NewLog [simp]: "hist (NewLog now c) = []"
  by (simp add: hist_def NewLog_def Let_def)

lemma length_hist [simp]: "length (hist l) = lg_size l"
  by (simp add: hist_def)

lemma hist_nth: "i < lg_size l \<Longrightarrow> hist l ! i = slot l (Suc i)"
  by (simp add: hist_def)

text \<open>
  Ring arithmetic: after the write position has moved on, the newest record is one step back,
  and what was \<open>i\<close> steps back is one step further away, never the slot just written.
\<close>

lemma ring_succ: "k < n \<Longrightarrow> (k + 1) mod n = (if k + 1 = n then 0 else k + 1)" for k n :: nat
  by (cases "k + 1 = n") simp_all

lemma ring_back_newest: "k < n \<Longrightarrow> ((k + 1) mod n + n - Suc 0) mod n = k" for k n :: nat
  by (auto simp: mod_Suc)

lemma ring_back: "k < n \<Longrightarrow> i < n \<Longrightarrow> (k + n - i) mod n = (if i \<le> k then k - i else k + n - i)"
  for k n i :: nat
proof (cases "i \<le> k")
  case True
  assume "k < n" "i < n"
  from True have "k + n - i = (k - i) + n" by simp
  then have "(k + n - i) mod n = (k - i) mod n" by (simp only: mod_add_self2)
  with True \<open>k < n\<close> show ?thesis by simp
qed simp

lemma ring_back_later:
  assumes "k < n" "1 \<le> i" "i < n"
  shows "((k + 1) mod n + n - Suc i) mod n = (k + n - i) mod n" "(k + n - i) mod n \<noteq> k"
proof -
  show "((k + 1) mod n + n - Suc i) mod n = (k + n - i) mod n"
  proof (cases "k + 1 = n")
    case True
    then have "(k + 1) mod n + n - Suc i = k - i" using assms by simp
    moreover have "k - i < n" "i \<le> k" using True assms by auto
    ultimately show ?thesis using ring_back [OF assms(1,3)] by simp
  next
    case False
    then have "(k + 1) mod n + n - Suc i = k + n - i" using assms(1) by (simp add: ring_succ)
    then show ?thesis by simp
  qed
  show "(k + n - i) mod n \<noteq> k" unfolding ring_back [OF assms(1,3)] using assms by auto
qed

lemma slot_Add_first: "logInv l \<Longrightarrow> slot (Add now r l) (Suc 0) = stamp now l r"
  using ring_back_newest [of "lg_next l" "length (lg_buf l)"]
  by (simp add: slot_def Add_def Let_def logInv_def cap_def)

lemma slot_Add_later:
  assumes "logInv l" "1 \<le> i" "i < cap l"
  shows "slot (Add now r l) (Suc i) = slot l i"
proof -
  have n: "lg_next l < length (lg_buf l)" "i < length (lg_buf l)"
    using assms by (simp_all add: logInv_def cap_def)
  show ?thesis
    using ring_back_later [OF n(1) assms(2) n(2)]
    by (simp add: slot_def Add_def Let_def)
qed

lemma Add_fields [simp]:
  "cap (Add now r l) = cap l" "lg_total (Add now r l) = lg_total l + 1"
  "rc_Seq (stamp now l r) = lg_total l + 1" "rc_Decision (stamp now l r) = rc_Decision r"
  by (auto simp: Add_def cap_def Let_def stamp_def)

lemma size_Add: "logInv l \<Longrightarrow> lg_size (Add now r l) = min (cap l) (lg_size l + 1)"
  by (simp add: logInv_def Add_def cap_def Let_def)

lemma logInv_Add:
  assumes "logInv l"
  shows "logInv (Add now r l)"
proof -
  have b: "0 < cap l" "lg_next l < cap l" "lg_size l \<le> cap l" "int (lg_size l) \<le> lg_total l"
    "lg_size l < cap l \<longrightarrow> lg_next l = lg_size l"
    and s: "\<forall>i \<in> {1..lg_size l}. rc_Seq (slot l i) = lg_total l - int i + 1"
    using assms by (simp_all add: logInv_def)
  have "rc_Seq (slot (Add now r l) i) = lg_total l + 1 - int i + 1"
    if "1 \<le> i" "i \<le> min (cap l) (lg_size l + 1)" for i
  proof (cases "i = 1")
    case True
    then show ?thesis by (simp add: slot_Add_first [OF assms])
  next
    case False
    then obtain j where j: "i = Suc j" "1 \<le> j" using \<open>1 \<le> i\<close> by (cases i) auto
    with that(2) have "j < cap l" "j \<in> {1..lg_size l}" by auto
    with j s slot_Add_later [OF assms j(2)] show ?thesis by simp
  qed
  moreover have "lg_next (Add now r l) = (lg_next l + 1) mod cap l"
    by (simp add: Add_def cap_def Let_def)
  ultimately show ?thesis
    using b size_Add [OF assms] unfolding logInv_def by auto
qed

lemma hist_Add:
  assumes "logInv l"
  shows "hist (Add now r l) = take (cap l) (stamp now l r # hist l)"
proof (rule nth_equalityI)
  have b: "0 < cap l" "lg_size l \<le> cap l" using assms by (simp_all add: logInv_def)
  then show "length (hist (Add now r l)) = length (take (cap l) (stamp now l r # hist l))"
    by (simp add: size_Add [OF assms])
  fix i assume "i < length (hist (Add now r l))"
  then have i: "i < cap l" "i < lg_size l + 1" by (simp_all add: size_Add [OF assms])
  show "hist (Add now r l) ! i = take (cap l) (stamp now l r # hist l) ! i"
  proof (cases i)
    case 0
    with i b show ?thesis by (simp add: hist_nth size_Add [OF assms] slot_Add_first [OF assms])
  next
    case (Suc j)
    with i b slot_Add_later [OF assms, of "Suc j"] show ?thesis
      by (simp add: hist_nth size_Add [OF assms])
  qed
qed

section \<open>The log as an abstract bounded history\<close>

text \<open>What a sequence of additions stores, oldest first.\<close>

fun stampsOf :: "('a \<Rightarrow> 's \<Rightarrow> 's) \<Rightarrow> ('a \<Rightarrow> 's \<Rightarrow> 'r) \<Rightarrow> 'a list \<Rightarrow> 's \<Rightarrow> 'r list" where
  "stampsOf add stamped [] s = []"
| "stampsOf add stamped (a # as) s = stamped a s # stampsOf add stamped as (add a s)"

lemma length_stampsOf [simp]: "length (stampsOf add stamped as s) = length as"
  by (induction as arbitrary: s) simp_all

text \<open>
  The contract: the history is a list, newest first; adding puts the stamped record in front
  and drops what exceeds the capacity.
\<close>

locale bounded_history =
  fixes inv :: "'s \<Rightarrow> bool" and history :: "'s \<Rightarrow> 'r list" and capacity :: "'s \<Rightarrow> nat"
    and add :: "'a \<Rightarrow> 's \<Rightarrow> 's" and stamped :: "'a \<Rightarrow> 's \<Rightarrow> 'r"
  assumes inv_add: "inv s \<Longrightarrow> inv (add a s)"
    and capacity_add: "inv s \<Longrightarrow> capacity (add a s) = capacity s"
    and history_add: "inv s \<Longrightarrow> history (add a s) = take (capacity s) (stamped a s # history s)"
    and history_le: "inv s \<Longrightarrow> length (history s) \<le> capacity s"
begin

lemma inv_fold: "inv s \<Longrightarrow> inv (fold add as s)"
  by (induction as arbitrary: s) (simp_all add: inv_add)

lemma capacity_fold: "inv s \<Longrightarrow> capacity (fold add as s) = capacity s"
  by (induction as arbitrary: s) (simp_all add: inv_add capacity_add)

text \<open>After any sequence of additions the newest ones up to the capacity are kept, in order.\<close>

lemma history_fold:
  "inv s \<Longrightarrow> history (fold add as s) = take (capacity s) (rev (stampsOf add stamped as s) @ history s)"
proof (induction as arbitrary: s)
  case Nil
  then show ?case by (simp add: history_le)
next
  case (Cons a as)
  have "history (fold add (a # as) s) = take (capacity s)
      (rev (stampsOf add stamped as (add a s)) @ take (capacity s) (stamped a s # history s))"
    using Cons by (simp add: inv_add capacity_add history_add)
  also have "\<dots> = take (capacity s) (rev (stampsOf add stamped as (add a s)) @ stamped a s # history s)"
    by (simp add: min.absorb1)
  finally show ?case by simp
qed

end

definition addAt :: "int \<times> decRecord \<Rightarrow> decLog \<Rightarrow> decLog" where
  "addAt = (\<lambda>(now, r). Add now r)"

definition stampAt :: "int \<times> decRecord \<Rightarrow> decLog \<Rightarrow> decRecord" where
  "stampAt = (\<lambda>(now, r) l. stamp now l r)"

interpretation dl: bounded_history logInv hist cap addAt stampAt
  by unfold_locales (auto simp: addAt_def stampAt_def logInv_Add hist_Add, simp add: logInv_def)

section \<open>Queries as filters of the history\<close>

definition matchesQuery :: "query \<Rightarrow> decRecord \<Rightarrow> bool" where
  "matchesQuery q r \<longleftrightarrow> (q_Decision q = [] \<or> rc_Decision r = q_Decision q)
     \<and> (q_Before q > 0 \<longrightarrow> rc_Seq r < q_Before q)"

definition upTo :: "int \<Rightarrow> 'a list \<Rightarrow> 'a list" where
  "upTo limit xs = (if limit > 0 then take (nat limit) xs else xs)"

lemma scanLoop_filter:
  "limit \<le> 0 \<or> int (length out) < limit \<Longrightarrow> scanLoop l q limit is out =
     upTo limit (out @ filter (\<lambda>r. q_Decision q = [] \<or> rc_Decision r = q_Decision q) (map (slot l) is))"
proof (induction "is" arbitrary: out)
  case Nil
  then show ?case by (auto simp: upTo_def)
next
  case (Cons i "is")
  let ?P = "\<lambda>r. q_Decision q = [] \<or> rc_Decision r = q_Decision q"
  show ?case
  proof (cases "?P (slot l i) \<and> limit > 0 \<and> int (length out) + 1 = limit")
    case True
    then have "nat limit = Suc (length out)" by linarith
    with True show ?thesis by (auto simp: upTo_def Let_def)
  next
    case False
    show ?thesis
    proof (cases "?P (slot l i)")
      case True
      with False Cons.prems have "limit \<le> 0 \<or> int (length (out @ [slot l i])) < limit" by auto
      from Cons.IH [OF this] True False show ?thesis by (auto simp: Let_def)
    next
      case False
      with Cons.IH [OF Cons.prems] show ?thesis by (simp add: Let_def)
    qed
  qed
qed

lemma hist_alt: "hist l = map (slot l) [1..<Suc (lg_size l)]"
  unfolding hist_def by (simp add: map_Suc_upt [symmetric] del: upt_Suc)

lemma filter_upt_ge: "filter (\<lambda>i. k \<le> i) [a..<b] = [max a k..<b]" for k a b :: nat
proof (induction b)
  case (Suc b)
  then show ?case by (auto simp: max_def)
qed simp

lemma hist_before:
  assumes "logInv l" "b > 0"
  shows "map (slot l) [nat (max 1 (lg_total l - b + 2))..<Suc (lg_size l)]
    = filter (\<lambda>r. rc_Seq r < b) (hist l)"
proof -
  let ?k = "nat (max 1 (lg_total l - b + 2))"
  have "filter (\<lambda>i. rc_Seq (slot l i) < b) [1..<Suc (lg_size l)]
      = filter (\<lambda>i. ?k \<le> i) [1..<Suc (lg_size l)]"
    using assms(1) by (intro filter_cong) (auto simp: logInv_def)
  also have "\<dots> = [?k..<Suc (lg_size l)]" unfolding filter_upt_ge by (simp add: max_absorb2)
  finally show ?thesis by (simp add: hist_alt filter_map o_def del: upt_Suc)
qed

lemma scan_filter:
  assumes "logInv l"
  shows "scan l q limit = upTo limit (filter (matchesQuery q) (hist l))"
proof (cases "q_Before q > 0")
  case True
  have "limit \<le> 0 \<or> int (length ([] :: decRecord list)) < limit" by auto
  from scanLoop_filter [OF this] show ?thesis
    using hist_before [OF assms True] True
    by (simp add: scan_def matchesQuery_def [abs_def] conj_commute del: upt_Suc)
next
  case False
  have "limit \<le> 0 \<or> int (length ([] :: decRecord list)) < limit" by auto
  from scanLoop_filter [OF this] show ?thesis
    using False by (simp add: scan_def matchesQuery_def [abs_def] hist_alt del: upt_Suc)
qed

section \<open>Pages\<close>

lemma hist_seq: "logInv l \<Longrightarrow> i < lg_size l \<Longrightarrow> rc_Seq (hist l ! i) = lg_total l - int i"
  by (simp add: hist_nth logInv_def)

lemma hist_sorted: "logInv l \<Longrightarrow> sorted_wrt (\<lambda>r r'. rc_Seq r > rc_Seq r') (hist l)"
  by (simp add: sorted_wrt_iff_nth_less hist_seq)

lemma hist_range:
  assumes "logInv l" "r \<in> set (hist l)"
  shows "0 < rc_Seq r \<and> rc_Seq r \<le> lg_total l"
proof -
  obtain i where "i < lg_size l" "r = hist l ! i" using assms(2) by (auto simp: in_set_conv_nth)
  with assms(1) show ?thesis by (auto simp: hist_seq logInv_def)
qed

lemma PageOf_spec:
  assumes "logInv l" "0 < q_Limit q" "q_Limit q < 2 ^ 63" "int (lg_size l) < 2 ^ 63"
  shows "PageOf l q = (let ms = filter (matchesQuery q) (hist l); n = nat (q_Limit q)
     in \<lparr>pg_Records = take n ms, pg_Next = (if length ms \<le> n then 0 else rc_Seq (last (take n ms)))\<rparr>)"
proof -
  let ?ms = "filter (matchesQuery q) (hist l)" and ?n = "nat (q_Limit q)"
  have len: "length ?ms \<le> lg_size l" using length_filter_le [of "matchesQuery q" "hist l"] by simp
  have w: "upTo (wrap64 (q_Limit q + 1)) ?ms = (if q_Limit q + 1 < 2 ^ 63 then take (Suc ?n) ?ms else ?ms)"
  proof (cases "q_Limit q + 1 < 2 ^ 63")
    case True
    then have "wrap64 (q_Limit q + 1) = q_Limit q + 1" using assms(2) by (intro wrap64_id) auto
    moreover have "nat (q_Limit q + 1) = Suc ?n" using assms(2) by simp
    ultimately show ?thesis using True assms(2) by (simp add: upTo_def)
  next
    case False
    then have "q_Limit q + 1 = 2 ^ 63" using assms(3) by simp
    then have "wrap64 (q_Limit q + 1) < 0" by (simp add: wrap64_def)
    with False show ?thesis by (simp add: upTo_def)
  qed
  have small: "length ?ms \<le> ?n" if "\<not> q_Limit q + 1 < 2 ^ 63"
    using that len assms(3,4) by linarith
  have lim: "int (length xs) \<le> q_Limit q \<longleftrightarrow> length xs \<le> ?n" for xs :: "decRecord list"
    using assms(2) by (simp add: le_nat_iff)
  have big: "take ?n (take (Suc ?n) ?ms) = take ?n ?ms" by (simp add: min_def)
  show ?thesis
  proof (cases "length ?ms \<le> ?n")
    case True
    then show ?thesis
      using assms(2) w small by (simp add: PageOf_def scan_filter [OF assms(1)] Let_def lim)
  next
    case False
    with small have "q_Limit q + 1 < 2 ^ 63" by blast
    with False assms(2) w big show ?thesis
      by (simp add: PageOf_def scan_filter [OF assms(1)] Let_def lim)
  qed
qed

text \<open>
  Following the cursor from page to page. With \<^const>\<open>None\<close> the cursor still named another page
  when the \<open>n\<close> pages asked for were used up.
\<close>

fun allPages :: "nat \<Rightarrow> decLog \<Rightarrow> query \<Rightarrow> decRecord list option" where
  "allPages 0 l q = None"
| "allPages (Suc n) l q =
     (let p = PageOf l q
      in if pg_Next p = 0 then Some (pg_Records p)
         else map_option ((@) (pg_Records p)) (allPages n l (q\<lparr>q_Before := pg_Next p\<rparr>)))"

text \<open>In a strictly descending list, what is below the n-th element is what follows it.\<close>

lemma descending_drop:
  assumes "sorted_wrt (\<lambda>r r'. f r > (f r' :: int)) xs" "n < length xs"
  shows "filter (\<lambda>r. f r < f (xs ! n)) xs = drop (Suc n) xs"
proof -
  have "\<not> f r < f (xs ! n)" if r: "r \<in> set (take (Suc n) xs)" for r
  proof -
    obtain i where i: "i < Suc n" "i < length xs" "r = xs ! i"
      using r by (auto simp: in_set_conv_nth)
    then have "i = n \<or> f (xs ! n) < f (xs ! i)" using assms by (auto simp: sorted_wrt_iff_nth_less less_Suc_eq)
    with i show ?thesis by auto
  qed
  then have "filter (\<lambda>r. f r < f (xs ! n)) (take (Suc n) xs) = []" by (simp add: filter_empty_conv)
  moreover have "filter (\<lambda>r. f r < f (xs ! n)) (drop (Suc n) xs) = drop (Suc n) xs"
    using assms by (auto simp: filter_id_conv in_set_conv_nth sorted_wrt_iff_nth_less)
  ultimately show ?thesis
    by (metis append_Nil append_take_drop_id filter_append)
qed

lemma allPages_filter:
  assumes "logInv l" "0 < q_Limit q" "q_Limit q < 2 ^ 63" "int (lg_size l) < 2 ^ 63"
  shows "0 \<le> q_Before q \<Longrightarrow> length (filter (matchesQuery q) (hist l)) < n
    \<Longrightarrow> allPages n l q = Some (filter (matchesQuery q) (hist l))"
  using assms(2,3)
proof (induction n arbitrary: q)
  case (Suc n)
  let ?ms = "filter (matchesQuery q) (hist l)" and ?k = "nat (q_Limit q)"
  note spec = PageOf_spec [OF assms(1) Suc.prems(3,4) assms(4)]
  show ?case
  proof (cases "length ?ms \<le> ?k")
    case True
    then show ?thesis by (simp add: spec Let_def)
  next
    case False
    obtain m where m: "?k = Suc m" using Suc.prems(3) by (cases ?k) auto
    with False have lt: "m < length ?ms" by simp
    let ?b = "rc_Seq (?ms ! m)" and ?q = "q\<lparr>q_Before := rc_Seq (?ms ! m)\<rparr>"
    have b: "last (take ?k ?ms) = ?ms ! m" using lt by (simp add: m take_Suc_conv_app_nth)
    have mem: "?ms ! m \<in> set ?ms" using lt by (rule nth_mem)
    then have pos: "0 < ?b" using hist_range [OF assms(1)] by simp
    from mem have mb: "q_Before q > 0 \<longrightarrow> ?b < q_Before q" by (auto simp: matchesQuery_def)
    have "filter (matchesQuery ?q) (hist l) = filter (\<lambda>r. rc_Seq r < ?b) ?ms"
      unfolding filter_filter using pos mb by (intro filter_cong) (auto simp: matchesQuery_def)
    also have "\<dots> = drop (Suc m) ?ms"
      using hist_sorted [OF assms(1)] lt by (intro descending_drop sorted_wrt_filter)
    finally have rest: "filter (matchesQuery ?q) (hist l) = drop ?k ?ms" by (simp add: m)
    have "allPages n l ?q = Some (drop ?k ?ms)"
      using Suc.IH [of ?q] rest pos Suc.prems(2-4) False m by simp
    moreover have "allPages (Suc n) l q = map_option ((@) (take ?k ?ms)) (allPages n l ?q)"
      using False pos b by (simp add: spec Let_def)
    ultimately show ?thesis by simp
  qed
qed simp

lemma stamps_later: "r \<in> set (stampsOf addAt stampAt rs l) \<Longrightarrow> lg_total l < rc_Seq r"
proof (induction rs arbitrary: l)
  case (Cons a rs)
  have "rc_Seq (stampAt a l) = lg_total l + 1" "lg_total (addAt a l) = lg_total l + 1"
    by (cases a; simp add: addAt_def stampAt_def)+
  with Cons show ?case by fastforce
qed simp

section \<open>Properties\<close>

text \<open>For the witnesses: requests named by number and a log of capacity 2.\<close>

definition req :: "nat \<Rightarrow> decRecord" where
  "req i = zeroRecord\<lparr>rc_RequestID := natToStr i, rc_Decision := Deny\<rparr>"

lemma cap_NewLog [simp]: "cap (NewLog now (numeral k)) = numeral k"
  by (simp add: cap_def NewLog_def)

text \<open>
  C10. The ring refines a bounded history. Whatever records are added to a log in a consistent
  state, the state stays consistent, and the retained records, newest first, are the added ones
  in reverse order followed by the older ones, cut at the capacity. The abstract history
  forgets the write position, the wrap-around and the reuse of slots.
\<close>

theorem Add_refines_history:
  assumes "logInv l"
  shows "logInv (fold addAt rs l) \<and> cap (fold addAt rs l) = cap l
    \<and> hist (fold addAt rs l) = take (cap l) (rev (stampsOf addAt stampAt rs l) @ hist l)"
  using dl.inv_fold [OF assms] dl.capacity_fold [OF assms] dl.history_fold [OF assms] by blast

theorem Add_refines_history_witness:
  "map rc_Seq (hist (fold addAt [(5, req 1), (6, req 2), (7, req 3)] (NewLog 0 2))) = [3, 2]"
proof -
  have "hist (fold addAt [(5, req 1), (6, req 2), (7, req 3)] (NewLog 0 2))
      = take 2 (rev (stampsOf addAt stampAt [(5, req 1), (6, req 2), (7, req 3)] (NewLog 0 2)))"
    using Add_refines_history [OF logInv_NewLog, of "[(5, req 1), (6, req 2), (7, req 3)]" 0 2] by simp
  then show ?thesis by (simp add: addAt_def stampAt_def) (simp add: NewLog_def)
qed

text \<open>
  A listing is the retained history filtered by the query and cut at its limit: sequence
  numbers below the cursor and the decision asked for, newest first; zero or a negative limit
  means all.
\<close>

theorem Recent_spec:
  assumes "logInv l"
  shows "Recent l q = upTo (q_Limit q) (filter (matchesQuery q) (hist l))"
  using scan_filter [OF assms] by (simp add: Recent_def)

theorem Recent_spec_witness:
  "Recent (NewLog 0 2) anyQuery = upTo 0 (filter (matchesQuery anyQuery) (hist (NewLog 0 2)))"
  using Recent_spec [OF logInv_NewLog, of 0 2 anyQuery] by (simp add: anyQuery_def)

text \<open>
  Paging is complete and ends: following the cursors of \<open>PageOf\<close> gives exactly the matching
  retained records, each once and in order, for any positive limit (the largest one included,
  where the limit plus one wraps around), within as many pages as there are records plus one.
\<close>

theorem allPages_complete:
  assumes "logInv l" "0 < q_Limit q" "q_Limit q < 2 ^ 63" "int (lg_size l) < 2 ^ 63" "0 \<le> q_Before q"
  shows "allPages (Suc (lg_size l)) l q = Some (filter (matchesQuery q) (hist l))"
proof -
  have "length (filter (matchesQuery q) (hist l)) < Suc (lg_size l)"
    using length_filter_le [of "matchesQuery q" "hist l"] by simp
  from allPages_filter [OF assms(1-4,5) this] show ?thesis .
qed

theorem allPages_complete_witness:
  "let l = fold addAt [(5, req 1), (6, req 2), (7, req 3)] (NewLog 0 2);
       q = \<lparr>q_Limit = 1, q_Decision = Deny, q_Before = 0\<rparr>
   in allPages (Suc (lg_size l)) l q = Some (filter (matchesQuery q) (hist l))"
proof -
  let ?l = "fold addAt [(5, req 1), (6, req 2), (7, req 3)] (NewLog 0 2)"
  have i: "logInv ?l" by (rule dl.inv_fold) (rule logInv_NewLog)
  then have "lg_size ?l \<le> 2"
    using dl.capacity_fold [OF logInv_NewLog, of "[(5, req 1), (6, req 2), (7, req 3)]" 0 2]
    by (simp add: logInv_def)
  with i show ?thesis
    using allPages_complete [OF i, of "\<lparr>q_Limit = 1, q_Decision = Deny, q_Before = 0\<rparr>"] by simp
qed

text \<open>
  A cursor is stable: when records are added after a page was taken, a listing that resumes
  at its cursor shows the same records as before, less those that were evicted in between.
\<close>

theorem cursor_stable:
  assumes "logInv l" "0 < q_Before q" "q_Before q \<le> lg_total l + 1"
  shows "Recent (fold addAt rs l) q
    = upTo (q_Limit q) (filter (matchesQuery q) (take (cap l - length rs) (hist l)))"
proof -
  have "\<forall>r \<in> set (stampsOf addAt stampAt rs l). lg_total l < rc_Seq r"
    using stamps_later by blast
  then have none: "filter (matchesQuery q) (rev (stampsOf addAt stampAt rs l)) = []"
    using assms(2,3) by (auto simp: filter_empty_conv matchesQuery_def)
  have "hist (fold addAt rs l) = take (cap l) (rev (stampsOf addAt stampAt rs l)) @ take (cap l - length rs) (hist l)"
    using dl.history_fold [OF assms(1), of rs] by simp
  moreover have "filter (matchesQuery q) (take (cap l) (rev (stampsOf addAt stampAt rs l))) = []"
    using none by (auto simp: filter_empty_conv dest: in_set_takeD)
  ultimately show ?thesis
    using scan_filter [OF dl.inv_fold [OF assms(1)]] by (simp add: Recent_def)
qed

theorem cursor_stable_witness:
  "Recent (fold addAt [(9, req 3)] (fold addAt [(5, req 1), (6, req 2)] (NewLog 0 2)))
     \<lparr>q_Limit = 0, q_Decision = [], q_Before = 3\<rparr>
   = filter (matchesQuery \<lparr>q_Limit = 0, q_Decision = [], q_Before = 3\<rparr>)
       (take 1 (hist (fold addAt [(5, req 1), (6, req 2)] (NewLog 0 2))))"
proof -
  let ?l = "fold addAt [(5, req 1), (6, req 2)] (NewLog 0 2)"
  have "lg_total ?l = 2" by (simp add: addAt_def) (simp add: NewLog_def)
  moreover have "cap ?l = 2" by (simp add: addAt_def)
  ultimately show ?thesis
    using cursor_stable [OF dl.inv_fold [OF logInv_NewLog, of "[(5, req 1), (6, req 2)]" 0 2],
        of "\<lparr>q_Limit = 0, q_Decision = [], q_Before = 3\<rparr>" "[(9, req 3)]"]
    by (simp add: upTo_def del: fold.simps)
qed

lemma Get_Add:
  assumes "logInv l"
  shows "Get (Add now r l) (rc_RequestID r) = Some (stamp now l r)"
proof -
  obtain n where n: "cap l = Suc n" using assms by (cases "cap l") (auto simp: logInv_def)
  have "Recent (Add now r l) anyQuery = hist (Add now r l)"
    using scan_filter [OF logInv_Add [OF assms]]
    by (simp add: Recent_def anyQuery_def upTo_def matchesQuery_def [abs_def])
  then show ?thesis
    by (simp add: Get_def hist_Add [OF assms] n stamp_def)
qed

text \<open>
  A record just added is found under its request id, stamped with the next sequence number,
  whatever the log held before.
\<close>

theorem Get_after_Add:
  assumes "logInv l"
  shows "Get (Add now r l) (rc_RequestID r) = Some (stamp now l r)"
  by (rule Get_Add [OF assms])

theorem Get_after_Add_witness:
  "Get (Add 7 (req 4) (NewLog 0 2)) (rc_RequestID (req 4)) = Some (stamp 7 (NewLog 0 2) (req 4))"
  by (rule Get_after_Add) (rule logInv_NewLog)

text \<open>
  The counters are lifetime totals: after any additions to a new log the total is the number
  of records added, and the counter of a decision is the number of those with that decision,
  however many were evicted.
\<close>

theorem counts_lifetime:
  "lg_total (fold addAt rs (NewLog now c)) = int (length rs)
   \<and> countOf (lg_counts (fold addAt rs (NewLog now c))) d
     = int (length (filter (\<lambda>(_, r). rc_Decision r = d) rs))"
proof -
  have add: "countOf (lg_counts (addAt a l)) d
      = countOf (lg_counts l) d + (if rc_Decision (snd a) = d then 1 else 0)"
    "lg_total (addAt a l) = lg_total l + 1" for a l
    by (cases a; simp add: addAt_def Add_def Let_def countOf_def stamp_def)+
  have "lg_total (fold addAt rs l) = lg_total l + int (length rs)
      \<and> countOf (lg_counts (fold addAt rs l)) d
        = countOf (lg_counts l) d + int (length (filter (\<lambda>(_, r). rc_Decision r = d) rs))" for l
    by (induction rs arbitrary: l) (auto simp: add split_def)
  moreover have "lg_total (NewLog now c) = 0" "countOf (lg_counts (NewLog now c)) d = 0"
    by (simp_all add: NewLog_def Let_def countOf_def)
  ultimately show ?thesis by simp
qed

text \<open>
  The capacity read from the environment is always between 10 and 50000, whatever the
  variable holds; a decimal number in that range is taken as it is, and every other non-blank
  text is reported and replaced by the default.
\<close>

theorem ParseCapacity_spec:
  "MinCapacity \<le> fst (ParseCapacity raw) \<and> fst (ParseCapacity raw) \<le> MaxCapacity
   \<and> (snd (ParseCapacity raw) = None \<longleftrightarrow> strTrimSpace raw = []
        \<or> (\<exists>n. atoi (strTrimSpace raw) = Some n \<and> MinCapacity \<le> n \<and> n \<le> MaxCapacity
             \<and> fst (ParseCapacity raw) = n))"
  by (auto simp: ParseCapacity_def Let_def DefaultCapacity_def MinCapacity_def MaxCapacity_def
      split: option.split)

end
