(* ===== verification/Rulesets.thy ===== *)
theory Rulesets
  imports Rules_Types
begin

text \<open>
  The rule packs in force at runtime: \<^verbatim>\<open>internal/application/rulesets\<close> (\<^verbatim>\<open>set.go\<close>,
  \<^verbatim>\<open>snapshot.go\<close>). A listener is a function on the state of the rest of the program, which is
  the type parameter. The loader is an argument: the program passes \<^verbatim>\<open>rules.LoadPacks\<close>.
\<close>

section \<open>Data\<close>

record ruleSummary =
  rsm_ID :: string
  rsm_Name :: string
  rsm_Level :: int
  rsm_Severity :: string
  rsm_Category :: string
  rsm_Action :: string
  rsm_Enabled :: bool
  rsm_Keywords :: nat
  rsm_Patterns :: nat

record packSummary =
  psm_Name :: string
  psm_Version :: string
  psm_Description :: string
  psm_Rules :: "ruleSummary list"

record snapshot =
  sn_Source :: string
  sn_LoadedAt :: "int option"
  sn_Generation :: int
  sn_RuleCount :: nat
  sn_Packs :: "packSummary list"

type_synonym 'w listener = "rulePack list \<Rightarrow> 'w \<Rightarrow> 'w"

record 'w ruleSet =
  set_path :: string
  set_packs :: "rulePack list"
  set_loadedAt :: "int option"
  set_generation :: int
  set_listeners :: "'w listener list"

datatype reloadError = ErrNoSource | LoadError string string

section \<open>Operations\<close>

definition summarizeRule :: "rule \<Rightarrow> ruleSummary" where
  "summarizeRule r = \<lparr>rsm_ID = r_ID r, rsm_Name = r_Name r, rsm_Level = r_Level r,
     rsm_Severity = r_Severity r, rsm_Category = r_Category r,
     rsm_Action = (case r_Response r of None \<Rightarrow> [] | Some resp \<Rightarrow> rs_Action resp),
     rsm_Enabled = (case r_Enabled r of None \<Rightarrow> True | Some b \<Rightarrow> b),
     rsm_Keywords = length (r_Keywords r), rsm_Patterns = length (r_Patterns r)\<rparr>"

definition summarizePack :: "rulePack \<Rightarrow> packSummary" where
  "summarizePack p = \<lparr>psm_Name = m_Name (p_Metadata p), psm_Version = m_Version (p_Metadata p),
     psm_Description = m_Description (p_Metadata p), psm_Rules = map summarizeRule (p_Rules p)\<rparr>"

definition Snapshot :: "'w ruleSet \<Rightarrow> snapshot" where
  "Snapshot s = \<lparr>sn_Source = set_path s, sn_LoadedAt = set_loadedAt s, sn_Generation = set_generation s,
     sn_RuleCount = sum_list (map (\<lambda>p. length (psm_Rules (summarizePack p))) (set_packs s)),
     sn_Packs = map summarizePack (set_packs s)\<rparr>"

definition OnChange :: "'w listener \<Rightarrow> 'w ruleSet \<Rightarrow> 'w ruleSet" where
  "OnChange f s = s\<lparr>set_listeners := set_listeners s @ [f]\<rparr>"

definition notify :: "'w listener list \<Rightarrow> rulePack list \<Rightarrow> 'w \<Rightarrow> 'w" where
  "notify fs packs w = foldl (\<lambda>w f. f packs w) w fs"

text \<open>The set, the world, the snapshot returned and the error.\<close>

definition Reload :: "(string \<Rightarrow> string + rulePack list) \<Rightarrow> int \<Rightarrow> 'w ruleSet \<times> 'w
    \<Rightarrow> ('w ruleSet \<times> 'w) \<times> snapshot \<times> reloadError option" where
  "Reload load now = (\<lambda>(s, w).
     if set_path s = [] then ((s, w), Snapshot s, Some ErrNoSource)
     else case load (set_path s) of
       Inl e \<Rightarrow> ((s, w), Snapshot s, Some (LoadError (set_path s) e))
     | Inr packs \<Rightarrow>
         (let s' = s\<lparr>set_packs := packs, set_loadedAt := Some now, set_generation := set_generation s + 1\<rparr>
          in ((s', notify (set_listeners s') packs w), Snapshot s', None)))"

definition NewSetWithLoader :: "(string \<Rightarrow> string + rulePack list) \<Rightarrow> int \<Rightarrow> string \<Rightarrow> 'w
    \<Rightarrow> ('w ruleSet \<times> 'w) \<times> reloadError option" where
  "NewSetWithLoader load now path w =
     (let s = \<lparr>set_path = path, set_packs = [], set_loadedAt = None, set_generation = 0, set_listeners = []\<rparr>
      in if path = [] then ((s, w), None)
         else (let (sw, _, err) = Reload load now (s, w) in (sw, err)))"

section \<open>Sequences of reloads\<close>

text \<open>The loads of a run, in order: what the loader answered and when.\<close>

definition reloads :: "((string + rulePack list) \<times> int) list \<Rightarrow> 'w ruleSet \<times> 'w \<Rightarrow> 'w ruleSet \<times> 'w" where
  "reloads evs sw = foldl (\<lambda>sw (r, now). fst (Reload (\<lambda>_. r) now sw)) sw evs"

definition goodLoads :: "((string + rulePack list) \<times> int) list \<Rightarrow> rulePack list list" where
  "goodLoads evs = concat (map (\<lambda>(r, _). case r of Inl _ \<Rightarrow> [] | Inr packs \<Rightarrow> [packs]) evs)"

lemma reloads_spec:
  assumes "set_path s \<noteq> []" "reloads evs (s, w) = (s', w')"
  shows "set_packs s' = last (set_packs s # goodLoads evs)
    \<and> set_generation s' = set_generation s + int (length (goodLoads evs))
    \<and> set_listeners s' = set_listeners s \<and> set_path s' = set_path s
    \<and> w' = foldl (\<lambda>w packs. notify (set_listeners s) packs w) w (goodLoads evs)"
  using assms
proof (induction evs arbitrary: s w)
  case Nil
  then show ?case by (simp add: reloads_def goodLoads_def)
next
  case (Cons ev evs)
  obtain r now where ev: "ev = (r, now)" by fastforce
  show ?case
  proof (cases r)
    case (Inl e)
    with Cons.prems ev have "reloads evs (s, w) = (s', w')" by (simp add: reloads_def Reload_def)
    from Cons.IH [OF Cons.prems(1) this] Inl ev show ?thesis by (simp add: goodLoads_def)
  next
    case (Inr packs)
    let ?s = "s\<lparr>set_packs := packs, set_loadedAt := Some now, set_generation := set_generation s + 1\<rparr>"
    from Inr Cons.prems ev have r: "reloads evs (?s, notify (set_listeners s) packs w) = (s', w')"
      by (simp add: reloads_def Reload_def Let_def)
    have "set_path ?s \<noteq> []" using Cons.prems(1) by simp
    from Cons.IH [OF this r] Inr ev show ?thesis by (simp add: goodLoads_def)
  qed
qed

section \<open>Properties\<close>

text \<open>
  C28. After any sequence of reloads, failed ones included, the active packs are those of the
  last successful load (or the ones there were before), the generation counts the successful
  loads, and every listener was run, in order of registration, with the packs of each
  successful load and for no failed one.
\<close>

theorem reloads_last_good:
  assumes "set_path s \<noteq> []"
  shows "case reloads evs (s, w) of (s', w') \<Rightarrow>
    set_packs s' = last (set_packs s # goodLoads evs)
    \<and> set_generation s' = set_generation s + int (length (goodLoads evs))
    \<and> w' = foldl (\<lambda>w packs. notify (set_listeners s) packs w) w (goodLoads evs)"
proof -
  obtain s' w' where r: "reloads evs (s, w) = (s', w')" by fastforce
  from reloads_spec [OF assms r] show ?thesis unfolding r by simp
qed

theorem reloads_last_good_witness:
  "case reloads [(Inr [zeroPack], 5), (Inl ''no such file'', 6)]
      (\<lparr>set_path = ''p'', set_packs = [], set_loadedAt = None, set_generation = 0,
        set_listeners = [\<lambda>packs w. w + length packs]\<rparr>, 0) of
    (s', w') \<Rightarrow> set_packs s' = [zeroPack] \<and> set_generation s' = 1 \<and> w' = 1"
  using reloads_last_good [of "\<lparr>set_path = ''p'', set_packs = [], set_loadedAt = None, set_generation = 0,
      set_listeners = [\<lambda>packs w. w + length packs]\<rparr>" "[(Inr [zeroPack], 5), (Inl ''no such file'', 6)]" 0]
  by (simp add: goodLoads_def notify_def split: prod.split_asm)

definition blankTerms :: "rule \<Rightarrow> rule" where
  "blankTerms r = r\<lparr>r_Keywords := replicate (length (r_Keywords r)) [],
     r_Patterns := replicate (length (r_Patterns r)) \<lparr>pt_Name = [], pt_Regex = [], pt_Flags = [], pt_Verifier = []\<rparr>,
     r_Semantic := None, r_Fallback := None\<rparr>"

text \<open>
  The snapshot that is shown to operators depends on a rule's match terms only through their
  number: packs that differ in the texts of keywords and patterns alone give the same snapshot.
\<close>

theorem Snapshot_hides_terms:
  "Snapshot (s\<lparr>set_packs := map (\<lambda>p. p\<lparr>p_Rules := map blankTerms (p_Rules p)\<rparr>) (set_packs s)\<rparr>) = Snapshot s"
proof -
  have "summarizeRule (blankTerms r) = summarizeRule r" for r
    by (simp add: summarizeRule_def blankTerms_def)
  then show ?thesis by (simp add: Snapshot_def summarizePack_def o_def)
qed

end
