(* ===== verification/Rules_Validate.thy ===== *)
theory Rules_Validate
  imports Rules_Complexity
begin

text \<open>
  Validation of a rule pack: \<^verbatim>\<open>internal/rules/validate.go\<close> and \<^verbatim>\<open>loader_validate.go\<close>. The YAML
  library and the JSON-schema validator are third-party: the generic value of the pack and the
  validator's verdict on it are parameters. A validator error is a tree of causes; any other
  error is its text.
\<close>

section \<open>Generic values\<close>

text \<open>A decoded YAML value; \<open>YMap\<close> is \<^verbatim>\<open>map[string]any\<close>, \<open>YAnyMap\<close> is \<^verbatim>\<open>map[any]any\<close>.\<close>

datatype yaml =
    YNull
  | YScalar string
  | YMap "(string \<times> yaml) list"
  | YAnyMap "(yaml \<times> yaml) list"
  | YSeq "yaml list"

fun pruneNulls :: "yaml \<Rightarrow> yaml" where
  "pruneNulls (YMap kvs) =
     YMap (map (\<lambda>(k, v). (k, pruneNulls v)) (filter (\<lambda>kv. snd kv \<noteq> YNull) kvs))"
| "pruneNulls (YAnyMap kvs) =
     YAnyMap (map (\<lambda>(k, v). (k, pruneNulls v)) (filter (\<lambda>kv. snd kv \<noteq> YNull) kvs))"
| "pruneNulls (YSeq xs) = YSeq (map pruneNulls xs)"
| "pruneNulls v = v"

section \<open>Schema errors\<close>

datatype valErr = VErr (ve_loc: string) (ve_msg: string) (ve_text: string) (ve_causes: "valErr list")

datatype schemaErr = SchemaErr valErr | OtherErr string

definition unescapePointer :: "string \<Rightarrow> string" where
  "unescapePointer p = strReplaceAll ''~0'' ''~'' (strReplaceAll ''~1'' ''/'' p)"

definition normalizeInstanceLocation :: "string \<Rightarrow> string" where
  "normalizeInstanceLocation ptr0 =
     (if ptr0 = [] \<or> ptr0 = ''#'' then ''#''
      else (let ptr = trimPrefix (trimPrefix ptr0 ''#'') ''/''
            in if ptr = [] then ''#''
               else strJoin ''.'' (map unescapePointer (strSplit (CHR ''/'') ptr))))"

fun leafErrors :: "valErr \<Rightarrow> string list" where
  "leafErrors (VErr loc msg descr causes) =
     (if causes = [] then
        (let l = normalizeInstanceLocation loc;
             l' = (if l = [] then ''#'' else l);
             m = (if msg = [] then descr else msg)
         in [l' @ '': '' @ m])
      else concat (map leafErrors causes))"

definition flattenValidationError :: "schemaErr \<Rightarrow> string list" where
  "flattenValidationError err = (case err of SchemaErr ve \<Rightarrow> leafErrors ve | OtherErr e \<Rightarrow> [e])"

section \<open>ValidatePack\<close>

datatype ruleError =
    SchemaViolation string
  | SchemaCompileError string
  | MissingId
  | DuplicateId string
  | NeedsKeywords string
  | NeedsPatterns string
  | RegexTooLong string
  | RegexError string string
  | RegexComplexity string string
  | InvalidTimeout string string
  | NeedsSemantic string
  | NeedsModel string
  | InvalidLevel string int

text \<open>
  The schema check: \<open>sch\<close> is the compiled schema or the compile error, \<open>source\<close> the value
  decoded from the source file (\<open>None\<close> when there is no readable file or it decodes to nil) and
  \<open>encoded\<close> the value the pack itself encodes to.
\<close>

definition schemaErrors :: "(string + (yaml \<Rightarrow> schemaErr option)) \<Rightarrow> yaml option \<Rightarrow> yaml \<Rightarrow> ruleError list" where
  "schemaErrors sch source encoded =
     (case sch of
        Inl e \<Rightarrow> [SchemaCompileError e]
      | Inr validate \<Rightarrow>
          (case validate (pruneNulls (case source of Some g \<Rightarrow> g | None \<Rightarrow> encoded)) of
             None \<Rightarrow> []
           | Some err \<Rightarrow> map SchemaViolation (flattenValidationError err)))"

fun idErrors :: "string set \<Rightarrow> rule list \<Rightarrow> ruleError list" where
  "idErrors seen [] = []"
| "idErrors seen (r # rs) =
     (if r_ID r = [] then MissingId # idErrors seen rs
      else if r_ID r \<in> seen then DuplicateId (r_ID r) # idErrors (insert (r_ID r) seen) rs
      else idErrors (insert (r_ID r) seen) rs)"

definition patternErrors :: "'rx golib \<Rightarrow> string \<Rightarrow> pattern \<Rightarrow> ruleError list" where
  "patternErrors G rid pat =
     (if length (pt_Regex pat) > 1000 then [RegexTooLong rid]
      else case compileRegexStrict G (pt_Regex pat) (pt_Flags pat) of
        Inl e \<Rightarrow> [RegexError rid e]
      | Inr _ \<Rightarrow>
          (case CheckRegexComplexity G (pt_Regex pat) (pt_Flags pat) of
             Some e \<Rightarrow> [RegexComplexity rid e]
           | None \<Rightarrow> []))"

definition levelErrors :: "'rx golib \<Rightarrow> rule \<Rightarrow> ruleError list" where
  "levelErrors G r =
     (if r_Level r = 1 then (if r_Keywords r = [] then [NeedsKeywords (r_ID r)] else [])
      else if r_Level r = 2 then
        (if r_Patterns r = [] then [NeedsPatterns (r_ID r)] else [])
        @ concat (map (patternErrors G (r_ID r)) (r_Patterns r))
        @ (if r_Timeout r \<noteq> [] \<and> parseDuration G (r_Timeout r) = None
           then [InvalidTimeout (r_ID r) (r_Timeout r)] else [])
      else if r_Level r = 3 then
        (case r_Semantic r of
           None \<Rightarrow> [NeedsSemantic (r_ID r)]
         | Some sem \<Rightarrow> if strTrimSpace (s_Model sem) = [] then [NeedsModel (r_ID r)] else [])
      else [InvalidLevel (r_ID r) (r_Level r)])"

definition ValidatePack :: "'rx golib \<Rightarrow> (string + (yaml \<Rightarrow> schemaErr option)) \<Rightarrow> yaml option
    \<Rightarrow> (rulePack \<Rightarrow> yaml) \<Rightarrow> rulePack \<Rightarrow> ruleError list" where
  "ValidatePack G sch source encode p =
     schemaErrors sch source (encode p)
     @ idErrors {} (p_Rules p)
     @ concat (map (levelErrors G) (p_Rules p))"

section \<open>Supported features\<close>

datatype featureError = UnsupportedStrategy string | UnsupportedLogic string string

definition validateRuleFeatures :: "rule \<Rightarrow> string option" where
  "validateRuleFeatures r = (if r_Logic r \<in> {[], ''any'', ''all''} then None else Some (r_Logic r))"

fun firstBadLogic :: "rule list \<Rightarrow> featureError option" where
  "firstBadLogic [] = None"
| "firstBadLogic (r # rs) =
     (case validateRuleFeatures r of Some l \<Rightarrow> Some (UnsupportedLogic (r_ID r) l) | None \<Rightarrow> firstBadLogic rs)"

definition validateSupportedFeatures :: "rulePack \<Rightarrow> featureError option" where
  "validateSupportedFeatures p =
     (case p_Composition p of
        None \<Rightarrow> firstBadLogic (p_Rules p)
      | Some c \<Rightarrow>
          if co_Strategy c \<in> {[], ''all_matches'', ''first_match'', ''priority_order''}
          then firstBadLogic (p_Rules p)
          else Some (UnsupportedStrategy (co_Strategy c)))"

section \<open>Pruning\<close>

text \<open>No entry of a map, at any depth below maps and lists, is null.\<close>

fun noNullEntry :: "yaml \<Rightarrow> bool" where
  "noNullEntry (YMap kvs) = list_all (\<lambda>(k, v). v \<noteq> YNull \<and> noNullEntry v) kvs"
| "noNullEntry (YAnyMap kvs) = list_all (\<lambda>(k, v). v \<noteq> YNull \<and> noNullEntry v) kvs"
| "noNullEntry (YSeq xs) = list_all noNullEntry xs"
| "noNullEntry v = True"

lemma pruneNulls_YNull [simp]: "pruneNulls v = YNull \<longleftrightarrow> v = YNull"
  by (cases v) simp_all

lemma pruneNulls_clean: "noNullEntry (pruneNulls v)"
  by (induction v rule: pruneNulls.induct) (auto simp: list_all_iff)

lemma prune_entries_id:
  "list_all (\<lambda>(k, v). v \<noteq> YNull \<and> pruneNulls v = v) kvs \<Longrightarrow>
   map (\<lambda>(k, v). (k, pruneNulls v)) (filter (\<lambda>kv. snd kv \<noteq> YNull) kvs) = kvs"
  by (induction kvs) auto

lemma pruneNulls_id: "noNullEntry v \<Longrightarrow> pruneNulls v = v"
proof (induction v rule: pruneNulls.induct)
  case (1 kvs)
  then have "list_all (\<lambda>(k, v). v \<noteq> YNull \<and> pruneNulls v = v) kvs"
    by (fastforce simp: list_all_iff)
  then show ?case using prune_entries_id by simp
next
  case (2 kvs)
  then have "list_all (\<lambda>(k, v). v \<noteq> YNull \<and> pruneNulls v = v) kvs"
    by (fastforce simp: list_all_iff)
  then show ?case using prune_entries_id by simp
next
  case (3 xs)
  then show ?case by (auto simp: list_all_iff intro!: map_idI)
qed simp_all

section \<open>Errors\<close>

lemma idErrors_Nil_iff:
  "idErrors seen rs = [] \<longleftrightarrow> distinct (map r_ID rs) \<and> [] \<notin> set (map r_ID rs) \<and> seen \<inter> set (map r_ID rs) = {}"
  by (induction seen rs rule: idErrors.induct) auto

lemma leafErrors_nonempty: "leafErrors e \<noteq> []"
proof (induction e)
  case (VErr loc msg descr causes)
  then show ?case by (cases causes) (auto simp: Let_def)
qed

lemma flatten_nonempty: "flattenValidationError err \<noteq> []"
  by (cases err) (simp_all add: flattenValidationError_def leafErrors_nonempty)

section \<open>Properties\<close>

text \<open>
  What a validated pack guarantees: \<open>ValidatePack\<close> reports nothing exactly when the schema
  compiled and accepts the pruned value, the rule ids are distinct and non-empty, and each rule
  has what its level needs: keywords at level 1; at level 2 patterns that are at most 1000
  bytes, compile with known flags and are within the complexity limits, and a timeout that
  parses; a semantic block with a model at level 3; and no other level.
\<close>

theorem ValidatePack_accepts_iff:
  "ValidatePack G sch source encode p = [] \<longleftrightarrow>
     (\<exists>validate. sch = Inr validate
        \<and> validate (pruneNulls (case source of Some g \<Rightarrow> g | None \<Rightarrow> encode p)) = None)
     \<and> distinct (map r_ID (p_Rules p)) \<and> [] \<notin> set (map r_ID (p_Rules p))
     \<and> list_all (\<lambda>r.
         (r_Level r = 1 \<and> r_Keywords r \<noteq> [])
         \<or> (r_Level r = 2 \<and> r_Patterns r \<noteq> []
            \<and> list_all (\<lambda>pat. length (pt_Regex pat) \<le> 1000
                 \<and> (\<exists>rx. compileRegexStrict G (pt_Regex pat) (pt_Flags pat) = Inr rx)
                 \<and> CheckRegexComplexity G (pt_Regex pat) (pt_Flags pat) = None) (r_Patterns r)
            \<and> (r_Timeout r = [] \<or> (\<exists>d. parseDuration G (r_Timeout r) = Some d)))
         \<or> (r_Level r = 3 \<and> (\<exists>sem. r_Semantic r = Some sem \<and> strTrimSpace (s_Model sem) \<noteq> [])))
       (p_Rules p)"
proof -
  have sch: "schemaErrors sch source (encode p) = [] \<longleftrightarrow> (\<exists>validate. sch = Inr validate
      \<and> validate (pruneNulls (case source of Some g \<Rightarrow> g | None \<Rightarrow> encode p)) = None)"
    by (auto simp: schemaErrors_def flatten_nonempty split: sum.split option.split)
  have pat: "patternErrors G rid pat = [] \<longleftrightarrow> length (pt_Regex pat) \<le> 1000
      \<and> (\<exists>rx. compileRegexStrict G (pt_Regex pat) (pt_Flags pat) = Inr rx)
      \<and> CheckRegexComplexity G (pt_Regex pat) (pt_Flags pat) = None" for rid pat
    by (auto simp: patternErrors_def split: sum.split option.split)
  have lev: "levelErrors G r = [] \<longleftrightarrow>
      (r_Level r = 1 \<and> r_Keywords r \<noteq> [])
      \<or> (r_Level r = 2 \<and> r_Patterns r \<noteq> []
         \<and> list_all (\<lambda>pat. patternErrors G (r_ID r) pat = []) (r_Patterns r)
         \<and> (r_Timeout r = [] \<or> (\<exists>d. parseDuration G (r_Timeout r) = Some d)))
      \<or> (r_Level r = 3 \<and> (\<exists>sem. r_Semantic r = Some sem \<and> strTrimSpace (s_Model sem) \<noteq> []))" for r
    by (auto simp: levelErrors_def list_all_iff split: option.split)
  show ?thesis
    unfolding ValidatePack_def append_is_Nil_conv sch idErrors_Nil_iff
    by (simp add: list_all_iff lev pat)
qed

text \<open>
  Pruning is idempotent and leaves no null entry in any map, so an optional field set to
  null is validated as an absent one; a value without null entries is unchanged.
\<close>

theorem pruneNulls_spec:
  "noNullEntry (pruneNulls v) \<and> pruneNulls (pruneNulls v) = pruneNulls v
   \<and> (pruneNulls v = v \<longleftrightarrow> noNullEntry v)"
  using pruneNulls_clean [of v] pruneNulls_id [of v] pruneNulls_id [OF pruneNulls_clean [of v]] by metis

end
