(* ===== verification/Go_Paths.thy ===== *)
theory Go_Paths
  imports Go_Prelude
begin

text \<open>
  Package \<^verbatim>\<open>path/filepath\<close> on Unix, as far as the rule loader and the path checks use it, and
  the path checks themselves: \<^verbatim>\<open>internal/security/paths/validation.go\<close>. A path is a string; its
  elements are the pieces between slashes.
\<close>

section \<open>Package path/filepath\<close>

text \<open>\<open>cleanElems\<close> walks the elements with the kept ones on a stack.\<close>

fun cleanElems :: "bool \<Rightarrow> string list \<Rightarrow> string list \<Rightarrow> string list" where
  "cleanElems rooted st [] = rev st"
| "cleanElems rooted st (c # cs) =
     (if c = [] \<or> c = ''.'' then cleanElems rooted st cs
      else if c = ''..'' then
        (case st of
           [] \<Rightarrow> cleanElems rooted (if rooted then [] else [c]) cs
         | t # st' \<Rightarrow> cleanElems rooted (if t = ''..'' then c # st else st') cs)
      else cleanElems rooted (c # st) cs)"

definition isAbs :: "string \<Rightarrow> bool" where
  "isAbs p \<longleftrightarrow> hasPrefix p ''/''"

definition pathClean :: "string \<Rightarrow> string" where
  "pathClean p =
     (let cs = cleanElems (isAbs p) [] (strSplit (CHR ''/'') p)
      in if isAbs p then CHR ''/'' # strJoin ''/'' cs
         else if cs = [] then ''.'' else strJoin ''/'' cs)"

definition pathDir :: "string \<Rightarrow> string" where
  "pathDir p = pathClean (rev (dropWhile (\<lambda>c. c \<noteq> CHR ''/'') (rev p)))"

definition pathBase :: "string \<Rightarrow> string" where
  "pathBase p =
     (if p = [] then ''.''
      else let b = rev (takeWhile (\<lambda>c. c \<noteq> CHR ''/'') (dropWhile (\<lambda>c. c = CHR ''/'') (rev p)))
           in if b = [] then ''/'' else b)"

definition pathExt :: "string \<Rightarrow> string" where
  "pathExt p =
     (let seg = takeWhile (\<lambda>c. c \<noteq> CHR ''/'') (rev p)
      in if CHR ''.'' \<in> set seg then CHR ''.'' # rev (takeWhile (\<lambda>c. c \<noteq> CHR ''.'') seg) else [])"

definition pathJoin :: "string list \<Rightarrow> string" where
  "pathJoin es = (case dropWhile (\<lambda>e. e = []) es of [] \<Rightarrow> [] | es' \<Rightarrow> pathClean (strJoin ''/'' es'))"

text \<open>\<open>pathRel\<close> is the empty string where \<^verbatim>\<open>filepath.Rel\<close> fails.\<close>

fun dropCommon :: "string list \<Rightarrow> string list \<Rightarrow> string list \<times> string list" where
  "dropCommon (b # bs) (t # ts) = (if b = t then dropCommon bs ts else (b # bs, t # ts))"
| "dropCommon bs ts = (bs, ts)"

definition pathElems :: "string \<Rightarrow> string list" where
  "pathElems p = filter (\<lambda>c. c \<noteq> []) (strSplit (CHR ''/'') p)"

definition pathRel :: "string \<Rightarrow> string \<Rightarrow> string" where
  "pathRel basepath targpath =
     (let b0 = pathClean basepath; targ = pathClean targpath; b = (if b0 = ''.'' then [] else b0)
      in if targ = b0 then ''.''
         else if isAbs b \<noteq> isAbs targ then []
         else case dropCommon (pathElems b) (pathElems targ) of (bs, ts) \<Rightarrow>
           if bs \<noteq> [] \<and> hd bs = ''..'' then []
           else strJoin ''/'' (replicate (length bs) ''..'' @ ts))"

section \<open>Path checks\<close>

datatype pathError =
  PathEmpty | PathTooLong | PathTraversal | PathBadExtension string | PathNotAbsolute

definition ValidateCAFilePath :: "'rx golib \<Rightarrow> string \<Rightarrow> pathError option" where
  "ValidateCAFilePath G path =
     (if path = [] then Some PathEmpty
      else if length path > 4096 then Some PathTooLong
      else if strContains path ''..'' then Some PathTraversal
      else let cleanPath = pathClean path; ext = strToLower G (pathExt cleanPath)
           in if ext \<notin> {''.pem'', ''.crt'', ''.cert'', ''.ca-bundle'', ''.cer''}
              then Some (PathBadExtension ext)
              else if \<not> isAbs cleanPath then Some PathNotAbsolute
              else None)"

definition ValidateConfigFilePath :: "'rx golib \<Rightarrow> string \<Rightarrow> pathError option" where
  "ValidateConfigFilePath G path =
     (if path = [] then Some PathEmpty
      else if length path > 4096 then Some PathTooLong
      else if strContains path ''..'' then Some PathTraversal
      else let cleanPath = pathClean path; ext = strToLower G (pathExt cleanPath)
           in if ext \<notin> {''.yaml'', ''.yml'', ''.json'', ''.toml''} then Some (PathBadExtension ext)
              else None)"

section \<open>Elements of a path\<close>

lemma strSplit_nonempty [simp]: "strSplit d s \<noteq> []"
  by (cases s) (auto split: list.split)

lemma strSplit_no_sep: "w \<in> set (strSplit d s) \<Longrightarrow> d \<notin> set w"
proof (induction s arbitrary: w)
  case (Cons c s)
  then show ?case by (cases "strSplit d s") (auto split: if_splits)
qed simp

lemma strSplit_sep: "d \<notin> set w \<Longrightarrow> strSplit d (w @ d # t) = w # strSplit d t"
  by (induction w) auto

lemma strSplit_join:
  assumes "ws \<noteq> []" "\<forall>w \<in> set ws. d \<notin> set w"
  shows "strSplit d (strJoin [d] ws) = ws"
  using assms
proof (induction "[d]" ws rule: strJoin.induct)
  case (2 w)
  then have "d \<notin> set w" by simp
  then show ?case by (induction w) auto
next
  case (3 w v ws)
  then have w: "d \<notin> set w" and rest: "strSplit d (strJoin [d] (v # ws)) = v # ws" by auto
  from strSplit_sep [OF w] rest show ?case by simp
qed simp

lemma strSplit_infix: "w \<in> set (strSplit d s) \<Longrightarrow> \<exists>a b. s = a @ w @ b"
proof (induction s arbitrary: w)
  case (Cons c s)
  show ?case
  proof (cases "c = d")
    case True
    with Cons.prems have "w = [] \<or> w \<in> set (strSplit d s)" by auto
    then show ?thesis
    proof
      assume "w \<in> set (strSplit d s)"
      then obtain a b where "s = a @ w @ b" using Cons.IH by blast
      then show ?thesis by (metis append_Cons)
    qed auto
  next
    case False
    obtain v vs where v: "strSplit d s = v # vs" by (cases "strSplit d s") auto
    have front: "\<exists>b. s = v @ b"
    proof -
      have "strSplit d s = v # vs \<Longrightarrow> \<exists>b. s = v @ b" for v vs
      proof (induction s arbitrary: v vs)
        case (Cons x s)
        then show ?case by (cases "strSplit d s") (auto split: if_splits)
      qed simp
      with v show ?thesis by blast
    qed
    from Cons.prems False v consider "w = c # v" | "w \<in> set vs" by auto
    then show ?thesis
    proof cases
      case 1
      with front show ?thesis by (metis append_Cons append_Nil)
    next
      case 2
      with v have "w \<in> set (strSplit d s)" by simp
      then obtain a b where "s = a @ w @ b" using Cons.IH by blast
      then show ?thesis by (metis append_Cons)
    qed
  qed
qed auto

lemma cleanElems_no_dotdot:
  "''..'' \<notin> set cs \<Longrightarrow> cleanElems rooted st cs = rev st @ filter (\<lambda>c. c \<noteq> [] \<and> c \<noteq> ''.'') cs"
  by (induction cs arbitrary: st) auto

lemma cleanElems_subset:
  "set (cleanElems rooted st cs) \<subseteq> set st \<union> {c \<in> set cs. c \<noteq> [] \<and> c \<noteq> ''.''}"
proof (induction cs arbitrary: st)
  case (Cons c cs)
  show ?case
  proof (cases st)
    case Nil
    then show ?thesis using Cons.IH [of "[]"] Cons.IH [of "[c]"] by auto
  next
    case (Cons t st')
    then show ?thesis
      using Cons.IH [of st] Cons.IH [of "c # st"] Cons.IH [of st'] by auto
  qed
qed simp

lemma strJoin_nonempty: "ws \<noteq> [] \<Longrightarrow> [] \<notin> set ws \<Longrightarrow> strJoin d ws \<noteq> []"
  by (cases ws rule: list.exhaust, simp) (case_tac x22; auto)

lemma strJoin_hd:
  "ws \<noteq> [] \<Longrightarrow> hd ws \<noteq> [] \<Longrightarrow> hd (strJoin d ws) = hd (hd ws) \<and> strJoin d ws \<noteq> []"
  by (induction d ws rule: strJoin.induct) auto

lemma pathClean_nonempty [simp]: "pathClean p \<noteq> []"
proof -
  have "[] \<notin> set (cleanElems r [] cs)" for r cs
    using cleanElems_subset [of r "[]" cs] by auto
  then show ?thesis by (auto simp: pathClean_def Let_def strJoin_nonempty)
qed

lemma pathBase_nonempty [simp]: "pathBase p \<noteq> []"
  by (auto simp: pathBase_def Let_def)

lemma isAbs_pathClean [simp]: "isAbs p \<Longrightarrow> isAbs (pathClean p)"
  by (simp add: pathClean_def isAbs_def hasPrefix_def Let_def)

section \<open>Properties\<close>

text \<open>
  A CA path that passes the check is short, absolute, and free of traversal: cleaning it only
  drops the empty and the \<^verbatim>\<open>.\<close> elements, so the cleaned path names the same file and has no
  \<^verbatim>\<open>..\<close> element.
\<close>

theorem ValidateCAFilePath_sound:
  assumes "ValidateCAFilePath G path = None"
  shows "length path \<le> 4096 \<and> isAbs path
    \<and> pathClean path = CHR ''/'' # strJoin ''/'' (filter (\<lambda>c. c \<noteq> [] \<and> c \<noteq> ''.'') (strSplit (CHR ''/'') path))
    \<and> ''..'' \<notin> set (strSplit (CHR ''/'') (pathClean path))
    \<and> strToLower G (pathExt (pathClean path)) \<in> {''.pem'', ''.crt'', ''.cert'', ''.ca-bundle'', ''.cer''}"
proof -
  let ?cs = "strSplit (CHR ''/'') path"
  let ?kept = "filter (\<lambda>c. c \<noteq> [] \<and> c \<noteq> ''.'') ?cs"
  from assms have len: "length path \<le> 4096" and dots: "\<not> strContains path ''..''"
    and ext: "strToLower G (pathExt (pathClean path)) \<in> {''.pem'', ''.crt'', ''.cert'', ''.ca-bundle'', ''.cer''}"
    and abs: "isAbs (pathClean path)"
    by (auto simp: ValidateCAFilePath_def Let_def split: if_splits)
  have nodd: "''..'' \<notin> set ?cs"
    using dots strSplit_infix strContains_append by fastforce
  have noslash: "\<forall>w \<in> set ?kept. CHR ''/'' \<notin> set w"
    by (auto dest: strSplit_no_sep)
  have rooted: "isAbs path"
  proof (rule ccontr)
    assume rel: "\<not> isAbs path"
    have "w \<noteq> [] \<and> hd w \<noteq> CHR ''/''" if "w \<in> set ?kept" for w
    proof -
      from that have "w \<noteq> []" by simp
      moreover from that noslash have "CHR ''/'' \<notin> set w" by blast
      ultimately show ?thesis using hd_in_set by metis
    qed
    then have hds: "hd ?kept \<noteq> [] \<and> hd (hd ?kept) \<noteq> CHR ''/''" if "?kept \<noteq> []"
      using hd_in_set [OF that] by blast
    have "hd (strJoin ''/'' ?kept) \<noteq> CHR ''/'' \<and> strJoin ''/'' ?kept \<noteq> []" if "?kept \<noteq> []"
      using hds [OF that] strJoin_hd [OF that, of "''/''"] by simp
    then have "\<not> isAbs (if ?kept = [] then ''.'' else strJoin ''/'' ?kept)"
      by (cases "strJoin ''/'' ?kept") (auto simp: isAbs_def hasPrefix_def)
    with rel abs nodd show False
      by (simp add: pathClean_def cleanElems_no_dotdot Let_def)
  qed
  then have clean: "pathClean path = CHR ''/'' # strJoin ''/'' ?kept"
    by (simp add: pathClean_def cleanElems_no_dotdot nodd Let_def)
  have "''..'' \<notin> set (strSplit (CHR ''/'') (strJoin ''/'' ?kept))"
    using noslash nodd strSplit_join [of ?kept "CHR ''/''"] by (cases "?kept = []") auto
  then have "''..'' \<notin> set (strSplit (CHR ''/'') (pathClean path))"
    by (simp add: clean)
  with len rooted clean ext show ?thesis by blast
qed


theorem ValidateCAFilePath_sound_witness:
  "\<forall>G :: unit golib. ValidateCAFilePath G ''/etc//ssl/./Ca.PEM'' = None
    \<and> pathClean ''/etc//ssl/./Ca.PEM'' = ''/etc/ssl/Ca.PEM''"
proof
  fix G :: "unit golib"
  have ok: "ValidateCAFilePath G ''/etc//ssl/./Ca.PEM'' = None"
    by (simp add: ValidateCAFilePath_def pathClean_def pathExt_def isAbs_def hasPrefix_def Let_def
        strContains_def strToLower_def mapBytes_def lowerAscii_def byte_def char_of_def bit_0)
  from ValidateCAFilePath_sound [OF ok] ok
  show "ValidateCAFilePath G ''/etc//ssl/./Ca.PEM'' = None
    \<and> pathClean ''/etc//ssl/./Ca.PEM'' = ''/etc/ssl/Ca.PEM''" by simp
qed

end
