(* ===== verification/Rules_Loader.thy ===== *)
theory Rules_Loader
  imports Rules_Validate Go_Paths
begin

text \<open>
  Loading rule packs and resolving their imports: \<^verbatim>\<open>internal/rules/loader.go\<close>,
  \<^verbatim>\<open>loader_file.go\<close> and \<^verbatim>\<open>loader_imports.go\<close>. The file system, the network and the
  YAML decoder are the record \<open>loadWorld\<close>; the files do not change during a load. The recursion
  of the closure \<^verbatim>\<open>resolve\<close> is bounded by fuel, the depth of nested imports; \<open>None\<close> is
  running out of it.
\<close>

section \<open>The outside world\<close>

text \<open>
  A directory entry as \<^verbatim>\<open>WalkDir\<close> meets it: a directory with the error \<^verbatim>\<open>ReadDir\<close> ended
  with, if any, and the entries it returned in lexical order; everything else, symbolic links
  included, is not a directory.
\<close>

datatype dirTree = DFile | DDir "string option" "(string \<times> dirTree) list"

text \<open>
  \<open>w_stat\<close> is \<^verbatim>\<open>os.Stat\<close> reduced to \<^verbatim>\<open>IsDir\<close>, \<open>w_lstat\<close> the tree below a path,
  \<open>w_read\<close> is \<^verbatim>\<open>os.ReadFile\<close>, \<open>w_unmarshal\<close> is \<^verbatim>\<open>yaml.Unmarshal\<close>, \<open>w_glob\<close> and
  \<open>w_match\<close> are \<^verbatim>\<open>filepath.Glob\<close> and \<^verbatim>\<open>filepath.Match\<close> (false on a bad pattern), and
  \<open>w_get\<close> is a GET request: the transport error, or the status and the body or its read error.
\<close>

record loadWorld =
  w_stat :: "string \<Rightarrow> string + bool"
  w_lstat :: "string \<Rightarrow> string + dirTree"
  w_read :: "string \<Rightarrow> string + string"
  w_unmarshal :: "string \<Rightarrow> string + rulePack"
  w_glob :: "string \<Rightarrow> string + string list"
  w_match :: "string \<Rightarrow> string \<Rightarrow> bool"
  w_get :: "string \<Rightarrow> string + (int \<times> (string + string))"

datatype loadErr =
    StatErr string string
  | ReadErr string string
  | UnmarshalErr string string
  | FeatureErr string featureError
  | WalkErr string
  | NetDisabled
  | GlobErr string
  | UnsupportedImport string
  | InvalidGlob string
  | HttpErr string string
  | HttpStatus string int
  | InvalidSlug string
  | MarketplaceNotFound
  | ImportErr string string loadErr
  | DuplicateName string string string
  | PatternErr "patternError list"

section \<open>Walking a directory\<close>

datatype walkRes = WOk | WSkipDir | WErr loadErr

fun walkDir :: "(string \<Rightarrow> bool \<Rightarrow> string option \<Rightarrow> 's \<Rightarrow> 's \<times> walkRes) \<Rightarrow> string \<Rightarrow> dirTree \<Rightarrow> 's \<Rightarrow> 's \<times> walkRes"
  and walkEntries :: "(string \<Rightarrow> bool \<Rightarrow> string option \<Rightarrow> 's \<Rightarrow> 's \<times> walkRes) \<Rightarrow> string \<Rightarrow> (string \<times> dirTree) list \<Rightarrow> 's \<Rightarrow> 's \<times> walkRes" where
  "walkDir fn path DFile s = fn path False None s"
| "walkDir fn path (DDir rerr ents) s =
     (case fn path True None s of
        (s1, WSkipDir) \<Rightarrow> (s1, WOk)
      | (s1, WErr e) \<Rightarrow> (s1, WErr e)
      | (s1, WOk) \<Rightarrow>
          (case rerr of
             None \<Rightarrow> walkEntries fn path ents s1
           | Some e \<Rightarrow>
               (case fn path True (Some e) s1 of
                  (s2, WSkipDir) \<Rightarrow> (s2, WOk)
                | (s2, WErr e') \<Rightarrow> (s2, WErr e')
                | (s2, WOk) \<Rightarrow> walkEntries fn path ents s2)))"
| "walkEntries fn path [] s = (s, WOk)"
| "walkEntries fn path ((name, t) # ents) s =
     (case walkDir fn (pathJoin [path, name]) t s of
        (s1, WOk) \<Rightarrow> walkEntries fn path ents s1
      | (s1, WSkipDir) \<Rightarrow> (s1, WOk)
      | (s1, WErr e) \<Rightarrow> (s1, WErr e))"

definition WalkDir :: "loadWorld \<Rightarrow> (string \<Rightarrow> bool \<Rightarrow> string option \<Rightarrow> 's \<Rightarrow> 's \<times> walkRes) \<Rightarrow> string \<Rightarrow> 's \<Rightarrow> 's \<times> loadErr option" where
  "WalkDir W fn rootDir s =
     (case (case w_lstat W rootDir of Inl e \<Rightarrow> fn rootDir False (Some e) s | Inr t \<Rightarrow> walkDir fn rootDir t s) of
        (s1, WErr e) \<Rightarrow> (s1, Some e)
      | (s1, _) \<Rightarrow> (s1, None))"

section \<open>Files and directories\<close>

definition hasYAMLExt :: "string \<Rightarrow> bool" where
  "hasYAMLExt path \<longleftrightarrow> pathExt path = ''.yaml'' \<or> pathExt path = ''.yml''"

definition fillDefaults :: "string \<Rightarrow> rulePack \<Rightarrow> rulePack" where
  "fillDefaults path p0 =
     (let p1 = (if p_Kind p0 = [] then p0\<lparr>p_Kind := ''RulePack''\<rparr> else p0);
          p2 = (if p_APIVersion p1 = [] then p1\<lparr>p_APIVersion := ''promptshield.io/v1''\<rparr> else p1);
          p3 = (if packName p2 = []
                then p2\<lparr>p_Metadata := (p_Metadata p2)\<lparr>m_Name := pathBase path\<rparr>\<rparr> else p2)
      in p3\<lparr>p_SourcePath := path\<rparr>)"

definition loadFile :: "loadWorld \<Rightarrow> string \<Rightarrow> loadErr + rulePack" where
  "loadFile W path =
     (case w_read W path of
        Inl e \<Rightarrow> Inl (ReadErr path e)
      | Inr data \<Rightarrow>
          (case w_unmarshal W data of
             Inl e \<Rightarrow> Inl (UnmarshalErr path e)
           | Inr p0 \<Rightarrow>
               (let p = fillDefaults path p0
                in case validateSupportedFeatures p of
                     Some e \<Rightarrow> Inl (FeatureErr path e)
                   | None \<Rightarrow> Inr p)))"

definition loadDirStep :: "loadWorld \<Rightarrow> string \<Rightarrow> string \<Rightarrow> bool \<Rightarrow> string option \<Rightarrow> rulePack list \<Rightarrow> rulePack list \<times> walkRes" where
  "loadDirStep W dir path isdir err packs =
     (case err of
        Some e \<Rightarrow> (packs, WErr (WalkErr e))
      | None \<Rightarrow>
          if isdir then (packs, if path \<noteq> dir then WSkipDir else WOk)
          else if \<not> hasYAMLExt path then (packs, WOk)
          else (case loadFile W path of Inl e \<Rightarrow> (packs, WErr e) | Inr p \<Rightarrow> (packs @ [p], WOk)))"

definition loadDir :: "loadWorld \<Rightarrow> string \<Rightarrow> loadErr + rulePack list" where
  "loadDir W dir =
     (case WalkDir W (loadDirStep W dir) dir [] of
        (packs, Some e) \<Rightarrow> Inl e
      | (packs, None) \<Rightarrow> Inr packs)"

section \<open>Imports\<close>

definition skippedDirs :: "string set" where
  "skippedDirs = {''.git'', ''node_modules'', ''dist'', ''vendor'', ''build'', ''target''}"

definition walkAndMatchStep :: "loadWorld \<Rightarrow> string \<Rightarrow> string \<Rightarrow> string \<Rightarrow> bool \<Rightarrow> string option \<Rightarrow> rulePack list \<Rightarrow> rulePack list \<times> walkRes" where
  "walkAndMatchStep W rootDir leaf path isdir err out =
     (case err of
        Some _ \<Rightarrow> (out, WOk)
      | None \<Rightarrow>
          if isdir then (out, if pathBase path \<in> skippedDirs then WSkipDir else WOk)
          else (let test = (if strContains leaf ''/'' then pathRel rootDir path else pathBase path)
                in if w_match W leaf test \<and> hasYAMLExt path
                   then (case loadFile W path of Inl e \<Rightarrow> (out, WOk) | Inr p \<Rightarrow> (out @ [p], WOk))
                   else (out, WOk)))"

definition walkAndMatch :: "loadWorld \<Rightarrow> string \<Rightarrow> loadErr + rulePack list" where
  "walkAndMatch W pattern =
     (case strIndex pattern ''**'' of
        None \<Rightarrow> Inl (InvalidGlob pattern)
      | Some idx \<Rightarrow>
          (let rootDir0 = pathDir (take idx pattern);
               rootDir = (if rootDir0 = [] then ''.'' else rootDir0);
               leaf = trimPrefix (drop (idx + 2) pattern) ''/''
           in Inr (fst (WalkDir W (walkAndMatchStep W rootDir leaf) rootDir []))))"

definition fetchRemotePack :: "loadWorld \<Rightarrow> string \<Rightarrow> loadErr + rulePack list" where
  "fetchRemotePack W url =
     (case w_get W url of
        Inl e \<Rightarrow> Inl (HttpErr url e)
      | Inr (status, body) \<Rightarrow>
          if status \<noteq> 200 then Inl (HttpStatus url status)
          else (case body of
                  Inl e \<Rightarrow> Inl (HttpErr url e)
                | Inr data \<Rightarrow>
                    (case w_unmarshal W data of
                       Inl e \<Rightarrow> Inl (UnmarshalErr url e)
                     | Inr p \<Rightarrow> Inr [p\<lparr>p_SourcePath := []\<rparr>])))"

definition strCut :: "char \<Rightarrow> string \<Rightarrow> (string \<times> string) option" where
  "strCut d s = (if d \<in> set s then Some (takeWhile (\<lambda>c. c \<noteq> d) s, tl (dropWhile (\<lambda>c. c \<noteq> d) s)) else None)"

text \<open>The first candidate that is a file is loaded; its error is final.\<close>

fun tryCandidates :: "loadWorld \<Rightarrow> string list \<Rightarrow> (loadErr + rulePack list) option" where
  "tryCandidates W [] = None"
| "tryCandidates W (c # cs) =
     (if w_stat W c = Inr False
      then Some (case loadFile W c of Inl e \<Rightarrow> Inl e | Inr p \<Rightarrow> Inr [p])
      else tryCandidates W cs)"

fun tryUrls :: "loadWorld \<Rightarrow> string list \<Rightarrow> loadErr \<Rightarrow> loadErr + rulePack list" where
  "tryUrls W [] lastErr = Inl lastErr"
| "tryUrls W (u # us) lastErr =
     (case fetchRemotePack W u of Inr ps \<Rightarrow> Inr ps | Inl e \<Rightarrow> tryUrls W us e)"

definition netImports :: "'rx golib \<Rightarrow> bool" where
  "netImports G \<longleftrightarrow> getenv G ''PS_ALLOW_NET_IMPORTS'' = ''1''"

definition marketplaceCandidates :: "'rx golib \<Rightarrow> string \<Rightarrow> string \<Rightarrow> string \<Rightarrow> string list" where
  "marketplaceCandidates G ns name ver =
     (let base = (if getenv G ''PS_MARKETPLACE_DIR'' = [] then ''rules'' else getenv G ''PS_MARKETPLACE_DIR'')
      in [pathJoin [base, ns, name @ ''@'' @ ver @ ''.yaml''],
          pathJoin [base, ns, name, ver @ ''.yaml''],
          pathJoin [base, ns, name, ver, ''rulepack.yaml'']])"

definition registryUrls :: "'rx golib \<Rightarrow> string \<Rightarrow> string \<Rightarrow> string \<Rightarrow> string list" where
  "registryUrls G ns name ver =
     (let reg0 = getenv G ''PS_REGISTRY_URL'';
          reg = (if reg0 = [] then ''https://registry.promptshield.io'' else reg0);
          r = rev (dropWhile (\<lambda>c. c = CHR ''/'') (rev reg))
      in [r @ ''/'' @ ns @ ''/'' @ name @ ''/'' @ ver @ ''/rulepack.yaml'',
          r @ ''/'' @ ns @ ''/'' @ name @ ''@'' @ ver @ ''.yaml''])"

definition resolveMarketplace :: "'rx golib \<Rightarrow> loadWorld \<Rightarrow> string \<Rightarrow> loadErr + rulePack list" where
  "resolveMarketplace G W slug =
     (case strCut (CHR ''@'') slug of
        None \<Rightarrow> Inl (InvalidSlug slug)
      | Some (nsAndName, ver) \<Rightarrow>
          (case strCut (CHR ''/'') nsAndName of
             None \<Rightarrow> Inl (InvalidSlug slug)
           | Some (ns, name) \<Rightarrow>
               (case tryCandidates W (marketplaceCandidates G ns name ver) of
                  Some r \<Rightarrow> r
                | None \<Rightarrow>
                    if netImports G
                    then tryUrls W (registryUrls G ns name ver) MarketplaceNotFound
                    else Inl MarketplaceNotFound)))"

text \<open>The matches of a glob; one that cannot be examined, or is no YAML file, is passed over.\<close>

fun loadMatches :: "loadWorld \<Rightarrow> string list \<Rightarrow> loadErr + rulePack list" where
  "loadMatches W [] = Inr []"
| "loadMatches W (m # ms) =
     (case w_stat W m of
        Inl _ \<Rightarrow> loadMatches W ms
      | Inr isdir \<Rightarrow>
          (case (if isdir then loadDir W m
                 else if hasYAMLExt m
                 then (case loadFile W m of Inl e \<Rightarrow> Inl e | Inr p \<Rightarrow> Inr [p])
                 else Inr []) of
             Inl e \<Rightarrow> Inl e
           | Inr ps \<Rightarrow> (case loadMatches W ms of Inl e \<Rightarrow> Inl e | Inr qs \<Rightarrow> Inr (ps @ qs))))"

definition underBase :: "string \<Rightarrow> string \<Rightarrow> string" where
  "underBase baseDir p = (if isAbs p then p else pathJoin [baseDir, p])"

text \<open>What remains of \<open>resolveImportSpec\<close> after the URL and the marketplace branches.\<close>

definition resolveFileSpec :: "loadWorld \<Rightarrow> string \<Rightarrow> string \<Rightarrow> loadErr + rulePack list" where
  "resolveFileSpec W baseDir spec =
     (if (\<exists>c \<in> set spec. c \<in> set ''*?['') \<or> strContains spec ''**'' then
        (let pattern = underBase baseDir spec
         in if strContains pattern ''**'' then walkAndMatch W pattern
            else (case w_glob W pattern of
                    Inl e \<Rightarrow> Inl (GlobErr e)
                  | Inr matches \<Rightarrow> loadMatches W matches))
      else (let impPath = underBase baseDir spec
            in case w_stat W impPath of
                 Inl e \<Rightarrow> Inl (StatErr impPath e)
               | Inr isdir \<Rightarrow>
                   if isdir then loadDir W impPath
                   else if hasYAMLExt impPath
                   then (case loadFile W impPath of Inl e \<Rightarrow> Inl e | Inr p \<Rightarrow> Inr [p])
                   else Inl (UnsupportedImport spec)))"

definition resolveImportSpec :: "'rx golib \<Rightarrow> loadWorld \<Rightarrow> string \<Rightarrow> string \<Rightarrow> loadErr + rulePack list" where
  "resolveImportSpec G W baseDir spec0 =
     (let spec = strTrimSpace spec0
      in if spec = [] then Inr []
         else if hasPrefix spec ''http://'' \<or> hasPrefix spec ''https://'' then
           (if \<not> netImports G then Inl NetDisabled else fetchRemotePack W spec)
         else if strContains spec ''@'' \<and> strContains spec ''/'' then
           (case resolveMarketplace G W spec of
              Inr ps \<Rightarrow> if ps \<noteq> [] then Inr ps else resolveFileSpec W baseDir spec
            | Inl _ \<Rightarrow> resolveFileSpec W baseDir spec)
         else resolveFileSpec W baseDir spec)"

section \<open>LoadPacks\<close>

record loadState =
  l_seen :: "string set"
  l_emitted :: "string set"
  l_out :: "rulePack list"
  l_importErr :: "loadErr option"

definition selfKey :: "rulePack \<Rightarrow> string" where
  "selfKey p = (if p_SourcePath p = [] then packName p else p_SourcePath p)"

definition importKey :: "string \<Rightarrow> rulePack \<Rightarrow> string" where
  "importKey spec p = (if p_SourcePath p = [] then spec @ ''::'' @ packName p else p_SourcePath p)"

definition importBase :: "string \<Rightarrow> rulePack \<Rightarrow> string" where
  "importBase baseDir p =
     (let b = pathDir (p_SourcePath p) in if b = ''.'' \<and> p_SourcePath p = [] then baseDir else b)"

definition emit :: "rulePack \<Rightarrow> loadState \<Rightarrow> loadState" where
  "emit p st =
     (if selfKey p \<in> l_emitted st then st
      else st\<lparr>l_emitted := insert (selfKey p) (l_emitted st), l_out := l_out st @ [p]\<rparr>)"

text \<open>
  The closure \<^verbatim>\<open>resolve\<close> with its two loops; an error stops the loop over the imports of one
  pack and is kept in the state, while the enclosing loops go on.
\<close>

function (sequential) resolve :: "'rx golib \<Rightarrow> loadWorld \<Rightarrow> nat \<Rightarrow> string \<Rightarrow> rulePack \<Rightarrow> loadState \<Rightarrow> loadState option"
  and resolveSpecs :: "'rx golib \<Rightarrow> loadWorld \<Rightarrow> nat \<Rightarrow> string \<Rightarrow> string \<Rightarrow> string list \<Rightarrow> loadState \<Rightarrow> loadState option"
  and resolveSubs :: "'rx golib \<Rightarrow> loadWorld \<Rightarrow> nat \<Rightarrow> string \<Rightarrow> string \<Rightarrow> rulePack list \<Rightarrow> loadState \<Rightarrow> loadState option" where
  "resolve G W n baseDir pack st = resolveSpecs G W n baseDir (packName pack) (p_Imports pack) (emit pack st)"
| "resolveSpecs G W n baseDir name [] st = Some st"
| "resolveSpecs G W n baseDir name (spec # specs) st =
     (case resolveImportSpec G W baseDir spec of
        Inl e \<Rightarrow> Some (st\<lparr>l_importErr := Some (ImportErr spec name e)\<rparr>)
      | Inr subpacks \<Rightarrow>
          (case resolveSubs G W n baseDir spec subpacks st of
             None \<Rightarrow> None
           | Some st' \<Rightarrow> resolveSpecs G W n baseDir name specs st'))"
| "resolveSubs G W n baseDir spec [] st = Some st"
| "resolveSubs G W n baseDir spec (sp # sps) st =
     (let key = importKey spec sp
      in if key \<in> l_seen st then resolveSubs G W n baseDir spec sps st
         else case n of
                0 \<Rightarrow> None
              | Suc m \<Rightarrow>
                  (case resolve G W m (importBase baseDir sp) sp (st\<lparr>l_seen := insert key (l_seen st)\<rparr>) of
                     None \<Rightarrow> None
                   | Some st' \<Rightarrow> resolveSubs G W n baseDir spec sps st'))"
  by pat_completeness auto
termination
  by (relation "measures [\<lambda>a. case a of
        Inl (G, W, n, _) \<Rightarrow> n | Inr (Inl (G, W, n, _)) \<Rightarrow> n | Inr (Inr (G, W, n, _)) \<Rightarrow> n,
      \<lambda>a. case a of Inl _ \<Rightarrow> 2 | Inr (Inl _) \<Rightarrow> 1 | Inr (Inr _) \<Rightarrow> 0,
      \<lambda>a. case a of Inl _ \<Rightarrow> 0 | Inr (Inl (G, W, n, b, nm, ss, st)) \<Rightarrow> length ss
          | Inr (Inr (G, W, n, b, s, ps, st)) \<Rightarrow> length ps]") auto

text \<open>The outer loop ends with the first error.\<close>

fun resolveAll :: "'rx golib \<Rightarrow> loadWorld \<Rightarrow> nat \<Rightarrow> rulePack list \<Rightarrow> loadState \<Rightarrow> (loadErr + loadState) option" where
  "resolveAll G W n [] st = Some (Inr st)"
| "resolveAll G W n (p # ps) st =
     (case resolve G W n (importBase ''.'' p) p (st\<lparr>l_seen := insert (selfKey p) (l_seen st)\<rparr>) of
        None \<Rightarrow> None
      | Some st' \<Rightarrow>
          (case l_importErr st' of
             Some e \<Rightarrow> Some (Inl e)
           | None \<Rightarrow> resolveAll G W n ps st'))"

definition sourceOf :: "rulePack \<Rightarrow> string" where
  "sourceOf p = (if p_SourcePath p = [] then ''(remote)'' else p_SourcePath p)"

fun uniqueNames :: "(string \<rightharpoonup> string) \<Rightarrow> rulePack list \<Rightarrow> loadErr option" where
  "uniqueNames seen [] = None"
| "uniqueNames seen (p # ps) =
     (if packName p = [] then uniqueNames seen ps
      else case seen (packName p) of
             Some prev \<Rightarrow> Some (DuplicateName (packName p) prev (sourceOf p))
           | None \<Rightarrow> uniqueNames (seen(packName p \<mapsto> sourceOf p)) ps)"

definition checkUniqueNames :: "rulePack list \<Rightarrow> loadErr option" where
  "checkUniqueNames packs = uniqueNames Map.empty packs"

fun checkAllPatterns :: "'rx golib \<Rightarrow> rulePack list \<Rightarrow> loadErr option" where
  "checkAllPatterns G [] = None"
| "checkAllPatterns G (p # ps) =
     (if CheckPatterns G p = [] then checkAllPatterns G ps else Some (PatternErr (CheckPatterns G p)))"

definition loadRoots :: "loadWorld \<Rightarrow> string \<Rightarrow> loadErr + rulePack list" where
  "loadRoots W path =
     (case w_stat W path of
        Inl e \<Rightarrow> Inl (StatErr path e)
      | Inr isdir \<Rightarrow>
          if isdir then loadDir W path
          else (case loadFile W path of Inl e \<Rightarrow> Inl e | Inr p \<Rightarrow> Inr [p]))"

definition initLoad :: loadState where
  "initLoad = \<lparr>l_seen = {}, l_emitted = {}, l_out = [], l_importErr = None\<rparr>"

definition LoadPacks :: "'rx golib \<Rightarrow> loadWorld \<Rightarrow> nat \<Rightarrow> string \<Rightarrow> (loadErr + rulePack list) option" where
  "LoadPacks G W n path =
     (case loadRoots W path of
        Inl e \<Rightarrow> Some (Inl e)
      | Inr packs \<Rightarrow>
          (case resolveAll G W n packs initLoad of
             None \<Rightarrow> None
           | Some (Inl e) \<Rightarrow> Some (Inl e)
           | Some (Inr st) \<Rightarrow>
               (case checkUniqueNames (l_out st) of
                  Some e \<Rightarrow> Some (Inl e)
                | None \<Rightarrow>
                    (case checkAllPatterns G (l_out st) of
                       Some e \<Rightarrow> Some (Inl e)
                     | None \<Rightarrow> Some (Inr (l_out st))))))"

section \<open>Packs read from files\<close>

definition readable :: "loadWorld \<Rightarrow> string set" where
  "readable W = {path. \<exists>data. w_read W path = Inr data}"

definition fileLoaded :: "loadWorld \<Rightarrow> rulePack \<Rightarrow> bool" where
  "fileLoaded W p \<longleftrightarrow> loadFile W (p_SourcePath p) = Inr p"

lemma fillDefaults_simps [simp]:
  "p_SourcePath (fillDefaults path p) = path" "p_Kind (fillDefaults path p) \<noteq> []"
  "p_APIVersion (fillDefaults path p) \<noteq> []" "packName (fillDefaults path p) \<noteq> []"
  by (simp_all add: fillDefaults_def Let_def)

lemma loadFile_Inr:
  assumes "loadFile W path = Inr p"
  shows "fileLoaded W p" "p_SourcePath p = path" "path \<in> readable W" "p_Kind p \<noteq> []"
    "p_APIVersion p \<noteq> []" "packName p \<noteq> []" "validateSupportedFeatures p = None"
proof -
  from assms obtain data p0 where *: "w_read W path = Inr data" "w_unmarshal W data = Inr p0"
      "p = fillDefaults path p0" "validateSupportedFeatures p = None"
    by (auto simp: loadFile_def Let_def split: sum.splits option.splits)
  then show "p_SourcePath p = path" "p_Kind p \<noteq> []" "p_APIVersion p \<noteq> []" "packName p \<noteq> []"
    "validateSupportedFeatures p = None" by simp_all
  with assms show "fileLoaded W p" by (simp add: fileLoaded_def)
  from * show "path \<in> readable W" by (auto simp: readable_def)
qed

lemma fileLoaded_readable: "fileLoaded W p \<Longrightarrow> p_SourcePath p \<in> readable W"
  by (auto simp: fileLoaded_def dest: loadFile_Inr)

lemma fileLoaded_unique: "fileLoaded W p \<Longrightarrow> fileLoaded W q \<Longrightarrow> p_SourcePath p = p_SourcePath q \<Longrightarrow> p = q"
  by (simp add: fileLoaded_def)

text \<open>What the callback of a walk keeps, the walk keeps.\<close>

lemma walk_inv:
  "(\<And>path isdir err s. P s \<Longrightarrow> P (fst (fn path isdir err s))) \<Longrightarrow> P s \<Longrightarrow> P (fst (walkDir fn path t s))"
  "(\<And>path isdir err s. P s \<Longrightarrow> P (fst (fn path isdir err s))) \<Longrightarrow> P s \<Longrightarrow> P (fst (walkEntries fn path ents s))"
proof (induction fn path t s and fn path ents s rule: walkDir_walkEntries.induct)
  case (2 fn path rerr ents s)
  obtain s1 r1 where c1: "fn path True None s = (s1, r1)" by (meson surj_pair)
  have P1: "P s1" using "2.prems" c1 by (metis fst_conv)
  show ?case
  proof (cases "r1 = WOk")
    case ok: True
    show ?thesis
    proof (cases rerr)
      case None
      then show ?thesis using "2.IH"(1) [OF _ _ None "2.prems"(1) P1] c1 ok by simp
    next
      case (Some e)
      obtain s2 r2 where c2: "fn path True (Some e) s1 = (s2, r2)" by (meson surj_pair)
      have P2: "P s2" using "2.prems"(1) P1 c2 by (metis fst_conv)
      then show ?thesis
        using "2.IH"(2) [OF _ _ Some _ _ "2.prems"(1) P2] c1 c2 ok Some by (cases r2) auto
    qed
  next
    case False
    then show ?thesis using P1 c1 by (cases r1) auto
  qed
next
  case (4 fn path name t ents s)
  obtain s1 r1 where c1: "walkDir fn (pathJoin [path, name]) t s = (s1, r1)" by (meson surj_pair)
  have "P s1" using "4.IH"(1) [OF "4.prems"] c1 by simp
  then show ?case using "4.IH"(2) [OF _ _ "4.prems"(1)] c1 by (cases r1) auto
qed simp_all

lemma WalkDir_inv:
  assumes "\<And>path isdir err s. P s \<Longrightarrow> P (fst (fn path isdir err s))" "P s"
  shows "P (fst (WalkDir W fn rootDir s))"
proof -
  have "P (fst (case w_lstat W rootDir of Inl e \<Rightarrow> fn rootDir False (Some e) s | Inr t \<Rightarrow> walkDir fn rootDir t s))"
    using assms walk_inv(1) [of P fn s] by (simp split: sum.split)
  then show ?thesis by (auto simp: WalkDir_def split: prod.split walkRes.split)
qed

lemma loadDir_files: "loadDir W dir = Inr ps \<Longrightarrow> list_all (fileLoaded W) ps"
proof -
  have "list_all (fileLoaded W) (fst (WalkDir W (loadDirStep W dir) dir []))"
    by (rule WalkDir_inv)
      (auto simp: loadDirStep_def loadFile_Inr split: option.split sum.split)
  then show "loadDir W dir = Inr ps \<Longrightarrow> list_all (fileLoaded W) ps"
    by (auto simp: loadDir_def split: prod.splits option.splits)
qed

lemma walkAndMatch_files: "walkAndMatch W pat = Inr ps \<Longrightarrow> list_all (fileLoaded W) ps"
proof -
  have "list_all (fileLoaded W) (fst (WalkDir W (walkAndMatchStep W d l) d []))" for d l
    by (rule WalkDir_inv)
      (auto simp: walkAndMatchStep_def loadFile_Inr Let_def split: option.split sum.split)
  then show "walkAndMatch W pat = Inr ps \<Longrightarrow> list_all (fileLoaded W) ps"
    by (auto simp: walkAndMatch_def Let_def split: option.splits)
qed

lemma loadOne_files:
  "(case loadFile W m of Inl e \<Rightarrow> Inl e | Inr p \<Rightarrow> Inr [p]) = Inr ps \<Longrightarrow> list_all (fileLoaded W) ps"
  by (auto simp: loadFile_Inr split: sum.splits)

lemma loadMatches_files: "loadMatches W ms = Inr ps \<Longrightarrow> list_all (fileLoaded W) ps"
proof (induction ms arbitrary: ps)
  case (Cons m ms)
  then show ?case
    by (auto simp: loadDir_files loadFile_Inr split: sum.splits if_splits)
qed simp

lemma tryCandidates_files: "tryCandidates W cs = Some (Inr ps) \<Longrightarrow> list_all (fileLoaded W) ps"
  by (induction cs) (auto split: if_splits dest: loadOne_files)

lemma resolveFileSpec_files:
  assumes "resolveFileSpec W baseDir spec = Inr ps"
  shows "list_all (fileLoaded W) ps"
proof (cases "(\<exists>c \<in> set spec. c \<in> set ''*?['') \<or> strContains spec ''**''")
  case glob: True
  show ?thesis
  proof (cases "strContains (underBase baseDir spec) ''**''")
    case True
    with glob assms show ?thesis
      unfolding resolveFileSpec_def Let_def by (simp only: if_True walkAndMatch_files)
  next
    case False
    with glob assms show ?thesis
      unfolding resolveFileSpec_def Let_def
      by (cases "w_glob W (underBase baseDir spec)") (simp_all only: if_True if_False sum.simps loadMatches_files)
  qed
next
  case plain: False
  show ?thesis
  proof (cases "w_stat W (underBase baseDir spec)")
    case (Inr isdir)
    have "loadDir W (underBase baseDir spec) = Inr ps
      \<or> (case loadFile W (underBase baseDir spec) of Inl e \<Rightarrow> Inl e | Inr p \<Rightarrow> Inr [p]) = Inr ps"
      using plain assms Inr unfolding resolveFileSpec_def Let_def
      by (simp only: if_False sum.simps simp_thms split: if_splits)
    then show ?thesis using loadDir_files loadOne_files by blast
  qed (use plain assms in \<open>simp only: resolveFileSpec_def Let_def if_False sum.simps\<close>)
qed

lemma resolveMarketplace_files:
  assumes "\<not> netImports G" "resolveMarketplace G W slug = Inr ps"
  shows "list_all (fileLoaded W) ps"
proof -
  from assms obtain cs where "tryCandidates W cs = Some (Inr ps)"
    by (auto simp: resolveMarketplace_def split: option.splits)
  then show ?thesis by (rule tryCandidates_files)
qed

lemma resolveImportSpec_files:
  "\<not> netImports G \<Longrightarrow> resolveImportSpec G W baseDir spec = Inr ps \<Longrightarrow> list_all (fileLoaded W) ps"
  by (auto simp: resolveImportSpec_def Let_def split: if_splits sum.splits
      dest: resolveFileSpec_files resolveMarketplace_files)

lemma loadRoots_files: "loadRoots W path = Inr ps \<Longrightarrow> list_all (fileLoaded W) ps"
  by (auto simp: loadRoots_def split: if_splits sum.splits dest: loadDir_files loadFile_Inr)

section \<open>Fuel\<close>

definition offline :: "'rx golib \<Rightarrow> loadWorld \<Rightarrow> bool" where
  "offline G W \<longleftrightarrow> \<not> netImports G \<and> [] \<notin> readable W"

lemma offline_subs:
  assumes "offline G W" "resolveImportSpec G W baseDir spec = Inr subs"
  shows "\<forall>sp \<in> set subs. fileLoaded W sp \<and> p_SourcePath sp \<noteq> [] \<and> p_SourcePath sp \<in> readable W"
  using assms resolveImportSpec_files fileLoaded_readable
  by (fastforce simp: offline_def list_all_iff)

lemma offline_roots:
  assumes "offline G W" "loadRoots W path = Inr ps"
  shows "\<forall>p \<in> set ps. fileLoaded W p \<and> p_SourcePath p \<noteq> [] \<and> p_SourcePath p \<in> readable W"
  using assms loadRoots_files fileLoaded_readable
  by (fastforce simp: offline_def list_all_iff)

lemma key_simps [simp]:
  "p_SourcePath p \<noteq> [] \<Longrightarrow> importKey spec p = p_SourcePath p"
  "p_SourcePath p \<noteq> [] \<Longrightarrow> selfKey p = p_SourcePath p"
  "p_SourcePath p \<noteq> [] \<Longrightarrow> importBase b p = pathDir (p_SourcePath p)"
  by (simp_all add: importKey_def selfKey_def importBase_def)

lemma l_seen_emit [simp]: "l_seen (emit p st) = l_seen st"
  by (simp add: emit_def)

lemma l_importErr_emit [simp]: "l_importErr (emit p st) = l_importErr st"
  by (simp add: emit_def)

lemma unseen_less:
  assumes "finite (readable W)" "k \<in> readable W" "k \<notin> seen" "card (readable W - seen) \<le> n"
  obtains m where "n = Suc m" "card (readable W - insert k seen) \<le> m"
proof -
  have "card (readable W - insert k seen) < card (readable W - seen)"
    using assms by (intro psubset_card_mono) auto
  then show ?thesis using assms(4) that [of "n - 1"] by (cases n) auto
qed

lemma unseen_mono:
  assumes "finite (readable W)" "seen \<subseteq> seen'" "card (readable W - seen) \<le> n"
  shows "card (readable W - seen') \<le> n"
proof -
  have "card (readable W - seen') \<le> card (readable W - seen)"
    using assms by (intro card_mono) auto
  with assms(3) show ?thesis by simp
qed

text \<open>Each nested import is of a file not seen before, so as much fuel as unseen files is enough.\<close>

lemma resolve_enough_fuel:
  shows "offline G W \<Longrightarrow> finite (readable W) \<Longrightarrow> card (readable W - l_seen st) \<le> n \<Longrightarrow>
     \<exists>st'. resolve G W n baseDir pack st = Some st' \<and> l_seen st \<subseteq> l_seen st'"
  and "offline G W \<Longrightarrow> finite (readable W) \<Longrightarrow> card (readable W - l_seen st) \<le> n \<Longrightarrow>
     \<exists>st'. resolveSpecs G W n baseDir name specs st = Some st' \<and> l_seen st \<subseteq> l_seen st'"
  and "offline G W \<Longrightarrow> finite (readable W) \<Longrightarrow> card (readable W - l_seen st) \<le> n \<Longrightarrow>
     \<forall>sp \<in> set sps. p_SourcePath sp \<noteq> [] \<and> p_SourcePath sp \<in> readable W \<Longrightarrow>
     \<exists>st'. resolveSubs G W n baseDir spec sps st = Some st' \<and> l_seen st \<subseteq> l_seen st'"
proof (induction G W n baseDir pack st and G W n baseDir name specs st and G W n baseDir spec sps st
    rule: resolve_resolveSpecs_resolveSubs.induct)
  case (3 G W n baseDir name spec specs st)
  show ?case
  proof (cases "resolveImportSpec G W baseDir spec")
    case (Inr subs)
    obtain st1 where st1: "resolveSubs G W n baseDir spec subs st = Some st1" "l_seen st \<subseteq> l_seen st1"
      using "3.IH"(1) [OF Inr "3.prems"] offline_subs [OF "3.prems"(1) Inr] by blast
    obtain st2 where "resolveSpecs G W n baseDir name specs st1 = Some st2" "l_seen st1 \<subseteq> l_seen st2"
      using "3.IH"(2) [OF Inr st1(1) "3.prems"(1,2)]
        unseen_mono [OF "3.prems"(2) st1(2) "3.prems"(3)] by blast
    with Inr st1 show ?thesis by auto
  qed simp
next
  case (5 G W n baseDir spec sp sps st)
  let ?k = "p_SourcePath sp"
  from "5.prems"(4) have k: "?k \<noteq> []" "?k \<in> readable W"
    and sps: "\<forall>sp \<in> set sps. p_SourcePath sp \<noteq> [] \<and> p_SourcePath sp \<in> readable W" by auto
  show ?case
  proof (cases "?k \<in> l_seen st")
    case True
    then show ?thesis using "5.IH"(1) [OF refl _ "5.prems"(1-3) sps] k by simp
  next
    case False
    then obtain m where m: "n = Suc m" "card (readable W - insert ?k (l_seen st)) \<le> m"
      using unseen_less "5.prems"(2,3) k by metis
    let ?st = "st\<lparr>l_seen := insert ?k (l_seen st)\<rparr>"
    obtain st1 where st1: "resolve G W m (pathDir ?k) sp ?st = Some st1" "insert ?k (l_seen st) \<subseteq> l_seen st1"
      using "5.IH"(2) [OF refl _ m(1) "5.prems"(1,2)] False k m(2) by auto
    then have "l_seen st \<subseteq> l_seen st1" by simp
    then have "card (readable W - l_seen st1) \<le> n" by (rule unseen_mono [OF "5.prems"(2) _ "5.prems"(3)])
    then obtain st2 where "resolveSubs G W n baseDir spec sps st1 = Some st2" "l_seen st1 \<subseteq> l_seen st2"
      using "5.IH"(3) [OF refl _ m(1) _ "5.prems"(1,2) _ sps, of st1] False k st1(1) by auto
    with False k m(1) st1 show ?thesis by auto
  qed
qed auto

lemma resolveAll_enough_fuel:
  assumes "offline G W" "finite (readable W)" "card (readable W) \<le> n"
  shows "\<exists>r. resolveAll G W n ps st = Some r"
proof (induction ps arbitrary: st)
  case (Cons p ps)
  have "card (readable W - seen) \<le> n" for seen
    using unseen_mono [OF assms(2), of "{}" seen n] assms(3) by simp
  then obtain st' where "resolve G W n (importBase ''.'' p) p (st\<lparr>l_seen := insert (selfKey p) (l_seen st)\<rparr>) = Some st'"
    using resolve_enough_fuel(1) [OF assms(1,2)] by blast
  then show ?case using Cons [of st'] by (auto split: option.split)
qed simp

text \<open>More fuel does not change a result.\<close>

lemma resolve_fuel_mono:
  shows "resolve G W n baseDir pack st = Some st' \<Longrightarrow> n \<le> k \<Longrightarrow> resolve G W k baseDir pack st = Some st'"
  and "resolveSpecs G W n baseDir name specs st = Some st' \<Longrightarrow> n \<le> k \<Longrightarrow> resolveSpecs G W k baseDir name specs st = Some st'"
  and "resolveSubs G W n baseDir spec sps st = Some st' \<Longrightarrow> n \<le> k \<Longrightarrow> resolveSubs G W k baseDir spec sps st = Some st'"
proof (induction G W n baseDir pack st and G W n baseDir name specs st and G W n baseDir spec sps st
    arbitrary: k st' and k st' and k st' rule: resolve_resolveSpecs_resolveSubs.induct)
  case (1 G W n baseDir pack st)
  from "1.prems"(1) have "resolveSpecs G W n baseDir (packName pack) (p_Imports pack) (emit pack st) = Some st'"
    by simp
  from "1.IH" [OF this "1.prems"(2)] show ?case by simp
next
  case (3 G W n baseDir name spec specs st)
  show ?case
  proof (cases "resolveImportSpec G W baseDir spec")
    case (Inr subs)
    with "3.prems"(1) obtain st1 where st1: "resolveSubs G W n baseDir spec subs st = Some st1"
      and rest: "resolveSpecs G W n baseDir name specs st1 = Some st'"
      by (auto split: option.splits)
    have "resolveSubs G W k baseDir spec subs st = Some st1"
      using "3.IH"(1) [OF Inr st1 "3.prems"(2)] .
    moreover have "resolveSpecs G W k baseDir name specs st1 = Some st'"
      using "3.IH"(2) [OF Inr st1 rest "3.prems"(2)] .
    ultimately show ?thesis using Inr by simp
  qed (use "3.prems" in simp)
next
  case (5 G W n baseDir spec sp sps st)
  show ?case
  proof (cases "importKey spec sp \<in> l_seen st")
    case True
    then have "resolveSubs G W n baseDir spec sps st = Some st'" using "5.prems"(1) by simp
    then have "resolveSubs G W k baseDir spec sps st = Some st'"
      using "5.IH"(1) [OF refl True _ "5.prems"(2)] by blast
    with True show ?thesis by simp
  next
    case False
    with "5.prems"(1) obtain m st1 where m: "n = Suc m"
      and st1: "resolve G W m (importBase baseDir sp) sp (st\<lparr>l_seen := insert (importKey spec sp) (l_seen st)\<rparr>) = Some st1"
      and rest: "resolveSubs G W n baseDir spec sps st1 = Some st'"
      by (cases n) (auto simp del: resolve.simps split: option.splits)
    from m "5.prems"(2) obtain k' where k': "k = Suc k'" "m \<le> k'" by (cases k) auto
    have "resolve G W k' (importBase baseDir sp) sp (st\<lparr>l_seen := insert (importKey spec sp) (l_seen st)\<rparr>) = Some st1"
      using "5.IH"(2) [OF refl False m st1 k'(2)] .
    moreover have "resolveSubs G W k baseDir spec sps st1 = Some st'"
      using "5.IH"(3) [OF refl False m st1 rest "5.prems"(2)] .
    ultimately show ?thesis using False k' by simp
  qed
qed simp_all

lemma resolveAll_fuel_mono:
  "resolveAll G W n ps st = Some r \<Longrightarrow> n \<le> k \<Longrightarrow> resolveAll G W k ps st = Some r"
  by (induction ps arbitrary: st)
    (auto split: option.splits dest: resolve_fuel_mono(1) [where k = k] simp del: resolve.simps)

section \<open>The import closure\<close>

text \<open>
  What a load promises: the packs it yields are those reached from the packs of its path by
  following imports, each import read relative to the directory of the importing file.
\<close>

inductive imported :: "'rx golib \<Rightarrow> loadWorld \<Rightarrow> rulePack list \<Rightarrow> rulePack \<Rightarrow> bool" for G W roots where
  imported_root: "p \<in> set roots \<Longrightarrow> imported G W roots p"
| imported_step: "imported G W roots p \<Longrightarrow> spec \<in> set (p_Imports p) \<Longrightarrow>
    resolveImportSpec G W (pathDir (p_SourcePath p)) spec = Inr subs \<Longrightarrow> sp \<in> set subs \<Longrightarrow>
    imported G W roots sp"

definition okPack :: "'rx golib \<Rightarrow> loadWorld \<Rightarrow> rulePack list \<Rightarrow> rulePack \<Rightarrow> bool" where
  "okPack G W roots p \<longleftrightarrow> fileLoaded W p \<and> p_SourcePath p \<noteq> [] \<and> imported G W roots p"

definition outInv :: "'rx golib \<Rightarrow> loadWorld \<Rightarrow> rulePack list \<Rightarrow> loadState \<Rightarrow> bool" where
  "outInv G W roots st \<longleftrightarrow> list_all (okPack G W roots) (l_out st)
     \<and> l_emitted st = p_SourcePath ` set (l_out st) \<and> distinct (map p_SourcePath (l_out st))"

definition loadInv :: "'rx golib \<Rightarrow> loadWorld \<Rightarrow> rulePack list \<Rightarrow> loadState \<Rightarrow> bool" where
  "loadInv G W roots st \<longleftrightarrow> outInv G W roots st \<and> l_seen st \<subseteq> l_emitted st"

definition importsIn :: "'rx golib \<Rightarrow> loadWorld \<Rightarrow> string set \<Rightarrow> rulePack \<Rightarrow> bool" where
  "importsIn G W keys p \<longleftrightarrow> (\<forall>spec \<in> set (p_Imports p). \<exists>subs.
     resolveImportSpec G W (pathDir (p_SourcePath p)) spec = Inr subs \<and> p_SourcePath ` set subs \<subseteq> keys)"

definition loadGrows :: "'rx golib \<Rightarrow> loadWorld \<Rightarrow> rulePack list \<Rightarrow> loadState \<Rightarrow> loadState \<Rightarrow> bool" where
  "loadGrows G W roots st st' \<longleftrightarrow> loadInv G W roots st' \<and> l_emitted st \<subseteq> l_emitted st'
     \<and> (\<forall>p \<in> set (l_out st'). p \<in> set (l_out st) \<or> importsIn G W (l_emitted st') p)"

lemma importsIn_mono: "importsIn G W keys p \<Longrightarrow> keys \<subseteq> keys' \<Longrightarrow> importsIn G W keys' p"
  by (fastforce simp: importsIn_def)

lemma loadGrows_refl: "loadInv G W roots st \<Longrightarrow> loadGrows G W roots st st"
  by (simp add: loadGrows_def)

lemma loadGrows_trans: "loadGrows G W roots a b \<Longrightarrow> loadGrows G W roots b c \<Longrightarrow> loadGrows G W roots a c"
  unfolding loadGrows_def by (meson importsIn_mono subset_trans)

lemma emit_inv:
  assumes "outInv G W roots st" "okPack G W roots p" "l_seen st \<subseteq> insert (p_SourcePath p) (l_emitted st)"
  shows "loadInv G W roots (emit p st) \<and> l_emitted (emit p st) = insert (p_SourcePath p) (l_emitted st)
    \<and> set (l_out st) \<subseteq> set (l_out (emit p st)) \<and> set (l_out (emit p st)) \<subseteq> insert p (set (l_out st))"
  using assms by (auto simp: loadInv_def outInv_def emit_def okPack_def)

lemma okPack_subs:
  assumes "offline G W" "okPack G W roots p" "spec \<in> set (p_Imports p)"
    "resolveImportSpec G W (pathDir (p_SourcePath p)) spec = Inr subs"
  shows "\<forall>sp \<in> set subs. okPack G W roots sp"
  using assms offline_subs [OF assms(1,4)] imported_step by (fastforce simp: okPack_def)

text \<open>An import error is never lost.\<close>

lemma importErr_kept:
  shows "resolve G W n baseDir pack st = Some st' \<Longrightarrow> l_importErr st' = None \<Longrightarrow> l_importErr st = None"
  and "resolveSpecs G W n baseDir name specs st = Some st' \<Longrightarrow> l_importErr st' = None \<Longrightarrow> l_importErr st = None"
  and "resolveSubs G W n baseDir spec sps st = Some st' \<Longrightarrow> l_importErr st' = None \<Longrightarrow> l_importErr st = None"
proof (induction G W n baseDir pack st and G W n baseDir name specs st and G W n baseDir spec sps st
    arbitrary: st' and st' and st' rule: resolve_resolveSpecs_resolveSubs.induct)
  case (3 G W n baseDir name spec specs st)
  show ?case
  proof (cases "resolveImportSpec G W baseDir spec")
    case (Inr subs)
    with "3.prems"(1) obtain st1 where st1: "resolveSubs G W n baseDir spec subs st = Some st1"
      and rest: "resolveSpecs G W n baseDir name specs st1 = Some st'"
      by (auto split: option.splits)
    show ?thesis using "3.IH"(1) [OF Inr st1] "3.IH"(2) [OF Inr st1 rest "3.prems"(2)] by blast
  qed (use "3.prems" in auto)
next
  case (5 G W n baseDir spec sp sps st)
  show ?case
  proof (cases "importKey spec sp \<in> l_seen st")
    case True
    then show ?thesis using "5.prems" "5.IH"(1) [OF refl True] by simp
  next
    case False
    with "5.prems"(1) obtain m st1 where m: "n = Suc m"
      and st1: "resolve G W m (importBase baseDir sp) sp (st\<lparr>l_seen := insert (importKey spec sp) (l_seen st)\<rparr>) = Some st1"
      and rest: "resolveSubs G W n baseDir spec sps st1 = Some st'"
      by (cases n) (auto simp del: resolve.simps split: option.splits)
    have "l_importErr st1 = None" using "5.IH"(3) [OF refl False m st1 rest "5.prems"(2)] .
    from "5.IH"(2) [OF refl False m st1 this] show ?thesis by simp
  qed
qed auto

lemma resolve_grows:
  shows "offline G W \<Longrightarrow> resolve G W n baseDir pack st = Some st' \<Longrightarrow> l_importErr st' = None \<Longrightarrow>
     baseDir = pathDir (p_SourcePath pack) \<Longrightarrow> okPack G W roots pack \<Longrightarrow> outInv G W roots st \<Longrightarrow>
     l_seen st \<subseteq> insert (p_SourcePath pack) (l_emitted st) \<Longrightarrow>
     loadGrows G W roots st st' \<and> p_SourcePath pack \<in> l_emitted st'"
  and "offline G W \<Longrightarrow> resolveSpecs G W n baseDir name specs st = Some st' \<Longrightarrow> l_importErr st' = None \<Longrightarrow>
     okPack G W roots p \<Longrightarrow> baseDir = pathDir (p_SourcePath p) \<Longrightarrow> set specs \<subseteq> set (p_Imports p) \<Longrightarrow>
     loadInv G W roots st \<Longrightarrow>
     loadGrows G W roots st st' \<and> (\<forall>spec \<in> set specs. \<exists>subs. resolveImportSpec G W baseDir spec = Inr subs
       \<and> p_SourcePath ` set subs \<subseteq> l_emitted st')"
  and "offline G W \<Longrightarrow> resolveSubs G W n baseDir spec sps st = Some st' \<Longrightarrow> l_importErr st' = None \<Longrightarrow>
     \<forall>sp \<in> set sps. okPack G W roots sp \<Longrightarrow> loadInv G W roots st \<Longrightarrow>
     loadGrows G W roots st st' \<and> p_SourcePath ` set sps \<subseteq> l_emitted st'"
proof (induction G W n baseDir pack st and G W n baseDir name specs st and G W n baseDir spec sps st
    arbitrary: st' and st' p and st' rule: resolve_resolveSpecs_resolveSubs.induct)
  case (1 G W n baseDir pack st)
  note em = emit_inv [OF "1.prems"(6,5,7)]
  from "1.prems"(2) have "resolveSpecs G W n baseDir (packName pack) (p_Imports pack) (emit pack st) = Some st'"
    by simp
  from "1.IH" [OF "1.prems"(1) this "1.prems"(3) "1.prems"(5) "1.prems"(4)] em
  have g: "loadGrows G W roots (emit pack st) st'" and cl: "importsIn G W (l_emitted st') pack"
    using "1.prems"(4) by (auto simp: importsIn_def)
  from g em have sub: "l_emitted st \<subseteq> l_emitted st'" "p_SourcePath pack \<in> l_emitted st'"
    by (auto simp: loadGrows_def)
  have "p \<in> set (l_out st) \<or> importsIn G W (l_emitted st') p" if "p \<in> set (l_out st')" for p
    using g em cl that unfolding loadGrows_def by blast
  with g sub show ?case by (simp add: loadGrows_def)
next
  case (2 G W n baseDir name st)
  then show ?case by (simp add: loadGrows_refl)
next
  case (3 G W n baseDir name spec specs st)
  show ?case
  proof (cases "resolveImportSpec G W baseDir spec")
    case (Inl e)
    with "3.prems" show ?thesis by auto
  next
    case (Inr subs)
    with "3.prems"(2) obtain st1 where st1: "resolveSubs G W n baseDir spec subs st = Some st1"
      and rest: "resolveSpecs G W n baseDir name specs st1 = Some st'"
      by (auto split: option.splits)
    have "l_importErr st1 = None" using importErr_kept(2) [OF rest "3.prems"(3)] .
    moreover have "\<forall>sp \<in> set subs. okPack G W roots sp"
      using okPack_subs [OF "3.prems"(1,4)] Inr "3.prems"(5,6) by auto
    ultimately have g1: "loadGrows G W roots st st1" and s1: "p_SourcePath ` set subs \<subseteq> l_emitted st1"
      using "3.IH"(1) [OF Inr "3.prems"(1) st1 _ _ "3.prems"(7)] by auto
    from g1 have "loadInv G W roots st1" by (simp add: loadGrows_def)
    with "3.IH"(2) [OF Inr st1 "3.prems"(1) rest "3.prems"(3,4,5)] "3.prems"(6)
    have g2: "loadGrows G W roots st1 st'" and s2: "\<forall>spec \<in> set specs. \<exists>subs.
        resolveImportSpec G W baseDir spec = Inr subs \<and> p_SourcePath ` set subs \<subseteq> l_emitted st'" by auto
    from g2 s1 have "p_SourcePath ` set subs \<subseteq> l_emitted st'" by (auto simp: loadGrows_def)
    with loadGrows_trans [OF g1 g2] s2 Inr show ?thesis by simp
  qed
next
  case (4 G W n baseDir spec st)
  then show ?case by (simp add: loadGrows_refl)
next
  case (5 G W n baseDir spec sp sps st)
  from "5.prems"(4) have sp: "okPack G W roots sp" and sps: "\<forall>sp \<in> set sps. okPack G W roots sp" by auto
  from sp have ne: "p_SourcePath sp \<noteq> []" by (simp add: okPack_def)
  show ?case
  proof (cases "importKey spec sp \<in> l_seen st")
    case True
    with "5.prems"(2) have "resolveSubs G W n baseDir spec sps st = Some st'" by simp
    from "5.IH"(1) [OF refl True "5.prems"(1) this "5.prems"(3) sps "5.prems"(5)] True "5.prems"(5) ne
    show ?thesis by (auto simp: loadGrows_def loadInv_def)
  next
    case False
    let ?st = "st\<lparr>l_seen := insert (importKey spec sp) (l_seen st)\<rparr>"
    from False "5.prems"(2) obtain m st1 where m: "n = Suc m"
      and st1: "resolve G W m (importBase baseDir sp) sp ?st = Some st1"
      and rest: "resolveSubs G W n baseDir spec sps st1 = Some st'"
      by (cases n) (auto simp del: resolve.simps split: option.splits)
    have err1: "l_importErr st1 = None" using importErr_kept(3) [OF rest "5.prems"(3)] .
    have "outInv G W roots ?st" "l_seen ?st \<subseteq> insert (p_SourcePath sp) (l_emitted ?st)"
      using "5.prems"(5) ne by (auto simp: loadInv_def outInv_def)
    with "5.IH"(2) [OF refl False m "5.prems"(1) st1 err1 _ sp] ne
    have g1: "loadGrows G W roots ?st st1" and s1: "p_SourcePath sp \<in> l_emitted st1" by auto
    from g1 have "loadInv G W roots st1" by (simp add: loadGrows_def)
    with "5.IH"(3) [OF refl False m st1 "5.prems"(1) rest "5.prems"(3) sps]
    have g2: "loadGrows G W roots st1 st'" and s2: "p_SourcePath ` set sps \<subseteq> l_emitted st'" by auto
    from g1 have "loadGrows G W roots st st1" by (simp add: loadGrows_def)
    then have "loadGrows G W roots st st'" using g2 loadGrows_trans by blast
    moreover from g2 s1 have "p_SourcePath sp \<in> l_emitted st'" by (auto simp: loadGrows_def)
    ultimately show ?thesis using s2 by auto
  qed
qed

lemma resolveAll_grows:
  assumes "offline G W" "resolveAll G W n ps st = Some (Inr st')" "\<forall>p \<in> set ps. okPack G W roots p"
    "loadInv G W roots st"
  shows "loadGrows G W roots st st' \<and> p_SourcePath ` set ps \<subseteq> l_emitted st'"
  using assms(2-)
proof (induction ps arbitrary: st)
  case Nil
  then show ?case by (simp add: loadGrows_refl)
next
  case (Cons p ps)
  let ?st = "st\<lparr>l_seen := insert (selfKey p) (l_seen st)\<rparr>"
  from Cons.prems(2) have ok: "okPack G W roots p" and ne: "p_SourcePath p \<noteq> []"
    by (auto simp: okPack_def)
  from Cons.prems(1) obtain st1 where st1: "resolve G W n (importBase ''.'' p) p ?st = Some st1"
    "l_importErr st1 = None" and rest: "resolveAll G W n ps st1 = Some (Inr st')"
    by (auto split: option.splits simp del: resolve.simps)
  have "outInv G W roots ?st" "l_seen ?st \<subseteq> insert (p_SourcePath p) (l_emitted ?st)"
    using Cons.prems(3) ne by (auto simp: loadInv_def outInv_def)
  with resolve_grows(1) [OF assms(1) st1 _ ok] ne
  have g1: "loadGrows G W roots st st1" and s1: "p_SourcePath p \<in> l_emitted st1" by (auto simp: loadGrows_def)
  from g1 have "loadInv G W roots st1" by (simp add: loadGrows_def)
  with Cons.IH [OF rest] Cons.prems(2)
  have g2: "loadGrows G W roots st1 st'" and s2: "p_SourcePath ` set ps \<subseteq> l_emitted st'" by auto
  from g2 s1 have "p_SourcePath p \<in> l_emitted st'" by (auto simp: loadGrows_def)
  with s2 loadGrows_trans [OF g1 g2] show ?case by simp
qed

lemma LoadPacks_Inr:
  assumes "LoadPacks G W n path = Some (Inr out)"
  obtains roots st where "loadRoots W path = Inr roots" "resolveAll G W n roots initLoad = Some (Inr st)"
    "out = l_out st" "checkUniqueNames out = None" "checkAllPatterns G out = None"
  using assms by (auto simp: LoadPacks_def split: sum.splits option.splits)

lemma LoadPacks_Some:
  "loadRoots W path = Inr roots \<Longrightarrow> resolveAll G W n roots initLoad = Some r \<Longrightarrow>
   \<exists>r'. LoadPacks G W n path = Some r'"
  by (simp add: LoadPacks_def split: sum.split option.split)

lemma loadInv_initLoad: "loadInv G W roots initLoad"
  by (simp add: initLoad_def loadInv_def outInv_def)

lemma load_closure:
  assumes off: "offline G W" and load: "LoadPacks G W n path = Some (Inr out)"
    and roots: "loadRoots W path = Inr roots"
  shows "outInv G W roots \<lparr>l_seen = {}, l_emitted = p_SourcePath ` set out, l_out = out, l_importErr = None\<rparr>"
    and "set out = {p. imported G W roots p}"
    and "\<forall>p \<in> set out. importsIn G W (p_SourcePath ` set out) p"
proof -
  from load roots obtain st where st: "resolveAll G W n roots initLoad = Some (Inr st)" "out = l_out st"
    by (metis LoadPacks_Inr sum.inject(2))
  have "\<forall>p \<in> set roots. okPack G W roots p"
    using offline_roots [OF off roots] by (auto simp: okPack_def imported_root)
  from resolveAll_grows [OF off st(1) this loadInv_initLoad]
  have g: "loadGrows G W roots initLoad st" and s: "p_SourcePath ` set roots \<subseteq> l_emitted st" by auto
  from g have inv: "outInv G W roots st" by (simp add: loadGrows_def loadInv_def)
  then have em: "l_emitted st = p_SourcePath ` set out" using st(2) by (simp add: outInv_def)
  from g em st(2) show imps: "\<forall>p \<in> set out. importsIn G W (p_SourcePath ` set out) p"
    by (auto simp: loadGrows_def initLoad_def)
  from inv em st(2) show "outInv G W roots \<lparr>l_seen = {}, l_emitted = p_SourcePath ` set out, l_out = out, l_importErr = None\<rparr>"
    by (simp add: outInv_def)
  have known: "p \<in> set out" if "fileLoaded W p" "p_SourcePath p \<in> p_SourcePath ` set out" for p
    using that inv st(2) fileLoaded_unique by (fastforce simp: outInv_def list_all_iff okPack_def)
  have "p \<in> set out" if "imported G W roots p" for p
    using that
  proof induction
    case (imported_root p)
    then show ?case using known offline_roots [OF off roots] s em by blast
  next
    case (imported_step p spec subs sp)
    then have "p_SourcePath ` set subs \<subseteq> p_SourcePath ` set out"
      using imps by (fastforce simp: importsIn_def)
    then show ?case using known offline_subs [OF off imported_step.hyps(3)] imported_step.hyps(4) by blast
  qed
  with inv st(2) show "set out = {p. imported G W roots p}"
    by (auto simp: outInv_def list_all_iff okPack_def)
qed

lemma uniqueNames_None:
  "uniqueNames seen ps = None \<longleftrightarrow>
     distinct (filter (\<lambda>n. n \<noteq> []) (map packName ps))
     \<and> dom seen \<inter> {n \<in> set (map packName ps). n \<noteq> []} = {}"
proof (induction ps arbitrary: seen)
  case (Cons p ps)
  show ?case
  proof (cases "packName p = []")
    case True
    then show ?thesis using Cons [of seen] by auto
  next
    case named: False
    show ?thesis
    proof (cases "seen (packName p)")
      case None
      have "dom (seen(packName p \<mapsto> sourceOf p)) = insert (packName p) (dom seen)" by simp
      with named None show ?thesis
        unfolding uniqueNames.simps
        by (simp only: Cons if_False option.case) (auto simp: domIff)
    next
      case (Some src)
      with named show ?thesis by auto
    qed
  qed
qed simp

lemma checkAllPatterns_None: "checkAllPatterns G ps = None \<longleftrightarrow> list_all (\<lambda>p. CheckPatterns G p = []) ps"
  by (induction ps) auto

section \<open>Properties\<close>

text \<open>A two-file world whose packs import each other, for the witnesses.\<close>

definition packA :: rulePack where
  "packA = zeroPack\<lparr>p_Imports := [''b.yaml'']\<rparr>"

definition packB :: rulePack where
  "packB = zeroPack\<lparr>p_Metadata := zeroMetadata\<lparr>m_Name := ''beta''\<rparr>, p_Imports := [''a.yaml'', ''../r/./b.yaml'']\<rparr>"

definition cycleWorld :: loadWorld where
  "cycleWorld = \<lparr>
     w_stat = (\<lambda>p. if p = ''/r/a.yaml'' \<or> p = ''/r/b.yaml'' then Inr False else Inl ''ENOENT''),
     w_lstat = (\<lambda>_. Inl ''ENOENT''),
     w_read = (\<lambda>p. if p = ''/r/a.yaml'' then Inr ''A'' else if p = ''/r/b.yaml'' then Inr ''B'' else Inl ''ENOENT''),
     w_unmarshal = (\<lambda>d. if d = ''A'' then Inr packA else Inr packB),
     w_glob = (\<lambda>_. Inr []), w_match = (\<lambda>_ _. False), w_get = (\<lambda>_. Inl ''refused'')\<rparr>"

definition loadedA :: rulePack where
  "loadedA = packA\<lparr>p_Kind := ''RulePack'', p_APIVersion := ''promptshield.io/v1'',
     p_Metadata := zeroMetadata\<lparr>m_Name := ''a.yaml''\<rparr>, p_SourcePath := ''/r/a.yaml''\<rparr>"

definition loadedB :: rulePack where
  "loadedB = packB\<lparr>p_Kind := ''RulePack'', p_APIVersion := ''promptshield.io/v1'', p_SourcePath := ''/r/b.yaml''\<rparr>"

lemma cycle_loadFile:
  "loadFile cycleWorld ''/r/a.yaml'' = Inr loadedA" "loadFile cycleWorld ''/r/b.yaml'' = Inr loadedB"
  by (simp_all add: loadFile_def cycleWorld_def packA_def packB_def loadedA_def loadedB_def zeroPack_def
      zeroMetadata_def fillDefaults_def validateSupportedFeatures_def pathBase_def Let_def)

lemma cycle_dirs: "pathDir ''/r/a.yaml'' = ''/r''" "pathDir ''/r/b.yaml'' = ''/r''"
  by (simp_all add: pathDir_def pathClean_def isAbs_def hasPrefix_def Let_def)

lemma cycle_imports:
  "resolveImportSpec litLib cycleWorld ''/r'' ''a.yaml'' = Inr [loadedA]"
  "resolveImportSpec litLib cycleWorld ''/r'' ''b.yaml'' = Inr [loadedB]"
  "resolveImportSpec litLib cycleWorld ''/r'' ''../r/./b.yaml'' = Inr [loadedB]"
proof -
  have trim: "strTrimSpace s = s" if "s \<in> {''a.yaml'', ''b.yaml'', ''../r/./b.yaml''}" for s
    using that by (auto simp: strTrimSpace_def runeSegs_ascii isSpaceRune_def byte_def)
  have spec: "resolveImportSpec litLib cycleWorld ''/r'' s = Inr [q]"
    if "s \<in> {''a.yaml'', ''b.yaml'', ''../r/./b.yaml''}" "underBase ''/r'' s = f"
      "f = ''/r/a.yaml'' \<or> f = ''/r/b.yaml''" "loadFile cycleWorld f = Inr q" for s f q
  proof -
    have "w_stat cycleWorld f = Inr False" "hasYAMLExt f"
      using that(3) by (auto simp: cycleWorld_def hasYAMLExt_def pathExt_def)
    moreover have "s \<noteq> []" "\<not> hasPrefix s ''http://''" "\<not> hasPrefix s ''https://''" "\<not> strContains s ''@''"
      "\<not> strContains s ''**''" "\<not> (\<exists>c \<in> set s. c \<in> set ''*?['')"
      using that(1) by (auto simp: hasPrefix_def strContains_def)
    ultimately show ?thesis
      using that(2,4) trim [OF that(1)]
      by (simp only: resolveImportSpec_def resolveFileSpec_def Let_def if_False if_True sum.simps simp_thms)
  qed
  show "resolveImportSpec litLib cycleWorld ''/r'' ''a.yaml'' = Inr [loadedA]"
    by (rule spec [where f = "''/r/a.yaml''"])
      (simp_all add: underBase_def isAbs_def pathJoin_def pathClean_def hasPrefix_def cycle_loadFile)
  show "resolveImportSpec litLib cycleWorld ''/r'' ''b.yaml'' = Inr [loadedB]"
    by (rule spec [where f = "''/r/b.yaml''"])
      (simp_all add: underBase_def isAbs_def pathJoin_def pathClean_def hasPrefix_def cycle_loadFile)
  show "resolveImportSpec litLib cycleWorld ''/r'' ''../r/./b.yaml'' = Inr [loadedB]"
    by (rule spec [where f = "''/r/b.yaml''"])
      (simp_all add: underBase_def isAbs_def pathJoin_def pathClean_def hasPrefix_def cycle_loadFile)
qed

lemma cycle_readable: "readable cycleWorld = {''/r/a.yaml'', ''/r/b.yaml''}"
  by (auto simp: readable_def cycleWorld_def)

lemma cycle_offline: "offline litLib cycleWorld"
  by (simp add: offline_def cycle_readable netImports_def litLib_def)

lemma loaded_simps:
  "p_SourcePath loadedA = ''/r/a.yaml''" "p_Imports loadedA = [''b.yaml'']" "packName loadedA = ''a.yaml''"
  "p_SourcePath loadedB = ''/r/b.yaml''" "p_Imports loadedB = [''a.yaml'', ''../r/./b.yaml'']"
  "packName loadedB = ''beta''" "p_Rules loadedA = []" "p_Rules loadedB = []"
  by (simp_all add: loadedA_def loadedB_def packA_def packB_def zeroPack_def zeroMetadata_def)

lemma cycle_load: "LoadPacks litLib cycleWorld 2 ''/r/a.yaml'' = Some (Inr [loadedA, loadedB])"
proof -
  have "w_stat cycleWorld ''/r/a.yaml'' = Inr False" by (simp add: cycleWorld_def)
  then have "loadRoots cycleWorld ''/r/a.yaml'' = Inr [loadedA]"
    by (simp add: loadRoots_def cycle_loadFile)
  then show ?thesis
    by (simp add: LoadPacks_def initLoad_def loaded_simps cycle_dirs cycle_imports emit_def
        checkUniqueNames_def CheckPatterns_def numeral_2_eq_2 Let_def)
qed

text \<open>
  C8. Cyclic and repeated imports do not make a load run for ever: without network imports, and
  with finitely many readable files, the load returns, and with no more nesting than there are
  files; the result does not depend on how much fuel is left over.
\<close>

theorem LoadPacks_terminates:
  assumes "\<not> netImports G" "[] \<notin> readable W" "finite (readable W)"
  shows "\<exists>r. \<forall>n \<ge> card (readable W). LoadPacks G W n path = Some r"
proof (cases "loadRoots W path")
  case (Inl e)
  then show ?thesis by (simp add: LoadPacks_def)
next
  case (Inr roots)
  from assms have off: "offline G W" by (simp add: offline_def)
  let ?c = "card (readable W)"
  obtain r where r: "resolveAll G W ?c roots initLoad = Some r"
    using resolveAll_enough_fuel [OF off assms(3)] by blast
  have "LoadPacks G W n path = LoadPacks G W ?c path" if "?c \<le> n" for n
    unfolding LoadPacks_def Inr using r resolveAll_fuel_mono [OF r that] by simp
  moreover obtain r' where "LoadPacks G W ?c path = Some r'"
    using LoadPacks_Some [OF Inr r] by blast
  ultimately show ?thesis by metis
qed

theorem LoadPacks_terminates_witness:
  "\<exists>r. \<forall>n \<ge> 2. LoadPacks litLib cycleWorld n ''/r/a.yaml'' = Some r"
  using LoadPacks_terminates [of litLib cycleWorld "''/r/a.yaml''"] cycle_offline
  by (simp add: offline_def cycle_readable numeral_2_eq_2)

text \<open>
  C7. A successful load without the network yields exactly the import closure of the packs at
  its path, each file once: nothing is missing and nothing else comes in.
\<close>

theorem LoadPacks_import_closure:
  assumes "\<not> netImports G" "[] \<notin> readable W" "LoadPacks G W n path = Some (Inr out)"
  shows "\<exists>roots. loadRoots W path = Inr roots \<and> set out = {p. imported G W roots p}
    \<and> distinct (map p_SourcePath out)"
proof -
  from assms have off: "offline G W" by (simp add: offline_def)
  obtain roots where roots: "loadRoots W path = Inr roots" by (rule LoadPacks_Inr [OF assms(3)])
  from load_closure(1,2) [OF off assms(3) roots] roots show ?thesis by (auto simp: outInv_def)
qed

theorem LoadPacks_import_closure_witness:
  "LoadPacks litLib cycleWorld 2 ''/r/a.yaml'' = Some (Inr [loadedA, loadedB])
   \<and> (\<exists>roots. loadRoots cycleWorld ''/r/a.yaml'' = Inr roots
        \<and> {loadedA, loadedB} = {p. imported litLib cycleWorld roots p})"
  using LoadPacks_import_closure [OF _ _ cycle_load] cycle_load cycle_offline
  by (auto simp: offline_def)

text \<open>The same two files, the second of which imports over the network instead.\<close>

definition packX :: rulePack where
  "packX = packB\<lparr>p_Imports := [''http://x'']\<rparr>"

definition loadedX :: rulePack where
  "loadedX = loadedB\<lparr>p_Imports := [''http://x'']\<rparr>"

definition brokenWorld :: loadWorld where
  "brokenWorld = cycleWorld\<lparr>w_unmarshal := (\<lambda>d. if d = ''A'' then Inr packA else Inr packX)\<rparr>"

lemma broken_loadFile:
  "loadFile brokenWorld ''/r/a.yaml'' = Inr loadedA" "loadFile brokenWorld ''/r/b.yaml'' = Inr loadedX"
  by (simp_all add: loadFile_def brokenWorld_def cycleWorld_def packA_def packB_def packX_def loadedA_def
      loadedB_def loadedX_def zeroPack_def zeroMetadata_def fillDefaults_def validateSupportedFeatures_def
      pathBase_def Let_def)

lemma broken_facts:
  "readable brokenWorld = {''/r/a.yaml'', ''/r/b.yaml''}"
  "loadRoots brokenWorld ''/r/a.yaml'' = Inr [loadedA]"
proof -
  show "readable brokenWorld = {''/r/a.yaml'', ''/r/b.yaml''}"
    by (auto simp: readable_def brokenWorld_def cycleWorld_def split: if_splits)
  have "w_stat brokenWorld ''/r/a.yaml'' = Inr False" by (simp add: brokenWorld_def cycleWorld_def)
  then show "loadRoots brokenWorld ''/r/a.yaml'' = Inr [loadedA]"
    by (simp add: loadRoots_def broken_loadFile)
qed

lemma broken_imports:
  "resolveImportSpec litLib brokenWorld ''/r'' ''b.yaml'' = Inr [loadedX]"
  "resolveImportSpec litLib brokenWorld ''/r'' ''http://x'' = Inl NetDisabled"
proof -
  have trim: "strTrimSpace s = s" if "s \<in> {''b.yaml'', ''http://x''}" for s
    using that by (auto simp: strTrimSpace_def runeSegs_ascii isSpaceRune_def byte_def)
  have "w_stat brokenWorld ''/r/b.yaml'' = Inr False" by (simp add: brokenWorld_def cycleWorld_def)
  moreover have "underBase ''/r'' ''b.yaml'' = ''/r/b.yaml''"
    by (simp add: underBase_def isAbs_def pathJoin_def pathClean_def hasPrefix_def)
  ultimately show "resolveImportSpec litLib brokenWorld ''/r'' ''b.yaml'' = Inr [loadedX]"
    by (simp add: resolveImportSpec_def resolveFileSpec_def Let_def trim hasPrefix_def strContains_def
        hasYAMLExt_def pathExt_def broken_loadFile)
  show "resolveImportSpec litLib brokenWorld ''/r'' ''http://x'' = Inl NetDisabled"
    by (simp add: resolveImportSpec_def Let_def trim hasPrefix_def netImports_def litLib_def)
qed

text \<open>
  One import that cannot be resolved, however deep, fails the whole load: no partial set of
  packs is returned.
\<close>

theorem LoadPacks_import_error:
  assumes "\<not> netImports G" "[] \<notin> readable W" "finite (readable W)" "card (readable W) \<le> n"
    and "loadRoots W path = Inr roots" "imported G W roots p" "spec \<in> set (p_Imports p)"
    and "resolveImportSpec G W (pathDir (p_SourcePath p)) spec = Inl e"
  shows "\<exists>e'. LoadPacks G W n path = Some (Inl e')"
proof -
  from assms have off: "offline G W" by (simp add: offline_def)
  obtain ra where "resolveAll G W n roots initLoad = Some ra"
    using resolveAll_enough_fuel [OF off assms(3,4)] by blast
  with assms(5) obtain r where r: "LoadPacks G W n path = Some r" using LoadPacks_Some by blast
  show ?thesis
  proof (cases r)
    case (Inr out)
    with r have "LoadPacks G W n path = Some (Inr out)" by simp
    from load_closure(2,3) [OF off this assms(5)] assms(6-8) show ?thesis
      by (fastforce simp: importsIn_def)
  qed (use r in simp)
qed

theorem LoadPacks_import_error_witness:
  "\<exists>e. LoadPacks litLib brokenWorld 2 ''/r/a.yaml'' = Some (Inl e)"
proof (rule LoadPacks_import_error [where roots = "[loadedA]" and p = loadedX and spec = "''http://x''"])
  show "imported litLib brokenWorld [loadedA] loadedX"
    using imported_step [of litLib brokenWorld "[loadedA]" loadedA "''b.yaml''" "[loadedX]" loadedX]
    by (simp add: imported_root loaded_simps cycle_dirs broken_imports)
  show "\<not> netImports litLib" using cycle_offline by (simp add: offline_def)
  show "resolveImportSpec litLib brokenWorld (pathDir (p_SourcePath loadedX)) ''http://x'' = Inl NetDisabled"
    by (simp add: loadedX_def loaded_simps cycle_dirs broken_imports)
qed (simp_all add: broken_facts loadedX_def)

text \<open>
  Every pack of a successful load without the network is well formed: it has a kind, an API
  version and a name, uses only supported strategies and logics, and its patterns compile; no two
  packs share a name.
\<close>

theorem LoadPacks_wellformed:
  assumes "\<not> netImports G" "[] \<notin> readable W" "LoadPacks G W n path = Some (Inr out)"
  shows "distinct (map packName out)
    \<and> list_all (\<lambda>p. p_Kind p \<noteq> [] \<and> p_APIVersion p \<noteq> [] \<and> packName p \<noteq> []
        \<and> validateSupportedFeatures p = None \<and> CheckPatterns G p = []) out"
proof -
  from assms have off: "offline G W" by (simp add: offline_def)
  obtain roots where roots: "loadRoots W path = Inr roots"
    and uniq: "checkUniqueNames out = None" and pats: "checkAllPatterns G out = None"
    by (rule LoadPacks_Inr [OF assms(3)])
  have "list_all (okPack G W roots) out"
    using load_closure(1) [OF off assms(3) roots] by (simp add: outInv_def)
  then have wf: "list_all (\<lambda>p. p_Kind p \<noteq> [] \<and> p_APIVersion p \<noteq> [] \<and> packName p \<noteq> []
      \<and> validateSupportedFeatures p = None) out"
    by (auto simp: list_all_iff okPack_def fileLoaded_def dest: loadFile_Inr)
  then have "filter (\<lambda>n. n \<noteq> []) (map packName out) = map packName out"
    by (auto simp: filter_id_conv list_all_iff)
  then have "distinct (map packName out)"
    using uniq by (simp add: checkUniqueNames_def uniqueNames_None)
  with wf pats show ?thesis by (auto simp: checkAllPatterns_None list_all_iff)
qed

theorem LoadPacks_wellformed_witness:
  "list_all (\<lambda>p. p_Kind p \<noteq> [] \<and> packName p \<noteq> []) [loadedA, loadedB]
   \<and> distinct (map packName [loadedA, loadedB])"
  using LoadPacks_wellformed [OF _ _ cycle_load] cycle_offline by (simp add: offline_def)

text \<open>
  A remote pack is emitted under its name alone, so of two remote packs with one name (or with
  none) only the first is kept, and the check for duplicate names never sees the second.
\<close>

theorem remote_same_name_dropped:
  assumes "p_SourcePath p = []" "p_SourcePath q = []" "packName p = packName q"
  shows "emit q (emit p st) = emit p st"
  using assms by (auto simp: emit_def selfKey_def)

end
