(* ===== verification/Ext_Proc.thy ===== *)
theory Ext_Proc
  imports Scanner_IO Severity Redact "HOL-Library.Sublist"
begin

text \<open>
  The streaming enforcer: \<^verbatim>\<open>processStream\<close> of
  \<^verbatim>\<open>internal/interfaces/grpc/enforcer/process_stream.go\<close> with the responses of
  \<^verbatim>\<open>server.go\<close>. This theory has what one stream does with one message: the handler of each
  message kind is a function from the stream's state to the new state and the action taken. The
  byte accounting shared by concurrent streams is in theory \<^verbatim>\<open>Ext_Proc_Streams\<close>. The scan of a
  window is an argument; there it is \<^const>\<open>ScanReader\<close> on the server's scanner.
\<close>

section \<open>Messages\<close>

record headerValue =
  hv_Key :: string
  hv_Value :: string
  hv_RawValue :: string

text \<open>A header list is absent (\<open>None\<close>) when one of the pointers to it is nil.\<close>

datatype request =
    RequestHeaders
  | ResponseHeaders "headerValue option list option"
  | RequestBody string
  | ResponseBody string
  | RequestTrailers
  | ResponseTrailers
  | OtherRequest

text \<open>
  The body of an immediate response: a text, or the JSON object made of the decision, the
  reason, the violations and the scan's duration.
\<close>

datatype immediateBody = TextBody string | DetailsBody string string "violation list" int

datatype reply =
    HeadersReply
  | ResponseHeadersReply "(string \<times> string) list"
  | RequestBodyReply
  | ResponseBodyReply "string option"
  | RequestTrailersReply
  | ResponseTrailersReply
  | Immediate int "(string \<times> string) list" immediateBody

text \<open>
  \<open>Reply\<close> sends and goes on unless sending fails, \<open>ReplyAnyway\<close> ignores a failure, \<open>Final\<close> sends
  and ends the stream, \<open>Close\<close> sends and, unless that fails, collects the decision and ends the
  stream; \<open>Ignore\<close> sends nothing.
\<close>

datatype action = Reply reply | ReplyAnyway reply | Final reply | Close reply | Ignore

section \<open>State\<close>

text \<open>The fields of the server that stay fixed while it runs; \<open>x_telemetry\<close> is whether it has a collector.\<close>

record 'rx extCfg =
  x_maxStreamBytes :: int
  x_failOn :: string
  x_enforcementMode :: string
  x_windowLimit :: nat
  x_overlap :: nat
  x_inflightLimit :: int
  x_streamSlots :: "nat option"
  x_telemetry :: bool
  x_redactEnabled :: bool
  x_redactRules :: "'rx redactRule list"

record stream =
  s_total :: int
  s_totalResp :: int
  s_decision :: string
  s_reason :: string
  s_lastReqAdded :: int
  s_lastRespAdded :: int
  s_tailReq :: string
  s_tailResp :: string
  s_events :: "(string \<times> string) list"

definition newStream :: stream where
  "newStream = \<lparr>s_total = 0, s_totalResp = 0, s_decision = ''allow'', s_reason = ''no_signals'',
     s_lastReqAdded = 0, s_lastRespAdded = 0, s_tailReq = [], s_tailResp = [], s_events = []\<rparr>"

definition collect :: "'rx extCfg \<Rightarrow> string \<Rightarrow> stream \<Rightarrow> stream" where
  "collect cfg decision st =
     (if x_telemetry cfg then st\<lparr>s_events := s_events st @ [(decision, s_reason st)]\<rparr> else st)"

section \<open>Immediate responses\<close>

definition blockedText :: "string \<Rightarrow> string \<Rightarrow> string" where
  "blockedText decision reason =
     ''{\"blocked\":true,\"decision\":\"'' @ decision @ ''\",\"reason\":\"'' @ reason
     @ ''\",\"message\":\"Request blocked by PromptShield\"}''"

definition sendImmediateResponseWithDetails :: "string \<Rightarrow> string \<Rightarrow> scanResult option \<Rightarrow> reply" where
  "sendImmediateResponseWithDetails decision reason res =
     Immediate 403
       [(''x-ps-decision'', decision), (''x-ps-reason'', reason), (''content-type'', ''application/json'')]
       (case res of
          Some r \<Rightarrow>
            if sr_Violations r \<noteq> [] then DetailsBody decision reason (sr_Violations r) (sr_DurationMs r)
            else TextBody (blockedText decision reason)
        | None \<Rightarrow> TextBody (blockedText decision reason))"

definition sendImmediateResponse :: "string \<Rightarrow> string \<Rightarrow> reply" where
  "sendImmediateResponse decision reason = sendImmediateResponseWithDetails decision reason None"

definition sendImmediateReplacementResponse :: "string \<Rightarrow> string \<Rightarrow> reply" where
  "sendImmediateReplacementResponse body reason =
     Immediate 200 [(''x-ps-decision'', ''replace''), (''x-ps-reason'', reason)]
       (TextBody (if body = [] then ''[CONTENT_REPLACED]'' else body))"

definition hasThresholdHit :: "'rx golib \<Rightarrow> scanResult \<Rightarrow> string \<Rightarrow> bool" where
  "hasThresholdHit G r threshold \<longleftrightarrow>
     threshold \<noteq> [] \<and> list_ex (\<lambda>v. MeetsThreshold G (v_Severity v) threshold) (sr_Violations r)"

definition firstReason :: "scanResult \<Rightarrow> string" where
  "firstReason r = (case sr_Violations r of [] \<Rightarrow> ''signals_detected'' | v # _ \<Rightarrow> v_RuleID v)"

section \<open>Headers\<close>

definition leaks :: "string \<Rightarrow> bool" where
  "leaks val \<longleftrightarrow> strContains val ''api_key='' \<or> strContains val ''password''"

definition headerText :: "headerValue \<Rightarrow> string" where
  "headerText hv = (if hv_RawValue hv = [] then hv_Value hv else hv_RawValue hv)"

definition presentHeaders :: "headerValue option list option \<Rightarrow> headerValue list" where
  "presentHeaders hs = (case hs of None \<Rightarrow> [] | Some l \<Rightarrow> List.map_filter id l)"

definition hasHeader :: "'rx golib \<Rightarrow> string \<Rightarrow> headerValue list \<Rightarrow> bool" where
  "hasHeader G k hs = list_ex (\<lambda>hv. strToLower G (hv_Key hv) = k) hs"

definition onResponseHeaders :: "'rx golib \<Rightarrow> 'rx extCfg \<Rightarrow> headerValue option list option \<Rightarrow> stream \<Rightarrow> stream \<times> action" where
  "onResponseHeaders G cfg hs0 st =
     (let hs = presentHeaders hs0
      in if list_ex (\<lambda>hv. leaks (headerText hv)) hs
         then (let st1 = st\<lparr>s_decision := ''quarantine'', s_reason := ''response-header-leak''\<rparr>
               in (collect cfg (s_decision st1) st1,
                   Final (sendImmediateResponse (s_decision st1) (s_reason st1))))
         else (st, Reply (ResponseHeadersReply
                ((if hasHeader G ''x-ps-decision'' hs then [] else [(''x-ps-decision'', s_decision st)])
                 @ (if hasHeader G ''x-ps-reason'' hs then [] else [(''x-ps-reason'', s_reason st)])
                 @ [(''x-ps-extproc'', ''resp'')]))))"

section \<open>Sliding windows\<close>

definition lastBytes :: "nat \<Rightarrow> string \<Rightarrow> string" where
  "lastBytes n w = drop (length w - n) w"

definition windowOf :: "'rx extCfg \<Rightarrow> string \<Rightarrow> string \<Rightarrow> string" where
  "windowOf cfg tail b =
     (let window = tail @ b
      in if length window > x_windowLimit cfg then lastBytes (x_windowLimit cfg) window else window)"

definition tailOf :: "'rx extCfg \<Rightarrow> string \<Rightarrow> string" where
  "tailOf cfg window = (if length window > x_overlap cfg then lastBytes (x_overlap cfg) window else window)"

section \<open>Request bodies\<close>

type_synonym scanOutcome = "scanError + scanResult"

definition deadlineExceeded :: scanError where
  "deadlineExceeded = CtxError ''context deadline exceeded''"

text \<open>
  The scan result the handler goes on with: an error other than an expired deadline ends the
  inspection of the chunk; with an expired deadline the result is the zero value.
\<close>

definition usableResult :: "scanOutcome \<Rightarrow> scanResult option" where
  "usableResult out =
     (case out of Inr r \<Rightarrow> Some r | Inl e \<Rightarrow> if e = deadlineExceeded then Some zeroScanResult else None)"

definition enforcing :: "'rx extCfg \<Rightarrow> bool" where
  "enforcing cfg \<longleftrightarrow> x_enforcementMode cfg = ''enforce'' \<or> x_enforcementMode cfg = ''quarantine''"

definition bodyLimit :: "'rx extCfg \<Rightarrow> stream \<Rightarrow> stream \<times> action" where
  "bodyLimit cfg st =
     (let st1 = st\<lparr>s_decision := ''quarantine'', s_reason := ''body_limit''\<rparr>
      in (collect cfg (s_decision st1) st1, Final (sendImmediateResponse (s_decision st1) (s_reason st1))))"

definition onRequestBody :: "'rx golib \<Rightarrow> 'rx extCfg \<Rightarrow> (string \<Rightarrow> scanOutcome) \<Rightarrow> string \<Rightarrow> stream \<Rightarrow> stream \<times> action" where
  "onRequestBody G cfg scan b st =
     (if b = [] then (st, Reply RequestBodyReply)
      else
        (let st1 = st\<lparr>s_total := s_total st + int (length b)\<rparr>
         in if x_maxStreamBytes cfg > 0 \<and> s_total st1 > x_maxStreamBytes cfg then bodyLimit cfg st1
            else
              (let window = windowOf cfg (s_tailReq st1) b;
                   st2 = st1\<lparr>s_tailReq := tailOf cfg window\<rparr>
               in case usableResult (scan window) of
                    None \<Rightarrow> (st2, ReplyAnyway RequestBodyReply)
                  | Some res \<Rightarrow>
                      if hasThresholdHit G res (x_failOn cfg) then
                        (let st3 = st2\<lparr>s_decision := ''quarantine'', s_reason := firstReason res\<rparr>
                         in if enforcing cfg
                            then (collect cfg (s_decision st3) st3,
                                  Final (sendImmediateResponseWithDetails (s_decision st3) (s_reason st3) (Some res)))
                            else (st3, Reply RequestBodyReply))
                      else (st2, Reply RequestBodyReply))))"

section \<open>Response bodies\<close>

record verdicts =
  d_deny :: bool
  d_redact :: bool
  d_replace :: bool
  d_body :: string
  d_reason :: string

definition noteReason :: "violation \<Rightarrow> string \<Rightarrow> string" where
  "noteReason v reason = (if reason = ''no_signals'' \<and> v_RuleID v \<noteq> [] then v_RuleID v else reason)"

definition actionIs :: "'rx golib \<Rightarrow> violation \<Rightarrow> string list \<Rightarrow> bool" where
  "actionIs G v acts = list_ex (strEqualFold G (v_ResponseAction v)) acts"

text \<open>The loop over the violations stops at the first that denies.\<close>

fun verdictLoop :: "'rx golib \<Rightarrow> violation list \<Rightarrow> verdicts \<Rightarrow> verdicts" where
  "verdictLoop G [] d = d"
| "verdictLoop G (v # vs) d =
     (if actionIs G v [''deny'', ''block''] then d\<lparr>d_deny := True, d_reason := v_RuleID v\<rparr>
      else
        (let d1 = (if actionIs G v [''redact'', ''mask'', ''quarantine'']
                   then d\<lparr>d_redact := True, d_reason := noteReason v (d_reason d)\<rparr> else d);
             d2 = (if actionIs G v [''replace'']
                   then d1\<lparr>d_replace := True,
                           d_body := (if v_ResponseReplacement v = [] then d_body d1 else v_ResponseReplacement v),
                           d_reason := noteReason v (d_reason d1)\<rparr> else d1)
         in verdictLoop G vs (d2\<lparr>d_reason := noteReason v (d_reason d2)\<rparr>)))"

definition noVerdict :: "string \<Rightarrow> verdicts" where
  "noVerdict reason = \<lparr>d_deny = False, d_redact = False, d_replace = False, d_body = [], d_reason = reason\<rparr>"

definition mutationOn :: "'rx golib \<Rightarrow> string \<Rightarrow> bool" where
  "mutationOn G key \<longleftrightarrow> getenv G key \<noteq> ''0'' \<and> strToLower G (getenv G key) \<noteq> ''false''"

text \<open>What follows a usable scan of the response window.\<close>

definition respondBody :: "'rx golib \<Rightarrow> 'rx extCfg \<Rightarrow> scanResult \<Rightarrow> string \<Rightarrow> stream \<Rightarrow> stream \<times> action" where
  "respondBody G cfg res b st =
     (let d = verdictLoop G (sr_Violations res) (noVerdict (s_reason st));
          st1 = st\<lparr>s_reason := d_reason d\<rparr>;
          hit = (d_deny d \<or> hasThresholdHit G res (x_failOn cfg));
          st2 = (if hit then st1\<lparr>s_decision := ''quarantine''\<rparr> else st1);
          doRedact = (d_redact d \<or> hit \<and> x_enforcementMode cfg = ''redact'')
      in if hit \<and> enforcing cfg
         then (collect cfg (s_decision st2) st2,
               Final (sendImmediateResponseWithDetails (s_decision st2) (s_reason st2) (Some res)))
         else if d_replace d \<and> x_enforcementMode cfg \<noteq> ''observe'' \<and> mutationOn G ''PS_ENFORCER_REPLACEMENT_MUTATION''
         then (collect cfg ''replace'' st2, Final (sendImmediateReplacementResponse (d_body d) (s_reason st2)))
         else if doRedact \<and> mutationOn G ''PS_ENFORCER_REDACTION_MUTATION''
         then (st2, Reply (ResponseBodyReply (Some (RedactText G (x_redactEnabled cfg) (x_redactRules cfg) b))))
         else (st2, Reply (ResponseBodyReply None)))"

definition onResponseBody :: "'rx golib \<Rightarrow> 'rx extCfg \<Rightarrow> (string \<Rightarrow> scanOutcome) \<Rightarrow> string \<Rightarrow> stream \<Rightarrow> stream \<times> action" where
  "onResponseBody G cfg scan b st =
     (if b = [] then (st, Reply (ResponseBodyReply None))
      else
        (let st1 = st\<lparr>s_totalResp := s_totalResp st + int (length b)\<rparr>
         in if x_maxStreamBytes cfg > 0 \<and> s_totalResp st1 > x_maxStreamBytes cfg then bodyLimit cfg st1
            else
              (let window = windowOf cfg (s_tailResp st1) b;
                   st2 = st1\<lparr>s_tailResp := tailOf cfg window\<rparr>
               in if leaks b \<or> strContains b ''\"prompt\":\"api_key='' then
                    (let st3 = st2\<lparr>s_decision := ''quarantine'', s_reason := ''response-leak''\<rparr>
                     in (collect cfg (s_decision st3) st3,
                         Final (sendImmediateResponse (s_decision st3) (s_reason st3))))
                  else case usableResult (scan window) of
                         None \<Rightarrow> (st2, ReplyAnyway (ResponseBodyReply None))
                       | Some res \<Rightarrow> respondBody G cfg res b st2)))"

section \<open>One message\<close>

definition processMessage :: "'rx golib \<Rightarrow> 'rx extCfg \<Rightarrow> (string \<Rightarrow> scanOutcome) \<Rightarrow> (string \<Rightarrow> scanOutcome)
    \<Rightarrow> request \<Rightarrow> stream \<Rightarrow> stream \<times> action" where
  "processMessage G cfg scanReq scanResp req st =
     (case req of
        RequestHeaders \<Rightarrow> (st, Reply HeadersReply)
      | ResponseHeaders hs \<Rightarrow> onResponseHeaders G cfg hs st
      | RequestBody b \<Rightarrow> onRequestBody G cfg scanReq b st
      | ResponseBody b \<Rightarrow> onResponseBody G cfg scanResp b st
      | RequestTrailers \<Rightarrow> (st, Close RequestTrailersReply)
      | ResponseTrailers \<Rightarrow> (st, Close ResponseTrailersReply)
      | OtherRequest \<Rightarrow> (st, Ignore))"

text \<open>
  The effect of an action, given whether the send fails: the replies that reach the peer, the
  state, and whether the stream goes on.
\<close>

definition perform :: "'rx extCfg \<Rightarrow> bool \<Rightarrow> stream \<times> action \<Rightarrow> reply list \<times> stream \<times> bool" where
  "perform cfg fails sa =
     (case sa of (st, act) \<Rightarrow>
       (case act of
          Reply r \<Rightarrow> if fails then ([], st, False) else ([r], st, True)
        | ReplyAnyway r \<Rightarrow> (if fails then [] else [r], st, True)
        | Final r \<Rightarrow> (if fails then [] else [r], st, False)
        | Close r \<Rightarrow> if fails then ([], st, False) else ([r], collect cfg (s_decision st) st, False)
        | Ignore \<Rightarrow> ([], st, True)))"

text \<open>
  A stream alone, with no bytes in flight elsewhere: the messages received, each with whether the
  send that answers it fails. The result tells whether the stream is still open.
\<close>

fun runStream :: "'rx golib \<Rightarrow> 'rx extCfg \<Rightarrow> (string \<Rightarrow> scanOutcome) \<Rightarrow> (string \<Rightarrow> scanOutcome)
    \<Rightarrow> (request \<times> bool) list \<Rightarrow> stream \<Rightarrow> reply list \<times> stream \<times> bool" where
  "runStream G cfg sq sp [] st = ([], st, True)"
| "runStream G cfg sq sp ((req, fails) # reqs) st =
     (case perform cfg fails (processMessage G cfg sq sp req st) of
        (rs, st', goesOn) \<Rightarrow>
          if goesOn then (case runStream G cfg sq sp reqs st' of (rs', st'', b) \<Rightarrow> (rs @ rs', st'', b))
          else (rs, st', False))"

text \<open>
  The loop with all the ways it ends. \<open>Message\<close> is a message that \<^verbatim>\<open>Recv\<close> returns, with whether the
  send that answers it fails; \<open>RecvError\<close> an error that it returns, \<^verbatim>\<open>io.EOF\<close> included, which is how a client
  closes; \<open>CancelledWaiting\<close> a chunk that waits for room in flight when the context of the stream ends.
\<close>

datatype incoming = Message request bool | RecvError string | CancelledWaiting

datatype streamEnd = StillOpen | Decided | SendFailed | RecvFailed string | ContextEnded

definition endOf :: "action \<Rightarrow> bool \<Rightarrow> streamEnd" where
  "endOf act fails =
     (case act of
        Final _ \<Rightarrow> Decided
      | Close _ \<Rightarrow> if fails then SendFailed else Decided
      | _ \<Rightarrow> SendFailed)"

fun processStream :: "'rx golib \<Rightarrow> 'rx extCfg \<Rightarrow> (string \<Rightarrow> scanOutcome) \<Rightarrow> (string \<Rightarrow> scanOutcome)
    \<Rightarrow> incoming list \<Rightarrow> stream \<Rightarrow> reply list \<times> stream \<times> streamEnd" where
  "processStream G cfg sq sp [] st = ([], st, StillOpen)"
| "processStream G cfg sq sp (RecvError e # ins) st = ([], st, RecvFailed e)"
| "processStream G cfg sq sp (CancelledWaiting # ins) st = ([], st, ContextEnded)"
| "processStream G cfg sq sp (Message req fails # ins) st =
     (let sa = processMessage G cfg sq sp req st
      in case perform cfg fails sa of
           (rs, st', goesOn) \<Rightarrow>
             if goesOn then (case processStream G cfg sq sp ins st' of (rs', st'', how) \<Rightarrow> (rs @ rs', st'', how))
             else (rs, st', endOf (snd sa) fails))"

section \<open>Windows\<close>

lemma length_lastBytes: "length (lastBytes n w) = min n (length w)"
  by (simp add: lastBytes_def)

lemma lastBytes_append: "length b \<le> n \<Longrightarrow> lastBytes n (a @ b) = lastBytes (n - length b) a @ b"
  by (simp add: lastBytes_def)

lemma lastBytes_all: "length w \<le> n \<Longrightarrow> lastBytes n w = w"
  by (simp add: lastBytes_def)

lemma lastBytes_lastBytes: "lastBytes n (lastBytes m w) = lastBytes (min n m) w"
proof -
  have "length w - (length w - m) - n + (length w - m) = length w - min n m" by arith
  then show ?thesis by (simp add: lastBytes_def)
qed

lemma windowOf_eq: "windowOf cfg tail b = lastBytes (x_windowLimit cfg) (tail @ b)"
  by (simp add: windowOf_def lastBytes_all Let_def)

lemma tailOf_eq: "tailOf cfg w = lastBytes (x_overlap cfg) w"
  by (simp add: tailOf_def lastBytes_all)

text \<open>The tail kept after a chunk is the end of everything received.\<close>

lemma tail_step:
  assumes "x_overlap cfg \<le> x_windowLimit cfg"
  shows "tailOf cfg (windowOf cfg (lastBytes (x_overlap cfg) pre) b) = lastBytes (x_overlap cfg) (pre @ b)"
proof -
  let ?o = "x_overlap cfg"
  have "lastBytes ?o (lastBytes ?o pre @ b) = lastBytes ?o (pre @ b)"
  proof (cases "length b \<le> ?o")
    case True
    then show ?thesis by (simp add: lastBytes_append lastBytes_lastBytes)
  next
    case False
    then show ?thesis by (simp add: lastBytes_def)
  qed
  with assms show ?thesis by (simp add: tailOf_eq windowOf_eq lastBytes_lastBytes min_absorb1)
qed

text \<open>A short text that first appears with a chunk lies in the overlap and the chunk.\<close>

lemma new_sublist_in_window:
  assumes "sublist p (pre @ b)" "\<not> sublist p pre" "length p \<le> Suc n"
  shows "sublist p (lastBytes n pre @ b)"
proof -
  from assms(1) obtain x y where xy: "pre @ b = x @ p @ y" by (auto simp: sublist_def)
  have "length pre < length (x @ p)"
  proof (rule ccontr)
    assume "\<not> ?thesis"
    then have "prefix (x @ p) pre" using xy
      by (metis append.assoc linorder_not_less prefixI prefix_length_prefix)
    then have "sublist p pre" by (auto simp: prefix_def sublist_def)
    with assms(2) show False by contradiction
  qed
  then have le: "length pre - n \<le> length x" using assms(3) by simp
  have "lastBytes n pre @ b = drop (length pre - n) (pre @ b)" by (simp add: lastBytes_def)
  also have "\<dots> = drop (length pre - n) x @ p @ y" using le by (simp add: xy)
  finally show ?thesis by (auto simp: sublist_def)
qed

section \<open>Blocking\<close>

definition blocks :: "action \<Rightarrow> bool" where
  "blocks act \<longleftrightarrow> (\<exists>hs body. act = Final (Immediate 403 hs body))"

lemma blocks_simps [simp]:
  "blocks (Final (sendImmediateResponse d r))"
  "blocks (Final (sendImmediateResponseWithDetails d r res))"
  "\<not> blocks (Reply x)" "\<not> blocks (ReplyAnyway x)" "\<not> blocks Ignore" "\<not> blocks (Close x)"
  "\<not> blocks (Final (sendImmediateReplacementResponse bd r))"
  by (simp_all add: blocks_def sendImmediateResponse_def sendImmediateResponseWithDetails_def
      sendImmediateReplacementResponse_def)

lemma collect_simps [simp]:
  "s_total (collect cfg d st) = s_total st" "s_totalResp (collect cfg d st) = s_totalResp st"
  "s_tailReq (collect cfg d st) = s_tailReq st" "s_tailResp (collect cfg d st) = s_tailResp st"
  "s_decision (collect cfg d st) = s_decision st" "s_reason (collect cfg d st) = s_reason st"
  "s_lastReqAdded (collect cfg d st) = s_lastReqAdded st" "s_lastRespAdded (collect cfg d st) = s_lastRespAdded st"
  by (simp_all add: collect_def)

text \<open>A request chunk either blocks the stream or is passed on with the totals and the tail updated.\<close>

lemma onRequestBody_cases:
  assumes "onRequestBody G cfg scan b st = (st', act)" "b \<noteq> []"
  shows "blocks act \<or>
    (act \<in> {Reply RequestBodyReply, ReplyAnyway RequestBodyReply}
     \<and> s_total st' = s_total st + int (length b)
     \<and> (x_maxStreamBytes cfg > 0 \<longrightarrow> s_total st' \<le> x_maxStreamBytes cfg)
     \<and> s_tailReq st' = tailOf cfg (windowOf cfg (s_tailReq st) b)
     \<and> (enforcing cfg \<longrightarrow> (\<forall>res. scan (windowOf cfg (s_tailReq st) b) = Inr res
          \<longrightarrow> \<not> hasThresholdHit G res (x_failOn cfg))))"
  using assms
  by (auto simp: onRequestBody_def bodyLimit_def usableResult_def Let_def
      split: if_splits option.splits sum.splits)

lemma secret_in_window:
  assumes "x_overlap cfg \<le> x_windowLimit cfg" "length b + x_overlap cfg \<le> x_windowLimit cfg"
    and "sublist p (pre @ b)" "\<not> sublist p pre" "length p \<le> Suc (x_overlap cfg)"
  shows "sublist p (windowOf cfg (lastBytes (x_overlap cfg) pre) b)"
  using new_sublist_in_window [OF assms(3-5)] assms(2)
  by (simp add: windowOf_eq lastBytes_all length_lastBytes)

lemma runStream_secret:
  assumes "enforcing cfg" "x_overlap cfg \<le> x_windowLimit cfg" "length p \<le> Suc (x_overlap cfg)"
    and detect: "\<And>w. sublist p w \<Longrightarrow> \<exists>res. sq w = Inr res \<and> hasThresholdHit G res (x_failOn cfg)"
    and "\<forall>b \<in> set bs. b \<noteq> [] \<and> length b + x_overlap cfg \<le> x_windowLimit cfg"
    and "s_tailReq st = lastBytes (x_overlap cfg) pre" "\<not> sublist p pre" "sublist p (pre @ concat bs)"
  shows "\<exists>k st' hs body. runStream G cfg sq sp (map (\<lambda>b. (RequestBody b, False)) bs) st
      = (replicate k RequestBodyReply @ [Immediate 403 hs body], st', False)
    \<and> k < length bs \<and> \<not> sublist p (pre @ concat (take k bs))"
  using assms(5-)
proof (induction bs arbitrary: st pre)
  case Nil
  then show ?case by simp
next
  case (Cons b bs)
  obtain st1 act where step: "onRequestBody G cfg sq b st = (st1, act)" by (meson surj_pair)
  from Cons.prems(1) have b: "b \<noteq> []" "length b + x_overlap cfg \<le> x_windowLimit cfg" by auto
  show ?case
  proof (cases "blocks act")
    case True
    then obtain hs body where "act = Final (Immediate 403 hs body)" by (auto simp: blocks_def)
    then show ?thesis using step Cons.prems(3)
      by (auto simp: processMessage_def perform_def intro!: exI [of _ "0 :: nat"])
  next
    case False
    note c = onRequestBody_cases [OF step b(1)]
    from False c have act: "act = Reply RequestBodyReply \<or> act = ReplyAnyway RequestBodyReply" by auto
    from False c have tail: "s_tailReq st1 = lastBytes (x_overlap cfg) (pre @ b)"
      using tail_step [OF assms(2)] Cons.prems(2) by simp
    have nohit: "\<not> sublist p (windowOf cfg (s_tailReq st) b)"
      using False c detect assms(1) by blast
    then have "\<not> sublist p (pre @ b)"
      using secret_in_window [OF assms(2) b(2) _ Cons.prems(3) assms(3)] Cons.prems(2) by auto
    with Cons.IH [of st1 "pre @ b"] Cons.prems(1,4) tail obtain k st' hs body where
      run: "runStream G cfg sq sp (map (\<lambda>b. (RequestBody b, False)) bs) st1
        = (replicate k RequestBodyReply @ [Immediate 403 hs body], st', False)"
      and k: "k < length bs" "\<not> sublist p (pre @ b @ concat (take k bs))" by auto
    then show ?thesis using step act
      by (intro exI [of _ "Suc k"] exI [of _ st'] exI [of _ hs] exI [of _ body])
        (auto simp: processMessage_def perform_def)
  qed
qed

section \<open>Properties\<close>

text \<open>
  C5. A secret split over chunks is caught: in an enforcing mode, with chunks that fit the window
  beside the overlap, and a scanner that reports every window holding the secret, a request whose
  body holds a secret of at most one byte more than the overlap is answered with a 403 at the
  latest with the chunk that completes it; the chunks passed on before never hold the secret.
\<close>

theorem split_secret_blocked:
  assumes "enforcing cfg" "x_overlap cfg \<le> x_windowLimit cfg"
    and "p \<noteq> []" "length p \<le> Suc (x_overlap cfg)"
    and "\<And>w. sublist p w \<Longrightarrow> \<exists>res. sq w = Inr res \<and> hasThresholdHit G res (x_failOn cfg)"
    and "\<forall>b \<in> set bs. b \<noteq> [] \<and> length b + x_overlap cfg \<le> x_windowLimit cfg"
    and "sublist p (concat bs)"
  shows "\<exists>k st' hs body. runStream G cfg sq sp (map (\<lambda>b. (RequestBody b, False)) bs) newStream
      = (replicate k RequestBodyReply @ [Immediate 403 hs body], st', False)
    \<and> k < length bs \<and> \<not> sublist p (concat (take k bs))"
  using runStream_secret [OF assms(1,2,4,5,6), where st = newStream and pre = "[]"] assms(3,7)
  by (simp add: newStream_def lastBytes_def)

text \<open>
  Only the last bytes of a chunk longer than the window are scanned: whatever its front holds,
  the chunk is passed on when its last \<open>x_windowLimit\<close> bytes give no hit.
\<close>

theorem oversized_chunk_unscanned:
  assumes "length y = x_windowLimit cfg" "y \<noteq> []" "sq y = Inr res" "\<not> hasThresholdHit G res (x_failOn cfg)"
    and "x_maxStreamBytes cfg > 0 \<longrightarrow> s_total st + int (length (x @ y)) \<le> x_maxStreamBytes cfg"
  shows "snd (onRequestBody G cfg sq (x @ y) st) = Reply RequestBodyReply"
proof -
  have "windowOf cfg t (x @ y) = y" for t
    using lastBytes_append [of y "x_windowLimit cfg" "t @ x"] assms(1) by (simp add: windowOf_eq lastBytes_def)
  then show ?thesis using assms(2-) by (auto simp: onRequestBody_def usableResult_def Let_def)
qed

text \<open>
  What blocks outside the enforcing modes: a request chunk only when the byte limit is
  exceeded, a response chunk also when it holds a marker of the leak heuristic, and response
  headers when a value holds one. So the mode \<^verbatim>\<open>observe\<close> does block.
\<close>

theorem observe_blocks_iff:
  assumes "\<not> enforcing cfg"
  shows "(blocks (snd (onRequestBody G cfg scan b st)) \<longleftrightarrow>
            b \<noteq> [] \<and> 0 < x_maxStreamBytes cfg \<and> x_maxStreamBytes cfg < s_total st + int (length b))
    \<and> (blocks (snd (onResponseBody G cfg scan b st)) \<longleftrightarrow>
            b \<noteq> [] \<and> (0 < x_maxStreamBytes cfg \<and> x_maxStreamBytes cfg < s_totalResp st + int (length b)
                       \<or> leaks b \<or> strContains b ''\"prompt\":\"api_key=''))
    \<and> (blocks (snd (onResponseHeaders G cfg hs st)) \<longleftrightarrow>
            list_ex (\<lambda>hv. leaks (headerText hv)) (presentHeaders hs))"
proof -
  have req: "blocks (snd (onRequestBody G cfg scan b st)) \<longleftrightarrow>
      b \<noteq> [] \<and> 0 < x_maxStreamBytes cfg \<and> x_maxStreamBytes cfg < s_total st + int (length b)"
    using assms by (auto simp: onRequestBody_def bodyLimit_def Let_def split: option.split)
  have "\<not> blocks (snd (respondBody G cfg res b st'))" for res st'
    using assms by (simp add: respondBody_def Let_def)
  then have resp: "blocks (snd (onResponseBody G cfg scan b st)) \<longleftrightarrow>
      b \<noteq> [] \<and> (0 < x_maxStreamBytes cfg \<and> x_maxStreamBytes cfg < s_totalResp st + int (length b)
                 \<or> leaks b \<or> strContains b ''\"prompt\":\"api_key='')"
    by (auto simp: onResponseBody_def bodyLimit_def Let_def split: option.split)
  show ?thesis using req resp by (simp add: onResponseHeaders_def Let_def)
qed

lemma verdictLoop_deny:
  "d_deny (verdictLoop G vs d) \<longleftrightarrow> d_deny d \<or> list_ex (\<lambda>v. actionIs G v [''deny'', ''block'']) vs"
  by (induction G vs d rule: verdictLoop.induct) (auto simp: Let_def)

lemma verdictLoop_deny_reason:
  "list_ex (\<lambda>v. actionIs G v [''deny'', ''block'']) vs \<Longrightarrow>
   d_reason (verdictLoop G vs d) = v_RuleID (hd (filter (\<lambda>v. actionIs G v [''deny'', ''block'']) vs))"
  by (induction G vs d rule: verdictLoop.induct) (auto simp: Let_def)

text \<open>
  A rule that denies wins: in an enforcing mode a response chunk whose violations include one
  with the action deny or block, of whatever severity and in whatever position, is answered
  with a 403 that names the first such rule, before any replacement or redaction.
\<close>

theorem response_deny_wins:
  assumes "enforcing cfg" "list_ex (\<lambda>v. actionIs G v [''deny'', ''block'']) (sr_Violations res)"
  shows "\<exists>st'. respondBody G cfg res b st = (st',
    Final (sendImmediateResponseWithDetails ''quarantine''
      (v_RuleID (hd (filter (\<lambda>v. actionIs G v [''deny'', ''block'']) (sr_Violations res)))) (Some res)))"
  using assms verdictLoop_deny [of G "sr_Violations res"] verdictLoop_deny_reason [OF assms(2)]
  by (simp add: respondBody_def Let_def)

section \<open>Whole streams\<close>

fun reqBytes :: "request \<Rightarrow> int" where
  "reqBytes (RequestBody b) = int (length b)"
| "reqBytes _ = 0"

fun respBytes :: "request \<Rightarrow> int" where
  "respBytes (ResponseBody b) = int (length b)"
| "respBytes _ = 0"

definition withinLimit :: "'rx extCfg \<Rightarrow> stream \<Rightarrow> bool" where
  "withinLimit cfg st \<longleftrightarrow> (x_maxStreamBytes cfg > 0 \<longrightarrow>
     s_total st \<le> x_maxStreamBytes cfg \<and> s_totalResp st \<le> x_maxStreamBytes cfg)"

lemma respondBody_totals:
  "s_total (fst (respondBody G cfg res b st)) = s_total st"
  "s_totalResp (fst (respondBody G cfg res b st)) = s_totalResp st"
  by (simp_all add: respondBody_def Let_def)

lemma processMessage_totals:
  "s_total (fst (processMessage G cfg sq sp req st)) = s_total st + reqBytes req"
  "s_totalResp (fst (processMessage G cfg sq sp req st)) = s_totalResp st + respBytes req"
  by (cases req;
      simp add: processMessage_def onRequestBody_def onResponseBody_def onResponseHeaders_def bodyLimit_def
        respondBody_totals Let_def split: option.split)+

definition endsStream :: "action \<Rightarrow> bool" where
  "endsStream act \<longleftrightarrow> (case act of Final _ \<Rightarrow> True | Close _ \<Rightarrow> True | _ \<Rightarrow> False)"

lemma processMessage_limit:
  assumes "withinLimit cfg st" "\<not> endsStream (snd (processMessage G cfg sq sp req st))"
  shows "withinLimit cfg (fst (processMessage G cfg sq sp req st))"
proof (cases "x_maxStreamBytes cfg > 0")
  case lim: True
  show ?thesis
  proof (cases req)
    case (RequestBody b)
    then have "s_total st + int (length b) \<le> x_maxStreamBytes cfg"
      using assms lim
      by (cases "b = []") (auto simp: withinLimit_def endsStream_def processMessage_def onRequestBody_def bodyLimit_def Let_def
          split: if_splits)
    with assms(1) RequestBody show ?thesis by (simp add: withinLimit_def processMessage_totals)
  next
    case (ResponseBody b)
    then have "s_totalResp st + int (length b) \<le> x_maxStreamBytes cfg"
      using assms lim
      by (cases "b = []") (auto simp: withinLimit_def endsStream_def processMessage_def onResponseBody_def bodyLimit_def Let_def
          split: if_splits)
    with assms(1) ResponseBody show ?thesis by (simp add: withinLimit_def processMessage_totals)
  qed (use assms in \<open>simp_all add: withinLimit_def processMessage_totals\<close>)
qed (simp add: withinLimit_def)

lemma perform_goesOn:
  assumes "perform cfg fails sa = (rs, st', True)"
  shows "st' = fst sa \<and> \<not> endsStream (snd sa)"
  using assms by (cases sa; cases "snd sa") (auto simp: perform_def endsStream_def split: if_splits)

lemma runStream_limit:
  assumes "runStream G cfg sq sp reqs st = (rs, st', True)" "withinLimit cfg st"
  shows "withinLimit cfg st' \<and> s_total st' = s_total st + (\<Sum>r \<leftarrow> reqs. reqBytes (fst r))
    \<and> s_totalResp st' = s_totalResp st + (\<Sum>r \<leftarrow> reqs. respBytes (fst r))"
  using assms
proof (induction G cfg sq sp reqs st arbitrary: rs rule: runStream.induct)
  case (2 G cfg sq sp req fails reqs st)
  let ?pm = "processMessage G cfg sq sp req st"
  obtain rs1 st1 go where p: "perform cfg fails ?pm = (rs1, st1, go)" by (metis prod_cases3)
  with "2.prems"(1) have go: "go" by (auto split: prod.splits if_splits)
  obtain rs2 where rest: "runStream G cfg sq sp reqs st1 = (rs2, st', True)"
    using "2.prems"(1) p go by (auto split: prod.splits)
  have st1: "st1 = fst ?pm" "\<not> endsStream (snd ?pm)"
    using perform_goesOn [of cfg fails ?pm] p go by auto
  have "withinLimit cfg st1" using processMessage_limit "2.prems"(2) st1 by blast
  with "2.IH" [OF p [symmetric] _ go rest] st1(1) show ?case by (simp add: processMessage_totals)
qed simp

text \<open>
  C25. The byte limit holds in each direction: while a stream is open, the request bodies received
  on it, and the response bodies, are each at most the limit in total, whatever was sent
  between them.
\<close>

theorem open_stream_bounded:
  assumes "runStream G cfg sq sp reqs newStream = (rs, st', True)" "0 < x_maxStreamBytes cfg"
  shows "(\<Sum>r \<leftarrow> reqs. reqBytes (fst r)) \<le> x_maxStreamBytes cfg
    \<and> (\<Sum>r \<leftarrow> reqs. respBytes (fst r)) \<le> x_maxStreamBytes cfg"
  using runStream_limit [OF assms(1)] assms(2) by (simp add: withinLimit_def newStream_def)

text \<open>\<open>runStream\<close> is the loop on a stream whose peer neither closes nor fails.\<close>

lemma processStream_runStream:
  assumes "runStream G cfg sq sp reqs st = (rs, st', live)"
  shows "\<exists>how. processStream G cfg sq sp (map (\<lambda>(r, f). Message r f) reqs) st = (rs, st', how) \<and> (how = StillOpen \<longleftrightarrow> live)"
  using assms
proof (induction G cfg sq sp reqs st arbitrary: rs rule: runStream.induct)
  case (2 G cfg sq sp req fails reqs st)
  obtain rs1 st1 go where p: "perform cfg fails (processMessage G cfg sq sp req st) = (rs1, st1, go)" by (metis prod_cases3)
  show ?case
  proof (cases go)
    case True
    obtain rs2 where rest: "runStream G cfg sq sp reqs st1 = (rs2, st', live)" "rs = rs1 @ rs2"
      using "2.prems" p True by (auto split: prod.splits)
    with "2.IH" [OF p [symmetric] refl True rest(1)] p True show ?thesis by (auto simp: Let_def)
  next
    case False
    have "endOf act fails \<noteq> StillOpen" for act by (simp add: endOf_def split: action.split)
    with False "2.prems" p show ?thesis by (auto simp: Let_def)
  qed
qed simp

text \<open>
  The events of one message: an answer that ends the stream is announced with the decision and the
  reason that it carries, before it is sent; nothing else of a message is.
\<close>

definition carries :: "reply \<Rightarrow> string \<Rightarrow> string \<Rightarrow> bool" where
  "carries r decision reason \<longleftrightarrow> (case r of
     Immediate code hs body \<Rightarrow> {(''x-ps-decision'', decision), (''x-ps-reason'', reason)} \<subseteq> set hs
   | _ \<Rightarrow> False)"

definition isImmediate :: "reply \<Rightarrow> bool" where
  "isImmediate r \<longleftrightarrow> (case r of Immediate code hs body \<Rightarrow> True | _ \<Rightarrow> False)"

definition announced :: "'rx extCfg \<Rightarrow> stream \<Rightarrow> stream \<Rightarrow> reply \<Rightarrow> bool" where
  "announced cfg st st1 r \<longleftrightarrow>
     (\<exists>d. s_events st1 = s_events st @ (if x_telemetry cfg then [(d, s_reason st1)] else []) \<and> carries r d (s_reason st1))"

definition eventsOk :: "'rx extCfg \<Rightarrow> stream \<Rightarrow> stream \<times> action \<Rightarrow> bool" where
  "eventsOk cfg st sa \<longleftrightarrow> (case snd sa of
     Final r \<Rightarrow> announced cfg st (fst sa) r
   | Reply r \<Rightarrow> s_events (fst sa) = s_events st \<and> \<not> isImmediate r
   | ReplyAnyway r \<Rightarrow> s_events (fst sa) = s_events st \<and> \<not> isImmediate r
   | Close r \<Rightarrow> s_events (fst sa) = s_events st \<and> \<not> isImmediate r
   | Ignore \<Rightarrow> s_events (fst sa) = s_events st)"

lemma eventsOk_simps [simp]:
  "eventsOk cfg st (st1, Final r) \<longleftrightarrow> announced cfg st st1 r"
  "eventsOk cfg st (st1, Reply r) \<longleftrightarrow> s_events st1 = s_events st \<and> \<not> isImmediate r"
  "eventsOk cfg st (st1, ReplyAnyway r) \<longleftrightarrow> s_events st1 = s_events st \<and> \<not> isImmediate r"
  "eventsOk cfg st (st1, Close r) \<longleftrightarrow> s_events st1 = s_events st \<and> \<not> isImmediate r"
  "eventsOk cfg st (st1, Ignore) \<longleftrightarrow> s_events st1 = s_events st"
  by (simp_all add: eventsOk_def)

lemmas answer_defs = sendImmediateResponse_def sendImmediateResponseWithDetails_def sendImmediateReplacementResponse_def

lemma announced_collect:
  "carries r d (s_reason st1) \<Longrightarrow> s_events st1 = s_events st \<Longrightarrow> announced cfg st (collect cfg d st1) r"
  by (auto simp: announced_def collect_def)

lemma carries_answers:
  "carries (sendImmediateResponse d r) d r"
  "carries (sendImmediateResponseWithDetails d r res) d r"
  "carries (sendImmediateReplacementResponse b r) ''replace'' r"
  by (simp_all add: carries_def answer_defs)

lemma respondBody_events: "s_events st' = s_events st \<Longrightarrow> eventsOk cfg st (respondBody G cfg res b st')"
  by (auto simp: respondBody_def Let_def isImmediate_def intro!: announced_collect carries_answers)

lemma processMessage_events: "eventsOk cfg st (processMessage G cfg sq sp req st)"
  by (cases req) (auto simp: processMessage_def onRequestBody_def onResponseBody_def onResponseHeaders_def bodyLimit_def
      isImmediate_def Let_def intro!: announced_collect carries_answers respondBody_events split: option.split)

text \<open>
  C26. A stream emits its decision once, when it decides. With a telemetry collector, a stream
  that ends with an immediate answer (whether or not the peer still gets it) or after answering
  the trailers has emitted exactly one event, with the reason it ended with and the decision that the answer carries; a stream that is still
  open, one whose peer closes or fails before that (\<^verbatim>\<open>Recv\<close> returns an error, \<^verbatim>\<open>io.EOF\<close> included), one on which
  another answer cannot be sent, and one whose context ends while it waits, has emitted none. Without a collector
  there is never an event.
\<close>

theorem one_decision_per_stream:
  assumes "processStream G cfg sq sp ins newStream = (rs, st', how)"
  shows "if x_telemetry cfg \<and> how = Decided
    then \<exists>d. s_events st' = [(d, s_reason st')] \<and> (rs \<noteq> [] \<and> isImmediate (last rs) \<longrightarrow> carries (last rs) d (s_reason st'))
    else s_events st' = []"
proof -
  have "if x_telemetry cfg \<and> how = Decided
    then \<exists>d. s_events st' = s_events st @ [(d, s_reason st')] \<and> (rs \<noteq> [] \<and> isImmediate (last rs) \<longrightarrow> carries (last rs) d (s_reason st'))
    else s_events st' = s_events st"
    if "processStream G cfg sq sp ins st = (rs, st', how)" for st rs
    using that
  proof (induction G cfg sq sp ins st arbitrary: rs rule: processStream.induct)
    case (4 G cfg sq sp req fails ins st)
    obtain st1 act where pm: "processMessage G cfg sq sp req st = (st1, act)" by (meson surj_pair)
    obtain rs1 st2 go where p: "perform cfg fails (st1, act) = (rs1, st2, go)" by (metis prod_cases3)
    note ev = processMessage_events [of cfg st G sq sp req, unfolded pm]
    show ?case
    proof (cases go)
      case True
      then have st2: "st2 = st1" "s_events st1 = s_events st" "\<forall>r \<in> set rs1. \<not> isImmediate r"
        using p ev by (cases act; auto simp: perform_def eventsOk_def split: if_splits)+
      obtain rs2 st3 how2 where rest: "processStream G cfg sq sp ins st2 = (rs2, st3, how2)" by (metis prod_cases3)
      have out: "rs = rs1 @ rs2" "st' = st3" "how = how2" using "4.prems" pm p True rest by (simp_all add: Let_def)
      have same: "rs \<noteq> [] \<and> isImmediate (last rs) \<longleftrightarrow> rs2 \<noteq> [] \<and> isImmediate (last rs2)"
        "rs2 \<noteq> [] \<Longrightarrow> last rs = last rs2"
        using st2(3) out(1) by (cases "rs2 = []"; auto)+
      have "processStream G cfg sq sp ins st2 = (rs2, st', how)" using rest out by simp
      from "4.IH" [OF _ p [symmetric] refl True this] pm st2 same show ?thesis by auto
    next
      case False
      with "4.prems" pm p have out: "rs = rs1" "st' = st2" "how = endOf act fails" by (simp_all add: Let_def)
      with False p ev show ?thesis
        by (cases act) (auto simp: perform_def eventsOk_def endOf_def announced_def collect_def isImmediate_def carries_def
            split: if_splits)
    qed
  qed auto
  moreover have "s_events newStream = []" by (simp add: newStream_def)
  ultimately show ?thesis using assms by (metis append_Nil)
qed

section \<open>Witnesses\<close>

definition demoCfg :: "string \<Rightarrow> string extCfg" where
  "demoCfg mode = \<lparr>x_maxStreamBytes = 100, x_failOn = ''HIGH'', x_enforcementMode = mode, x_windowLimit = 12,
     x_overlap = 5, x_inflightLimit = 0, x_streamSlots = None, x_telemetry = True,
     x_redactEnabled = True, x_redactRules = []\<rparr>"

definition denyHit :: violation where
  "denyHit = zeroViolation\<lparr>v_RuleID := ''r1'', v_Severity := ''HIGH'', v_ResponseAction := ''Deny''\<rparr>"

definition demoScan :: "string \<Rightarrow> string \<Rightarrow> scanOutcome" where
  "demoScan p w = Inr (if strContains w p then zeroScanResult\<lparr>sr_Violations := [denyHit]\<rparr> else zeroScanResult)"

lemma demo_hit: "hasThresholdHit (lib litWorld) (zeroScanResult\<lparr>sr_Violations := [denyHit]\<rparr>) ''HIGH''"
  by (simp add: hasThresholdHit_def denyHit_def MeetsThreshold_def severityOrder_def strToUpper_def
      mapBytes_def upperAscii_def byte_def zero_defs char_of_def bit_0)

theorem split_secret_blocked_witness:
  "\<exists>k st' hs body. runStream (lib litWorld) (demoCfg ''enforce'') (demoScan ''SECRET'') (demoScan [])
      (map (\<lambda>b. (RequestBody b, False)) [''ab SE'', ''CR'', ''ET cd'']) newStream
      = (replicate k RequestBodyReply @ [Immediate 403 hs body], st', False)
    \<and> k < length [''ab SE'', ''CR'', ''ET cd''] \<and> \<not> sublist ''SECRET'' (concat (take k [''ab SE'', ''CR'', ''ET cd'']))"
proof (rule split_secret_blocked)
  show "sublist ''SECRET'' (concat [''ab SE'', ''CR'', ''ET cd''])"
    unfolding sublist_def by (intro exI [of _ "''ab ''"] exI [of _ "'' cd''"]) simp
  fix w :: string
  assume "sublist ''SECRET'' w"
  then have "strContains w ''SECRET''"
    using strContains_append [where p = "''SECRET''"] unfolding sublist_def by metis
  then show "\<exists>res. demoScan ''SECRET'' w = Inr res \<and> hasThresholdHit (lib litWorld) res (x_failOn (demoCfg ''enforce''))"
    using demo_hit by (simp add: demoScan_def demoCfg_def)
qed (simp_all add: enforcing_def demoCfg_def)

theorem oversized_chunk_unscanned_witness:
  "snd (onRequestBody (lib litWorld) (demoCfg ''enforce'') (demoScan ''SECRET'') (''SECRET'' @ ''0123456789ab'') newStream)
   = Reply RequestBodyReply"
  by (rule oversized_chunk_unscanned [where res = zeroScanResult])
    (simp_all add: demoCfg_def demoScan_def strContains_def hasPrefix_def hasThresholdHit_def newStream_def zero_defs)

theorem observe_blocks_iff_witness:
  "blocks (snd (onResponseBody (lib litWorld) (demoCfg ''observe'') (demoScan ''SECRET'') ''a password'' newStream))"
  using observe_blocks_iff [of "demoCfg ''observe''" "lib litWorld" "demoScan ''SECRET''" "''a password''" newStream None]
  by (simp add: enforcing_def demoCfg_def leaks_def strContains_def hasPrefix_def)

theorem response_deny_wins_witness:
  "\<exists>st'. respondBody (lib litWorld) (demoCfg ''enforce'') (zeroScanResult\<lparr>sr_Violations := [denyHit]\<rparr>) ''x'' newStream
     = (st', Final (sendImmediateResponseWithDetails ''quarantine'' ''r1''
              (Some (zeroScanResult\<lparr>sr_Violations := [denyHit]\<rparr>))))"
proof -
  have act: "actionIs (lib litWorld) denyHit [''deny'', ''block'']"
    by (simp add: actionIs_def denyHit_def strEqualFold_def runes_ascii runeFold_def lowerAscii_def byte_def zero_defs)
  then have "list_ex (\<lambda>v. actionIs (lib litWorld) v [''deny'', ''block''])
      (sr_Violations (zeroScanResult\<lparr>sr_Violations := [denyHit]\<rparr>))"
    by (simp add: zero_defs)
  from response_deny_wins [OF _ this, of "demoCfg ''enforce''" "''x''" newStream] act show ?thesis
    by (simp add: enforcing_def demoCfg_def) (simp add: denyHit_def zero_defs)
qed

theorem open_stream_bounded_witness:
  "(\<Sum>r \<leftarrow> [(RequestBody ''abc'', False), (ResponseBody ''ok'', True)]. reqBytes (fst r)) \<le> 100"
proof -
  have "runStream (lib litWorld) (demoCfg ''observe'') (\<lambda>_. Inl (CtxError [])) (\<lambda>_. Inl (CtxError []))
      [(RequestBody ''abc'', False), (ResponseBody ''ok'', True)] newStream = ([RequestBodyReply], 
        newStream\<lparr>s_total := 3, s_totalResp := 2, s_tailReq := ''abc'', s_tailResp := ''ok''\<rparr>, True)"
    by (simp add: processMessage_def perform_def onRequestBody_def onResponseBody_def demoCfg_def newStream_def
        windowOf_def tailOf_def usableResult_def deadlineExceeded_def leaks_def strContains_def hasPrefix_def Let_def)
  from open_stream_bounded [OF this] show ?thesis by (simp add: demoCfg_def)
qed

theorem one_decision_per_stream_witness:
  "s_events (fst (snd (processStream (lib litWorld) (demoCfg ''observe'') (\<lambda>_. Inl (CtxError [])) (\<lambda>_. Inl (CtxError []))
      [Message RequestHeaders False, Message RequestTrailers False] newStream))) = [(''allow'', ''no_signals'')]
   \<and> s_events (fst (snd (processStream (lib litWorld) (demoCfg ''observe'') (\<lambda>_. Inl (CtxError [])) (\<lambda>_. Inl (CtxError []))
      [Message RequestHeaders False, RecvError ''EOF''] newStream))) = []"
proof -
  have a: "processStream (lib litWorld) (demoCfg ''observe'') (\<lambda>_. Inl (CtxError [])) (\<lambda>_. Inl (CtxError []))
      [Message RequestHeaders False, Message RequestTrailers False] newStream
    = ([HeadersReply, RequestTrailersReply], newStream\<lparr>s_events := [(''allow'', ''no_signals'')]\<rparr>, Decided)"
    by (simp add: processMessage_def perform_def collect_def demoCfg_def newStream_def endOf_def)
  have b: "processStream (lib litWorld) (demoCfg ''observe'') (\<lambda>_. Inl (CtxError [])) (\<lambda>_. Inl (CtxError []))
      [Message RequestHeaders False, RecvError ''EOF''] newStream = ([HeadersReply], newStream, RecvFailed ''EOF'')"
    by (simp add: processMessage_def perform_def)
  from one_decision_per_stream [OF a] one_decision_per_stream [OF b] a b show ?thesis by (simp add: demoCfg_def)
qed

end
