(* ===== verification/Ext_Proc_Streams.thy ===== *)
theory Ext_Proc_Streams
  imports Ext_Proc
begin

text \<open>
  The streams of one enforcer server side by side: the parts of \<^verbatim>\<open>processStream\<close> that touch what
  streams share, the bytes in flight and the stream slots, and \<^verbatim>\<open>ReloadRules\<close> of
  \<^verbatim>\<open>server.go\<close>. Each atomic action of the code is a step of a labelled transition relation: the
  release at the top of the loop, the receipt of a message with the addition to the counter, the
  test of the waiting loop, its cancellation, and the handling of an admitted message, which a
  reload cannot interrupt because of the lock.
\<close>

section \<open>State\<close>

text \<open>
  Where a stream is in its loop: at the top, at \<^verbatim>\<open>Recv\<close>, in the waiting loop with a body (of a
  request if the flag is set), or past it with a message.
\<close>

datatype phase = AtTop | AtRecv | Waiting bool string | Admitted request

record conn =
  c_phase :: phase
  c_stream :: stream

record 'rx server =
  v_inflight :: int
  v_scReq :: "'rx scanner"
  v_scResp :: "'rx scanner"
  v_globals :: "'rx globals"
  v_conns :: "nat \<rightharpoonup> conn"

text \<open>The release at the top of the loop, and the same in the deferred function.\<close>

definition releaseBytes :: "stream \<Rightarrow> int \<Rightarrow> int" where
  "releaseBytes st inflight =
     (let f1 = (if s_lastReqAdded st > 0 then inflight - s_lastReqAdded st else inflight)
      in if s_lastRespAdded st > 0 then f1 - s_lastRespAdded st else f1)"

definition releasedStream :: "stream \<Rightarrow> stream" where
  "releasedStream st =
     (let st1 = (if s_lastReqAdded st > 0 then st\<lparr>s_lastReqAdded := 0\<rparr> else st)
      in if s_lastRespAdded st1 > 0 then st1\<lparr>s_lastRespAdded := 0\<rparr> else st1)"

definition setConn :: "nat \<Rightarrow> phase \<Rightarrow> stream \<Rightarrow> 'rx server \<Rightarrow> 'rx server" where
  "setConn i ph st v = v\<lparr>v_conns := (v_conns v)(i \<mapsto> \<lparr>c_phase = ph, c_stream = st\<rparr>)\<rparr>"

definition endConn :: "nat \<Rightarrow> stream \<Rightarrow> 'rx server \<Rightarrow> 'rx server" where
  "endConn i st v = v\<lparr>v_inflight := releaseBytes st (v_inflight v), v_conns := (v_conns v)(i := None)\<rparr>"

definition noteAdded :: "bool \<Rightarrow> string \<Rightarrow> stream \<Rightarrow> stream" where
  "noteAdded isReq b st =
     (if isReq then st\<lparr>s_lastReqAdded := int (length b)\<rparr> else st\<lparr>s_lastRespAdded := int (length b)\<rparr>)"

definition bodyRequest :: "bool \<Rightarrow> string \<Rightarrow> request" where
  "bodyRequest isReq b = (if isReq then RequestBody b else ResponseBody b)"

text \<open>The body that is accounted for, with its direction; an empty body is not.\<close>

definition accounted :: "'rx extCfg \<Rightarrow> request \<Rightarrow> (bool \<times> string) option" where
  "accounted cfg req =
     (if x_inflightLimit cfg > 0 then
        (case req of
           RequestBody b \<Rightarrow> if b = [] then None else Some (True, b)
         | ResponseBody b \<Rightarrow> if b = [] then None else Some (False, b)
         | _ \<Rightarrow> None)
      else None)"

text \<open>A chunk as large as the limit does not wait.\<close>

definition admit :: "'rx extCfg \<Rightarrow> nat \<Rightarrow> request \<Rightarrow> stream \<Rightarrow> 'rx server \<Rightarrow> 'rx server" where
  "admit cfg i req st v =
     (case accounted cfg req of
        None \<Rightarrow> setConn i (Admitted req) st v
      | Some (isReq, b) \<Rightarrow>
          (let v1 = v\<lparr>v_inflight := v_inflight v + int (length b)\<rparr>
           in if int (length b) < x_inflightLimit cfg then setConn i (Waiting isReq b) st v1
              else setConn i (Admitted req) (noteAdded isReq b st) v1))"

text \<open>
  Scanning a window keeps the scanner's semantic caches; the environment, the clock and the number
  of earlier analyzer calls are those of the moment.
\<close>

definition scanWindow :: "'rx world \<Rightarrow> 'rx scanner \<Rightarrow> scanEnv \<Rightarrow> nat \<Rightarrow> nat \<Rightarrow> string \<Rightarrow> string \<Rightarrow> scanOutcome" where
  "scanWindow W sc env clock calls name w = snd (ScanReader W sc env name w None clock calls)"

definition afterScan :: "'rx world \<Rightarrow> scanEnv \<Rightarrow> nat \<Rightarrow> nat \<Rightarrow> string \<Rightarrow> string \<Rightarrow> 'rx scanner \<Rightarrow> 'rx scanner" where
  "afterScan W env clock calls name w sc =
     sc\<lparr>semanticCaches := es_caches (fst (ScanReader W sc env name w None clock calls))\<rparr>"

definition requestName :: string where "requestName = ''extproc:request-window''"
definition responseName :: string where "responseName = ''extproc:response-window''"

text \<open>Whether the handler of a body comes as far as the scan, which may change the caches.\<close>

definition scansReq :: "'rx extCfg \<Rightarrow> stream \<Rightarrow> string \<Rightarrow> bool" where
  "scansReq cfg st b \<longleftrightarrow> b \<noteq> []
     \<and> \<not> (x_maxStreamBytes cfg > 0 \<and> s_total st + int (length b) > x_maxStreamBytes cfg)"

definition scansResp :: "'rx extCfg \<Rightarrow> stream \<Rightarrow> string \<Rightarrow> bool" where
  "scansResp cfg st b \<longleftrightarrow> b \<noteq> []
     \<and> \<not> (x_maxStreamBytes cfg > 0 \<and> s_totalResp st + int (length b) > x_maxStreamBytes cfg)
     \<and> \<not> (leaks b \<or> strContains b ''\"prompt\":\"api_key='')"

definition handle :: "'rx world \<Rightarrow> 'rx extCfg \<Rightarrow> scanEnv \<Rightarrow> nat \<Rightarrow> nat \<Rightarrow> bool \<Rightarrow> nat \<Rightarrow> request \<Rightarrow> stream
    \<Rightarrow> 'rx server \<Rightarrow> 'rx server" where
  "handle W cfg env clock calls fails i req st v =
     (let sq = scanWindow W (v_scReq v) env clock calls requestName;
          sp = scanWindow W (v_scResp v) env clock calls responseName;
          v1 = (case req of
                  RequestBody b \<Rightarrow>
                    if scansReq cfg st b
                    then v\<lparr>v_scReq := afterScan W env clock calls requestName (windowOf cfg (s_tailReq st) b) (v_scReq v)\<rparr>
                    else v
                | ResponseBody b \<Rightarrow>
                    if scansResp cfg st b
                    then v\<lparr>v_scResp := afterScan W env clock calls responseName (windowOf cfg (s_tailResp st) b) (v_scResp v)\<rparr>
                    else v
                | _ \<Rightarrow> v)
      in case perform cfg fails (processMessage (lib W) cfg sq sp req st) of
           (rs, st', goesOn) \<Rightarrow> if goesOn then setConn i AtTop st' v1 else endConn i st' v1)"

text \<open>
  \<^verbatim>\<open>ReloadRules\<close>: without a repository or tenant nothing happens; a failure of the repository
  keeps the rules; no active pack falls back to the file, and a file that cannot be loaded
  leaves no rules. \<open>db\<close> and \<open>file\<close> are the outcomes of the two loads.
\<close>

definition reloadPacks :: "bool \<Rightarrow> (string + rulePack list) \<Rightarrow> string \<Rightarrow> (string + rulePack list) \<Rightarrow> rulePack list option" where
  "reloadPacks configured db rulepackPath file =
     (if \<not> configured then None
      else case db of
             Inl e \<Rightarrow> None
           | Inr packs \<Rightarrow>
               if packs = [] \<and> rulepackPath \<noteq> []
               then Some (case file of Inr ps \<Rightarrow> ps | Inl e \<Rightarrow> packs)
               else Some packs)"

definition ReloadRules :: "'rx world \<Rightarrow> (rulePack list \<Rightarrow> rulePack list) \<Rightarrow> rulePack list option \<Rightarrow> 'rx server \<Rightarrow> 'rx server" where
  "ReloadRules W srt packs v =
     (case packs of
        None \<Rightarrow> v
      | Some ps \<Rightarrow>
          (case LoadRulePacks W srt ps (v_scReq v, v_globals v) of (sq, g1) \<Rightarrow>
             (case LoadRulePacks W srt ps (v_scResp v, g1) of (sp, g2) \<Rightarrow>
                v\<lparr>v_scReq := sq, v_scResp := sp, v_globals := g2\<rparr>)))"

section \<open>Steps\<close>

datatype label =
    Start nat | Top nat | RecvFails nat | Recv nat request | Pass nat | Cancel nat | Handle nat | Reload

definition slotFree :: "'rx extCfg \<Rightarrow> 'rx server \<Rightarrow> bool" where
  "slotFree cfg v = (case x_streamSlots cfg of None \<Rightarrow> True | Some n \<Rightarrow> card (dom (v_conns v)) < n)"

inductive step :: "'rx world \<Rightarrow> 'rx extCfg \<Rightarrow> 'rx server \<Rightarrow> label \<Rightarrow> 'rx server \<Rightarrow> bool" for W cfg where
  step_Start: "v_conns v i = None \<Longrightarrow> slotFree cfg v \<Longrightarrow> step W cfg v (Start i) (setConn i AtTop newStream v)"
| step_Top: "v_conns v i = Some \<lparr>c_phase = AtTop, c_stream = st\<rparr> \<Longrightarrow>
    step W cfg v (Top i) (setConn i AtRecv (releasedStream st) (v\<lparr>v_inflight := releaseBytes st (v_inflight v)\<rparr>))"
| step_RecvFails: "v_conns v i = Some \<lparr>c_phase = AtRecv, c_stream = st\<rparr> \<Longrightarrow>
    step W cfg v (RecvFails i) (endConn i st v)"
| step_Recv: "v_conns v i = Some \<lparr>c_phase = AtRecv, c_stream = st\<rparr> \<Longrightarrow>
    step W cfg v (Recv i req) (admit cfg i req st v)"
| step_Pass: "v_conns v i = Some \<lparr>c_phase = Waiting isReq b, c_stream = st\<rparr> \<Longrightarrow>
    \<not> v_inflight v > x_inflightLimit cfg \<Longrightarrow>
    step W cfg v (Pass i) (setConn i (Admitted (bodyRequest isReq b)) (noteAdded isReq b st) v)"
| step_Cancel: "v_conns v i = Some \<lparr>c_phase = Waiting isReq b, c_stream = st\<rparr> \<Longrightarrow>
    v_inflight v > x_inflightLimit cfg \<Longrightarrow>
    step W cfg v (Cancel i) (endConn i st (v\<lparr>v_inflight := v_inflight v - int (length b)\<rparr>))"
| step_Handle: "v_conns v i = Some \<lparr>c_phase = Admitted req, c_stream = st\<rparr> \<Longrightarrow>
    step W cfg v (Handle i) (handle W cfg env clock calls fails i req st v)"
| step_Reload: "step W cfg v Reload (ReloadRules W srt packs v)"

inductive_cases stepE: "step W cfg v l v'"
inductive_cases step_PassE: "step W cfg v (Pass i) v'"

inductive reachable :: "'rx world \<Rightarrow> 'rx extCfg \<Rightarrow> 'rx server \<Rightarrow> bool" for W cfg where
  reach_init: "v_conns v = Map.empty \<Longrightarrow> v_inflight v = 0 \<Longrightarrow> reachable W cfg v"
| reach_step: "reachable W cfg v \<Longrightarrow> step W cfg v l v' \<Longrightarrow> reachable W cfg v'"

section \<open>Bytes in flight\<close>

text \<open>The bytes a stream has added and not released.\<close>

definition held :: "conn \<Rightarrow> int" where
  "held c = s_lastReqAdded (c_stream c) + s_lastRespAdded (c_stream c)
     + (case c_phase c of Waiting isReq b \<Rightarrow> int (length b) | _ \<Rightarrow> 0)"

definition connOk :: "conn \<Rightarrow> bool" where
  "connOk c \<longleftrightarrow> s_lastReqAdded (c_stream c) \<ge> 0 \<and> s_lastRespAdded (c_stream c) \<ge> 0
     \<and> (c_phase c = AtRecv \<or> (\<exists>isReq b. c_phase c = Waiting isReq b) \<longrightarrow>
          s_lastReqAdded (c_stream c) = 0 \<and> s_lastRespAdded (c_stream c) = 0)"

definition totalHeld :: "(nat \<rightharpoonup> conn) \<Rightarrow> int" where
  "totalHeld m = (\<Sum>i \<in> dom m. held (the (m i)))"

definition serverInv :: "'rx extCfg \<Rightarrow> 'rx server \<Rightarrow> bool" where
  "serverInv cfg v \<longleftrightarrow> finite (dom (v_conns v)) \<and> (\<forall>i c. v_conns v i = Some c \<longrightarrow> connOk c)
     \<and> v_inflight v = totalHeld (v_conns v)
     \<and> (\<forall>n. x_streamSlots cfg = Some n \<longrightarrow> card (dom (v_conns v)) \<le> n)"

lemma totalHeld_upd:
  assumes "finite (dom m)"
  shows "totalHeld (m(i \<mapsto> c)) = totalHeld m - (case m i of Some c' \<Rightarrow> held c' | None \<Rightarrow> 0) + held c"
proof -
  have "totalHeld (m(i \<mapsto> c)) = held c + (\<Sum>j \<in> dom m - {i}. held (the (m j)))"
    using assms by (simp add: totalHeld_def sum.insert_remove)
  moreover have "totalHeld m = (case m i of Some c' \<Rightarrow> held c' | None \<Rightarrow> 0) + (\<Sum>j \<in> dom m - {i}. held (the (m j)))"
  proof (cases "m i")
    case None
    then have "dom m - {i} = dom m" by auto
    with None show ?thesis by (simp add: totalHeld_def)
  next
    case (Some c')
    then have "i \<in> dom m" by auto
    with Some assms show ?thesis by (simp add: totalHeld_def sum.remove)
  qed
  ultimately show ?thesis by simp
qed

lemma totalHeld_del:
  assumes "finite (dom m)" "m i = Some c"
  shows "totalHeld (m(i := None)) = totalHeld m - held c"
proof -
  from assms(2) have "i \<in> dom m" by auto
  with assms show ?thesis by (simp add: totalHeld_def sum.remove)
qed

lemma setConn_inv:
  assumes inv: "serverInv cfg v" and same: "v_conns v1 = v_conns v"
    and slot: "v_conns v i = None \<Longrightarrow> slotFree cfg v"
    and ok: "connOk \<lparr>c_phase = ph, c_stream = st\<rparr>"
    and bytes: "v_inflight v1 = v_inflight v - (case v_conns v i of Some c \<Rightarrow> held c | None \<Rightarrow> 0)
           + held \<lparr>c_phase = ph, c_stream = st\<rparr>"
  shows "serverInv cfg (setConn i ph st v1)"
proof -
  have fin: "finite (dom (v_conns v))" using inv by (simp add: serverInv_def)
  have "card (insert i (dom (v_conns v))) \<le> n" if "x_streamSlots cfg = Some n" for n
  proof (cases "v_conns v i")
    case None
    then have "card (dom (v_conns v)) < n" using slot that by (simp add: slotFree_def)
    with None fin show ?thesis by (simp add: card_insert_if domIff)
  next
    case (Some c)
    then have "insert i (dom (v_conns v)) = dom (v_conns v)" by auto
    then show ?thesis using inv that by (simp add: serverInv_def)
  qed
  then show ?thesis
    using inv same ok bytes fin by (auto simp: serverInv_def setConn_def totalHeld_upd)
qed

lemma endConn_inv:
  assumes inv: "serverInv cfg v" and same: "v_conns v1 = v_conns v" and i: "v_conns v i = Some c"
    and bytes: "releaseBytes st (v_inflight v1) = v_inflight v - held c"
  shows "serverInv cfg (endConn i st v1)"
proof -
  have "card (dom (v_conns v) - {i}) \<le> n" if "x_streamSlots cfg = Some n" for n
    using inv that card_Diff1_le [of "dom (v_conns v)" i] unfolding serverInv_def by (meson le_trans)
  with assms show ?thesis by (auto simp: serverInv_def endConn_def totalHeld_del)
qed

lemma inv_connOk: "serverInv cfg v \<Longrightarrow> v_conns v i = Some c \<Longrightarrow> connOk c"
  by (simp add: serverInv_def)

lemma releaseBytes_ok: "connOk \<lparr>c_phase = ph, c_stream = st\<rparr> \<Longrightarrow>
    releaseBytes st x = x - s_lastReqAdded st - s_lastRespAdded st"
  by (auto simp: releaseBytes_def connOk_def Let_def)

lemma releasedStream_zero: "connOk \<lparr>c_phase = ph, c_stream = st\<rparr> \<Longrightarrow>
    s_lastReqAdded (releasedStream st) = 0 \<and> s_lastRespAdded (releasedStream st) = 0"
  by (auto simp: releasedStream_def connOk_def Let_def)

lemma processMessage_added:
  "s_lastReqAdded (fst (processMessage G cfg sq sp req st)) = s_lastReqAdded st"
  "s_lastRespAdded (fst (processMessage G cfg sq sp req st)) = s_lastRespAdded st"
  by (cases req;
      simp add: processMessage_def onRequestBody_def onResponseBody_def onResponseHeaders_def respondBody_def
        bodyLimit_def Let_def split: option.split)+

lemma perform_added:
  assumes "perform cfg fails sa = (rs, st', go)"
  shows "s_lastReqAdded st' = s_lastReqAdded (fst sa)" "s_lastRespAdded st' = s_lastRespAdded (fst sa)"
  using assms by (cases sa; cases "snd sa"; auto simp: perform_def split: if_splits)+

text \<open>Handling a message only replaces the connection, ends it, or updates a scanner's caches.\<close>

lemma handle_shape:
  obtains v1 st' where "v_conns v1 = v_conns v" "v_inflight v1 = v_inflight v"
    "s_lastReqAdded st' = s_lastReqAdded st" "s_lastRespAdded st' = s_lastRespAdded st"
    "handle W cfg env clock calls fails i req st v = setConn i AtTop st' v1
     \<or> handle W cfg env clock calls fails i req st v = endConn i st' v1"
proof -
  let ?pm = "processMessage (lib W) cfg (scanWindow W (v_scReq v) env clock calls requestName)
    (scanWindow W (v_scResp v) env clock calls responseName) req st"
  obtain rs st' go where p: "perform cfg fails ?pm = (rs, st', go)" by (metis prod_cases3)
  obtain v1 where v1: "v_conns v1 = v_conns v" "v_inflight v1 = v_inflight v"
    "handle W cfg env clock calls fails i req st v = (if go then setConn i AtTop st' v1 else endConn i st' v1)"
    by (rule that [of "case req of
        RequestBody b \<Rightarrow> if scansReq cfg st b then v\<lparr>v_scReq := afterScan W env clock calls requestName (windowOf cfg (s_tailReq st) b) (v_scReq v)\<rparr> else v
      | ResponseBody b \<Rightarrow> if scansResp cfg st b then v\<lparr>v_scResp := afterScan W env clock calls responseName (windowOf cfg (s_tailResp st) b) (v_scResp v)\<rparr> else v
      | _ \<Rightarrow> v"])
      (simp_all add: handle_def p Let_def split: request.split)
  show ?thesis
    by (rule that [of v1 st']) (use v1 perform_added [OF p] processMessage_added in auto)
qed

lemma admit_inv:
  assumes inv: "serverInv cfg v" and i: "v_conns v i = Some \<lparr>c_phase = AtRecv, c_stream = st\<rparr>"
  shows "serverInv cfg (admit cfg i req st v)"
proof -
  from inv i have ok: "connOk \<lparr>c_phase = AtRecv, c_stream = st\<rparr>" by (rule inv_connOk)
  have z: "s_lastReqAdded st = 0" "s_lastRespAdded st = 0" using ok by (simp_all add: connOk_def)
  have set_ok: "serverInv cfg (setConn i ph st' (v\<lparr>v_inflight := v_inflight v + x\<rparr>))"
    if "connOk \<lparr>c_phase = ph, c_stream = st'\<rparr>" "held \<lparr>c_phase = ph, c_stream = st'\<rparr> = x" for ph st' x
    by (rule setConn_inv [OF inv]) (use i that z in \<open>auto simp: held_def\<close>)
  show ?thesis
  proof (cases "accounted cfg req")
    case None
    then show ?thesis using set_ok [of "Admitted req" st 0] z by (simp add: admit_def connOk_def held_def)
  next
    case (Some ib)
    obtain isReq b where ib: "ib = (isReq, b)" by (cases ib)
    have w: "serverInv cfg (setConn i (Waiting isReq b) st (v\<lparr>v_inflight := v_inflight v + int (length b)\<rparr>))"
      by (rule set_ok) (simp_all add: connOk_def held_def z)
    have a: "serverInv cfg (setConn i (Admitted req) (noteAdded isReq b st) (v\<lparr>v_inflight := v_inflight v + int (length b)\<rparr>))"
      by (rule set_ok) (simp_all add: connOk_def held_def noteAdded_def z)
    show ?thesis using w a by (simp add: admit_def Some ib Let_def)
  qed
qed

lemma step_inv:
  assumes "step W cfg v l v'" and inv: "serverInv cfg v"
  shows "serverInv cfg v'"
  using assms(1)
proof (cases rule: step.cases)
  case (step_Start i)
  have "serverInv cfg (setConn i AtTop newStream v)"
    by (rule setConn_inv [OF inv]) (use step_Start in \<open>simp_all add: newStream_def connOk_def held_def\<close>)
  with step_Start show ?thesis by simp
next
  case (step_Top i st)
  note ok = inv_connOk [OF inv step_Top(3)]
  have "serverInv cfg (setConn i AtRecv (releasedStream st) (v\<lparr>v_inflight := releaseBytes st (v_inflight v)\<rparr>))"
    by (rule setConn_inv [OF inv])
      (use step_Top releaseBytes_ok [OF ok] releasedStream_zero [OF ok] in \<open>simp_all add: connOk_def held_def\<close>)
  with step_Top show ?thesis by simp
next
  case (step_RecvFails i st)
  have "serverInv cfg (endConn i st v)"
    by (rule endConn_inv [OF inv refl step_RecvFails(3)])
      (simp add: releaseBytes_ok [OF inv_connOk [OF inv step_RecvFails(3)]] held_def)
  with step_RecvFails show ?thesis by simp
next
  case (step_Recv i st req)
  then show ?thesis using admit_inv inv by simp
next
  case (step_Pass i isReq b st)
  have "serverInv cfg (setConn i (Admitted (bodyRequest isReq b)) (noteAdded isReq b st) v)"
    by (rule setConn_inv [OF inv])
      (use step_Pass(3) inv_connOk [OF inv step_Pass(3)] in \<open>simp_all add: connOk_def held_def noteAdded_def\<close>)
  with step_Pass show ?thesis by simp
next
  case (step_Cancel i isReq b st)
  have "serverInv cfg (endConn i st (v\<lparr>v_inflight := v_inflight v - int (length b)\<rparr>))"
    by (rule endConn_inv [OF inv _ step_Cancel(3)])
      (simp_all add: releaseBytes_ok [OF inv_connOk [OF inv step_Cancel(3)]] held_def)
  with step_Cancel show ?thesis by simp
next
  case (step_Handle i req st env clock calls fails)
  note ok = inv_connOk [OF inv step_Handle(3)]
  obtain v1 st' where v1: "v_conns v1 = v_conns v" "v_inflight v1 = v_inflight v"
    and st': "s_lastReqAdded st' = s_lastReqAdded st" "s_lastRespAdded st' = s_lastRespAdded st"
    and shape: "v' = setConn i AtTop st' v1 \<or> v' = endConn i st' v1"
    using handle_shape step_Handle(2) by metis
  have ok': "connOk \<lparr>c_phase = AtTop, c_stream = st'\<rparr>" using ok st' by (simp add: connOk_def)
  have "serverInv cfg (setConn i AtTop st' v1)"
    by (rule setConn_inv [OF inv v1(1)]) (use step_Handle(3) v1 st' ok' in \<open>simp_all add: held_def\<close>)
  moreover have "serverInv cfg (endConn i st' v1)"
    by (rule endConn_inv [OF inv v1(1) step_Handle(3)])
      (simp add: releaseBytes_ok [OF ok'] v1 st' held_def)
  ultimately show ?thesis using shape by auto
next
  case (step_Reload srt packs)
  then show ?thesis using inv
    by (simp add: ReloadRules_def serverInv_def split: option.split prod.split)
qed

lemma reachable_inv: "reachable W cfg v \<Longrightarrow> serverInv cfg v"
proof (induction rule: reachable.induct)
  case (reach_init v)
  then show ?case by (simp add: serverInv_def totalHeld_def)
next
  case (reach_step v l v')
  then show ?case using step_inv by blast
qed

lemma held_nonneg: "connOk c \<Longrightarrow> 0 \<le> held c"
  by (auto simp: connOk_def held_def split: phase.split)

lemma held_le_inflight:
  assumes "serverInv cfg v" "finite A" "A \<subseteq> dom (v_conns v)"
  shows "(\<Sum>i \<in> A. held (the (v_conns v i))) \<le> v_inflight v"
proof -
  have "(\<Sum>i \<in> A. held (the (v_conns v i))) \<le> totalHeld (v_conns v)"
    unfolding totalHeld_def
    by (rule sum_mono2) (use assms in \<open>auto simp: serverInv_def intro!: held_nonneg\<close>)
  then show ?thesis using assms(1) by (simp add: serverInv_def)
qed

section \<open>What a step touches\<close>

fun labelConn :: "label \<Rightarrow> nat option" where
  "labelConn (Start i) = Some i"
| "labelConn (Top i) = Some i"
| "labelConn (RecvFails i) = Some i"
| "labelConn (Recv i req) = Some i"
| "labelConn (Pass i) = Some i"
| "labelConn (Cancel i) = Some i"
| "labelConn (Handle i) = Some i"
| "labelConn Reload = None"

lemma conns_simps [simp]:
  "v_conns (setConn i ph st v) = (v_conns v)(i \<mapsto> \<lparr>c_phase = ph, c_stream = st\<rparr>)"
  "v_conns (endConn i st v) = (v_conns v)(i := None)"
  "v_conns (ReloadRules W srt packs v) = v_conns v"
  by (simp_all add: setConn_def endConn_def ReloadRules_def split: option.split prod.split)

lemma admit_other: "j \<noteq> i \<Longrightarrow> v_conns (admit cfg i req st v) j = v_conns v j"
  by (simp add: admit_def Let_def split: option.split)

lemma handle_other: "j \<noteq> i \<Longrightarrow> v_conns (handle W cfg env clock calls fails i req st v) j = v_conns v j"
  by (rule handle_shape [of v st W cfg env clock calls fails i req]) auto

lemma step_other: "step W cfg v l v' \<Longrightarrow> labelConn l \<noteq> Some j \<Longrightarrow> v_conns v' j = v_conns v j"
  by (induction rule: step.induct) (auto simp: admit_other handle_other)

text \<open>A waiting stream leaves the loop only by passing the test or by being cancelled.\<close>

lemma waiting_steps:
  assumes "step W cfg v l v'" "v_conns v i = Some \<lparr>c_phase = Waiting isReq b, c_stream = st\<rparr>"
    "labelConn l = Some i"
  shows "l = Pass i \<and> v_inflight v \<le> x_inflightLimit cfg \<or> l = Cancel i"
  using assms by (induction rule: step.induct) auto

section \<open>Properties\<close>

text \<open>
  C6. The counter of bytes in flight is exact: in every reachable state of any number of streams,
  with every interleaving and every way of ending a stream, it is the sum of what the live
  streams have added and not released, never negative, and zero when no stream is left; and
  there are never more live streams than slots.
\<close>

theorem inflight_accounting:
  assumes "reachable W cfg v"
  shows "v_inflight v = (\<Sum>i \<in> dom (v_conns v). held (the (v_conns v i))) \<and> 0 \<le> v_inflight v
    \<and> (v_conns v = Map.empty \<longrightarrow> v_inflight v = 0)
    \<and> (\<forall>n. x_streamSlots cfg = Some n \<longrightarrow> card (dom (v_conns v)) \<le> n)"
proof -
  note inv = reachable_inv [OF assms]
  then have "v_inflight v = (\<Sum>i \<in> dom (v_conns v). held (the (v_conns v i)))"
    by (simp add: serverInv_def totalHeld_def)
  moreover have "0 \<le> v_inflight v" using held_le_inflight [OF inv, of "{}"] by simp
  ultimately show ?thesis using inv by (auto simp: serverInv_def totalHeld_def)
qed

text \<open>
  Two waiting streams can block each other for good: when the chunks of two streams together
  exceed the limit, though each alone is below it, neither ever passes the test, because each
  keeps its own bytes in the counter while it waits; only a cancellation ends the wait.
\<close>

theorem waiting_streams_block:
  assumes "reachable W cfg v" "i \<noteq> j"
    and "v_conns v i = Some \<lparr>c_phase = Waiting d b, c_stream = st\<rparr>"
    and "v_conns v j = Some \<lparr>c_phase = Waiting e c, c_stream = su\<rparr>"
    and "int (length b) + int (length c) > x_inflightLimit cfg"
    and "step W cfg v l v'" "l \<noteq> Cancel i" "l \<noteq> Cancel j"
  shows "v_conns v' i = v_conns v i \<and> v_conns v' j = v_conns v j"
proof -
  note inv = reachable_inv [OF assms(1)]
  have "held \<lparr>c_phase = Waiting d b, c_stream = st\<rparr> = int (length b)"
    "held \<lparr>c_phase = Waiting e c, c_stream = su\<rparr> = int (length c)"
    using inv_connOk [OF inv assms(3)] inv_connOk [OF inv assms(4)] by (simp_all add: held_def connOk_def)
  then have "int (length b) + int (length c) \<le> v_inflight v"
    using held_le_inflight [OF inv, of "{i, j}"] assms(2-4) by (simp add: domIff)
  with assms(5) have "\<not> v_inflight v \<le> x_inflightLimit cfg" by simp
  then have "labelConn l \<noteq> Some i" "labelConn l \<noteq> Some j"
    using waiting_steps [OF assms(6,3)] waiting_steps [OF assms(6,4)] assms(7,8) by auto
  then show ?thesis using step_other [OF assms(6)] by blast
qed

definition advances :: "label \<Rightarrow> bool" where
  "advances l \<longleftrightarrow> (case l of Top _ \<Rightarrow> True | Recv _ _ \<Rightarrow> True | Pass _ \<Rightarrow> True | Handle _ \<Rightarrow> True | _ \<Rightarrow> False)"

definition isWaiting :: "conn \<Rightarrow> bool" where
  "isWaiting c = (case c_phase c of Waiting _ _ \<Rightarrow> True | _ \<Rightarrow> False)"

text \<open>
  C27. When the server makes progress: some live stream can go on, without a new stream, a reload, a
  transport error or a cancellation, exactly when one of them is not in the waiting loop or
  the counter is within the limit.
\<close>

theorem progress_iff:
  assumes "v_conns v \<noteq> Map.empty"
  shows "(\<exists>l v'. advances l \<and> step W cfg v l v') \<longleftrightarrow>
    (\<exists>i c. v_conns v i = Some c \<and> \<not> isWaiting c) \<or> v_inflight v \<le> x_inflightLimit cfg"
    (is "?L \<longleftrightarrow> ?R")
proof
  assume ?L
  then obtain l v' where "step W cfg v l v'" "advances l" by blast
  then show ?R
    by (induction rule: step.induct) (force simp: advances_def isWaiting_def)+
next
  assume ?R
  then consider (running) i c where "v_conns v i = Some c" "\<not> isWaiting c"
    | (free) "\<forall>i c. v_conns v i = Some c \<longrightarrow> isWaiting c" "v_inflight v \<le> x_inflightLimit cfg" by blast
  then show ?L
  proof cases
    case running
    then show ?thesis
    proof (cases "c_phase c")
      case AtTop
      then have "v_conns v i = Some \<lparr>c_phase = AtTop, c_stream = c_stream c\<rparr>" using running by simp
      from step_Top [OF this] show ?thesis by (intro exI conjI) (auto simp: advances_def)
    next
      case AtRecv
      then have "v_conns v i = Some \<lparr>c_phase = AtRecv, c_stream = c_stream c\<rparr>" using running by simp
      from step_Recv [OF this, of W cfg OtherRequest] show ?thesis
        by (intro exI conjI) (auto simp: advances_def)
    next
      case (Admitted req)
      then have "v_conns v i = Some \<lparr>c_phase = Admitted req, c_stream = c_stream c\<rparr>" using running by simp
      from step_Handle [OF this] have "\<exists>v'. step W cfg v (Handle i) v'" by blast
      moreover have "advances (Handle i)" by (simp add: advances_def)
      ultimately show ?thesis by blast
    qed (simp add: isWaiting_def)
  next
    case free
    from assms obtain i c where c: "v_conns v i = Some c" by fastforce
    with free(1) have "isWaiting c" by blast
    then obtain d b where "c_phase c = Waiting d b" by (cases "c_phase c") (auto simp: isWaiting_def)
    then have "v_conns v i = Some \<lparr>c_phase = Waiting d b, c_stream = c_stream c\<rparr>" using c by simp
    from step_Pass [OF this, of cfg W] free(2) show ?thesis
      by (intro exI conjI) (auto simp: advances_def)
  qed
qed

section \<open>Witnesses\<close>

definition tightCfg :: "string extCfg" where
  "tightCfg = (demoCfg ''enforce'')\<lparr>x_inflightLimit := 10\<rparr>"

definition idleServer :: "string server" where
  "idleServer = \<lparr>v_inflight = 0, v_scReq = ScanEngineCstor 0, v_scResp = ScanEngineCstor 0,
     v_globals = initGlobals, v_conns = Map.empty\<rparr>"

definition waiting6 :: conn where
  "waiting6 = \<lparr>c_phase = Waiting True ''abcdef'', c_stream = newStream\<rparr>"

definition twoWaiting :: "string server" where
  "twoWaiting = idleServer\<lparr>v_inflight := 12, v_conns := [0 \<mapsto> waiting6, 1 \<mapsto> waiting6]\<rparr>"

lemma start_to_wait:
  assumes "reachable W tightCfg v" "v_conns v i = None" "int (length b) < 10" "b \<noteq> []"
  shows "reachable W tightCfg (v\<lparr>v_inflight := v_inflight v + int (length b),
    v_conns := (v_conns v)(i \<mapsto> \<lparr>c_phase = Waiting True b, c_stream = newStream\<rparr>)\<rparr>)"
proof -
  let ?v1 = "setConn i AtTop newStream v"
  let ?v2 = "setConn i AtRecv newStream v"
  have "step W tightCfg v (Start i) ?v1"
    using assms(2) by (intro step_Start) (simp_all add: slotFree_def tightCfg_def demoCfg_def)
  then have r1: "reachable W tightCfg ?v1" by (rule reach_step [OF assms(1)])
  have "step W tightCfg ?v1 (Top i) (setConn i AtRecv (releasedStream newStream)
      (?v1\<lparr>v_inflight := releaseBytes newStream (v_inflight ?v1)\<rparr>))"
    by (rule step_Top) simp
  then have "step W tightCfg ?v1 (Top i) ?v2"
    by (simp add: releasedStream_def releaseBytes_def newStream_def setConn_def)
  then have r2: "reachable W tightCfg ?v2" by (rule reach_step [OF r1])
  have "step W tightCfg ?v2 (Recv i (RequestBody b)) (admit tightCfg i (RequestBody b) newStream ?v2)"
    by (rule step_Recv) simp
  then have "reachable W tightCfg (admit tightCfg i (RequestBody b) newStream ?v2)"
    by (rule reach_step [OF r2])
  then show ?thesis using assms(3,4)
    by (simp add: admit_def accounted_def setConn_def tightCfg_def demoCfg_def)
qed

lemma twoWaiting_reachable: "reachable litWorld tightCfg twoWaiting"
proof -
  have "reachable litWorld tightCfg idleServer" by (rule reach_init) (simp_all add: idleServer_def)
  from start_to_wait [OF this, of 0 "''abcdef''"]
  have "reachable litWorld tightCfg (idleServer\<lparr>v_inflight := 6, v_conns := [0 \<mapsto> waiting6]\<rparr>)"
    by (simp add: idleServer_def waiting6_def)
  from start_to_wait [OF this, of 1 "''abcdef''"] show ?thesis
    by (simp add: twoWaiting_def idleServer_def waiting6_def)
qed

theorem inflight_accounting_witness: "v_inflight twoWaiting = 12 \<and> 0 \<le> v_inflight twoWaiting"
  using inflight_accounting [OF twoWaiting_reachable] by (simp add: twoWaiting_def)

theorem waiting_streams_block_witness:
  "v_conns (ReloadRules litWorld id (Some []) twoWaiting) 0 = v_conns twoWaiting 0"
  using waiting_streams_block [OF twoWaiting_reachable, of 0 1, OF _ _ _ _ step_Reload]
  by (simp add: twoWaiting_def waiting6_def tightCfg_def demoCfg_def)

theorem progress_iff_witness: "\<not> (\<exists>l v'. advances l \<and> step litWorld tightCfg twoWaiting l v')"
proof -
  have "v_conns twoWaiting \<noteq> Map.empty" by (simp add: twoWaiting_def)
  from progress_iff [OF this, of litWorld tightCfg] show ?thesis
    by (auto simp: twoWaiting_def waiting6_def isWaiting_def tightCfg_def demoCfg_def split: if_splits)
qed

end
