(* ===== verification/Check.thy ===== *)
theory Check
  imports Scanner_IO Decisions
begin

text \<open>
  The HTTP decision points: \<^verbatim>\<open>check.go\<close>, \<^verbatim>\<open>auth.go\<close> and \<^verbatim>\<open>scanner_pool.go\<close> of
  \<^verbatim>\<open>internal/interfaces/http/enforcer\<close>, and the versioned check and the line scan of
  \<^verbatim>\<open>internal/interfaces/http/api/enforcement.go\<close>. A request is the record \<open>httpReq\<close>; the
  identifier that the router or the generator supplies, the clock and the context are arguments.
  Metrics, tracing spans, audit and usage records are not modelled.
\<close>

section \<open>Requests and responses\<close>

text \<open>\<open>rq_BodyErr\<close> is the error the body's reader ends with, before the limit is applied.\<close>

record httpReq =
  rq_Authorization :: string
  rq_PSToken :: string
  rq_XRequestID :: string
  rq_RouterID :: string
  rq_TraceID :: "string option"
  rq_Path :: string
  rq_Body :: string
  rq_BodyErr :: "string option"

datatype httpBody =
    PlainBody string
  | ErrorBody string string "(string \<times> string) list"
  | DecisionBody string string nat string

record httpResp =
  hr_Status :: int
  hr_Headers :: "(string \<times> string) list"
  hr_Body :: httpBody

section \<open>Authentication\<close>

definition HttpAuthOK :: "httpReq \<Rightarrow> string \<Rightarrow> bool" where
  "HttpAuthOK r want \<longleftrightarrow>
     want = []
     \<or> (let v = rq_Authorization r
        in v \<noteq> [] \<and> (length v \<ge> 7 \<and> (hasPrefix v ''Bearer '' \<or> hasPrefix v ''bearer '') \<and> drop 7 v = want
                     \<or> v = want))
     \<or> rq_PSToken r \<noteq> [] \<and> rq_PSToken r = want"

section \<open>Reading the body\<close>

definition bodyTooLarge :: string where
  "bodyTooLarge = ''http: request body too large''"

text \<open>\<^verbatim>\<open>http.MaxBytesReader\<close>: the first bytes, and an error when there are more.\<close>

definition limitBody :: "int \<Rightarrow> httpReq \<Rightarrow> string \<times> string option" where
  "limitBody n r =
     (if int (length (rq_Body r)) > n then (take (nat n) (rq_Body r), Some bodyTooLarge)
      else (rq_Body r, rq_BodyErr r))"

definition maxBodyBytes :: "'rx golib \<Rightarrow> int" where
  "maxBodyBytes G =
     (let v = getenv G ''PS_ENFORCER_MAX_BODY_BYTES''
      in if v \<noteq> [] then (case atoi v of Some n \<Rightarrow> if n > 0 then n else 2 ^ 20 | None \<Rightarrow> 2 ^ 20) else 2 ^ 20)"

section \<open>The decision\<close>

record signals =
  sg_anyDeny :: bool
  sg_anyQuarantine :: bool
  sg_firstRule :: string

definition signalStep :: "violation \<Rightarrow> signals \<Rightarrow> signals" where
  "signalStep v s =
     (let s1 = (if sg_firstRule s = [] then s\<lparr>sg_firstRule := v_RuleID v\<rparr> else s)
      in if v_ResponseAction v = ''deny'' \<or> v_ResponseAction v = ''block'' then s1\<lparr>sg_anyDeny := True\<rparr>
         else if v_ResponseAction v = ''quarantine'' then s1\<lparr>sg_anyQuarantine := True\<rparr> else s1)"

definition decide :: "violation list \<Rightarrow> string \<times> string" where
  "decide vs =
     (let s = fold signalStep vs \<lparr>sg_anyDeny = False, sg_anyQuarantine = False, sg_firstRule = []\<rparr>
      in if sg_anyDeny s then (''deny'', firstNonEmpty [sg_firstRule s, ''response_action''])
         else if sg_anyQuarantine s \<or> length vs > 0
         then (''quarantine'', firstNonEmpty [sg_firstRule s, ''signals_detected''])
         else (''allow'', ''no_signals''))"

section \<open>POST /check\<close>

definition enforcerMode :: "'rx golib \<Rightarrow> string" where
  "enforcerMode G =
     (let m = strToLower G (strTrimSpace (getenv G ''PS_ENFORCER_MODE''))
      in if m = [] then strToLower G (strTrimSpace (getenv G ''PS_ENFORCER_ENFORCEMENT_MODE'')) else m)"

definition statusFor :: "'rx golib \<Rightarrow> string \<Rightarrow> int" where
  "statusFor G decision =
     (if (enforcerMode G = ''enforce'' \<or> enforcerMode G = ''quarantine'') \<and> decision \<noteq> ''allow'' then 403 else 200)"

definition scanFailed :: "'rx golib \<Rightarrow> int \<Rightarrow> scanError \<Rightarrow> httpResp" where
  "scanFailed G maxBytes e =
     (if strContains (strToLower G (errorText e)) ''request body too large''
      then \<lparr>hr_Status = 400, hr_Headers = [(''content-type'', ''application/json'')],
            hr_Body = ErrorBody ''INVALID_ARGUMENT'' ''request body too large or invalid'' [(''max_bytes'', itoa maxBytes)]\<rparr>
      else \<lparr>hr_Status = 500, hr_Headers = [(''content-type'', ''application/json'')],
            hr_Body = ErrorBody ''INTERNAL'' ''scan failed'' [(''error'', errorText e)]\<rparr>)"

text \<open>
  The handler with the scanner \<open>sc\<close> of the pool. \<open>t0\<close> and \<open>latency\<close> are what the clock gives.
  The result is the response, the record passed on, and the state of the scan, which holds the
  scanner's caches.
\<close>

definition checkHandler :: "'rx world \<Rightarrow> 'rx scanner \<Rightarrow> scanEnv \<Rightarrow> nat \<Rightarrow> nat \<Rightarrow> int \<Rightarrow> real \<Rightarrow> string \<Rightarrow> httpReq
    \<Rightarrow> httpResp \<times> decRecord option \<times> evalState option" where
  "checkHandler W sc env clock calls t0 latency newID r =
     (let G = lib W; reqToken = getenv G ''PS_ENFORCER_AUTH_TOKEN''
      in if reqToken \<noteq> [] \<and> \<not> HttpAuthOK r reqToken
         then (\<lparr>hr_Status = 401, hr_Headers = [], hr_Body = PlainBody ''unauthorized''\<rparr>, None, None)
         else
           (case limitBody (maxBodyBytes G) r of (d, rerr) \<Rightarrow>
             (case ScanReader W sc env ''http:request'' d rerr clock calls of (st, outcome) \<Rightarrow>
               (case outcome of
                  Inl e \<Rightarrow> (scanFailed G (maxBodyBytes G) e, None, Some st)
                | Inr res \<Rightarrow>
                    (case decide (sr_Violations res) of (decision, reason) \<Rightarrow>
                      (let reqID = (if rq_RouterID r = [] then newID else rq_RouterID r);
                           status = statusFor G decision;
                           total = length (sr_Violations res)
                       in (\<lparr>hr_Status = status,
                             hr_Headers =
                               (case rq_TraceID r of None \<Rightarrow> [] | Some t \<Rightarrow> [(''x-ps-trace-id'', t)])
                               @ [(''x-ps-request-id'', reqID), (''x-ps-decision'', decision),
                                  (''x-ps-reason'', reason), (''content-type'', ''application/json'')],
                             hr_Body = DecisionBody decision reason total reqID\<rparr>,
                           Some (zeroRecord\<lparr>rc_RequestID := reqID, rc_Time := Some t0, rc_Path := rq_Path r,
                             rc_Decision := decision, rc_Reason := reason, rc_Status := status,
                             rc_LatencyMs := latency, rc_BytesIn := BytesRead (sr_Metrics res),
                             rc_Violations := int total, rc_Matches := MatchesFrom (sr_Violations res)\<rparr>),
                           Some st)))))))"

section \<open>The scanner pool\<close>

definition buildScanner :: "'rx world \<Rightarrow> (rulePack list \<Rightarrow> rulePack list) \<Rightarrow> int \<Rightarrow> analyzer option
    \<Rightarrow> rulePack list \<Rightarrow> 'rx globals \<Rightarrow> 'rx scanner \<times> 'rx globals" where
  "buildScanner W srt maxBytes analyzer packs g =
     (let s0 = ScanEngineCstor 0;
          s1 = (if maxBytes > 0 then SetMaxStreamBytes maxBytes s0 else s0);
          s2 = SetQuarantineOnError True (SetQuarantineOnTimeout True s1);
          (s3, g1) = (if length packs > 0 then LoadRulePacks W srt packs (s2, g) else (s2, g))
      in (case analyzer of None \<Rightarrow> s3 | Some a \<Rightarrow> SetSemanticAnalyzer (Some a) s3, g1))"

definition semanticAnalyzerFromEnv :: "'rx golib \<Rightarrow> (string \<Rightarrow> analyzer) \<Rightarrow> analyzer option" where
  "semanticAnalyzerFromEnv G openai =
     (if getenv G ''PS_SEMANTIC_ENABLED'' \<noteq> ''true'' \<or> getenv G ''PS_SEMANTIC_PROVIDER'' \<noteq> ''openai'' then None
      else let apiKey = getenv G ''OPENAI_API_KEY'' in if apiKey = [] then None else Some (openai apiKey))"

section \<open>POST /v1/check\<close>

text \<open>
  Which scanner scans: that of the policies if there are active ones, else one made for the
  request from the active rules or the rule pack named in the environment.
\<close>

definition staticScanner :: "'rx world \<Rightarrow> (rulePack list \<Rightarrow> rulePack list) \<Rightarrow> rulePack list option
    \<Rightarrow> (string \<Rightarrow> string + rulePack list) \<Rightarrow> 'rx globals \<Rightarrow> 'rx scanner \<times> 'rx globals" where
  "staticScanner W srt activeRules load g =
     (let G = lib W; v = getenv G ''PS_ENFORCER_MAX_STREAM_BYTES'';
          s0 = ScanEngineCstor 0;
          s1 = (if v \<noteq> [] then (case atoi v of Some n \<Rightarrow> if n > 0 then SetMaxStreamBytes n s0 else s0 | None \<Rightarrow> s0) else s0);
          s2 = SetQuarantineOnError True (SetQuarantineOnTimeout True s1);
          rulepack = getenv G ''PS_ENFORCER_RULEPACK''
      in case activeRules of
           Some packs \<Rightarrow> if length packs > 0 then LoadRulePacks W srt packs (s2, g) else (s2, g)
         | None \<Rightarrow>
             if rulepack \<noteq> [] then
               (case load rulepack of Inr packs \<Rightarrow> LoadRulePacks W srt packs (s2, g) | Inl e \<Rightarrow> (s2, g))
             else (s2, g))"

definition scanFailedV1 :: "'rx golib \<Rightarrow> scanError \<Rightarrow> httpResp" where
  "scanFailedV1 G e =
     (let msg = errorText e;
          code = (if strContains (strToLower G msg) ''request body too large'' then 400 else 500)
      in \<lparr>hr_Status = code, hr_Headers = [(''content-type'', ''application/json'')],
          hr_Body = ErrorBody (if code = 400 then ''INVALID_ARGUMENT'' else ''INTERNAL'') ''scan failed'' [(''error'', msg)]\<rparr>)"

definition checkV1 :: "'rx world \<Rightarrow> 'rx scanner \<Rightarrow> string \<Rightarrow> scanEnv \<Rightarrow> nat \<Rightarrow> nat \<Rightarrow> int \<Rightarrow> real \<Rightarrow> string \<Rightarrow> httpReq
    \<Rightarrow> httpResp \<times> decRecord option \<times> evalState option" where
  "checkV1 W sc name env clock calls t0 latency newID r =
     (let G = lib W; reqToken = getenv G ''PS_ENFORCER_AUTH_TOKEN''
      in if reqToken \<noteq> [] \<and> \<not> HttpAuthOK r reqToken
         then (\<lparr>hr_Status = 401, hr_Headers = [], hr_Body = PlainBody ''unauthorized''\<rparr>, None, None)
         else
           (case limitBody (maxBodyBytes G) r of (d, rerr) \<Rightarrow>
             (case ScanReader W sc env name d rerr clock calls of (st, outcome) \<Rightarrow>
               (case outcome of
                  Inl e \<Rightarrow> (scanFailedV1 G e, None, Some st)
                | Inr res \<Rightarrow>
                    (case decide (sr_Violations res) of (decision, reason) \<Rightarrow>
                      (let reqID = firstNonEmpty [rq_XRequestID r, rq_RouterID r, newID];
                           status = (if decision \<noteq> ''allow'' then 403 else 200);
                           total = length (sr_Violations res)
                       in (\<lparr>hr_Status = status,
                             hr_Headers =
                               [(''x-ps-request-id'', reqID), (''x-ps-decision'', decision),
                                (''x-ps-reason'', reason), (''content-type'', ''application/json'')],
                             hr_Body = DecisionBody decision reason total reqID\<rparr>,
                           Some (zeroRecord\<lparr>rc_RequestID := reqID, rc_Time := Some t0, rc_Path := rq_Path r,
                             rc_Decision := decision, rc_Reason := reason, rc_Status := status,
                             rc_LatencyMs := latency, rc_BytesIn := BytesRead (sr_Metrics res),
                             rc_Violations := int total, rc_Matches := MatchesFrom (sr_Violations res)\<rparr>),
                           Some st)))))))"

text \<open>\<^verbatim>\<open>runScanLine\<close>: the scanner is made for the line; an error of the scan is an allow.\<close>

definition lineScanner :: "'rx world \<Rightarrow> (rulePack list \<Rightarrow> rulePack list) \<Rightarrow> (string \<Rightarrow> analyzer)
    \<Rightarrow> (string \<Rightarrow> string + rulePack list) \<Rightarrow> 'rx globals \<Rightarrow> 'rx scanner \<times> 'rx globals" where
  "lineScanner W srt openai load g =
     (let G = lib W;
          s1 = (case semanticAnalyzerFromEnv G openai of
                  None \<Rightarrow> ScanEngineCstor 0
                | Some a \<Rightarrow> SetSemanticAnalyzer (Some a) (ScanEngineCstor 0));
          rulepack = getenv G ''PS_ENFORCER_RULEPACK''
      in if rulepack \<noteq> [] then
           (case load rulepack of Inr packs \<Rightarrow> LoadRulePacks W srt packs (s1, g) | Inl e \<Rightarrow> (s1, g))
         else (s1, g))"

definition runScanLine :: "'rx world \<Rightarrow> 'rx scanner \<Rightarrow> scanEnv \<Rightarrow> nat \<Rightarrow> nat \<Rightarrow> string \<Rightarrow> string \<times> string \<times> nat" where
  "runScanLine W sc env clock calls d =
     (case snd (ScanReader W sc env ''http:v1:scan-line'' d None clock calls) of
        Inl e \<Rightarrow> (''allow'', ''no_signals'', 0)
      | Inr res \<Rightarrow> (case decide (sr_Violations res) of (decision, reason) \<Rightarrow> (decision, reason, length (sr_Violations res))))"

text \<open>The report on a JSON array of records, and on one record.\<close>

record scanReport =
  rp_Decisions :: "(string \<times> string \<times> nat) list"
  rp_Total :: nat
  rp_Violations :: nat

definition scanReportOf :: "(string \<times> string \<times> nat) list \<Rightarrow> scanReport" where
  "scanReportOf ds = \<lparr>rp_Decisions = ds, rp_Total = length ds, rp_Violations = sum_list (map (snd \<circ> snd) ds)\<rparr>"

section \<open>What is recorded\<close>

text \<open>\<^verbatim>\<open>RecordDecision\<close>: the log gets the record and numbers its own copy; the event is made from the record as it came.\<close>

definition RecordDecision :: "int \<Rightarrow> decRecord \<Rightarrow> decLog option \<times> decRecord list option \<Rightarrow> decLog option \<times> decRecord list option" where
  "RecordDecision t rec = (\<lambda>(log, events).
     (map_option (Add t rec) log, map_option (\<lambda>es. es @ [rec]) events))"

section \<open>Lemmas\<close>

lemma signals_fold:
  "sg_anyDeny (fold signalStep vs s) \<longleftrightarrow> sg_anyDeny s \<or> (\<exists>v \<in> set vs. v_ResponseAction v \<in> {''deny'', ''block''})"
  "sg_firstRule (fold signalStep vs s) = firstNonEmpty (sg_firstRule s # map v_RuleID vs)"
  by (induction vs arbitrary: s) (auto simp: signalStep_def Let_def)

lemma firstNonEmpty_append: "firstNonEmpty (xs @ [d]) = (if firstNonEmpty xs = [] then d else firstNonEmpty xs)"
  by (induction xs) auto

text \<open>The decision, written out.\<close>

lemma decide_char:
  "decide vs =
     (if \<exists>v \<in> set vs. v_ResponseAction v \<in> {''deny'', ''block''}
      then (''deny'', firstNonEmpty (map v_RuleID vs @ [''response_action'']))
      else if vs \<noteq> [] then (''quarantine'', firstNonEmpty (map v_RuleID vs @ [''signals_detected'']))
      else (''allow'', ''no_signals''))"
proof (cases "vs = []")
  case False
  then show ?thesis
    unfolding decide_def Let_def signals_fold by (simp add: firstNonEmpty_append)
qed (simp add: decide_def)

lemma firstNonEmpty_filter:
  "firstNonEmpty (xs @ [d]) = (case filter (\<lambda>i. i \<noteq> []) xs of i # _ \<Rightarrow> i | [] \<Rightarrow> d)"
  by (induction xs) auto

lemma decide_spec:
  assumes "decide vs = (dec, reason)"
  shows "dec = (if \<exists>v \<in> set vs. v_ResponseAction v \<in> {''deny'', ''block''} then ''deny''
      else if vs \<noteq> [] then ''quarantine'' else ''allow'')"
    and "reason = (case filter (\<lambda>i. i \<noteq> []) (map v_RuleID vs) of
      i # _ \<Rightarrow> i
    | [] \<Rightarrow> if dec = ''deny'' then ''response_action'' else if dec = ''quarantine'' then ''signals_detected'' else ''no_signals'')"
proof -
  let ?D = "\<exists>v \<in> set vs. v_ResponseAction v \<in> {''deny'', ''block''}"
  have d: "(dec, reason) = (if ?D then (''deny'', firstNonEmpty (map v_RuleID vs @ [''response_action'']))
      else if vs \<noteq> [] then (''quarantine'', firstNonEmpty (map v_RuleID vs @ [''signals_detected'']))
      else (''allow'', ''no_signals''))"
    using assms unfolding decide_char by simp
  show dec: "dec = (if ?D then ''deny'' else if vs \<noteq> [] then ''quarantine'' else ''allow'')"
    using arg_cong [OF d, of fst] by (simp only: fst_conv if_distrib [of fst])
  have "reason = (if ?D then firstNonEmpty (map v_RuleID vs @ [''response_action''])
      else if vs \<noteq> [] then firstNonEmpty (map v_RuleID vs @ [''signals_detected'']) else ''no_signals'')"
    using arg_cong [OF d, of snd] by (simp only: snd_conv if_distrib [of snd])
  then show "reason = (case filter (\<lambda>i. i \<noteq> []) (map v_RuleID vs) of
      i # _ \<Rightarrow> i
    | [] \<Rightarrow> if dec = ''deny'' then ''response_action'' else if dec = ''quarantine'' then ''signals_detected'' else ''no_signals'')"
    unfolding firstNonEmpty_filter dec by (cases ?D; cases "vs = []") simp_all
qed

lemma statusFor_mode:
  "statusFor G dec = (if enforcerMode G \<in> {''enforce'', ''quarantine''} \<and> dec \<noteq> ''allow'' then 403 else 200)"
  by (simp add: statusFor_def)

lemma HttpAuthOK_iff:
  assumes "want \<noteq> []"
  shows "HttpAuthOK r want \<longleftrightarrow>
    rq_Authorization r \<in> {want, ''Bearer '' @ want, ''bearer '' @ want} \<or> rq_PSToken r = want"
proof -
  have "v \<noteq> [] \<and> (length v \<ge> 7 \<and> (hasPrefix v ''Bearer '' \<or> hasPrefix v ''bearer '') \<and> drop 7 v = want \<or> v = want)
      \<longleftrightarrow> v \<in> {want, ''Bearer '' @ want, ''bearer '' @ want}" for v
  proof -
    have "hasPrefix v p \<and> drop 7 v = want \<longleftrightarrow> v = p @ want" if "length p = 7" for p
      using that append_take_drop_id [of 7 v] by (auto simp: hasPrefix_def)
    from this [of "''Bearer ''"] this [of "''bearer ''"] assms show ?thesis by auto
  qed
  with assms show ?thesis by (auto simp: HttpAuthOK_def Let_def)
qed

lemma applyPackSettings_quarantine:
  "quarantineOnTimeout (fst (foldl (applyPackSettings G) sg packs)) = quarantineOnTimeout (fst sg)"
  "quarantineOnError (fst (foldl (applyPackSettings G) sg packs)) = quarantineOnError (fst sg)"
proof -
  have "quarantineOnTimeout (fst (applyPackSettings G sg p)) = quarantineOnTimeout (fst sg)
      \<and> quarantineOnError (fst (applyPackSettings G sg p)) = quarantineOnError (fst sg)" for sg p
    by (cases sg) (auto simp: applyPackSettings_def Let_def split: option.splits)
  then have "quarantineOnTimeout (fst (foldl (applyPackSettings G) sg packs)) = quarantineOnTimeout (fst sg)
      \<and> quarantineOnError (fst (foldl (applyPackSettings G) sg packs)) = quarantineOnError (fst sg)"
    by (induction packs arbitrary: sg) auto
  then show "quarantineOnTimeout (fst (foldl (applyPackSettings G) sg packs)) = quarantineOnTimeout (fst sg)"
    "quarantineOnError (fst (foldl (applyPackSettings G) sg packs)) = quarantineOnError (fst sg)" by auto
qed

lemma LoadRulePacks_quarantine:
  "quarantineOnTimeout (fst (LoadRulePacks W srt packs (s, g))) = quarantineOnTimeout s"
  "quarantineOnError (fst (LoadRulePacks W srt packs (s, g))) = quarantineOnError s"
  by (simp_all add: LoadRulePacks_def Let_def applyPackSettings_quarantine split: prod.split)

definition quarantining :: "'rx scanner \<Rightarrow> bool" where
  "quarantining sc \<longleftrightarrow> quarantineOnTimeout sc \<and> quarantineOnError sc"

text \<open>The scanners of the pool, and those made for a request, turn every failure into a violation.\<close>

lemma quarantining_simps [simp]:
  "quarantining (SetMaxStreamBytes n s) = quarantining s"
  "quarantining (SetSemanticAnalyzer a s) = quarantining s"
  "quarantining (SetQuarantineOnError True (SetQuarantineOnTimeout True s))"
  "quarantining (fst (LoadRulePacks W srt packs (s, g))) = quarantining s"
  "quarantining (ScanEngineCstor n)"
  by (simp_all add: quarantining_def SetMaxStreamBytes_def SetQuarantineOnError_def SetQuarantineOnTimeout_def
      SetSemanticAnalyzer_def LoadRulePacks_quarantine ScanEngineCstor_def DefaultQuarantineOnTimeout_def
      DefaultQuarantineOnError_def)

lemma built_quarantining:
  "quarantining (fst (buildScanner W srt maxBytes analyzer packs g))"
  "quarantining (fst (staticScanner W srt active load g))"
  "quarantining (fst (lineScanner W srt openai load g))"
  by (auto simp: buildScanner_def staticScanner_def lineScanner_def Let_def split_beta
      split: option.split sum.split)

lemma scan_total:
  assumes "quarantining sc"
  shows "\<exists>st res. ScanReader W sc env name d rerr clock calls = (st, Inr res)
    \<and> (rerr \<noteq> None \<longrightarrow> sr_Violations res \<noteq> [])"
proof -
  obtain res where "snd (ScanReader W sc env name d rerr clock calls) = Inr res"
    "rerr \<noteq> None \<longrightarrow> sr_Violations res \<noteq> []"
    using ScanReader_stop_char [of sc W env name d rerr clock calls] assms
    unfolding quarantining_def Let_def by fastforce
  then show ?thesis by (metis prod.collapse)
qed

section \<open>Properties\<close>

text \<open>
  C9. An authorised request that is scanned by a scanner of the pool always gets a decision, and
  the violations of the scan of its body (cut at the limit) alone make it: deny when some violation has the
  action deny or block, else quarantine when there is any violation, else allow. The reason is the first
  rule id that is not empty, else the default text of the decision. The status is 403 when the mode is
  enforce or quarantine and the decision is not allow, otherwise 200. The response, its headers and the
  record passed on all carry this decision, reason, request id and the violations.
\<close>

theorem check_decision:
  assumes "quarantining sc"
    and "getenv (lib W) ''PS_ENFORCER_AUTH_TOKEN'' = [] \<or> HttpAuthOK r (getenv (lib W) ''PS_ENFORCER_AUTH_TOKEN'')"
  shows "\<exists>st res resp rec.
    ScanReader W sc env ''http:request'' (fst (limitBody (maxBodyBytes (lib W)) r)) (snd (limitBody (maxBodyBytes (lib W)) r)) clock calls
      = (st, Inr res)
    \<and> checkHandler W sc env clock calls t0 latency newID r = (resp, Some rec, Some st)
    \<and> (let vs = sr_Violations res;
           decision = (if \<exists>v \<in> set vs. v_ResponseAction v \<in> {''deny'', ''block''} then ''deny''
                       else if vs \<noteq> [] then ''quarantine'' else ''allow'');
           reason = (case filter (\<lambda>i. i \<noteq> []) (map v_RuleID vs) of
                       i # _ \<Rightarrow> i
                     | [] \<Rightarrow> if decision = ''deny'' then ''response_action''
                             else if decision = ''quarantine'' then ''signals_detected'' else ''no_signals'');
           status = (if enforcerMode (lib W) \<in> {''enforce'', ''quarantine''} \<and> decision \<noteq> ''allow'' then 403 else 200);
           ident = (if rq_RouterID r = [] then newID else rq_RouterID r)
       in hr_Status resp = status \<and> hr_Body resp = DecisionBody decision reason (length vs) ident
        \<and> {(''x-ps-request-id'', ident), (''x-ps-decision'', decision), (''x-ps-reason'', reason)} \<subseteq> set (hr_Headers resp)
        \<and> rc_Decision rec = decision \<and> rc_Reason rec = reason \<and> rc_Status rec = status \<and> rc_RequestID rec = ident
        \<and> rc_Violations rec = int (length vs) \<and> rc_Matches rec = MatchesFrom vs)"
proof -
  obtain d rerr where lb: "limitBody (maxBodyBytes (lib W)) r = (d, rerr)" by (meson surj_pair)
  obtain st res where sr: "ScanReader W sc env ''http:request'' d rerr clock calls = (st, Inr res)"
    using scan_total [OF assms(1), of W env "''http:request''" d rerr clock calls] by (elim exE conjE) auto
  let ?vs = "sr_Violations res"
  obtain dec reason where dr: "decide ?vs = (dec, reason)" by (meson surj_pair)
  note spec = decide_spec [OF dr]
  obtain resp rec st' where c: "checkHandler W sc env clock calls t0 latency newID r = (resp, rec, st')" by (metis prod_cases3)
  have "rec \<noteq> None" and st: "st' = Some st" and body: "let ident = (if rq_RouterID r = [] then newID else rq_RouterID r)
    in hr_Status resp = statusFor (lib W) dec \<and> hr_Body resp = DecisionBody dec reason (length ?vs) ident
      \<and> {(''x-ps-request-id'', ident), (''x-ps-decision'', dec), (''x-ps-reason'', reason)} \<subseteq> set (hr_Headers resp)
      \<and> rc_Decision (the rec) = dec \<and> rc_Reason (the rec) = reason \<and> rc_Status (the rec) = statusFor (lib W) dec
      \<and> rc_RequestID (the rec) = ident \<and> rc_Violations (the rec) = int (length ?vs) \<and> rc_Matches (the rec) = MatchesFrom ?vs"
    using c assms(2) lb sr dr by (auto simp: checkHandler_def Let_def)
  then obtain rec' where rec: "rec = Some rec'" by blast
  note body' = body [unfolded rec option.sel Let_def statusFor_mode spec(2)]
  show ?thesis
    by (intro exI conjI, simp add: lb, rule sr, rule c [unfolded rec st], use body' in \<open>simp only: Let_def spec(1) [symmetric]\<close>)
qed

text \<open>
  With a scanner of the pool the handler never fails: an authorised request always gets a
  decision, and a body over the limit, or one whose reader fails, is never allowed; the answers
  400 and 500 do not occur.
\<close>

theorem check_total:
  assumes "quarantining sc"
    and "getenv (lib W) ''PS_ENFORCER_AUTH_TOKEN'' = [] \<or> HttpAuthOK r (getenv (lib W) ''PS_ENFORCER_AUTH_TOKEN'')"
  shows "\<exists>resp rec st. checkHandler W sc env clock calls t0 latency newID r = (resp, Some rec, Some st)
    \<and> hr_Status resp \<in> {200, 403}
    \<and> (int (length (rq_Body r)) > maxBodyBytes (lib W) \<or> rq_BodyErr r \<noteq> None \<longrightarrow> rc_Decision rec \<noteq> ''allow'')"
proof -
  obtain d rerr where lb: "limitBody (maxBodyBytes (lib W)) r = (d, rerr)" by (meson surj_pair)
  obtain st res where sr: "ScanReader W sc env ''http:request'' d rerr clock calls = (st, Inr res)"
    and ne: "rerr \<noteq> None \<longrightarrow> sr_Violations res \<noteq> []" 
    using scan_total [OF assms(1), of W env "''http:request''" d rerr clock calls] by (elim exE conjE) auto
  obtain dec reason where dr: "decide (sr_Violations res) = (dec, reason)" by (meson surj_pair)
  have "rerr \<noteq> None" if "int (length (rq_Body r)) > maxBodyBytes (lib W) \<or> rq_BodyErr r \<noteq> None"
    using lb that by (auto simp: limitBody_def split: if_splits)
  then have "dec \<noteq> ''allow''" if "int (length (rq_Body r)) > maxBodyBytes (lib W) \<or> rq_BodyErr r \<noteq> None"
    using ne that dr by (auto simp: decide_char split: if_splits)
  with assms(2) lb sr dr show ?thesis by (auto simp: checkHandler_def statusFor_def Let_def)
qed

text \<open>
  The two check endpoints agree on the decision: on one scan outcome they send the same
  decision and reason; but the versioned one answers 403 to every decision other than allow,
  whatever the mode.
\<close>

theorem checkV1_agrees:
  assumes "checkHandler W sc env clock calls t0 latency newID r = (resp, Some rec, st)"
    and "snd (ScanReader W sc' env' name d rerr clock' calls') = snd (ScanReader W sc env ''http:request'' d rerr clock calls)"
    and "limitBody (maxBodyBytes (lib W)) r = (d, rerr)"
    and "checkV1 W sc' name env' clock' calls' t0' latency' newID' r = (resp', rec', st')"
  shows "\<exists>rec1. rec' = Some rec1 \<and> rc_Decision rec1 = rc_Decision rec \<and> rc_Reason rec1 = rc_Reason rec
    \<and> rc_Matches rec1 = rc_Matches rec
    \<and> (hr_Status resp' = 403 \<longleftrightarrow> rc_Decision rec \<noteq> ''allow'')"
proof -
  obtain s1 o1 where s1: "ScanReader W sc env ''http:request'' d rerr clock calls = (s1, o1)" by (meson surj_pair)
  obtain s2 o2 where s2: "ScanReader W sc' env' name d rerr clock' calls' = (s2, o2)" by (meson surj_pair)
  from assms(2) s1 s2 have o: "o2 = o1" by simp
  obtain res where res: "o1 = Inr res"
    using assms(1,3) s1 by (cases o1) (auto simp: checkHandler_def Let_def split: if_splits)
  have auth: "\<not> (getenv (lib W) ''PS_ENFORCER_AUTH_TOKEN'' \<noteq> [] \<and> \<not> HttpAuthOK r (getenv (lib W) ''PS_ENFORCER_AUTH_TOKEN''))"
  proof
    assume "getenv (lib W) ''PS_ENFORCER_AUTH_TOKEN'' \<noteq> [] \<and> \<not> HttpAuthOK r (getenv (lib W) ''PS_ENFORCER_AUTH_TOKEN'')"
    with assms(1) show False by (simp add: checkHandler_def Let_def)
  qed
  obtain dec reason where dr: "decide (sr_Violations res) = (dec, reason)" by (meson surj_pair)
  from assms(1) auth s1 res dr assms(3) have "rc_Decision rec = dec" "rc_Reason rec = reason"
    "rc_Matches rec = MatchesFrom (sr_Violations res)"
    by (auto simp: checkHandler_def Let_def)
  with assms(3,4) auth s2 o res dr show ?thesis by (auto simp: checkV1_def Let_def)
qed

text \<open>
  What was answered can be looked up: after a decision is recorded, the log returns for the
  request id a record with the decision, reason and status of the response; the event that goes
  to the subscribers has no sequence number, though the log's copy has one.
\<close>

theorem check_recorded:
  assumes "checkHandler W sc env clock calls t0 latency newID r = (resp, Some rec, st)" "logInv l"
    and "RecordDecision t rec (Some l, Some es) = (Some l', Some es')"
  shows "\<exists>rec'. Get l' (rc_RequestID rec) = Some rec' \<and> rc_Decision rec' = rc_Decision rec
    \<and> rc_Reason rec' = rc_Reason rec \<and> rc_Status rec' = hr_Status resp \<and> rc_Seq rec' = lg_total l + 1
    \<and> es' = es @ [rec] \<and> rc_Seq (last es') = 0"
proof -
  from assms(3) have l': "l' = Add t rec l" "es' = es @ [rec]" by (auto simp: RecordDecision_def)
  have "rc_Status rec = hr_Status resp \<and> rc_Seq rec = 0"
    using assms(1) by (auto simp: checkHandler_def zeroRecord_def Let_def split: if_splits prod.splits sum.splits)
  with Get_Add [OF assms(2), of t rec] l' show ?thesis by (simp add: stamp_def)
qed

section \<open>Witnesses\<close>

definition demoReq :: httpReq where
  "demoReq = \<lparr>rq_Authorization = [], rq_PSToken = [], rq_XRequestID = [], rq_RouterID = ''r-1'', rq_TraceID = None,
     rq_Path = ''/check'', rq_Body = ''hello'', rq_BodyErr = Some ''unexpected EOF''\<rparr>"

lemma litWorld_noToken: "getenv litLib k = []"
  by (simp add: litLib_def)

lemma demo_check:
  "\<exists>resp rec st. checkHandler litWorld (ScanEngineCstor 0) calmEnv 0 0 5 1 ''new'' demoReq = (resp, Some rec, Some st)
    \<and> hr_Status resp \<in> {200, 403} \<and> rc_Decision rec \<noteq> ''allow''"
proof -
  have lb: "limitBody (maxBodyBytes (lib litWorld)) demoReq = (''hello'', Some ''unexpected EOF'')"
    by (simp add: limitBody_def maxBodyBytes_def litWorld_noToken demoReq_def Let_def)
  obtain st res where sr: "ScanReader litWorld (ScanEngineCstor 0) calmEnv ''http:request'' ''hello''
      (Some ''unexpected EOF'') 0 0 = (st, Inr res)" "sr_Violations res \<noteq> []"
    using scan_total [of "ScanEngineCstor 0" litWorld calmEnv "''http:request''" "''hello''" "Some ''unexpected EOF''" 0 0] by auto
  obtain dec reason where dr: "decide (sr_Violations res) = (dec, reason)" by (meson surj_pair)
  with sr(2) have "dec \<noteq> ''allow''" by (auto simp: decide_char split: if_splits)
  with lb sr dr show ?thesis by (simp add: checkHandler_def statusFor_def Let_def litWorld_noToken)
qed

text \<open>A rule that denies, in a process that enforces.\<close>

definition denyScanner :: "string scanner" where
  "denyScanner = demoScanner\<lparr>compiled := [(plainRule ''r1'' 1 [''alpha''])
     \<lparr>cr_response := Some \<lparr>rs_Action = ''deny'', rs_Message = [], rs_Replacement = []\<rparr>\<rparr>]\<rparr>"

definition enforceWorld :: "string world" where
  "enforceWorld = litWorld\<lparr>lib := litLib\<lparr>getenv := (\<lambda>k. if k = ''PS_ENFORCER_MODE'' then ''enforce'' else [])\<rparr>\<rparr>"

theorem check_decision_witness:
  "\<exists>resp rec st. checkHandler enforceWorld denyScanner calmEnv 0 0 5 1 ''new'' (demoReq\<lparr>rq_Body := ''an alpha'', rq_BodyErr := None\<rparr>)
      = (resp, Some rec, st)
    \<and> hr_Status resp = 403 \<and> hr_Body resp = DecisionBody ''deny'' ''r1'' 1 ''r-1'' \<and> rc_Decision rec = ''deny''"
proof -
  let ?r = "demoReq\<lparr>rq_Body := ''an alpha'', rq_BodyErr := None\<rparr>"
  have q: "quarantining denyScanner"
    by (simp add: quarantining_def denyScanner_def demoScanner_def ScanEngineCstor_def DefaultQuarantineOnTimeout_def DefaultQuarantineOnError_def)
  have lb: "limitBody (maxBodyBytes (lib enforceWorld)) ?r = (''an alpha'', None)" by code_simp
  have vs: "map_sum id (\<lambda>res. map (\<lambda>v. (v_RuleID v, v_ResponseAction v)) (sr_Violations res))
      (snd (ScanReader enforceWorld denyScanner calmEnv ''http:request'' ''an alpha'' None 0 0)) = Inr [(''r1'', ''deny'')]"
    by code_simp
  have "strTrimSpace ''enforce'' = ''enforce''"
    by (simp add: strTrimSpace_def Let_def runeSegs_ascii isAscii_def isSpaceRune_def byte_def)
  moreover have "strToLower (lib enforceWorld) ''enforce'' = ''enforce''"
    unfolding strToLower_def mapBytes_def isAscii_def by code_simp
  moreover have "getenv (lib enforceWorld) ''PS_ENFORCER_MODE'' = ''enforce''" by code_simp
  ultimately have m: "enforcerMode (lib enforceWorld) = ''enforce''" by (simp add: enforcerMode_def)
  have tok: "getenv (lib enforceWorld) ''PS_ENFORCER_AUTH_TOKEN'' = []" by code_simp
  note all = check_decision [OF q disjI1 [OF tok], where r = ?r and env = calmEnv and clock = 0 and calls = 0
      and ?t0.0 = 5 and latency = 1 and newID = "''new''", unfolded lb fst_conv snd_conv m]
  obtain st res resp rec where c: "ScanReader enforceWorld denyScanner calmEnv ''http:request'' ''an alpha'' None 0 0 = (st, Inr res)"
    "checkHandler enforceWorld denyScanner calmEnv 0 0 5 1 ''new'' ?r = (resp, Some rec, Some st)"
    and out: "sr_Violations res = [v] \<Longrightarrow> v_RuleID v = ''r1'' \<Longrightarrow> v_ResponseAction v = ''deny'' \<Longrightarrow>
      hr_Status resp = 403 \<and> hr_Body resp = DecisionBody ''deny'' ''r1'' 1 ''r-1'' \<and> rc_Decision rec = ''deny''" for v
    using all by (elim exE conjE) (simp add: Let_def demoReq_def)
  obtain v where "sr_Violations res = [v]" "v_RuleID v = ''r1''" "v_ResponseAction v = ''deny''"
    using vs c(1) by auto
  with out c(2) show ?thesis by blast
qed

theorem check_total_witness:
  "\<exists>resp rec st. checkHandler litWorld (ScanEngineCstor 0) calmEnv 0 0 5 1 ''new'' demoReq = (resp, Some rec, Some st)
    \<and> hr_Status resp \<in> {200, 403} \<and> rc_Decision rec \<noteq> ''allow''"
  using check_total [of "ScanEngineCstor 0" litWorld demoReq calmEnv 0 0 5 1 "''new''"]
  by (auto simp: litWorld_noToken demoReq_def)

theorem checkV1_agrees_witness:
  "\<exists>resp rec st resp' rec'. checkHandler litWorld (ScanEngineCstor 0) calmEnv 0 0 5 1 ''new'' demoReq = (resp, Some rec, st)
    \<and> checkV1 litWorld (ScanEngineCstor 0) ''http:request'' calmEnv 0 0 6 2 ''x'' demoReq = (resp', Some rec', st)
    \<and> rc_Decision rec' = rc_Decision rec"
proof -
  obtain resp rec st where c: "checkHandler litWorld (ScanEngineCstor 0) calmEnv 0 0 5 1 ''new'' demoReq = (resp, Some rec, st)"
    using demo_check by blast
  obtain d rerr where lb: "limitBody (maxBodyBytes (lib litWorld)) demoReq = (d, rerr)" by (meson surj_pair)
  obtain resp' rec' st' where v1: "checkV1 litWorld (ScanEngineCstor 0) ''http:request'' calmEnv 0 0 6 2 ''x'' demoReq = (resp', rec', st')"
    by (metis prod_cases3)
  have "st' = st" using c v1
    by (auto simp: checkHandler_def checkV1_def Let_def litWorld_noToken split: prod.splits sum.splits)
  with checkV1_agrees [OF c refl lb v1] c v1 show ?thesis by blast
qed

theorem check_recorded_witness:
  "\<exists>rec l' es'. RecordDecision 9 rec (Some (NewLog 0 2), Some []) = (Some l', Some es')
    \<and> (\<exists>rec'. Get l' (rc_RequestID rec) = Some rec' \<and> rc_Decision rec' = rc_Decision rec) \<and> rc_Seq (last es') = 0"
proof -
  obtain resp rec st where c: "checkHandler litWorld (ScanEngineCstor 0) calmEnv 0 0 5 1 ''new'' demoReq = (resp, Some rec, st)"
    using demo_check by blast
  have r: "RecordDecision 9 rec (Some (NewLog 0 2), Some []) = (Some (Add 9 rec (NewLog 0 2)), Some [rec])"
    by (simp add: RecordDecision_def)
  from check_recorded [OF c logInv_NewLog r] r show ?thesis by blast
qed

end
