(* ===== verification/Rulepack_Repo.thy ===== *)
theory Rulepack_Repo
  imports Go_Prelude
begin

text \<open>
  The in-memory store of rule packs and their versions:
  \<^verbatim>\<open>internal/infrastructure/persistence/memory/rulepack_repository.go\<close>. An identifier is a natural
  number, 0 the nil UUID; what \<^verbatim>\<open>uuid.New\<close> and the clock give are arguments, and so is the
  order in which a loop over the map of versions, or of packs, meets its keys. Each method holds
  the lock, so it is one step. The errors include those of a database, for other stores.
\<close>

section \<open>Data\<close>

record rulepackRow =
  pk_ID :: uuid
  pk_TenantID :: uuid
  pk_Name :: string
  pk_Description :: string
  pk_CreatedAt :: int

record versionRow =
  vr_ID :: uuid
  vr_RulepackID :: uuid
  vr_Version :: int
  vr_DSL :: string
  vr_Status :: string
  vr_CreatedBy :: uuid
  vr_CreatedAt :: int

record rulepackInfo =
  ri_ID :: uuid
  ri_Name :: string
  ri_Description :: string
  ri_Version :: int
  ri_Active :: bool

record repo =
  rulepacks :: "uuid \<rightharpoonup> rulepackRow"
  versions :: "uuid \<rightharpoonup> versionRow"
  activeVersion :: "uuid \<rightharpoonup> uuid"

datatype repoErr =
    ErrRulepackNameExists
  | RulepackNotFound uuid
  | VersionNotFound uuid
  | NoActiveVersion uuid
  | NoSuchVersion int uuid
  | NoVersions uuid
  | DbError string

section \<open>Operations\<close>

definition emptyRepo :: repo where
  "emptyRepo = \<lparr>rulepacks = Map.empty, versions = Map.empty, activeVersion = Map.empty\<rparr>"

text \<open>\<open>dsl\<close> is the built-in rule pack text, \<open>verID\<close> the new identifier of its version.\<close>

definition defaultPackID :: uuid where
  "defaultPackID = 0xf47ac10b58cc4372a5670e02b2c3d479"

definition NewRulepackRepository :: "int \<Rightarrow> uuid \<Rightarrow> string \<Rightarrow> repo" where
  "NewRulepackRepository t verID dsl =
     emptyRepo\<lparr>
       rulepacks := [defaultPackID \<mapsto> \<lparr>pk_ID = defaultPackID, pk_TenantID = 0, pk_Name = ''Default Security Rules'',
         pk_Description = ''Built-in security rules for prompt injection detection'', pk_CreatedAt = t\<rparr>],
       versions := [verID \<mapsto> \<lparr>vr_ID = verID, vr_RulepackID = defaultPackID, vr_Version = 1, vr_DSL = dsl,
         vr_Status = ''approved'', vr_CreatedBy = 0, vr_CreatedAt = t\<rparr>],
       activeVersion := [defaultPackID \<mapsto> verID]\<rparr>"

definition CreatePack :: "int \<Rightarrow> uuid \<Rightarrow> uuid \<Rightarrow> string \<Rightarrow> string \<Rightarrow> repo \<Rightarrow> repo \<times> (repoErr + uuid)" where
  "CreatePack t newID tenant name desc r =
     (if \<exists>p \<in> ran (rulepacks r). pk_TenantID p = tenant \<and> pk_Name p = name then (r, Inl ErrRulepackNameExists)
      else (r\<lparr>rulepacks := (rulepacks r)(newID \<mapsto> \<lparr>pk_ID = newID, pk_TenantID = tenant, pk_Name = name,
                pk_Description = desc, pk_CreatedAt = t\<rparr>)\<rparr>, Inr newID))"

definition CreateVersion :: "int \<Rightarrow> uuid \<Rightarrow> uuid \<Rightarrow> int \<Rightarrow> string \<Rightarrow> string \<Rightarrow> uuid \<Rightarrow> repo \<Rightarrow> repo \<times> (repoErr + uuid)" where
  "CreateVersion t newID pack version dsl status author r =
     (case rulepacks r pack of
        None \<Rightarrow> (r, Inl (RulepackNotFound pack))
      | Some _ \<Rightarrow>
          (r\<lparr>versions := (versions r)(newID \<mapsto> \<lparr>vr_ID = newID, vr_RulepackID = pack, vr_Version = version,
               vr_DSL = dsl, vr_Status = status, vr_CreatedBy = author, vr_CreatedAt = t\<rparr>)\<rparr>, Inr newID))"

definition CreateVersionActivateTx :: "int \<Rightarrow> uuid \<Rightarrow> uuid \<Rightarrow> int \<Rightarrow> string \<Rightarrow> uuid \<Rightarrow> repo \<Rightarrow> repo \<times> (repoErr + uuid)" where
  "CreateVersionActivateTx t newID pack version dsl author r =
     (case rulepacks r pack of
        None \<Rightarrow> (r, Inl (RulepackNotFound pack))
      | Some _ \<Rightarrow>
          (r\<lparr>versions := (versions r)(newID \<mapsto> \<lparr>vr_ID = newID, vr_RulepackID = pack, vr_Version = version,
               vr_DSL = dsl, vr_Status = ''approved'', vr_CreatedBy = author, vr_CreatedAt = t\<rparr>),
             activeVersion := (activeVersion r)(pack \<mapsto> newID)\<rparr>, Inr newID))"

definition GetActive :: "uuid \<Rightarrow> repo \<Rightarrow> repoErr + string \<times> int" where
  "GetActive pack r =
     (case activeVersion r pack of
        None \<Rightarrow> Inl (NoActiveVersion pack)
      | Some v \<Rightarrow>
          (case versions r v of
             None \<Rightarrow> Inl (VersionNotFound v)
           | Some ver \<Rightarrow> Inr (vr_DSL ver, vr_Version ver)))"

definition Activate :: "uuid \<Rightarrow> uuid \<Rightarrow> repo \<Rightarrow> repo \<times> repoErr option" where
  "Activate pack v r =
     (if rulepacks r pack = None then (r, Some (RulepackNotFound pack))
      else if versions r v = None then (r, Some (VersionNotFound v))
      else (r\<lparr>activeVersion := (activeVersion r)(pack \<mapsto> v)\<rparr>, None))"

definition GetVersion :: "uuid list \<Rightarrow> uuid \<Rightarrow> int \<Rightarrow> repo \<Rightarrow> repoErr + string \<times> string" where
  "GetVersion ord pack version r =
     (case find (\<lambda>ver. vr_RulepackID ver = pack \<and> vr_Version ver = version) (List.map_filter (versions r) ord) of
        None \<Rightarrow> Inl (NoSuchVersion version pack)
      | Some ver \<Rightarrow> Inr (vr_DSL ver, vr_Status ver))"

definition laterVersion :: "uuid \<Rightarrow> versionRow \<Rightarrow> versionRow option \<Rightarrow> versionRow option" where
  "laterVersion pack ver latest =
     (if vr_RulepackID ver = pack
      then (case latest of None \<Rightarrow> Some ver | Some l \<Rightarrow> if vr_Version ver > vr_Version l then Some ver else latest)
      else latest)"

definition GetLatestVersion :: "uuid list \<Rightarrow> uuid \<Rightarrow> repo \<Rightarrow> repoErr + uuid \<times> int" where
  "GetLatestVersion ord pack r =
     (case fold (laterVersion pack) (List.map_filter (versions r) ord) None of
        None \<Rightarrow> Inl (NoVersions pack)
      | Some ver \<Rightarrow> Inr (vr_ID ver, vr_Version ver))"

text \<open>
  One step here. The code takes the lock for each of the two calls, so another call may come in between and
  the version activated may not be the latest any more, or be gone: then \<open>Activate\<close> refuses it.
\<close>

definition ActivateLatest :: "uuid list \<Rightarrow> uuid \<Rightarrow> repo \<Rightarrow> repo \<times> repoErr option" where
  "ActivateLatest ord pack r =
     (case GetLatestVersion ord pack r of
        Inl e \<Rightarrow> (r, Some e)
      | Inr (v, _) \<Rightarrow> Activate pack v r)"

definition infoOf :: "repo \<Rightarrow> rulepackRow \<Rightarrow> rulepackInfo" where
  "infoOf r p =
     (let info = \<lparr>ri_ID = pk_ID p, ri_Name = pk_Name p, ri_Description = pk_Description p, ri_Version = 0, ri_Active = False\<rparr>
      in case activeVersion r (pk_ID p) of
           None \<Rightarrow> info
         | Some v \<Rightarrow>
             (case versions r v of
                None \<Rightarrow> info
              | Some ver \<Rightarrow> info\<lparr>ri_Version := vr_Version ver, ri_Active := True\<rparr>))"

definition ListByTenant :: "uuid list \<Rightarrow> uuid \<Rightarrow> repo \<Rightarrow> rulepackInfo list" where
  "ListByTenant ord tenant r =
     map (infoOf r) (filter (\<lambda>p. pk_TenantID p = tenant \<or> tenant = 0) (List.map_filter (rulepacks r) ord))"

definition DeletePack :: "uuid \<Rightarrow> repo \<Rightarrow> repo \<times> repoErr option" where
  "DeletePack pack r =
     (if rulepacks r pack = None then (r, Some (RulepackNotFound pack))
      else (\<lparr>rulepacks = (rulepacks r)(pack := None),
             versions = (\<lambda>v. case versions r v of
                          Some ver \<Rightarrow> if vr_RulepackID ver = pack then None else Some ver | None \<Rightarrow> None),
             activeVersion = (activeVersion r)(pack := None)\<rparr>, None))"

text \<open>The deleting loop of \<open>PurgeOldVersions\<close>: it takes the keys as the map yields them.\<close>

fun purgeLoop :: "uuid \<Rightarrow> int \<Rightarrow> uuid list \<Rightarrow> repo \<Rightarrow> repo" where
  "purgeLoop pack toDelete [] r = r"
| "purgeLoop pack toDelete (v # vs) r =
     (case versions r v of
        Some ver \<Rightarrow>
          if vr_RulepackID ver = pack \<and> toDelete > 0 \<and> activeVersion r pack \<noteq> Some v
          then purgeLoop pack (toDelete - 1) vs (r\<lparr>versions := (versions r)(v := None)\<rparr>)
          else purgeLoop pack toDelete vs r
      | None \<Rightarrow> purgeLoop pack toDelete vs r)"

definition packVersions :: "uuid \<Rightarrow> repo \<Rightarrow> uuid set" where
  "packVersions pack r = {v. \<exists>ver. versions r v = Some ver \<and> vr_RulepackID ver = pack}"

definition PurgeOldVersions :: "uuid list \<Rightarrow> uuid \<Rightarrow> int \<Rightarrow> repo \<Rightarrow> repo" where
  "PurgeOldVersions ord pack retention r =
     (let n = int (card (packVersions pack r))
      in if n > retention then purgeLoop pack (n - retention) ord r else r)"

section \<open>Invariant\<close>

definition repoInv :: "repo \<Rightarrow> bool" where
  "repoInv r \<longleftrightarrow> finite (dom (versions r))
     \<and> (\<forall>i p. rulepacks r i = Some p \<longrightarrow> pk_ID p = i)
     \<and> (\<forall>v ver. versions r v = Some ver \<longrightarrow> vr_ID ver = v \<and> vr_RulepackID ver \<in> dom (rulepacks r))
     \<and> dom (activeVersion r) \<subseteq> dom (rulepacks r)
     \<and> (\<forall>i j p q. rulepacks r i = Some p \<longrightarrow> rulepacks r j = Some q \<longrightarrow>
          pk_TenantID p = pk_TenantID q \<longrightarrow> pk_Name p = pk_Name q \<longrightarrow> i = j)"

text \<open>The active version of a pack exists and is one of its own.\<close>

definition activeOwned :: "repo \<Rightarrow> bool" where
  "activeOwned r \<longleftrightarrow> (\<forall>i v. activeVersion r i = Some v \<longrightarrow> v \<in> packVersions i r)"

lemma purgeLoop_parts [simp]:
  "rulepacks (purgeLoop pack k vs r) = rulepacks r" "activeVersion (purgeLoop pack k vs r) = activeVersion r"
  by (induction pack k vs r rule: purgeLoop.induct) (auto split: option.splits)

lemma purgeLoop_versions:
  "versions (purgeLoop pack k vs r) v = Some ver \<Longrightarrow> versions r v = Some ver"
  by (induction pack k vs r rule: purgeLoop.induct) (auto split: option.splits if_splits)

lemma purgeLoop_keeps:
  assumes "versions r v = Some ver" "vr_RulepackID ver \<noteq> pack \<or> activeVersion r pack = Some v"
  shows "versions (purgeLoop pack k vs r) v = Some ver"
  using assms
proof (induction pack k vs r rule: purgeLoop.induct)
  case (2 pack k w vs r)
  then show ?case by (cases "v = w") (auto split: option.splits)
qed simp

lemma repoInv_sub:
  assumes "repoInv r" "\<And>v ver. versions r' v = Some ver \<Longrightarrow> versions r v = Some ver"
    "rulepacks r' = rulepacks r" "activeVersion r' = activeVersion r"
  shows "repoInv r'"
proof -
  have "dom (versions r') \<subseteq> dom (versions r)" using assms(2) by (auto simp: dom_def)
  then have "finite (dom (versions r'))" using assms(1) finite_subset by (auto simp: repoInv_def)
  moreover have "vr_ID ver = v \<and> vr_RulepackID ver \<in> dom (rulepacks r)" if "versions r' v = Some ver" for v ver
    using assms(1) assms(2) [OF that] by (simp add: repoInv_def)
  ultimately show ?thesis using assms(1,3,4) by (simp add: repoInv_def)
qed

lemma CreatePack_inv: "repoInv r \<Longrightarrow> rulepacks r newID = None \<Longrightarrow> repoInv (fst (CreatePack t newID tenant name desc r))"
  by (auto simp: CreatePack_def repoInv_def ran_def split: if_splits)

lemma CreateVersion_inv: "repoInv r \<Longrightarrow> repoInv (fst (CreateVersion t newID pack version dsl status author r))"
  by (auto simp: CreateVersion_def repoInv_def split: option.split)

lemma CreateVersionActivateTx_inv: "repoInv r \<Longrightarrow> repoInv (fst (CreateVersionActivateTx t newID pack version dsl author r))"
  by (auto simp: CreateVersionActivateTx_def repoInv_def split: option.split)

lemma Activate_inv: "repoInv r \<Longrightarrow> repoInv (fst (Activate pack v r))"
  by (auto simp: Activate_def repoInv_def)

lemma ActivateLatest_inv: "repoInv r \<Longrightarrow> repoInv (fst (ActivateLatest ord pack r))"
  by (auto simp: ActivateLatest_def Activate_inv split: sum.split)

lemma DeletePack_inv: "repoInv r \<Longrightarrow> repoInv (fst (DeletePack pack r))"
proof -
  assume inv: "repoInv r"
  have "dom (\<lambda>v. case versions r v of Some ver \<Rightarrow> if vr_RulepackID ver = pack then None else Some ver | None \<Rightarrow> None)
      \<subseteq> dom (versions r)" by (auto split: option.splits)
  with inv have "finite (dom (\<lambda>v. case versions r v of Some ver \<Rightarrow> if vr_RulepackID ver = pack then None else Some ver | None \<Rightarrow> None))"
    using finite_subset by (auto simp: repoInv_def)
  with inv show ?thesis
    by (auto simp: DeletePack_def repoInv_def split: option.splits if_splits)
qed

lemma PurgeOldVersions_inv: "repoInv r \<Longrightarrow> repoInv (PurgeOldVersions ord pack n r)"
  by (auto simp: PurgeOldVersions_def Let_def intro: repoInv_sub purgeLoop_versions)

section \<open>Active versions\<close>

lemma packVersions_upd:
  "versions r v = None \<Longrightarrow> packVersions pack r \<subseteq> packVersions pack (r\<lparr>versions := (versions r)(v \<mapsto> ver)\<rparr>)"
  by (auto simp: packVersions_def)

lemma latest_owned:
  assumes "repoInv r" "fold (laterVersion pack) (List.map_filter (versions r) ord) acc = Some ver"
    "\<forall>l. acc = Some l \<longrightarrow> vr_ID l \<in> packVersions pack r"
  shows "vr_ID ver \<in> packVersions pack r"
  using assms(2,3)
proof (induction ord arbitrary: acc)
  case (Cons v ord)
  have "vr_ID l \<in> packVersions pack r" if "versions r v = Some w" "laterVersion pack w acc = Some l" for w l
    using that Cons.prems(2) assms(1)
    by (auto simp: laterVersion_def repoInv_def packVersions_def split: if_splits option.splits)
  with Cons show ?case by (cases "versions r v") (auto simp: List.map_filter_simps)
qed (simp add: List.map_filter_simps)

lemma CreatePack_owned: "activeOwned r \<Longrightarrow> activeOwned (fst (CreatePack t newID tenant name desc r))"
  by (auto simp: CreatePack_def activeOwned_def packVersions_def)

lemma CreateVersion_owned:
  "activeOwned r \<Longrightarrow> versions r newID = None \<Longrightarrow> activeOwned (fst (CreateVersion t newID pack version dsl status author r))"
  by (cases "rulepacks r pack") (fastforce simp: CreateVersion_def activeOwned_def packVersions_def)+

lemma CreateVersionActivateTx_owned:
  "activeOwned r \<Longrightarrow> versions r newID = None \<Longrightarrow> activeOwned (fst (CreateVersionActivateTx t newID pack version dsl author r))"
  by (cases "rulepacks r pack") (fastforce simp: CreateVersionActivateTx_def activeOwned_def packVersions_def)+

lemma Activate_owned: "activeOwned r \<Longrightarrow> v \<in> packVersions pack r \<Longrightarrow> activeOwned (fst (Activate pack v r))"
  by (auto simp: Activate_def activeOwned_def packVersions_def)

lemma ActivateLatest_owned: "repoInv r \<Longrightarrow> activeOwned r \<Longrightarrow> activeOwned (fst (ActivateLatest ord pack r))"
proof (cases "fold (laterVersion pack) (List.map_filter (versions r) ord) None")
  case (Some ver)
  assume "repoInv r" "activeOwned r"
  with latest_owned [OF _ Some] Some show ?thesis
    by (simp add: ActivateLatest_def GetLatestVersion_def Activate_owned)
qed (simp add: ActivateLatest_def GetLatestVersion_def)

lemma DeletePack_owned: "activeOwned r \<Longrightarrow> activeOwned (fst (DeletePack pack r))"
  unfolding DeletePack_def activeOwned_def packVersions_def by (fastforce split: if_splits)

lemma PurgeOldVersions_owned: "activeOwned r \<Longrightarrow> activeOwned (PurgeOldVersions ord pack n r)"
proof -
  assume own: "activeOwned r"
  have "v \<in> packVersions i (purgeLoop pack k ord r)" if act: "activeVersion r i = Some v" for i v k
  proof -
    obtain ver where ver: "versions r v = Some ver" "vr_RulepackID ver = i"
      using own act by (auto simp: activeOwned_def packVersions_def)
    with purgeLoop_keeps [OF ver(1), of pack k ord] act show ?thesis by (auto simp: packVersions_def)
  qed
  with own show ?thesis by (simp add: PurgeOldVersions_def activeOwned_def Let_def)
qed

section \<open>Sequences of operations\<close>

datatype repoOp =
    OpCreate int uuid uuid string string
  | OpVersion int uuid uuid int string string uuid
  | OpTx int uuid uuid int string uuid
  | OpActivate uuid uuid
  | OpLatest "uuid list" uuid
  | OpDelete uuid
  | OpPurge "uuid list" uuid int

fun applyOp :: "repoOp \<Rightarrow> repo \<Rightarrow> repo" where
  "applyOp (OpCreate t i tenant name desc) r = fst (CreatePack t i tenant name desc r)"
| "applyOp (OpVersion t i pack n dsl status author) r = fst (CreateVersion t i pack n dsl status author r)"
| "applyOp (OpTx t i pack n dsl author) r = fst (CreateVersionActivateTx t i pack n dsl author r)"
| "applyOp (OpActivate pack v) r = fst (Activate pack v r)"
| "applyOp (OpLatest ord pack) r = fst (ActivateLatest ord pack r)"
| "applyOp (OpDelete pack) r = fst (DeletePack pack r)"
| "applyOp (OpPurge ord pack n) r = PurgeOldVersions ord pack n r"

text \<open>What \<^verbatim>\<open>uuid.New\<close> promises: the identifier is not in use.\<close>

fun freshOp :: "repoOp \<Rightarrow> repo \<Rightarrow> bool" where
  "freshOp (OpCreate t i tenant name desc) r \<longleftrightarrow> rulepacks r i = None"
| "freshOp (OpVersion t i pack n dsl status author) r \<longleftrightarrow> versions r i = None"
| "freshOp (OpTx t i pack n dsl author) r \<longleftrightarrow> versions r i = None"
| "freshOp _ r \<longleftrightarrow> True"

fun ownOp :: "repoOp \<Rightarrow> repo \<Rightarrow> bool" where
  "ownOp (OpActivate pack v) r \<longleftrightarrow> v \<in> packVersions pack r"
| "ownOp _ r \<longleftrightarrow> True"

fun along :: "(repoOp \<Rightarrow> repo \<Rightarrow> bool) \<Rightarrow> repoOp list \<Rightarrow> repo \<Rightarrow> bool" where
  "along P [] r \<longleftrightarrow> True"
| "along P (op # ops) r \<longleftrightarrow> P op r \<and> along P ops (applyOp op r)"

lemma applyOp_inv: "repoInv r \<Longrightarrow> freshOp op r \<Longrightarrow> repoInv (applyOp op r)"
  by (cases op) (simp_all add: CreatePack_inv CreateVersion_inv CreateVersionActivateTx_inv Activate_inv
      ActivateLatest_inv DeletePack_inv PurgeOldVersions_inv)

lemma applyOp_owned: "repoInv r \<Longrightarrow> activeOwned r \<Longrightarrow> freshOp op r \<Longrightarrow> ownOp op r \<Longrightarrow> activeOwned (applyOp op r)"
  by (cases op) (simp_all add: CreatePack_owned CreateVersion_owned CreateVersionActivateTx_owned Activate_owned
      ActivateLatest_owned DeletePack_owned PurgeOldVersions_owned)

lemma new_repo_inv: "repoInv (NewRulepackRepository t v dsl) \<and> activeOwned (NewRulepackRepository t v dsl)"
  by (simp add: NewRulepackRepository_def emptyRepo_def repoInv_def activeOwned_def packVersions_def)

section \<open>Purging\<close>

definition deletable :: "uuid \<Rightarrow> repo \<Rightarrow> uuid \<Rightarrow> bool" where
  "deletable pack r v \<longleftrightarrow> v \<in> packVersions pack r \<and> activeVersion r pack \<noteq> Some v"

lemma packVersions_del: "packVersions pack (r\<lparr>versions := (versions r)(v := None)\<rparr>) = packVersions pack r - {v}"
  by (auto simp: packVersions_def)

lemma purgeLoop_count:
  "distinct vs \<Longrightarrow> finite (packVersions pack r) \<Longrightarrow>
   card (packVersions pack (purgeLoop pack k vs r)) + min (nat k) (length (filter (deletable pack r) vs))
   = card (packVersions pack r)"
proof (induction vs arbitrary: k r)
  case (Cons v vs)
  show ?case
  proof (cases "deletable pack r v \<and> k > 0")
    case True
    let ?r = "r\<lparr>versions := (versions r)(v := None)\<rparr>"
    have v: "v \<in> packVersions pack r" using True by (simp add: deletable_def)
    let ?m = "length (filter (deletable pack r) vs)"
    have run: "purgeLoop pack k (v # vs) r = purgeLoop pack (k - 1) vs ?r"
      using True by (auto simp: deletable_def packVersions_def)
    have "filter (deletable pack ?r) vs = filter (deletable pack r) vs"
      using Cons.prems(1) by (intro filter_cong) (auto simp: deletable_def packVersions_del)
    then have ih: "card (packVersions pack (purgeLoop pack (k - 1) vs ?r)) + min (nat (k - 1)) ?m
        = card (packVersions pack r) - 1"
      using Cons.IH [of ?r "k - 1"] Cons.prems v by (simp add: packVersions_del)
    have "card (packVersions pack r) > 0" using v Cons.prems(2) card_gt_0_iff by blast
    moreover have "min (nat k) (Suc ?m) = Suc (min (nat (k - 1)) ?m)" using True by auto
    ultimately have "card (packVersions pack (purgeLoop pack (k - 1) vs ?r)) + min (nat k) (Suc ?m)
        = card (packVersions pack r)" using ih by linarith
    then show ?thesis using True run by simp
  next
    case False
    then have "purgeLoop pack k (v # vs) r = purgeLoop pack k vs r"
      by (auto simp: deletable_def packVersions_def split: option.splits)
    moreover have "min (nat k) (length (filter (deletable pack r) (v # vs))) = min (nat k) (length (filter (deletable pack r) vs))"
      using False by auto
    ultimately show ?thesis using Cons by simp
  qed
qed simp

section \<open>Properties\<close>

text \<open>
  C24. The store keeps its invariant: from a new store, along any operations with fresh identifiers,
  every version belongs to a pack that exists, only existing packs have an active version, and
  no tenant has two packs with one name; and if every explicit activation names a version of its
  pack, the active version of every pack is at all times an existing version of that pack.
\<close>

theorem repo_invariant:
  assumes "along freshOp ops (NewRulepackRepository t v dsl)"
  shows "repoInv (fold applyOp ops (NewRulepackRepository t v dsl))
    \<and> (along ownOp ops (NewRulepackRepository t v dsl) \<longrightarrow>
         activeOwned (fold applyOp ops (NewRulepackRepository t v dsl)))"
proof -
  have "repoInv (fold applyOp ops r) \<and> (along ownOp ops r \<longrightarrow> activeOwned r \<longrightarrow> activeOwned (fold applyOp ops r))"
    if "repoInv r" "along freshOp ops r" for r
    using that
  proof (induction ops arbitrary: r)
    case (Cons op ops)
    then show ?case using applyOp_inv [of r op] applyOp_owned [of r op] by auto
  qed simp
  with new_repo_inv assms show ?thesis by blast
qed

text \<open>
  A version can be activated for a pack it does not belong to: \<open>Activate\<close> checks only that both
  exist, and \<open>GetActive\<close> then returns the other pack's rules.
\<close>

theorem Activate_foreign_version:
  assumes "rulepacks r pack = Some p" "versions r v = Some ver" "vr_RulepackID ver \<noteq> pack"
  shows "snd (Activate pack v r) = None \<and> GetActive pack (fst (Activate pack v r)) = Inr (vr_DSL ver, vr_Version ver)"
  using assms by (simp add: Activate_def GetActive_def)

text \<open>
  Purging respects the retention and the active version: with a retention of at least 1 it leaves
  exactly that many versions of the pack (or all, if there are fewer), whatever order the map
  yields them in; the active version and every other pack's versions stay.
\<close>

theorem PurgeOldVersions_retention:
  assumes "repoInv r" "distinct ord" "packVersions pack r \<subseteq> set ord" "1 \<le> retention"
  shows "int (card (packVersions pack (PurgeOldVersions ord pack retention r)))
      = min (int (card (packVersions pack r))) retention
    \<and> (\<forall>v ver. versions r v = Some ver \<and> (vr_RulepackID ver \<noteq> pack \<or> activeVersion r pack = Some v) \<longrightarrow>
         versions (PurgeOldVersions ord pack retention r) v = Some ver)"
proof -
  let ?A = "packVersions pack r"
  have "?A \<subseteq> dom (versions r)" by (auto simp: packVersions_def)
  then have fin: "finite ?A" using assms(1) finite_subset by (auto simp: repoInv_def)
  have "set (filter (deletable pack r) ord) = ?A - {v. activeVersion r pack = Some v}"
    using assms(3) by (auto simp: deletable_def)
  then have len: "length (filter (deletable pack r) ord) = card (?A - {v. activeVersion r pack = Some v})"
    using distinct_card [of "filter (deletable pack r) ord"] assms(2) by simp
  have "card ?A - 1 \<le> card (?A - {v. activeVersion r pack = Some v})"
  proof (cases "activeVersion r pack")
    case (Some a)
    then have "{v. activeVersion r pack = Some v} = {a}" by auto
    then show ?thesis using fin by (simp add: card_Diff_singleton_if)
  qed (simp add: fin)
  then have "int (card (packVersions pack (purgeLoop pack (int (card ?A) - retention) ord r))) = retention"
    if "int (card ?A) > retention"
    using purgeLoop_count [OF assms(2) fin, of "int (card ?A) - retention"] len that assms(4) by linarith
  then show ?thesis
    by (auto simp: PurgeOldVersions_def Let_def min_def purgeLoop_keeps)
qed

text \<open>A pack with three versions, the first active.\<close>

definition threeVersions :: repo where
  "threeVersions = (let ver = (\<lambda>i n. \<lparr>vr_ID = i, vr_RulepackID = 7, vr_Version = n, vr_DSL = [], vr_Status = ''approved'',
       vr_CreatedBy = 0, vr_CreatedAt = 0\<rparr>)
     in emptyRepo\<lparr>rulepacks := [7 \<mapsto> \<lparr>pk_ID = 7, pk_TenantID = 1, pk_Name = ''p'', pk_Description = [], pk_CreatedAt = 0\<rparr>],
          versions := [11 \<mapsto> ver 11 1, 12 \<mapsto> ver 12 2, 13 \<mapsto> ver 13 3], activeVersion := [7 \<mapsto> 11]\<rparr>)"

lemma threeVersions_pack: "packVersions 7 threeVersions = {11, 12, 13}"
  by (auto simp: packVersions_def threeVersions_def emptyRepo_def Let_def split: if_splits)

text \<open>
  Which versions are purged is left to the iteration order: a pack with the versions 1, 2 and 3
  and the first active can lose its newest version while the older one is kept.
\<close>

theorem purge_may_drop_newest:
  "GetLatestVersion [13, 12, 11] 7 threeVersions = Inr (13, 3)
   \<and> GetLatestVersion [13, 12, 11] 7 (PurgeOldVersions [13, 12, 11] 7 2 threeVersions) = Inr (12, 2)
   \<and> GetLatestVersion [13, 12, 11] 7 (PurgeOldVersions [12, 13, 11] 7 2 threeVersions) = Inr (13, 3)"
  unfolding PurgeOldVersions_def threeVersions_pack
  by (simp add: threeVersions_def emptyRepo_def GetLatestVersion_def laterVersion_def List.map_filter_simps Let_def)

section \<open>Witnesses\<close>

theorem repo_invariant_witness:
  "repoInv (fold applyOp [OpCreate 1 5 2 ''p'' [], OpTx 2 6 5 1 ''dsl'' 0, OpDelete defaultPackID] (NewRulepackRepository 0 3 []))"
  using repo_invariant [of "[OpCreate 1 5 2 ''p'' [], OpTx 2 6 5 1 ''dsl'' 0, OpDelete defaultPackID]" 0 3 "[]"]
  by (simp add: NewRulepackRepository_def emptyRepo_def defaultPackID_def CreatePack_def)

theorem Activate_foreign_version_witness:
  "GetActive 8 (fst (Activate 8 13 (threeVersions\<lparr>rulepacks := (rulepacks threeVersions)(8 \<mapsto> the (rulepacks threeVersions 7))\<rparr>)))
   = Inr ([], 3)"
  using Activate_foreign_version [of "threeVersions\<lparr>rulepacks := (rulepacks threeVersions)(8 \<mapsto> the (rulepacks threeVersions 7))\<rparr>" 8 _ 13]
  by (simp add: threeVersions_def emptyRepo_def Let_def)

theorem PurgeOldVersions_retention_witness:
  "int (card (packVersions 7 (PurgeOldVersions [13, 12, 11] 7 2 threeVersions))) = 2"
proof -
  have "repoInv threeVersions"
    by (auto simp: repoInv_def threeVersions_def emptyRepo_def Let_def split: if_splits)
  from PurgeOldVersions_retention [OF this, of "[13, 12, 11]" 7 2] show ?thesis
    by (simp add: threeVersions_pack)
qed

end
