(* ===== verification/Rulepack_Service.thy ===== *)
theory Rulepack_Service
  imports Rulepack_Repo Rules_Validate
begin

text \<open>
  The rule pack service, \<^verbatim>\<open>internal/application/services/rulepacks.go\<close>, and
  \<^verbatim>\<open>LoadRulesFromDatabase\<close> of \<^verbatim>\<open>internal/interfaces/grpc/enforcer/ctor.go\<close>, which reads
  what the service activates. Both use the repository through its interface: a record of
  operations, with the laws the proofs need in a locale, interpreted on the in-memory store.
  What was published and audited is kept as lists; the hash, the YAML decoder and the way the
  canary delay ends are arguments.
\<close>

section \<open>The repository interface\<close>

text \<open>What an operation takes from outside: the clock, a new identifier and an iteration order.\<close>

record opEnv =
  oe_now :: int
  oe_new :: uuid
  oe_ord :: "uuid list"

record 'r repoOps =
  ro_create :: "opEnv \<Rightarrow> uuid \<Rightarrow> string \<Rightarrow> string \<Rightarrow> 'r \<Rightarrow> 'r \<times> (repoErr + uuid)"
  ro_createVersion :: "opEnv \<Rightarrow> uuid \<Rightarrow> int \<Rightarrow> string \<Rightarrow> string \<Rightarrow> uuid \<Rightarrow> 'r \<Rightarrow> 'r \<times> (repoErr + uuid)"
  ro_createVersionActivateTx :: "opEnv \<Rightarrow> uuid \<Rightarrow> int \<Rightarrow> string \<Rightarrow> uuid \<Rightarrow> 'r \<Rightarrow> 'r \<times> (repoErr + uuid)"
  ro_getActive :: "uuid \<Rightarrow> 'r \<Rightarrow> repoErr + string \<times> int"
  ro_activate :: "uuid \<Rightarrow> uuid \<Rightarrow> 'r \<Rightarrow> 'r \<times> repoErr option"
  ro_activateLatest :: "opEnv \<Rightarrow> uuid \<Rightarrow> 'r \<Rightarrow> 'r \<times> repoErr option"
  ro_listByTenant :: "opEnv \<Rightarrow> uuid \<Rightarrow> 'r \<Rightarrow> repoErr + rulepackInfo list"
  ro_delete :: "uuid \<Rightarrow> 'r \<Rightarrow> 'r \<times> repoErr option"
  ro_purge :: "opEnv \<Rightarrow> uuid \<Rightarrow> int \<Rightarrow> 'r \<Rightarrow> 'r"

definition memoryOps :: "repo repoOps" where
  "memoryOps = \<lparr>
     ro_create = (\<lambda>e. CreatePack (oe_now e) (oe_new e)),
     ro_createVersion = (\<lambda>e. CreateVersion (oe_now e) (oe_new e)),
     ro_createVersionActivateTx = (\<lambda>e. CreateVersionActivateTx (oe_now e) (oe_new e)),
     ro_getActive = GetActive, ro_activate = Activate,
     ro_activateLatest = (\<lambda>e. ActivateLatest (oe_ord e)),
     ro_listByTenant = (\<lambda>e tenant r. Inr (ListByTenant (oe_ord e) tenant r)),
     ro_delete = DeletePack, ro_purge = (\<lambda>e. PurgeOldVersions (oe_ord e))\<rparr>"

section \<open>The service\<close>

record ruleUpdate =
  up_TenantID :: uuid
  up_RulepackID :: uuid
  up_Version :: int
  up_ContentSHA256 :: string

record 'r service =
  sv_repo :: 'r
  sv_hasPub :: bool
  sv_hasAudit :: bool
  sv_published :: "ruleUpdate list"
  sv_audited :: "(string \<times> uuid \<times> uuid) list"

datatype serviceErr = CtxEnded string | RepoError repoErr | NameExists string

text \<open>\<open>ends\<close> is the error of the context if it ends before the delay does.\<close>

definition canaryDelay :: "'rx golib \<Rightarrow> string option \<Rightarrow> string option" where
  "canaryDelay G ends =
     (let d = getenv G ''PS_RULEPACK_CANARY_DELAY_SECONDS''
      in if d = [] then None
         else case atoi d of None \<Rightarrow> None | Some secs \<Rightarrow> if secs \<le> 0 then None else ends)"

definition publish :: "ruleUpdate \<Rightarrow> 'r service \<Rightarrow> 'r service" where
  "publish u sv = (if sv_hasPub sv then sv\<lparr>sv_published := sv_published sv @ [u]\<rparr> else sv)"

definition emitAudit :: "string \<Rightarrow> uuid \<Rightarrow> uuid \<Rightarrow> 'r service \<Rightarrow> 'r service" where
  "emitAudit kind tenant pack sv =
     (if sv_hasAudit sv then sv\<lparr>sv_audited := sv_audited sv @ [(kind, tenant, pack)]\<rparr> else sv)"

definition updateFor :: "uuid \<Rightarrow> uuid \<Rightarrow> int \<Rightarrow> string \<Rightarrow> ruleUpdate" where
  "updateFor tenant pack version digest =
     \<lparr>up_TenantID = tenant, up_RulepackID = pack, up_Version = version, up_ContentSHA256 = digest\<rparr>"

text \<open>The active version is read back for the message; if that fails nothing is published.\<close>

definition publishActive :: "'r repoOps \<Rightarrow> (string \<Rightarrow> string) \<Rightarrow> uuid \<Rightarrow> uuid \<Rightarrow> 'r service \<Rightarrow> 'r service" where
  "publishActive ops sha tenant pack sv =
     (if sv_hasPub sv then
        (case ro_getActive ops pack (sv_repo sv) of
           Inr (dsl, version) \<Rightarrow> publish (updateFor tenant pack version (sha dsl)) sv
         | Inl _ \<Rightarrow> sv)
      else sv)"

definition retentionFromEnv :: "'rx golib \<Rightarrow> int" where
  "retentionFromEnv G =
     (let v = getenv G ''PS_RULEPACK_RETENTION''
      in if v \<noteq> [] then (case atoi v of Some n \<Rightarrow> if n > 0 then n else 10 | None \<Rightarrow> 10) else 10)"

definition CreateVersionActivate :: "'rx golib \<Rightarrow> 'r repoOps \<Rightarrow> (string \<Rightarrow> string) \<Rightarrow> string option \<Rightarrow> opEnv
    \<Rightarrow> uuid \<Rightarrow> uuid \<Rightarrow> int \<Rightarrow> string \<Rightarrow> 'r service \<Rightarrow> 'r service \<times> serviceErr option" where
  "CreateVersionActivate G ops sha ends e tenant pack version dsl sv =
     (case canaryDelay G ends of
        Some err \<Rightarrow> (sv, Some (CtxEnded err))
      | None \<Rightarrow>
          (case ro_createVersionActivateTx ops e pack version dsl 0 (sv_repo sv) of
             (r, Inl err) \<Rightarrow> (sv\<lparr>sv_repo := r\<rparr>, Some (RepoError err))
           | (r, Inr v) \<Rightarrow>
               (let sv1 = publish (updateFor tenant pack version (sha dsl)) (sv\<lparr>sv_repo := r\<rparr>)
                in (sv1\<lparr>sv_repo := ro_purge ops e pack (retentionFromEnv G) (sv_repo sv1)\<rparr>, None))))"

definition Create :: "'r repoOps \<Rightarrow> opEnv \<Rightarrow> uuid \<Rightarrow> string \<Rightarrow> string \<Rightarrow> 'r service \<Rightarrow> 'r service \<times> (serviceErr + uuid)" where
  "Create ops e tenant name desc sv =
     (case ro_listByTenant ops e tenant (sv_repo sv) of
        Inl err \<Rightarrow> (sv, Inl (RepoError err))
      | Inr existing \<Rightarrow>
          if list_ex (\<lambda>p. ri_Name p = name) existing then (sv, Inl (NameExists name))
          else
            (case ro_create ops e tenant name desc (sv_repo sv) of
               (r, Inl err) \<Rightarrow>
                 (sv\<lparr>sv_repo := r\<rparr>, Inl (if err = ErrRulepackNameExists then NameExists name else RepoError err))
             | (r, Inr i) \<Rightarrow> (emitAudit ''rulepack.create'' tenant i (sv\<lparr>sv_repo := r\<rparr>), Inr i)))"

text \<open>The result is the identifier of the version, where one was created, and the error.\<close>

definition Upload :: "'rx golib \<Rightarrow> 'r repoOps \<Rightarrow> (string \<Rightarrow> string) \<Rightarrow> string option \<Rightarrow> opEnv
    \<Rightarrow> uuid \<Rightarrow> uuid \<Rightarrow> int \<Rightarrow> string \<Rightarrow> bool \<Rightarrow> 'r service \<Rightarrow> 'r service \<times> uuid \<times> serviceErr option" where
  "Upload G ops sha ends e tenant pack version dsl activate sv =
     (case ro_createVersion ops e pack version dsl ''approved'' 0 (sv_repo sv) of
        (r, Inl err) \<Rightarrow> (sv\<lparr>sv_repo := r\<rparr>, 0, Some (RepoError err))
      | (r, Inr v) \<Rightarrow>
          (let sv1 = sv\<lparr>sv_repo := r\<rparr>; finish = emitAudit ''rulepack.upload'' tenant pack
           in if \<not> activate then (finish sv1, v, None)
              else
                (case canaryDelay G ends of
                   Some err \<Rightarrow> (sv1, v, Some (CtxEnded err))
                 | None \<Rightarrow>
                     (case ro_activate ops pack v r of
                        (r', Some err) \<Rightarrow> (sv1\<lparr>sv_repo := r'\<rparr>, v, Some (RepoError err))
                      | (r', None) \<Rightarrow>
                          (finish (publish (updateFor tenant pack version (sha dsl)) (sv1\<lparr>sv_repo := r'\<rparr>)), v, None)))))"

definition SetActive :: "'rx golib \<Rightarrow> 'r repoOps \<Rightarrow> (string \<Rightarrow> string) \<Rightarrow> string option
    \<Rightarrow> uuid \<Rightarrow> uuid \<Rightarrow> uuid \<Rightarrow> 'r service \<Rightarrow> 'r service \<times> serviceErr option" where
  "SetActive G ops sha ends tenant pack v sv =
     (case canaryDelay G ends of
        Some err \<Rightarrow> (sv, Some (CtxEnded err))
      | None \<Rightarrow>
          (case ro_activate ops pack v (sv_repo sv) of
             (r, Some err) \<Rightarrow> (sv\<lparr>sv_repo := r\<rparr>, Some (RepoError err))
           | (r, None) \<Rightarrow> (publishActive ops sha tenant pack (sv\<lparr>sv_repo := r\<rparr>), None)))"

definition ServiceActivateLatest :: "'rx golib \<Rightarrow> 'r repoOps \<Rightarrow> (string \<Rightarrow> string) \<Rightarrow> string option \<Rightarrow> opEnv
    \<Rightarrow> uuid \<Rightarrow> uuid \<Rightarrow> 'r service \<Rightarrow> 'r service \<times> serviceErr option" where
  "ServiceActivateLatest G ops sha ends e tenant pack sv =
     (case canaryDelay G ends of
        Some err \<Rightarrow> (sv, Some (CtxEnded err))
      | None \<Rightarrow>
          (case ro_activateLatest ops e pack (sv_repo sv) of
             (r, Some err) \<Rightarrow> (sv\<lparr>sv_repo := r\<rparr>, Some (RepoError err))
           | (r, None) \<Rightarrow>
               (publishActive ops sha tenant pack (emitAudit ''rulepack.activate'' tenant pack (sv\<lparr>sv_repo := r\<rparr>)), None)))"

definition Delete :: "'r repoOps \<Rightarrow> uuid \<Rightarrow> uuid \<Rightarrow> 'r service \<Rightarrow> 'r service \<times> serviceErr option" where
  "Delete ops tenant pack sv =
     (case ro_delete ops pack (sv_repo sv) of
        (r, Some err) \<Rightarrow> (sv\<lparr>sv_repo := r\<rparr>, Some (RepoError err))
      | (r, None) \<Rightarrow>
          (emitAudit ''rulepack.delete'' tenant pack
             (publish (updateFor tenant pack (- 1) []) (sv\<lparr>sv_repo := r\<rparr>)), None))"

section \<open>Checking a payload\<close>

datatype dslErr = TooBig int | BadFormat string | BadRule ruleError | TooManyRules nat int

definition positiveEnv :: "'rx golib \<Rightarrow> string \<Rightarrow> int \<Rightarrow> int" where
  "positiveEnv G key def =
     (let v = getenv G key
      in if v \<noteq> [] then (case atoi v of Some n \<Rightarrow> if n > 0 then n else def | None \<Rightarrow> def) else def)"

definition dslErrors :: "'rx golib \<Rightarrow> (string + (yaml \<Rightarrow> schemaErr option)) \<Rightarrow> (rulePack \<Rightarrow> yaml) \<Rightarrow> int \<Rightarrow> rulePack \<Rightarrow> dslErr list" where
  "dslErrors G sch encode maxRules pack =
     map BadRule (ValidatePack G sch None encode pack)
     @ (if int (length (p_Rules pack)) > maxRules then [TooManyRules (length (p_Rules pack)) maxRules] else [])"

definition ValidateDSL :: "'rx golib \<Rightarrow> (string + (yaml \<Rightarrow> schemaErr option)) \<Rightarrow> (rulePack \<Rightarrow> yaml)
    \<Rightarrow> (string \<Rightarrow> string + rulePack) \<Rightarrow> string \<Rightarrow> bool \<times> dslErr list" where
  "ValidateDSL G sch encode decode data =
     (let maxKB = positiveEnv G ''PS_MAX_RULEPACK_KB'' 1024; maxRules = positiveEnv G ''PS_MAX_RULES'' 1000
      in if int (length data) > wrap64 (maxKB * 1024) then (False, [TooBig maxKB])
         else case decode data of
                Inl e \<Rightarrow> (False, [BadFormat e])
              | Inr pack \<Rightarrow>
                  (let errs = dslErrors G sch encode maxRules pack
                   in if errs \<noteq> [] then (False, errs) else (True, [])))"

definition ParseDSL :: "'rx golib \<Rightarrow> (string + (yaml \<Rightarrow> schemaErr option)) \<Rightarrow> (rulePack \<Rightarrow> yaml)
    \<Rightarrow> (string \<Rightarrow> string + rulePack) \<Rightarrow> string \<Rightarrow> dslErr + rulePack" where
  "ParseDSL G sch encode decode data =
     (let maxKB = positiveEnv G ''PS_MAX_RULEPACK_KB'' 1024; maxRules = positiveEnv G ''PS_MAX_RULES'' 1000
      in if int (length data) > wrap64 (maxKB * 1024) then Inl (TooBig maxKB)
         else case decode data of
                Inl e \<Rightarrow> Inl (BadFormat e)
              | Inr pack \<Rightarrow>
                  (case dslErrors G sch encode maxRules pack of
                     [] \<Rightarrow> Inr pack
                   | err # _ \<Rightarrow> Inl err))"

section \<open>Reading the active rules\<close>

definition activePack :: "'r repoOps \<Rightarrow> (string \<Rightarrow> string + rulePack) \<Rightarrow> 'r \<Rightarrow> rulepackInfo \<Rightarrow> rulePack list" where
  "activePack ops decode r info =
     (if \<not> ri_Active info then []
      else case ro_getActive ops (ri_ID info) r of
             Inl _ \<Rightarrow> []
           | Inr (dsl, _) \<Rightarrow> (case decode dsl of Inl _ \<Rightarrow> [] | Inr pack \<Rightarrow> [pack]))"

definition LoadRulesFromDatabase :: "'r repoOps \<Rightarrow> (string \<Rightarrow> string + rulePack) \<Rightarrow> opEnv \<Rightarrow> uuid \<Rightarrow> 'r
    \<Rightarrow> repoErr + rulePack list" where
  "LoadRulesFromDatabase ops decode e tenant r =
     (case ro_listByTenant ops e tenant r of
        Inl err \<Rightarrow> Inl err
      | Inr infos \<Rightarrow> Inr (concat (map (activePack ops decode r) infos)))"

section \<open>The contract of a repository\<close>

text \<open>
  What the service relies on: an activated version is what reading the active version returns, as the
  store writes its text, purging changes nothing that is active, and a deleted pack has no active version.
\<close>

locale rulepack_store =
  fixes ops :: "'r repoOps" and ok :: "'r \<Rightarrow> bool" and fresh :: "opEnv \<Rightarrow> 'r \<Rightarrow> bool"
    and stored :: "string \<Rightarrow> string"
  assumes tx_active: "ok r \<Longrightarrow> fresh e r \<Longrightarrow> ro_createVersionActivateTx ops e pack n dsl a r = (r', Inr v) \<Longrightarrow>
      ok r' \<and> ro_getActive ops pack r' = Inr (stored dsl, n)"
    and version_activate: "ok r \<Longrightarrow> fresh e r \<Longrightarrow> ro_createVersion ops e pack n dsl s a r = (r1, Inr v) \<Longrightarrow>
      ro_activate ops pack v r1 = (r', None) \<Longrightarrow> ok r' \<and> ro_getActive ops pack r' = Inr (stored dsl, n)"
    and purge_active: "ok r \<Longrightarrow> ok (ro_purge ops e pack k r) \<and> ro_getActive ops p (ro_purge ops e pack k r) = ro_getActive ops p r"
    and delete_active: "ok r \<Longrightarrow> ro_delete ops pack r = (r', None) \<Longrightarrow>
      ok r' \<and> (\<exists>err. ro_getActive ops pack r' = Inl err)"
begin

lemma CreateVersionActivate_serves:
  assumes "ok (sv_repo sv)" "fresh e (sv_repo sv)"
    and "CreateVersionActivate G ops sha ends e tenant pack version dsl sv = (sv', None)"
  shows "ok (sv_repo sv') \<and> ro_getActive ops pack (sv_repo sv') = Inr (stored dsl, version)
    \<and> (sv_hasPub sv \<longrightarrow> sv_published sv' = sv_published sv @ [updateFor tenant pack version (sha dsl)])"
proof -
  from assms(3) obtain r v where tx: "ro_createVersionActivateTx ops e pack version dsl 0 (sv_repo sv) = (r, Inr v)"
    and sv': "sv' = (publish (updateFor tenant pack version (sha dsl)) (sv\<lparr>sv_repo := r\<rparr>))\<lparr>sv_repo :=
        ro_purge ops e pack (retentionFromEnv G) r\<rparr>"
    by (auto simp: CreateVersionActivate_def publish_def Let_def split: option.splits prod.splits sum.splits if_splits)
  from tx_active [OF assms(1,2) tx] purge_active [of r] sv' show ?thesis by (auto simp: publish_def)
qed

lemma Upload_serves:
  assumes "ok (sv_repo sv)" "fresh e (sv_repo sv)"
    and "Upload G ops sha ends e tenant pack version dsl True sv = (sv', v, None)"
  shows "ok (sv_repo sv') \<and> ro_getActive ops pack (sv_repo sv') = Inr (stored dsl, version)
    \<and> (sv_hasPub sv \<longrightarrow> sv_published sv' = sv_published sv @ [updateFor tenant pack version (sha dsl)])"
proof -
  from assms(3) obtain r r' where c: "ro_createVersion ops e pack version dsl ''approved'' 0 (sv_repo sv) = (r, Inr v)"
    and a: "ro_activate ops pack v r = (r', None)"
    and sv': "sv' = emitAudit ''rulepack.upload'' tenant pack
        (publish (updateFor tenant pack version (sha dsl)) (sv\<lparr>sv_repo := r'\<rparr>))"
    by (auto simp: Upload_def Let_def split: option.splits prod.splits sum.splits)
  from version_activate [OF assms(1,2) c a] sv' show ?thesis by (auto simp: publish_def emitAudit_def)
qed

lemma Delete_unserves:
  assumes "ok (sv_repo sv)" "Delete ops tenant pack sv = (sv', None)"
  shows "ok (sv_repo sv') \<and> (\<exists>err. ro_getActive ops pack (sv_repo sv') = Inl err)"
proof -
  from assms(2) obtain r where d: "ro_delete ops pack (sv_repo sv) = (r, None)" and sv': "sv_repo sv' = r"
    by (auto simp: Delete_def publish_def emitAudit_def split: option.splits prod.splits if_splits)
  from delete_active [OF assms(1) d] sv' show ?thesis by simp
qed

end

definition memoryOk :: "repo \<Rightarrow> bool" where
  "memoryOk r \<longleftrightarrow> repoInv r \<and> activeOwned r"

definition memoryFresh :: "opEnv \<Rightarrow> repo \<Rightarrow> bool" where
  "memoryFresh e r \<longleftrightarrow> rulepacks r (oe_new e) = None \<and> versions r (oe_new e) = None"

lemma GetActive_purge:
  assumes "activeOwned r"
  shows "GetActive p (PurgeOldVersions ord pack k r) = GetActive p r"
proof (cases "activeVersion r p")
  case None
  then show ?thesis by (simp add: GetActive_def PurgeOldVersions_def Let_def)
next
  case (Some v)
  then obtain ver where ver: "versions r v = Some ver" "vr_RulepackID ver = p"
    using assms by (auto simp: activeOwned_def packVersions_def)
  then have "versions (purgeLoop pack n ord r) v = Some ver" for n
    using Some by (intro purgeLoop_keeps) auto
  with Some ver show ?thesis by (simp add: GetActive_def PurgeOldVersions_def Let_def)
qed

interpretation mem: rulepack_store memoryOps memoryOk memoryFresh "\<lambda>dsl. dsl"
proof unfold_locales
  fix r e pack n dsl a r' v
  assume ok: "memoryOk r" "memoryFresh e r"
    and tx: "ro_createVersionActivateTx memoryOps e pack n dsl a r = (r', Inr v)"
  from ok tx have "memoryOk r'"
    using CreateVersionActivateTx_inv [of r "oe_now e" "oe_new e" pack n dsl a]
      CreateVersionActivateTx_owned [of r "oe_new e" "oe_now e" pack n dsl a]
    by (simp add: memoryOk_def memoryFresh_def memoryOps_def)
  with tx show "memoryOk r' \<and> ro_getActive memoryOps pack r' = Inr (dsl, n)"
    by (auto simp: memoryOps_def CreateVersionActivateTx_def GetActive_def split: option.splits)
next
  fix r e pack n dsl s a r1 v r'
  assume ok: "memoryOk r" "memoryFresh e r"
    and c: "ro_createVersion memoryOps e pack n dsl s a r = (r1, Inr v)"
    and act: "ro_activate memoryOps pack v r1 = (r', None)"
  from ok c have ok1: "memoryOk r1"
    using CreateVersion_inv [of r "oe_now e" "oe_new e" pack n dsl s a]
      CreateVersion_owned [of r "oe_new e" "oe_now e" pack n dsl s a]
    by (simp add: memoryOk_def memoryFresh_def memoryOps_def)
  have ver: "versions r1 v = Some \<lparr>vr_ID = v, vr_RulepackID = pack, vr_Version = n, vr_DSL = dsl, vr_Status = s,
      vr_CreatedBy = a, vr_CreatedAt = oe_now e\<rparr>"
    using c by (auto simp: memoryOps_def CreateVersion_def split: option.splits)
  then have "v \<in> packVersions pack r1" by (simp add: packVersions_def)
  with ok1 act have "memoryOk r'"
    using Activate_inv [of r1 pack v] Activate_owned [of r1 v pack] by (simp add: memoryOk_def memoryOps_def)
  with act ver show "memoryOk r' \<and> ro_getActive memoryOps pack r' = Inr (dsl, n)"
    by (auto simp: memoryOps_def Activate_def GetActive_def split: if_splits)
next
  fix r e pack k p
  assume "memoryOk r"
  then show "memoryOk (ro_purge memoryOps e pack k r)
      \<and> ro_getActive memoryOps p (ro_purge memoryOps e pack k r) = ro_getActive memoryOps p r"
    by (simp add: memoryOk_def memoryOps_def PurgeOldVersions_inv PurgeOldVersions_owned GetActive_purge)
next
  fix r pack r'
  assume "memoryOk r" and d: "ro_delete memoryOps pack r = (r', None)"
  then have "memoryOk r'"
    using DeletePack_inv [of r pack] DeletePack_owned [of r pack] by (simp add: memoryOk_def memoryOps_def)
  with d show "memoryOk r' \<and> (\<exists>err. ro_getActive memoryOps pack r' = Inl err)"
    by (auto simp: memoryOps_def DeletePack_def GetActive_def split: if_splits)
qed

section \<open>Properties\<close>

text \<open>
  C23. A published rule pack reaches the enforcer: after a successful \<open>CreateVersionActivate\<close> on the
  in-memory store, purging included, for the tenant of the pack and a text that the loader can decode (the service
  checks neither), the rules that an enforcer of that tenant loads include the decoded new version, and the update message carries the checksum of exactly that text.
\<close>

theorem activated_pack_loaded:
  assumes "memoryOk (sv_repo sv)" "memoryFresh e (sv_repo sv)"
    and "CreateVersionActivate G memoryOps sha ends e tenant pack version dsl sv = (sv', None)"
    and "rulepacks (sv_repo sv) pack = Some p" "pk_TenantID p = tenant" "decode dsl = Inr rp"
    and "dom (rulepacks (sv_repo sv')) \<subseteq> set (oe_ord e')"
  shows "\<exists>packs. LoadRulesFromDatabase memoryOps decode e' tenant (sv_repo sv') = Inr packs \<and> rp \<in> set packs
    \<and> (sv_hasPub sv \<longrightarrow> last (sv_published sv') = updateFor tenant pack version (sha dsl))"
proof -
  let ?r = "sv_repo sv'"
  from mem.CreateVersionActivate_serves [OF assms(1-3)]
  have act: "GetActive pack ?r = Inr (dsl, version)" and ok: "memoryOk ?r"
    and pub: "sv_hasPub sv \<longrightarrow> last (sv_published sv') = updateFor tenant pack version (sha dsl)"
    by (auto simp: memoryOps_def)
  have "rulepacks ?r = rulepacks (sv_repo sv)"
    using assms(3) by (auto simp: CreateVersionActivate_def memoryOps_def CreateVersionActivateTx_def publish_def
        PurgeOldVersions_def Let_def split: option.splits prod.splits sum.splits if_splits)
  with assms(4) have p: "rulepacks ?r pack = Some p" by simp
  then have i: "pk_ID p = pack" using ok by (auto simp: memoryOk_def repoInv_def)
  from p assms(7) have "pack \<in> set (oe_ord e')" by auto
  with p have "p \<in> set (List.map_filter (rulepacks ?r) (oe_ord e'))"
    by (force simp: List.map_filter_def)
  then have "infoOf ?r p \<in> set (ListByTenant (oe_ord e') tenant ?r)"
    using assms(5) by (auto simp: ListByTenant_def)
  moreover have "activePack memoryOps decode ?r (infoOf ?r p) = [rp]"
  proof -
    have "ri_Active (infoOf ?r p)" "ri_ID (infoOf ?r p) = pack"
      using act i by (auto simp: infoOf_def GetActive_def Let_def split: option.splits)
    with act assms(6) show ?thesis by (simp add: activePack_def memoryOps_def)
  qed
  ultimately have "rp \<in> set (concat (map (activePack memoryOps decode ?r) (ListByTenant (oe_ord e') tenant ?r)))"
    by force
  with pub show ?thesis by (simp add: LoadRulesFromDatabase_def memoryOps_def)
qed

text \<open>
  The two checks of a payload agree: \<open>ParseDSL\<close> yields a pack exactly when \<open>ValidateDSL\<close> accepts the
  payload and the payload decodes to that pack.
\<close>

theorem ParseDSL_iff_ValidateDSL:
  "ParseDSL G sch encode decode data = Inr pack \<longleftrightarrow>
     fst (ValidateDSL G sch encode decode data) \<and> decode data = Inr pack"
  by (auto simp: ParseDSL_def ValidateDSL_def Let_def split: sum.split list.split)

section \<open>Witness\<close>

theorem activated_pack_loaded_witness:
  "\<exists>packs sv'. CreateVersionActivate litLib memoryOps id None \<lparr>oe_now = 1, oe_new = 4, oe_ord = [3, 4]\<rparr> 0 defaultPackID 2 ''dsl''
       \<lparr>sv_repo = NewRulepackRepository 0 3 [], sv_hasPub = True, sv_hasAudit = False, sv_published = [], sv_audited = []\<rparr>
       = (sv', None)
     \<and> LoadRulesFromDatabase memoryOps (\<lambda>_. Inr zeroPack) \<lparr>oe_now = 2, oe_new = 5, oe_ord = [defaultPackID]\<rparr> 0 (sv_repo sv') = Inr packs
     \<and> zeroPack \<in> set packs"
proof -
  let ?sv = "\<lparr>sv_repo = NewRulepackRepository 0 3 [], sv_hasPub = True, sv_hasAudit = False, sv_published = [], sv_audited = []\<rparr>"
  let ?e = "\<lparr>oe_now = 1, oe_new = 4, oe_ord = [3, 4]\<rparr>"
  have p: "rulepacks (NewRulepackRepository 0 3 []) defaultPackID = Some \<lparr>pk_ID = defaultPackID, pk_TenantID = 0,
      pk_Name = ''Default Security Rules'', pk_Description = ''Built-in security rules for prompt injection detection'', pk_CreatedAt = 0\<rparr>"
    by (simp add: NewRulepackRepository_def)
  obtain sv' where run: "CreateVersionActivate litLib memoryOps id None ?e 0 defaultPackID 2 ''dsl'' ?sv = (sv', None)"
    using p by (auto simp: CreateVersionActivate_def canaryDelay_def memoryOps_def CreateVersionActivateTx_def litLib_def Let_def)
  have dom: "dom (rulepacks (sv_repo sv')) = {defaultPackID}"
    using run by (auto simp: CreateVersionActivate_def canaryDelay_def memoryOps_def CreateVersionActivateTx_def
        litLib_def publish_def PurgeOldVersions_def NewRulepackRepository_def emptyRepo_def Let_def split: if_splits)
  have "memoryOk (sv_repo ?sv)" "memoryFresh ?e (sv_repo ?sv)"
    using new_repo_inv [of 0 3 "[]"]
    by (simp_all add: memoryOk_def memoryFresh_def NewRulepackRepository_def emptyRepo_def defaultPackID_def)
  from activated_pack_loaded [OF this run, of _ "\<lambda>_. Inr zeroPack" zeroPack "\<lparr>oe_now = 2, oe_new = 5, oe_ord = [defaultPackID]\<rparr>"]
  show ?thesis using p dom run by auto
qed

end
