(* ===== verification/Enforcer_Ctor.thy ===== *)
theory Enforcer_Ctor
  imports Ext_Proc_Streams Rulepack_Service Rules_Loader Check
begin

text \<open>
  The constructor of the streaming enforcer: \<^verbatim>\<open>NewWithOptions\<close> of
  \<^verbatim>\<open>internal/interfaces/grpc/enforcer/ctor.go\<close>, which turns options and environment into the
  configuration and the two scanners of theory \<^verbatim>\<open>Ext_Proc_Streams\<close>. The loads from the
  repository and from the file are arguments; the rate limiter, the health service and the
  subscription to updates are not modelled.
\<close>

section \<open>Options\<close>

text \<open>\<open>op_Database\<close> is whether there are a repository and a tenant, \<open>op_Telemetry\<close> whether there is a collector.\<close>

record extOptions =
  op_Timeout :: int
  op_MaxStreamBytes :: int
  op_FailOn :: string
  op_RulepackPath :: string
  op_EnforcementMode :: string
  op_Telemetry :: bool
  op_Database :: bool

definition withOptionDefaults :: "'rx golib \<Rightarrow> extOptions \<Rightarrow> extOptions" where
  "withOptionDefaults G opt0 =
     (let opt1 = (if op_Timeout opt0 \<le> 0 then opt0\<lparr>op_Timeout := 300000000\<rparr> else opt0);
          opt2 = (if op_MaxStreamBytes opt1 \<le> 0 then opt1\<lparr>op_MaxStreamBytes := 5000000\<rparr> else opt1);
          opt3 = (if op_FailOn opt2 = [] then opt2\<lparr>op_FailOn := ''HIGH''\<rparr> else opt2)
      in if strTrimSpace (op_RulepackPath opt3) = []
         then opt3\<lparr>op_RulepackPath := getenv G ''PS_ENFORCER_RULEPACK''\<rparr> else opt3)"

definition modeFor :: "'rx golib \<Rightarrow> extOptions \<Rightarrow> string" where
  "modeFor G opt =
     (let m1 = strToLower G (strTrimSpace (op_EnforcementMode opt));
          m2 = (if m1 = [] then strToLower G (strTrimSpace (getenv G ''PS_ENFORCER_ENFORCEMENT_MODE'')) else m1)
      in if m2 = [] then ''observe'' else m2)"

section \<open>Tunables\<close>

definition envNumber :: "'rx golib \<Rightarrow> string \<Rightarrow> int option" where
  "envNumber G key = (let v = strTrimSpace (getenv G key) in if v \<noteq> [] then atoi v else None)"

definition windowFromEnv :: "'rx golib \<Rightarrow> nat" where
  "windowFromEnv G =
     (case envNumber G ''PS_ENFORCER_STREAM_WINDOW'' of Some n \<Rightarrow> if n > 8192 then nat n else 65536 | None \<Rightarrow> 65536)"

definition overlapFromEnv :: "'rx golib \<Rightarrow> nat" where
  "overlapFromEnv G =
     (case envNumber G ''PS_ENFORCER_STREAM_OVERLAP'' of
        Some n \<Rightarrow> if n \<ge> 0 \<and> n < int (windowFromEnv G) then nat n else 4096
      | None \<Rightarrow> 4096)"

definition slotsFromEnv :: "'rx golib \<Rightarrow> nat option" where
  "slotsFromEnv G =
     (case envNumber G ''PS_ENFORCER_MAX_STREAMS'' of Some n \<Rightarrow> if n > 0 then Some (nat n) else None | None \<Rightarrow> None)"

definition inflightFromEnv :: "'rx golib \<Rightarrow> int" where
  "inflightFromEnv G =
     (case envNumber G ''PS_ENFORCER_INFLIGHT_LIMIT_BYTES'' of Some n \<Rightarrow> if n > 0 then n else 0 | None \<Rightarrow> 0)"

definition newConfig :: "'rx golib \<Rightarrow> bool \<Rightarrow> 'rx redactRule list \<Rightarrow> extOptions \<Rightarrow> 'rx extCfg" where
  "newConfig G redactOn table opt0 =
     (let opt = withOptionDefaults G opt0
      in \<lparr>x_maxStreamBytes = op_MaxStreamBytes opt, x_failOn = op_FailOn opt, x_enforcementMode = modeFor G opt,
          x_windowLimit = windowFromEnv G, x_overlap = overlapFromEnv G, x_inflightLimit = inflightFromEnv G,
          x_streamSlots = slotsFromEnv G, x_telemetry = op_Telemetry opt,
          x_redactEnabled = redactOn, x_redactRules = table\<rparr>)"

section \<open>Scanners and rules\<close>

definition newScanner :: "int \<Rightarrow> 'rx scanner" where
  "newScanner maxBytes =
     SetQuarantineOnError True (SetQuarantineOnTimeout True (SetMaxStreamBytes maxBytes (ScanEngineCstor 0)))"

text \<open>The packs to start with, if any: those of the database, else those of the file.\<close>

definition initialPacks :: "extOptions \<Rightarrow> ('e + rulePack list) \<Rightarrow> ('f + rulePack list) \<Rightarrow> rulePack list option" where
  "initialPacks opt db file =
     (case (if op_Database opt then db else Inr []) of
        Inr (p # ps) \<Rightarrow> Some (p # ps)
      | _ \<Rightarrow> if op_RulepackPath opt \<noteq> [] then (case file of Inr ps \<Rightarrow> Some ps | Inl _ \<Rightarrow> None) else None)"

definition directionContext :: "string \<Rightarrow> (string \<rightharpoonup> string) option" where
  "directionContext d = Some [''direction'' \<mapsto> d]"

definition newServer :: "'rx world \<Rightarrow> (rulePack list \<Rightarrow> rulePack list) \<Rightarrow> int \<Rightarrow> rulePack list option \<Rightarrow> 'rx globals \<Rightarrow> 'rx server" where
  "newServer W srt maxBytes packs g =
     (let v0 = \<lparr>v_inflight = 0, v_scReq = newScanner maxBytes, v_scResp = newScanner maxBytes, v_globals = g,
                v_conns = Map.empty\<rparr>;
          v1 = ReloadRules W srt packs v0
      in v1\<lparr>v_scReq := SetRuntimeContext (directionContext ''request'') (v_scReq v1),
            v_scResp := SetRuntimeContext (directionContext ''response'') (v_scResp v1)\<rparr>)"

definition failClosed :: "'rx golib \<Rightarrow> bool" where
  "failClosed G \<longleftrightarrow> strToLower G (strTrimSpace (getenv G ''PS_ENFORCER_FAIL_CLOSED'')) = ''true''"

text \<open>The configuration, the server and whether it reports itself ready.\<close>

definition NewWithOptions :: "'rx world \<Rightarrow> (rulePack list \<Rightarrow> rulePack list) \<Rightarrow> bool \<Rightarrow> 'rx redactRule list \<Rightarrow> extOptions
    \<Rightarrow> ('e + rulePack list) \<Rightarrow> (string \<Rightarrow> 'f + rulePack list) \<Rightarrow> 'rx globals \<Rightarrow> 'rx extCfg \<times> 'rx server \<times> bool" where
  "NewWithOptions W srt redactOn table opt0 db load g =
     (let opt = withOptionDefaults (lib W) opt0;
          packs = initialPacks opt db (load (op_RulepackPath opt))
      in (newConfig (lib W) redactOn table opt0, newServer W srt (op_MaxStreamBytes opt) packs g,
          packs \<noteq> None \<or> \<not> failClosed (lib W)))"

section \<open>Lemmas\<close>

lemma window_bounds: "8192 < windowFromEnv G"
  by (auto simp: windowFromEnv_def split: option.split)

lemma overlap_less_window: "overlapFromEnv G < windowFromEnv G"
  using window_bounds [of G] by (auto simp: overlapFromEnv_def split: option.split)

lemma quarantining_context [simp]: "quarantining (SetRuntimeContext c s) = quarantining s"
  by (simp add: quarantining_def SetRuntimeContext_def)

lemma quarantining_caches [simp]: "quarantining (s\<lparr>semanticCaches := c\<rparr>) = quarantining s"
  by (simp add: quarantining_def)

definition scannersOk :: "'rx server \<Rightarrow> bool" where
  "scannersOk v \<longleftrightarrow> quarantining (v_scReq v) \<and> quarantining (v_scResp v)"

lemma scannersOk_ReloadRules [simp]: "scannersOk (ReloadRules W srt packs v) = scannersOk v"
proof (cases packs)
  case (Some ps)
  obtain sq g1 where 1: "LoadRulePacks W srt ps (v_scReq v, v_globals v) = (sq, g1)" by (meson surj_pair)
  obtain sp g2 where 2: "LoadRulePacks W srt ps (v_scResp v, g1) = (sp, g2)" by (meson surj_pair)
  have "quarantining sq = quarantining (v_scReq v)" "quarantining sp = quarantining (v_scResp v)"
    using quarantining_simps(4) [of W srt ps "v_scReq v" "v_globals v"]
      quarantining_simps(4) [of W srt ps "v_scResp v" g1] 1 2 by simp_all
  with Some 1 2 show ?thesis by (simp add: ReloadRules_def scannersOk_def)
qed (simp add: ReloadRules_def)

lemma scannersOk_parts [simp]:
  "scannersOk (setConn i ph st v) = scannersOk v" "scannersOk (endConn i st v) = scannersOk v"
  "scannersOk (v\<lparr>v_inflight := x\<rparr>) = scannersOk v"
  by (simp_all add: scannersOk_def setConn_def endConn_def)

lemma scannersOk_handle: "scannersOk v \<Longrightarrow> scannersOk (handle W cfg env clock calls fails i rq st v)"
  by (simp add: handle_def Let_def split: prod.split request.split)
    (simp add: scannersOk_def afterScan_def)

lemma scannersOk_admit: "scannersOk (admit cfg i rq st v) = scannersOk v"
  by (simp add: admit_def Let_def split: option.split prod.split)

lemma step_scannersOk: "step W cfg v l v' \<Longrightarrow> scannersOk v \<Longrightarrow> scannersOk v'"
  by (induction rule: step.induct) (simp_all add: scannersOk_admit scannersOk_handle)

lemma scanWindow_total:
  "quarantining sc \<Longrightarrow> \<exists>res. scanWindow W sc env clock calls name w = Inr res"
  using scan_total [of sc W env name w None clock calls] by (auto simp: scanWindow_def)

lemma newServer_ok:
  "scannersOk (newServer W srt n packs g)" "v_conns (newServer W srt n packs g) = Map.empty"
  "v_inflight (newServer W srt n packs g) = 0"
proof -
  let ?v = "ReloadRules W srt packs \<lparr>v_inflight = 0, v_scReq = newScanner n, v_scResp = newScanner n,
    v_globals = g, v_conns = Map.empty\<rparr>"
  have "scannersOk ?v" unfolding scannersOk_ReloadRules by (simp add: scannersOk_def newScanner_def)
  then show "scannersOk (newServer W srt n packs g)" by (simp add: newServer_def scannersOk_def Let_def)
  show "v_conns (newServer W srt n packs g) = Map.empty" by (simp add: newServer_def Let_def)
  show "v_inflight (newServer W srt n packs g) = 0"
    by (simp add: newServer_def ReloadRules_def Let_def split: option.split prod.split)
qed

section \<open>Properties\<close>

text \<open>
  Whatever the options and the environment, a server starts with a positive byte limit, a
  threshold, a mode, an overlap smaller than its window, no bytes in flight and no streams; it has
  exactly the rules of the database if there are any, else those of the file, and without any it
  reports itself ready unless it is to fail closed.
\<close>

theorem NewWithOptions_sound:
  assumes "NewWithOptions W srt redactOn table opt db load g = (cfg, v, ready)"
  shows "0 < x_maxStreamBytes cfg \<and> x_failOn cfg \<noteq> [] \<and> x_enforcementMode cfg \<noteq> []
    \<and> x_overlap cfg < x_windowLimit cfg \<and> 0 \<le> x_inflightLimit cfg \<and> x_streamSlots cfg \<noteq> Some 0
    \<and> reachable W cfg v \<and> scannersOk v
    \<and> (ready \<longleftrightarrow> initialPacks (withOptionDefaults (lib W) opt) db (load (op_RulepackPath (withOptionDefaults (lib W) opt))) \<noteq> None
         \<or> \<not> failClosed (lib W))"
proof -
  let ?opt = "withOptionDefaults (lib W) opt"
  let ?packs = "initialPacks ?opt db (load (op_RulepackPath ?opt))"
  from assms have cfg: "cfg = newConfig (lib W) redactOn table opt"
    and v: "v = newServer W srt (op_MaxStreamBytes ?opt) ?packs g"
    and ready: "ready \<longleftrightarrow> ?packs \<noteq> None \<or> \<not> failClosed (lib W)"
    by (auto simp: NewWithOptions_def Let_def)
  have c: "0 < x_maxStreamBytes cfg" "x_failOn cfg \<noteq> []" "x_enforcementMode cfg \<noteq> []"
    by (simp_all add: cfg newConfig_def withOptionDefaults_def modeFor_def Let_def)
  have b: "x_overlap cfg < x_windowLimit cfg" "0 \<le> x_inflightLimit cfg" "x_streamSlots cfg \<noteq> Some 0"
    using overlap_less_window [of "lib W"]
    by (auto simp: cfg newConfig_def inflightFromEnv_def slotsFromEnv_def Let_def split: option.splits if_splits)
  have "scannersOk v" by (simp add: v newServer_ok)
  moreover have "reachable W cfg v" by (rule reach_init) (simp_all add: v newServer_ok)
  ultimately show ?thesis using c b ready by blast
qed

text \<open>
  The enforcer does not fail open on a scan: in every state a server built by the constructor can
  reach, with reloads in between, every scan of a window yields a result, so no chunk is passed on
  because its scan failed.
\<close>

theorem enforcer_scans_total:
  assumes "NewWithOptions W srt redactOn table opt db load g = (cfg, v0, ready)"
    and "(\<lambda>a b. \<exists>l. step W cfg a l b)\<^sup>*\<^sup>* v0 v"
  shows "(\<exists>res. scanWindow W (v_scReq v) env clock calls name w = Inr res)
    \<and> (\<exists>res. scanWindow W (v_scResp v) env clock calls name w = Inr res)"
proof -
  have "scannersOk v0" using assms(1) by (auto simp: NewWithOptions_def newServer_ok Let_def)
  with assms(2) have "scannersOk v"
    by (induction rule: rtranclp_induct) (auto intro: step_scannersOk)
  then show ?thesis by (simp add: scannersOk_def scanWindow_total)
qed

section \<open>Witnesses\<close>

definition plainOptions :: extOptions where
  "plainOptions = \<lparr>op_Timeout = 0, op_MaxStreamBytes = 0, op_FailOn = [], op_RulepackPath = [], op_EnforcementMode = [],
     op_Telemetry = False, op_Database = False\<rparr>"

definition plainServer :: "string extCfg \<times> string server \<times> bool" where
  "plainServer = NewWithOptions litWorld id True [] plainOptions (Inl ()) (\<lambda>_. Inl ()) initGlobals"

theorem NewWithOptions_sound_witness:
  "x_overlap (fst plainServer) < x_windowLimit (fst plainServer) \<and> 0 < x_maxStreamBytes (fst plainServer)"
  using NewWithOptions_sound [of litWorld id True "[]" plainOptions "Inl ()" "\<lambda>_. Inl ()" initGlobals
      "fst plainServer" "fst (snd plainServer)" "snd (snd plainServer)"]
  by (simp add: plainServer_def)

theorem enforcer_scans_total_witness:
  "\<exists>res. scanWindow litWorld (v_scReq (ReloadRules litWorld id (Some []) (fst (snd plainServer)))) calmEnv 0 0 requestName ''x'' = Inr res"
proof -
  let ?v0 = "fst (snd plainServer)"
  have "NewWithOptions litWorld id True [] plainOptions (Inl ()) (\<lambda>_. Inl ()) initGlobals
      = (fst plainServer, ?v0, snd (snd plainServer))" by (simp add: plainServer_def)
  moreover have "(\<lambda>a b. \<exists>l. step litWorld (fst plainServer) a l b)\<^sup>*\<^sup>* ?v0 (ReloadRules litWorld id (Some []) ?v0)"
    using step_Reload by blast
  ultimately show ?thesis using enforcer_scans_total by blast
qed

end
