(* ===== verification/Policy_Repo.thy ===== *)
theory Policy_Repo
  imports Go_Prelude
begin

text \<open>
  The in-memory policy repository,
  \<^verbatim>\<open>internal/infrastructure/persistence/memory/policy_repository.go\<close>. Its map is keyed by the
  text of the identifier, here by the identifier itself. The order in which a loop over the map
  meets its keys is the argument \<open>ord\<close>; each method holds the lock, so it is one step. Policies
  are copied on the way in and out, so they are plain values.
\<close>

section \<open>Data\<close>

record policy =
  po_ID :: uuid
  po_Name :: string
  po_Version :: int
  po_Content :: string
  po_Type :: string
  po_CreatedBy :: "uuid option"
  po_CreatedAt :: int
  po_UpdatedAt :: int

record policyRepo =
  policies :: "uuid \<rightharpoonup> policy"

datatype policyErr =
    PolicyExists uuid
  | PolicyNotFound uuid
  | PolicyNameNotFound string

section \<open>Operations\<close>

definition builtinPolicyID :: uuid where
  "builtinPolicyID = 0x550e8400e29b41d4a716446655440000"

text \<open>The two clock readings of the constructor and the text of the built-in rules are arguments.\<close>

definition NewPolicyRepository :: "int \<Rightarrow> int \<Rightarrow> string \<Rightarrow> policyRepo" where
  "NewPolicyRepository t t' builtin =
     \<lparr>policies = [builtinPolicyID \<mapsto>
        \<lparr>po_ID = builtinPolicyID, po_Name = ''Prompt Injection Detection'', po_Version = 1,
         po_Content = builtin, po_Type = ''builtin'', po_CreatedBy = None,
         po_CreatedAt = t - 86400000000000, po_UpdatedAt = t' - 3600000000000\<rparr>]\<rparr>"

definition policyCreate :: "policy \<Rightarrow> policyRepo \<Rightarrow> policyRepo \<times> policyErr option" where
  "policyCreate p r =
     (if policies r (po_ID p) \<noteq> None then (r, Some (PolicyExists (po_ID p)))
      else (r\<lparr>policies := (policies r)(po_ID p \<mapsto> p)\<rparr>, None))"

definition policyGet :: "uuid \<Rightarrow> policyRepo \<Rightarrow> policyErr + policy" where
  "policyGet i r = (case policies r i of None \<Rightarrow> Inl (PolicyNotFound i) | Some p \<Rightarrow> Inr p)"

definition policyUpdate :: "policy \<Rightarrow> policyRepo \<Rightarrow> policyRepo \<times> policyErr option" where
  "policyUpdate p r =
     (if policies r (po_ID p) = None then (r, Some (PolicyNotFound (po_ID p)))
      else (r\<lparr>policies := (policies r)(po_ID p \<mapsto> p)\<rparr>, None))"

definition policyDelete :: "uuid \<Rightarrow> policyRepo \<Rightarrow> policyRepo \<times> policyErr option" where
  "policyDelete i r =
     (if policies r i = None then (r, Some (PolicyNotFound i))
      else (r\<lparr>policies := (policies r)(i := None)\<rparr>, None))"

text \<open>The policies as a loop over the map meets them.\<close>

definition policyRows :: "uuid list \<Rightarrow> policyRepo \<Rightarrow> policy list" where
  "policyRows ord r = List.map_filter (policies r) ord"

definition policyGetByName :: "uuid list \<Rightarrow> string \<Rightarrow> policyRepo \<Rightarrow> policyErr + policy" where
  "policyGetByName ord name r =
     (case find (\<lambda>p. po_Name p = name) (policyRows ord r) of
        None \<Rightarrow> Inl (PolicyNameNotFound name)
      | Some p \<Rightarrow> Inr p)"

definition policyList :: "uuid list \<Rightarrow> string option \<Rightarrow> int \<Rightarrow> int \<Rightarrow> policyRepo \<Rightarrow> policy list \<times> nat" where
  "policyList ord policyType offset limit r =
     (let result = filter (\<lambda>p. case policyType of None \<Rightarrow> True | Some t \<Rightarrow> po_Type p = t) (policyRows ord r);
          total = length result;
          result1 = (if offset > 0 \<and> offset < int (length result) then drop (nat offset) result else result);
          result2 = (if limit > 0 \<and> limit < int (length result1) then take (nat limit) result1 else result1)
      in (result2, total))"

definition newerPolicy :: "string \<Rightarrow> policy option \<Rightarrow> policy \<Rightarrow> policy option" where
  "newerPolicy name latest p =
     (if po_Name p = name
      then (case latest of None \<Rightarrow> Some p | Some q \<Rightarrow> if po_Version p > po_Version q then Some p else Some q)
      else latest)"

definition policyGetLatestVersion :: "uuid list \<Rightarrow> string \<Rightarrow> policyRepo \<Rightarrow> policyErr + policy" where
  "policyGetLatestVersion ord name r =
     (case foldl (newerPolicy name) None (policyRows ord r) of
        None \<Rightarrow> Inl (PolicyNameNotFound name)
      | Some p \<Rightarrow> Inr p)"

section \<open>Filters\<close>

text \<open>
  The entries of the filter map that have the type the code asks for; the key \<^verbatim>\<open>active\<close> is set
  by \<open>policyGetActive\<close>.
\<close>

record policyFilter =
  f_type :: "string option"
  f_name :: "string option"
  f_limit :: "int option"
  f_active :: "bool option"

definition findInString :: "string \<Rightarrow> string \<Rightarrow> bool" where
  "findInString s sub = list_ex (\<lambda>i. take (length sub) (drop i s) = sub) [0..<Suc (length s) - length sub]"

definition policyContains :: "string \<Rightarrow> string \<Rightarrow> bool" where
  "policyContains s sub \<longleftrightarrow> length s \<ge> length sub
     \<and> (s = sub
        \<or> (length s > length sub
           \<and> (take (length sub) s = sub \<or> drop (length s - length sub) s = sub \<or> findInString s sub)))"

definition matchesFilter :: "policy \<Rightarrow> policyFilter \<Rightarrow> bool" where
  "matchesFilter p f \<longleftrightarrow>
     (case f_type f of None \<Rightarrow> True | Some t \<Rightarrow> po_Type p = t)
     \<and> (case f_name f of None \<Rightarrow> True | Some n \<Rightarrow> \<not> (n \<noteq> [] \<and> \<not> policyContains (po_Name p) n))"

definition ListWithFilter :: "uuid list \<Rightarrow> policyFilter \<Rightarrow> policyRepo \<Rightarrow> policy list \<times> nat" where
  "ListWithFilter ord f r =
     (let result = filter (\<lambda>p. matchesFilter p f) (policyRows ord r);
          result1 = (case f_limit f of
                       None \<Rightarrow> result
                     | Some limit \<Rightarrow> if limit > 0 \<and> int (length result) > limit then take (nat limit) result else result)
      in (result1, card (dom (policies r))))"

definition policyGetActive :: "uuid list \<Rightarrow> policyRepo \<Rightarrow> policy list" where
  "policyGetActive ord r =
     fst (ListWithFilter ord \<lparr>f_type = None, f_name = None, f_limit = None, f_active = Some True\<rparr> r)"

section \<open>Lemmas\<close>

lemma policyRows_nth: "set ord = dom (policies r) \<Longrightarrow> map Some (policyRows ord r) = map (policies r) ord"
proof -
  have "set xs \<subseteq> dom (policies r) \<Longrightarrow> map Some (List.map_filter (policies r) xs) = map (policies r) xs" for xs
    by (induction xs) (auto simp: List.map_filter_simps)
  then show "set ord = dom (policies r) \<Longrightarrow> ?thesis" by (simp add: policyRows_def)
qed

lemma set_policyRows: "set (policyRows ord r) = {p. \<exists>i \<in> set ord. policies r i = Some p}"
  by (induction ord) (auto simp: policyRows_def List.map_filter_simps split: option.split)

lemma findInString_occurs: "findInString s sub \<longleftrightarrow> (\<exists>i. occursAt s sub i)"
proof
  assume "findInString s sub"
  then obtain i where "i < Suc (length s) - length sub" "take (length sub) (drop i s) = sub"
    by (auto simp: findInString_def list_ex_iff)
  then have "occursAt s sub i" by (simp add: occursAt_def hasPrefix_def)
  then show "\<exists>i. occursAt s sub i" by blast
next
  assume "\<exists>i. occursAt s sub i"
  then obtain i where o: "occursAt s sub i" by blast
  then have "i + length sub \<le> length s" by (rule occursAt_bound)
  then have "i < Suc (length s) - length sub" by simp
  with o show "findInString s sub" by (auto simp: findInString_def list_ex_iff occursAt_def hasPrefix_def)
qed

text \<open>Every policy is stored under its identifier, and every operation keeps that.\<close>

definition policyKeys :: "policyRepo \<Rightarrow> bool" where
  "policyKeys r \<longleftrightarrow> (\<forall>i p. policies r i = Some p \<longrightarrow> po_ID p = i)"

lemma policyKeys_ops:
  "policyKeys (NewPolicyRepository t t' c)"
  "policyKeys r \<Longrightarrow> policyKeys (fst (policyCreate p r))"
  "policyKeys r \<Longrightarrow> policyKeys (fst (policyUpdate p r))"
  "policyKeys r \<Longrightarrow> policyKeys (fst (policyDelete i r))"
  by (auto simp: policyKeys_def NewPolicyRepository_def policyCreate_def policyUpdate_def policyDelete_def)

lemma policyGet_policies: "policyGet i r = Inr p \<longleftrightarrow> policies r i = Some p"
  by (auto simp: policyGet_def split: option.split)

lemma newerPolicy_fold:
  "foldl (newerPolicy name) latest ps = Some q \<Longrightarrow>
     (latest = Some q \<or> q \<in> set ps \<and> po_Name q = name)
     \<and> (\<forall>p \<in> set ps. po_Name p = name \<longrightarrow> po_Version p \<le> po_Version q)
     \<and> (\<forall>l. latest = Some l \<longrightarrow> po_Version l \<le> po_Version q)"
proof (induction ps arbitrary: latest)
  case (Cons p ps)
  from Cons.prems have "foldl (newerPolicy name) (newerPolicy name latest p) ps = Some q" by simp
  note ih = Cons.IH [OF this]
  show ?case
  proof (cases "po_Name p = name")
    case True
    with ih show ?thesis by (cases latest) (auto simp: newerPolicy_def split: if_splits)
  next
    case False
    with ih show ?thesis by (auto simp: newerPolicy_def)
  qed
qed simp

section \<open>Properties\<close>

text \<open>
  The substring test written out in the repository is the one of the standard library, and so
  it is case-sensitive.
\<close>

theorem policyContains_iff: "policyContains s sub \<longleftrightarrow> strContains s sub"
proof -
  have "policyContains s sub \<longleftrightarrow> findInString s sub"
  proof
    assume c: "policyContains s sub"
    from c consider (atStart) "take (length sub) s = sub" | (atEnd) "drop (length s - length sub) s = sub"
      | (within) "findInString s sub"
      by (auto simp: policyContains_def)
    then show "findInString s sub"
    proof cases
      case atStart
      then have "occursAt s sub 0" by (simp add: hasPrefix_def)
      then show ?thesis unfolding findInString_occurs by (rule exI)
    next
      case atEnd
      then have "occursAt s sub (length s - length sub)" by (simp add: occursAt_def hasPrefix_def)
      then show ?thesis unfolding findInString_occurs by (rule exI)
    qed
  next
    assume f: "findInString s sub"
    then obtain i where o: "occursAt s sub i" unfolding findInString_occurs by (rule exE)
    from occursAt_bound [OF this] have "length sub \<le> length s" by simp
    moreover have "s = sub" if "length s = length sub"
    proof -
      from o occursAt_bound [OF o] that have "hasPrefix s sub" by (simp add: occursAt_def)
      then show "s = sub" using that by (auto simp: hasPrefix_conv)
    qed
    ultimately show "policyContains s sub"
      unfolding policyContains_def using f le_neq_implies_less [of "length sub" "length s"] by metis
  qed
  then show ?thesis by (simp add: findInString_occurs strContains_def strIndex_None_iff)
qed

text \<open>
  The filter on the key \<^verbatim>\<open>active\<close> is never applied: the active policies are all policies.
\<close>

theorem policyGetActive_all:
  assumes "set ord = dom (policies r)"
  shows "set (policyGetActive ord r) = ran (policies r)"
  using assms by (auto simp: policyGetActive_def ListWithFilter_def matchesFilter_def set_policyRows ran_def)

text \<open>
  A page within the list is the stretch asked for; an offset past its end gives the first page
  again instead of none, so a client that asks for pages until one is empty does not end.
\<close>

theorem policyList_page:
  assumes "0 \<le> offset" "0 < limit"
  shows "fst (policyList ord ty offset limit r)
    = take (nat limit) (let ps = fst (policyList ord ty 0 0 r)
                        in if offset < int (length ps) then drop (nat offset) ps else ps)"
  using assms by (auto simp: policyList_def Let_def)

text \<open>The latest version by name is a policy of that name, and none of that name is newer.\<close>

theorem policyGetLatestVersion_max:
  assumes "policyGetLatestVersion ord name r = Inr q"
  shows "q \<in> set (policyRows ord r) \<and> po_Name q = name
    \<and> (\<forall>p \<in> set (policyRows ord r). po_Name p = name \<longrightarrow> po_Version p \<le> po_Version q)"
  using assms newerPolicy_fold [of name None "policyRows ord r" q]
  by (simp add: policyGetLatestVersion_def split: option.splits)

end
