(* ===== verification/Policy_Scanner.thy ===== *)
theory Policy_Scanner
  imports Scanner_IO Policy_Repo
begin

text \<open>
  Policies as rule packs: \<^verbatim>\<open>internal/application/services/policy_scanner_service.go\<close>. The
  same state and the same conversion are in the scanner manager of the HTTP enforcer
  (\<^verbatim>\<open>internal/interfaces/http/enforcer/scanner_manager.go\<close>, whose
  \<^verbatim>\<open>convertPolicyToRulePack\<close> and \<^verbatim>\<open>reloadScannerLocked\<close> are copies of the ones here up
  to logging), so both use these definitions. The YAML decoder and the text of a UUID are the
  record \<open>polLib\<close>; \<open>ord\<close> is the order in which a loop over the map of active policies meets its
  keys.
\<close>

section \<open>Policies as rule packs\<close>

record polLib =
  pl_decode :: "string \<Rightarrow> string + rulePack"
  pl_decodeRules :: "string \<Rightarrow> string + rule list"
  pl_idText :: "uuid \<Rightarrow> string"

definition withPackDefaults :: "policy \<Rightarrow> rulePack \<Rightarrow> rulePack" where
  "withPackDefaults p rp =
     (let rp1 = (if packName rp = [] then rp\<lparr>p_Metadata := (p_Metadata rp)\<lparr>m_Name := po_Name p\<rparr>\<rparr> else rp);
          rp2 = (if p_APIVersion rp1 = [] then rp1\<lparr>p_APIVersion := ''promptshield.io/v1''\<rparr> else rp1)
      in if p_Kind rp2 = [] then rp2\<lparr>p_Kind := ''RulePack''\<rparr> else rp2)"

definition packOfRules :: "policy \<Rightarrow> rule list \<Rightarrow> rulePack" where
  "packOfRules p rs = zeroPack\<lparr>p_APIVersion := ''promptshield.io/v1'', p_Kind := ''RulePack'',
     p_Metadata := zeroMetadata\<lparr>m_Name := po_Name p, m_Description := ''Policy '' @ po_Name p,
       m_Version := ''v'' @ itoa (po_Version p)\<rparr>,
     p_Rules := rs\<rparr>"

text \<open>The rule for content that is neither a rule pack nor a list of rules.\<close>

definition keywordRule :: "polLib \<Rightarrow> policy \<Rightarrow> rule" where
  "keywordRule D p = zeroRule\<lparr>r_ID := ''policy-'' @ take 8 (pl_idText D (po_ID p)), r_Name := po_Name p,
     r_Level := 1, r_Severity := ''MEDIUM'', r_Keywords := [''inject'', ''ignore'', ''override''],
     r_Response := Some \<lparr>rs_Action = ''warn'', rs_Message = ''Policy violation detected'',
       rs_Replacement = []\<rparr>\<rparr>"

definition convertPolicyToRulePack :: "polLib \<Rightarrow> policy \<Rightarrow> string + rulePack" where
  "convertPolicyToRulePack D p =
     (case pl_decode D (po_Content p) of
        Inr rp \<Rightarrow> Inr (withPackDefaults p rp)
      | Inl _ \<Rightarrow>
          (case pl_decodeRules D (po_Content p) of
             Inr (r # rs) \<Rightarrow> Inr (packOfRules p (r # rs))
           | _ \<Rightarrow> Inr (packOfRules p [keywordRule D p])))"

text \<open>A policy that cannot be converted is passed over.\<close>

definition packsOf :: "polLib \<Rightarrow> policy list \<Rightarrow> rulePack list" where
  "packsOf D ps =
     List.map_filter (\<lambda>p. case convertPolicyToRulePack D p of Inl _ \<Rightarrow> None | Inr rp \<Rightarrow> Some rp) ps"

section \<open>The scanner and its active policies\<close>

record 'rx policyScanner =
  ps_scanner :: "'rx scanner"
  ps_active :: "uuid \<rightharpoonup> policy"

definition NewPolicyScannerService :: "'rx policyScanner" where
  "NewPolicyScannerService =
     \<lparr>ps_scanner = SetMaxStreamBytes (10 * 1024 * 1024)
        (SetQuarantineOnError True (SetQuarantineOnTimeout True (ScanEngineCstor 0))),
      ps_active = Map.empty\<rparr>"

definition activePacks :: "polLib \<Rightarrow> uuid list \<Rightarrow> (uuid \<rightharpoonup> policy) \<Rightarrow> rulePack list" where
  "activePacks D ord active = packsOf D (List.map_filter active ord)"

definition reloadScannerLocked :: "'rx world \<Rightarrow> (rulePack list \<Rightarrow> rulePack list) \<Rightarrow> polLib \<Rightarrow> uuid list
    \<Rightarrow> 'rx policyScanner \<times> 'rx globals \<Rightarrow> 'rx policyScanner \<times> 'rx globals" where
  "reloadScannerLocked W srt D ord = (\<lambda>(ps, g).
     case LoadRulePacks W srt (activePacks D ord (ps_active ps)) (ps_scanner ps, g) of
       (sc, g') \<Rightarrow> (ps\<lparr>ps_scanner := sc\<rparr>, g'))"

text \<open>\<open>ord\<close> is the order of the loop over the repository here; a policy that is met later replaces one of the same identifier.\<close>

definition activeMap :: "policy list \<Rightarrow> uuid \<rightharpoonup> policy" where
  "activeMap ps = foldl (\<lambda>m p. m(po_ID p \<mapsto> p)) Map.empty ps"

definition ReloadActivePolicies :: "'rx world \<Rightarrow> (rulePack list \<Rightarrow> rulePack list) \<Rightarrow> polLib \<Rightarrow> uuid list \<Rightarrow> policyRepo
    \<Rightarrow> 'rx policyScanner \<times> 'rx globals \<Rightarrow> 'rx policyScanner \<times> 'rx globals" where
  "ReloadActivePolicies W srt D ord repo = (\<lambda>(ps, g).
     (let policies = policyGetActive ord repo;
          converted = filter (\<lambda>p. \<not> isl (convertPolicyToRulePack D p)) policies
      in case LoadRulePacks W srt (packsOf D policies) (ps_scanner ps, g) of
           (sc, g') \<Rightarrow> (ps\<lparr>ps_scanner := sc, ps_active := activeMap converted\<rparr>, g')))"

definition scannerActivatePolicy :: "'rx world \<Rightarrow> (rulePack list \<Rightarrow> rulePack list) \<Rightarrow> polLib \<Rightarrow> uuid list \<Rightarrow> policyRepo \<Rightarrow> uuid
    \<Rightarrow> 'rx policyScanner \<times> 'rx globals \<Rightarrow> ('rx policyScanner \<times> 'rx globals) \<times> policyErr option" where
  "scannerActivatePolicy W srt D ord repo i = (\<lambda>(ps, g).
     case policyGet i repo of
       Inl e \<Rightarrow> ((ps, g), Some e)
     | Inr p \<Rightarrow> (reloadScannerLocked W srt D ord (ps\<lparr>ps_active := (ps_active ps)(i \<mapsto> p)\<rparr>, g), None))"

definition scannerDeactivatePolicy :: "'rx world \<Rightarrow> (rulePack list \<Rightarrow> rulePack list) \<Rightarrow> polLib \<Rightarrow> uuid list \<Rightarrow> uuid
    \<Rightarrow> 'rx policyScanner \<times> 'rx globals \<Rightarrow> 'rx policyScanner \<times> 'rx globals" where
  "scannerDeactivatePolicy W srt D ord i = (\<lambda>(ps, g).
     reloadScannerLocked W srt D ord (ps\<lparr>ps_active := (ps_active ps)(i := None)\<rparr>, g))"

section \<open>Scanning a text\<close>

record policyViolation =
  pv_RuleID :: string
  pv_Severity :: string
  pv_Message :: string
  pv_Action :: string
  pv_Confidence :: real
  pv_Line :: int
  pv_Column :: int
  pv_Category :: string
  pv_ResponseAction :: string
  pv_ResponseMessage :: string
  pv_ResponseReplacement :: string
  pv_RuleTimeoutMs :: int

definition convertViolation :: "'rx golib \<Rightarrow> violation \<Rightarrow> policyViolation" where
  "convertViolation G v =
     (let severity0 = strToLower G (v_Severity v);
          severity = (if severity0 = [] then ''medium'' else severity0)
      in \<lparr>pv_RuleID = v_RuleID v, pv_Severity = severity, pv_Message = v_Message v, pv_Action = ''deny'',
          pv_Confidence = 1, pv_Line = v_Line v, pv_Column = v_Column v, pv_Category = v_Category v,
          pv_ResponseAction = v_ResponseAction v, pv_ResponseMessage = v_ResponseMessage v,
          pv_ResponseReplacement = v_ResponseReplacement v, pv_RuleTimeoutMs = v_RuleTimeoutMs v\<rparr>)"

definition convertViolations :: "'rx golib \<Rightarrow> violation list \<Rightarrow> policyViolation list" where
  "convertViolations G vs = map (convertViolation G) vs"

record policyScanResult =
  pr_ID :: uuid
  pr_Input :: string
  pr_Violations :: "policyViolation list"
  pr_Metrics :: metrics
  pr_ProcessingTime :: int
  pr_CreatedAt :: int

definition ScanText :: "'rx world \<Rightarrow> 'rx policyScanner \<Rightarrow> scanEnv \<Rightarrow> nat \<Rightarrow> nat \<Rightarrow> uuid \<Rightarrow> int \<Rightarrow> string
    \<Rightarrow> scanError + policyScanResult" where
  "ScanText W ps env clock calls newID t content =
     (case snd (ScanReader W (ps_scanner ps) env ''policy-test'' content None clock calls) of
        Inl e \<Rightarrow> Inl e
      | Inr res \<Rightarrow>
          Inr \<lparr>pr_ID = newID, pr_Input = content,
               pr_Violations = convertViolations (lib W) (sr_Violations res), pr_Metrics = sr_Metrics res,
               pr_ProcessingTime = si_ScanDurationMs (sr_ScanInfo res) * 1000000, pr_CreatedAt = t\<rparr>)"

section \<open>The rules in force are those of the active policies\<close>

text \<open>What a loop over a Go map promises: every key once, in any order.\<close>

definition iterOrder :: "'k list \<Rightarrow> ('k \<rightharpoonup> 'v) \<Rightarrow> bool" where
  "iterOrder ord m \<longleftrightarrow> distinct ord \<and> set ord = dom m"

definition rulesFor :: "'rx world \<Rightarrow> (rulePack list \<Rightarrow> rulePack list) \<Rightarrow> 'rx scanner \<Rightarrow> rulePack list \<Rightarrow> rule list" where
  "rulesFor W srt sc packs = (if usesPriority W packs sc then MergePacksPriorityOrder srt packs else MergePacks packs)"

definition inSync :: "'rx world \<Rightarrow> (rulePack list \<Rightarrow> rulePack list) \<Rightarrow> polLib \<Rightarrow> 'rx policyScanner \<Rightarrow> bool" where
  "inSync W srt D ps \<longleftrightarrow> (\<exists>ord. iterOrder ord (ps_active ps)
     \<and> list_all2 (compiledFrom (lib W) False) (rulesFor W srt (ps_scanner ps) (activePacks D ord (ps_active ps)))
         (compiled (ps_scanner ps)))"

definition plainDefaults :: "'rx policyScanner \<Rightarrow> bool" where
  "plainDefaults ps \<longleftrightarrow> \<not> defaultCaseSensitive (ps_scanner ps) \<and> compositionStrategy (ps_scanner ps) = []"

lemma usesPriority_load: "usesPriority W packs (fst (LoadRulePacks W srt ps (s, g))) \<longleftrightarrow> usesPriority W packs s"
  by (simp add: usesPriority_def LoadRulePacks_defaults)

lemma plainDefaults_ops:
  "plainDefaults NewPolicyScannerService"
  "plainDefaults (ps\<lparr>ps_active := m\<rparr>) \<longleftrightarrow> plainDefaults ps"
  "plainDefaults (fst (reloadScannerLocked W srt D ord (ps, g))) \<longleftrightarrow> plainDefaults ps"
  "plainDefaults (fst (ReloadActivePolicies W srt D ord repo (ps, g))) \<longleftrightarrow> plainDefaults ps"
     apply (simp add: plainDefaults_def NewPolicyScannerService_def ScanEngineCstor_def SetMaxStreamBytes_def
        SetQuarantineOnError_def SetQuarantineOnTimeout_def)
    apply (simp add: plainDefaults_def)
   apply (simp add: plainDefaults_def reloadScannerLocked_def LoadRulePacks_defaults split_def)
  apply (simp add: plainDefaults_def ReloadActivePolicies_def LoadRulePacks_defaults split_def Let_def)
  done

lemma inSync_loaded:
  assumes "plainDefaults ps" "iterOrder ord m" "packs = activePacks D ord m"
    and "LoadRulePacks W srt packs (ps_scanner ps, g) = (sc, g')"
  shows "inSync W srt D (ps\<lparr>ps_scanner := sc, ps_active := m\<rparr>)"
proof -
  from assms(4) have sc: "sc = fst (LoadRulePacks W srt packs (ps_scanner ps, g))" by simp
  have "list_all2 (compiledFrom (lib W) False) (rulesFor W srt sc packs) (compiled sc)"
    using LoadRulePacks_compiled [of W "ps_scanner ps" packs srt g] assms(1)
    by (simp add: sc rulesFor_def usesPriority_load plainDefaults_def)
  with assms(2,3) show ?thesis by (auto simp: inSync_def)
qed

lemma inSync_reload:
  assumes "plainDefaults ps" "iterOrder ord (ps_active ps)"
  shows "inSync W srt D (fst (reloadScannerLocked W srt D ord (ps, g)))"
proof -
  obtain sc g' where l: "LoadRulePacks W srt (activePacks D ord (ps_active ps)) (ps_scanner ps, g) = (sc, g')"
    by (meson surj_pair)
  from inSync_loaded [OF assms refl l] l show ?thesis by (simp add: reloadScannerLocked_def)
qed

lemma reload_active [simp]: "ps_active (fst (reloadScannerLocked W srt D ord (ps, g))) = ps_active ps"
  by (simp add: reloadScannerLocked_def split_def)

lemma inSync_new:
  fixes W :: "'rx world"
  shows "inSync W srt D NewPolicyScannerService"
proof -
  have "plainDefaults (NewPolicyScannerService :: 'rx policyScanner)" by (rule plainDefaults_ops)
  then have "rulesFor W srt (ps_scanner NewPolicyScannerService) [] = []"
    by (simp add: rulesFor_def usesPriority_def plainDefaults_def strToLower_def isAscii_def mapBytes_def
        MergePacks_def orderedRules_def Let_def)
  then show ?thesis
    by (auto simp: inSync_def iterOrder_def NewPolicyScannerService_def activePacks_def packsOf_def
        ScanEngineCstor_def SetMaxStreamBytes_def SetQuarantineOnError_def SetQuarantineOnTimeout_def
        List.map_filter_simps intro!: exI [of _ "[]"])
qed

text \<open>No policy is ever refused by the conversion.\<close>

lemma convertPolicyToRulePack_total: "\<exists>rp. convertPolicyToRulePack D p = Inr rp"
  by (auto simp: convertPolicyToRulePack_def split: sum.split list.split)

lemma not_isl_convert [simp]: "\<not> isl (convertPolicyToRulePack D p)"
  using convertPolicyToRulePack_total [of D p] by auto

lemma activeMap_rows:
  assumes "policyKeys r" "iterOrder ord (policies r)"
  shows "activeMap (policyRows ord r) = policies r" "List.map_filter (policies r) ord = policyRows ord r"
proof -
  have m: "foldl (\<lambda>m p. m(po_ID p \<mapsto> p)) m0 (List.map_filter (policies r) xs) = (\<lambda>i. if i \<in> set xs then policies r i else m0 i)"
    if "set xs \<subseteq> dom (policies r)" for xs m0
    using that assms(1)
  proof (induction xs arbitrary: m0)
    case (Cons x xs)
    then obtain p where "policies r x = Some p" "po_ID p = x" by (auto simp: policyKeys_def)
    moreover have "set xs \<subseteq> dom (policies r)" using Cons.prems(1) by simp
    ultimately show ?case
      using Cons.IH [of "m0(x \<mapsto> p)"] Cons.prems(2) by (auto simp: List.map_filter_simps fun_eq_iff)
  qed (simp add: List.map_filter_simps)
  show "activeMap (policyRows ord r) = policies r"
    using m [of ord Map.empty] assms(2) by (auto simp: activeMap_def policyRows_def iterOrder_def domIff)
  show "List.map_filter (policies r) ord = policyRows ord r" by (simp add: policyRows_def)
qed

lemma policyGetActive_rows [simp]: "policyGetActive ord r = policyRows ord r"
  by (simp add: policyGetActive_def ListWithFilter_def matchesFilter_def)

lemma ReloadActivePolicies_active:
  assumes "policyKeys r" "iterOrder ord (policies r)"
  shows "ps_active (fst (ReloadActivePolicies W srt D ord r (ps, g))) = policies r"
  using activeMap_rows [OF assms] by (simp add: ReloadActivePolicies_def split_def Let_def)

lemma inSync_ReloadActive:
  assumes "plainDefaults ps" "policyKeys r" "iterOrder ord (policies r)"
  shows "inSync W srt D (fst (ReloadActivePolicies W srt D ord r (ps, g)))"
proof -
  have packs: "packsOf D (policyRows ord r) = activePacks D ord (policies r)"
    using activeMap_rows(2) [OF assms(2,3)] by (simp add: activePacks_def)
  obtain sc g' where l: "LoadRulePacks W srt (packsOf D (policyRows ord r)) (ps_scanner ps, g) = (sc, g')"
    by (meson surj_pair)
  from inSync_loaded [OF assms(1,3) packs l] l activeMap_rows(1) [OF assms(2,3)] show ?thesis
    by (simp add: ReloadActivePolicies_def Let_def)
qed

lemma MergePacks_same_name:
  assumes "packName p = packName q" "r \<in> set (MergePacks [p, q])"
  shows "r_ID r \<in> r_ID ` set (p_Rules q)"
proof -
  have "MergePacks [p, q] = MergePacks [q, q]"
    using assms(1) by (intro MergePacks_cong) (simp_all add: byName_def)
  with assms(2) have "r_ID r \<in> set (mergedIds [q, q])" by (simp flip: map_ID_MergePacks)
  then have "r_ID r \<in> set (map r_ID (orderedRules [q, q] (mergeOrder [q, q])))"
    by (auto simp: mergedIds_final dest: finalRule_mem)
  then show ?thesis by (auto simp: orderedRules_def byName_def split: option.splits if_splits)
qed

text \<open>
  Of two active policies whose rule packs have one name only the one that the loop over the map
  meets last is enforced: no rule id that only the other one has is in force, and which of the two
  it is changes with the iteration order.
\<close>

theorem same_name_policy_dropped:
  assumes "convertPolicyToRulePack D p = Inr P" "convertPolicyToRulePack D q = Inr Q" "packName P = packName Q"
    and "i \<noteq> j" "\<not> usesPriority W [P, Q] sc"
  shows "r_ID ` set (rulesFor W srt sc (activePacks D [i, j] [i \<mapsto> p, j \<mapsto> q])) \<subseteq> r_ID ` set (p_Rules Q)
    \<and> r_ID ` set (rulesFor W srt sc (activePacks D [j, i] [i \<mapsto> p, j \<mapsto> q])) \<subseteq> r_ID ` set (p_Rules P)"
proof -
  from assms(4,1,2) have packs: "activePacks D [i, j] [i \<mapsto> p, j \<mapsto> q] = [P, Q]"
    "activePacks D [j, i] [i \<mapsto> p, j \<mapsto> q] = [Q, P]"
    by (simp_all add: activePacks_def packsOf_def List.map_filter_simps)
  from assms(5) have "\<not> usesPriority W [Q, P] sc" by (auto simp: usesPriority_def)
  with packs assms(5) MergePacks_same_name [OF assms(3)] MergePacks_same_name [OF assms(3) [symmetric]]
  show ?thesis by (auto simp: rulesFor_def)
qed

end
