(* ===== verification/Policy_Events.thy ===== *)
theory Policy_Events
  imports Policy_Scanner
begin

text \<open>
  The life cycle of policies: the event bus (\<^verbatim>\<open>internal/shared/events/bus.go\<close>), the scanner
  manager that listens to it (\<^verbatim>\<open>internal/interfaces/http/enforcer/scanner_manager.go\<close>), the
  policy service that publishes (\<^verbatim>\<open>internal/application/services/policy_service.go\<close>) and the
  synchronisation with an external policy API
  (\<^verbatim>\<open>internal/interfaces/http/enforcer/policy_sync.go\<close>). Handlers are named, so the bus holds
  data. \<^verbatim>\<open>Publish\<close> starts a goroutine per handler; a goroutine that has not run yet is an
  entry of \<open>y_pending\<close>. A service call and a handler are one step each.
\<close>

section \<open>Events and the bus\<close>

datatype policyEvent =
    PolicyActivated (ev_id: uuid) (ev_data: policy) (ev_by: "uuid option")
  | PolicyDeactivated (ev_id: uuid) (ev_data: policy) (ev_by: "uuid option")

fun eventType :: "policyEvent \<Rightarrow> string" where
  "eventType (PolicyActivated _ _ _) = ''policy.activated''"
| "eventType (PolicyDeactivated _ _ _) = ''policy.deactivated''"

record 'h eventBus =
  eb_handlers :: "string \<Rightarrow> 'h list"

definition NewEventBus :: "'h eventBus" where
  "NewEventBus = \<lparr>eb_handlers = (\<lambda>_. [])\<rparr>"

definition Subscribe :: "string \<Rightarrow> 'h \<Rightarrow> 'h eventBus \<Rightarrow> 'h eventBus" where
  "Subscribe ty h bus = bus\<lparr>eb_handlers := (eb_handlers bus)(ty := eb_handlers bus ty @ [h])\<rparr>"

definition UnsubscribeAll :: "string \<Rightarrow> 'h eventBus \<Rightarrow> 'h eventBus" where
  "UnsubscribeAll ty bus = bus\<lparr>eb_handlers := (eb_handlers bus)(ty := [])\<rparr>"

definition GetSubscriberCount :: "string \<Rightarrow> 'h eventBus \<Rightarrow> nat" where
  "GetSubscriberCount ty bus = length (eb_handlers bus ty)"

text \<open>The goroutines \<^verbatim>\<open>Publish\<close> starts; it never fails and never waits.\<close>

definition Publish :: "'h eventBus \<Rightarrow> policyEvent \<Rightarrow> ('h \<times> policyEvent) list" where
  "Publish bus ev = map (\<lambda>h. (h, ev)) (eb_handlers bus (eventType ev))"

text \<open>The handlers in turn, up to the first that fails.\<close>

fun runHandlers :: "('h \<Rightarrow> policyEvent \<Rightarrow> 's \<Rightarrow> 's \<times> string option) \<Rightarrow> policyEvent \<Rightarrow> 'h list \<Rightarrow> 's \<Rightarrow> 's \<times> string option" where
  "runHandlers run ev [] s = (s, None)"
| "runHandlers run ev (h # hs) s =
     (case run h ev s of
        (s', Some e) \<Rightarrow> (s', Some e)
      | (s', None) \<Rightarrow> runHandlers run ev hs s')"

definition PublishSync :: "('h \<Rightarrow> policyEvent \<Rightarrow> 's \<Rightarrow> 's \<times> string option) \<Rightarrow> 'h eventBus \<Rightarrow> policyEvent \<Rightarrow> 's \<Rightarrow> 's \<times> string option" where
  "PublishSync run bus ev s = runHandlers run ev (eb_handlers bus (eventType ev)) s"

section \<open>The scanner manager\<close>

datatype handlerName = HandlePolicyActivated | HandlePolicyDeactivated

definition handlePolicyActivated :: "'rx world \<Rightarrow> (rulePack list \<Rightarrow> rulePack list) \<Rightarrow> polLib \<Rightarrow> ((uuid \<rightharpoonup> policy) \<Rightarrow> uuid list) \<Rightarrow> policyEvent
    \<Rightarrow> 'rx policyScanner \<times> 'rx globals \<Rightarrow> ('rx policyScanner \<times> 'rx globals) \<times> string option" where
  "handlePolicyActivated W srt D pick ev = (\<lambda>(m, g).
     case ev of
       PolicyActivated i p _ \<Rightarrow>
         (let m' = m\<lparr>ps_active := (ps_active m)(i \<mapsto> p)\<rparr>
          in (reloadScannerLocked W srt D (pick (ps_active m')) (m', g), None))
     | _ \<Rightarrow> ((m, g), Some ''invalid event type for policy activation''))"

definition handlePolicyDeactivated :: "'rx world \<Rightarrow> (rulePack list \<Rightarrow> rulePack list) \<Rightarrow> polLib \<Rightarrow> ((uuid \<rightharpoonup> policy) \<Rightarrow> uuid list) \<Rightarrow> policyEvent
    \<Rightarrow> 'rx policyScanner \<times> 'rx globals \<Rightarrow> ('rx policyScanner \<times> 'rx globals) \<times> string option" where
  "handlePolicyDeactivated W srt D pick ev = (\<lambda>(m, g).
     case ev of
       PolicyDeactivated i p _ \<Rightarrow>
         (let m' = m\<lparr>ps_active := (ps_active m)(i := None)\<rparr>
          in (reloadScannerLocked W srt D (pick (ps_active m')) (m', g), None))
     | _ \<Rightarrow> ((m, g), Some ''invalid event type for policy deactivation''))"

definition runHandler :: "'rx world \<Rightarrow> (rulePack list \<Rightarrow> rulePack list) \<Rightarrow> polLib \<Rightarrow> ((uuid \<rightharpoonup> policy) \<Rightarrow> uuid list) \<Rightarrow> handlerName \<Rightarrow> policyEvent
    \<Rightarrow> 'rx policyScanner \<times> 'rx globals \<Rightarrow> ('rx policyScanner \<times> 'rx globals) \<times> string option" where
  "runHandler W srt D pick h =
     (case h of
        HandlePolicyActivated \<Rightarrow> handlePolicyActivated W srt D pick
      | HandlePolicyDeactivated \<Rightarrow> handlePolicyDeactivated W srt D pick)"

definition NewScannerManager :: "handlerName eventBus \<Rightarrow> 'rx policyScanner \<times> handlerName eventBus" where
  "NewScannerManager bus =
     (\<lparr>ps_scanner = SetMaxStreamBytes (10 * 1024 * 1024)
         (SetQuarantineOnError True (SetQuarantineOnTimeout True (ScanEngineCstor 0))),
       ps_active = Map.empty\<rparr>,
      Subscribe ''policy.deactivated'' HandlePolicyDeactivated
        (Subscribe ''policy.activated'' HandlePolicyActivated bus))"

definition HasActivePolicies :: "'rx policyScanner \<Rightarrow> bool" where
  "HasActivePolicies m \<longleftrightarrow> ps_active m \<noteq> Map.empty"

section \<open>The policy service\<close>

text \<open>
  What a call takes from outside: the clock, a new identifier, the caller, the verdict of the rule
  compiler (nothing if there is none), and the order in which a loop over a map meets its keys, by
  the number of the loop.
\<close>

record polEnv =
  pe_now :: int
  pe_new :: uuid
  pe_user :: "uuid option"
  pe_invalid :: "policy \<Rightarrow> string option"
  pe_pick :: "nat \<Rightarrow> (uuid \<rightharpoonup> policy) \<Rightarrow> uuid list"

record 'rx policySys =
  y_repo :: policyRepo
  y_service :: "'rx policyScanner"
  y_manager :: "'rx policyScanner"
  y_globals :: "'rx globals"
  y_bus :: "handlerName eventBus"
  y_pending :: "(handlerName \<times> policyEvent) list"
  y_published :: "policyEvent list"
  y_hasAudit :: bool
  y_audited :: "(string \<times> uuid) list"

datatype svcErr =
    NameRequired
  | ContentRequired
  | RuleInvalid string
  | NotThere policyErr
  | StoreFailed policyErr
  | ScannerFailed policyErr

definition audit :: "string \<Rightarrow> uuid \<Rightarrow> 'rx policySys \<Rightarrow> 'rx policySys" where
  "audit act i y = (if y_hasAudit y then y\<lparr>y_audited := y_audited y @ [(act, i)]\<rparr> else y)"

definition ValidatePolicy :: "(policy \<Rightarrow> string option) \<Rightarrow> policy \<Rightarrow> svcErr option" where
  "ValidatePolicy invalid p =
     (if po_Name p = [] then Some NameRequired
      else if po_Content p = [] then Some ContentRequired
      else map_option RuleInvalid (invalid p))"

definition CreatePolicy :: "polEnv \<Rightarrow> policy \<Rightarrow> 'rx policySys \<Rightarrow> 'rx policySys \<times> (svcErr + policy)" where
  "CreatePolicy e p0 y =
     (let p = p0\<lparr>po_ID := pe_new e, po_CreatedAt := pe_now e, po_UpdatedAt := pe_now e, po_Version := 1\<rparr>
      in case ValidatePolicy (pe_invalid e) p of
           Some err \<Rightarrow> (y, Inl err)
         | None \<Rightarrow>
             (case policyCreate p (y_repo y) of
                (r, Some err) \<Rightarrow> (y\<lparr>y_repo := r\<rparr>, Inl (StoreFailed err))
              | (r, None) \<Rightarrow> (audit ''policy.create'' (po_ID p) (y\<lparr>y_repo := r\<rparr>), Inr p)))"

definition UpdatePolicy :: "polEnv \<Rightarrow> policy \<Rightarrow> 'rx policySys \<Rightarrow> 'rx policySys \<times> (svcErr + policy)" where
  "UpdatePolicy e p0 y =
     (case policyGet (po_ID p0) (y_repo y) of
        Inl err \<Rightarrow> (y, Inl (NotThere err))
      | Inr existing \<Rightarrow>
          (let p = p0\<lparr>po_CreatedAt := po_CreatedAt existing, po_CreatedBy := po_CreatedBy existing,
                      po_UpdatedAt := pe_now e, po_Version := po_Version existing + 1\<rparr>
           in case ValidatePolicy (pe_invalid e) p of
                Some err \<Rightarrow> (y, Inl err)
              | None \<Rightarrow>
                  (case policyUpdate p (y_repo y) of
                     (r, Some err) \<Rightarrow> (y\<lparr>y_repo := r\<rparr>, Inl (StoreFailed err))
                   | (r, None) \<Rightarrow> (audit ''policy.update'' (po_ID p) (y\<lparr>y_repo := r\<rparr>), Inr p))))"

definition DeletePolicy :: "uuid \<Rightarrow> 'rx policySys \<Rightarrow> 'rx policySys \<times> svcErr option" where
  "DeletePolicy i y =
     (case policyGet i (y_repo y) of
        Inl err \<Rightarrow> (y, Some (NotThere err))
      | Inr p \<Rightarrow>
          (case policyDelete i (y_repo y) of
             (r, Some err) \<Rightarrow> (y\<lparr>y_repo := r\<rparr>, Some (StoreFailed err))
           | (r, None) \<Rightarrow> (audit ''policy.delete'' (po_ID p) (y\<lparr>y_repo := r\<rparr>), None)))"

definition publishEvent :: "policyEvent \<Rightarrow> 'rx policySys \<Rightarrow> 'rx policySys" where
  "publishEvent ev y = y\<lparr>y_pending := y_pending y @ Publish (y_bus y) ev, y_published := y_published y @ [ev]\<rparr>"

definition ActivatePolicy :: "'rx world \<Rightarrow> (rulePack list \<Rightarrow> rulePack list) \<Rightarrow> polLib \<Rightarrow> polEnv \<Rightarrow> uuid
    \<Rightarrow> 'rx policySys \<Rightarrow> 'rx policySys \<times> svcErr option" where
  "ActivatePolicy W srt D e i y =
     (case policyGet i (y_repo y) of
        Inl err \<Rightarrow> (y, Some (NotThere err))
      | Inr p0 \<Rightarrow>
          (let p = p0\<lparr>po_UpdatedAt := pe_now e\<rparr>
           in case policyUpdate p (y_repo y) of
                (r, Some err) \<Rightarrow> (y\<lparr>y_repo := r\<rparr>, Some (StoreFailed err))
              | (r, None) \<Rightarrow>
                  (let ord = pe_pick e 0 ((ps_active (y_service y))(i := policies r i))
                   in case scannerActivatePolicy W srt D ord r i (y_service y, y_globals y) of
                        ((s, g), Some err) \<Rightarrow> (y\<lparr>y_repo := r, y_service := s, y_globals := g\<rparr>, Some (ScannerFailed err))
                      | ((s, g), None) \<Rightarrow>
                          (audit ''policy.activate'' (po_ID p)
                             (publishEvent (PolicyActivated (po_ID p) p (pe_user e))
                                (y\<lparr>y_repo := r, y_service := s, y_globals := g\<rparr>)), None))))"

definition DeactivatePolicy :: "'rx world \<Rightarrow> (rulePack list \<Rightarrow> rulePack list) \<Rightarrow> polLib \<Rightarrow> polEnv \<Rightarrow> uuid
    \<Rightarrow> 'rx policySys \<Rightarrow> 'rx policySys \<times> svcErr option" where
  "DeactivatePolicy W srt D e i y =
     (case policyGet i (y_repo y) of
        Inl err \<Rightarrow> (y, Some (NotThere err))
      | Inr p0 \<Rightarrow>
          (let p = p0\<lparr>po_UpdatedAt := pe_now e\<rparr>
           in case policyUpdate p (y_repo y) of
                (r, Some err) \<Rightarrow> (y\<lparr>y_repo := r\<rparr>, Some (StoreFailed err))
              | (r, None) \<Rightarrow>
                  (let ord = pe_pick e 0 ((ps_active (y_service y))(i := None))
                   in case scannerDeactivatePolicy W srt D ord i (y_service y, y_globals y) of
                        (s, g) \<Rightarrow>
                          (audit ''policy.deactivate'' (po_ID p)
                             (publishEvent (PolicyDeactivated (po_ID p) p (pe_user e))
                                (y\<lparr>y_repo := r, y_service := s, y_globals := g\<rparr>)), None))))"

text \<open>A test scans with a scanner of its own that has this policy alone.\<close>

definition TestPolicy :: "'rx world \<Rightarrow> (rulePack list \<Rightarrow> rulePack list) \<Rightarrow> polLib \<Rightarrow> scanEnv \<Rightarrow> nat \<Rightarrow> nat \<Rightarrow> uuid \<Rightarrow> int
    \<Rightarrow> uuid \<Rightarrow> string \<Rightarrow> 'rx policySys \<Rightarrow> 'rx globals \<times> ((svcErr + scanError) + policyScanResult)" where
  "TestPolicy W srt D env clock calls newID t i content y =
     (case policyGet i (y_repo y) of
        Inl err \<Rightarrow> (y_globals y, Inl (Inl (NotThere err)))
      | Inr _ \<Rightarrow>
          (case scannerActivatePolicy W srt D [i] (y_repo y) i (NewPolicyScannerService, y_globals y) of
             ((s, g), Some err) \<Rightarrow> (g, Inl (Inl (ScannerFailed err)))
           | ((s, g), None) \<Rightarrow>
               (g, case ScanText W s env clock calls newID t content of Inl err \<Rightarrow> Inl (Inr err) | Inr res \<Rightarrow> Inr res)))"

section \<open>Synchronisation\<close>

record policyResponse =
  px_ID :: string
  px_Name :: string
  px_Type :: string
  px_Content :: string
  px_Version :: int
  px_IsActive :: bool
  px_CreatedAt :: int
  px_UpdatedAt :: int

text \<open>The answer to the request: a transport error, or the status and the decoded body or the decoding error.\<close>

definition fetchActivePolicies :: "(string + int \<times> (string + policyResponse list)) \<Rightarrow> string + policyResponse list" where
  "fetchActivePolicies answer =
     (case answer of
        Inl e \<Rightarrow> Inl e
      | Inr (status, body) \<Rightarrow>
          if status \<noteq> 200 then Inl ''frontend returned status''
          else (case body of Inl e \<Rightarrow> Inl e | Inr ps \<Rightarrow> Inr (filter px_IsActive ps)))"

definition responseEvent :: "uuid \<Rightarrow> policyResponse \<Rightarrow> policyEvent" where
  "responseEvent i x = PolicyActivated i
     \<lparr>po_ID = i, po_Name = px_Name x, po_Version = px_Version x, po_Content = px_Content x, po_Type = px_Type x,
      po_CreatedBy = None, po_CreatedAt = px_CreatedAt x, po_UpdatedAt = px_UpdatedAt x\<rparr> None"

text \<open>
  Each policy is published and handled before the next; one whose identifier does not parse is
  passed over. \<open>parseID\<close> is \<^verbatim>\<open>uuid.Parse\<close>.
\<close>

fun syncLoop :: "'rx world \<Rightarrow> (rulePack list \<Rightarrow> rulePack list) \<Rightarrow> polLib \<Rightarrow> (string \<Rightarrow> uuid option) \<Rightarrow> (nat \<Rightarrow> (uuid \<rightharpoonup> policy) \<Rightarrow> uuid list)
    \<Rightarrow> nat \<Rightarrow> policyResponse list \<Rightarrow> 'rx policySys \<Rightarrow> 'rx policySys" where
  "syncLoop W srt D parseID pick k [] y = y"
| "syncLoop W srt D parseID pick k (x # xs) y =
     (case parseID (px_ID x) of
        None \<Rightarrow> syncLoop W srt D parseID pick k xs y
      | Some i \<Rightarrow>
          (case PublishSync (runHandler W srt D (pick k)) (y_bus y) (responseEvent i x) (y_manager y, y_globals y) of
             ((m, g), _) \<Rightarrow>
               syncLoop W srt D parseID pick (Suc k) xs
                 (y\<lparr>y_manager := m, y_globals := g, y_published := y_published y @ [responseEvent i x]\<rparr>)))"

definition SyncActivePolicies :: "'rx world \<Rightarrow> (rulePack list \<Rightarrow> rulePack list) \<Rightarrow> polLib \<Rightarrow> (string \<Rightarrow> uuid option)
    \<Rightarrow> (nat \<Rightarrow> (uuid \<rightharpoonup> policy) \<Rightarrow> uuid list) \<Rightarrow> string \<Rightarrow> (string + int \<times> (string + policyResponse list))
    \<Rightarrow> 'rx policySys \<Rightarrow> 'rx policySys \<times> string option" where
  "SyncActivePolicies W srt D parseID pick frontendURL answer y =
     (if frontendURL = [] then (y, None)
      else case fetchActivePolicies answer of
             Inl e \<Rightarrow> (y, None)
           | Inr [] \<Rightarrow> (y, None)
           | Inr xs \<Rightarrow> (syncLoop W srt D parseID pick 0 xs y, None))"

text \<open>
  The retry loop of \<^verbatim>\<open>StartPolicySync\<close> over the answers of its attempts, at most three; the
  result says how many attempts were made.
\<close>

fun syncRetries :: "('y \<Rightarrow> 'a \<Rightarrow> 'y \<times> string option) \<Rightarrow> nat \<Rightarrow> 'a list \<Rightarrow> 'y \<Rightarrow> 'y \<times> nat" where
  "syncRetries sync n [] y = (y, n)"
| "syncRetries sync n (a # as) y =
     (if n \<ge> 3 then (y, n)
      else case sync y a of
             (y', None) \<Rightarrow> (y', Suc n)
           | (y', Some _) \<Rightarrow> syncRetries sync (Suc n) as y')"

section \<open>Steps\<close>

text \<open>A goroutine runs: its handler takes the event; an error is only logged.\<close>

definition deliver :: "'rx world \<Rightarrow> (rulePack list \<Rightarrow> rulePack list) \<Rightarrow> polLib \<Rightarrow> ((uuid \<rightharpoonup> policy) \<Rightarrow> uuid list) \<Rightarrow> nat
    \<Rightarrow> 'rx policySys \<Rightarrow> 'rx policySys" where
  "deliver W srt D pick k y =
     (case y_pending y ! k of (h, ev) \<Rightarrow>
        (case runHandler W srt D pick h ev (y_manager y, y_globals y) of
           ((m, g), _) \<Rightarrow>
             y\<lparr>y_manager := m, y_globals := g, y_pending := take k (y_pending y) @ drop (Suc k) (y_pending y)\<rparr>))"

definition startupReload :: "'rx world \<Rightarrow> (rulePack list \<Rightarrow> rulePack list) \<Rightarrow> polLib \<Rightarrow> ((uuid \<rightharpoonup> policy) \<Rightarrow> uuid list)
    \<Rightarrow> 'rx policySys \<Rightarrow> 'rx policySys" where
  "startupReload W srt D pick y =
     (case ReloadActivePolicies W srt D (pick (policies (y_repo y))) (y_repo y) (y_service y, y_globals y) of
        (s, g) \<Rightarrow> y\<lparr>y_service := s, y_globals := g\<rparr>)"

definition validPick :: "((uuid \<rightharpoonup> policy) \<Rightarrow> uuid list) \<Rightarrow> bool" where
  "validPick pick \<longleftrightarrow> (\<forall>m. finite (dom m) \<longrightarrow> iterOrder (pick m) m)"

text \<open>The identifiers in use, which a new one is not among.\<close>

definition usedIds :: "'rx policySys \<Rightarrow> uuid set" where
  "usedIds y = dom (policies (y_repo y)) \<union> dom (ps_active (y_service y)) \<union> dom (ps_active (y_manager y))
     \<union> ev_id ` set (y_published y) \<union> (ev_id \<circ> snd) ` set (y_pending y)"

definition firstOfPolicy :: "nat \<Rightarrow> (handlerName \<times> policyEvent) list \<Rightarrow> bool" where
  "firstOfPolicy k pend \<longleftrightarrow> (\<forall>j < k. ev_id (snd (pend ! j)) \<noteq> ev_id (snd (pend ! k)))"

text \<open>
  The steps of the program. With \<open>orderly\<close> the environment behaves: goroutines for one policy run in
  the order they were started, the start-up reload is over before the first activation, and no
  external policies come in. Nothing in the code ensures this.
\<close>

inductive sysStep :: "bool \<Rightarrow> 'rx world \<Rightarrow> (rulePack list \<Rightarrow> rulePack list) \<Rightarrow> polLib \<Rightarrow> 'rx policySys \<Rightarrow> 'rx policySys \<Rightarrow> bool"
  for orderly W srt D where
  step_create: "pe_new e \<notin> usedIds y \<Longrightarrow> sysStep orderly W srt D y (fst (CreatePolicy e p y))"
| step_update: "sysStep orderly W srt D y (fst (UpdatePolicy e p y))"
| step_delete: "sysStep orderly W srt D y (fst (DeletePolicy i y))"
| step_activate: "validPick (pe_pick e 0) \<Longrightarrow> sysStep orderly W srt D y (fst (ActivatePolicy W srt D e i y))"
| step_deactivate: "validPick (pe_pick e 0) \<Longrightarrow> sysStep orderly W srt D y (fst (DeactivatePolicy W srt D e i y))"
| step_deliver: "k < length (y_pending y) \<Longrightarrow> orderly \<longrightarrow> firstOfPolicy k (y_pending y) \<Longrightarrow> validPick pick \<Longrightarrow>
    sysStep orderly W srt D y (deliver W srt D pick k y)"
| step_startup: "validPick pick \<Longrightarrow> orderly \<longrightarrow> y_published y = [] \<Longrightarrow>
    sysStep orderly W srt D y (startupReload W srt D pick y)"
| step_sync: "\<not> orderly \<Longrightarrow> \<forall>k. validPick (pick k) \<Longrightarrow>
    sysStep orderly W srt D y (fst (SyncActivePolicies W srt D parseID pick url answer y))"

text \<open>The program at its start: the built-in policy stored, nothing active, the manager subscribed.\<close>

definition initSys :: "int \<Rightarrow> int \<Rightarrow> string \<Rightarrow> 'rx globals \<Rightarrow> bool \<Rightarrow> 'rx policySys" where
  "initSys t t' builtin g hasAudit =
     (case NewScannerManager NewEventBus of (m, bus) \<Rightarrow>
        \<lparr>y_repo = NewPolicyRepository t t' builtin, y_service = NewPolicyScannerService, y_manager = m,
         y_globals = g, y_bus = bus, y_pending = [], y_published = [], y_hasAudit = hasAudit, y_audited = []\<rparr>)"

inductive reachableSys :: "bool \<Rightarrow> 'rx world \<Rightarrow> (rulePack list \<Rightarrow> rulePack list) \<Rightarrow> polLib \<Rightarrow> 'rx policySys \<Rightarrow> bool"
  for orderly W srt D where
  reach_start: "reachableSys orderly W srt D (initSys t t' builtin g hasAudit)"
| reach_step: "reachableSys orderly W srt D y \<Longrightarrow> sysStep orderly W srt D y y' \<Longrightarrow> reachableSys orderly W srt D y'"

section \<open>Events that concern one key\<close>

text \<open>
  Events of which each changes one key of a map, and sets it whatever the map was: events of other
  keys can be overtaken, and the last event of a key decides.
\<close>

locale keyed_events =
  fixes key :: "'e \<Rightarrow> 'k" and app :: "('k \<Rightarrow> 'v) \<Rightarrow> 'e \<Rightarrow> 'k \<Rightarrow> 'v"
  assumes app_other: "k \<noteq> key e \<Longrightarrow> app m e k = m k"
    and app_key: "app m e (key e) = app m' e (key e)"
begin

lemma app_commute: "key x \<noteq> key e \<Longrightarrow> app (app m x) e = app (app m e) x"
proof
  fix k
  assume ne: "key x \<noteq> key e"
  consider "k = key e" | "k = key x" | "k \<noteq> key e" "k \<noteq> key x" by blast
  then show "app (app m x) e k = app (app m e) x k"
  proof cases
    case 1
    with ne app_other [of k x "app m e"] app_key [of "app m x" e m] show ?thesis by simp
  next
    case 2
    with ne app_other [of k e "app m x"] app_key [of m x "app m e"] show ?thesis by simp
  qed (simp add: app_other)
qed

lemma overtake:
  "\<forall>x \<in> set xs. key x \<noteq> key e \<Longrightarrow> foldl app m (xs @ e # ys) = foldl app (app m e) (xs @ ys)"
proof (induction xs arbitrary: m)
  case (Cons x xs)
  then have "foldl app (app m x) (xs @ e # ys) = foldl app (app (app m x) e) (xs @ ys)" by simp
  with Cons.prems show ?case by (simp add: app_commute)
qed simp

lemma untouched: "k \<notin> key ` set es \<Longrightarrow> foldl app m es k = m k"
  by (induction es arbitrary: m) (auto simp: app_other)

end

definition applyEv :: "(uuid \<rightharpoonup> policy) \<Rightarrow> policyEvent \<Rightarrow> uuid \<rightharpoonup> policy" where
  "applyEv m ev = (case ev of PolicyActivated i p _ \<Rightarrow> m(i \<mapsto> p) | PolicyDeactivated i _ _ \<Rightarrow> m(i := None))"

interpretation pe: keyed_events ev_id applyEv
  by unfold_locales (auto simp: applyEv_def split: policyEvent.split)

section \<open>What the calls change\<close>

fun handlerFor :: "policyEvent \<Rightarrow> handlerName" where
  "handlerFor (PolicyActivated _ _ _) = HandlePolicyActivated"
| "handlerFor (PolicyDeactivated _ _ _) = HandlePolicyDeactivated"

definition theBus :: "handlerName eventBus" where
  "theBus = \<lparr>eb_handlers = (\<lambda>ty. if ty = ''policy.activated'' then [HandlePolicyActivated]
     else if ty = ''policy.deactivated'' then [HandlePolicyDeactivated] else [])\<rparr>"

lemma NewScannerManager_theBus: "NewScannerManager NewEventBus = (NewPolicyScannerService, theBus)"
  by (auto simp: NewScannerManager_def NewEventBus_def theBus_def Subscribe_def NewPolicyScannerService_def fun_eq_iff)

lemma theBus_handlers: "eb_handlers theBus (eventType ev) = [handlerFor ev]"
  by (cases ev) (simp_all add: theBus_def)

lemma Publish_theBus: "Publish theBus ev = [(handlerFor ev, ev)]"
  by (simp add: Publish_def theBus_handlers)

text \<open>The manager after an event, whichever way it comes.\<close>

definition managerAfter :: "'rx world \<Rightarrow> (rulePack list \<Rightarrow> rulePack list) \<Rightarrow> polLib \<Rightarrow> ((uuid \<rightharpoonup> policy) \<Rightarrow> uuid list) \<Rightarrow> policyEvent
    \<Rightarrow> 'rx policyScanner \<times> 'rx globals \<Rightarrow> 'rx policyScanner \<times> 'rx globals" where
  "managerAfter W srt D pick ev = (\<lambda>(m, g).
     reloadScannerLocked W srt D (pick (applyEv (ps_active m) ev)) (m\<lparr>ps_active := applyEv (ps_active m) ev\<rparr>, g))"

lemma runHandler_for: "runHandler W srt D pick (handlerFor ev) ev mg = (managerAfter W srt D pick ev mg, None)"
  by (cases ev; cases mg)
    (simp_all add: runHandler_def handlePolicyActivated_def handlePolicyDeactivated_def managerAfter_def applyEv_def Let_def)

lemma PublishSync_theBus: "PublishSync (runHandler W srt D pick) theBus ev mg = (managerAfter W srt D pick ev mg, None)"
  by (simp add: PublishSync_def theBus_handlers runHandler_for split: prod.split)

lemma managerAfter_active [simp]: "ps_active (fst (managerAfter W srt D pick ev (m, g))) = applyEv (ps_active m) ev"
  by (simp add: managerAfter_def)

lemma managerAfter_ok:
  assumes "plainDefaults m" "finite (dom (ps_active m))" "validPick pick"
  shows "plainDefaults (fst (managerAfter W srt D pick ev (m, g)))"
    and "inSync W srt D (fst (managerAfter W srt D pick ev (m, g)))"
    and "finite (dom (applyEv (ps_active m) ev))"
proof -
  show fin: "finite (dom (applyEv (ps_active m) ev))"
    using assms(2) by (auto simp: applyEv_def split: policyEvent.split)
  show "plainDefaults (fst (managerAfter W srt D pick ev (m, g)))"
    using assms(1) by (simp add: managerAfter_def plainDefaults_ops)
  show "inSync W srt D (fst (managerAfter W srt D pick ev (m, g)))"
    using assms(1,3) fin by (simp add: managerAfter_def inSync_reload plainDefaults_ops validPick_def)
qed

lemma audit_fields [simp]:
  "y_repo (audit a i y) = y_repo y" "y_service (audit a i y) = y_service y" "y_manager (audit a i y) = y_manager y"
  "y_bus (audit a i y) = y_bus y" "y_pending (audit a i y) = y_pending y" "y_published (audit a i y) = y_published y"
  by (simp_all add: audit_def)

lemma publishEvent_fields [simp]:
  "y_repo (publishEvent ev y) = y_repo y" "y_service (publishEvent ev y) = y_service y"
  "y_manager (publishEvent ev y) = y_manager y" "y_bus (publishEvent ev y) = y_bus y"
  "y_pending (publishEvent ev y) = y_pending y @ Publish (y_bus y) ev"
  "y_published (publishEvent ev y) = y_published y @ [ev]"
  by (simp_all add: publishEvent_def)

definition storeOk :: "policyRepo \<Rightarrow> bool" where
  "storeOk r \<longleftrightarrow> policyKeys r \<and> finite (dom (policies r))"

text \<open>Calls that change the store alone.\<close>

definition storeOnly :: "uuid set \<Rightarrow> 'rx policySys \<Rightarrow> 'rx policySys \<Rightarrow> bool" where
  "storeOnly new y y' \<longleftrightarrow> y_service y' = y_service y \<and> y_manager y' = y_manager y \<and> y_bus y' = y_bus y
     \<and> y_pending y' = y_pending y \<and> y_published y' = y_published y
     \<and> (storeOk (y_repo y) \<longrightarrow> storeOk (y_repo y'))
     \<and> (\<forall>j. policies (y_repo y) j = None \<and> j \<notin> new \<longrightarrow> policies (y_repo y') j = None)"

lemma CreatePolicy_storeOnly: "storeOnly {pe_new e} y (fst (CreatePolicy e p y))"
  by (auto simp: CreatePolicy_def storeOnly_def policyCreate_def storeOk_def policyKeys_def Let_def split: option.split)

lemma UpdatePolicy_storeOnly: "storeOnly {} y (fst (UpdatePolicy e p y))"
  by (auto simp: UpdatePolicy_def storeOnly_def policyUpdate_def storeOk_def policyKeys_def policyGet_def Let_def
      split: option.split)

lemma DeletePolicy_storeOnly: "storeOnly {} y (fst (DeletePolicy i y))"
  by (auto simp: DeletePolicy_def storeOnly_def policyDelete_def storeOk_def policyKeys_def policyGet_def split: option.split)

text \<open>Activating and deactivating: the service's own scanner takes the event at once, the manager later.\<close>

definition eventStep :: "'rx world \<Rightarrow> (rulePack list \<Rightarrow> rulePack list) \<Rightarrow> polLib \<Rightarrow> ((uuid \<rightharpoonup> policy) \<Rightarrow> uuid list) \<Rightarrow> policyEvent
    \<Rightarrow> 'rx policySys \<Rightarrow> 'rx policySys \<Rightarrow> bool" where
  "eventStep W srt D pick ev y y' \<longleftrightarrow>
     y_service y' = fst (managerAfter W srt D pick ev (y_service y, y_globals y))
     \<and> y_manager y' = y_manager y \<and> y_bus y' = y_bus y
     \<and> y_pending y' = y_pending y @ Publish (y_bus y) ev \<and> y_published y' = y_published y @ [ev]
     \<and> storeOk (y_repo y') \<and> dom (policies (y_repo y')) = dom (policies (y_repo y))
     \<and> policies (y_repo y) (ev_id ev) \<noteq> None"

lemma ActivatePolicy_None:
  "policies (y_repo y) i = None \<Longrightarrow> ActivatePolicy W srt D e i y = (y, Some (NotThere (PolicyNotFound i)))"
  "policies (y_repo y) i = None \<Longrightarrow> DeactivatePolicy W srt D e i y = (y, Some (NotThere (PolicyNotFound i)))"
  by (simp_all add: ActivatePolicy_def DeactivatePolicy_def policyGet_def)

lemma ActivatePolicy_Some:
  assumes "storeOk (y_repo y)" "policies (y_repo y) i = Some p0"
  shows "snd (ActivatePolicy W srt D e i y) = None"
    and "eventStep W srt D (pe_pick e 0) (PolicyActivated i (p0\<lparr>po_UpdatedAt := pe_now e\<rparr>) (pe_user e)) y
           (fst (ActivatePolicy W srt D e i y))"
proof -
  let ?p = "p0\<lparr>po_UpdatedAt := pe_now e\<rparr>"
  from assms have i: "po_ID p0 = i" by (simp add: storeOk_def policyKeys_def)
  let ?r = "(y_repo y)\<lparr>policies := (policies (y_repo y))(i \<mapsto> ?p)\<rparr>"
  have u: "policyUpdate ?p (y_repo y) = (?r, None)" using assms(2) i by (simp add: policyUpdate_def)
  have g: "policyGet i (y_repo y) = Inr p0" "policyGet i ?r = Inr ?p" using assms(2) by (simp_all add: policyGet_def)
  obtain s g' where m: "managerAfter W srt D (pe_pick e 0) (PolicyActivated i ?p (pe_user e)) (y_service y, y_globals y) = (s, g')"
    by (meson surj_pair)
  then have sa: "scannerActivatePolicy W srt D (pe_pick e 0 ((ps_active (y_service y))(i \<mapsto> ?p))) ?r i (y_service y, y_globals y)
      = ((s, g'), None)"
    using g(2) by (simp add: scannerActivatePolicy_def managerAfter_def applyEv_def)
  have a: "ActivatePolicy W srt D e i y = (audit ''policy.activate'' i
      (publishEvent (PolicyActivated i ?p (pe_user e)) (y\<lparr>y_repo := ?r, y_service := s, y_globals := g'\<rparr>)), None)"
    unfolding ActivatePolicy_def g(1) Let_def sum.case u prod.case option.case using sa i by simp
  then show "snd (ActivatePolicy W srt D e i y) = None" by simp
  from assms i have "storeOk ?r" by (simp add: storeOk_def policyKeys_def)
  with a m assms(2) show "eventStep W srt D (pe_pick e 0) (PolicyActivated i ?p (pe_user e)) y
      (fst (ActivatePolicy W srt D e i y))"
    by (auto simp: eventStep_def)
qed

lemma DeactivatePolicy_Some:
  assumes "storeOk (y_repo y)" "policies (y_repo y) i = Some p0"
  shows "snd (DeactivatePolicy W srt D e i y) = None"
    and "eventStep W srt D (pe_pick e 0) (PolicyDeactivated i (p0\<lparr>po_UpdatedAt := pe_now e\<rparr>) (pe_user e)) y
           (fst (DeactivatePolicy W srt D e i y))"
proof -
  let ?p = "p0\<lparr>po_UpdatedAt := pe_now e\<rparr>"
  from assms have i: "po_ID p0 = i" by (simp add: storeOk_def policyKeys_def)
  let ?r = "(y_repo y)\<lparr>policies := (policies (y_repo y))(i \<mapsto> ?p)\<rparr>"
  have u: "policyUpdate ?p (y_repo y) = (?r, None)" using assms(2) i by (simp add: policyUpdate_def)
  have g: "policyGet i (y_repo y) = Inr p0" using assms(2) by (simp add: policyGet_def)
  obtain s g' where m: "managerAfter W srt D (pe_pick e 0) (PolicyDeactivated i ?p (pe_user e)) (y_service y, y_globals y) = (s, g')"
    by (meson surj_pair)
  then have sd: "scannerDeactivatePolicy W srt D (pe_pick e 0 ((ps_active (y_service y))(i := None))) i (y_service y, y_globals y)
      = (s, g')"
    by (simp add: scannerDeactivatePolicy_def managerAfter_def applyEv_def)
  have a: "DeactivatePolicy W srt D e i y = (audit ''policy.deactivate'' i
      (publishEvent (PolicyDeactivated i ?p (pe_user e)) (y\<lparr>y_repo := ?r, y_service := s, y_globals := g'\<rparr>)), None)"
    unfolding DeactivatePolicy_def g Let_def sum.case u prod.case option.case using sd i by simp
  then show "snd (DeactivatePolicy W srt D e i y) = None" by simp
  from assms i have "storeOk ?r" by (simp add: storeOk_def policyKeys_def)
  with a m assms(2) show "eventStep W srt D (pe_pick e 0) (PolicyDeactivated i ?p (pe_user e)) y
      (fst (DeactivatePolicy W srt D e i y))"
    by (auto simp: eventStep_def)
qed

text \<open>A goroutine that runs, and a policy that comes in from outside, change the manager alone.\<close>

lemma deliver_for:
  assumes "k < length (y_pending y)" "y_pending y ! k = (handlerFor ev, ev)"
  shows "y_manager (deliver W srt D pick k y) = fst (managerAfter W srt D pick ev (y_manager y, y_globals y))"
    and "y_pending (deliver W srt D pick k y) = take k (y_pending y) @ drop (Suc k) (y_pending y)"
    and "y_service (deliver W srt D pick k y) = y_service y" "y_repo (deliver W srt D pick k y) = y_repo y"
    and "y_bus (deliver W srt D pick k y) = y_bus y" "y_published (deliver W srt D pick k y) = y_published y"
  using assms(2) by (simp_all add: deliver_def runHandler_for split: prod.split)

lemma startup_fields:
  "y_service (startupReload W srt D pick y) =
     fst (ReloadActivePolicies W srt D (pick (policies (y_repo y))) (y_repo y) (y_service y, y_globals y))"
  "y_manager (startupReload W srt D pick y) = y_manager y" "y_repo (startupReload W srt D pick y) = y_repo y"
  "y_bus (startupReload W srt D pick y) = y_bus y" "y_pending (startupReload W srt D pick y) = y_pending y"
  "y_published (startupReload W srt D pick y) = y_published y"
  by (simp_all add: startupReload_def split: prod.split)

section \<open>Invariants\<close>

definition scannerOk :: "'rx world \<Rightarrow> (rulePack list \<Rightarrow> rulePack list) \<Rightarrow> polLib \<Rightarrow> 'rx policyScanner \<Rightarrow> bool" where
  "scannerOk W srt D ps \<longleftrightarrow> plainDefaults ps \<and> finite (dom (ps_active ps)) \<and> inSync W srt D ps"

definition activated :: "policyEvent list \<Rightarrow> (uuid \<rightharpoonup> policy) \<Rightarrow> bool" where
  "activated evs m \<longleftrightarrow> (\<forall>i p. m i = Some p \<longrightarrow> (\<exists>u. PolicyActivated i p u \<in> set evs))"

definition sysInv :: "'rx world \<Rightarrow> (rulePack list \<Rightarrow> rulePack list) \<Rightarrow> polLib \<Rightarrow> 'rx policySys \<Rightarrow> bool" where
  "sysInv W srt D y \<longleftrightarrow> storeOk (y_repo y) \<and> y_bus y = theBus \<and> scannerOk W srt D (y_service y)
     \<and> scannerOk W srt D (y_manager y) \<and> activated (y_published y) (ps_active (y_manager y))
     \<and> (\<forall>x \<in> set (y_pending y). fst x = handlerFor (snd x) \<and> snd x \<in> set (y_published y))"

lemma scannerOk_after:
  assumes "scannerOk W srt D m" "validPick pick"
  shows "scannerOk W srt D (fst (managerAfter W srt D pick ev (m, g)))"
  using assms managerAfter_ok [of m pick] by (simp add: scannerOk_def)

lemma activated_after: "activated evs m \<Longrightarrow> ev \<in> set evs \<Longrightarrow> activated evs (applyEv m ev)"
  by (cases ev) (auto simp: activated_def applyEv_def split: if_splits)

lemma activated_more: "activated evs m \<Longrightarrow> activated (evs @ es) m"
  by (fastforce simp: activated_def)

lemma new_active [simp]: "ps_active NewPolicyScannerService = Map.empty"
  by (simp add: NewPolicyScannerService_def)

lemma sysInv_init: "sysInv W srt D (initSys t t' c g a)"
proof -
  have "scannerOk W srt D NewPolicyScannerService"
    by (simp add: scannerOk_def plainDefaults_ops inSync_new)
  moreover have "storeOk (NewPolicyRepository t t' c)"
    using policyKeys_ops(1) by (simp add: storeOk_def NewPolicyRepository_def)
  ultimately show ?thesis
    by (simp add: sysInv_def initSys_def NewScannerManager_theBus activated_def)
qed

lemma sysInv_storeOnly: "sysInv W srt D y \<Longrightarrow> storeOnly new y y' \<Longrightarrow> sysInv W srt D y'"
  by (simp add: sysInv_def storeOnly_def)

lemma sysInv_eventStep:
  assumes "sysInv W srt D y" "eventStep W srt D pick ev y y'" "validPick pick"
  shows "sysInv W srt D y'"
  using assms scannerOk_after [of W srt D "y_service y" pick ev "y_globals y"]
  by (auto simp: sysInv_def eventStep_def Publish_theBus activated_more)

lemma sysInv_activate:
  assumes "sysInv W srt D y" "validPick (pe_pick e 0)"
  shows "sysInv W srt D (fst (ActivatePolicy W srt D e i y))" "sysInv W srt D (fst (DeactivatePolicy W srt D e i y))"
proof -
  from assms(1) have st: "storeOk (y_repo y)" by (simp add: sysInv_def)
  show "sysInv W srt D (fst (ActivatePolicy W srt D e i y))"
    using assms ActivatePolicy_None(1) [of y i] sysInv_eventStep [OF assms(1) ActivatePolicy_Some(2) [OF st] assms(2)]
    by (cases "policies (y_repo y) i") simp_all
  show "sysInv W srt D (fst (DeactivatePolicy W srt D e i y))"
    using assms ActivatePolicy_None(2) [of y i] sysInv_eventStep [OF assms(1) DeactivatePolicy_Some(2) [OF st] assms(2)]
    by (cases "policies (y_repo y) i") simp_all
qed

lemma pendingAt:
  assumes "sysInv W srt D y" "k < length (y_pending y)"
  obtains ev where "y_pending y ! k = (handlerFor ev, ev)" "ev \<in> set (y_published y)"
  using assms nth_mem [OF assms(2)] that by (metis prod.collapse sysInv_def)

lemma sysInv_deliver:
  assumes inv: "sysInv W srt D y" and k: "k < length (y_pending y)" and "validPick pick"
  shows "sysInv W srt D (deliver W srt D pick k y)"
proof -
  obtain ev where ev: "y_pending y ! k = (handlerFor ev, ev)" "ev \<in> set (y_published y)"
    using pendingAt [OF inv k] .
  have "set (take k (y_pending y) @ drop (Suc k) (y_pending y)) \<subseteq> set (y_pending y)"
    by (auto dest: in_set_takeD in_set_dropD)
  with inv ev(2) scannerOk_after [of W srt D "y_manager y" pick ev "y_globals y"] assms(3)
  show ?thesis by (auto simp: sysInv_def deliver_for [OF k ev(1)] activated_after)
qed

lemma sysInv_startup:
  assumes "sysInv W srt D y" "validPick pick"
  shows "sysInv W srt D (startupReload W srt D pick y)"
proof -
  from assms have "plainDefaults (y_service y)" "policyKeys (y_repo y)" "finite (dom (policies (y_repo y)))"
    by (simp_all add: sysInv_def storeOk_def scannerOk_def)
  moreover from this(3) assms(2) have "iterOrder (pick (policies (y_repo y))) (policies (y_repo y))"
    by (simp add: validPick_def)
  ultimately have "scannerOk W srt D (y_service (startupReload W srt D pick y))"
    by (simp add: scannerOk_def startup_fields plainDefaults_ops ReloadActivePolicies_active inSync_ReloadActive)
  with assms(1) show ?thesis by (simp add: sysInv_def startup_fields)
qed

lemma sysInv_syncLoop:
  "sysInv W srt D y \<Longrightarrow> \<forall>k. validPick (pick k) \<Longrightarrow> sysInv W srt D (syncLoop W srt D parseID pick k xs y)"
proof (induction xs arbitrary: k y)
  case (Cons x xs)
  show ?case
  proof (cases "parseID (px_ID x)")
    case (Some i)
    let ?ev = "responseEvent i x"
    from Cons.prems have bus: "y_bus y = theBus" by (simp add: sysInv_def)
    obtain m g where m: "managerAfter W srt D (pick k) ?ev (y_manager y, y_globals y) = (m, g)" by (meson surj_pair)
    then have mm: "m = fst (managerAfter W srt D (pick k) ?ev (y_manager y, y_globals y))" by simp
    have "sysInv W srt D (y\<lparr>y_manager := m, y_globals := g, y_published := y_published y @ [?ev]\<rparr>)"
      using Cons.prems scannerOk_after [of W srt D "y_manager y" "pick k" ?ev "y_globals y"]
      by (auto simp: sysInv_def mm activated_more intro: activated_after)
    with Cons.IH Cons.prems(2) Some m bus show ?thesis by (simp add: PublishSync_theBus)
  qed (use Cons in simp)
qed simp

lemma sysInv_step:
  assumes "sysStep orderly W srt D y y'" "sysInv W srt D y"
  shows "sysInv W srt D y'"
  using assms
proof cases
  case (step_sync pick parseID url answer)
  then show ?thesis
    using assms(2) sysInv_syncLoop [OF assms(2), of pick]
    by (auto simp: SyncActivePolicies_def simp del: syncLoop.simps split: sum.split list.split)
qed (simp_all add: sysInv_storeOnly [OF _ CreatePolicy_storeOnly] sysInv_storeOnly [OF _ UpdatePolicy_storeOnly]
    sysInv_storeOnly [OF _ DeletePolicy_storeOnly] sysInv_activate sysInv_deliver sysInv_startup)

lemma sysInv_reachable: "reachableSys orderly W srt D y \<Longrightarrow> sysInv W srt D y"
  by (induction rule: reachableSys.induct) (auto intro: sysInv_init sysInv_step)

text \<open>In an orderly run the manager is behind the service by exactly the pending events.\<close>

definition followInv :: "'rx policySys \<Rightarrow> bool" where
  "followInv y \<longleftrightarrow> (\<forall>i \<in> ev_id ` set (y_published y).
     foldl applyEv (ps_active (y_manager y)) (map snd (y_pending y)) i = ps_active (y_service y) i)"

lemma follow_storeOnly: "followInv y \<Longrightarrow> storeOnly new y y' \<Longrightarrow> followInv y'"
  by (simp add: followInv_def storeOnly_def)

lemma follow_eventStep:
  assumes "followInv y" "eventStep W srt D pick ev y y'" "y_bus y = theBus"
  shows "followInv y'"
  unfolding followInv_def
proof
  fix i
  assume i: "i \<in> ev_id ` set (y_published y')"
  let ?m = "foldl applyEv (ps_active (y_manager y)) (map snd (y_pending y))"
  have y': "foldl applyEv (ps_active (y_manager y')) (map snd (y_pending y')) = applyEv ?m ev"
    "ps_active (y_service y') = applyEv (ps_active (y_service y)) ev"
    using assms(2,3) by (simp_all add: eventStep_def Publish_theBus)
  show "foldl applyEv (ps_active (y_manager y')) (map snd (y_pending y')) i = ps_active (y_service y') i"
  proof (cases "i = ev_id ev")
    case True
    then show ?thesis unfolding y' using pe.app_key by blast
  next
    case False
    with i assms(2) have "i \<in> ev_id ` set (y_published y)" by (auto simp: eventStep_def)
    with assms(1) False show ?thesis unfolding y' by (auto simp: pe.app_other followInv_def)
  qed
qed

lemma follow_deliver:
  assumes inv: "sysInv W srt D y" and fol: "followInv y" and k: "k < length (y_pending y)"
    and first: "firstOfPolicy k (y_pending y)"
  shows "followInv (deliver W srt D pick k y)"
proof -
  obtain ev where ev: "y_pending y ! k = (handlerFor ev, ev)" using pendingAt [OF inv k] .
  let ?a = "map snd (take k (y_pending y))" and ?b = "map snd (drop (Suc k) (y_pending y))"
  have "map snd (y_pending y) = ?a @ ev # ?b"
    using id_take_nth_drop [OF k] ev by (metis list.map(2) map_append snd_conv)
  moreover have "\<forall>x \<in> set ?a. ev_id x \<noteq> ev_id ev"
    using first k ev by (fastforce simp: firstOfPolicy_def in_set_conv_nth)
  ultimately have "foldl applyEv (ps_active (y_manager y)) (map snd (y_pending y))
      = foldl applyEv (applyEv (ps_active (y_manager y)) ev) (?a @ ?b)"
    by (simp only: pe.overtake)
  with fol show ?thesis by (simp add: followInv_def deliver_for [OF k ev])
qed

lemma follow_step:
  assumes "sysStep True W srt D y y'" "sysInv W srt D y" "followInv y"
  shows "followInv y'"
proof -
  from assms(2) have st: "storeOk (y_repo y)" and bus: "y_bus y = theBus" by (simp_all add: sysInv_def)
  from assms(1) show ?thesis
  proof cases
    case (step_activate e i)
    then show ?thesis
      using assms(3) ActivatePolicy_None(1) [of y i] follow_eventStep [OF assms(3) ActivatePolicy_Some(2) [OF st] bus]
      by (cases "policies (y_repo y) i") simp_all
  next
    case (step_deactivate e i)
    then show ?thesis
      using assms(3) ActivatePolicy_None(2) [of y i] follow_eventStep [OF assms(3) DeactivatePolicy_Some(2) [OF st] bus]
      by (cases "policies (y_repo y) i") simp_all
  next
    case (step_startup pick)
    then show ?thesis by (simp add: followInv_def startup_fields)
  qed (use assms(2,3) in \<open>simp_all add: follow_storeOnly [OF _ CreatePolicy_storeOnly] follow_storeOnly [OF _ UpdatePolicy_storeOnly]
      follow_storeOnly [OF _ DeletePolicy_storeOnly] follow_deliver\<close>)
qed

lemma follow_reachable:
  "reachableSys True W srt D y \<Longrightarrow> followInv y"
proof (induction rule: reachableSys.induct)
  case (reach_start t t' builtin g hasAudit)
  show ?case by (simp add: followInv_def initSys_def split: prod.split)
next
  case (reach_step y y')
  then show ?case using follow_step sysInv_reachable by blast
qed

lemma follows_settled:
  assumes "reachableSys True W srt D y" "i \<in> ev_id ` set (y_published y)"
    and "\<forall>x \<in> set (y_pending y). ev_id (snd x) \<noteq> i"
  shows "ps_active (y_manager y) i = ps_active (y_service y) i"
proof -
  from assms(3) have "i \<notin> ev_id ` set (map snd (y_pending y))" by auto
  then have "foldl applyEv (ps_active (y_manager y)) (map snd (y_pending y)) i = ps_active (y_manager y) i"
    by (rule pe.untouched)
  with follow_reachable [OF assms(1)] assms(2) show ?thesis by (auto simp: followInv_def)
qed

text \<open>
  What is left to run does run: goroutines that are under way run, those of one policy in order,
  until none of policy \<open>i\<close> is left.
\<close>

definition runsOne :: "'rx world \<Rightarrow> (rulePack list \<Rightarrow> rulePack list) \<Rightarrow> polLib \<Rightarrow> 'rx policySys \<Rightarrow> 'rx policySys \<Rightarrow> bool" where
  "runsOne W srt D y y' \<longleftrightarrow>
     (\<exists>k pick. k < length (y_pending y) \<and> firstOfPolicy k (y_pending y) \<and> validPick pick \<and> y' = deliver W srt D pick k y)"

definition settles :: "'rx world \<Rightarrow> (rulePack list \<Rightarrow> rulePack list) \<Rightarrow> polLib \<Rightarrow> uuid \<Rightarrow> 'rx policySys \<Rightarrow> 'rx policySys \<Rightarrow> bool" where
  "settles W srt D i y y' \<longleftrightarrow> (runsOne W srt D)\<^sup>*\<^sup>* y y' \<and> (\<forall>x \<in> set (y_pending y'). ev_id (snd x) \<noteq> i)"

lemma runsOne_keeps:
  assumes "runsOne W srt D y y'" "reachableSys True W srt D y"
  shows "reachableSys True W srt D y'" "y_service y' = y_service y" "y_repo y' = y_repo y" "y_published y' = y_published y"
proof -
  obtain k pick where k: "k < length (y_pending y)" "firstOfPolicy k (y_pending y)" "validPick pick" "y' = deliver W srt D pick k y"
    using assms(1) unfolding runsOne_def by blast
  show "reachableSys True W srt D y'" using k assms(2) by (auto intro: reach_step step_deliver)
  obtain ev where "y_pending y ! k = (handlerFor ev, ev)" using pendingAt [OF sysInv_reachable [OF assms(2)] k(1)] .
  from deliver_for(3,4,6) [OF k(1) this] k(4)
  show "y_service y' = y_service y" "y_repo y' = y_repo y" "y_published y' = y_published y" by simp_all
qed

lemma settles_keeps:
  assumes "settles W srt D i y y'" "reachableSys True W srt D y"
  shows "reachableSys True W srt D y'" "y_service y' = y_service y" "y_repo y' = y_repo y" "y_published y' = y_published y"
proof -
  have "(runsOne W srt D)\<^sup>*\<^sup>* y y'" using assms(1) by (simp add: settles_def)
  then have "reachableSys True W srt D y' \<and> y_service y' = y_service y \<and> y_repo y' = y_repo y \<and> y_published y' = y_published y"
  proof (induction rule: rtranclp_induct)
    case (step u w)
    with runsOne_keeps [OF step.hyps(2)] show ?case by simp
  qed (simp add: assms(2))
  then show "reachableSys True W srt D y'" "y_service y' = y_service y" "y_repo y' = y_repo y" "y_published y' = y_published y" by simp_all
qed

lemma settled_manager:
  assumes "settles W srt D i y y'" "reachableSys True W srt D y" "i \<in> ev_id ` set (y_published y)"
  shows "ps_active (y_manager y') i = ps_active (y_service y) i" "inSync W srt D (y_manager y')"
proof -
  note k = settles_keeps [OF assms(1,2)]
  show "ps_active (y_manager y') i = ps_active (y_service y) i"
    using follows_settled [OF k(1)] k(2,4) assms(1,3) by (simp add: settles_def)
  show "inSync W srt D (y_manager y')" using sysInv_reachable [OF k(1)] by (simp add: sysInv_def scannerOk_def)
qed

lemma settles_total: "\<exists>y'. settles W srt D i y y'"
proof (induction "length (y_pending y)" arbitrary: y)
  case 0
  then show ?case by (auto simp: settles_def)
next
  case (Suc n)
  let ?pick = "\<lambda>m. sorted_list_of_set (dom m)"
  let ?y = "deliver W srt D ?pick 0 y"
  have "runsOne W srt D y ?y"
    unfolding runsOne_def using Suc.hyps(2)
    by (intro exI [of _ 0] exI [of _ ?pick]) (auto simp: firstOfPolicy_def validPick_def iterOrder_def)
  moreover have "n = length (y_pending ?y)" using Suc.hyps(2) by (auto simp: deliver_def split: prod.split)
  then obtain y' where "settles W srt D i ?y y'" using Suc.hyps(1) by blast
  ultimately show ?case unfolding settles_def by (meson converse_rtranclp_into_rtranclp)
qed

text \<open>A policy that the manager has and the store has not.\<close>

definition zombie :: "uuid \<Rightarrow> policy \<Rightarrow> 'rx policySys \<Rightarrow> bool" where
  "zombie i p y \<longleftrightarrow> policies (y_repo y) i = None \<and> ps_active (y_manager y) i = Some p
     \<and> (\<forall>x \<in> set (y_pending y). ev_id (snd x) \<noteq> i)"

lemma zombie_storeOnly: "zombie i p y \<Longrightarrow> storeOnly new y y' \<Longrightarrow> i \<notin> new \<Longrightarrow> zombie i p y'"
  by (simp add: zombie_def storeOnly_def)

lemma zombie_eventStep:
  assumes "zombie i p y" "eventStep W srt D pick ev y y'" "y_bus y = theBus"
  shows "zombie i p y'"
proof -
  from assms have "ev_id ev \<noteq> i" by (auto simp: zombie_def eventStep_def)
  moreover from assms have "policies (y_repo y') i = None" by (auto simp: zombie_def eventStep_def domIff)
  ultimately show ?thesis using assms by (auto simp: zombie_def eventStep_def Publish_theBus)
qed

lemma zombie_step:
  assumes "sysStep True W srt D y y'" "sysInv W srt D y" "zombie i p y"
  shows "zombie i p y'"
proof -
  from assms(2) have st: "storeOk (y_repo y)" and bus: "y_bus y = theBus" by (simp_all add: sysInv_def)
  from assms(1) show ?thesis
  proof cases
    case (step_create e q)
    with assms(3) have "i \<noteq> pe_new e" by (auto simp: usedIds_def zombie_def)
    with assms(3) step_create show ?thesis using zombie_storeOnly [OF _ CreatePolicy_storeOnly] by blast
  next
    case (step_activate e j)
    then show ?thesis
      using assms(3) ActivatePolicy_None(1) [of y j] zombie_eventStep [OF assms(3) ActivatePolicy_Some(2) [OF st] bus]
      by (cases "policies (y_repo y) j") simp_all
  next
    case (step_deactivate e j)
    then show ?thesis
      using assms(3) ActivatePolicy_None(2) [of y j] zombie_eventStep [OF assms(3) DeactivatePolicy_Some(2) [OF st] bus]
      by (cases "policies (y_repo y) j") simp_all
  next
    case (step_deliver k pick)
    obtain ev where ev: "y_pending y ! k = (handlerFor ev, ev)" using pendingAt [OF assms(2) step_deliver(2)] .
    have "(handlerFor ev, ev) \<in> set (y_pending y)" using ev nth_mem [OF step_deliver(2)] by simp
    with assms(3) have "i \<noteq> ev_id ev" by (auto simp: zombie_def)
    with assms(3) step_deliver(1) show ?thesis
      by (auto simp: zombie_def deliver_for [OF step_deliver(2) ev] pe.app_other dest: in_set_takeD in_set_dropD)
  next
    case (step_startup pick)
    with assms(3) show ?thesis by (simp add: zombie_def startup_fields)
  qed (use assms(3) in \<open>simp_all add: zombie_storeOnly [OF _ UpdatePolicy_storeOnly] zombie_storeOnly [OF _ DeletePolicy_storeOnly]\<close>)
qed

section \<open>Properties\<close>


text \<open>
  Whatever the order of deliveries, start-up and synchronisation: the rules in force in the
  manager are those of its active policies, and it has no policy that was not announced as active,
  in the version that was announced.
\<close>

theorem manager_enforces_activated:
  assumes "reachableSys orderly W srt D y"
  shows "inSync W srt D (y_manager y)
    \<and> (\<forall>i p. ps_active (y_manager y) i = Some p \<longrightarrow> (\<exists>u. PolicyActivated i p u \<in> set (y_published y)))"
  using sysInv_reachable [OF assms] by (simp add: sysInv_def scannerOk_def activated_def)

definition someEnv :: polEnv where
  "someEnv = \<lparr>pe_now = 7, pe_new = 1, pe_user = None, pe_invalid = (\<lambda>_. None),
     pe_pick = (\<lambda>_ m. sorted_list_of_set (dom m))\<rparr>"

lemma someEnv_valid: "validPick (pe_pick someEnv k)"
  by (simp add: someEnv_def validPick_def iterOrder_def)

text \<open>
  The goroutines of two events can run in either order: from every state without waiting events,
  activating and deactivating a stored policy can end with the policy inactive in the service and
  enforced by the manager, with nothing left that would change it.
\<close>

theorem policy_event_race:
  assumes "reachableSys False W srt D y" "y_pending y = []" "policies (y_repo y) i = Some p"
  shows "\<exists>y'. reachableSys False W srt D y' \<and> y_pending y' = []
    \<and> ps_active (y_service y') i = None \<and> ps_active (y_manager y') i \<noteq> None"
proof -
  let ?e = "someEnv" and ?pick = "pe_pick someEnv 0"
  from sysInv_reachable [OF assms(1)] have st: "storeOk (y_repo y)" and bus: "y_bus y = theBus"
    by (simp_all add: sysInv_def)
  define y1 where "y1 = fst (ActivatePolicy W srt D ?e i y)"
  define a where "a = PolicyActivated i (p\<lparr>po_UpdatedAt := pe_now ?e\<rparr>) (pe_user ?e)"
  have e1: "eventStep W srt D ?pick a y y1" using ActivatePolicy_Some(2) [OF st assms(3)] by (simp add: y1_def a_def)
  then have st1: "storeOk (y_repo y1)" and p1: "y_pending y1 = [(handlerFor a, a)]" and bus1: "y_bus y1 = theBus"
    using assms(2) bus by (simp_all add: eventStep_def Publish_theBus)
  from e1 assms(3) obtain q where q: "policies (y_repo y1) i = Some q" by (auto simp: eventStep_def)
  define y2 where "y2 = fst (DeactivatePolicy W srt D ?e i y1)"
  define d where "d = PolicyDeactivated i (q\<lparr>po_UpdatedAt := pe_now ?e\<rparr>) (pe_user ?e)"
  have e2: "eventStep W srt D ?pick d y1 y2" using DeactivatePolicy_Some(2) [OF st1 q] by (simp add: y2_def d_def)
  then have p2: "y_pending y2 = [(handlerFor a, a), (handlerFor d, d)]" and s2: "ps_active (y_service y2) i = None"
    using p1 bus1 by (simp_all add: eventStep_def Publish_theBus) (simp add: applyEv_def d_def)
  define y3 where "y3 = deliver W srt D ?pick 1 y2"
  have p3: "y_pending y3 = [(handlerFor a, a)]" and s3: "y_service y3 = y_service y2"
    using p2 deliver_for [of 1 y2 d] by (simp_all add: y3_def)
  define y4 where "y4 = deliver W srt D ?pick 0 y3"
  have "y_pending y4 = []" "y_service y4 = y_service y2" "ps_active (y_manager y4) i \<noteq> None"
    using p3 s3 deliver_for [of 0 y3 a] by (simp_all add: y4_def) (simp add: applyEv_def a_def)
  moreover have "reachableSys False W srt D y4"
  proof -
    have "sysStep False W srt D y y1" unfolding y1_def by (rule step_activate) (rule someEnv_valid)
    moreover have "sysStep False W srt D y1 y2" unfolding y2_def by (rule step_deactivate) (rule someEnv_valid)
    moreover have "sysStep False W srt D y2 y3"
      unfolding y3_def by (rule step_deliver) (simp_all add: p2 someEnv_valid)
    moreover have "sysStep False W srt D y3 y4"
      unfolding y4_def by (rule step_deliver) (simp_all add: p3 someEnv_valid)
    ultimately show ?thesis using assms(1) reach_step by metis
  qed
  ultimately show ?thesis using s2 by metis
qed

text \<open>
  Deleting an active policy does not end its enforcement, and then nothing of the service can:
  the manager keeps it through every later orderly run, and a request to deactivate it fails
  because the policy is not found.
\<close>

theorem deleted_policy_enforced:
  assumes "reachableSys True W srt D y" "ps_active (y_manager y) i = Some p"
    and "\<forall>x \<in> set (y_pending y). ev_id (snd x) \<noteq> i"
    and "(sysStep True W srt D)\<^sup>*\<^sup>* (fst (DeletePolicy i y)) y'" "policies (y_repo y) i \<noteq> None"
  shows "ps_active (y_manager y') i = Some p \<and> snd (DeactivatePolicy W srt D e i y') = Some (NotThere (PolicyNotFound i))"
proof -
  have "policies (y_repo (fst (DeletePolicy i y))) i = None"
    using assms(5) by (auto simp: DeletePolicy_def policyGet_def policyDelete_def)
  then have z: "zombie i p (fst (DeletePolicy i y))"
    using assms(2,3) DeletePolicy_storeOnly [of y i] by (simp add: zombie_def storeOnly_def)
  have inv: "sysInv W srt D (fst (DeletePolicy i y))"
    using sysInv_reachable [OF assms(1)] DeletePolicy_storeOnly by (rule sysInv_storeOnly)
  from assms(4) have "sysInv W srt D y' \<and> zombie i p y'"
    by (induction rule: rtranclp_induct) (use z inv sysInv_step zombie_step in \<open>blast+\<close>)
  then show ?thesis by (simp add: zombie_def ActivatePolicy_None)
qed

text \<open>
  The synchronisation reports no error whatever the answer, so the retry loop makes one attempt.
\<close>

theorem sync_never_retries:
  "syncRetries (\<lambda>y a. SyncActivePolicies W srt D parseID pick url a y) 0 (a # as) y
   = (fst (SyncActivePolicies W srt D parseID pick url a y), 1)"
proof -
  have "snd (SyncActivePolicies W srt D parseID pick url a y) = None"
    by (auto simp: SyncActivePolicies_def split: sum.split list.split)
  then show ?thesis by (simp add: split_def)
qed

text \<open>
  After the start-up reload the service has every stored policy active, and the manager, which
  enforces, has none: the reload publishes nothing.
\<close>

theorem startup_not_enforced:
  assumes "validPick pick"
  shows "HasActivePolicies (y_service (startupReload W srt D pick (initSys t t' c g a)))
    \<and> \<not> HasActivePolicies (y_manager (startupReload W srt D pick (initSys t t' c g a)))"
proof -
  let ?r = "NewPolicyRepository t t' c"
  have keys: "policyKeys ?r" by (rule policyKeys_ops)
  have ord: "iterOrder (pick (policies ?r)) (policies ?r)"
    using assms by (simp add: validPick_def NewPolicyRepository_def)
  have "policies ?r \<noteq> Map.empty" by (simp add: NewPolicyRepository_def)
  then show ?thesis
    by (simp add: HasActivePolicies_def startup_fields initSys_def NewScannerManager_theBus
        ReloadActivePolicies_active [OF keys ord])
qed

section \<open>A run\<close>

text \<open>The built-in policy is activated and the event delivered.\<close>

definition demoLib :: polLib where
  "demoLib = \<lparr>pl_decode = (\<lambda>_. Inl ''not yaml''), pl_decodeRules = (\<lambda>_. Inl ''not yaml''), pl_idText = (\<lambda>_. ''550e8400'')\<rparr>"

definition demoStart :: "string policySys" where
  "demoStart = initSys 0 0 ''rules'' initGlobals True"

definition demoActive :: "string policySys" where
  "demoActive = fst (ActivatePolicy litWorld id demoLib someEnv builtinPolicyID demoStart)"

definition demoDelivered :: "string policySys" where
  "demoDelivered = deliver litWorld id demoLib (pe_pick someEnv 0) 0 demoActive"

lemma demoStart_facts:
  "reachableSys orderly litWorld id demoLib demoStart" "y_pending demoStart = []"
  "policies (y_repo demoStart) builtinPolicyID \<noteq> None" "storeOk (y_repo demoStart)" "y_bus demoStart = theBus"
  using reach_start [of orderly litWorld id demoLib 0 0 "''rules''" initGlobals True]
    sysInv_init [of litWorld id demoLib 0 0 "''rules''" initGlobals True]
  by (simp_all add: demoStart_def sysInv_def) (simp_all add: initSys_def NewScannerManager_theBus NewPolicyRepository_def)

lemma demoDelivered_facts:
  "reachableSys True litWorld id demoLib demoDelivered"
  "y_pending demoDelivered = []" "builtinPolicyID \<in> ev_id ` set (y_published demoDelivered)"
  "ps_active (y_manager demoDelivered) builtinPolicyID \<noteq> None" "policies (y_repo demoDelivered) builtinPolicyID \<noteq> None"
proof -
  from demoStart_facts(3) obtain p where p: "policies (y_repo demoStart) builtinPolicyID = Some p" by blast
  let ?ev = "PolicyActivated builtinPolicyID (p\<lparr>po_UpdatedAt := pe_now someEnv\<rparr>) (pe_user someEnv)"
  have e: "eventStep litWorld id demoLib (pe_pick someEnv 0) ?ev demoStart demoActive"
    using ActivatePolicy_Some(2) [OF demoStart_facts(4) p] by (simp add: demoActive_def)
  then have pend: "y_pending demoActive = [(handlerFor ?ev, ?ev)]" and pub: "?ev \<in> set (y_published demoActive)"
    using demoStart_facts by (simp_all add: eventStep_def Publish_theBus)
  have pk: "y_pending demoActive ! 0 = (handlerFor ?ev, ?ev)" using pend by simp
  note d = deliver_for [of 0 demoActive ?ev litWorld id demoLib "pe_pick someEnv 0", folded demoDelivered_def]
  have "sysStep True litWorld id demoLib demoStart demoActive"
    unfolding demoActive_def by (rule step_activate) (rule someEnv_valid)
  moreover have "sysStep True litWorld id demoLib demoActive demoDelivered"
    unfolding demoDelivered_def by (rule step_deliver) (simp_all add: pend firstOfPolicy_def someEnv_valid)
  ultimately show "reachableSys True litWorld id demoLib demoDelivered"
    using demoStart_facts(1) reach_step by metis
  show "y_pending demoDelivered = []" using d(2) pk pend by simp
  show "builtinPolicyID \<in> ev_id ` set (y_published demoDelivered)" using d(6) pk pend pub by force
  show "ps_active (y_manager demoDelivered) builtinPolicyID \<noteq> None"
    using d(1) pk pend by (simp add: applyEv_def)
  show "policies (y_repo demoDelivered) builtinPolicyID \<noteq> None"
    using d(4) pk pend e p by (auto simp: eventStep_def)
qed


theorem manager_enforces_activated_witness:
  "inSync litWorld id demoLib (y_manager demoDelivered)"
  using manager_enforces_activated [OF demoDelivered_facts(1)] by simp

theorem policy_event_race_witness:
  "\<exists>y. reachableSys False litWorld id demoLib y \<and> y_pending y = []
     \<and> ps_active (y_service y) builtinPolicyID = None \<and> ps_active (y_manager y) builtinPolicyID \<noteq> None"
  using policy_event_race [OF demoStart_facts(1,2)] demoStart_facts(3) by blast

theorem deleted_policy_enforced_witness:
  "ps_active (y_manager (fst (DeletePolicy builtinPolicyID demoDelivered))) builtinPolicyID \<noteq> None
   \<and> policies (y_repo demoDelivered) builtinPolicyID \<noteq> None"
proof -
  from demoDelivered_facts(4) obtain p where "ps_active (y_manager demoDelivered) builtinPolicyID = Some p" by blast
  from deleted_policy_enforced [OF demoDelivered_facts(1) this _ rtranclp.rtrancl_refl demoDelivered_facts(5)]
    demoDelivered_facts(2,5)
  show ?thesis by simp
qed

end
