(* ===== verification/Go_Any.thy ===== *)
theory Go_Any
  imports Go_Prelude
begin

text \<open>
  Dynamic values: what \<^verbatim>\<open>map[string]interface{}\<close> fields carry as far as the code tells values
  apart. A Go map is a list of entries with distinct keys, in the iteration order of the moment.
\<close>

datatype goAny =
    AnyString string
  | AnyMap "(string \<times> goAny) list"
  | AnyList "goAny list"
  | AnyStrings "string list"
  | AnyOther string

text \<open>The type assertion \<^verbatim>\<open>v.(string)\<close> on an entry of a map.\<close>

fun asString :: "goAny option \<Rightarrow> string option" where
  "asString (Some (AnyString s)) = Some s"
| "asString _ = None"

lemma asString_Some_iff: "asString v = Some s \<longleftrightarrow> v = Some (AnyString s)"
  by (cases v rule: asString.cases) auto

end
