(* ===== verification/Transitions.thy ===== *)
theory Transitions
  imports Main
begin

text \<open>
  What the step relations of the components share: an invariant along runs, and a further property
  that steps keep wherever the invariant holds.
\<close>

locale step_invariant =
  fixes step :: "'s \<Rightarrow> 's \<Rightarrow> bool"
    and inv :: "'s \<Rightarrow> bool"
  assumes inv_step: "\<lbrakk>inv s; step s s'\<rbrakk> \<Longrightarrow> inv s'"
begin

lemma inv_run: "step\<^sup>*\<^sup>* s s' \<Longrightarrow> inv s \<Longrightarrow> inv s'"
  by (induction rule: rtranclp_induct) (auto intro: inv_step)

end

locale kept_property = step_invariant +
  fixes kept :: "'s \<Rightarrow> bool"
  assumes kept_step: "\<lbrakk>inv s; kept s; step s s'\<rbrakk> \<Longrightarrow> kept s'"
begin

lemma kept_run: "step\<^sup>*\<^sup>* s s' \<Longrightarrow> inv s \<Longrightarrow> kept s \<Longrightarrow> kept s'"
  by (induction rule: rtranclp_induct) (auto intro: kept_step inv_run)

end

text \<open>
  A measure that every step lowers bounds the length of runs.
\<close>

locale bounded_run = step_invariant +
  fixes effort :: "'s \<Rightarrow> nat"
  assumes effort_step: "\<lbrakk>inv s; step s s'\<rbrakk> \<Longrightarrow> effort s' < effort s"
begin

lemma run_bound: "(step ^^ n) s s' \<Longrightarrow> inv s \<Longrightarrow> n + effort s' \<le> effort s"
proof (induction n arbitrary: s')
  case (Suc n)
  then obtain u where u: "(step ^^ n) s u" "step u s'" by auto
  then have "inv u" using Suc.prems(2) by (metis inv_run relpowp_imp_rtranclp)
  with Suc.IH [OF u(1) Suc.prems(2)] effort_step [OF _ u(2)] show ?case by simp
qed simp

lemma run_ends: "inv s \<Longrightarrow> \<exists>s'. step\<^sup>*\<^sup>* s s' \<and> \<not> (\<exists>u. step s' u)"
proof (induction "effort s" arbitrary: s rule: less_induct)
  case less
  show ?case
  proof (cases "\<exists>u. step s u")
    case True
    then obtain u where u: "step s u" by blast
    with less.prems have "inv u" "effort u < effort s" by (auto intro: inv_step effort_step)
    then obtain v where "step\<^sup>*\<^sup>* u v" "\<not> (\<exists>x. step v x)" using less.hyps by blast
    with u show ?thesis by (meson converse_rtranclp_into_rtranclp)
  qed auto
qed

end

end
