(* ===== verification/Jobs.thy ===== *)
theory Jobs
  imports Go_Any Transitions
begin

text \<open>
  The job manager of \<^verbatim>\<open>internal/jobs/manager.go\<close>. The manager's mutex makes \<open>Submit\<close>,
  \<open>Cancel\<close>, \<open>CleanupCompleted\<close> and the two critical sections of \<open>processJob\<close> atomic; between
  these, workers interleave freely. The first part has the operations, the second the steps of the
  workers and their environment, the rest the invariant and what follows from it. Processors are
  behind an interface of the source, so the type of a processor and the outcomes it may have are
  parameters of the steps. The queue behind \<open>DurableQueue\<close> is outside: the outcome of an enqueue is
  an argument, and its consumers may be handed any identifier, any number of times.
\<close>

section \<open>Jobs and operations\<close>

datatype jobStatus =
  JobStatusPending | JobStatusRunning | JobStatusCompleted | JobStatusFailed | JobStatusCancelled

record job =
  j_ID :: string
  j_Type :: string
  j_Status :: jobStatus
  j_Input :: string
  j_Result :: string
  j_Error :: string
  j_CreatedAt :: int
  j_StartedAt :: "int option"
  j_CompletedAt :: "int option"
  j_Progress :: int
  j_Metadata :: "string \<rightharpoonup> goAny"

datatype jobErr =
    NoProcessor string
  | EnqueueFailed string
  | QueueFull
  | JobNotFound string
  | CannotCancel jobStatus

text \<open>
  A worker waits for the next identifier, has received one, is in the processor with its copy of the
  job, or has returned.
\<close>

datatype 'p worker = Waiting | Received string | Processing string job 'p | Exited

text \<open>
  \<open>jm_ids\<close> and \<open>jm_runs\<close> record the identifiers ever given out and the jobs handed to a processor.
  A closed channel is a flag. \<open>jm_pool\<close> has the goroutines started by \<^verbatim>\<open>Start\<close>.
\<close>

record 'p manager =
  jm_jobs :: "string \<rightharpoonup> job"
  jm_queue :: "string list"
  jm_processors :: "string \<rightharpoonup> 'p"
  jm_workers :: nat
  jm_shutdown :: bool
  jm_done :: bool
  jm_durable :: bool
  jm_pool :: "nat \<rightharpoonup> 'p worker"
  jm_ids :: "string set"
  jm_runs :: "string list"

definition queueCap :: nat where
  "queueCap = 1000"

definition NewManager :: "int \<Rightarrow> 'p manager" where
  "NewManager workers =
     \<lparr>jm_jobs = Map.empty, jm_queue = [], jm_processors = Map.empty,
      jm_workers = nat (if workers \<le> 0 then 2 else workers), jm_shutdown = False, jm_done = False,
      jm_durable = False, jm_pool = Map.empty, jm_ids = {}, jm_runs = []\<rparr>"

definition WithDurable :: "'p manager \<Rightarrow> 'p manager" where
  "WithDurable m = m\<lparr>jm_durable := True\<rparr>"

definition RegisterProcessor :: "string \<Rightarrow> 'p \<Rightarrow> 'p manager \<Rightarrow> 'p manager" where
  "RegisterProcessor typ p m = m\<lparr>jm_processors := (jm_processors m)(typ \<mapsto> p)\<rparr>"

text \<open>Both kinds of \<^verbatim>\<open>Start\<close> run as many loops as there are workers.\<close>

definition Start :: "'p manager \<Rightarrow> 'p manager" where
  "Start m = m\<lparr>jm_pool := (\<lambda>w. if w < jm_workers m then Some Waiting else None)\<rparr>"

definition newJob :: "string \<Rightarrow> int \<Rightarrow> string \<Rightarrow> string \<Rightarrow> (string \<rightharpoonup> goAny) \<Rightarrow> job" where
  "newJob jobID t jobType input metadata =
     \<lparr>j_ID = jobID, j_Type = jobType, j_Status = JobStatusPending, j_Input = input, j_Result = [],
      j_Error = [], j_CreatedAt = t, j_StartedAt = None, j_CompletedAt = None, j_Progress = 0,
      j_Metadata = metadata\<rparr>"

text \<open>\<open>enq\<close> is the error of the durable queue's \<^verbatim>\<open>Enqueue\<close>, if any.\<close>

definition Submit :: "string \<Rightarrow> int \<Rightarrow> string option \<Rightarrow> string \<Rightarrow> string \<Rightarrow> (string \<rightharpoonup> goAny) \<Rightarrow> 'p manager
    \<Rightarrow> 'p manager \<times> string \<times> jobErr option" where
  "Submit jobID t enq jobType input metadata m =
     (if jm_processors m jobType = None then (m, [], Some (NoProcessor jobType))
      else
        let job = newJob jobID t jobType input metadata;
            store = (\<lambda>j. m\<lparr>jm_jobs := (jm_jobs m)(jobID \<mapsto> j), jm_ids := insert jobID (jm_ids m)\<rparr>)
        in if jm_durable m then
             (case enq of
                Some e \<Rightarrow> (store (job\<lparr>j_Status := JobStatusFailed, j_Error := ''enqueue failed: '' @ e\<rparr>), jobID,
                            Some (EnqueueFailed e))
              | None \<Rightarrow> (store job, jobID, None))
           else if length (jm_queue m) < queueCap
           then ((store job)\<lparr>jm_queue := jm_queue m @ [jobID]\<rparr>, jobID, None)
           else (store (job\<lparr>j_Status := JobStatusFailed, j_Error := ''job queue is full''\<rparr>), jobID, Some QueueFull))"

definition GetJob :: "string \<Rightarrow> 'p manager \<Rightarrow> jobErr + job" where
  "GetJob jobID m = (case jm_jobs m jobID of None \<Rightarrow> Inl (JobNotFound jobID) | Some j \<Rightarrow> Inr j)"

text \<open>The empty status lists all jobs; \<open>order\<close> is the iteration order of the map.\<close>

definition ListJobs :: "string list \<Rightarrow> jobStatus option \<Rightarrow> 'p manager \<Rightarrow> job list" where
  "ListJobs order status m =
     filter (\<lambda>j. status = None \<or> status = Some (j_Status j)) (List.map_filter (jm_jobs m) order)"

definition Cancel :: "int \<Rightarrow> string \<Rightarrow> 'p manager \<Rightarrow> 'p manager \<times> jobErr option" where
  "Cancel t jobID m =
     (case jm_jobs m jobID of
        None \<Rightarrow> (m, Some (JobNotFound jobID))
      | Some j \<Rightarrow>
          if j_Status j = JobStatusCompleted \<or> j_Status j = JobStatusFailed
          then (m, Some (CannotCancel (j_Status j)))
          else (m\<lparr>jm_jobs := (jm_jobs m)(jobID \<mapsto>
                   j\<lparr>j_Status := JobStatusCancelled, j_CompletedAt := Some t, j_Error := ''cancelled by user''\<rparr>)\<rparr>,
                None))"

definition setWorker :: "nat \<Rightarrow> 'p worker \<Rightarrow> 'p manager \<Rightarrow> 'p manager" where
  "setWorker w s m = m\<lparr>jm_pool := (jm_pool m)(w \<mapsto> s)\<rparr>"

text \<open>The first critical section of \<^verbatim>\<open>processJob\<close>, up to the call of the processor.\<close>

definition beginJob :: "int \<Rightarrow> nat \<Rightarrow> string \<Rightarrow> 'p manager \<Rightarrow> 'p manager" where
  "beginJob t w jobID m =
     (case jm_jobs m jobID of
        None \<Rightarrow> setWorker w Waiting m
      | Some j \<Rightarrow>
          if j_Status j \<noteq> JobStatusPending then setWorker w Waiting m
          else case jm_processors m (j_Type j) of
                 None \<Rightarrow> setWorker w Waiting (m\<lparr>jm_jobs := (jm_jobs m)(jobID \<mapsto>
                           j\<lparr>j_Status := JobStatusFailed, j_Error := ''no processor for job type: '' @ j_Type j,
                             j_CompletedAt := Some t\<rparr>)\<rparr>)
               | Some p \<Rightarrow>
                   (let j' = j\<lparr>j_Status := JobStatusRunning, j_StartedAt := Some t\<rparr>
                    in setWorker w (Processing jobID j' p)
                         (m\<lparr>jm_jobs := (jm_jobs m)(jobID \<mapsto> j'), jm_runs := jm_runs m @ [jobID]\<rparr>)))"

text \<open>
  The second one, with the copy the processor leaves and its error. A job that was removed meanwhile
  is reachable only through the worker's pointer, so writing to it changes nothing.
\<close>

definition endJob :: "int \<Rightarrow> nat \<Rightarrow> string \<Rightarrow> job \<Rightarrow> string option \<Rightarrow> 'p manager \<Rightarrow> 'p manager" where
  "endJob t w jobID work err m =
     setWorker w Waiting
       (case jm_jobs m jobID of
          None \<Rightarrow> m
        | Some j \<Rightarrow>
            if j_Status j = JobStatusCancelled then m
            else
              let j1 = j\<lparr>j_Result := j_Result work, j_Progress := j_Progress work, j_CompletedAt := Some t\<rparr>
              in m\<lparr>jm_jobs := (jm_jobs m)(jobID \<mapsto>
                    (case err of
                       Some e \<Rightarrow> j1\<lparr>j_Status := JobStatusFailed, j_Error := e\<rparr>
                     | None \<Rightarrow> j1\<lparr>j_Status := JobStatusCompleted, j_Progress := 100\<rparr>))\<rparr>)"

definition expired :: "int \<Rightarrow> job \<Rightarrow> bool" where
  "expired cutoff j \<longleftrightarrow>
     (j_Status j = JobStatusCompleted \<or> j_Status j = JobStatusFailed \<or> j_Status j = JobStatusCancelled)
     \<and> (case j_CompletedAt j of None \<Rightarrow> False | Some t \<Rightarrow> t < cutoff)"

definition CleanupCompleted :: "string list \<Rightarrow> int \<Rightarrow> int \<Rightarrow> 'p manager \<Rightarrow> 'p manager \<times> nat" where
  "CleanupCompleted order t maxAge m =
     (let dead = filter (\<lambda>i. case jm_jobs m i of None \<Rightarrow> False | Some j \<Rightarrow> expired (t - maxAge) j) order
      in (m\<lparr>jm_jobs := (jm_jobs m) |` (- set dead)\<rparr>, length dead))"

text \<open>The first statement of \<^verbatim>\<open>Stop\<close>; closing a closed channel panics. It returns once \<open>jm_done\<close> is set.\<close>

definition Stop :: "'p manager \<Rightarrow> 'p manager option" where
  "Stop m = (if jm_shutdown m then None else Some (m\<lparr>jm_shutdown := True\<rparr>))"

text \<open>A worker loop returns; the deferred function of worker 0 closes \<open>done\<close>.\<close>

definition exitWorker :: "nat \<Rightarrow> 'p manager \<Rightarrow> 'p manager" where
  "exitWorker w m = (setWorker w Exited m)\<lparr>jm_done := (w = 0 \<or> jm_done m)\<rparr>"

section \<open>Steps\<close>

text \<open>
  What the loops do on their own: receive from the in-memory queue, begin, and end a job.
  \<open>Proc p work work' err\<close> says that the processor may leave this copy and error.
\<close>

inductive workStep :: "('p \<Rightarrow> job \<Rightarrow> job \<Rightarrow> string option \<Rightarrow> bool) \<Rightarrow> 'p manager \<Rightarrow> 'p manager \<Rightarrow> bool"
  for Proc where
  receive: "\<lbrakk>jm_pool m w = Some Waiting; \<not> jm_durable m; jm_queue m = jobID # rest\<rbrakk>
    \<Longrightarrow> workStep Proc m (setWorker w (Received jobID) (m\<lparr>jm_queue := rest\<rparr>))"
| begin_job: "jm_pool m w = Some (Received jobID) \<Longrightarrow> workStep Proc m (beginJob t w jobID m)"
| end_job: "\<lbrakk>jm_pool m w = Some (Processing jobID work p); Proc p work work' err\<rbrakk>
    \<Longrightarrow> workStep Proc m (endJob t w jobID work' err m)"

text \<open>
  All steps: those, the operations called from outside, deliveries of the durable queue, and the end
  of the loops of an in-memory manager on shutdown or when the context is cancelled. Identifiers
  given out by \<^verbatim>\<open>uuid.New\<close> are new.
\<close>

inductive jobStep :: "('p \<Rightarrow> job \<Rightarrow> job \<Rightarrow> string option \<Rightarrow> bool) \<Rightarrow> 'p manager \<Rightarrow> 'p manager \<Rightarrow> bool"
  for Proc where
  work: "workStep Proc m m' \<Longrightarrow> jobStep Proc m m'"
| submit: "jobID \<notin> jm_ids m \<Longrightarrow> jobStep Proc m (fst (Submit jobID t enq jobType input metadata m))"
| cancel: "jobStep Proc m (fst (Cancel t jobID m))"
| cleanup: "\<lbrakk>distinct order; set order = dom (jm_jobs m)\<rbrakk>
    \<Longrightarrow> jobStep Proc m (fst (CleanupCompleted order t maxAge m))"
| register: "jobStep Proc m (RegisterProcessor typ p m)"
| begin_loops: "jm_pool m = Map.empty \<Longrightarrow> jobStep Proc m (Start m)"
| delivery: "\<lbrakk>jm_pool m w = Some Waiting; jm_durable m\<rbrakk> \<Longrightarrow> jobStep Proc m (setWorker w (Received jobID) m)"
| stop_call: "Stop m = Some m' \<Longrightarrow> jobStep Proc m m'"
| loop_end: "\<lbrakk>jm_pool m w = Some Waiting; \<not> jm_durable m\<rbrakk> \<Longrightarrow> jobStep Proc m (exitWorker w m)"
| consumer_end: "\<lbrakk>jm_pool m w = Some Waiting; jm_durable m\<rbrakk> \<Longrightarrow> jobStep Proc m (setWorker w Exited m)"

inductive reachableJobs :: "('p \<Rightarrow> job \<Rightarrow> job \<Rightarrow> string option \<Rightarrow> bool) \<Rightarrow> 'p manager \<Rightarrow> bool"
  for Proc where
  initial: "m = NewManager n \<or> m = WithDurable (NewManager n) \<Longrightarrow> reachableJobs Proc m"
| after: "\<lbrakk>reachableJobs Proc m; jobStep Proc m m'\<rbrakk> \<Longrightarrow> reachableJobs Proc m'"

section \<open>The invariant\<close>

definition final :: "job \<Rightarrow> bool" where
  "final j \<longleftrightarrow> j_Status j = JobStatusCompleted \<or> j_Status j = JobStatusFailed \<or> j_Status j = JobStatusCancelled"

text \<open>The fields of a job agree with its status.\<close>

definition jobOk :: "job \<Rightarrow> bool" where
  "jobOk j =
     (case j_Status j of
        JobStatusPending \<Rightarrow> j_StartedAt j = None \<and> j_CompletedAt j = None \<and> j_Result j = [] \<and> j_Error j = [] \<and> j_Progress j = 0
      | JobStatusRunning \<Rightarrow> j_StartedAt j \<noteq> None \<and> j_CompletedAt j = None \<and> j_Result j = [] \<and> j_Error j = []
      | JobStatusCompleted \<Rightarrow> j_StartedAt j \<noteq> None \<and> j_CompletedAt j \<noteq> None \<and> j_Error j = [] \<and> j_Progress j = 100
      | JobStatusFailed \<Rightarrow> (j_StartedAt j \<noteq> None \<longrightarrow> j_CompletedAt j \<noteq> None)
      | JobStatusCancelled \<Rightarrow> j_CompletedAt j \<noteq> None \<and> j_Result j = [] \<and> j_Error j = ''cancelled by user'')"

definition jobsOk :: "'p manager \<Rightarrow> bool" where
  "jobsOk m \<longleftrightarrow> (\<forall>i j. jm_jobs m i = Some j \<longrightarrow> j_ID j = i \<and> i \<in> jm_ids m \<and> jobOk j)"

definition poolOk :: "'p manager \<Rightarrow> bool" where
  "poolOk m \<longleftrightarrow>
     dom (jm_pool m) \<subseteq> {..<jm_workers m}
     \<and> (\<forall>w i work p. jm_pool m w = Some (Processing i work p) \<longrightarrow>
          i \<in> set (jm_runs m) \<and> (\<forall>j. jm_jobs m i = Some j \<longrightarrow> j_Status j \<in> {JobStatusRunning, JobStatusCancelled}))
     \<and> (\<forall>w w' i work p work' p'. jm_pool m w = Some (Processing i work p) \<longrightarrow>
          jm_pool m w' = Some (Processing i work' p') \<longrightarrow> w = w')
     \<and> (\<forall>i j. jm_jobs m i = Some j \<longrightarrow> j_Status j = JobStatusRunning \<longrightarrow>
          (\<exists>w work p. jm_pool m w = Some (Processing i work p)))"

definition runsOk :: "'p manager \<Rightarrow> bool" where
  "runsOk m \<longleftrightarrow> distinct (jm_runs m) \<and> set (jm_runs m) \<subseteq> jm_ids m
     \<and> (\<forall>i j. jm_jobs m i = Some j \<longrightarrow> j_Status j = JobStatusPending \<longrightarrow> i \<notin> set (jm_runs m))"

definition queueOk :: "'p manager \<Rightarrow> bool" where
  "queueOk m \<longleftrightarrow> length (jm_queue m) \<le> queueCap
     \<and> (\<not> jm_durable m \<longrightarrow> (\<forall>i j. jm_jobs m i = Some j \<longrightarrow> j_Status j = JobStatusPending \<longrightarrow>
          i \<in> set (jm_queue m) \<or> (\<exists>w. jm_pool m w = Some (Received i))))"

definition doneOk :: "'p manager \<Rightarrow> bool" where
  "doneOk m \<longleftrightarrow> (jm_done m \<longrightarrow> \<not> jm_durable m \<and> jm_pool m 0 = Some Exited)"

definition jobInv :: "'p manager \<Rightarrow> bool" where
  "jobInv m \<longleftrightarrow> jobsOk m \<and> poolOk m \<and> runsOk m \<and> queueOk m \<and> doneOk m"

lemmas jobInv_defs = jobsOk_def poolOk_def runsOk_def queueOk_def doneOk_def

lemma setWorker_simps [simp]:
  "jm_jobs (setWorker w s m) = jm_jobs m" "jm_queue (setWorker w s m) = jm_queue m"
  "jm_ids (setWorker w s m) = jm_ids m" "jm_runs (setWorker w s m) = jm_runs m"
  "jm_durable (setWorker w s m) = jm_durable m" "jm_done (setWorker w s m) = jm_done m"
  "jm_workers (setWorker w s m) = jm_workers m" "jm_processors (setWorker w s m) = jm_processors m"
  "jm_pool (setWorker w s m) = (jm_pool m)(w \<mapsto> s)"
  by (simp_all add: setWorker_def)

lemma poolOk_processing:
  assumes "poolOk m" "jm_pool m w = Some (Processing i work p)"
  shows "i \<in> set (jm_runs m)" "jm_jobs m i = Some j \<Longrightarrow> j_Status j \<in> {JobStatusRunning, JobStatusCancelled}"
    "jm_pool m w' = Some (Processing i work' p') \<Longrightarrow> w = w'"
  using assms unfolding poolOk_def by blast+

lemma poolOk_running:
  assumes "poolOk m" "jm_jobs m i = Some j" "j_Status j = JobStatusRunning"
  obtains w work p where "jm_pool m w = Some (Processing i work p)"
  using assms unfolding poolOk_def by blast

lemma poolOk_elsewhere:
  assumes "poolOk m" "jm_jobs m i = Some j" "j_Status j = JobStatusRunning"
    and "\<And>work p. jm_pool m w \<noteq> Some (Processing i work p)"
  shows "\<exists>w'. w' \<noteq> w \<and> (\<exists>work p. jm_pool m w' = Some (Processing i work p))"
  using poolOk_running [OF assms(1-3)] assms(4) by metis

lemma poolOk_dom: "poolOk m \<Longrightarrow> jm_pool m w = Some s \<Longrightarrow> w < jm_workers m"
  unfolding poolOk_def by blast

lemma parts_cong [simp]:
  "jobsOk (m\<lparr>jm_queue := q\<rparr>) = jobsOk m" "poolOk (m\<lparr>jm_queue := q\<rparr>) = poolOk m" "runsOk (m\<lparr>jm_queue := q\<rparr>) = runsOk m"
  "doneOk (m\<lparr>jm_queue := q\<rparr>) = doneOk m"
  "jobsOk (m\<lparr>jm_done := d\<rparr>) = jobsOk m" "poolOk (m\<lparr>jm_done := d\<rparr>) = poolOk m" "runsOk (m\<lparr>jm_done := d\<rparr>) = runsOk m"
  "queueOk (m\<lparr>jm_done := d\<rparr>) = queueOk m"
  "jobsOk (m\<lparr>jm_pool := pl\<rparr>) = jobsOk m" "runsOk (m\<lparr>jm_pool := pl\<rparr>) = runsOk m"
  "jobInv (m\<lparr>jm_shutdown := b\<rparr>) = jobInv m" "jobInv (m\<lparr>jm_processors := ps\<rparr>) = jobInv m"
  by (simp_all add: jobInv_def jobInv_defs)

lemma poolOkI:
  assumes "\<And>w s. jm_pool m w = Some s \<Longrightarrow> w < jm_workers m"
    and "\<And>w i work p. jm_pool m w = Some (Processing i work p) \<Longrightarrow> i \<in> set (jm_runs m)"
    and "\<And>w i work p j. jm_pool m w = Some (Processing i work p) \<Longrightarrow> jm_jobs m i = Some j
      \<Longrightarrow> j_Status j = JobStatusRunning \<or> j_Status j = JobStatusCancelled"
    and "\<And>w w' i work p work' p'. jm_pool m w = Some (Processing i work p) \<Longrightarrow>
          jm_pool m w' = Some (Processing i work' p') \<Longrightarrow> w = w'"
    and "\<And>i j. jm_jobs m i = Some j \<Longrightarrow> j_Status j = JobStatusRunning \<Longrightarrow> \<exists>w work p. jm_pool m w = Some (Processing i work p)"
  shows "poolOk m"
  unfolding poolOk_def using assms by auto

lemma queueOk_elsewhere:
  assumes "queueOk m" "\<not> jm_durable m" "jm_jobs m i = Some j" "j_Status j = JobStatusPending"
    and "jm_pool m w \<noteq> Some (Received i)"
  shows "i \<in> set (jm_queue m) \<or> (\<exists>w'. w' \<noteq> w \<and> jm_pool m w' = Some (Received i))"
  using assms unfolding queueOk_def by metis

text \<open>Replacing one job, and moving one worker, keep the parts of the invariant under conditions of their own.\<close>

lemma jobInv_put:
  assumes "jobInv m" "jm_jobs m i = Some j0" "j_ID j = i" "jobOk j" "j_Status j \<noteq> JobStatusPending"
    and "\<And>w work p. jm_pool m w = Some (Processing i work p) \<Longrightarrow> j_Status j \<in> {JobStatusRunning, JobStatusCancelled}"
    and "j_Status j = JobStatusRunning \<Longrightarrow> \<exists>w work p. jm_pool m w = Some (Processing i work p)"
  shows "jobInv (m\<lparr>jm_jobs := (jm_jobs m)(i \<mapsto> j)\<rparr>)"
proof -
  from assms(1) have I: "jobsOk m" "poolOk m" "runsOk m" "queueOk m" "doneOk m" by (simp_all add: jobInv_def)
  let ?m = "m\<lparr>jm_jobs := (jm_jobs m)(i \<mapsto> j)\<rparr>"
  have "jobsOk ?m" using I(1) assms(2-4) by (auto simp: jobsOk_def)
  moreover have "poolOk ?m"
    using I(2) assms(6,7) unfolding poolOk_def by simp (meson option.inject)
  moreover have "runsOk ?m" using I(3) assms(5) by (auto simp: runsOk_def)
  moreover have "queueOk ?m" using I(4) assms(5) by (auto simp: queueOk_def)
  ultimately show ?thesis using I(5) by (simp add: jobInv_def doneOk_def)
qed

lemma jobInv_worker:
  assumes "jobInv m" "jm_pool m w = Some s0" "s0 \<noteq> Exited" "\<And>i work p. s \<noteq> Processing i work p"
    and "\<And>i work p j. s0 = Processing i work p \<Longrightarrow> jm_jobs m i = Some j \<Longrightarrow> j_Status j \<noteq> JobStatusRunning"
    and "\<And>i j. s0 = Received i \<Longrightarrow> jm_jobs m i = Some j \<Longrightarrow> j_Status j \<noteq> JobStatusPending"
  shows "jobInv (setWorker w s m)"
proof -
  from assms(1) have I: "jobsOk m" "poolOk m" "runsOk m" "queueOk m" "doneOk m" by (simp_all add: jobInv_def)
  have "poolOk (setWorker w s m)"
  proof -
    have "\<exists>w' work p. ((jm_pool m)(w \<mapsto> s)) w' = Some (Processing i work p)"
      if "jm_jobs m i = Some j" "j_Status j = JobStatusRunning" for i j
      using poolOk_elsewhere [OF I(2) that, of w] assms(2,5) that by auto
    with I(2) assms(2,4) show ?thesis by (auto simp: poolOk_def)
  qed
  moreover have "queueOk (setWorker w s m)"
  proof -
    have "i \<in> set (jm_queue m) \<or> (\<exists>w'. ((jm_pool m)(w \<mapsto> s)) w' = Some (Received i))"
      if "\<not> jm_durable m" "jm_jobs m i = Some j" "j_Status j = JobStatusPending" for i j
    proof -
      from I(4) that have "i \<in> set (jm_queue m) \<or> (\<exists>w'. jm_pool m w' = Some (Received i))" by (auto simp: queueOk_def)
      moreover have "w' \<noteq> w" if "jm_pool m w' = Some (Received i)" for w'
        using that assms(2,6) \<open>jm_jobs m i = Some j\<close> \<open>j_Status j = JobStatusPending\<close> by auto
      ultimately show ?thesis by auto
    qed
    with I(4) show ?thesis by (simp add: queueOk_def)
  qed
  moreover have "doneOk (setWorker w s m)" using I(5) assms(2,3) by (auto simp: doneOk_def)
  ultimately show ?thesis using I(1,3) by (simp add: jobInv_def jobsOk_def runsOk_def)
qed

lemma jobInv_NewManager: "jobInv (NewManager n)" "jobInv (WithDurable (NewManager n))"
  by (simp_all add: jobInv_def jobInv_defs NewManager_def WithDurable_def)

lemma jobInv_fresh:
  assumes "jobInv m" "i \<notin> jm_ids m"
  shows "jm_jobs m i = None" "i \<notin> set (jm_runs m)" "jm_pool m w \<noteq> Some (Processing i work p)"
proof -
  show n: "jm_jobs m i = None" "i \<notin> set (jm_runs m)"
    using assms by (cases "jm_jobs m i"; auto simp: jobInv_def jobsOk_def runsOk_def)+
  show "jm_pool m w \<noteq> Some (Processing i work p)" 
    using n(2) assms(1) by (auto simp: jobInv_def dest: poolOk_processing(1))
qed

lemma jobInv_Submit:
  assumes "jobInv m" "i \<notin> jm_ids m"
  shows "jobInv (fst (Submit i t enq typ inp meta m))"
  using jobInv_fresh [OF assms] assms
  by (auto simp: jobInv_def jobInv_defs Submit_def Let_def newJob_def jobOk_def split: option.splits)

lemma jobInv_Cancel:
  assumes "jobInv m" shows "jobInv (fst (Cancel t i m))"
proof (cases "jm_jobs m i")
  case (Some j)
  have "j_ID j = i \<and> jobOk j" using assms Some by (simp add: jobInv_def jobsOk_def)
  then show ?thesis
    using Some assms by (auto simp: Cancel_def jobOk_def intro!: jobInv_put split: jobStatus.splits)
qed (simp add: Cancel_def assms)

lemma jobInv_Cleanup: "jobInv m \<Longrightarrow> jobInv (fst (CleanupCompleted order t maxAge m))"
  by (auto simp: jobInv_def jobInv_defs CleanupCompleted_def Let_def restrict_map_def)

lemma jobInv_taken:
  fixes m :: "'p manager" and t :: int and p :: 'p
  assumes "jobInv m" "jm_pool m w = Some (Received i)" "jm_jobs m i = Some j" "j_Status j = JobStatusPending"
  defines "j' \<equiv> j\<lparr>j_Status := JobStatusRunning, j_StartedAt := Some t\<rparr>"
  defines "m' \<equiv> setWorker w (Processing i j' p) (m\<lparr>jm_jobs := (jm_jobs m)(i \<mapsto> j'), jm_runs := jm_runs m @ [i]\<rparr>)"
  shows "jobInv m'"
proof -
  from assms(1) have I: "jobsOk m" "poolOk m" "runsOk m" "queueOk m" "doneOk m" by (simp_all add: jobInv_def)
  note m'_def [simp]
  have j: "j_ID j' = i" "jobOk j'" "j_Status j' = JobStatusRunning" "i \<in> jm_ids m" "i \<notin> set (jm_runs m)"
  proof -
    have "j_ID j = i" "jobOk j" "i \<in> jm_ids m" using I(1) assms(3) by (simp_all add: jobsOk_def)
    then show "j_ID j' = i" "jobOk j'" "j_Status j' = JobStatusRunning" "i \<in> jm_ids m"
      using assms(4) by (simp_all add: jobOk_def j'_def)
    show "i \<notin> set (jm_runs m)" using I(3) assms(3,4) by (simp add: runsOk_def)
  qed
  have np: "jm_pool m w' \<noteq> Some (Processing i work q)" for w' work q
    using I(2) j(5) poolOk_processing(1) by metis
  have "poolOk m'"
  proof (rule poolOkI, goal_cases)
    case (1 w' s) then show ?case using I(2) assms(2) by (auto dest: poolOk_dom split: if_splits)
  next
    case (2 w' k) then show ?case using I(2) by (auto dest: poolOk_processing(1) split: if_splits)
  next
    case (3 w' k) then show ?case using I(2) np j(3) by (auto dest: poolOk_processing(2) split: if_splits)
  next
    case (4 w' w'' k) then show ?case using I(2) np by (auto dest: poolOk_processing(3) split: if_splits)
  next
    case (5 k jk)
    then show ?case using poolOk_elsewhere [OF I(2), of k jk w] assms(2) by (cases "k = i") auto
  qed
  moreover have "jobsOk m'" using I(1) j by (auto simp: jobsOk_def)
  moreover have "runsOk m'" using I(3) j by (auto simp: runsOk_def)
  moreover have "queueOk m'"
  proof -
    have "k \<in> set (jm_queue m') \<or> (\<exists>w'. jm_pool m' w' = Some (Received k))"
      if "\<not> jm_durable m'" "jm_jobs m' k = Some jk" "j_Status jk = JobStatusPending" for k jk
    proof -
      from that j(3) have k: "k \<noteq> i" "jm_jobs m k = Some jk" by (auto split: if_splits)
      then show ?thesis using queueOk_elsewhere [OF I(4), of k jk w] that assms(2) by auto
    qed
    then show ?thesis using I(4) by (simp add: queueOk_def)
  qed
  moreover have "doneOk m'" using I(5) assms(2) by (auto simp: doneOk_def)
  ultimately show ?thesis by (simp add: jobInv_def)
qed

lemma jobInv_released:
  assumes "jobInv m" "jm_pool m w = Some (Processing i work p)" "jm_jobs m i = Some j0"
    and j: "j_ID j = i" "jobOk j" "final j"
  defines "m' \<equiv> setWorker w Waiting (m\<lparr>jm_jobs := (jm_jobs m)(i \<mapsto> j)\<rparr>)"
  shows "jobInv m'"
proof -
  from assms(1) have I: "jobsOk m" "poolOk m" "runsOk m" "queueOk m" "doneOk m" by (simp_all add: jobInv_def)
  note m'_def [simp]
  have one: "w' = w" if "jm_pool m w' = Some (Processing i work' p')" for w' work' p'
    using poolOk_processing(3) [OF I(2) that assms(2)] .
  have nr: "j_Status j \<noteq> JobStatusRunning" "j_Status j \<noteq> JobStatusPending" using j(3) by (auto simp: final_def)
  have "poolOk m'"
  proof (rule poolOkI, goal_cases)
    case (1 w' s) then show ?case using I(2) assms(2) by (auto dest: poolOk_dom split: if_splits)
  next
    case (2 w' k) then show ?case using I(2) by (auto dest: poolOk_processing(1) split: if_splits)
  next
    case (3 w' k) then show ?case using I(2) one by (auto dest: poolOk_processing(2) split: if_splits)
  next
    case (4 w' w'' k) then show ?case using I(2) by (auto dest: poolOk_processing(3) split: if_splits)
  next
    case (5 k jk)
    then have "k \<noteq> i" "jm_jobs m k = Some jk" using nr by (auto split: if_splits)
    then show ?case using poolOk_elsewhere [OF I(2), of k jk w] 5(2) assms(2) by auto
  qed
  moreover have "jobsOk m'" using I(1) j assms(3) by (auto simp: jobsOk_def)
  moreover have "runsOk m'" using I(3) nr by (auto simp: runsOk_def)
  moreover have "queueOk m'"
  proof -
    have "k \<in> set (jm_queue m') \<or> (\<exists>w'. jm_pool m' w' = Some (Received k))"
      if "\<not> jm_durable m'" "jm_jobs m' k = Some jk" "j_Status jk = JobStatusPending" for k jk
    proof -
      from that nr have k: "k \<noteq> i" "jm_jobs m k = Some jk" by (auto split: if_splits)
      then show ?thesis using queueOk_elsewhere [OF I(4), of k jk w] that assms(2) by auto
    qed
    then show ?thesis using I(4) by (simp add: queueOk_def)
  qed
  moreover have "doneOk m'" using I(5) assms(2) by (auto simp: doneOk_def)
  ultimately show ?thesis by (simp add: jobInv_def)
qed

lemma jobInv_beginJob:
  assumes "jobInv m" "jm_pool m w = Some (Received i)"
  shows "jobInv (beginJob t w i m)"
proof (cases "jm_jobs m i")
  case None
  then show ?thesis using assms by (simp add: beginJob_def) (rule jobInv_worker, auto)
next
  case (Some j)
  have j: "j_ID j = i" "jobOk j" using assms(1) Some by (simp_all add: jobInv_def jobsOk_def)
  show ?thesis
  proof (cases "j_Status j = JobStatusPending")
    case False
    then show ?thesis using assms Some by (simp add: beginJob_def) (rule jobInv_worker, auto)
  next
    case True
    have np: "jm_pool m w' \<noteq> Some (Processing i work p)" for w' work p
      using assms(1) Some True by (auto simp: jobInv_def dest: poolOk_processing(2))
    show ?thesis
    proof (cases "jm_processors m (j_Type j)")
      case None
      have "jobInv (m\<lparr>jm_jobs := (jm_jobs m)(i \<mapsto> j\<lparr>j_Status := JobStatusFailed,
          j_Error := ''no processor for job type: '' @ j_Type j, j_CompletedAt := Some t\<rparr>)\<rparr>)"
        using assms(1) Some j True np by (intro jobInv_put) (auto simp: jobOk_def)
      then show ?thesis using assms(2) Some True None
        by (simp add: beginJob_def) (rule jobInv_worker, auto)
    next
      case (Some p)
      then show ?thesis
        using jobInv_taken [OF assms \<open>jm_jobs m i = Some j\<close> True] \<open>jm_jobs m i = Some j\<close> True
        by (simp add: beginJob_def Let_def)
    qed
  qed
qed

lemma jobInv_endJob:
  assumes "jobInv m" "jm_pool m w = Some (Processing i work p)"
  shows "jobInv (endJob t w i work' err m)"
proof (cases "jm_jobs m i")
  case None
  then show ?thesis using assms by (simp add: endJob_def) (rule jobInv_worker, auto)
next
  case (Some j)
  have I: "jobsOk m" "poolOk m" using assms(1) by (simp_all add: jobInv_def)
  have j: "j_ID j = i" "jobOk j" "i \<in> jm_ids m" using I(1) Some by (simp_all add: jobsOk_def)
  have st: "j_Status j = JobStatusRunning \<or> j_Status j = JobStatusCancelled"
    using poolOk_processing(2) [OF I(2) assms(2) Some] by simp
  show ?thesis
  proof (cases "j_Status j = JobStatusCancelled")
    case True
    then show ?thesis using assms Some by (simp add: endJob_def) (rule jobInv_worker, auto)
  next
    case False
    with st have st: "j_Status j = JobStatusRunning" by simp
    then show ?thesis
      using Some False j(1,2) jobInv_released [OF assms Some]
      by (auto simp: endJob_def Let_def jobOk_def final_def split: option.splits)
  qed
qed

lemma jobInv_receive:
  assumes "jobInv m" "jm_pool m w = Some Waiting" "jm_queue m = i # rest"
  shows "jobInv (setWorker w (Received i) (m\<lparr>jm_queue := rest\<rparr>))"
proof -
  let ?m = "setWorker w (Received i) (m\<lparr>jm_queue := rest\<rparr>)"
  have a: "jobInv (setWorker w (Received i) m)"
    using assms(1,2) by (rule jobInv_worker) auto
  have "queueOk ?m"
  proof -
    have "k \<in> set rest \<or> (\<exists>w'. jm_pool ?m w' = Some (Received k))"
      if "\<not> jm_durable m" "jm_jobs m k = Some jk" "j_Status jk = JobStatusPending" for k jk
      using queueOk_elsewhere [of m k jk w] that assms by (auto simp: jobInv_def)
    then show ?thesis using assms(1,3) by (simp add: queueOk_def jobInv_def)
  qed
  moreover have "?m = (setWorker w (Received i) m)\<lparr>jm_queue := rest\<rparr>" by (simp add: setWorker_def)
  ultimately show ?thesis using a by (simp add: jobInv_def)
qed

lemma jobInv_exitWorker:
  assumes "jobInv m" "jm_pool m w = Some Waiting" "\<not> jm_durable m"
  shows "jobInv (exitWorker w m)"
proof -
  have "jobInv (setWorker w Exited m)" using assms(1,2) by (rule jobInv_worker) auto
  with assms(3) show ?thesis
    by (auto simp: exitWorker_def jobInv_def doneOk_def)
qed

lemma jobInv_workStep:
  assumes "workStep Proc m m'" "jobInv m"
  shows "jobInv m'"
  using assms by cases (simp_all add: jobInv_receive jobInv_beginJob jobInv_endJob)

lemma jobInv_Start:
  assumes "jobInv m" "jm_pool m = Map.empty"
  shows "jobInv (Start m)"
proof -
  have "j_Status j \<noteq> JobStatusRunning" if "jm_jobs m i = Some j" for i j
    using assms that poolOk_running [of m i j] by (auto simp: jobInv_def)
  then have "poolOk (Start m)" by (intro poolOkI) (auto simp: Start_def split: if_splits)
  moreover have "queueOk (Start m)" "doneOk (Start m)"
    using assms by (auto simp: Start_def jobInv_def queueOk_def doneOk_def)
  ultimately show ?thesis using assms(1) by (simp add: jobInv_def Start_def)
qed

lemma jobInv_step:
  assumes "jobInv m" "jobStep Proc m m'"
  shows "jobInv m'"
  using assms(2)
proof cases
  case (work)
  then show ?thesis using jobInv_workStep assms(1) by blast
next
  case (register ty p)
  then show ?thesis using assms(1) by (simp add: RegisterProcessor_def)
next
  case (delivery w i)
  show ?thesis unfolding delivery(1) using assms(1) delivery(2) by (rule jobInv_worker) auto
next
  case (consumer_end w)
  show ?thesis unfolding consumer_end(1) using assms(1) consumer_end(2) by (rule jobInv_worker) auto
next
  case stop_call
  then show ?thesis using assms(1) by (auto simp: Stop_def split: if_splits)
qed (simp_all add: assms(1) jobInv_Submit jobInv_Cancel jobInv_Cleanup jobInv_Start jobInv_exitWorker)

interpretation jobs: step_invariant "jobStep Proc" jobInv for Proc
  by unfold_locales (rule jobInv_step)

lemma jobInv_reachable: "reachableJobs Proc m \<Longrightarrow> jobInv m"
  by (induction rule: reachableJobs.induct) (auto simp: jobInv_NewManager intro: jobInv_step)

section \<open>Outcomes\<close>

text \<open>A job that is over changes only in that a cancelled one can be cancelled again, later.\<close>

definition sameOutcome :: "job \<Rightarrow> job \<Rightarrow> bool" where
  "sameOutcome j j' \<longleftrightarrow> j' = j \<or> (j_Status j = JobStatusCancelled \<and> (\<exists>t. j' = j\<lparr>j_CompletedAt := Some t\<rparr>))"

definition overAs :: "string \<Rightarrow> job \<Rightarrow> 'p manager \<Rightarrow> bool" where
  "overAs i j m \<longleftrightarrow> i \<in> jm_ids m \<and> final j \<and> (\<forall>j'. jm_jobs m i = Some j' \<longrightarrow> sameOutcome j j')"

definition staysAs :: "string \<Rightarrow> job \<Rightarrow> 'p manager \<Rightarrow> bool" where
  "staysAs i j m \<longleftrightarrow> jm_jobs m i = Some j \<and> j_Status j = JobStatusFailed \<and> j_CompletedAt j = None"

lemma sameOutcome_final: "final j \<Longrightarrow> sameOutcome j j' \<Longrightarrow> final j' \<and> j_Status j' = j_Status j"
  by (auto simp: sameOutcome_def final_def)

lemma beginJob_final:
  "jm_jobs m k = Some j \<Longrightarrow> final j \<Longrightarrow> jm_jobs (beginJob t w i m) k = Some j"
  by (auto simp: beginJob_def final_def Let_def split: option.splits)

lemma endJob_final:
  assumes "poolOk m" "jm_pool m w = Some (Processing i work p)" "jm_jobs m k = Some j" "final j"
  shows "jm_jobs (endJob t w i work' err m) k = Some j"
  using poolOk_processing(2) [OF assms(1,2)] assms(3,4) by (auto simp: endJob_def final_def Let_def split: option.splits)

lemma beginJob_other [simp]:
  "jm_jobs m k = None \<Longrightarrow> jm_jobs (beginJob t w i m) k = None" "jm_ids (beginJob t w i m) = jm_ids m"
  by (auto simp: beginJob_def Let_def split: option.splits)

lemma endJob_other [simp]:
  "jm_jobs m k = None \<Longrightarrow> jm_jobs (endJob t w i work err m) k = None" "jm_ids (endJob t w i work err m) = jm_ids m"
  by (auto simp: endJob_def Let_def split: option.splits)

lemma workStep_final:
  assumes "workStep Proc m m'" "jobInv m"
  shows "jm_jobs m k = Some j \<Longrightarrow> final j \<Longrightarrow> jm_jobs m' k = Some j" "jm_jobs m k = None \<Longrightarrow> jm_jobs m' k = None"
    "jm_ids m' = jm_ids m"
  using assms by (cases; auto simp: jobInv_def beginJob_final endJob_final)+

lemma jobStep_ids:
  assumes "jobStep Proc m m'" "jobInv m"
  shows "jm_ids m \<subseteq> jm_ids m'"
  using assms(1)
proof cases
  case work
  then show ?thesis using workStep_final(3) assms(2) by blast
qed (auto simp: Submit_def Cancel_def CleanupCompleted_def RegisterProcessor_def Start_def Stop_def exitWorker_def
    Let_def split: option.splits if_splits)

lemma jobStep_over:
  assumes "jobStep Proc m m'" "jobInv m" "overAs i j m"
  shows "overAs i j m'"
proof -
  have ids: "i \<in> jm_ids m'" and fin: "final j" using assms jobStep_ids by (auto simp: overAs_def)
  have "sameOutcome j j'" if "jm_jobs m' i = Some j'" for j'
  proof (cases "jm_jobs m i")
    case None
    from assms(1) have "jm_jobs m' i = None"
    proof cases
      case work
      then show ?thesis using workStep_final(2) assms(2) None by blast
    qed (use assms(3) None in \<open>auto simp: overAs_def Submit_def Cancel_def CleanupCompleted_def RegisterProcessor_def
        Start_def Stop_def exitWorker_def Let_def restrict_map_def split: option.splits if_splits\<close>)
    with that show ?thesis by simp
  next
    case (Some j0)
    have o: "sameOutcome j j0" "final j0" using assms(3) Some fin sameOutcome_final by (auto simp: overAs_def)
    have err: "j_Status j0 = JobStatusCancelled \<Longrightarrow> j_Error j0 = ''cancelled by user''"
      using assms(2) Some by (auto simp: jobInv_def jobsOk_def jobOk_def split: jobStatus.splits)
    from assms(1) have "sameOutcome j0 j'"
    proof cases
      case work
      then show ?thesis using workStep_final(1) [OF work assms(2) Some o(2)] that by (simp add: sameOutcome_def)
    next
      case (submit k)
      then have "k \<noteq> i" using assms(3) by (auto simp: overAs_def)
      then show ?thesis using submit that Some by (auto simp: sameOutcome_def Submit_def Let_def split: option.splits if_splits)
    next
      case (cancel t k)
      then show ?thesis
        using that Some o(2) err by (cases "k = i"; cases j0) (auto simp: sameOutcome_def Cancel_def final_def split: option.splits if_splits)
    qed (use that Some in \<open>auto simp: sameOutcome_def CleanupCompleted_def RegisterProcessor_def
        Start_def Stop_def exitWorker_def Let_def restrict_map_def split: option.splits if_splits\<close>)
    with o(1) show ?thesis by (auto simp: sameOutcome_def)
  qed
  with ids fin show ?thesis by (simp add: overAs_def)
qed

lemma jobStep_stays:
  assumes "jobStep Proc m m'" "jobInv m" "staysAs i j m"
  shows "staysAs i j m'"
proof -
  have Some: "jm_jobs m i = Some j" and f: "final j" "j_Status j = JobStatusFailed" "j_CompletedAt j = None"
    using assms(3) by (auto simp: staysAs_def final_def)
  have ids: "i \<in> jm_ids m" using Some assms(2) by (auto simp: jobInv_def jobsOk_def)
  from assms(1) have "jm_jobs m' i = Some j"
  proof cases
    case work
    then show ?thesis using workStep_final(1) [OF work assms(2) Some f(1)] by simp
  qed (use Some ids f(2,3) in \<open>auto simp: Submit_def Cancel_def CleanupCompleted_def expired_def RegisterProcessor_def
        Start_def Stop_def exitWorker_def Let_def restrict_map_def split: option.splits if_splits\<close>)
  with f show ?thesis by (simp add: staysAs_def)
qed

lemma jobStep_durable:
  assumes "jobStep Proc m m'" shows "jm_durable m' = jm_durable m"
  using assms
  by cases (auto simp: Submit_def Cancel_def CleanupCompleted_def RegisterProcessor_def Start_def Stop_def exitWorker_def
    beginJob_def endJob_def Let_def elim!: workStep.cases split: option.splits if_splits)

interpretation over: kept_property "jobStep Proc" jobInv "overAs i j" for Proc i j
  by unfold_locales (rule jobStep_over)

interpretation stays: kept_property "jobStep Proc" jobInv "staysAs i j" for Proc i j
  by unfold_locales (rule jobStep_stays)

interpretation durable: kept_property "jobStep Proc" jobInv jm_durable for Proc
  by unfold_locales (simp add: jobStep_durable)

text \<open>What a worker works on is the request as submitted, and a completed job has the result of such a run.\<close>

definition sameRequest :: "job \<Rightarrow> job \<Rightarrow> bool" where
  "sameRequest a b \<longleftrightarrow> j_ID a = j_ID b \<and> j_Type a = j_Type b \<and> j_Input a = j_Input b \<and> j_Metadata a = j_Metadata b"

definition producedBy :: "('p \<Rightarrow> job \<Rightarrow> job \<Rightarrow> string option \<Rightarrow> bool) \<Rightarrow> job \<Rightarrow> bool" where
  "producedBy Proc j \<longleftrightarrow> (\<exists>p work work'. sameRequest work j \<and> Proc p work work' None \<and> j_Result j = j_Result work')"

definition copiesOk :: "('p \<Rightarrow> job \<Rightarrow> job \<Rightarrow> string option \<Rightarrow> bool) \<Rightarrow> 'p manager \<Rightarrow> bool" where
  "copiesOk Proc m \<longleftrightarrow>
     (\<forall>w i work p j. jm_pool m w = Some (Processing i work p) \<and> jm_jobs m i = Some j \<longrightarrow> sameRequest work j)
     \<and> (\<forall>i j. jm_jobs m i = Some j \<and> j_Status j = JobStatusCompleted \<longrightarrow> producedBy Proc j)"

lemma sameRequest_simps [simp]:
  "sameRequest j j" "sameRequest work (j\<lparr>j_Status := s\<rparr>) = sameRequest work j" "sameRequest work (j\<lparr>j_Error := e\<rparr>) = sameRequest work j"
  "sameRequest work (j\<lparr>j_CompletedAt := c\<rparr>) = sameRequest work j" "sameRequest work (j\<lparr>j_Result := r\<rparr>) = sameRequest work j"
  "sameRequest work (j\<lparr>j_Progress := q\<rparr>) = sameRequest work j"
  by (simp_all add: sameRequest_def)

text \<open>No worker gains a copy and no job completes: enough for most operations.\<close>

lemma copiesOk_quiet:
  assumes "copiesOk Proc m"
    and "\<And>w i work p. jm_pool m' w = Some (Processing i work p) \<Longrightarrow> jm_pool m w = Some (Processing i work p)"
    and "\<And>w i work p j'. jm_pool m w = Some (Processing i work p) \<Longrightarrow> jm_jobs m' i = Some j' \<Longrightarrow> \<exists>j. jm_jobs m i = Some j \<and> (sameRequest work j \<longrightarrow> sameRequest work j')"
    and "\<And>i j'. jm_jobs m' i = Some j' \<Longrightarrow> j_Status j' = JobStatusCompleted \<Longrightarrow> jm_jobs m i = Some j'"
  shows "copiesOk Proc m'"
  using assms unfolding copiesOk_def by metis

lemma copiesOk_beginJob:
  assumes "jobInv m" "copiesOk Proc m" "jm_pool m w = Some (Received i)"
  shows "copiesOk Proc (beginJob t w i m)"
proof -
  have np: "jm_pool m v \<noteq> Some (Processing i work p)" if "jm_jobs m i = Some j" "j_Status j = JobStatusPending" for v work p j
    using that assms(1) by (auto simp: jobInv_def dest: poolOk_processing(2))
  show ?thesis
    using assms(2) np
    by (auto simp: beginJob_def copiesOk_def Let_def split: option.splits)
qed

lemma copiesOk_endJob:
  assumes "jobInv m" "copiesOk Proc m" "jm_pool m w = Some (Processing i work p)" "Proc p work work' err"
  shows "copiesOk Proc (endJob t w i work' err m)"
proof (cases "jm_jobs m i")
  case None
  then show ?thesis using assms(2) by (auto simp: endJob_def copiesOk_def)
next
  case (Some j)
  have "sameRequest work j" using assms(2,3) Some by (auto simp: copiesOk_def)
  then have "producedBy Proc j'" if "err = None" "j_Result j' = j_Result work'" "sameRequest work j = sameRequest work j'" for j'
    unfolding producedBy_def using assms(4) that by (intro exI [of _ p] exI [of _ work] exI [of _ work']) simp
  then show ?thesis
    using assms(2) Some
    by (cases err) (auto simp: endJob_def copiesOk_def Let_def)
qed

lemma copiesOk_step:
  assumes "jobStep Proc m m'" "jobInv m" "copiesOk Proc m"
  shows "copiesOk Proc m'"
  using assms(1)
proof cases
  case work
  then show ?thesis
  proof cases
    case receive
    then show ?thesis using assms(3) by (auto simp: copiesOk_def)
  qed (use assms(2,3) in \<open>simp_all add: copiesOk_beginJob copiesOk_endJob\<close>)
next
  case (submit i t enq ty inp meta)
  show ?thesis unfolding submit(1)
    using assms(3) jobInv_fresh [OF assms(2) submit(2)]
    by (intro copiesOk_quiet [OF assms(3)]) (auto simp: Submit_def newJob_def Let_def split: option.splits if_splits)
next
  case (cancel t i)
  show ?thesis unfolding cancel
    by (intro copiesOk_quiet [OF assms(3)]) (auto simp: Cancel_def split: option.splits if_splits)
qed (use assms(3) in \<open>auto simp: copiesOk_def CleanupCompleted_def RegisterProcessor_def Start_def Stop_def exitWorker_def
    Let_def restrict_map_def split: if_splits\<close>)

lemma copiesOk_reachable: "reachableJobs Proc m \<Longrightarrow> copiesOk Proc m"
proof (induction rule: reachableJobs.induct)
  case (initial m n)
  then show ?case by (auto simp: copiesOk_def NewManager_def WithDurable_def)
next
  case (after m m')
  then show ?case by (simp add: copiesOk_step jobInv_reachable)
qed

lemma completed_producedBy:
  "reachableJobs Proc m \<Longrightarrow> jm_jobs m i = Some j \<Longrightarrow> j_Status j = JobStatusCompleted \<Longrightarrow> producedBy Proc j"
  using copiesOk_reachable unfolding copiesOk_def by blast

section \<open>Draining the queue\<close>

fun effortOf :: "'p worker option \<Rightarrow> nat" where
  "effortOf (Some (Received _)) = 2"
| "effortOf (Some (Processing _ _ _)) = 1"
| "effortOf _ = 0"

definition workLeft :: "'p manager \<Rightarrow> nat" where
  "workLeft m = 3 * length (jm_queue m) + (\<Sum>w<jm_workers m. effortOf (jm_pool m w))"

lemma effort_update:
  fixes n :: nat and pl :: "nat \<rightharpoonup> 'p worker"
  assumes "w < n"
  shows "(\<Sum>v<n. effortOf ((pl(w \<mapsto> s)) v)) + effortOf (pl w) = (\<Sum>v<n. effortOf (pl v)) + effortOf (Some s)"
proof -
  have "(\<Sum>v<n. effortOf (f v)) = effortOf (f w) + (\<Sum>v\<in>{..<n} - {w}. effortOf (f v))" for f :: "nat \<Rightarrow> 'p worker option"
    using assms by (simp add: sum.remove)
  moreover have "(\<Sum>v\<in>{..<n} - {w}. effortOf ((pl(w \<mapsto> s)) v)) = (\<Sum>v\<in>{..<n} - {w}. effortOf (pl v))"
    by (rule sum.cong) auto
  ultimately show ?thesis by simp
qed

lemma beginJob_pool:
  "\<exists>s. jm_pool (beginJob t w i m) = (jm_pool m)(w \<mapsto> s) \<and> effortOf (Some s) \<le> 1 \<and> s \<noteq> Exited"
  "jm_queue (beginJob t w i m) = jm_queue m" "jm_workers (beginJob t w i m) = jm_workers m"
  "jm_durable (beginJob t w i m) = jm_durable m"
  by (auto simp: beginJob_def Let_def split: option.splits)

lemma endJob_pool:
  "jm_pool (endJob t w i work err m) = (jm_pool m)(w \<mapsto> Waiting)"
  "jm_queue (endJob t w i work err m) = jm_queue m" "jm_workers (endJob t w i work err m) = jm_workers m"
  "jm_durable (endJob t w i work err m) = jm_durable m"
  by (auto simp: endJob_def Let_def split: option.splits)

lemma workStep_effort:
  assumes "jobInv m" "workStep Proc m m'"
  shows "workLeft m' < workLeft m"
  using assms(2)
proof cases
  case (receive w i rest)
  have "w < jm_workers m" using assms(1) receive(2) poolOk_dom by (auto simp: jobInv_def)
  from effort_update [OF this, of "jm_pool m" "Received i"] receive show ?thesis by (simp add: workLeft_def)
next
  case (begin_job w i t)
  have w: "w < jm_workers m" using assms(1) begin_job(2) poolOk_dom by (auto simp: jobInv_def)
  obtain s where s: "jm_pool m' = (jm_pool m)(w \<mapsto> s)" "effortOf (Some s) \<le> 1"
    using beginJob_pool(1) [of t w i m] begin_job(1) by auto
  then show ?thesis using effort_update [OF w, of "jm_pool m" s] begin_job by (simp add: workLeft_def beginJob_pool(2,3))
next
  case (end_job w i work p work' err t)
  have "w < jm_workers m" using assms(1) end_job(2) poolOk_dom by (auto simp: jobInv_def)
  from effort_update [OF this, of "jm_pool m" Waiting] end_job show ?thesis by (simp add: workLeft_def endJob_pool)
qed

interpretation drain: bounded_run "workStep Proc" jobInv workLeft for Proc
  by unfold_locales (auto intro: jobInv_workStep workStep_effort)

definition served :: "nat \<Rightarrow> 'p manager \<Rightarrow> bool" where
  "served w m \<longleftrightarrow> \<not> jm_durable m \<and> (\<exists>s. jm_pool m w = Some s \<and> s \<noteq> Exited)"

lemma workStep_keeps_served:
  assumes "jobInv m" "served w m" "workStep Proc m m'"
  shows "served w m'"
  using assms(3)
proof cases
  case (begin_job v i t)
  then show ?thesis using assms(2) beginJob_pool(1) [of t v i m] by (auto simp: served_def beginJob_pool(4))
qed (use assms(2) in \<open>auto simp: served_def endJob_pool\<close>)

interpretation attended: kept_property "workStep Proc" jobInv "served w" for Proc w
  by unfold_locales (rule jobInv_workStep, assumption+, rule workStep_keeps_served)

lemma idle_all_final:
  assumes "jobInv m" "served w m" "\<forall>p work. \<exists>work' err. Proc p work work' err" "\<not> (\<exists>u. workStep Proc m u)"
    and "jm_jobs m i = Some j"
  shows "final j"
proof -
  have nr: "jm_pool m v \<noteq> Some (Received k)" for v k using assms(4) workStep.begin_job by metis
  have np: "jm_pool m v \<noteq> Some (Processing k work p)" for v k work p
    using assms(3,4) workStep.end_job [of m v k work p Proc] by metis
  obtain s where s: "jm_pool m w = Some s" "s \<noteq> Exited" "\<not> jm_durable m" using assms(2) by (auto simp: served_def)
  with nr np have "jm_pool m w = Some Waiting" by (cases s) auto
  then have q: "jm_queue m = []" using assms(4) s(3) workStep.receive [of m w] by (cases "jm_queue m") blast+
  have "j_Status j \<noteq> JobStatusPending" using assms(1,5) q nr s(3) by (auto simp: jobInv_def queueOk_def)
  moreover have "j_Status j \<noteq> JobStatusRunning" using assms(1,5) np by (auto simp: jobInv_def elim: poolOk_running)
  ultimately show ?thesis by (cases "j_Status j") (auto simp: final_def)
qed

lemma run_front_job:
  assumes "reachableJobs Proc m" "jm_pool m w = Some Waiting" "\<not> jm_durable m" "jm_queue m = i # rest"
    and "jm_jobs m i = Some j" "j_Status j = JobStatusPending" "jm_processors m (j_Type j) = Some p"
    and "Proc p (j\<lparr>j_Status := JobStatusRunning, j_StartedAt := Some t\<rparr>) work' None"
  obtains m' j' where "reachableJobs Proc m'" "jm_jobs m' i = Some j'" "j_Status j' = JobStatusCompleted" "j_Result j' = j_Result work'"
proof -
  let ?j = "j\<lparr>j_Status := JobStatusRunning, j_StartedAt := Some t\<rparr>"
  let ?m1 = "setWorker w (Received i) (m\<lparr>jm_queue := rest\<rparr>)"
  let ?m2 = "beginJob t w i ?m1"
  let ?m3 = "endJob t w i work' None ?m2"
  have r: "reachableJobs Proc u'" if "reachableJobs Proc u" "workStep Proc u u'" for u u'
    using that by (blast intro: reachableJobs.after jobStep.work)
  have m2: "?m2 = setWorker w (Processing i ?j p) (?m1\<lparr>jm_jobs := (jm_jobs m)(i \<mapsto> ?j), jm_runs := jm_runs m @ [i]\<rparr>)"
    using assms(5-7) by (simp add: beginJob_def Let_def)
  have 1: "reachableJobs Proc ?m1" using assms(1-4) by (blast intro: r workStep.receive)
  have 2: "reachableJobs Proc ?m2" by (rule r [OF 1], rule workStep.begin_job) simp
  have 3: "reachableJobs Proc ?m3"
    by (rule r [OF 2], rule workStep.end_job [where work = ?j and p = p]) (use assms(8) in \<open>simp_all add: m2\<close>)
  have "jm_jobs ?m3 i = Some (?j\<lparr>j_Result := j_Result work', j_Progress := j_Progress work', j_CompletedAt := Some t,
      j_Status := JobStatusCompleted, j_Progress := 100\<rparr>)"
    by (simp add: endJob_def m2 Let_def)
  then show thesis by (rule that [OF 3]) simp_all
qed

section \<open>Properties\<close>

text \<open>
  C12. In every state the manager can reach, with any interleaving of workers, submissions,
  cancellations and clean-ups: the fields of every job agree with its status, a running job is in
  the hands of exactly one worker, a pending job of an in-memory manager is in the queue or was
  received by a worker, so none is lost, and the queue is within its capacity.
\<close>

theorem job_lifecycle:
  assumes "reachableJobs Proc m"
  shows "length (jm_queue m) \<le> 1000
    \<and> (\<forall>i j. jm_jobs m i = Some j \<longrightarrow> j_ID j = i \<and> jobOk j
         \<and> (j_Status j = JobStatusRunning \<longrightarrow> (\<exists>!w. \<exists>work p. jm_pool m w = Some (Processing i work p)))
         \<and> (j_Status j = JobStatusPending \<and> \<not> jm_durable m \<longrightarrow>
              i \<in> set (jm_queue m) \<or> (\<exists>w. jm_pool m w = Some (Received i))))"
proof -
  from jobInv_reachable [OF assms] have I: "jobsOk m" "poolOk m" "queueOk m" by (simp_all add: jobInv_def)
  have "\<exists>!w. \<exists>work p. jm_pool m w = Some (Processing i work p)"
    if "jm_jobs m i = Some j" "j_Status j = JobStatusRunning" for i j
    using poolOk_running [OF I(2) that] poolOk_processing(3) [OF I(2)] by metis
  with I(1,3) show ?thesis by (simp add: jobsOk_def queueOk_def queueCap_def)
qed

text \<open>
  A job is handed to its processor at most once, even if a durable queue delivers its identifier
  again, and a job still pending has never been.
\<close>

theorem job_processed_once:
  assumes "reachableJobs Proc m"
  shows "distinct (jm_runs m) \<and> (\<forall>i j. jm_jobs m i = Some j \<and> j_Status j = JobStatusPending \<longrightarrow> i \<notin> set (jm_runs m))"
  using jobInv_reachable [OF assms] by (simp add: jobInv_def runsOk_def)

text \<open>
  C13. The outcome of a job is final: whatever happens later, a completed, failed or cancelled job
  keeps its status, result and error until it is removed, and is never brought back.
\<close>

theorem job_outcome_final:
  assumes "reachableJobs Proc m" "jm_jobs m i = Some j" "final j" "(jobStep Proc)\<^sup>*\<^sup>* m m'"
  shows "jm_jobs m' i = None
    \<or> (\<exists>j'. jm_jobs m' i = Some j' \<and> j_Status j' = j_Status j \<and> j_Result j' = j_Result j \<and> j_Error j' = j_Error j)"
proof -
  have inv: "jobInv m" using assms(1) by (rule jobInv_reachable)
  then have "overAs i j m" using assms(2,3) by (auto simp: overAs_def sameOutcome_def jobInv_def jobsOk_def)
  from over.kept_run [OF assms(4) inv this] show ?thesis
    by (cases "jm_jobs m' i") (auto simp: overAs_def sameOutcome_def)
qed

text \<open>
  The result of a completed job is what a processor produced, without error, from the type, input
  and metadata the job was submitted with.
\<close>

theorem completed_job_result:
  assumes "reachableJobs Proc m" "jm_jobs m i = Some j" "j_Status j = JobStatusCompleted"
  shows "\<exists>p work work'. sameRequest work j \<and> Proc p work work' None \<and> j_Result j = j_Result work'"
  using completed_producedBy [OF assms] by (simp add: producedBy_def)

text \<open>
  C14. Workers finish what was submitted: with one loop of an in-memory manager running and
  processors that return, the workers come to rest after at most three steps per queued job and two
  per busy worker, and whenever they rest every job has completed, failed or been cancelled.
\<close>

theorem workers_drain:
  assumes "reachableJobs Proc m" "\<not> jm_durable m" "jm_pool m w = Some s" "s \<noteq> Exited"
    and "\<forall>p work. \<exists>work' err. Proc p work work' err"
  shows "(\<forall>n m'. (workStep Proc ^^ n) m m' \<longrightarrow> n \<le> workLeft m)
    \<and> (\<exists>m'. (workStep Proc)\<^sup>*\<^sup>* m m' \<and> \<not> (\<exists>u. workStep Proc m' u))
    \<and> (\<forall>m' i j. (workStep Proc)\<^sup>*\<^sup>* m m' \<longrightarrow> \<not> (\<exists>u. workStep Proc m' u) \<longrightarrow> jm_jobs m' i = Some j \<longrightarrow> final j)"
proof -
  have inv: "jobInv m" using assms(1) by (rule jobInv_reachable)
  have s: "served w m" using assms(2-4) by (simp add: served_def)
  have "n \<le> workLeft m" if "(workStep Proc ^^ n) m m'" for n m' using drain.run_bound [OF that inv] by simp
  moreover have "final j" if "(workStep Proc)\<^sup>*\<^sup>* m m'" "\<not> (\<exists>u. workStep Proc m' u)" "jm_jobs m' i = Some j" for m' i j
    using idle_all_final [OF drain.inv_run [OF that(1) inv] attended.kept_run [OF that(1) inv s] assms(5) that(2,3)] .
  ultimately show ?thesis using drain.run_ends [OF inv] by blast
qed

text \<open>
  A job refused because the queue is full, or because it could not be enqueued, is kept as failed
  without a completion time, and then no operation removes or changes it: clean-up never frees it.
\<close>

theorem rejected_job_stays:
  assumes "reachableJobs Proc m" "i \<notin> jm_ids m"
    and "Submit i t enq jobType input metadata m = (m1, i, Some e)" "e = QueueFull \<or> e = EnqueueFailed x"
    and "(jobStep Proc)\<^sup>*\<^sup>* m1 m'"
  shows "\<exists>j. jm_jobs m1 i = Some j \<and> j_Status j = JobStatusFailed \<and> j_CompletedAt j = None \<and> jm_jobs m' i = Some j"
proof -
  have inv: "jobInv m1"
    using jobInv_Submit [OF jobInv_reachable [OF assms(1)] assms(2), of t enq jobType input metadata] assms(3) by simp
  obtain j where j: "staysAs i j m1"
    using assms(3,4) by (auto simp: staysAs_def Submit_def Let_def newJob_def split: option.splits if_splits)
  from stays.kept_run [OF assms(5) inv j] j show ?thesis by (auto simp: staysAs_def)
qed

text \<open>
  With a durable queue nothing ever closes \<open>done\<close>, so \<^verbatim>\<open>Stop\<close> does not return.
\<close>

theorem durable_stop_blocks:
  assumes "reachableJobs Proc m" "jm_durable m" "(jobStep Proc)\<^sup>*\<^sup>* m m'"
  shows "\<not> jm_done m'"
  using durable.kept_run [OF assms(3) jobInv_reachable [OF assms(1)] assms(2)] jobs.inv_run [OF assms(3) jobInv_reachable [OF assms(1)]]
  by (auto simp: jobInv_def doneOk_def)

text \<open>
  A message whose job is not in this process's memory, as after a restart, is dropped: the handler
  leaves the manager as it is and reports success, so the queue forgets it.
\<close>

lemma unknown_message_dropped:
  "jm_jobs m i = None \<Longrightarrow> beginJob t w i m = setWorker w Waiting m"
  by (simp add: beginJob_def)

lemma Cleanup_spec:
  assumes "distinct order" "set order = dom (jm_jobs m)"
  shows "jm_jobs (fst (CleanupCompleted order t maxAge m)) i =
      (case jm_jobs m i of None \<Rightarrow> None | Some j \<Rightarrow> if expired (t - maxAge) j then None else Some j)"
    and "snd (CleanupCompleted order t maxAge m) = card {i. \<exists>j. jm_jobs m i = Some j \<and> expired (t - maxAge) j}"
proof -
  show "jm_jobs (fst (CleanupCompleted order t maxAge m)) i =
      (case jm_jobs m i of None \<Rightarrow> None | Some j \<Rightarrow> if expired (t - maxAge) j then None else Some j)"
    using assms(2) by (auto simp: CleanupCompleted_def Let_def restrict_map_def split: option.splits)
  have "{i. \<exists>j. jm_jobs m i = Some j \<and> expired (t - maxAge) j}
      = set (filter (\<lambda>i. case jm_jobs m i of None \<Rightarrow> False | Some j \<Rightarrow> expired (t - maxAge) j) order)"
    using assms(2) by (auto split: option.splits)
  then show "snd (CleanupCompleted order t maxAge m) = card {i. \<exists>j. jm_jobs m i = Some j \<and> expired (t - maxAge) j}"
    using assms(1) by (simp only: CleanupCompleted_def Let_def snd_conv distinct_card distinct_filter)
qed

section \<open>A run\<close>

text \<open>One worker, one processor that leaves the job as it is, one job; and a durable queue that refuses.\<close>

definition demoManager :: "unit manager" where
  "demoManager = Start (RegisterProcessor ''scan'' () (NewManager 1))"

definition demoQueued :: "unit manager" where
  "demoQueued = fst (Submit ''a'' 1 None ''scan'' ''text'' Map.empty demoManager)"

definition demoCancelled :: "unit manager" where
  "demoCancelled = fst (Cancel 2 ''a'' demoQueued)"

definition demoDurable :: "unit manager" where
  "demoDurable = RegisterProcessor ''scan'' () (WithDurable (NewManager 1))"

definition echoProc :: "unit \<Rightarrow> job \<Rightarrow> job \<Rightarrow> string option \<Rightarrow> bool" where
  "echoProc p work work' err \<longleftrightarrow> work' = work \<and> err = None"

lemmas demo_defs = demoManager_def demoQueued_def demoCancelled_def demoDurable_def Start_def RegisterProcessor_def
  NewManager_def WithDurable_def Submit_def Cancel_def newJob_def Let_def queueCap_def

lemma demo_reachable:
  "reachableJobs echoProc demoQueued" "reachableJobs echoProc demoCancelled" "reachableJobs echoProc demoDurable"
proof -
  have "reachableJobs echoProc (RegisterProcessor ''scan'' () (NewManager 1))"
    by (blast intro: reachableJobs.intros jobStep.register)
  then have "reachableJobs echoProc demoManager"
    unfolding demoManager_def by (rule reachableJobs.after) (rule jobStep.begin_loops, simp add: demo_defs)
  then show q: "reachableJobs echoProc demoQueued"
    unfolding demoQueued_def by (rule reachableJobs.after) (rule jobStep.submit, simp add: demo_defs)
  then show "reachableJobs echoProc demoCancelled"
    unfolding demoCancelled_def by (rule reachableJobs.after) (rule jobStep.cancel)
  show "reachableJobs echoProc demoDurable"
    unfolding demoDurable_def by (blast intro: reachableJobs.intros jobStep.register)
qed

theorem completed_job_result_witness:
  "\<exists>m j p work work'. reachableJobs echoProc m \<and> jm_jobs m ''a'' = Some j
     \<and> sameRequest work j \<and> echoProc p work work' None \<and> j_Result j = j_Result work'"
proof -
  let ?j = "newJob ''a'' 1 ''scan'' ''text'' Map.empty"
  obtain m j where m: "reachableJobs echoProc m" "jm_jobs m ''a'' = Some j" "j_Status j = JobStatusCompleted"
    by (rule run_front_job [OF demo_reachable(1), of 0 "''a''" "[]" ?j "()" 4 "?j\<lparr>j_Status := JobStatusRunning, j_StartedAt := Some 4\<rparr>"])
      (simp_all add: demo_defs echoProc_def)
  from completed_job_result [OF m] m show ?thesis by blast
qed

theorem job_lifecycle_witness:
  "''a'' \<in> set (jm_queue demoQueued) \<or> (\<exists>w. jm_pool demoQueued w = Some (Received ''a''))"
  using job_lifecycle [OF demo_reachable(1)] by (simp add: demo_defs)

theorem job_processed_once_witness: "distinct (jm_runs demoQueued)"
  using job_processed_once [OF demo_reachable(1)] by simp

theorem job_outcome_final_witness:
  "jm_jobs (fst (Cancel 9 ''a'' demoCancelled)) ''a'' = None
   \<or> (\<exists>j. jm_jobs (fst (Cancel 9 ''a'' demoCancelled)) ''a'' = Some j \<and> j_Status j = JobStatusCancelled)"
proof -
  obtain j where j: "jm_jobs demoCancelled ''a'' = Some j" "j_Status j = JobStatusCancelled"
    by (auto simp: demo_defs)
  have "(jobStep echoProc)\<^sup>*\<^sup>* demoCancelled (fst (Cancel 9 ''a'' demoCancelled))"
    using jobStep.cancel by (rule r_into_rtranclp)
  from job_outcome_final [OF demo_reachable(2) j(1) _ this] j(2) show ?thesis by (auto simp: final_def)
qed

theorem workers_drain_witness:
  "\<exists>m'. (workStep echoProc)\<^sup>*\<^sup>* demoQueued m' \<and> \<not> (\<exists>i j. jm_jobs m' i = Some j \<and> \<not> final j)"
proof -
  have "\<forall>p work. \<exists>work' err. echoProc p work work' err" by (simp add: echoProc_def)
  from workers_drain [OF demo_reachable(1) _ _ _ this, of 0 Waiting] show ?thesis by (simp add: demo_defs) blast
qed

theorem rejected_job_stays_witness:
  "\<exists>m1 j. Submit ''b'' 3 (Some ''down'') ''scan'' ''text'' Map.empty demoDurable = (m1, ''b'', Some (EnqueueFailed ''down''))
     \<and> jm_jobs (fst (CleanupCompleted [''b''] 100 1 m1)) ''b'' = Some j"
proof -
  obtain m1 where m1: "Submit ''b'' 3 (Some ''down'') ''scan'' ''text'' Map.empty demoDurable = (m1, ''b'', Some (EnqueueFailed ''down''))"
    and d: "dom (jm_jobs m1) = {''b''}"
    by (auto simp: demo_defs)
  have "(jobStep echoProc)\<^sup>*\<^sup>* m1 (fst (CleanupCompleted [''b''] 100 1 m1))"
    by (rule r_into_rtranclp, rule jobStep.cleanup) (simp_all add: d)
  from rejected_job_stays [OF demo_reachable(3) _ m1 _ this, of "''down''"] m1 show ?thesis
    by (auto simp: demo_defs)
qed

end
