(* ===== verification/Audit_Log.thy ===== *)
theory Audit_Log
  imports Go_Any Redact
begin

text \<open>
  The audit loggers of \<^verbatim>\<open>internal/audit\<close>: redaction of event data, the hash over a canonical form
  of an event, the hash chain of the file logger (\<^verbatim>\<open>logger.go\<close>, \<^verbatim>\<open>rotating.go\<close>), the Kafka and
  PostgreSQL loggers (\<^verbatim>\<open>kafka.go\<close>, \<^verbatim>\<open>postgres.go\<close>) up to the calls of those services, and the
  choice of a logger from the environment (\<^verbatim>\<open>factory.go\<close>). JSON values are modelled as a datatype;
  the text \<^verbatim>\<open>encoding/json\<close> writes for one, or its failure, and SHA-256 are arguments. Whether a
  write or a publication succeeds is an argument too.
\<close>

section \<open>Events\<close>

text \<open>A nil map is \<open>None\<close>. \<open>JTime\<close> is a time as \<^verbatim>\<open>time.Time\<close> marshals it, \<open>JOther\<close> any other scalar.\<close>

datatype jval =
    JArr "jval list"
  | JObj "(string \<times> jval) list"
  | JStr string
  | JNum int
  | JTime int
  | JOther string
  | JNull

type_synonym goData = "(string \<times> goAny) list option"

record auditEvent =
  e_Timestamp :: int
  e_Type :: string
  e_Data :: goData
  e_Hash :: string
  e_PrevHash :: string

record 'rx auditEnv =
  ae_lib :: "'rx golib"
  ae_enabled :: bool
  ae_rules :: "'rx redactRule list"
  ae_json :: "jval \<Rightarrow> string option"
  ae_sha :: "string \<Rightarrow> string"

definition redacted :: "'rx auditEnv \<Rightarrow> string \<Rightarrow> string" where
  "redacted A = RedactText (ae_lib A) (ae_enabled A) (ae_rules A)"

section \<open>Redaction\<close>

fun sanitizeValue :: "(string \<Rightarrow> string) \<Rightarrow> goAny \<Rightarrow> goAny" where
  "sanitizeValue rd (AnyString s) = AnyString (rd s)"
| "sanitizeValue rd (AnyMap m) = AnyMap (map (\<lambda>(k, v). (k, sanitizeValue rd v)) m)"
| "sanitizeValue rd (AnyList xs) = AnyList (map (sanitizeValue rd) xs)"
| "sanitizeValue rd (AnyStrings ss) = AnyStrings (map rd ss)"
| "sanitizeValue rd (AnyOther x) = AnyOther x"

definition SanitizeMap :: "(string \<Rightarrow> string) \<Rightarrow> goData \<Rightarrow> goData" where
  "SanitizeMap rd d = map_option (map (\<lambda>(k, v). (k, sanitizeValue rd v))) d"

section \<open>Hashing\<close>

text \<open>Maps become lists of key/value objects in key order; typed slices and scalars stay as they are.\<close>

definition canonKV :: "string \<times> jval \<Rightarrow> jval" where
  "canonKV kv = JObj [(''k'', JStr (fst kv)), (''v'', snd kv)]"

fun canonicalize :: "goAny \<Rightarrow> jval" where
  "canonicalize (AnyMap m) = JArr (map canonKV (sort_key fst (map (\<lambda>(k, v). (k, canonicalize v)) m)))"
| "canonicalize (AnyList xs) = JArr (map canonicalize xs)"
| "canonicalize (AnyString s) = JStr s"
| "canonicalize (AnyStrings ss) = JArr (map JStr ss)"
| "canonicalize (AnyOther x) = JOther x"

definition canonData :: "goData \<Rightarrow> jval" where
  "canonData d = canonicalize (AnyMap (case d of None \<Rightarrow> [] | Some m \<Rightarrow> m))"

definition canonEvent :: "auditEvent \<Rightarrow> jval" where
  "canonEvent e = JObj [(''t'', JNum (e_Timestamp e)), (''y'', JStr (e_Type e)), (''d'', canonData (e_Data e)),
     (''p'', JStr (e_PrevHash e))]"

text \<open>The error of \<^verbatim>\<open>Marshal\<close> is dropped, so a payload that cannot be encoded hashes as the empty text.\<close>

definition hashEvent :: "'rx auditEnv \<Rightarrow> auditEvent \<Rightarrow> string" where
  "hashEvent A e = ae_sha A (case ae_json A (canonEvent e) of None \<Rightarrow> [] | Some b \<Rightarrow> b)"

section \<open>The JSON of an event\<close>

fun valueJson :: "goAny \<Rightarrow> jval" where
  "valueJson (AnyMap m) = JObj (sort_key fst (map (\<lambda>(k, v). (k, valueJson v)) m))"
| "valueJson (AnyList xs) = JArr (map valueJson xs)"
| "valueJson (AnyString s) = JStr s"
| "valueJson (AnyStrings ss) = JArr (map JStr ss)"
| "valueJson (AnyOther x) = JOther x"

definition dataJson :: "goData \<Rightarrow> jval" where
  "dataJson d = (case d of None \<Rightarrow> JNull | Some m \<Rightarrow> valueJson (AnyMap m))"

definition eventJson :: "auditEvent \<Rightarrow> jval" where
  "eventJson e = JObj [(''timestamp'', JTime (e_Timestamp e)), (''type'', JStr (e_Type e)), (''data'', dataJson (e_Data e)),
     (''hash'', JStr (e_Hash e)), (''prev_hash'', JStr (e_PrevHash e))]"

section \<open>The file logger\<close>

text \<open>\<open>fl_out\<close> has the events written so far.\<close>

record fileLogger =
  fl_prevSum :: string
  fl_out :: "auditEvent list"

definition NewFileLogger :: "auditEvent list \<Rightarrow> fileLogger" where
  "NewFileLogger w = \<lparr>fl_prevSum = [], fl_out = w\<rparr>"

definition prepared :: "'rx auditEnv \<Rightarrow> int \<Rightarrow> string \<Rightarrow> auditEvent \<Rightarrow> auditEvent" where
  "prepared A t prev e =
     (let e1 = e\<lparr>e_Data := SanitizeMap (redacted A) (e_Data e), e_Timestamp := t, e_PrevHash := prev\<rparr>
      in e1\<lparr>e_Hash := hashEvent A e1\<rparr>)"

text \<open>\<open>werr\<close> is the error of the underlying writer.\<close>

definition LogFile :: "'rx auditEnv \<Rightarrow> int \<Rightarrow> string option \<Rightarrow> auditEvent \<Rightarrow> fileLogger \<Rightarrow> fileLogger \<times> string option" where
  "LogFile A t werr e l =
     (let e2 = prepared A t (fl_prevSum l) e
      in case ae_json A (eventJson e2) of
           None \<Rightarrow> (l, Some ''json: unsupported value'')
         | Some b \<Rightarrow>
             (case werr of
                Some x \<Rightarrow> (l, Some x)
              | None \<Rightarrow> (\<lparr>fl_prevSum = e_Hash e2, fl_out = fl_out l @ [e2]\<rparr>, None)))"

definition LogRotating :: "'rx auditEnv \<Rightarrow> int \<Rightarrow> string option \<Rightarrow> auditEvent \<Rightarrow> fileLogger \<Rightarrow> fileLogger \<times> string option" where
  "LogRotating A t werr e l = LogFile A t werr (e\<lparr>e_Data := SanitizeMap (redacted A) (e_Data e)\<rparr>) l"

section \<open>Kafka and PostgreSQL\<close>

datatype logOutcome = Logged | LogFailed string | LogPanic

definition hashed :: "'rx auditEnv \<Rightarrow> int \<Rightarrow> auditEvent \<Rightarrow> auditEvent" where
  "hashed A t e = prepared A t (e_PrevHash e) e"

text \<open>The table's rows are the events; \<open>execErr\<close> is the error of the statement.\<close>

definition LogPostgres :: "'rx auditEnv \<Rightarrow> int \<Rightarrow> string option \<Rightarrow> auditEvent \<Rightarrow> auditEvent list \<Rightarrow> auditEvent list \<times> logOutcome" where
  "LogPostgres A t execErr e rows =
     (let e2 = hashed A t e
      in case ae_json A (dataJson (e_Data e2)) of
           None \<Rightarrow> (rows, LogFailed ''json: unsupported value'')
         | Some b \<Rightarrow> (case execErr of Some x \<Rightarrow> (rows, LogFailed x) | None \<Rightarrow> (rows @ [e2], Logged)))"

definition tenantHeader :: "goData \<Rightarrow> (string \<times> string) list" where
  "tenantHeader d =
     (case asString (case d of None \<Rightarrow> None | Some m \<Rightarrow> map_of m ''tenant_id'') of
        Some tid \<Rightarrow> if tid \<noteq> [] then [(''tenant_id'', tid)] else []
      | None \<Rightarrow> [])"

text \<open>A message is the event it encodes with its headers; \<open>rfc3339\<close> formats a time.\<close>

definition kafkaHeaders :: "(int \<Rightarrow> string) \<Rightarrow> auditEvent \<Rightarrow> (string \<times> string) list" where
  "kafkaHeaders rfc3339 e =
     [(''event_type'', e_Type e), (''event_hash'', e_Hash e), (''timestamp'', rfc3339 (e_Timestamp e))] @ tenantHeader (e_Data e)"

text \<open>
  \<open>pub\<close> is the outcome of the publication: an error, or the message identifier if a result comes
  back. Storing that identifier in the event's data panics if the data is a nil map.
\<close>

definition LogKafka :: "'rx auditEnv \<Rightarrow> (int \<Rightarrow> string) \<Rightarrow> int \<Rightarrow> string + string option \<Rightarrow> auditEvent
    \<Rightarrow> (auditEvent \<times> (string \<times> string) list) list \<Rightarrow> (auditEvent \<times> (string \<times> string) list) list \<times> logOutcome" where
  "LogKafka A rfc3339 t pub e sent =
     (let e2 = hashed A t e
      in case ae_json A (eventJson e2) of
           None \<Rightarrow> (sent, LogFailed ''failed to marshal audit event'')
         | Some payload \<Rightarrow>
             (case pub of
                Inl x \<Rightarrow> (sent, LogFailed x)
              | Inr mid \<Rightarrow>
                  (sent @ [(e2, kafkaHeaders rfc3339 e2)],
                   if mid \<noteq> None \<and> mid \<noteq> Some [] \<and> e_Data e2 = None then LogPanic else Logged)))"

definition batchMessage :: "'rx auditEnv \<Rightarrow> int \<times> auditEvent \<Rightarrow> (auditEvent \<times> (string \<times> string) list) option" where
  "batchMessage A te =
     (let e2 = hashed A (fst te) (snd te)
      in case ae_json A (eventJson e2) of
           None \<Rightarrow> None
         | Some payload \<Rightarrow> Some (e2, [(''event_type'', e_Type e2), (''event_hash'', e_Hash e2)] @ tenantHeader (e_Data e2)))"

text \<open>Events that cannot be encoded are passed over; each comes with the time it is handled.\<close>

definition LogBatch :: "'rx auditEnv \<Rightarrow> (int \<times> auditEvent) list \<Rightarrow> string option
    \<Rightarrow> (auditEvent \<times> (string \<times> string) list) list \<Rightarrow> (auditEvent \<times> (string \<times> string) list) list \<times> logOutcome" where
  "LogBatch A events pubErr sent =
     (let messages = List.map_filter (batchMessage A) events
      in if messages = [] then (sent, Logged)
         else case pubErr of Some x \<Rightarrow> (sent, LogFailed x) | None \<Rightarrow> (sent @ messages, Logged))"

section \<open>Choosing a logger\<close>

datatype auditSink =
    NoSink
  | RotatingSink string
  | KafkaSink "string list" string
  | PostgresSink string string bool

datatype sinkErr = NoAuditFile | NoKafkaConfig | NoDsn | UnknownSink string

text \<open>The sink \<^verbatim>\<open>NewLoggerFromEnv\<close> opens; opening it can fail beyond the model.\<close>

definition NewLoggerFromEnv :: "'rx golib \<Rightarrow> sinkErr + auditSink" where
  "NewLoggerFromEnv G =
     (let var = (\<lambda>n. strTrimSpace (getenv G n));
          sink = strToLower G (var ''PS_AUDIT_SINK'')
      in if sink = [] \<or> sink = ''none'' then
           Inr (if var ''PS_AUDIT_FILE'' \<noteq> [] then RotatingSink (var ''PS_AUDIT_FILE'') else NoSink)
         else if sink = ''file'' then
           (if var ''PS_AUDIT_FILE'' = [] then Inl NoAuditFile else Inr (RotatingSink (var ''PS_AUDIT_FILE'')))
         else if sink = ''kafka'' then
           (if var ''PS_AUDIT_KAFKA_BROKERS'' = [] \<or> var ''PS_AUDIT_KAFKA_TOPIC'' = [] then Inl NoKafkaConfig
            else Inr (KafkaSink (strSplit CHR '','' (var ''PS_AUDIT_KAFKA_BROKERS'')) (var ''PS_AUDIT_KAFKA_TOPIC'')))
         else if sink = ''postgres'' then
           (if var ''PS_AUDIT_PG_DSN'' = [] then Inl NoDsn
            else Inr (PostgresSink (var ''PS_AUDIT_PG_DSN'')
                   (if var ''PS_AUDIT_PG_TABLE'' = [] then ''audit_events'' else var ''PS_AUDIT_PG_TABLE'')
                   (strToLower G (var ''PS_AUDIT_PG_AUTO_MIGRATE'') \<in> {[], ''1'', ''true'', ''yes''})))
         else Inl (UnknownSink sink))"

section \<open>Hash chains\<close>

text \<open>What a reader checks: each entry names the hash of the one before and carries its own.\<close>

primrec chained :: "('e \<Rightarrow> string) \<Rightarrow> ('e \<Rightarrow> string) \<Rightarrow> ('e \<Rightarrow> string) \<Rightarrow> string \<Rightarrow> 'e list \<Rightarrow> bool" where
  "chained stored prev digest p [] \<longleftrightarrow> True"
| "chained stored prev digest p (e # es) \<longleftrightarrow> prev e = p \<and> stored e = digest e \<and> chained stored prev digest (stored e) es"

definition lastHash :: "('e \<Rightarrow> string) \<Rightarrow> string \<Rightarrow> 'e list \<Rightarrow> string" where
  "lastHash stored p es = (if es = [] then p else stored (last es))"

lemma lastHash_snoc [simp]: "lastHash stored p (es @ [e]) = stored e" "lastHash stored p [] = p"
  by (simp_all add: lastHash_def)

lemma chained_snoc:
  "chained stored prev digest p (es @ [e]) \<longleftrightarrow>
     chained stored prev digest p es \<and> prev e = lastHash stored p es \<and> stored e = digest e"
  by (induction es arbitrary: p) (auto simp: lastHash_def)

locale hash_chain =
  fixes stored :: "'e \<Rightarrow> string"
    and prev :: "'e \<Rightarrow> string"
    and payload :: "'e \<Rightarrow> 'b"
    and hash :: "'b \<Rightarrow> string"
  assumes payload_prev: "payload e = payload e' \<Longrightarrow> prev e = prev e'"
begin

lemma same_end:
  assumes "chained stored prev (\<lambda>e. hash (payload e)) [] es" "chained stored prev (\<lambda>e. hash (payload e)) [] es'"
    and "lastHash stored [] es = lastHash stored [] es'"
  shows "map payload es = map payload es' \<or> (\<exists>e. hash (payload e) = [])
    \<or> (\<exists>e \<in> set es. \<exists>e' \<in> set es'. payload e \<noteq> payload e' \<and> hash (payload e) = hash (payload e'))"
  using assms
proof (induction es arbitrary: es' rule: rev_induct)
  case Nil
  show ?case
  proof (cases es' rule: rev_cases)
    case (snoc ys y)
    then have "hash (payload y) = []" using Nil.prems by (simp add: chained_snoc)
    then show ?thesis by blast
  qed simp
next
  case (snoc x xs)
  show ?case
  proof (cases es' rule: rev_cases)
    case Nil
    then show ?thesis using snoc.prems by (auto simp: chained_snoc)
  next
    case (snoc ys y)
    have h: "hash (payload x) = hash (payload y)" using snoc.prems snoc by (auto simp: chained_snoc)
    show ?thesis
    proof (cases "payload x = payload y")
      case False
      then show ?thesis using h snoc by auto
    next
      case True
      then have "lastHash stored [] xs = lastHash stored [] ys"
        using payload_prev [OF True] snoc.prems snoc by (simp add: chained_snoc)
      from snoc.IH [OF _ _ this] snoc.prems snoc True show ?thesis by (auto simp: chained_snoc)
    qed
  qed
qed

end

text \<open>The entries of the audit file.\<close>

definition eventChain :: "'rx auditEnv \<Rightarrow> string \<Rightarrow> auditEvent list \<Rightarrow> bool" where
  "eventChain A = chained e_Hash e_PrevHash (hashEvent A)"

definition payloadHash :: "'rx auditEnv \<Rightarrow> jval \<Rightarrow> string" where
  "payloadHash A j = ae_sha A (case ae_json A j of None \<Rightarrow> [] | Some b \<Rightarrow> b)"

lemma hashEvent_payload: "hashEvent A = (\<lambda>e. payloadHash A (canonEvent e))"
  by (simp add: fun_eq_iff hashEvent_def payloadHash_def)

interpretation events: hash_chain e_Hash e_PrevHash canonEvent "payloadHash A" for A
  by unfold_locales (simp add: canonEvent_def)

section \<open>Lemmas\<close>

lemma prepared_simps [simp]:
  "e_PrevHash (prepared A t prev e) = prev" "e_Hash (prepared A t prev e) = hashEvent A (prepared A t prev e)"
  "e_Data (prepared A t prev e) = SanitizeMap (redacted A) (e_Data e)" "e_Timestamp (prepared A t prev e) = t"
  "e_Type (prepared A t prev e) = e_Type e"
  by (simp_all add: prepared_def Let_def hashEvent_def canonEvent_def)

lemma canonKV_inj: "canonKV a = canonKV b \<longleftrightarrow> a = b"
  by (auto simp: canonKV_def prod_eq_iff)

text \<open>The text of a value: all the strings in it.\<close>

fun stringsOf :: "goAny \<Rightarrow> string list" where
  "stringsOf (AnyString s) = [s]"
| "stringsOf (AnyMap m) = concat (map (\<lambda>(k, v). stringsOf v) m)"
| "stringsOf (AnyList xs) = concat (map stringsOf xs)"
| "stringsOf (AnyStrings ss) = ss"
| "stringsOf (AnyOther x) = []"

text \<open>What redaction never looks at: the keys of maps, and values of any other type, typed containers included.\<close>

fun asIs :: "goAny \<Rightarrow> (string + string) list" where
  "asIs (AnyString s) = []"
| "asIs (AnyMap m) = concat (map (\<lambda>(k, v). Inl k # asIs v) m)"
| "asIs (AnyList xs) = concat (map asIs xs)"
| "asIs (AnyStrings ss) = []"
| "asIs (AnyOther x) = [Inr x]"

lemma asIs_sanitize: "asIs (sanitizeValue rd v) = asIs v"
  by (induction rd v rule: sanitizeValue.induct) (auto simp: comp_def split_def intro!: arg_cong [of _ _ concat])

lemma stringsOf_sanitize: "stringsOf (sanitizeValue rd v) = map rd (stringsOf v)"
  by (induction rd v rule: sanitizeValue.induct) (auto simp: map_concat comp_def split_def intro!: arg_cong [of _ _ concat])

text \<open>Same value: Go maps are equal whatever order their entries are listed in.\<close>

inductive sameAny :: "goAny \<Rightarrow> goAny \<Rightarrow> bool" where
  same_map: "\<lbrakk>distinct (map fst m); distinct (map fst m'); fst ` set m = fst ` set m';
    \<And>k v v'. (k, v) \<in> set m \<Longrightarrow> (k, v') \<in> set m' \<Longrightarrow> sameAny v v'\<rbrakk> \<Longrightarrow> sameAny (AnyMap m) (AnyMap m')"
| same_list: "list_all2 sameAny xs ys \<Longrightarrow> sameAny (AnyList xs) (AnyList ys)"
| same_string: "sameAny (AnyString s) (AnyString s)"
| same_strings: "sameAny (AnyStrings ss) (AnyStrings ss)"
| same_other: "sameAny (AnyOther x) (AnyOther x)"
monos list_all2_mono

lemma sort_key_fst:
  fixes m :: "('k::linorder \<times> 'v) list"
  assumes "distinct (map fst m)"
  shows "sort_key fst m = map (\<lambda>k. (k, the (map_of m k))) (sorted_list_of_set (fst ` set m))"
proof -
  let ?s = "sort_key fst m"
  have "mset (map fst ?s) = mset (map fst m)" by simp
  then have "distinct (map fst ?s)" using assms mset_eq_imp_distinct_iff by blast
  then have keys: "map fst ?s = sorted_list_of_set (fst ` set m)"
    by (intro sorted_distinct_set_unique) simp_all
  have "map (\<lambda>k. (k, the (map_of m k))) (map fst ?s) = ?s"
    unfolding map_map by (rule map_idI) (use assms in \<open>auto simp: map_of_is_SomeI\<close>)
  then show ?thesis unfolding keys by simp
qed

lemma canonicalize_map:
  assumes "distinct (map fst m)"
  shows "canonicalize (AnyMap m) = JArr (map (\<lambda>k. canonKV (k, canonicalize (the (map_of m k)))) (sorted_list_of_set (fst ` set m)))"
proof -
  have d: "distinct (map fst (map (\<lambda>(k, v). (k, canonicalize v)) m))" using assms by (simp add: comp_def split_def)
  have "map_of (map (\<lambda>(k, v). (k, canonicalize v)) m) k = map_option canonicalize (map_of m k)" for k
    by (simp add: map_of_map)
  moreover have "fst ` set (map (\<lambda>(k, v). (k, canonicalize v)) m) = fst ` set m" by (force simp: image_iff)
  ultimately show ?thesis
    using sort_key_fst [OF d] assms by (auto simp: map_of_is_SomeI intro!: arg_cong [of _ _ canonKV])
qed

lemma canonicalize_same: "sameAny v v' \<Longrightarrow> canonicalize v = canonicalize v'"
proof (induction rule: sameAny.induct)
  case (same_map m m')
  have "canonicalize (the (map_of m k)) = canonicalize (the (map_of m' k))" if "k \<in> fst ` set m" for k
  proof -
    from that obtain v where v: "(k, v) \<in> set m" by auto
    from that same_map.hyps(3) obtain v' where v': "(k, v') \<in> set m'" by auto
    show ?thesis using same_map.IH [OF v v'] same_map.hyps(1,2) v v' by (simp add: map_of_is_SomeI)
  qed
  then show ?case using same_map.hyps(1-3) by (simp add: canonicalize_map del: canonicalize.simps)
next
  case (same_list xs ys)
  then show ?case by (simp add: list_all2_conv_all_nth list_eq_iff_nth_eq)
qed simp_all

text \<open>
  What was logged can be read off the hashed form, except that it does not tell an empty map from an
  empty list: \<open>squash\<close> forgets that difference and \<open>uncanon\<close> undoes the rest.
\<close>

fun squash :: "jval \<Rightarrow> jval" where
  "squash (JArr xs) = JArr (map squash xs)"
| "squash (JObj kvs) = (if kvs = [] then JArr [] else JObj (map (\<lambda>(k, v). (k, squash v)) kvs))"
| "squash x = x"

fun entryKey :: "jval \<Rightarrow> string" where
  "entryKey (JObj [(_, JStr k), _]) = k"
| "entryKey _ = []"

fun entryVal :: "jval \<Rightarrow> jval" where
  "entryVal (JObj [_, (_, v)]) = v"
| "entryVal _ = JNull"

fun isObj :: "jval \<Rightarrow> bool" where
  "isObj (JObj _) \<longleftrightarrow> True"
| "isObj _ \<longleftrightarrow> False"

lemma entryVal_size: "size (entryVal x) \<le> size x"
  by (cases x rule: entryVal.cases) auto

function uncanon :: "jval \<Rightarrow> jval" where
  "uncanon (JArr xs) =
     (if xs \<noteq> [] \<and> isObj (hd xs) then JObj (map (\<lambda>x. (entryKey x, uncanon (entryVal x))) xs)
      else JArr (map uncanon xs))"
| "uncanon (JObj kvs) = JObj kvs"
| "uncanon (JStr s) = JStr s"
| "uncanon (JNum n) = JNum n"
| "uncanon (JTime t) = JTime t"
| "uncanon (JOther x) = JOther x"
| "uncanon JNull = JNull"
  by pat_completeness auto
termination
proof (relation "measure size", goal_cases)
  case (2 xs x)
  then show ?case using entryVal_size [of x] size_list_estimation' [of x xs "size x" size]
    by (simp add: less_Suc_eq_le le_trans)
next
  case (3 xs x)
  then show ?case using size_list_estimation' [of x xs "size x" size] by (simp add: less_Suc_eq_le)
qed simp

lemma insort_key_map: "insort_key fst (k, f v) (map (\<lambda>(k, v). (k, f v)) m) = map (\<lambda>(k, v). (k, f v)) (insort_key fst (k, v) m)"
  by (induction m) auto

lemma sort_key_map: "sort_key fst (map (\<lambda>(k, v). (k, f v)) m) = map (\<lambda>(k, v). (k, f v)) (sort_key fst m)"
  by (induction m) (auto simp: insort_key_map)

lemma canonicalize_notObj: "\<not> isObj (canonicalize v)"
  by (cases v) simp_all

lemma canonKV_simps [simp]: "isObj (canonKV kv)" "entryKey (canonKV kv) = fst kv" "entryVal (canonKV kv) = snd kv"
  by (simp_all add: canonKV_def)

lemma uncanon_canonicalize: "uncanon (canonicalize v) = squash (valueJson v)"
proof (induction v rule: valueJson.induct)
  case (1 m)
  then have "uncanon (canonicalize v) = squash (valueJson v)" if "(k, v) \<in> set (sort_key fst m)" for k v
    using that by auto
  then show ?case
    unfolding canonicalize.simps valueJson.simps sort_key_map by (cases "sort_key fst m") (auto, blast+)
next
  case (2 xs)
  then show ?case using canonicalize_notObj by (auto simp: hd_map)
qed (auto simp: hd_map)

lemma run_loggers_chain:
  assumes "eventChain A p (fl_out l)" "fl_prevSum l = lastHash e_Hash p (fl_out l)"
  shows "eventChain A p (fl_out (fst (LogFile A t werr e l)))
    \<and> fl_prevSum (fst (LogFile A t werr e l)) = lastHash e_Hash p (fl_out (fst (LogFile A t werr e l)))"
  using assms by (auto simp: LogFile_def Let_def eventChain_def chained_snoc split: option.splits)

section \<open>Properties\<close>

text \<open>A run of the file logger: the events with the time and the outcome of the write.\<close>

fun runLog :: "'rx auditEnv \<Rightarrow> (int \<times> string option \<times> auditEvent) list \<Rightarrow> fileLogger \<Rightarrow> fileLogger" where
  "runLog A [] l = l"
| "runLog A ((t, werr, e) # calls) l = runLog A calls (fst (LogRotating A t werr e l))"

lemma runLog_chain:
  assumes "eventChain A p (fl_out l)" "fl_prevSum l = lastHash e_Hash p (fl_out l)"
  shows "eventChain A p (fl_out (runLog A calls l)) \<and> fl_prevSum (runLog A calls l) = lastHash e_Hash p (fl_out (runLog A calls l))"
  using assms
proof (induction A calls l rule: runLog.induct)
  case (2 A t werr e calls l)
  with run_loggers_chain [OF 2(2,3), of t werr "e\<lparr>e_Data := SanitizeMap (redacted A) (e_Data e)\<rparr>"]
  show ?case by (simp add: LogRotating_def)
qed simp

text \<open>
  What an entry shows of the data it was made from: the strings that are values, elements of \<^verbatim>\<open>[]any\<close> or \<^verbatim>\<open>[]string\<close>, or such
  values of nested maps, are redacted, once by each logger; all else is as it was given.
\<close>

definition showsOf :: "(string \<Rightarrow> string) \<Rightarrow> goData \<Rightarrow> goData \<Rightarrow> bool" where
  "showsOf rd d0 d \<longleftrightarrow> (case (d0, d) of
     (Some m0, Some m) \<Rightarrow> stringsOf (AnyMap m) = map (\<lambda>s. rd (rd s)) (stringsOf (AnyMap m0)) \<and> asIs (AnyMap m) = asIs (AnyMap m0)
   | (None, None) \<Rightarrow> True
   | _ \<Rightarrow> False)"

lemma showsOf_sanitized: "showsOf rd d (SanitizeMap rd (SanitizeMap rd d))"
proof (cases d)
  case (Some m)
  let ?s = "\<lambda>m. map (\<lambda>(k, v). (k, sanitizeValue rd v)) m"
  have "AnyMap (?s (?s m)) = sanitizeValue rd (sanitizeValue rd (AnyMap m))" by simp
  then have "stringsOf (AnyMap (?s (?s m))) = map (\<lambda>s. rd (rd s)) (stringsOf (AnyMap m))" "asIs (AnyMap (?s (?s m))) = asIs (AnyMap m)"
    by (simp_all only: stringsOf_sanitize asIs_sanitize map_map comp_def)
  with Some show ?thesis by (simp only: showsOf_def SanitizeMap_def option.map prod.case option.case simp_thms)
qed (simp add: showsOf_def SanitizeMap_def)

definition entryOf :: "'rx auditEnv \<Rightarrow> (int \<times> string option \<times> auditEvent) list \<Rightarrow> auditEvent \<Rightarrow> bool" where
  "entryOf A calls e \<longleftrightarrow> (\<exists>t e0. (t, None, e0) \<in> set calls \<and> e_Timestamp e = t \<and> e_Type e = e_Type e0
     \<and> showsOf (redacted A) (e_Data e0) (e_Data e))"

lemma LogRotating_entry:
  "e \<in> set (fl_out (fst (LogRotating A t werr e0 l))) \<Longrightarrow> e \<in> set (fl_out l) \<or> entryOf A [(t, werr, e0)] e"
  by (auto simp: LogRotating_def LogFile_def prepared_def entryOf_def showsOf_sanitized Let_def split: option.splits if_splits)

lemma runLog_entries: "e \<in> set (fl_out (runLog A calls l)) \<Longrightarrow> e \<in> set (fl_out l) \<or> entryOf A calls e"
proof (induction A calls l rule: runLog.induct)
  case (2 A t werr e0 calls l)
  then have "e \<in> set (fl_out (fst (LogRotating A t werr e0 l))) \<or> entryOf A calls e" by simp
  then show ?case using LogRotating_entry [of e A t werr e0 l] by (auto simp: entryOf_def)
qed simp

text \<open>
  C16. However many events are logged, with writes failing in between, the entries a new file logger
  writes form a hash chain from the empty hash, and the logger holds the last hash. Each entry is that of a call
  whose write did not fail, with its time and type; in its data every string that is a value, an element of a \<^verbatim>\<open>[]any\<close> or a
  \<^verbatim>\<open>[]string\<close>, or a value of a nested \<^verbatim>\<open>map[string]any\<close> has been redacted, and keys and values of other types, typed
  maps and slices included, are as they were given.
\<close>

theorem audit_chain:
  "eventChain A [] (fl_out (runLog A calls (NewFileLogger [])))
   \<and> fl_prevSum (runLog A calls (NewFileLogger [])) = lastHash e_Hash [] (fl_out (runLog A calls (NewFileLogger [])))
   \<and> (\<forall>e \<in> set (fl_out (runLog A calls (NewFileLogger []))). \<exists>t e0. (t, None, e0) \<in> set calls
        \<and> e_Timestamp e = t \<and> e_Type e = e_Type e0 \<and> showsOf (redacted A) (e_Data e0) (e_Data e))"
proof -
  let ?l = "runLog A calls (NewFileLogger [])"
  have "entryOf A calls e" if "e \<in> set (fl_out ?l)" for e using runLog_entries [OF that] by (simp add: NewFileLogger_def)
  moreover have "eventChain A [] (fl_out ?l) \<and> fl_prevSum ?l = lastHash e_Hash [] (fl_out ?l)"
    by (rule runLog_chain) (simp_all add: NewFileLogger_def eventChain_def)
  ultimately show ?thesis by (simp add: entryOf_def)
qed

text \<open>
  C15. The chain is tamper evident: if two audit files check and end in the same hash, then they agree
  in the time, type, previous hash and hashed data of every entry, or they exhibit two payloads with
  the same hash. The only assumption on the hash is that it is never the empty text.
\<close>

theorem audit_tamper_evident:
  assumes "eventChain A [] es" "eventChain A [] es'" "lastHash e_Hash [] es = lastHash e_Hash [] es'" "\<forall>x. ae_sha A x \<noteq> []"
  shows "map canonEvent es = map canonEvent es'
    \<or> (\<exists>e \<in> set es. \<exists>e' \<in> set es'. canonEvent e \<noteq> canonEvent e' \<and> hashEvent A e = hashEvent A e')"
  using events.same_end [of A es es'] assms by (simp add: eventChain_def hashEvent_payload payloadHash_def)

text \<open>
  Hashing does not depend on the order in which Go iterates over maps, at any depth: events that
  differ only in that hash alike.
\<close>

theorem hash_ignores_map_order:
  assumes "sameAny (AnyMap m) (AnyMap m')"
  shows "hashEvent A (e\<lparr>e_Data := Some m\<rparr>) = hashEvent A (e\<lparr>e_Data := Some m'\<rparr>)"
  using canonicalize_same [OF assms] by (simp add: hashEvent_def canonEvent_def canonData_def)

text \<open>
  The hashed form determines what is written: values with the same canonical form are written
  as the same JSON, except that the hash does not tell an empty map from an empty list.
\<close>

theorem canonicalize_faithful:
  assumes "canonicalize v = canonicalize v'"
  shows "squash (valueJson v) = squash (valueJson v')"
  using assms uncanon_canonicalize by metis

text \<open>An empty map replaced by an empty list keeps the hash, though the file changes.\<close>

lemma empty_map_list_collide:
  "hashEvent A (e\<lparr>e_Data := Some [(k, AnyMap [])]\<rparr>) = hashEvent A (e\<lparr>e_Data := Some [(k, AnyList [])]\<rparr>)"
  "valueJson (AnyMap [(k, AnyMap [])]) \<noteq> valueJson (AnyMap [(k, AnyList [])])"
  by (simp_all add: hashEvent_def canonEvent_def canonData_def)

text \<open>
  After a restart the logger appends to the same file but begins a new chain, so the file as a whole
  no longer checks.
\<close>

lemma chained_append: "chained stored prev digest p (xs @ ys) \<longleftrightarrow>
    chained stored prev digest p xs \<and> chained stored prev digest (lastHash stored p xs) ys"
  by (induction xs arbitrary: p) (auto simp: lastHash_def)

lemma restart_breaks_chain:
  assumes "eventChain A [] es" "es \<noteq> []" "\<forall>x. ae_sha A x \<noteq> []"
    and "LogRotating A t werr e (NewFileLogger es) = (l, None)"
  shows "\<not> eventChain A [] (fl_out l)"
proof -
  let ?e = "e\<lparr>e_Data := SanitizeMap (redacted A) (e_Data e)\<rparr>"
  have out: "fl_out l = es @ [prepared A t [] ?e]"
    using assms(4) by (auto simp: LogRotating_def LogFile_def NewFileLogger_def Let_def split: option.splits)
  obtain xs x where x: "es = xs @ [x]" using assms(2) by (cases es rule: rev_cases) auto
  then have "e_Hash x \<noteq> []" using assms(1,3) by (auto simp: eventChain_def chained_snoc hashEvent_def)
  then show ?thesis unfolding out eventChain_def chained_snoc by (simp add: x)
qed

text \<open>
  The Kafka logger panics exactly when the event has no data, could be encoded and was published
  with a message identifier: the event is sent and then the process panics instead of returning.
\<close>

theorem LogKafka_panic_iff:
  "snd (LogKafka A rfc3339 t pub e sent) = LogPanic
   \<longleftrightarrow> e_Data e = None \<and> ae_json A (eventJson (hashed A t e)) \<noteq> None \<and> (\<exists>mid. pub = Inr (Some mid) \<and> mid \<noteq> [])"
  by (auto simp: LogKafka_def hashed_def SanitizeMap_def Let_def split: option.splits sum.splits)

text \<open>Neither the Kafka nor the PostgreSQL logger links events: the previous hash is the caller's.\<close>

lemma sinks_not_chained:
  "snd (LogPostgres A t x e rows) = Logged \<Longrightarrow> e_PrevHash (last (fst (LogPostgres A t x e rows))) = e_PrevHash e"
  "snd (LogKafka A f t pub e sent) = Logged \<Longrightarrow> e_PrevHash (fst (last (fst (LogKafka A f t pub e sent)))) = e_PrevHash e"
  by (auto simp: LogPostgres_def LogKafka_def hashed_def Let_def split: option.splits sum.splits)

section \<open>A run\<close>

definition demoAudit :: "string auditEnv" where
  "demoAudit = \<lparr>ae_lib = litLib, ae_enabled = False, ae_rules = [], ae_json = (\<lambda>j. Some ''json''), ae_sha = (\<lambda>x. CHR ''0'' # x)\<rparr>"

definition demoEvent :: auditEvent where
  "demoEvent = \<lparr>e_Timestamp = 0, e_Type = ''login'', e_Data = Some [(''user'', AnyString ''ann''), (''ip'', AnyOther ''1'')],
     e_Hash = [], e_PrevHash = []\<rparr>"

definition demoFile :: "auditEvent list" where
  "demoFile = fl_out (fst (LogRotating demoAudit 1 None demoEvent (NewFileLogger [])))"

lemma demoFile_facts: "eventChain demoAudit [] demoFile" "demoFile \<noteq> []"
  by (simp_all add: demoFile_def demoAudit_def LogRotating_def LogFile_def NewFileLogger_def Let_def eventChain_def)

theorem audit_chain_witness:
  "eventChain demoAudit [] (fl_out (runLog demoAudit [(1, None, demoEvent), (2, Some ''disk full'', demoEvent), (3, None, demoEvent)]
     (NewFileLogger [])))"
  using audit_chain by blast

theorem audit_tamper_evident_witness:
  "demoFile \<noteq> [] \<and> (map canonEvent demoFile = map canonEvent demoFile
    \<or> (\<exists>e e'. canonEvent e \<noteq> canonEvent e' \<and> hashEvent demoAudit e = hashEvent demoAudit e'))"
  using audit_tamper_evident [OF demoFile_facts(1) demoFile_facts(1) refl] demoFile_facts(2) by (auto simp: demoAudit_def)

theorem hash_ignores_map_order_witness:
  "hashEvent demoAudit (demoEvent\<lparr>e_Data := Some [(''a'', AnyString ''x''), (''b'', AnyOther ''1'')]\<rparr>)
   = hashEvent demoAudit (demoEvent\<lparr>e_Data := Some [(''b'', AnyOther ''1''), (''a'', AnyString ''x'')]\<rparr>)"
  by (rule hash_ignores_map_order) (auto intro!: sameAny.intros)

theorem canonicalize_faithful_witness:
  "squash (valueJson (AnyList [AnyMap []])) = squash (valueJson (AnyList [AnyList []]))"
  by (rule canonicalize_faithful) simp

end
