(* ===== verification/Redis_Cache.thy ===== *)
theory Redis_Cache
  imports Go_Prelude
begin

text \<open>
  Redis as the caching repositories use it: \<^verbatim>\<open>GET\<close>, \<^verbatim>\<open>SET\<close> with a time to live, and
  \<^verbatim>\<open>DEL\<close>. An entry is a value with the time it expires. If Redis cannot be reached, a read is a
  miss and writes are lost, since the repositories ignore their errors. Keys are values of a datatype
  per repository, one constructor per key format: the formats are disjoint because a UUID has a fixed
  form.
\<close>

record redisEnv =
  re_now :: int
  re_ttl :: int
  re_up :: bool

type_synonym ('k, 'v) redis = "'k \<rightharpoonup> 'v \<times> int"

definition rGet :: "redisEnv \<Rightarrow> 'k \<Rightarrow> ('k, 'v) redis \<Rightarrow> 'v option" where
  "rGet E k R =
     (if \<not> re_up E then None
      else case R k of None \<Rightarrow> None | Some (v, expires) \<Rightarrow> if re_now E < expires then Some v else None)"

definition rSet :: "redisEnv \<Rightarrow> 'k \<Rightarrow> 'v \<Rightarrow> ('k, 'v) redis \<Rightarrow> ('k, 'v) redis" where
  "rSet E k v R = (if re_up E then R(k \<mapsto> (v, re_now E + re_ttl E)) else R)"

definition rDel :: "redisEnv \<Rightarrow> ('k \<Rightarrow> bool) \<Rightarrow> ('k, 'v) redis \<Rightarrow> ('k, 'v) redis" where
  "rDel E P R = (if re_up E then (\<lambda>k. if P k then None else R k) else R)"

text \<open>The pattern of every cached read: the entry if there is one, else the database, whose answer is cached.\<close>

definition readThrough :: "redisEnv \<Rightarrow> 'k \<Rightarrow> string + 'v \<Rightarrow> ('k, 'v) redis \<Rightarrow> ('k, 'v) redis \<times> (string + 'v)" where
  "readThrough E k src R =
     (case rGet E k R of
        Some v \<Rightarrow> (R, Inr v)
      | None \<Rightarrow> (case src of Inl e \<Rightarrow> (R, Inl e) | Inr v \<Rightarrow> (rSet E k v R, Inr v)))"

text \<open>Entries under the keys in \<open>P\<close> are what the database would answer.\<close>

definition fresh :: "('k \<Rightarrow> bool) \<Rightarrow> ('k \<Rightarrow> 'v option) \<Rightarrow> ('k, 'v) redis \<Rightarrow> bool" where
  "fresh P src R \<longleftrightarrow> (\<forall>k v x. P k \<longrightarrow> R k = Some (v, x) \<longrightarrow> src k = Some v)"

lemma fresh_empty [simp]: "fresh P src Map.empty"
  by (simp add: fresh_def)

lemma rGet_empty [simp]: "rGet E k (\<lambda>_. None) = None"
  by (simp add: rGet_def)

lemma rGet_SomeD: "rGet E k R = Some v \<Longrightarrow> \<exists>x. R k = Some (v, x) \<and> re_now E < x"
  by (auto simp: rGet_def split: if_splits option.splits)

lemma fresh_get: "fresh P src R \<Longrightarrow> P k \<Longrightarrow> rGet E k R = Some v \<Longrightarrow> src k = Some v"
  by (auto simp: fresh_def dest!: rGet_SomeD)

lemma fresh_set: "fresh P src R \<Longrightarrow> (P k \<Longrightarrow> src k = Some v) \<Longrightarrow> fresh P src (rSet E k v R)"
  by (auto simp: fresh_def rSet_def)

lemma fresh_change:
  assumes "fresh P src R" "re_up E" "\<And>k. P k \<Longrightarrow> \<not> D k \<Longrightarrow> src' k = src k"
  shows "fresh P src' (rDel E D R)"
  using assms by (auto simp: fresh_def rDel_def)

lemma fresh_del: "fresh P src R \<Longrightarrow> fresh P src (rDel E D R)"
  by (auto simp: fresh_def rDel_def)

lemma readThrough_fresh:
  assumes "fresh P src R" "P k \<Longrightarrow> src k = Some v"
  shows "fresh P src (fst (readThrough E k (Inr v) R))" "P k \<Longrightarrow> snd (readThrough E k (Inr v) R) = Inr v"
  using assms fresh_get [OF assms(1), of k E] fresh_set [OF assms(1), of k v E]
  by (auto simp: readThrough_def split: option.splits)

lemma readThrough_error [simp]: "fst (readThrough E k (Inl e) R) = R"
  by (simp add: readThrough_def split: option.splits)

end
