(* ===== verification/Assignment_Cache.thy ===== *)
theory Assignment_Cache
  imports Redis_Cache
begin

text \<open>
  Policy assignments: the table \<^verbatim>\<open>policy_assignments\<close> with the statements of
  \<^verbatim>\<open>internal/infrastructure/persistence/postgres/assignments.go\<close> under the constraints of
  \<^verbatim>\<open>migrations/0004_enterprise_schema.sql\<close>, and the Redis cache over it
  (\<^verbatim>\<open>redis_policy_assignment_cache.go\<close>). Each operation of the cache runs to its end before the
  next. Other database errors are arguments (those of the listings with their wrapping), as is the
  order in which the database lists rows with the same priority and creation time. One clock serves
  the program and the database.
\<close>

section \<open>The table\<close>

record assignment =
  as_ID :: uuid
  as_TenantID :: uuid
  as_PolicyID :: uuid
  as_TargetScope :: string
  as_Priority :: int
  as_Enabled :: bool
  as_CreatedAt :: int
  as_UpdatedAt :: int

text \<open>The columns of the unique constraint.\<close>

definition uniqueKey :: "assignment \<Rightarrow> uuid \<times> string \<times> uuid" where
  "uniqueKey a = (as_TenantID a, as_TargetScope a, as_PolicyID a)"

definition orIfZero :: "int \<Rightarrow> int \<Rightarrow> int" where
  "orIfZero d x = (if x = 0 then d else x)"

text \<open>The caller's assignment is filled in; identifier and time zero stand for \<^verbatim>\<open>uuid.Nil\<close> and the zero time.\<close>

definition pgCreate :: "string option \<Rightarrow> uuid \<Rightarrow> int \<Rightarrow> assignment \<Rightarrow> assignment list
    \<Rightarrow> assignment list \<times> assignment \<times> string option" where
  "pgCreate dbErr new t a rows =
     (let a1 = a\<lparr>as_ID := (if as_ID a = 0 then new else as_ID a), as_CreatedAt := orIfZero t (as_CreatedAt a),
                 as_UpdatedAt := orIfZero t (as_UpdatedAt a)\<rparr>
      in case dbErr of
           Some e \<Rightarrow> (rows, a1, Some (''create policy assignment: '' @ e))
         | None \<Rightarrow>
             if uniqueKey a1 \<in> set (map uniqueKey rows)
             then (map (\<lambda>r. if uniqueKey r = uniqueKey a1
                            then r\<lparr>as_Priority := as_Priority a1, as_Enabled := as_Enabled a1, as_UpdatedAt := as_UpdatedAt a1\<rparr>
                            else r) rows, a1, None)
             else if as_ID a1 \<in> set (map as_ID rows) then (rows, a1, Some ''create policy assignment: duplicate key'')
             else (rows @ [a1], a1, None))"

definition pgGet :: "string option \<Rightarrow> uuid \<Rightarrow> assignment list \<Rightarrow> string + assignment" where
  "pgGet dbErr i rows =
     (case dbErr of
        Some e \<Rightarrow> Inl (''get policy assignment: '' @ e)
      | None \<Rightarrow> (case find (\<lambda>r. as_ID r = i) rows of None \<Rightarrow> Inl ''get policy assignment: no rows in result set'' | Some r \<Rightarrow> Inr r))"

definition pgSelect :: "string option \<Rightarrow> (assignment list \<Rightarrow> assignment list) \<Rightarrow> (assignment \<Rightarrow> bool) \<Rightarrow> assignment list
    \<Rightarrow> string + assignment list" where
  "pgSelect dbErr ord P rows = (case dbErr of Some e \<Rightarrow> Inl e | None \<Rightarrow> Inr (ord (filter P rows)))"

definition ofTenant :: "uuid \<Rightarrow> assignment \<Rightarrow> bool" where
  "ofTenant t r \<longleftrightarrow> as_TenantID r = t"

definition ofPolicy :: "uuid \<Rightarrow> assignment \<Rightarrow> bool" where
  "ofPolicy p r \<longleftrightarrow> as_PolicyID r = p"

definition ofScope :: "uuid \<Rightarrow> string \<Rightarrow> assignment \<Rightarrow> bool" where
  "ofScope t s r \<longleftrightarrow> as_TenantID r = t \<and> as_TargetScope r = s \<and> as_Enabled r"

definition pgUpdate :: "string option \<Rightarrow> int \<Rightarrow> assignment \<Rightarrow> assignment list
    \<Rightarrow> assignment list \<times> assignment \<times> string option" where
  "pgUpdate dbErr t a rows =
     (let a1 = a\<lparr>as_UpdatedAt := t\<rparr>;
          upd = (\<lambda>r. if as_ID r = as_ID a1
                     then r\<lparr>as_TargetScope := as_TargetScope a1, as_Priority := as_Priority a1, as_Enabled := as_Enabled a1,
                            as_UpdatedAt := as_UpdatedAt a1\<rparr>
                     else r)
      in case dbErr of
           Some e \<Rightarrow> (rows, a1, Some (''update policy assignment: '' @ e))
         | None \<Rightarrow>
             if as_ID a1 \<notin> set (map as_ID rows) then (rows, a1, Some ''policy assignment not found'')
             else if \<not> distinct (map uniqueKey (map upd rows)) then (rows, a1, Some ''update policy assignment: duplicate key'')
             else (map upd rows, a1, None))"

definition pgDelete :: "string option \<Rightarrow> uuid \<Rightarrow> assignment list \<Rightarrow> assignment list \<times> string option" where
  "pgDelete dbErr i rows =
     (case dbErr of
        Some e \<Rightarrow> (rows, Some (''delete policy assignment: '' @ e))
      | None \<Rightarrow> if i \<notin> set (map as_ID rows) then (rows, Some ''policy assignment not found'')
                else (filter (\<lambda>r. as_ID r \<noteq> i) rows, None))"

definition pgDeleteByTenantAndPolicy :: "string option \<Rightarrow> uuid \<Rightarrow> uuid \<Rightarrow> assignment list \<Rightarrow> assignment list \<times> string option" where
  "pgDeleteByTenantAndPolicy dbErr t p rows =
     (case dbErr of Some e \<Rightarrow> (rows, Some (''delete policy assignments: '' @ e)) | None \<Rightarrow> (filter (\<lambda>r. ofTenant t r \<longrightarrow> \<not> ofPolicy p r) rows, None))"

section \<open>The cache\<close>

datatype assignKey = AssignmentKey uuid | TenantScopeKey uuid string | TenantKey uuid | PolicyKey uuid

datatype assignVal = OneOf assignment | ManyOf "assignment list"

record assignCache =
  ac_rows :: "assignment list"
  ac_redis :: "(assignKey, assignVal) redis"

definition cacheAssignment :: "redisEnv \<Rightarrow> assignment \<Rightarrow> (assignKey, assignVal) redis \<Rightarrow> (assignKey, assignVal) redis" where
  "cacheAssignment E a R = rSet E (AssignmentKey (as_ID a)) (OneOf a) R"

text \<open>The keys matching \<^verbatim>\<open>assignments:tenant:<id>*\<close>.\<close>

fun tenantCollection :: "uuid \<Rightarrow> assignKey \<Rightarrow> bool" where
  "tenantCollection t (TenantScopeKey t' s) \<longleftrightarrow> t' = t"
| "tenantCollection t (TenantKey t') \<longleftrightarrow> t' = t"
| "tenantCollection t _ \<longleftrightarrow> False"

definition invalidateTenantCollections :: "redisEnv \<Rightarrow> uuid \<Rightarrow> (assignKey, assignVal) redis \<Rightarrow> (assignKey, assignVal) redis" where
  "invalidateTenantCollections E t R = rDel E (tenantCollection t) R"

definition CreateAssignment :: "redisEnv \<Rightarrow> string option \<Rightarrow> uuid \<Rightarrow> assignment \<Rightarrow> assignCache \<Rightarrow> assignCache \<times> string option" where
  "CreateAssignment E dbErr new a s =
     (case pgCreate dbErr new (re_now E) a (ac_rows s) of
        (rows, a1, Some e) \<Rightarrow> (s, Some e)
      | (rows, a1, None) \<Rightarrow>
          (\<lparr>ac_rows = rows,
            ac_redis = invalidateTenantCollections E (as_TenantID a1) (cacheAssignment E a1 (ac_redis s))\<rparr>, None))"

definition GetAssignment :: "redisEnv \<Rightarrow> string option \<Rightarrow> uuid \<Rightarrow> assignCache \<Rightarrow> assignCache \<times> (string + assignVal)" where
  "GetAssignment E dbErr i s =
     (case readThrough E (AssignmentKey i) (map_sum (\<lambda>e. e) OneOf (pgGet dbErr i (ac_rows s))) (ac_redis s) of
        (R, res) \<Rightarrow> (s\<lparr>ac_redis := R\<rparr>, res))"

definition listThrough :: "redisEnv \<Rightarrow> assignKey \<Rightarrow> string + assignment list \<Rightarrow> assignCache \<Rightarrow> assignCache \<times> (string + assignVal)" where
  "listThrough E k src s =
     (case readThrough E k (map_sum (\<lambda>e. e) ManyOf src) (ac_redis s) of (R, res) \<Rightarrow> (s\<lparr>ac_redis := R\<rparr>, res))"

definition ListAssignmentsByTenant :: "redisEnv \<Rightarrow> (assignment list \<Rightarrow> assignment list) \<Rightarrow> string option \<Rightarrow> uuid \<Rightarrow> assignCache
    \<Rightarrow> assignCache \<times> (string + assignVal)" where
  "ListAssignmentsByTenant E ord dbErr t s = listThrough E (TenantKey t) (pgSelect dbErr ord (ofTenant t) (ac_rows s)) s"

definition ListByPolicy :: "redisEnv \<Rightarrow> (assignment list \<Rightarrow> assignment list) \<Rightarrow> string option \<Rightarrow> uuid \<Rightarrow> assignCache
    \<Rightarrow> assignCache \<times> (string + assignVal)" where
  "ListByPolicy E ord dbErr p s = listThrough E (PolicyKey p) (pgSelect dbErr ord (ofPolicy p) (ac_rows s)) s"

definition ListByScope :: "redisEnv \<Rightarrow> (assignment list \<Rightarrow> assignment list) \<Rightarrow> string option \<Rightarrow> uuid \<Rightarrow> string \<Rightarrow> assignCache
    \<Rightarrow> assignCache \<times> (string + assignVal)" where
  "ListByScope E ord dbErr t sc s = listThrough E (TenantScopeKey t sc) (pgSelect dbErr ord (ofScope t sc) (ac_rows s)) s"

text \<open>\<open>getErr\<close> is the error of the read before the write, which is ignored.\<close>

definition UpdateAssignment :: "redisEnv \<Rightarrow> string option \<Rightarrow> string option \<Rightarrow> assignment \<Rightarrow> assignCache \<Rightarrow> assignCache \<times> string option" where
  "UpdateAssignment E getErr dbErr a s =
     (let old = pgGet getErr (as_ID a) (ac_rows s)
      in case pgUpdate dbErr (re_now E) a (ac_rows s) of
           (rows, a1, Some e) \<Rightarrow> (s, Some e)
         | (rows, a1, None) \<Rightarrow>
             (let R = invalidateTenantCollections E (as_TenantID a1) (cacheAssignment E a1 (ac_redis s));
                  R' = (case old of
                          Inl _ \<Rightarrow> R
                        | Inr o' \<Rightarrow> if as_TenantID o' \<noteq> as_TenantID a1 then invalidateTenantCollections E (as_TenantID o') R else R)
              in (\<lparr>ac_rows = rows, ac_redis = R'\<rparr>, None)))"

definition DeleteAssignment :: "redisEnv \<Rightarrow> string option \<Rightarrow> string option \<Rightarrow> uuid \<Rightarrow> assignCache \<Rightarrow> assignCache \<times> string option" where
  "DeleteAssignment E getErr dbErr i s =
     (let old = pgGet getErr i (ac_rows s)
      in case pgDelete dbErr i (ac_rows s) of
           (rows, Some e) \<Rightarrow> (s, Some e)
         | (rows, None) \<Rightarrow>
             (let R = rDel E (\<lambda>k. k = AssignmentKey i) (ac_redis s);
                  R' = (case old of Inl _ \<Rightarrow> R | Inr o' \<Rightarrow> invalidateTenantCollections E (as_TenantID o') R)
              in (\<lparr>ac_rows = rows, ac_redis = R'\<rparr>, None)))"

definition DeleteByTenantAndPolicy :: "redisEnv \<Rightarrow> string option \<Rightarrow> uuid \<Rightarrow> uuid \<Rightarrow> assignCache \<Rightarrow> assignCache \<times> string option" where
  "DeleteByTenantAndPolicy E dbErr t p s =
     (case pgDeleteByTenantAndPolicy dbErr t p (ac_rows s) of
        (rows, Some e) \<Rightarrow> (s, Some e)
      | (rows, None) \<Rightarrow>
          (\<lparr>ac_rows = rows,
            ac_redis = rDel E (\<lambda>k. k = PolicyKey p) (invalidateTenantCollections E t (ac_redis s))\<rparr>, None))"

section \<open>Runs\<close>

datatype assignOp =
    OpCreate "string option" uuid assignment
  | OpGet "string option" uuid
  | OpListTenant "string option" uuid
  | OpListPolicy "string option" uuid
  | OpListScope "string option" uuid string
  | OpUpdate "string option" "string option" assignment
  | OpDelete "string option" "string option" uuid
  | OpDeletePair "string option" uuid uuid

fun applyAssign :: "(assignment list \<Rightarrow> assignment list) \<Rightarrow> redisEnv \<times> assignOp \<Rightarrow> assignCache \<Rightarrow> assignCache" where
  "applyAssign ord (E, OpCreate dbErr new a) s = fst (CreateAssignment E dbErr new a s)"
| "applyAssign ord (E, OpGet dbErr i) s = fst (GetAssignment E dbErr i s)"
| "applyAssign ord (E, OpListTenant dbErr t) s = fst (ListAssignmentsByTenant E ord dbErr t s)"
| "applyAssign ord (E, OpListPolicy dbErr p) s = fst (ListByPolicy E ord dbErr p s)"
| "applyAssign ord (E, OpListScope dbErr t sc) s = fst (ListByScope E ord dbErr t sc s)"
| "applyAssign ord (E, OpUpdate getErr dbErr a) s = fst (UpdateAssignment E getErr dbErr a s)"
| "applyAssign ord (E, OpDelete getErr dbErr i) s = fst (DeleteAssignment E getErr dbErr i s)"
| "applyAssign ord (E, OpDeletePair dbErr t p) s = fst (DeleteByTenantAndPolicy E dbErr t p s)"

text \<open>Redis answers, and the read before a write succeeds.\<close>

fun undisturbed :: "redisEnv \<times> assignOp \<Rightarrow> bool" where
  "undisturbed (E, OpUpdate getErr dbErr a) \<longleftrightarrow> re_up E \<and> getErr = None"
| "undisturbed (E, OpDelete getErr dbErr i) \<longleftrightarrow> re_up E \<and> getErr = None"
| "undisturbed (E, _) \<longleftrightarrow> re_up E"

text \<open>What the database answers for the collections of a tenant.\<close>

fun scopeKey :: "assignKey \<Rightarrow> bool" where
  "scopeKey (TenantScopeKey _ _) \<longleftrightarrow> True"
| "scopeKey (TenantKey _) \<longleftrightarrow> True"
| "scopeKey _ \<longleftrightarrow> False"

fun answerFor :: "(assignment list \<Rightarrow> assignment list) \<Rightarrow> assignment list \<Rightarrow> assignKey \<Rightarrow> assignVal option" where
  "answerFor ord rows (TenantScopeKey t sc) = Some (ManyOf (ord (filter (ofScope t sc) rows)))"
| "answerFor ord rows (TenantKey t) = Some (ManyOf (ord (filter (ofTenant t) rows)))"
| "answerFor ord rows _ = None"

definition assignInv :: "(assignment list \<Rightarrow> assignment list) \<Rightarrow> assignCache \<Rightarrow> bool" where
  "assignInv ord s \<longleftrightarrow> fresh scopeKey (answerFor ord (ac_rows s)) (ac_redis s) \<and> distinct (map as_ID (ac_rows s))"

section \<open>Coherence\<close>

definition changesOnly :: "uuid set \<Rightarrow> assignment list \<Rightarrow> assignment list \<Rightarrow> bool" where
  "changesOnly Ts rows rows' \<longleftrightarrow> (\<forall>t. t \<notin> Ts \<longrightarrow> filter (ofTenant t) rows' = filter (ofTenant t) rows)"

lemma filter_scope: "filter (ofScope t sc) rows = filter (\<lambda>r. as_TargetScope r = sc \<and> as_Enabled r) (filter (ofTenant t) rows)"
  by (induction rows) (auto simp: ofScope_def ofTenant_def)

lemma answerFor_same:
  assumes "changesOnly Ts rows rows'" "scopeKey k" "\<forall>t \<in> Ts. \<not> tenantCollection t k"
  shows "answerFor ord rows' k = answerFor ord rows k"
proof (cases k)
  case (TenantScopeKey t sc)
  then have "filter (ofTenant t) rows' = filter (ofTenant t) rows" using assms by (auto simp: changesOnly_def)
  then show ?thesis by (simp only: TenantScopeKey answerFor.simps filter_scope)
next
  case (TenantKey t)
  then show ?thesis using assms by (auto simp: changesOnly_def)
qed (use assms(2) in simp_all)

lemma filter_map_other:
  assumes "\<And>r. r \<in> set rows \<Longrightarrow> as_TenantID (f r) = as_TenantID r" "\<And>r. r \<in> set rows \<Longrightarrow> as_TenantID r = t \<Longrightarrow> f r = r"
  shows "filter (ofTenant t) (map f rows) = filter (ofTenant t) rows"
  using assms by (induction rows) (auto simp: ofTenant_def)

lemma filter_filter_other:
  "(\<And>r. r \<in> set rows \<Longrightarrow> as_TenantID r = t \<Longrightarrow> P r) \<Longrightarrow> filter (ofTenant t) (filter P rows) = filter (ofTenant t) rows"
  by (induction rows) (auto simp: ofTenant_def)

lemma pgCreate_rows:
  assumes "pgCreate dbErr new t a rows = (rows', a1, None)" "distinct (map as_ID rows)"
  shows "changesOnly {as_TenantID a1} rows rows'" "distinct (map as_ID rows')"
proof -
  let ?f = "\<lambda>r. if uniqueKey r = uniqueKey a1
      then r\<lparr>as_Priority := as_Priority a1, as_Enabled := as_Enabled a1, as_UpdatedAt := as_UpdatedAt a1\<rparr> else r"
  from assms(1) have *: "rows' = map ?f rows \<or> (rows' = rows @ [a1] \<and> as_ID a1 \<notin> set (map as_ID rows))"
    by (auto simp: pgCreate_def Let_def split: option.splits if_splits)
  have "changesOnly {as_TenantID a1} rows (map ?f rows)"
    unfolding changesOnly_def by (intro allI impI filter_map_other) (auto simp: uniqueKey_def)
  moreover have "changesOnly {as_TenantID a1} rows (rows @ [a1])" by (auto simp: changesOnly_def ofTenant_def)
  ultimately show "changesOnly {as_TenantID a1} rows rows'" using * by blast
  have "map as_ID (map ?f rows) = map as_ID rows" by simp
  then have "distinct (map as_ID (map ?f rows))" using assms(2) by (simp only:)
  with * assms(2) show "distinct (map as_ID rows')" by auto
qed

lemma find_row: "distinct (map as_ID rows) \<Longrightarrow> r \<in> set rows \<Longrightarrow> find (\<lambda>x. as_ID x = as_ID r) rows = Some r"
  by (induction rows) (auto simp: image_iff)

lemma pgUpdate_rows:
  assumes "pgUpdate dbErr t a rows = (rows', a1, None)" "distinct (map as_ID rows)"
  shows "\<exists>old. pgGet None (as_ID a) rows = Inr old \<and> changesOnly {as_TenantID old} rows rows' \<and> distinct (map as_ID rows')"
proof -
  let ?f = "\<lambda>r. if as_ID r = as_ID a
      then r\<lparr>as_TargetScope := as_TargetScope a, as_Priority := as_Priority a, as_Enabled := as_Enabled a, as_UpdatedAt := t\<rparr> else r"
  from assms(1) have r: "rows' = map ?f rows" "as_ID a \<in> set (map as_ID rows)"
    by (auto simp: pgUpdate_def Let_def split: option.splits if_splits)
  then obtain old where old: "old \<in> set rows" "as_ID old = as_ID a" by auto
  then have g: "find (\<lambda>x. as_ID x = as_ID a) rows = Some old" using find_row [OF assms(2) old(1)] by simp
  have "r = old" if "r \<in> set rows" "as_ID r = as_ID a" for r
    using find_row [OF assms(2) that(1)] g that(2) by simp
  then have "changesOnly {as_TenantID old} rows rows'"
    unfolding r(1) changesOnly_def by (intro allI impI filter_map_other) auto
  moreover have "map as_ID rows' = map as_ID rows" by (simp add: r(1))
  ultimately show ?thesis using assms(2) g by (simp add: pgGet_def)
qed

lemma pgDelete_rows:
  assumes "pgDelete dbErr i rows = (rows', None)" "distinct (map as_ID rows)"
  shows "\<exists>old. pgGet None i rows = Inr old \<and> changesOnly {as_TenantID old} rows rows' \<and> distinct (map as_ID rows')"
proof -
  from assms(1) have r: "rows' = filter (\<lambda>r. as_ID r \<noteq> i) rows" "i \<in> set (map as_ID rows)"
    by (auto simp: pgDelete_def split: option.splits if_splits)
  then obtain old where old: "old \<in> set rows" "as_ID old = i" by auto
  then have g: "find (\<lambda>x. as_ID x = i) rows = Some old" using find_row [OF assms(2) old(1)] by simp
  have "r = old" if "r \<in> set rows" "as_ID r = i" for r
    using find_row [OF assms(2) that(1)] g that(2) by simp
  then have "changesOnly {as_TenantID old} rows rows'"
    unfolding r(1) changesOnly_def by (intro allI impI filter_filter_other) auto
  moreover have "distinct (map as_ID rows')" using assms(2) by (simp add: r(1) distinct_map_filter)
  ultimately show ?thesis using g by (simp add: pgGet_def)
qed

lemma assignInv_write:
  assumes "assignInv ord s" "changesOnly Ts (ac_rows s) rows" "distinct (map as_ID rows)" "re_up E"
    and "\<And>k. scopeKey k \<Longrightarrow> (\<exists>t \<in> Ts. tenantCollection t k) \<Longrightarrow> R k = None"
    and "\<And>k. scopeKey k \<Longrightarrow> R k = None \<or> R k = ac_redis s k"
  shows "assignInv ord (\<lparr>ac_rows = rows, ac_redis = R\<rparr>)"
proof -
  have "answerFor ord rows k = Some v" if k: "scopeKey k" "R k = Some (v, x)" for k v x
  proof -
    from assms(5) k have "\<forall>t \<in> Ts. \<not> tenantCollection t k" by fastforce
    then have "answerFor ord rows k = answerFor ord (ac_rows s) k" using answerFor_same [OF assms(2) k(1)] by simp
    moreover have "ac_redis s k = Some (v, x)" using assms(6) [OF k(1)] k(2) by simp
    ultimately show ?thesis using assms(1) k(1) by (auto simp: assignInv_def fresh_def)
  qed
  then show ?thesis using assms(3) by (simp add: assignInv_def fresh_def)
qed

lemma assignInv_list:
  assumes "assignInv ord s" "scopeKey k \<Longrightarrow> answerFor ord (ac_rows s) k = Some (ManyOf (ord (filter P (ac_rows s))))"
  shows "assignInv ord (fst (listThrough E k (pgSelect dbErr ord P (ac_rows s)) s))"
    and "scopeKey k \<Longrightarrow> dbErr = None \<Longrightarrow> snd (listThrough E k (pgSelect dbErr ord P (ac_rows s)) s) = Inr (ManyOf (ord (filter P (ac_rows s))))"
proof -
  let ?v = "ManyOf (ord (filter P (ac_rows s)))"
  have f: "fresh scopeKey (answerFor ord (ac_rows s)) (ac_redis s)" using assms(1) by (simp add: assignInv_def)
  note r = readThrough_fresh [OF f, of k ?v E, OF assms(2)]
  show "assignInv ord (fst (listThrough E k (pgSelect dbErr ord P (ac_rows s)) s))"
  proof (cases dbErr)
    case None
    then show ?thesis using r(1) assms(1) by (simp add: listThrough_def pgSelect_def assignInv_def split_def)
  next
    case (Some e)
    then show ?thesis using assms(1) by (simp add: listThrough_def pgSelect_def assignInv_def split_def)
  qed
  show "snd (listThrough E k (pgSelect dbErr ord P (ac_rows s)) s) = Inr ?v" if "scopeKey k" "dbErr = None"
    using r(2) that by (simp add: listThrough_def pgSelect_def split_def)
qed

lemma invalidated: "re_up E \<Longrightarrow> tenantCollection t k \<Longrightarrow> invalidateTenantCollections E t R k = None"
  "invalidateTenantCollections E t R k = None \<or> invalidateTenantCollections E t R k = R k"
  "scopeKey k \<Longrightarrow> cacheAssignment E a R k = R k"
  by (auto simp: invalidateTenantCollections_def rDel_def cacheAssignment_def rSet_def)

definition shrinks :: "(assignKey, assignVal) redis \<Rightarrow> (assignKey, assignVal) redis \<Rightarrow> bool" where
  "shrinks R R' \<longleftrightarrow> (\<forall>k. scopeKey k \<longrightarrow> R' k = None \<or> R' k = R k)"

lemma shrinks_intros:
  "shrinks R R" "shrinks R R' \<Longrightarrow> shrinks R (invalidateTenantCollections E t R')"
  "shrinks R R' \<Longrightarrow> shrinks R (cacheAssignment E a R')" "shrinks R R' \<Longrightarrow> shrinks R (rDel E D R')"
  by (auto simp: shrinks_def invalidateTenantCollections_def rDel_def cacheAssignment_def rSet_def)

lemma assignInv_tenant:
  assumes "assignInv ord s" "changesOnly {t} (ac_rows s) rows" "distinct (map as_ID rows)" "re_up E"
    and "shrinks (ac_redis s) R" "\<And>k. tenantCollection t k \<Longrightarrow> R k = None"
  shows "assignInv ord (\<lparr>ac_rows = rows, ac_redis = R\<rparr>)"
  by (rule assignInv_write [OF assms(1-4)]) (use assms(5,6) in \<open>auto simp: shrinks_def\<close>)

lemma assignInv_Create:
  assumes "assignInv ord s" "re_up E"
  shows "assignInv ord (fst (CreateAssignment E dbErr new a s))"
proof -
  obtain rows a1 err where c: "pgCreate dbErr new (re_now E) a (ac_rows s) = (rows, a1, err)" by (metis prod_cases3)
  show ?thesis
  proof (cases err)
    case None
    have d: "distinct (map as_ID (ac_rows s))" using assms(1) by (simp add: assignInv_def)
    note r = pgCreate_rows [OF c [unfolded None] d]
    show ?thesis
      using None c by (simp add: CreateAssignment_def)
        (rule assignInv_tenant [OF assms(1) r assms(2)], auto intro!: shrinks_intros simp: invalidated assms(2))
  qed (use c assms(1) in \<open>simp add: CreateAssignment_def\<close>)
qed

lemma assignInv_Update:
  assumes "assignInv ord s" "re_up E"
  shows "assignInv ord (fst (UpdateAssignment E None dbErr a s))"
proof -
  obtain rows a1 err where c: "pgUpdate dbErr (re_now E) a (ac_rows s) = (rows, a1, err)" by (metis prod_cases3)
  show ?thesis
  proof (cases err)
    case None
    have d: "distinct (map as_ID (ac_rows s))" using assms(1) by (simp add: assignInv_def)
    from pgUpdate_rows [OF c [unfolded None] d] obtain old where
      o: "pgGet None (as_ID a) (ac_rows s) = Inr old" "changesOnly {as_TenantID old} (ac_rows s) rows" "distinct (map as_ID rows)" by blast
    show ?thesis
      using None c o(1) by (simp add: UpdateAssignment_def Let_def)
        (intro conjI impI; rule assignInv_tenant [OF assms(1) o(2,3) assms(2)]; auto intro!: shrinks_intros simp: invalidated assms(2))
  qed (use c assms(1) in \<open>simp add: UpdateAssignment_def Let_def\<close>)
qed

lemma assignInv_Delete:
  assumes "assignInv ord s" "re_up E"
  shows "assignInv ord (fst (DeleteAssignment E None dbErr i s))"
proof -
  obtain rows err where c: "pgDelete dbErr i (ac_rows s) = (rows, err)" by (meson surj_pair)
  show ?thesis
  proof (cases err)
    case None
    have d: "distinct (map as_ID (ac_rows s))" using assms(1) by (simp add: assignInv_def)
    from pgDelete_rows [OF c [unfolded None] d] obtain old where
      o: "pgGet None i (ac_rows s) = Inr old" "changesOnly {as_TenantID old} (ac_rows s) rows" "distinct (map as_ID rows)" by blast
    show ?thesis
      using None c o(1) by (simp add: DeleteAssignment_def Let_def)
        (rule assignInv_tenant [OF assms(1) o(2,3) assms(2)], auto intro!: shrinks_intros simp: invalidated assms(2))
  qed (use c assms(1) in \<open>simp add: DeleteAssignment_def Let_def\<close>)
qed

lemma assignInv_DeletePair:
  assumes "assignInv ord s" "re_up E"
  shows "assignInv ord (fst (DeleteByTenantAndPolicy E dbErr t p s))"
proof (cases dbErr)
  case None
  let ?rows = "filter (\<lambda>r. ofTenant t r \<longrightarrow> \<not> ofPolicy p r) (ac_rows s)"
  have c: "changesOnly {t} (ac_rows s) ?rows"
    unfolding changesOnly_def by (intro allI impI filter_filter_other) (auto simp: ofTenant_def)
  have d: "distinct (map as_ID ?rows)" using assms(1) by (simp add: assignInv_def distinct_map_filter)
  show ?thesis
    using None by (simp add: DeleteByTenantAndPolicy_def pgDeleteByTenantAndPolicy_def)
      (rule assignInv_tenant [OF assms(1) c d assms(2)], intro shrinks_intros, auto simp: rDel_def invalidated assms(2))
qed (simp add: DeleteByTenantAndPolicy_def pgDeleteByTenantAndPolicy_def assms(1))

lemma assignInv_Get: "assignInv ord s \<Longrightarrow> assignInv ord (fst (GetAssignment E dbErr i s))"
  by (auto simp: GetAssignment_def assignInv_def readThrough_def fresh_def rSet_def split: option.splits sum.splits)

lemma assignInv_policy: "assignInv ord s \<Longrightarrow> assignInv ord (fst (ListByPolicy E ord dbErr p s))"
  unfolding ListByPolicy_def by (rule assignInv_list(1)) simp_all

lemma assignInv_step:
  assumes "assignInv ord s" "undisturbed c"
  shows "assignInv ord (applyAssign ord c s)"
proof -
  obtain E oper where c: "c = (E, oper)" by (meson surj_pair)
  then have "re_up E" using assms(2) by (cases oper) auto
  then show ?thesis
    using assms c by (cases oper)
      (simp_all add: assignInv_Create assignInv_Update assignInv_Delete assignInv_DeletePair assignInv_Get
        ListAssignmentsByTenant_def ListByScope_def assignInv_list assignInv_policy)
qed

lemma assignInv_run: "list_all undisturbed calls \<Longrightarrow> assignInv ord s \<Longrightarrow> assignInv ord (fold (applyAssign ord) calls s)"
  by (induction calls arbitrary: s) (auto intro: assignInv_step)

section \<open>Properties\<close>


text \<open>
  Listing by policy is not kept up: once a policy's list is cached, assigning the policy to
  another tenant does not change the answer until the entry expires.
\<close>

theorem policy_list_stale:
  assumes "re_up E" "rGet E (PolicyKey p) (ac_redis s) = None" "as_PolicyID a = p"
    and "s1 = fst (ListByPolicy E ord None p s)" "CreateAssignment E' None new a s1 = (s2, None)"
    and "re_up E''" "re_now E'' < re_now E + re_ttl E"
  shows "snd (ListByPolicy E'' ord None p s2) = Inr (ManyOf (ord (filter (ofPolicy p) (ac_rows s))))"
proof -
  let ?v = "ManyOf (ord (filter (ofPolicy p) (ac_rows s)))"
  have "ac_redis s1 (PolicyKey p) = Some (?v, re_now E + re_ttl E)"
    using assms(1,2,4) by (simp add: ListByPolicy_def listThrough_def pgSelect_def readThrough_def rSet_def)
  moreover have "ac_redis s2 (PolicyKey p) = ac_redis s1 (PolicyKey p)"
    using assms(5) by (auto simp: CreateAssignment_def invalidateTenantCollections_def rDel_def cacheAssignment_def rSet_def
        split: prod.splits option.splits)
  ultimately show ?thesis using assms(6,7) by (simp add: ListByPolicy_def listThrough_def readThrough_def rGet_def)
qed

text \<open>
  Removing the assignments of a tenant and policy leaves each of them in the cache under its own key,
  so it can still be fetched.
\<close>

lemma removed_assignment_served:
  assumes "re_up E" "rGet E (AssignmentKey i) (ac_redis s) = Some (OneOf a)" "DeleteByTenantAndPolicy E None t p s = (s', None)"
  shows "snd (GetAssignment E None i s') = Inr (OneOf a)"
  using assms by (auto simp: DeleteByTenantAndPolicy_def pgDeleteByTenantAndPolicy_def GetAssignment_def readThrough_def rGet_def
      invalidateTenantCollections_def rDel_def split: option.splits if_splits)

text \<open>
  Creating an assignment that exists already updates the row, which keeps its identifier, but caches
  the caller's copy under an identifier no row has.
\<close>

lemma phantom_assignment:
  assumes "r \<in> set (ac_rows s)" "uniqueKey r = uniqueKey a" "as_ID a \<noteq> 0" "as_ID a \<notin> set (map as_ID (ac_rows s))"
    and "re_up E" "0 < re_ttl E" "CreateAssignment E None new a s = (s', None)"
  shows "pgGet None (as_ID a) (ac_rows s') = Inl ''get policy assignment: no rows in result set''
    \<and> (\<exists>a'. snd (GetAssignment E None (as_ID a) s') = Inr (OneOf a'))"
proof -
  let ?a = "a\<lparr>as_CreatedAt := orIfZero (re_now E) (as_CreatedAt a), as_UpdatedAt := orIfZero (re_now E) (as_UpdatedAt a)\<rparr>"
  let ?f = "\<lambda>r. if uniqueKey r = uniqueKey ?a
      then r\<lparr>as_Priority := as_Priority ?a, as_Enabled := as_Enabled ?a, as_UpdatedAt := as_UpdatedAt ?a\<rparr> else r"
  have u: "uniqueKey ?a = uniqueKey a" by (simp add: uniqueKey_def)
  then have "uniqueKey ?a \<in> set (map uniqueKey (ac_rows s))" using assms(1,2) by (metis image_eqI image_set)
  then have "pgCreate None new (re_now E) a (ac_rows s) = (map ?f (ac_rows s), ?a, None)"
    using assms(3) by (simp add: pgCreate_def Let_def)
  then have s': "s' = \<lparr>ac_rows = map ?f (ac_rows s),
      ac_redis = invalidateTenantCollections E (as_TenantID ?a) (cacheAssignment E ?a (ac_redis s))\<rparr>"
    using assms(7) by (simp add: CreateAssignment_def)
  have ids: "map as_ID (map ?f (ac_rows s)) = map as_ID (ac_rows s)" by simp
  have "as_ID x \<noteq> as_ID a" if "x \<in> set (map ?f (ac_rows s))" for x
  proof -
    have "as_ID x \<in> set (map as_ID (map ?f (ac_rows s)))" using that unfolding set_map [of as_ID] by (rule imageI)
    then show ?thesis unfolding ids using assms(4) by metis
  qed
  then have "find (\<lambda>x. as_ID x = as_ID a) (ac_rows s') = None" unfolding s' by (simp only: assignCache.simps find_None_iff) blast
  moreover have "rGet E (AssignmentKey (as_ID a)) (ac_redis s') = Some (OneOf ?a)"
    using assms(5,6) by (simp add: s' rGet_def invalidateTenantCollections_def rDel_def cacheAssignment_def rSet_def)
  ultimately show ?thesis by (simp add: pgGet_def GetAssignment_def readThrough_def)
qed

section \<open>A run\<close>

definition demoAssignment :: assignment where
  "demoAssignment = \<lparr>as_ID = 1, as_TenantID = 7, as_PolicyID = 3, as_TargetScope = ''/v1'', as_Priority = 0, as_Enabled = True,
     as_CreatedAt = 0, as_UpdatedAt = 0\<rparr>"

definition demoRedis :: redisEnv where
  "demoRedis = \<lparr>re_now = 10, re_ttl = 600, re_up = True\<rparr>"

definition demoCalls :: "(redisEnv \<times> assignOp) list" where
  "demoCalls = [(demoRedis, OpListScope None 7 ''/v1''), (demoRedis, OpCreate None 2 demoAssignment)]"

definition demoCached :: assignCache where
  "demoCached = fold (applyAssign id) demoCalls \<lparr>ac_rows = [], ac_redis = Map.empty\<rparr>"


theorem policy_list_stale_witness:
  "\<exists>s2. CreateAssignment demoRedis None 2 demoAssignment (fst (ListByPolicy demoRedis id None 3 \<lparr>ac_rows = [], ac_redis = Map.empty\<rparr>)) = (s2, None)
     \<and> ac_rows s2 \<noteq> [] \<and> snd (ListByPolicy demoRedis id None 3 s2) = Inr (ManyOf [])"
proof -
  obtain s2 where s2: "CreateAssignment demoRedis None 2 demoAssignment
      (fst (ListByPolicy demoRedis id None 3 \<lparr>ac_rows = [], ac_redis = Map.empty\<rparr>)) = (s2, None)" "ac_rows s2 \<noteq> []"
    by (simp add: CreateAssignment_def pgCreate_def ListByPolicy_def listThrough_def pgSelect_def readThrough_def Let_def
        demoAssignment_def)
  from policy_list_stale [OF _ _ _ refl s2(1), of demoRedis] s2 show ?thesis
    by (simp add: demoRedis_def rGet_def demoAssignment_def)
qed

end
