(* ===== verification/Token_Cache.thy ===== *)
theory Token_Cache
  imports Redis_Cache Transitions
begin

text \<open>
  API tokens: the table \<^verbatim>\<open>api_tokens\<close> with the statements of
  \<^verbatim>\<open>internal/infrastructure/persistence/postgres/api_tokens.go\<close> under the constraints of
  \<^verbatim>\<open>migrations/0004_enterprise_schema.sql\<close>, and the Redis cache over it
  (\<^verbatim>\<open>redis_api_token_cache.go\<close>), which answers the authentication of every request. The hash of
  a token is never encoded, so a cached token has lost it.
\<close>

section \<open>The table\<close>

record apiToken =
  tk_ID :: uuid
  tk_TenantID :: uuid
  tk_TokenHash :: string
  tk_Name :: string
  tk_Scopes :: "string list"
  tk_ExpiresAt :: "int option"
  tk_LastUsed :: "int option"
  tk_CreatedAt :: int
  tk_RevokedAt :: "int option"

text \<open>\<^verbatim>\<open>INSERT\<close> leaves out the last use and the revocation.\<close>

definition pgInsertToken :: "string option \<Rightarrow> apiToken \<Rightarrow> apiToken list \<Rightarrow> apiToken list \<times> string option" where
  "pgInsertToken dbErr tok rows =
     (case dbErr of
        Some e \<Rightarrow> (rows, Some (''create api token: '' @ e))
      | None \<Rightarrow>
          if tk_ID tok \<in> set (map tk_ID rows) \<or> tk_TokenHash tok \<in> set (map tk_TokenHash rows)
          then (rows, Some ''create api token: duplicate key'')
          else (rows @ [tok\<lparr>tk_LastUsed := None, tk_RevokedAt := None\<rparr>], None))"

definition pgSelectToken :: "string option \<Rightarrow> uuid \<Rightarrow> apiToken list \<Rightarrow> string + apiToken" where
  "pgSelectToken dbErr i rows =
     (case dbErr of
        Some e \<Rightarrow> Inl (''get api token: '' @ e)
      | None \<Rightarrow> (case find (\<lambda>r. tk_ID r = i) rows of None \<Rightarrow> Inl ''api token not found'' | Some r \<Rightarrow> Inr r))"

definition validAt :: "int \<Rightarrow> apiToken \<Rightarrow> bool" where
  "validAt t r \<longleftrightarrow> tk_RevokedAt r = None \<and> (case tk_ExpiresAt r of None \<Rightarrow> True | Some x \<Rightarrow> t < x)"

definition pgSelectByHash :: "string option \<Rightarrow> int \<Rightarrow> string \<Rightarrow> apiToken list \<Rightarrow> string + apiToken" where
  "pgSelectByHash dbErr t h rows =
     (case dbErr of
        Some e \<Rightarrow> Inl (''get api token by hash: '' @ e)
      | None \<Rightarrow> (case find (\<lambda>r. tk_TokenHash r = h \<and> validAt t r) rows of
                   None \<Rightarrow> Inl ''api token not found or invalid'' | Some r \<Rightarrow> Inr r))"

definition pgTouch :: "string option \<Rightarrow> int \<Rightarrow> uuid \<Rightarrow> apiToken list \<Rightarrow> apiToken list \<times> string option" where
  "pgTouch dbErr t i rows =
     (case dbErr of
        Some e \<Rightarrow> (rows, Some (''update last used: '' @ e))
      | None \<Rightarrow> (map (\<lambda>r. if tk_ID r = i then r\<lparr>tk_LastUsed := Some t\<rparr> else r) rows, None))"

definition pgRevoke :: "string option \<Rightarrow> int \<Rightarrow> uuid \<Rightarrow> apiToken list \<Rightarrow> apiToken list \<times> string option" where
  "pgRevoke dbErr t i rows =
     (case dbErr of
        Some e \<Rightarrow> (rows, Some (''revoke api token: '' @ e))
      | None \<Rightarrow>
          if \<not> list_ex (\<lambda>r. tk_ID r = i \<and> tk_RevokedAt r = None) rows then (rows, Some ''api token not found or already revoked'')
          else (map (\<lambda>r. if tk_ID r = i \<and> tk_RevokedAt r = None then r\<lparr>tk_RevokedAt := Some t\<rparr> else r) rows, None))"

definition pgDeleteExpired :: "string option \<Rightarrow> int \<Rightarrow> apiToken list \<Rightarrow> apiToken list \<times> string option" where
  "pgDeleteExpired dbErr t rows =
     (case dbErr of
        Some e \<Rightarrow> (rows, Some (''delete expired tokens: '' @ e))
      | None \<Rightarrow> (filter (\<lambda>r. case tk_ExpiresAt r of None \<Rightarrow> True | Some x \<Rightarrow> \<not> x < t) rows, None))"

definition pgDeleteToken :: "string option \<Rightarrow> uuid \<Rightarrow> apiToken list \<Rightarrow> apiToken list \<times> string option" where
  "pgDeleteToken dbErr i rows =
     (case dbErr of
        Some e \<Rightarrow> (rows, Some (''delete api token: '' @ e))
      | None \<Rightarrow> if i \<notin> set (map tk_ID rows) then (rows, Some ''api token not found'')
                else (filter (\<lambda>r. tk_ID r \<noteq> i) rows, None))"

definition pgTokensOf :: "string option \<Rightarrow> uuid \<Rightarrow> apiToken list \<Rightarrow> string + apiToken list" where
  "pgTokensOf dbErr t rows =
     (case dbErr of
        Some e \<Rightarrow> Inl (''list api tokens by tenant: '' @ e)
      | None \<Rightarrow> Inr (sort_key (\<lambda>r. - tk_CreatedAt r) (filter (\<lambda>r. tk_TenantID r = t) rows)))"

section \<open>The cache\<close>

datatype tokenKey = TokenKey uuid | TokenHashKey string

text \<open>\<open>tc_used\<close> records the identifiers ever stored.\<close>

record tokenCache =
  tc_rows :: "apiToken list"
  tc_redis :: "(tokenKey, apiToken) redis"
  tc_used :: "uuid set"

text \<open>What JSON keeps of a token.\<close>

definition encoded :: "apiToken \<Rightarrow> apiToken" where
  "encoded tok = tok\<lparr>tk_TokenHash := []\<rparr>"

definition cacheToken :: "redisEnv \<Rightarrow> apiToken \<Rightarrow> (tokenKey, apiToken) redis \<Rightarrow> (tokenKey, apiToken) redis" where
  "cacheToken E tok R =
     (if tk_RevokedAt tok \<noteq> None then R
      else if (case tk_ExpiresAt tok of None \<Rightarrow> False | Some x \<Rightarrow> x < re_now E) then R
      else rSet E (TokenHashKey (tk_TokenHash tok)) (encoded tok) (rSet E (TokenKey (tk_ID tok)) (encoded tok) R))"

definition invalidateToken :: "redisEnv \<Rightarrow> apiToken \<Rightarrow> (tokenKey, apiToken) redis \<Rightarrow> (tokenKey, apiToken) redis" where
  "invalidateToken E tok R =
     rDel E (\<lambda>k. k = TokenHashKey (tk_TokenHash tok)) (rDel E (\<lambda>k. k = TokenKey (tk_ID tok)) R)"

definition fillToken :: "redisEnv \<Rightarrow> apiToken \<Rightarrow> tokenCache \<Rightarrow> tokenCache" where
  "fillToken E tok s = s\<lparr>tc_redis := cacheToken E tok (tc_redis s)\<rparr>"

definition CreateToken :: "redisEnv \<Rightarrow> string option \<Rightarrow> apiToken \<Rightarrow> tokenCache \<Rightarrow> tokenCache \<times> string option" where
  "CreateToken E dbErr tok s =
     (case pgInsertToken dbErr tok (tc_rows s) of
        (rows, Some e) \<Rightarrow> (s, Some e)
      | (rows, None) \<Rightarrow>
          (s\<lparr>tc_rows := rows, tc_redis := cacheToken E tok (tc_redis s), tc_used := insert (tk_ID tok) (tc_used s)\<rparr>, None))"

definition GetToken :: "redisEnv \<Rightarrow> string option \<Rightarrow> uuid \<Rightarrow> tokenCache \<Rightarrow> tokenCache \<times> (string + apiToken)" where
  "GetToken E dbErr i s =
     (case rGet E (TokenKey i) (tc_redis s) of
        Some v \<Rightarrow> (s, Inr v)
      | None \<Rightarrow>
          (case pgSelectToken dbErr i (tc_rows s) of
             Inl e \<Rightarrow> (s, Inl e)
           | Inr r \<Rightarrow> (fillToken E r s, Inr r)))"

text \<open>On a hit the last use is recorded by a goroutine of its own: \<open>UpdateLastUsed\<close> at some later time.\<close>

definition GetByHash :: "redisEnv \<Rightarrow> string option \<Rightarrow> string \<Rightarrow> tokenCache \<Rightarrow> tokenCache \<times> (string + apiToken)" where
  "GetByHash E dbErr h s =
     (case rGet E (TokenHashKey h) (tc_redis s) of
        Some v \<Rightarrow> (s, Inr v)
      | None \<Rightarrow>
          (case pgSelectByHash dbErr (re_now E) h (tc_rows s) of
             Inl e \<Rightarrow> (s, Inl e)
           | Inr r \<Rightarrow> (fillToken E r s, Inr r)))"

definition UpdateLastUsed :: "redisEnv \<Rightarrow> string option \<Rightarrow> uuid \<Rightarrow> tokenCache \<Rightarrow> tokenCache \<times> string option" where
  "UpdateLastUsed E dbErr i s =
     (case pgTouch dbErr (re_now E) i (tc_rows s) of
        (rows, Some e) \<Rightarrow> (s, Some e)
      | (rows, None) \<Rightarrow>
          (s\<lparr>tc_rows := rows,
             tc_redis := (case rGet E (TokenKey i) (tc_redis s) of
                            None \<Rightarrow> tc_redis s
                          | Some v \<Rightarrow> cacheToken E (v\<lparr>tk_LastUsed := Some (re_now E)\<rparr>) (tc_redis s))\<rparr>, None))"

definition RevokeToken :: "redisEnv \<Rightarrow> string option \<Rightarrow> string option \<Rightarrow> uuid \<Rightarrow> tokenCache \<Rightarrow> tokenCache \<times> string option" where
  "RevokeToken E getErr dbErr i s =
     (case pgSelectToken getErr i (tc_rows s) of
        Inl e \<Rightarrow> (s, Some e)
      | Inr r \<Rightarrow>
          (case pgRevoke dbErr (re_now E) i (tc_rows s) of
             (rows, Some e) \<Rightarrow> (s, Some e)
           | (rows, None) \<Rightarrow> (s\<lparr>tc_rows := rows, tc_redis := invalidateToken E r (tc_redis s)\<rparr>, None)))"

definition DeleteExpired :: "redisEnv \<Rightarrow> string option \<Rightarrow> tokenCache \<Rightarrow> tokenCache \<times> string option" where
  "DeleteExpired E dbErr s = (case pgDeleteExpired dbErr (re_now E) (tc_rows s) of (rows, e) \<Rightarrow> (s\<lparr>tc_rows := rows\<rparr>, e))"

section \<open>Runs\<close>

text \<open>Operations that run one after the other, with Redis answering and new identifiers new.\<close>

inductive tokenStep :: "tokenCache \<Rightarrow> tokenCache \<Rightarrow> bool" where
  create_token: "\<lbrakk>re_up E; tk_ID tok \<notin> tc_used s\<rbrakk> \<Longrightarrow> tokenStep s (fst (CreateToken E dbErr tok s))"
| get_token: "re_up E \<Longrightarrow> tokenStep s (fst (GetToken E dbErr i s))"
| get_by_hash: "re_up E \<Longrightarrow> tokenStep s (fst (GetByHash E dbErr h s))"
| touch_token: "re_up E \<Longrightarrow> tokenStep s (fst (UpdateLastUsed E dbErr i s))"
| revoke_token: "re_up E \<Longrightarrow> tokenStep s (fst (RevokeToken E getErr dbErr i s))"
| delete_expired: "re_up E \<Longrightarrow> tokenStep s (fst (DeleteExpired E dbErr s))"

definition noTokens :: tokenCache where
  "noTokens = \<lparr>tc_rows = [], tc_redis = Map.empty, tc_used = {}\<rparr>"

text \<open>Every entry under a hash is of a row with that hash that is not revoked, or of a row that is gone.\<close>

definition liveEntry :: "apiToken list \<Rightarrow> uuid set \<Rightarrow> string \<Rightarrow> apiToken \<Rightarrow> bool" where
  "liveEntry rows used h v \<longleftrightarrow> tk_ID v \<in> used
     \<and> (\<forall>r \<in> set rows. tk_ID r = tk_ID v \<longrightarrow> tk_TokenHash r = h \<and> tk_RevokedAt r = None)"

definition encodedOnly :: "(tokenKey, apiToken) redis \<Rightarrow> bool" where
  "encodedOnly R \<longleftrightarrow> (\<forall>k v x. R k = Some (v, x) \<longrightarrow> tk_TokenHash v = [])"

lemma encodedOnly_ops:
  "encodedOnly Map.empty" "encodedOnly R \<Longrightarrow> encodedOnly (cacheToken E tok R)" "encodedOnly R \<Longrightarrow> encodedOnly (invalidateToken E tok R)"
  by (auto simp: encodedOnly_def cacheToken_def rSet_def encoded_def invalidateToken_def rDel_def)

definition tokenInv :: "tokenCache \<Rightarrow> bool" where
  "tokenInv s \<longleftrightarrow>
     distinct (map tk_ID (tc_rows s)) \<and> tk_ID ` set (tc_rows s) \<subseteq> tc_used s \<and> encodedOnly (tc_redis s)
     \<and> (\<forall>h v x. h \<noteq> [] \<longrightarrow> tc_redis s (TokenHashKey h) = Some (v, x) \<longrightarrow> liveEntry (tc_rows s) (tc_used s) h v)"

lemma tokenInv_entry:
  "tokenInv s \<Longrightarrow> h \<noteq> [] \<Longrightarrow> tc_redis s (TokenHashKey h) = Some (v, x) \<Longrightarrow> liveEntry (tc_rows s) (tc_used s) h v"
  unfolding tokenInv_def by blast

lemma tokenInv_ids: "tokenInv s \<Longrightarrow> distinct (map tk_ID (tc_rows s))"
  by (simp add: tokenInv_def)

lemma tokenInv_new: "tokenInv noTokens"
  by (simp add: tokenInv_def noTokens_def encodedOnly_ops)

lemma cacheToken_hash:
  "h \<noteq> [] \<Longrightarrow> cacheToken E tok R (TokenHashKey h) = Some (v, x) \<Longrightarrow>
     R (TokenHashKey h) = Some (v, x) \<or> (h = tk_TokenHash tok \<and> v = encoded tok \<and> tk_RevokedAt tok = None)"
  by (auto simp: cacheToken_def rSet_def split: if_splits option.splits)

lemma find_token: "find P rows = Some r \<Longrightarrow> r \<in> set rows \<and> P r"
  by (auto simp: find_Some_iff)

lemma same_id: "distinct (map tk_ID rows) \<Longrightarrow> r \<in> set rows \<Longrightarrow> r' \<in> set rows \<Longrightarrow> tk_ID r = tk_ID r' \<Longrightarrow> r = r'"
  by (auto simp: distinct_map inj_on_def)

lemma tokenInv_cache:
  assumes "tokenInv s" "r \<in> set (tc_rows s)"
  shows "tokenInv (fillToken E r s)"
proof -
  have u: "tk_ID r \<in> tc_used s" and d: "distinct (map tk_ID (tc_rows s))" using assms by (auto simp: tokenInv_def)
  have "liveEntry (tc_rows s) (tc_used s) h v"
    if "h \<noteq> []" "cacheToken E r (tc_redis s) (TokenHashKey h) = Some (v, x)" for h v x
    using cacheToken_hash [OF that]
  proof
    assume "tc_redis s (TokenHashKey h) = Some (v, x)"
    then show ?thesis using tokenInv_entry [OF assms(1) that(1)] by blast
  next
    assume n: "h = tk_TokenHash r \<and> v = encoded r \<and> tk_RevokedAt r = None"
    have "q = r" if "q \<in> set (tc_rows s)" "tk_ID q = tk_ID v" for q
      using same_id [OF d that(1) assms(2)] that(2) n by (simp add: encoded_def)
    then have "tk_TokenHash q = h \<and> tk_RevokedAt q = None" if "q \<in> set (tc_rows s)" "tk_ID q = tk_ID v" for q
      using that n by blast
    moreover have "tk_ID v \<in> tc_used s" using u n by (simp add: encoded_def)
    ultimately show ?thesis by (simp add: liveEntry_def)
  qed
  then show ?thesis using assms(1) by (simp add: fillToken_def tokenInv_def encodedOnly_ops)
qed

text \<open>Rows may lose members and change what the cache does not depend on.\<close>

definition rowsFrom :: "apiToken list \<Rightarrow> apiToken list \<Rightarrow> bool" where
  "rowsFrom rows0 rows \<longleftrightarrow> distinct (map tk_ID rows) \<and> (\<forall>r \<in> set rows. \<exists>r' \<in> set rows0.
     tk_ID r' = tk_ID r \<and> tk_TokenHash r' = tk_TokenHash r \<and> tk_RevokedAt r' = tk_RevokedAt r)"

lemma liveEntry_rowsFrom: "rowsFrom rows0 rows \<Longrightarrow> liveEntry rows0 used h v \<Longrightarrow> liveEntry rows used h v"
  unfolding rowsFrom_def liveEntry_def by metis

lemma tokenInv_rows:
  assumes "tokenInv s" "rowsFrom (tc_rows s) rows"
  shows "tokenInv (s\<lparr>tc_rows := rows\<rparr>)"
proof -
  have "tk_ID ` set rows \<subseteq> tc_used s"
  proof
    fix i assume "i \<in> tk_ID ` set rows"
    then obtain r where r: "r \<in> set rows" "i = tk_ID r" by blast
    with assms(2) obtain r' where "r' \<in> set (tc_rows s)" "tk_ID r' = i" unfolding rowsFrom_def by metis
    then show "i \<in> tc_used s" using assms(1) unfolding tokenInv_def by blast
  qed
  moreover have "liveEntry rows (tc_used s) h v" if "h \<noteq> []" "tc_redis s (TokenHashKey h) = Some (v, x)" for h v x
    using liveEntry_rowsFrom [OF assms(2) tokenInv_entry [OF assms(1) that]] .
  ultimately show ?thesis using assms by (simp add: tokenInv_def rowsFrom_def)
qed

lemma tokenInv_Create:
  assumes "tokenInv s" "tk_ID tok \<notin> tc_used s"
  shows "tokenInv (fst (CreateToken E dbErr tok s))"
proof -
  obtain rows e where c: "pgInsertToken dbErr tok (tc_rows s) = (rows, e)" by (meson surj_pair)
  show ?thesis
  proof (cases e)
    case None
    let ?r = "tok\<lparr>tk_LastUsed := None, tk_RevokedAt := None\<rparr>"
    let ?s = "s\<lparr>tc_rows := tc_rows s @ [?r], tc_used := insert (tk_ID tok) (tc_used s)\<rparr>"
    have rows: "rows = tc_rows s @ [?r]" using c None by (auto simp: pgInsertToken_def split: option.splits if_splits)
    have I: "distinct (map tk_ID (tc_rows s))" "tk_ID ` set (tc_rows s) \<subseteq> tc_used s" "encodedOnly (tc_redis s)" using assms(1) by (auto simp: tokenInv_def)
    have "liveEntry (tc_rows ?s) (tc_used ?s) h v" if "h \<noteq> []" "cacheToken E tok (tc_redis s) (TokenHashKey h) = Some (v, x)" for h v x
      using cacheToken_hash [OF that]
    proof
      assume "tc_redis s (TokenHashKey h) = Some (v, x)"
      from tokenInv_entry [OF assms(1) that(1) this] show ?thesis using assms(2) by (auto simp: liveEntry_def)
    next
      assume "h = tk_TokenHash tok \<and> v = encoded tok \<and> tk_RevokedAt tok = None"
      then show ?thesis using assms(2) I(2) by (auto simp: liveEntry_def encoded_def)
    qed
    then show ?thesis
      using None c rows I assms(2) by (auto simp: CreateToken_def tokenInv_def encodedOnly_ops)
  qed (simp add: CreateToken_def c assms(1))
qed

lemma tokenInv_Get: "tokenInv s \<Longrightarrow> tokenInv (fst (GetToken E dbErr i s))"
  by (auto simp: GetToken_def pgSelectToken_def tokenInv_cache dest!: find_token split: option.splits sum.splits)

lemma tokenInv_GetByHash: "tokenInv s \<Longrightarrow> tokenInv (fst (GetByHash E dbErr h s))"
  by (auto simp: GetByHash_def pgSelectByHash_def tokenInv_cache dest!: find_token split: option.splits sum.splits)

lemma rowsFrom_map:
  assumes "distinct (map tk_ID rows)"
    and "\<And>r. tk_ID (f r) = tk_ID r \<and> tk_TokenHash (f r) = tk_TokenHash r \<and> tk_RevokedAt (f r) = tk_RevokedAt r"
  shows "rowsFrom rows (map f rows)"
proof -
  have "map tk_ID (map f rows) = map tk_ID rows" using assms(2) by simp
  then have "distinct (map tk_ID (map f rows))" using assms(1) by (simp only:)
  moreover have "\<exists>r' \<in> set rows. tk_ID r' = tk_ID r \<and> tk_TokenHash r' = tk_TokenHash r \<and> tk_RevokedAt r' = tk_RevokedAt r"
    if "r \<in> set (map f rows)" for r using that assms(2) by (metis imageE list.set_map)
  ultimately show ?thesis by (simp add: rowsFrom_def)
qed

lemma rowsFrom_filter: "distinct (map tk_ID rows) \<Longrightarrow> rowsFrom rows (filter P rows)"
  by (auto simp: rowsFrom_def distinct_map_filter)

lemma tokenInv_touch:
  assumes s: "tokenInv s" shows "tokenInv (fst (UpdateLastUsed E dbErr i s))"
proof (cases dbErr)
  case None
  let ?rows = "map (\<lambda>r. if tk_ID r = i then r\<lparr>tk_LastUsed := Some (re_now E)\<rparr> else r) (tc_rows s)"
  have "rowsFrom (tc_rows s) ?rows" using s by (intro rowsFrom_map) (auto simp: tokenInv_def)
  note I = tokenInv_rows [OF s this]
  show ?thesis
  proof (cases "rGet E (TokenKey i) (tc_redis s)")
    case (Some v)
    then obtain x where "tc_redis s (TokenKey i) = Some (v, x)" by (blast dest: rGet_SomeD)
    then have e: "tk_TokenHash v = []" using s unfolding tokenInv_def encodedOnly_def by blast
    let ?R = "cacheToken E (v\<lparr>tk_LastUsed := Some (re_now E)\<rparr>) (tc_redis s)"
    have "?R (TokenHashKey h) = tc_redis s (TokenHashKey h)" if "h \<noteq> []" for h
      using that e by (auto simp: cacheToken_def rSet_def)
    then have "tokenInv (s\<lparr>tc_rows := ?rows, tc_redis := ?R\<rparr>)"
      using I by (simp add: tokenInv_def encodedOnly_ops)
    then show ?thesis using None Some by (simp add: UpdateLastUsed_def pgTouch_def)
  qed (use I None in \<open>simp add: UpdateLastUsed_def pgTouch_def\<close>)
qed (simp add: UpdateLastUsed_def pgTouch_def s)

lemma tokenInv_DeleteExpired: "tokenInv s \<Longrightarrow> tokenInv (fst (DeleteExpired E dbErr s))"
  using tokenInv_rows [OF _ rowsFrom_filter, of s] by (cases dbErr) (simp_all add: DeleteExpired_def pgDeleteExpired_def tokenInv_ids)

lemma pgRevoke_rows:
  "pgRevoke dbErr t i rows0 = (rows, None) \<Longrightarrow>
     rows = map (\<lambda>r. if tk_ID r = i \<and> tk_RevokedAt r = None then r\<lparr>tk_RevokedAt := Some t\<rparr> else r) rows0"
  by (auto simp: pgRevoke_def split: option.splits if_splits)

lemma tokenInv_Revoke:
  assumes s: "tokenInv s" and up: "re_up E"
  shows "tokenInv (fst (RevokeToken E getErr dbErr i s))"
proof (cases "\<exists>r rows. pgSelectToken getErr i (tc_rows s) = Inr r \<and> pgRevoke dbErr (re_now E) i (tc_rows s) = (rows, None)")
  case True
  then obtain r rows where c: "pgSelectToken getErr i (tc_rows s) = Inr r" "pgRevoke dbErr (re_now E) i (tc_rows s) = (rows, None)" by blast
  let ?f = "\<lambda>r. if tk_ID r = i \<and> tk_RevokedAt r = None then r\<lparr>tk_RevokedAt := Some (re_now E)\<rparr> else r"
  have rows: "rows = map ?f (tc_rows s)" by (rule pgRevoke_rows [OF c(2)])
  have r: "r \<in> set (tc_rows s)" "tk_ID r = i" using c(1) by (auto simp: pgSelectToken_def dest!: find_token split: option.splits)
  have I: "distinct (map tk_ID (tc_rows s))" "tk_ID ` set (tc_rows s) \<subseteq> tc_used s" "encodedOnly (tc_redis s)"
    using s by (auto simp: tokenInv_def)
  have ids: "map tk_ID rows = map tk_ID (tc_rows s)" by (simp add: rows)
  have "liveEntry rows (tc_used s) h v"
    if h: "h \<noteq> []" "invalidateToken E r (tc_redis s) (TokenHashKey h) = Some (v, x)" for h v x
  proof -
    have e: "h \<noteq> tk_TokenHash r" "tc_redis s (TokenHashKey h) = Some (v, x)"
      using h(2) up by (auto simp: invalidateToken_def rDel_def split: if_splits)
    note l = tokenInv_entry [OF s h(1) e(2)]
    then have "tk_ID v \<noteq> i" using r e(1) unfolding liveEntry_def by metis
    then show ?thesis using l by (auto simp: liveEntry_def rows)
  qed
  moreover have "tk_ID ` set rows \<subseteq> tc_used s" using I(2) ids by (metis list.set_map)
  ultimately have "tokenInv (s\<lparr>tc_rows := rows, tc_redis := invalidateToken E r (tc_redis s)\<rparr>)"
    using I ids by (simp add: tokenInv_def encodedOnly_ops)
  then show ?thesis using c by (simp add: RevokeToken_def)
next
  case False
  then have "fst (RevokeToken E getErr dbErr i s) = s"
    by (auto simp: RevokeToken_def split: sum.splits prod.splits option.splits)
  then show ?thesis using s by simp
qed

lemma tokenInv_step: "tokenInv s \<Longrightarrow> tokenStep s s' \<Longrightarrow> tokenInv s'"
  by (erule tokenStep.cases)
    (simp_all add: tokenInv_Create tokenInv_Get tokenInv_GetByHash tokenInv_touch tokenInv_Revoke tokenInv_DeleteExpired)

interpretation tokens: step_invariant tokenStep tokenInv
  by unfold_locales (rule tokenInv_step)

section \<open>Revocation\<close>

lemma GetByHash_source:
  "snd (GetByHash E dbErr h s) = Inr v \<Longrightarrow>
     (\<exists>x. tc_redis s (TokenHashKey h) = Some (v, x)) \<or> (v \<in> set (tc_rows s) \<and> tk_TokenHash v = h \<and> tk_RevokedAt v = None)"
  by (auto simp: GetByHash_def pgSelectByHash_def validAt_def dest!: rGet_SomeD find_token split: option.splits sum.splits)

text \<open>
  C17. Once a token is revoked it is refused: if the operations of the token cache ran one after the
  other, from an empty table and an empty cache and with Redis answering every command (a failed
  deletion at the revocation would leave the cached token), then whatever an
  authentication by a hash returns, from the cache or the database, a row the table has for that token has
  that hash and is not revoked.
\<close>

theorem revoked_token_refused:
  assumes "tokenStep\<^sup>*\<^sup>* noTokens s" "h \<noteq> []" "snd (GetByHash E dbErr h s) = Inr v"
    and "r \<in> set (tc_rows s)" "tk_ID r = tk_ID v"
  shows "tk_TokenHash r = h \<and> tk_RevokedAt r = None"
proof -
  have I: "tokenInv s" using tokens.inv_run [OF assms(1) tokenInv_new] .
  from GetByHash_source [OF assms(3)] show ?thesis
  proof
    assume "\<exists>x. tc_redis s (TokenHashKey h) = Some (v, x)"
    then have "liveEntry (tc_rows s) (tc_used s) h v" using tokenInv_entry [OF I assms(2)] by blast
    then show ?thesis using assms(4,5) by (simp add: liveEntry_def)
  next
    assume v: "v \<in> set (tc_rows s) \<and> tk_TokenHash v = h \<and> tk_RevokedAt v = None"
    then have "r = v" using same_id [OF tokenInv_ids [OF I] assms(4)] assms(5) by blast
    then show ?thesis using v by simp
  qed
qed

text \<open>
  The order matters. An authentication that missed the cache has read the row and is about to fill
  the cache; the token is revoked and its keys are deleted; then the fill puts it back.
\<close>

lemma GetByHash_miss:
  assumes "rGet E (TokenHashKey h) (tc_redis s) = None" "pgSelectByHash dbErr (re_now E) h (tc_rows s) = Inr r"
  shows "GetByHash E dbErr h s = (fillToken E r s, Inr r)"
  using assms by (simp add: GetByHash_def)

lemma GetByHash_filled:
  assumes "validAt (re_now E0) r" "re_up E0" "re_up E" "re_now E < re_now E0 + re_ttl E0"
  shows "snd (GetByHash E dbErr (tk_TokenHash r) (fillToken E0 r s)) = Inr (encoded r)"
  using assms by (auto simp: GetByHash_def fillToken_def cacheToken_def rSet_def rGet_def validAt_def split: option.splits)

lemma RevokeToken_revokes:
  assumes "RevokeToken E getErr dbErr i s = (s', None)" "r \<in> set (tc_rows s')" "tk_ID r = i"
  shows "tk_RevokedAt r \<noteq> None"
proof -
  obtain rows e where p: "pgRevoke dbErr (re_now E) i (tc_rows s) = (rows, e)" by fastforce
  obtain v where "pgSelectToken getErr i (tc_rows s) = Inr v"
    using assms(1) by (cases "pgSelectToken getErr i (tc_rows s)") (simp_all add: RevokeToken_def)
  with p have "e = None" "tc_rows s' = rows" using assms(1) by (cases e; fastforce simp: RevokeToken_def)+
  with p have "pgRevoke dbErr (re_now E) i (tc_rows s) = (tc_rows s', None)" by simp
  from assms(2) [unfolded pgRevoke_rows [OF this] set_map]
  obtain q where "r = (if tk_ID q = i \<and> tk_RevokedAt q = None then q\<lparr>tk_RevokedAt := Some (re_now E)\<rparr> else q)" by (rule imageE)
  then show ?thesis using assms(3) by (cases "tk_ID q = i \<and> tk_RevokedAt q = None") auto
qed

text \<open>
  A fill that lands after the revocation undoes it: an authentication that read the valid row
  before it was revoked and caches it afterwards makes every authentication in the next \<^verbatim>\<open>ttl\<close>
  accept the token, although its row is revoked.
\<close>

theorem revoked_token_served:
  assumes "pgSelectByHash None (re_now E0) h (tc_rows s) = Inr r" "RevokeToken E1 None None (tk_ID r) s = (s', None)"
    and "re_up E0" "re_up E" "re_now E < re_now E0 + re_ttl E0"
  shows "snd (GetByHash E dbErr h (fillToken E0 r s')) = Inr (encoded r)
    \<and> list_all (\<lambda>q. tk_ID q = tk_ID r \<longrightarrow> tk_RevokedAt q \<noteq> None) (tc_rows (fillToken E0 r s'))"
proof -
  have r: "tk_TokenHash r = h" "validAt (re_now E0) r"
    using assms(1) by (auto simp: pgSelectByHash_def dest!: find_token split: option.splits)
  have "tk_RevokedAt q \<noteq> None" if "q \<in> set (tc_rows s')" "tk_ID q = tk_ID r" for q
    using RevokeToken_revokes [OF assms(2) that] .
  then show ?thesis
    using GetByHash_filled [OF r(2) assms(3-5), of dbErr s'] r(1) by (simp add: list_all_iff fillToken_def)
qed

text \<open>
  An expired token is accepted from the cache as long as its entry lives: the expiry is checked when
  the entry is written, not when it is read.
\<close>

lemma expired_token_served:
  assumes "tk_RevokedAt r = None" "tk_ExpiresAt r = Some x" "re_now E0 < x" "x \<le> re_now E" "re_now E < re_now E0 + re_ttl E0"
    and "re_up E0" "re_up E"
  shows "snd (GetByHash E dbErr (tk_TokenHash r) (fillToken E0 r s)) = Inr (encoded r) \<and> \<not> validAt (re_now E) (encoded r)"
proof -
  have "validAt (re_now E0) r" using assms(1-3) by (simp add: validAt_def)
  from GetByHash_filled [OF this assms(6,7,5)] show ?thesis using assms(2,4) by (simp add: validAt_def encoded_def)
qed

text \<open>
  Recording the last use of a cached token writes it back under the empty hash, since the cached copy
  has lost its own; the entry the authentications read keeps its old last use and time to live.
\<close>

lemma touched_token_lost_hash:
  assumes "encodedOnly (tc_redis s)" "h \<noteq> []"
  shows "tc_redis (fst (UpdateLastUsed E dbErr i s)) (TokenHashKey h) = tc_redis s (TokenHashKey h)"
proof (cases "rGet E (TokenKey i) (tc_redis s)")
  case (Some v)
  then obtain x where "tc_redis s (TokenKey i) = Some (v, x)" by (blast dest: rGet_SomeD)
  then have "tk_TokenHash v = []" using assms(1) unfolding encodedOnly_def by blast
  then show ?thesis
    using assms(2) Some by (auto simp: UpdateLastUsed_def cacheToken_def rSet_def split: prod.splits option.splits)
qed (auto simp: UpdateLastUsed_def split: prod.splits option.splits)

section \<open>A run\<close>

definition demoToken :: apiToken where
  "demoToken = \<lparr>tk_ID = 1, tk_TenantID = 7, tk_TokenHash = ''h1'', tk_Name = ''ci'', tk_Scopes = [], tk_ExpiresAt = None,
     tk_LastUsed = None, tk_CreatedAt = 3, tk_RevokedAt = None\<rparr>"

definition tokenEnv :: "int \<Rightarrow> redisEnv" where
  "tokenEnv t = \<lparr>re_now = t, re_ttl = 1800, re_up = True\<rparr>"

definition issued :: tokenCache where
  "issued = fst (CreateToken (tokenEnv 10) None demoToken noTokens)"

lemmas token_simps = issued_def CreateToken_def pgInsertToken_def noTokens_def demoToken_def tokenEnv_def GetByHash_def
  pgSelectByHash_def RevokeToken_def pgSelectToken_def pgRevoke_def rGet_def rSet_def rDel_def cacheToken_def invalidateToken_def
  encoded_def validAt_def

lemma issued_run: "tokenStep\<^sup>*\<^sup>* noTokens issued"
  unfolding issued_def by (rule r_into_rtranclp, rule create_token) (simp_all add: token_simps)

theorem revoked_token_refused_witness:
  "tk_TokenHash demoToken = ''h1'' \<and> tk_RevokedAt demoToken = None"
  by (rule revoked_token_refused [OF issued_run, where E = "tokenEnv 11" and dbErr = None and v = "encoded demoToken"])
    (simp_all add: token_simps)

theorem revoked_token_served_witness:
  "snd (GetByHash (tokenEnv 13) None ''h1'' (fillToken (tokenEnv 11) demoToken (fst (RevokeToken (tokenEnv 12) None None 1 issued))))
     = Inr (encoded demoToken)"
  using revoked_token_served [of "tokenEnv 11" "''h1''" issued demoToken "tokenEnv 12" _ "tokenEnv 13" None,
      OF _ prod_eqI]
  by (simp add: token_simps)

end
