(* ===== verification/Tenant_Cache.thy ===== *)
theory Tenant_Cache
  imports Redis_Cache Transitions
begin

text \<open>
  Tenants: the table \<^verbatim>\<open>tenants\<close> with the statements of
  \<^verbatim>\<open>internal/infrastructure/persistence/postgres/tenants.go\<close> under the constraints of
  \<^verbatim>\<open>migrations/0001_init.sql\<close>, and the Redis cache over it (\<^verbatim>\<open>redis_tenant_cache.go\<close>),
  which keeps a tenant under its identifier and the identifier under the tenant's name. The metadata
  of a tenant is the text of its JSON; the order in which the database sorts names is an argument.
  One clock serves the program and the database.
\<close>

section \<open>The table\<close>

record tenant =
  tn_ID :: uuid
  tn_Name :: string
  tn_Status :: string
  tn_Metadata :: string
  tn_CreatedAt :: int
  tn_UpdatedAt :: int

definition pgCreateTenant :: "string option \<Rightarrow> uuid \<Rightarrow> int \<Rightarrow> tenant \<Rightarrow> tenant list \<Rightarrow> tenant list \<times> tenant \<times> string option" where
  "pgCreateTenant dbErr new t a rows =
     (let a1 = a\<lparr>tn_ID := (if tn_ID a = 0 then new else tn_ID a),
                 tn_CreatedAt := (if tn_CreatedAt a = 0 then t else tn_CreatedAt a),
                 tn_UpdatedAt := (if tn_UpdatedAt a = 0 then t else tn_UpdatedAt a),
                 tn_Status := (if tn_Status a = [] then ''active'' else tn_Status a)\<rparr>
      in case dbErr of
           Some e \<Rightarrow> (rows, a1, Some (''create tenant: '' @ e))
         | None \<Rightarrow>
             if tn_ID a1 \<in> set (map tn_ID rows) \<or> tn_Name a1 \<in> set (map tn_Name rows)
             then (rows, a1, Some ''create tenant: duplicate key'')
             else (rows @ [a1], a1, None))"

definition pgTenant :: "string option \<Rightarrow> uuid \<Rightarrow> tenant list \<Rightarrow> string + tenant" where
  "pgTenant dbErr i rows =
     (case dbErr of
        Some e \<Rightarrow> Inl (''get tenant: '' @ e)
      | None \<Rightarrow> (case find (\<lambda>r. tn_ID r = i) rows of None \<Rightarrow> Inl ''tenant not found'' | Some r \<Rightarrow> Inr r))"

definition pgTenantByName :: "string option \<Rightarrow> string \<Rightarrow> tenant list \<Rightarrow> string + tenant" where
  "pgTenantByName dbErr n rows =
     (case dbErr of
        Some e \<Rightarrow> Inl (''get tenant by name: '' @ e)
      | None \<Rightarrow> (case find (\<lambda>r. tn_Name r = n) rows of None \<Rightarrow> Inl ''tenant not found'' | Some r \<Rightarrow> Inr r))"

text \<open>A negative offset is an error of the database.\<close>

definition ListTenants :: "string option \<Rightarrow> string option \<Rightarrow> (tenant list \<Rightarrow> tenant list) \<Rightarrow> int \<Rightarrow> int \<Rightarrow> tenant list
    \<Rightarrow> string + (tenant list \<times> nat)" where
  "ListTenants countErr listErr byName offset limit rows =
     (let limit' = (if limit \<le> 0 \<or> 1000 < limit then 100 else limit)
      in case countErr of
           Some e \<Rightarrow> Inl (''count tenants: '' @ e)
         | None \<Rightarrow>
             (case listErr of
                Some e \<Rightarrow> Inl (''list tenants: '' @ e)
              | None \<Rightarrow>
                  if offset < 0 then Inl ''list tenants: OFFSET must not be negative''
                  else Inr (take (nat limit') (drop (nat offset) (byName rows)), length rows)))"

definition pgUpdateTenant :: "string option \<Rightarrow> int \<Rightarrow> tenant \<Rightarrow> tenant list \<Rightarrow> tenant list \<times> tenant \<times> string option" where
  "pgUpdateTenant dbErr t a rows =
     (let a1 = a\<lparr>tn_UpdatedAt := t\<rparr>
      in case dbErr of
           Some e \<Rightarrow> (rows, a1, Some (''update tenant: '' @ e))
         | None \<Rightarrow>
             if tn_ID a1 \<notin> set (map tn_ID rows) then (rows, a1, Some ''tenant not found'')
             else if tn_Name a1 \<in> set (map tn_Name (filter (\<lambda>r. tn_ID r \<noteq> tn_ID a1) rows))
             then (rows, a1, Some ''update tenant: duplicate key'')
             else (map (\<lambda>r. if tn_ID r = tn_ID a1 then a1\<lparr>tn_CreatedAt := tn_CreatedAt r\<rparr> else r) rows, a1, None))"

definition pgDeleteTenant :: "string option \<Rightarrow> uuid \<Rightarrow> tenant list \<Rightarrow> tenant list \<times> string option" where
  "pgDeleteTenant dbErr i rows =
     (case dbErr of
        Some e \<Rightarrow> (rows, Some (''delete tenant: '' @ e))
      | None \<Rightarrow> if i \<notin> set (map tn_ID rows) then (rows, Some ''tenant not found'')
                else (filter (\<lambda>r. tn_ID r \<noteq> i) rows, None))"

section \<open>The cache\<close>

datatype tenantKey = TenantIdKey uuid | TenantNameKey string

datatype tenantVal = TenantData tenant | TenantRef uuid

record tenantCache =
  nc_rows :: "tenant list"
  nc_redis :: "(tenantKey, tenantVal) redis"

definition cacheTenant :: "redisEnv \<Rightarrow> tenant \<Rightarrow> (tenantKey, tenantVal) redis \<Rightarrow> (tenantKey, tenantVal) redis" where
  "cacheTenant E a R =
     rSet E (TenantNameKey (tn_Name a)) (TenantRef (tn_ID a)) (rSet E (TenantIdKey (tn_ID a)) (TenantData a) R)"

definition invalidateTenant :: "redisEnv \<Rightarrow> uuid \<Rightarrow> string \<Rightarrow> (tenantKey, tenantVal) redis \<Rightarrow> (tenantKey, tenantVal) redis" where
  "invalidateTenant E i n R =
     (let R1 = rDel E (\<lambda>k. k = TenantIdKey i) R in if n \<noteq> [] then rDel E (\<lambda>k. k = TenantNameKey n) R1 else R1)"

definition CreateTenant :: "redisEnv \<Rightarrow> string option \<Rightarrow> uuid \<Rightarrow> tenant \<Rightarrow> tenantCache \<Rightarrow> tenantCache \<times> string option" where
  "CreateTenant E dbErr new a s =
     (case pgCreateTenant dbErr new (re_now E) a (nc_rows s) of
        (rows, a1, Some e) \<Rightarrow> (s, Some e)
      | (rows, a1, None) \<Rightarrow> (\<lparr>nc_rows = rows, nc_redis = cacheTenant E a1 (nc_redis s)\<rparr>, None))"

definition GetTenant :: "redisEnv \<Rightarrow> string option \<Rightarrow> uuid \<Rightarrow> tenantCache \<Rightarrow> tenantCache \<times> (string + tenant)" where
  "GetTenant E dbErr i s =
     (let miss = (case pgTenant dbErr i (nc_rows s) of
                    Inl e \<Rightarrow> (s, Inl e)
                  | Inr r \<Rightarrow> (s\<lparr>nc_redis := cacheTenant E r (nc_redis s)\<rparr>, Inr r))
      in case rGet E (TenantIdKey i) (nc_redis s) of
           Some (TenantData v) \<Rightarrow> (s, Inr v)
         | Some (TenantRef j) \<Rightarrow> miss
         | None \<Rightarrow> miss)"

definition GetTenantByName :: "redisEnv \<Rightarrow> string option \<Rightarrow> string \<Rightarrow> tenantCache \<Rightarrow> tenantCache \<times> (string + tenant)" where
  "GetTenantByName E dbErr n s =
     (let miss = (case pgTenantByName dbErr n (nc_rows s) of
                    Inl e \<Rightarrow> (s, Inl e)
                  | Inr r \<Rightarrow> (s\<lparr>nc_redis := cacheTenant E r (nc_redis s)\<rparr>, Inr r))
      in case rGet E (TenantNameKey n) (nc_redis s) of
           Some (TenantRef i) \<Rightarrow> GetTenant E dbErr i s
         | Some (TenantData v) \<Rightarrow> miss
         | None \<Rightarrow> miss)"

definition UpdateTenant :: "redisEnv \<Rightarrow> string option \<Rightarrow> tenant \<Rightarrow> tenantCache \<Rightarrow> tenantCache \<times> string option" where
  "UpdateTenant E dbErr a s =
     (case pgUpdateTenant dbErr (re_now E) a (nc_rows s) of
        (rows, a1, Some e) \<Rightarrow> (s, Some e)
      | (rows, a1, None) \<Rightarrow>
          (\<lparr>nc_rows = rows, nc_redis = cacheTenant E a1 (invalidateTenant E (tn_ID a1) (tn_Name a1) (nc_redis s))\<rparr>, None))"

definition DeleteTenant :: "redisEnv \<Rightarrow> string option \<Rightarrow> string option \<Rightarrow> uuid \<Rightarrow> tenantCache \<Rightarrow> tenantCache \<times> string option" where
  "DeleteTenant E getErr dbErr i s =
     (case pgTenant getErr i (nc_rows s) of
        Inl e \<Rightarrow> (s, Some e)
      | Inr r \<Rightarrow>
          (case pgDeleteTenant dbErr i (nc_rows s) of
             (rows, Some e) \<Rightarrow> (s, Some e)
           | (rows, None) \<Rightarrow> (\<lparr>nc_rows = rows, nc_redis = invalidateTenant E i (tn_Name r) (nc_redis s)\<rparr>, None)))"

section \<open>Runs\<close>

inductive tenantStep :: "tenantCache \<Rightarrow> tenantCache \<Rightarrow> bool" where
  create_tenant: "re_up E \<Longrightarrow> tenantStep s (fst (CreateTenant E dbErr new a s))"
| get_tenant: "re_up E \<Longrightarrow> tenantStep s (fst (GetTenant E dbErr i s))"
| get_tenant_by_name: "re_up E \<Longrightarrow> tenantStep s (fst (GetTenantByName E dbErr n s))"
| update_tenant: "re_up E \<Longrightarrow> tenantStep s (fst (UpdateTenant E dbErr a s))"
| delete_tenant: "re_up E \<Longrightarrow> tenantStep s (fst (DeleteTenant E getErr dbErr i s))"

definition noTenants :: tenantCache where
  "noTenants = \<lparr>nc_rows = [], nc_redis = Map.empty\<rparr>"

text \<open>A tenant agrees with a row of the table in everything but the creation time, which an update does not store.\<close>

definition backed :: "tenant list \<Rightarrow> uuid \<Rightarrow> tenant \<Rightarrow> bool" where
  "backed rows i v \<longleftrightarrow> tn_ID v = i \<and> (\<exists>r \<in> set rows. v\<lparr>tn_CreatedAt := tn_CreatedAt r\<rparr> = r)"

definition tenantInv :: "tenantCache \<Rightarrow> bool" where
  "tenantInv s \<longleftrightarrow> (\<forall>i v x. nc_redis s (TenantIdKey i) = Some (TenantData v, x) \<longrightarrow> backed (nc_rows s) i v)"

lemma tenantInv_entry: "tenantInv s \<Longrightarrow> nc_redis s (TenantIdKey i) = Some (TenantData v, x) \<Longrightarrow> backed (nc_rows s) i v"
  unfolding tenantInv_def by blast

lemma tenantInv_new: "tenantInv noTenants"
  by (simp add: tenantInv_def noTenants_def)

lemma backed_row: "r \<in> set rows \<Longrightarrow> backed rows (tn_ID r) r"
  unfolding backed_def by (intro conjI refl bexI [of _ r]) simp_all

lemma backedD: "backed rows i v \<Longrightarrow> \<exists>r \<in> set rows. tn_ID r = i \<and> v\<lparr>tn_CreatedAt := tn_CreatedAt r\<rparr> = r"
  unfolding backed_def by (metis tenant.select_convs(1) tenant.surjective tenant.update_convs(5))

lemma cacheTenant_data:
  "cacheTenant E a R (TenantIdKey i) = Some (TenantData v, x) \<Longrightarrow> R (TenantIdKey i) = Some (TenantData v, x) \<or> (i = tn_ID a \<and> v = a)"
  by (auto simp: cacheTenant_def rSet_def split: if_splits)

lemma invalidateTenant_data:
  "re_up E \<Longrightarrow> invalidateTenant E j n R (TenantIdKey i) = (if i = j then None else R (TenantIdKey i))"
  by (simp add: invalidateTenant_def rDel_def Let_def)

lemma tenantInv_cache:
  assumes "tenantInv s" "\<And>i v. backed (nc_rows s) i v \<Longrightarrow> i \<noteq> tn_ID a \<Longrightarrow> backed rows i v" "backed rows (tn_ID a) a"
    and "\<And>k. R k = None \<or> R k = nc_redis s k" "\<And>v x. rows \<noteq> nc_rows s \<Longrightarrow> R (TenantIdKey (tn_ID a)) \<noteq> Some (TenantData v, x)"
  shows "tenantInv \<lparr>nc_rows = rows, nc_redis = cacheTenant E a R\<rparr>"
proof -
  have "backed rows i v" if "cacheTenant E a R (TenantIdKey i) = Some (TenantData v, x)" for i v x
    using cacheTenant_data [OF that]
  proof
    assume r: "R (TenantIdKey i) = Some (TenantData v, x)"
    with assms(4) [of "TenantIdKey i"] have "nc_redis s (TenantIdKey i) = Some (TenantData v, x)" by auto
    note b = tenantInv_entry [OF assms(1) this]
    show ?thesis
    proof (cases "i = tn_ID a")
      case True
      with r assms(5) have "rows = nc_rows s" by auto
      then show ?thesis using b by simp
    qed (rule assms(2) [OF b])
  next
    assume "i = tn_ID a \<and> v = a"
    then show ?thesis using assms(3) by simp
  qed
  then show ?thesis by (simp add: tenantInv_def)
qed

lemma tenantInv_read:
  "tenantInv s \<Longrightarrow> r \<in> set (nc_rows s) \<Longrightarrow> tenantInv (s\<lparr>nc_redis := cacheTenant E r (nc_redis s)\<rparr>)"
  using tenantInv_cache [of s r "nc_rows s" "nc_redis s" E] by (simp add: backed_row tenantInv_def)

lemma pgTenant_row: "pgTenant dbErr i rows = Inr r \<Longrightarrow> r \<in> set rows \<and> tn_ID r = i"
  by (auto simp: pgTenant_def find_Some_iff split: option.splits)

lemma pgTenantByName_row: "pgTenantByName dbErr n rows = Inr r \<Longrightarrow> r \<in> set rows \<and> tn_Name r = n"
  by (auto simp: pgTenantByName_def find_Some_iff split: option.splits)

lemma tenantInv_Get: "tenantInv s \<Longrightarrow> tenantInv (fst (GetTenant E dbErr i s))"
  by (auto simp: GetTenant_def Let_def intro!: tenantInv_read dest!: pgTenant_row split: option.splits sum.splits tenantVal.splits)

lemma tenantInv_GetByName: "tenantInv s \<Longrightarrow> tenantInv (fst (GetTenantByName E dbErr n s))"
  by (auto simp: GetTenantByName_def Let_def intro!: tenantInv_read tenantInv_Get dest!: pgTenantByName_row
      split: option.splits sum.splits tenantVal.splits)


lemma tenantInv_Create:
  assumes s: "tenantInv s" shows "tenantInv (fst (CreateTenant E dbErr new a s))"
proof -
  obtain rows a1 e where c: "pgCreateTenant dbErr new (re_now E) a (nc_rows s) = (rows, a1, e)" by (metis prod_cases3)
  show ?thesis
  proof (cases e)
    case None
    then have rows: "rows = nc_rows s @ [a1]" and new: "tn_ID a1 \<notin> tn_ID ` set (nc_rows s)"
      using c by (auto simp: pgCreateTenant_def Let_def split: option.splits if_splits)
    have "nc_redis s (TenantIdKey (tn_ID a1)) \<noteq> Some (TenantData v, x)" for v x
    proof
      assume "nc_redis s (TenantIdKey (tn_ID a1)) = Some (TenantData v, x)"
      then have "backed (nc_rows s) (tn_ID a1) v" by (rule tenantInv_entry [OF s])
      then show False using new backedD by (metis imageI)
    qed
    then have "tenantInv \<lparr>nc_rows = rows, nc_redis = cacheTenant E a1 (nc_redis s)\<rparr>"
      by (intro tenantInv_cache [OF s]) (auto simp: rows backed_row, auto simp: backed_def)
    then show ?thesis using c None by (simp add: CreateTenant_def)
  qed (simp add: CreateTenant_def c s)
qed

lemma tenantInv_Update:
  assumes s: "tenantInv s" and up: "re_up E"
  shows "tenantInv (fst (UpdateTenant E dbErr a s))"
proof -
  obtain rows a1 e where c: "pgUpdateTenant dbErr (re_now E) a (nc_rows s) = (rows, a1, e)" by (metis prod_cases3)
  show ?thesis
  proof (cases e)
    case None
    let ?f = "\<lambda>r. if tn_ID r = tn_ID a1 then a1\<lparr>tn_CreatedAt := tn_CreatedAt r\<rparr> else r"
    have rows: "rows = map ?f (nc_rows s)" and old: "tn_ID a1 \<in> tn_ID ` set (nc_rows s)"
      using c None by (auto simp: pgUpdateTenant_def Let_def split: option.splits if_splits)
    from old obtain r where r: "r \<in> set (nc_rows s)" "tn_ID r = tn_ID a1" by (metis imageE)
    have "backed rows (tn_ID a1) a1"
      unfolding backed_def by (intro conjI refl bexI [of _ "?f r"]) (use r rows in \<open>auto intro!: image_eqI\<close>)
    moreover have "backed rows i v" if b: "backed (nc_rows s) i v" "i \<noteq> tn_ID a1" for i v
    proof -
      obtain q where q: "q \<in> set (nc_rows s)" "tn_ID q = i" "v\<lparr>tn_CreatedAt := tn_CreatedAt q\<rparr> = q" using backedD [OF b(1)] by blast
      have "?f q \<in> ?f ` set (nc_rows s)" using q(1) by (rule imageI)
      then have "q \<in> set rows" unfolding rows set_map using q(2) b(2) by (simp only: if_False)
      then show ?thesis using q(3) b(1) unfolding backed_def by blast
    qed
    ultimately have "tenantInv \<lparr>nc_rows = rows, nc_redis = cacheTenant E a1 (invalidateTenant E (tn_ID a1) (tn_Name a1) (nc_redis s))\<rparr>"
      using up by (intro tenantInv_cache [OF s]) (auto simp: invalidateTenant_def rDel_def Let_def)
    then show ?thesis using c None by (simp add: UpdateTenant_def)
  qed (simp add: UpdateTenant_def c s)
qed

lemma tenantInv_Delete:
  assumes s: "tenantInv s" and up: "re_up E"
  shows "tenantInv (fst (DeleteTenant E getErr dbErr i s))"
proof (cases "\<exists>r rows. pgTenant getErr i (nc_rows s) = Inr r \<and> pgDeleteTenant dbErr i (nc_rows s) = (rows, None)")
  case True
  then obtain r rows where c: "pgTenant getErr i (nc_rows s) = Inr r" "pgDeleteTenant dbErr i (nc_rows s) = (rows, None)" by blast
  have rows: "rows = filter (\<lambda>r. tn_ID r \<noteq> i) (nc_rows s)" using c(2) by (auto simp: pgDeleteTenant_def split: option.splits if_splits)
  have "backed rows j v" if "j \<noteq> i" "nc_redis s (TenantIdKey j) = Some (TenantData v, x)" for j v x
  proof -
    note b = tenantInv_entry [OF s that(2)]
    with backedD [OF b] show ?thesis using that(1) unfolding backed_def rows set_filter by blast
  qed
  then have "tenantInv \<lparr>nc_rows = rows, nc_redis = invalidateTenant E i (tn_Name r) (nc_redis s)\<rparr>"
    unfolding tenantInv_def tenantCache.simps invalidateTenant_data [OF up] by (metis option.distinct(1))
  then show ?thesis using c by (simp add: DeleteTenant_def)
next
  case False
  then have "fst (DeleteTenant E getErr dbErr i s) = s"
    by (auto simp: DeleteTenant_def split: sum.splits prod.splits option.splits)
  then show ?thesis using s by simp
qed

interpretation tenants: step_invariant tenantStep tenantInv
  by unfold_locales
    (erule tenantStep.cases; simp add: tenantInv_Create tenantInv_Get tenantInv_GetByName tenantInv_Update tenantInv_Delete)

section \<open>What a read returns\<close>

lemma GetTenant_backed:
  assumes "tenantInv s" "snd (GetTenant E dbErr i s) = Inr v" shows "backed (nc_rows s) i v"
proof (cases "\<exists>x. nc_redis s (TenantIdKey i) = Some (TenantData v, x)")
  case False
  then have "pgTenant dbErr i (nc_rows s) = Inr v"
    using assms(2) by (auto simp: GetTenant_def Let_def dest!: rGet_SomeD split: option.splits sum.splits tenantVal.splits)
  then show ?thesis by (metis pgTenant_row backed_row)
qed (use tenantInv_entry [OF assms(1)] in blast)

text \<open>
  What a read of a tenant by its identifier returns, from the cache or the database, is the row
  of that tenant up to its creation time: in every state the tenant operations reach one after the
  other from an empty table and an empty cache, with Redis answering.
\<close>

theorem tenant_cache_coherent:
  assumes "tenantStep\<^sup>*\<^sup>* noTenants s" "snd (GetTenant E dbErr i s) = Inr v"
  shows "tn_ID v = i \<and> (\<exists>r \<in> set (nc_rows s). v\<lparr>tn_CreatedAt := tn_CreatedAt r\<rparr> = r)"
  using GetTenant_backed [OF tenants.inv_run [OF assms(1) tenantInv_new] assms(2)] by (simp add: backed_def)

text \<open>
  Reading by name does not promise that. An update deletes the key of the new name only: as long as
  the key of the old name lives, the old name still finds the renamed tenant.
\<close>

lemma renamed_tenant_old_name:
  assumes "nc_redis s (TenantNameKey n) = Some (TenantRef (tn_ID a), x)" "UpdateTenant E dbErr a s = (s', None)"
    and "tn_Name a \<noteq> n" "re_up E" "re_up E'" "re_now E' < x" "re_now E' < re_now E + re_ttl E"
  shows "snd (GetTenantByName E' dbErr' n s') = Inr (a\<lparr>tn_UpdatedAt := re_now E\<rparr>)"
proof -
  obtain rows a1 e where c: "pgUpdateTenant dbErr (re_now E) a (nc_rows s) = (rows, a1, e)" by (metis prod_cases3)
  have a1: "a1 = a\<lparr>tn_UpdatedAt := re_now E\<rparr>"
    using c by (auto simp: pgUpdateTenant_def Let_def split: option.splits if_splits)
  have s': "s' = \<lparr>nc_rows = rows, nc_redis = cacheTenant E a1 (invalidateTenant E (tn_ID a1) (tn_Name a1) (nc_redis s))\<rparr>"
    using c assms(2) by (cases e) (simp_all add: UpdateTenant_def)
  have "rGet E' (TenantNameKey n) (nc_redis s') = Some (TenantRef (tn_ID a))"
    "rGet E' (TenantIdKey (tn_ID a)) (nc_redis s') = Some (TenantData a1)"
    using assms by (simp_all add: s' a1 rGet_def cacheTenant_def rSet_def invalidateTenant_def rDel_def Let_def)
  then show ?thesis by (simp add: GetTenantByName_def GetTenant_def Let_def a1)
qed

lemma ListTenants_page:
  "ListTenants countErr listErr byName offset limit rows = Inr (page, n) \<Longrightarrow>
     length page \<le> 1000 \<and> (limit \<in> {1..1000} \<longrightarrow> int (length page) \<le> limit) \<and> n = length rows"
  by (auto simp: ListTenants_def Let_def split: option.splits if_splits)

section \<open>A run\<close>

definition demoTenant :: tenant where
  "demoTenant = \<lparr>tn_ID = 1, tn_Name = ''acme'', tn_Status = ''active'', tn_Metadata = ''{}'', tn_CreatedAt = 3, tn_UpdatedAt = 3\<rparr>"

definition tenantEnv :: redisEnv where
  "tenantEnv = \<lparr>re_now = 10, re_ttl = 900, re_up = True\<rparr>"

theorem tenant_cache_coherent_witness:
  "tn_ID demoTenant = 1 \<and> (\<exists>r \<in> set (nc_rows (fst (CreateTenant tenantEnv None 9 demoTenant noTenants))).
     demoTenant\<lparr>tn_CreatedAt := tn_CreatedAt r\<rparr> = r)"
  by (rule tenant_cache_coherent [where E = tenantEnv and dbErr = None], rule r_into_rtranclp, rule create_tenant)
    (simp_all add: tenantEnv_def demoTenant_def noTenants_def CreateTenant_def pgCreateTenant_def GetTenant_def rGet_def rSet_def
      cacheTenant_def Let_def)

end
