(* ===== verification/Rule_Updates.thy ===== *)
theory Rule_Updates
  imports Go_Prelude Transitions
begin

text \<open>
  Live rule updates over Redis streams: the publisher
  (\<^verbatim>\<open>internal/infrastructure/messaging/nats/publisher.go\<close>), the subscriber with its circuit
  breaker and duplicate detection (\<^verbatim>\<open>subscriber.go\<close>), and the back-off of
  \<^verbatim>\<open>internal/backoff/backoff.go\<close>. What Redis answers is an argument of each operation, and the
  commands sent to it, the calls of the handler and the pauses form the subscriber's log. So are the
  JSON codec, the clock, the random numbers, and the handler's result arguments. A Go panic is \<open>None\<close>.
  Durations are nanoseconds.
\<close>

section \<open>Back-off\<close>

text \<open>\<^verbatim>\<open>rand.Int63n\<close>, which panics unless its bound is positive; \<open>r\<close> is the source of randomness.\<close>

definition Int63n :: "int \<Rightarrow> int \<Rightarrow> int option" where
  "Int63n r n = (if n \<le> 0 then None else Some (r mod n))"

text \<open>A shift of a 64-bit number, which panics on a negative count.\<close>

definition shl64 :: "int \<Rightarrow> int \<Rightarrow> int option" where
  "shl64 x k = (if k < 0 then None else Some (wrap64 (x * 2 ^ nat k)))"

definition FullJitter :: "int \<Rightarrow> int \<Rightarrow> int \<Rightarrow> int \<Rightarrow> int option" where
  "FullJitter r base cap attempt =
     (let base = (if base \<le> 0 then 50000000 else base);
          cap = (if cap \<le> 0 then 30000000000 else cap)
      in case shl64 base attempt of
           None \<Rightarrow> None
         | Some m \<Rightarrow>
             let m = (if cap < m then cap else m);
                 m = (if m \<le> 0 then cap else m)
             in Int63n r m)"

text \<open>For a negative maximum the division rounds the other way than Go's, but both halves are rejected.\<close>

definition EqualJitter :: "int \<Rightarrow> int \<Rightarrow> int \<Rightarrow> int \<Rightarrow> int option" where
  "EqualJitter r base cap attempt =
     (case shl64 base attempt of
        None \<Rightarrow> None
      | Some m \<Rightarrow>
          let m = (if cap < m then cap else m);
              half = m div 2
          in map_option (\<lambda>j. half + j) (Int63n r half))"

section \<open>Messages and commands\<close>

record streamUpdate =
  ru_TenantID :: string
  ru_TargetScope :: string
  ru_RulepackID :: string
  ru_Version :: int
  ru_ContentSHA256 :: string

record xMessage =
  xm_ID :: string
  xm_Values :: "string \<rightharpoonup> string"

datatype redisCmd =
    Ping
  | XGroupCreate string string string
  | XReadGroup string string string
  | XPending string string
  | XAck string string string
  | XAdd string "string \<rightharpoonup> string" "nat option"
  | XAutoClaim string string string
  | Handled xMessage streamUpdate "string option"
  | Slept int

section \<open>The publisher\<close>

text \<open>The first argument is what Redis answers to the ping; without an address the publisher does nothing.\<close>

definition NewPublisher :: "string option \<Rightarrow> string \<Rightarrow> string + bool" where
  "NewPublisher ping redisAddr =
     (if redisAddr = [] then Inr False
      else case ping of Some e \<Rightarrow> Inl (''redis ping: '' @ e) | None \<Rightarrow> Inr True)"

definition updatesStream :: "string \<Rightarrow> string" where
  "updatesStream t = ''rulepacks.updates:'' @ t"

definition PublishRuleUpdate :: "(streamUpdate \<Rightarrow> string) \<Rightarrow> string option \<Rightarrow> bool \<Rightarrow> streamUpdate \<Rightarrow> redisCmd list \<times> string option" where
  "PublishRuleUpdate encode addErr rdb upd =
     (if \<not> rdb then ([], None)
      else ([XAdd (updatesStream (ru_TenantID upd)) [''json'' \<mapsto> encode upd] (Some 10000)], addErr))"

section \<open>Recent messages\<close>

record recentMsg =
  rm_id :: string
  rm_version :: int
  rm_sha256 :: string
  rm_receivedAt :: int

record tenantState =
  ts_lastAppliedVersion :: int
  ts_recentMessages :: "recentMsg option list"
  ts_bufferCapacity :: nat
  ts_bufferIdx :: nat
  ts_evictionDuration :: int

definition newTenantState :: "nat \<Rightarrow> int \<Rightarrow> tenantState" where
  "newTenantState cap eviction =
     \<lparr>ts_lastAppliedVersion = 0, ts_recentMessages = replicate cap None, ts_bufferCapacity = cap, ts_bufferIdx = 0,
      ts_evictionDuration = eviction\<rparr>"

definition evict :: "int \<Rightarrow> int \<Rightarrow> recentMsg option \<Rightarrow> recentMsg option" where
  "evict d now slot = (case slot of None \<Rightarrow> None | Some m \<Rightarrow> if d < now - rm_receivedAt m then None else Some m)"

definition isDuplicate :: "string \<Rightarrow> int \<Rightarrow> tenantState \<Rightarrow> tenantState \<times> bool" where
  "isDuplicate sha now ts =
     (let slots = map (evict (ts_evictionDuration ts) now) (ts_recentMessages ts)
      in (ts\<lparr>ts_recentMessages := slots\<rparr>,
          list_ex (\<lambda>slot. case slot of None \<Rightarrow> False | Some m \<Rightarrow> rm_sha256 m = sha) slots))"

definition addRecent :: "string \<Rightarrow> int \<Rightarrow> string \<Rightarrow> int \<Rightarrow> tenantState \<Rightarrow> tenantState" where
  "addRecent i v sha now ts =
     ts\<lparr>ts_recentMessages := (ts_recentMessages ts)[ts_bufferIdx ts :=
          Some \<lparr>rm_id = i, rm_version = v, rm_sha256 = sha, rm_receivedAt = now\<rparr>],
        ts_bufferIdx := (ts_bufferIdx ts + 1) mod ts_bufferCapacity ts\<rparr>"

section \<open>The subscriber\<close>

record subscriber =
  sb_consumerGroup :: string
  sb_consumerName :: string
  sb_tenantID :: string
  sb_tenantState :: "string \<rightharpoonup> tenantState"
  sb_log :: "redisCmd list"

definition emitCmds :: "redisCmd list \<Rightarrow> subscriber \<Rightarrow> subscriber" where
  "emitCmds cs s = s\<lparr>sb_log := sb_log s @ cs\<rparr>"

text \<open>Without an address there is no client: \<open>None\<close>.\<close>

definition NewSubscriber :: "string \<Rightarrow> string \<Rightarrow> string \<Rightarrow> string \<Rightarrow> subscriber option" where
  "NewSubscriber redisAddr consumerGroup consumerName tenantID =
     (if redisAddr = [] then None
      else Some \<lparr>sb_consumerGroup = consumerGroup, sb_consumerName = consumerName, sb_tenantID = tenantID,
                 sb_tenantState = Map.empty, sb_log = []\<rparr>)"

text \<open>Each attempt comes with the answers to the ping and to the creation, and a random number.\<close>

fun initializeAttempts :: "int \<Rightarrow> (string option \<times> string option \<times> int) list \<Rightarrow> subscriber \<Rightarrow> (subscriber \<times> bool) option" where
  "initializeAttempts k [] s = Some (s, False)"
| "initializeAttempts k ((ping, create, r) # rest) s =
     (let wait = (\<lambda>s. case FullJitter r 100000000 3000000000 k of
                        None \<Rightarrow> None | Some d \<Rightarrow> initializeAttempts (k + 1) rest (emitCmds [Slept d] s))
      in if ping \<noteq> None then wait (emitCmds [Ping] s)
         else let s = emitCmds [Ping, XGroupCreate (updatesStream (sb_tenantID s)) (sb_consumerGroup s) ''0''] s
              in if create \<noteq> None \<and> create \<noteq> Some ''BUSYGROUP Consumer Group name already exists'' then wait s
                 else Some (s, True))"

definition initializeConsumerGroup :: "(string option \<times> string option \<times> int) list \<Rightarrow> subscriber \<Rightarrow> (subscriber \<times> bool) option" where
  "initializeConsumerGroup answers s = initializeAttempts 0 (take 5 answers) s"

record updEnv =
  ue_now :: int
  ue_decode :: "string \<Rightarrow> string + streamUpdate"
  ue_handler :: "streamUpdate \<Rightarrow> string option"

definition ackMsg :: "xMessage \<Rightarrow> subscriber \<Rightarrow> subscriber" where
  "ackMsg msg s = emitCmds [XAck (updatesStream (sb_tenantID s)) (sb_consumerGroup s) (xm_ID msg)] s"

definition routeToDLQ :: "int \<Rightarrow> xMessage \<Rightarrow> string \<Rightarrow> subscriber \<Rightarrow> subscriber" where
  "routeToDLQ now msg reason s =
     ackMsg msg (emitCmds [XAdd ''rulepacks.dlq''
        ((xm_Values msg)(''dlq_reason'' \<mapsto> reason, ''original_stream'' \<mapsto> ''rulepacks.updates'',
                         ''timestamp'' \<mapsto> itoa (now div 1000000000))) None] s)"

text \<open>The part of the loop that handles one message whose JSON field is text and whose tenant's state is at hand.\<close>

definition applyUpdate :: "updEnv \<Rightarrow> xMessage \<Rightarrow> string \<Rightarrow> tenantState \<Rightarrow> streamUpdate \<Rightarrow> subscriber \<Rightarrow> subscriber" where
  "applyUpdate E msg key ts upd s =
     (if ru_Version upd \<le> ts_lastAppliedVersion ts then ackMsg msg s
      else let (ts1, dup) = isDuplicate (ru_ContentSHA256 upd) (ue_now E) ts;
               s1 = s\<lparr>sb_tenantState := (sb_tenantState s)(key \<mapsto> ts1)\<rparr>
           in if dup then ackMsg msg s1
              else let s2 = emitCmds [Handled msg upd (ue_handler E upd)] s1
                   in case ue_handler E upd of
                        Some e \<Rightarrow> s2
                      | None \<Rightarrow>
                          ackMsg msg (s2\<lparr>sb_tenantState := (sb_tenantState s2)(key \<mapsto>
                            addRecent (xm_ID msg) (ru_Version upd) (ru_ContentSHA256 upd) (ue_now E)
                              (ts1\<lparr>ts_lastAppliedVersion := ru_Version upd\<rparr>))\<rparr>))"

definition stateFor :: "subscriber \<Rightarrow> string \<Rightarrow> tenantState" where
  "stateFor s key = (case sb_tenantState s key of Some ts \<Rightarrow> ts | None \<Rightarrow> newTenantState 10 30000000000)"

definition handleMessage :: "updEnv \<Rightarrow> xMessage \<Rightarrow> subscriber \<Rightarrow> subscriber option" where
  "handleMessage E msg s =
     (case xm_Values msg ''json'' of
        None \<Rightarrow> Some (routeToDLQ (ue_now E) msg ''malformed_json'' s)
      | Some jsonData \<Rightarrow>
          (case xm_Values msg ''tenant_id'' of
             None \<Rightarrow> None
           | Some key \<Rightarrow>
               let ts = stateFor s key;
                   s1 = s\<lparr>sb_tenantState := (sb_tenantState s)(key \<mapsto> ts)\<rparr>
               in case ue_decode E jsonData of
                    Inl e \<Rightarrow> Some (routeToDLQ (ue_now E) msg ''parse_error'' s1)
                  | Inr upd \<Rightarrow> Some (applyUpdate E msg key ts upd s1)))"

fun handleMessages :: "updEnv \<Rightarrow> xMessage list \<Rightarrow> subscriber \<Rightarrow> subscriber option" where
  "handleMessages E [] s = Some s"
| "handleMessages E (m # ms) s = (case handleMessage E m s of None \<Rightarrow> None | Some s' \<Rightarrow> handleMessages E ms s')"

section \<open>The loop\<close>

datatype readResult = ReadErr string | ReadNil | ReadMsgs "xMessage list"

text \<open>What an iteration meets: the branch its \<^verbatim>\<open>select\<close> takes and the answers of Redis.\<close>

datatype sel = CtxDone | StopDone | Poll

record iterEnv = updEnv +
  ie_sel :: sel
  ie_rand :: int
  ie_ping :: "string option"
  ie_read :: readResult
  ie_pending :: "int option"

definition backoffDur :: "int \<Rightarrow> int \<Rightarrow> int option" where
  "backoffDur r failures = (if 0 < failures then EqualJitter r 1000000000 30000000000 failures else Some 0)"

definition laggedDur :: "int option \<Rightarrow> int \<Rightarrow> int" where
  "laggedDur pending d =
     (case pending of
        None \<Rightarrow> d
      | Some c \<Rightarrow>
          if 1000 < c
          then let d1 = wrap64 (d + wrap64 (c div 100 * 1000000)) in if 10000000000 < d1 then 10000000000 else d1
          else d)"

definition sleepIf :: "int \<Rightarrow> subscriber \<Rightarrow> subscriber" where
  "sleepIf d s = (if 0 < d then emitCmds [Slept d] s else s)"

definition poll :: "iterEnv \<Rightarrow> int \<times> subscriber \<Rightarrow> (int \<times> subscriber) option" where
  "poll E fs =
     (let (failures, s) = fs in
      case backoffDur (ie_rand E) failures of
        None \<Rightarrow> None
      | Some d \<Rightarrow>
          let opened = 5 \<le> failures;
              s1 = (if opened then emitCmds [Slept d, Ping] s else s)
          in if opened \<and> ie_ping E \<noteq> None then Some (5, s1)
             else let f1 = (if opened then 4 else failures);
                      stream = updatesStream (sb_tenantID s);
                      s2 = emitCmds [XReadGroup stream (sb_consumerGroup s) (sb_consumerName s)] (sleepIf d s1)
                  in case ie_read E of
                       ReadNil \<Rightarrow> Some (if 0 < f1 then 0 else f1, s2)
                     | ReadErr e \<Rightarrow> Some (f1 + 1, s2)
                     | ReadMsgs ms \<Rightarrow>
                         let s3 = sleepIf (laggedDur (ie_pending E) d) (emitCmds [XPending stream (sb_consumerGroup s)] s2)
                         in map_option (Pair (if 0 < f1 then 0 else f1)) (handleMessages (updEnv.truncate E) ms s3))"

datatype startResult = ContextError | Stopped | Polling "int \<times> subscriber" | Crashed

fun StartSub :: "iterEnv list \<Rightarrow> int \<times> subscriber \<Rightarrow> startResult" where
  "StartSub [] fs = Polling fs"
| "StartSub (E # Es) fs =
     (case ie_sel E of
        CtxDone \<Rightarrow> ContextError
      | StopDone \<Rightarrow> Stopped
      | Poll \<Rightarrow> (case poll E fs of None \<Rightarrow> Crashed | Some fs' \<Rightarrow> StartSub Es fs'))"

text \<open>The claimed messages are counted and left.\<close>

definition recoverPending :: "string + xMessage list \<Rightarrow> subscriber \<Rightarrow> subscriber" where
  "recoverPending claimed s = emitCmds [XAutoClaim (updatesStream (sb_tenantID s)) (sb_consumerGroup s) (sb_consumerName s)] s"

definition processXMessage :: "updEnv \<Rightarrow> xMessage \<Rightarrow> subscriber \<Rightarrow> subscriber \<times> string option" where
  "processXMessage E msg s =
     (case xm_Values msg ''json'' of
        None \<Rightarrow> (s, None)
      | Some jsonData \<Rightarrow>
          (case ue_decode E jsonData of
             Inl e \<Rightarrow> (s, Some e)
           | Inr upd \<Rightarrow>
               if sb_tenantID s \<noteq> [] \<and> ru_TenantID upd \<noteq> sb_tenantID s then (s, None)
               else (emitCmds [Handled msg upd (ue_handler E upd)] s, ue_handler E upd)))"

section \<open>Back-off: bounds and panics\<close>

lemma Int63n_bounds: "0 < m \<Longrightarrow> m \<le> c \<Longrightarrow> \<exists>d. Int63n r m = Some d \<and> 0 \<le> d \<and> d < c"
  using pos_mod_sign [of m r] order.strict_trans2 [OF pos_mod_bound [of m r], of c] by (simp add: Int63n_def)

text \<open>
  The fully jittered back-off never panics and stays below its cap for every number of attempts,
  also where the shift of the base wraps around to zero or below.
\<close>

theorem FullJitter_bounds:
  assumes "0 \<le> attempt"
  shows "\<exists>d. FullJitter r base cap attempt = Some d \<and> 0 \<le> d \<and> d < (if cap \<le> 0 then 30000000000 else cap)"
proof -
  let ?cap = "if cap \<le> 0 then 30000000000 else cap"
  obtain m where m: "shl64 (if base \<le> 0 then 50000000 else base) attempt = Some m" using assms by (simp add: shl64_def)
  let ?m1 = "if ?cap < m then ?cap else m"
  let ?m = "if ?m1 \<le> 0 then ?cap else ?m1"
  have pos: "0 < ?m" "?m \<le> ?cap" by auto
  have "FullJitter r base cap attempt = Int63n r ?m" using m by (simp add: FullJitter_def Let_def)
  then show ?thesis using Int63n_bounds [OF pos, of r] by (simp only:)
qed

text \<open>The other one has no such guard: once the shift wraps it panics.\<close>

lemma EqualJitter_panics: "64 \<le> attempt \<Longrightarrow> EqualJitter r base cap attempt = None"
proof -
  assume a: "64 \<le> attempt"
  then have "64 \<le> nat attempt" by simp
  then obtain n where n: "nat attempt = 64 + n" using le_Suc_ex by blast
  have "wrap64 (base * 2 ^ (64 + n)) = 0"
    using mod_mult_self2 [of "2 ^ 63 :: int" "2 ^ 64" "base * 2 ^ n"]
    by (simp add: wrap64_def power_add ac_simps)
  moreover have "cap div 2 \<le> 0" if "cap < 0" using that by presburger
  ultimately show ?thesis using a n by (simp add: EqualJitter_def shl64_def Int63n_def Let_def)
qed

lemma failures_cases: "(0 :: int) \<le> f \<Longrightarrow> f \<le> 5 \<Longrightarrow> f \<in> {0, 1, 2, 3, 4, 5}"
  by auto

lemma backoffDur_bounds:
  assumes "0 \<le> f" "f \<le> 5" shows "\<exists>d. backoffDur r f = Some d \<and> 0 \<le> d \<and> d < 30000000000"
proof -
  have *: "\<exists>d. map_option (\<lambda>j. h + j) (Int63n r h) = Some d \<and> 0 \<le> d \<and> d < 30000000000"
    if "0 < h" "h \<le> 15000000000" for h
  proof -
    have "0 \<le> r mod h" "r mod h < h" using that by simp_all
    then have "0 \<le> h + r mod h" "h + r mod h < 30000000000" using that by linarith+
    then show ?thesis using that by (simp add: Int63n_def)
  qed
  show ?thesis using failures_cases [OF assms]
    by (auto simp: backoffDur_def EqualJitter_def shl64_def wrap64_id Let_def simp del: map_option_eq_Some intro!: *)
qed

text \<open>The failure counter of the loop stays between zero and the threshold of the breaker.\<close>

lemma poll_failures:
  "poll E (f, s) = Some (f', s') \<Longrightarrow> 0 \<le> f \<Longrightarrow> f \<le> 5 \<Longrightarrow> 0 \<le> f' \<and> f' \<le> 5"
  by (auto simp: poll_def Let_def split: option.splits if_splits readResult.splits)

lemma handleMessages_panic:
  "handleMessages E ms s = None \<longleftrightarrow> list_ex (\<lambda>m. xm_Values m ''json'' \<noteq> None \<and> xm_Values m ''tenant_id'' = None) ms"
proof (induction ms arbitrary: s)
  case (Cons m ms)
  then show ?case by (auto simp: handleMessage_def Let_def split: option.splits sum.splits)
qed simp

lemma poll_panic:
  assumes "0 \<le> f" "f \<le> 5" "poll E (f, s) = None"
  shows "\<exists>ms. ie_read E = ReadMsgs ms \<and> list_ex (\<lambda>m. xm_Values m ''json'' \<noteq> None \<and> xm_Values m ''tenant_id'' = None) ms"
proof -
  obtain d where "backoffDur (ie_rand E) f = Some d" using backoffDur_bounds [OF assms(1,2)] by blast
  then show ?thesis
    using assms(3) by (auto simp: poll_def Let_def handleMessages_panic split: if_splits readResult.splits)
qed

text \<open>
  The only thing that crashes the subscriber's loop is a message that has its JSON field but no
  field \<^verbatim>\<open>tenant_id\<close>: neither the failures of Redis, in any sequence, nor the back-off do.
\<close>

theorem StartSub_crash:
  assumes "StartSub Es (0, s) = Crashed"
  shows "\<exists>E \<in> set Es. \<exists>ms. ie_read E = ReadMsgs ms
    \<and> list_ex (\<lambda>m. xm_Values m ''json'' \<noteq> None \<and> xm_Values m ''tenant_id'' = None) ms"
proof -
  have "0 \<le> f \<Longrightarrow> f \<le> 5 \<Longrightarrow> StartSub Es (f, s) = Crashed \<Longrightarrow> \<exists>E \<in> set Es. \<exists>ms. ie_read E = ReadMsgs ms
    \<and> list_ex (\<lambda>m. xm_Values m ''json'' \<noteq> None \<and> xm_Values m ''tenant_id'' = None) ms" for f s
  proof (induction Es arbitrary: f s)
    case (Cons E Es)
    then show ?case
    proof (cases "poll E (f, s)")
      case (Some fs)
      then obtain f' s' where fs: "poll E (f, s) = Some (f', s')" by (metis surj_pair)
      then have "StartSub Es (f', s') = Crashed" using Cons.prems(3) by (simp split: sel.splits)
      then show ?thesis using Cons.IH [of f' s'] poll_failures [OF fs Cons.prems(1,2)] by auto
    qed (use poll_panic [of f E s] Cons.prems in auto)
  qed simp
  from this [of 0 s] show ?thesis using assms by simp
qed

text \<open>
  Every published update is such a message. The publisher writes the JSON field only, so the first
  poll that reads a published update crashes the process that subscribed.
\<close>

theorem published_update_crashes:
  assumes "PublishRuleUpdate encode None True upd = ([XAdd stream vals maxlen], None)"
    and "ie_sel E = Poll" "ie_read E = ReadMsgs [\<lparr>xm_ID = i, xm_Values = vals\<rparr>]"
  shows "StartSub (E # Es) (0, s) = Crashed"
proof -
  have "vals = [''json'' \<mapsto> encode upd]" using assms(1) by (simp add: PublishRuleUpdate_def)
  then have "handleMessages (updEnv.truncate E) [\<lparr>xm_ID = i, xm_Values = vals\<rparr>] s' = None" for s'
    by (simp only: handleMessages_panic) simp
  then show ?thesis using assms(2,3) by (simp add: poll_def backoffDur_def Let_def)
qed

section \<open>Versions\<close>

text \<open>
  The versions of the updates that came in messages for tenant \<open>k\<close> and that the handler took without an
  error, in order.
\<close>

fun appliedVersions :: "string \<Rightarrow> redisCmd list \<Rightarrow> int list" where
  "appliedVersions k [] = []"
| "appliedVersions k (Handled m u None # cs) = (if xm_Values m ''tenant_id'' = Some k then [ru_Version u] else []) @ appliedVersions k cs"
| "appliedVersions k (c # cs) = appliedVersions k cs"

definition lastVersion :: "string \<Rightarrow> subscriber \<Rightarrow> int" where
  "lastVersion k s = (case sb_tenantState s k of None \<Rightarrow> 0 | Some ts \<Rightarrow> ts_lastAppliedVersion ts)"

definition versionsInv :: "string \<Rightarrow> subscriber \<Rightarrow> bool" where
  "versionsInv k s \<longleftrightarrow> (\<forall>k'. 0 \<le> lastVersion k' s) \<and> sorted_wrt (<) (appliedVersions k (sb_log s))
     \<and> list_all (\<lambda>v. 0 < v \<and> v \<le> lastVersion k s) (appliedVersions k (sb_log s))"

lemma appliedVersions_append [simp]: "appliedVersions k (a @ b) = appliedVersions k a @ appliedVersions k b"
  by (induction k a rule: appliedVersions.induct) simp_all

lemma emitCmds_simps [simp]:
  "sb_log (emitCmds cs s) = sb_log s @ cs" "sb_tenantState (emitCmds cs s) = sb_tenantState s" "sb_tenantID (emitCmds cs s) = sb_tenantID s"
  "lastVersion k (emitCmds cs s) = lastVersion k s"
  by (simp_all add: emitCmds_def lastVersion_def)

lemma versionsInv_emit [simp]: "appliedVersions k cs = [] \<Longrightarrow> versionsInv k (emitCmds cs s) = versionsInv k s"
  by (simp add: versionsInv_def)

lemma versionsInv_ack [simp]: "versionsInv k (ackMsg m s) = versionsInv k s"
  by (simp add: ackMsg_def)

lemma versionsInv_DLQ [simp]: "versionsInv k (routeToDLQ t m r s) = versionsInv k s"
  by (simp add: routeToDLQ_def)

lemma versionsInv_sleepIf [simp]: "versionsInv k (sleepIf d s) = versionsInv k s"
  by (simp add: sleepIf_def)

text \<open>Replacing a tenant's state by one with the same version changes nothing.\<close>

lemma lastVersion_upd [simp]:
  "lastVersion k (s\<lparr>sb_tenantState := m(k' \<mapsto> ts)\<rparr>) = (if k = k' then ts_lastAppliedVersion ts else lastVersion k (s\<lparr>sb_tenantState := m\<rparr>))"
  by (simp add: lastVersion_def)

lemma versionsInv_sameVersion:
  "ts_lastAppliedVersion ts = lastVersion k' s \<Longrightarrow> versionsInv k (s\<lparr>sb_tenantState := (sb_tenantState s)(k' \<mapsto> ts)\<rparr>) = versionsInv k s"
  by (auto simp: versionsInv_def)

lemma isDuplicate_version [simp]: "ts_lastAppliedVersion (fst (isDuplicate sha t ts)) = ts_lastAppliedVersion ts"
  by (simp add: isDuplicate_def Let_def)

lemma addRecent_version [simp]: "ts_lastAppliedVersion (addRecent i v sha t ts) = ts_lastAppliedVersion ts"
  by (simp add: addRecent_def)

lemma versionsInv_handled:
  assumes I: "versionsInv k s" and v: "lastVersion key s < ru_Version u" and ts: "ts_lastAppliedVersion ts = ru_Version u"
    and m: "xm_Values m ''tenant_id'' = Some key"
  shows "versionsInv k ((emitCmds [Handled m u None] s)\<lparr>sb_tenantState := (sb_tenantState s)(key \<mapsto> ts)\<rparr>)"
proof -
  let ?s = "(emitCmds [Handled m u None] s)\<lparr>sb_tenantState := (sb_tenantState s)(key \<mapsto> ts)\<rparr>"
  have l: "lastVersion k' ?s = (if k' = key then ru_Version u else lastVersion k' s)" for k'
    by (simp add: lastVersion_def emitCmds_def ts)
  have log: "appliedVersions k (sb_log ?s) = appliedVersions k (sb_log s) @ (if key = k then [ru_Version u] else [])"
    by (simp add: emitCmds_def m)
  have "0 < ru_Version u" using I v le_less_trans unfolding versionsInv_def by blast
  then show ?thesis unfolding versionsInv_def l log
    using I v by (cases "key = k") (force simp: versionsInv_def list_all_iff sorted_wrt_append)+
qed

lemma versionsInv_apply:
  assumes I: "versionsInv k s" and ts: "ts_lastAppliedVersion ts = lastVersion key s" and m: "xm_Values m ''tenant_id'' = Some key"
  shows "versionsInv k (applyUpdate E m key ts u s)"
proof (cases "ru_Version u \<le> ts_lastAppliedVersion ts")
  case False
  obtain ts1 dup where d: "isDuplicate (ru_ContentSHA256 u) (ue_now E) ts = (ts1, dup)" by (metis surj_pair)
  have ts1: "ts_lastAppliedVersion ts1 = lastVersion key s" using isDuplicate_version d ts by (metis fst_conv)
  let ?s1 = "s\<lparr>sb_tenantState := (sb_tenantState s)(key \<mapsto> ts1)\<rparr>"
  have I1: "versionsInv k ?s1" using I ts1 by (simp add: versionsInv_sameVersion)
  have "versionsInv k ((emitCmds [Handled m u None] ?s1)\<lparr>sb_tenantState := (sb_tenantState ?s1)(key \<mapsto> ts2)\<rparr>)"
    if "ts_lastAppliedVersion ts2 = ru_Version u" for ts2
    using False ts ts1 by (intro versionsInv_handled [OF I1 _ that m]) simp
  then show ?thesis
    using False d I1 by (simp add: applyUpdate_def Let_def split: option.splits)
qed (simp add: applyUpdate_def I)

lemma versionsInv_handle:
  assumes "versionsInv k s" "handleMessage E m s = Some s'"
  shows "versionsInv k s'"
proof -
  let ?ts = "stateFor s"
  have ts: "ts_lastAppliedVersion (?ts key) = lastVersion key s" for key
    by (simp add: stateFor_def lastVersion_def newTenantState_def split: option.split)
  have I: "versionsInv k (s\<lparr>sb_tenantState := (sb_tenantState s)(key \<mapsto> ?ts key)\<rparr>)" for key
    using assms(1) versionsInv_sameVersion [OF ts] by blast
  have "versionsInv k (applyUpdate E m key (?ts key) u (s\<lparr>sb_tenantState := (sb_tenantState s)(key \<mapsto> ?ts key)\<rparr>))"
    if "xm_Values m ''tenant_id'' = Some key" for u key
    by (rule versionsInv_apply [OF I _ that]) simp
  then show ?thesis
    using assms I by (auto simp: handleMessage_def Let_def split: option.splits sum.splits)
qed

lemma versionsInv_handleMessages: "handleMessages E ms s = Some s' \<Longrightarrow> versionsInv k s \<Longrightarrow> versionsInv k s'"
  by (induction ms arbitrary: s) (auto split: option.splits intro: versionsInv_handle)

lemma versionsInv_poll:
  assumes "poll E (f, s) = Some (f', s')" "versionsInv k s"
  shows "versionsInv k s'"
  using assms versionsInv_handleMessages [where E = "updEnv.truncate E" and k = k and s' = s']
  by (auto simp: poll_def Let_def updEnv.truncate_def split: option.splits if_splits readResult.splits)

text \<open>
  C19. The subscriber never goes back while it runs: of the updates that come in messages whose field
  \<^verbatim>\<open>tenant_id\<close> names a tenant, those its handler takes have positive and strictly increasing versions, whatever
  messages arrive in whatever order and however often, malformed ones included. A message with an update and no such
  field, as the repository's own publisher sends it, ends the process instead.
\<close>

theorem applied_versions_increase:
  assumes "NewSubscriber addr grp consumer tenant = Some s0" "StartSub Es (0, s0) = Polling (f, s)"
  shows "sorted_wrt (<) (appliedVersions k (sb_log s)) \<and> list_all (\<lambda>v. 0 < v) (appliedVersions k (sb_log s))"
proof -
  have "StartSub Es (f0, s1) = Polling (f, s) \<Longrightarrow> versionsInv k s1 \<Longrightarrow> versionsInv k s" for f0 s1
  proof (induction Es arbitrary: f0 s1)
    case (Cons E Es)
    then obtain f2 s2 where p: "poll E (f0, s1) = Some (f2, s2)" "StartSub Es (f2, s2) = Polling (f, s)"
      by (auto split: sel.splits option.splits)
    from Cons.IH [OF p(2) versionsInv_poll [OF p(1) Cons.prems(2)]] show ?case .
  qed simp
  moreover have "versionsInv k s0" using assms(1) by (auto simp: NewSubscriber_def versionsInv_def lastVersion_def split: if_splits)
  ultimately have "versionsInv k s" using assms(2) by blast
  then show ?thesis by (auto simp: versionsInv_def list_all_iff)
qed

text \<open>
  Versions are compared per tenant, not per rule pack: an update of another pack of the tenant whose
  version is not above the last one applied is acknowledged and never reaches the handler.
\<close>

lemma stale_update:
  "ru_Version u \<le> ts_lastAppliedVersion ts \<Longrightarrow> applyUpdate E m key ts u s = ackMsg m s"
  by (simp add: applyUpdate_def)

lemma other_pack_dropped:
  assumes "xm_Values m1 ''json'' = Some j1" "xm_Values m1 ''tenant_id'' = Some key" "ue_decode E j1 = Inr u1"
    and "ue_handler E u1 = None" "lastVersion key s < ru_Version u1"
    and "\<not> snd (isDuplicate (ru_ContentSHA256 u1) (ue_now E) (the (sb_tenantState s key)))" "sb_tenantState s key \<noteq> None"
    and "xm_Values m2 ''json'' = Some j2" "xm_Values m2 ''tenant_id'' = Some key" "ue_decode E j2 = Inr u2"
    and "ru_Version u2 \<le> ru_Version u1" "ru_RulepackID u2 \<noteq> ru_RulepackID u1"
  shows "\<exists>s'. handleMessages E [m1, m2] s = Some s' \<and> filter (\<lambda>c. case c of Handled m u r \<Rightarrow> True | _ \<Rightarrow> False) (sb_log s')
    = filter (\<lambda>c. case c of Handled m u r \<Rightarrow> True | _ \<Rightarrow> False) (sb_log s) @ [Handled m1 u1 None]"
proof -
  obtain ts where ts: "sb_tenantState s key = Some ts" using assms(7) by blast
  obtain ts1 where d: "isDuplicate (ru_ContentSHA256 u1) (ue_now E) ts = (ts1, False)" using assms(6) ts by (metis option.sel prod.collapse)
  have v: "\<not> ru_Version u1 \<le> ts_lastAppliedVersion ts" using assms(5) ts by (simp add: lastVersion_def)
  let ?ts2 = "addRecent (xm_ID m1) (ru_Version u1) (ru_ContentSHA256 u1) (ue_now E) (ts1\<lparr>ts_lastAppliedVersion := ru_Version u1\<rparr>)"
  obtain s1 where s1: "handleMessage E m1 s = Some s1" "sb_tenantState s1 key = Some ?ts2"
    "sb_log s1 = sb_log s @ [Handled m1 u1 None, XAck (updatesStream (sb_tenantID s)) (sb_consumerGroup s) (xm_ID m1)]"
    using assms(1-4) ts d v by (simp add: handleMessage_def stateFor_def applyUpdate_def ackMsg_def emitCmds_def)
  have "handleMessage E m2 s1 = Some (ackMsg m2 (s1\<lparr>sb_tenantState := (sb_tenantState s1)(key \<mapsto> ?ts2)\<rparr>))"
    using assms(8-11) s1(2) by (simp add: handleMessage_def stateFor_def stale_update)
  then show ?thesis using s1 by (simp add: ackMsg_def emitCmds_def)
qed

text \<open>
  An update whose handler fails is not acknowledged, and nothing handles it again: the loop asks for
  new messages only, and what \<open>recoverPending\<close> claims it leaves.
\<close>

lemma failed_update_unacked:
  assumes "ue_handler E u = Some e" "ts_lastAppliedVersion ts < ru_Version u"
    and "\<not> snd (isDuplicate (ru_ContentSHA256 u) (ue_now E) ts)"
  shows "sb_log (applyUpdate E m key ts u s) = sb_log s @ [Handled m u (Some e)]"
  using assms by (auto simp: applyUpdate_def Let_def split: prod.splits)

text \<open>A message is acknowledged even if the dead-letter queue did not take it: the answer to the command is not looked at.\<close>

lemma DLQ_acknowledges: "last (sb_log (routeToDLQ t m reason s)) = XAck (updatesStream (sb_tenantID s)) (sb_consumerGroup s) (xm_ID m)"
  by (simp add: routeToDLQ_def ackMsg_def emitCmds_def)

section \<open>Duplicate detection\<close>

text \<open>What the ring buffer goes through.\<close>

datatype ringOp = CheckOp string int | AddOp recentMsg

fun opTime :: "ringOp \<Rightarrow> int" where
  "opTime (CheckOp sha t) = t"
| "opTime (AddOp m) = rm_receivedAt m"

fun ringStep :: "ringOp \<Rightarrow> tenantState \<Rightarrow> tenantState" where
  "ringStep (CheckOp sha t) ts = fst (isDuplicate sha t ts)"
| "ringStep (AddOp m) ts = addRecent (rm_id m) (rm_version m) (rm_sha256 m) (rm_receivedAt m) ts"

fun added :: "ringOp list \<Rightarrow> recentMsg list" where
  "added [] = []"
| "added (CheckOp sha t # ops) = added ops"
| "added (AddOp m # ops) = m # added ops"

text \<open>Slot \<open>k mod n\<close> holds the \<open>k\<close>-th of the messages \<open>h\<close>, if it is one of the last \<open>n\<close>, unless it is too old.\<close>

definition ringInv :: "nat \<Rightarrow> int \<Rightarrow> int \<Rightarrow> recentMsg list \<Rightarrow> tenantState \<Rightarrow> bool" where
  "ringInv n d now h ts \<longleftrightarrow>
     ts_bufferCapacity ts = n \<and> ts_evictionDuration ts = d \<and> length (ts_recentMessages ts) = n \<and> ts_bufferIdx ts = length h mod n
     \<and> (\<forall>k < length h. length h \<le> k + n \<longrightarrow>
           ts_recentMessages ts ! (k mod n) = Some (h ! k)
           \<or> (ts_recentMessages ts ! (k mod n) = None \<and> d < now - rm_receivedAt (h ! k)))
     \<and> (\<forall>j < n. length h \<le> j \<longrightarrow> ts_recentMessages ts ! j = None)"

lemma ringInv_new: "ringInv n d now [] (newTenantState n d)"
  by (simp add: ringInv_def newTenantState_def)

lemma ringInv_slot:
  assumes "ringInv n d now h ts" "k < length h" "length h \<le> k + n" "now \<le> now'"
  shows "evict d now' (ts_recentMessages ts ! (k mod n)) = Some (h ! k) \<and> \<not> d < now' - rm_receivedAt (h ! k)
    \<or> evict d now' (ts_recentMessages ts ! (k mod n)) = None \<and> d < now' - rm_receivedAt (h ! k)"
proof -
  have "ts_recentMessages ts ! (k mod n) = Some (h ! k)
      \<or> (ts_recentMessages ts ! (k mod n) = None \<and> d < now - rm_receivedAt (h ! k))"
    using assms(1-3) by (simp add: ringInv_def)
  then show ?thesis using assms(4) by (auto simp: evict_def split: if_splits)
qed

lemma ringInv_check:
  assumes I: "ringInv n d now h ts" and "now \<le> now'" "0 < n"
  shows "ringInv n d now' h (fst (isDuplicate sha now' ts))"
proof -
  have J: "length (ts_recentMessages ts) = n" "ts_evictionDuration ts = d" using I by (simp_all add: ringInv_def)
  have "evict d now' (ts_recentMessages ts ! (k mod n)) = Some (h ! k)
      \<or> evict d now' (ts_recentMessages ts ! (k mod n)) = None \<and> d < now' - rm_receivedAt (h ! k)"
    if "k < length h" "length h \<le> k + n" for k
    using ringInv_slot [OF I that assms(2)] by blast
  moreover have "evict d now' (ts_recentMessages ts ! j) = None" if "j < n" "length h \<le> j" for j
    using I that by (simp add: ringInv_def evict_def)
  ultimately show ?thesis
    using I assms(3) by (simp add: ringInv_def isDuplicate_def Let_def J)
qed

lemma window_index:
  assumes "j < n" "j < len" shows "\<exists>k < len. len \<le> k + n \<and> k mod n = (j :: nat)"
proof -
  let ?q = "(len - 1 - j) div n"
  have a: "n * ?q \<le> len - 1 - j" by (metis mult_div_mod_eq le_add1)
  have b: "len - 1 - j < n * ?q + n" using assms(1) by (metis add.commute dividend_less_div_times gr_implies_not0 mult.commute neq0_conv)
  have "(j + n * ?q) mod n = j" using assms(1) by simp
  moreover have "j + n * ?q < len" "len \<le> j + n * ?q + n" using a b assms(2) by linarith+
  ultimately show ?thesis by blast
qed

lemma isDuplicate_window:
  assumes I: "ringInv n d now h ts" and le: "now \<le> now'" and n: "0 < n"
  shows "snd (isDuplicate sha now' ts)
    \<longleftrightarrow> list_ex (\<lambda>m. rm_sha256 m = sha \<and> now' - rm_receivedAt m \<le> d) (drop (length h - n) h)"
    (is "_ \<longleftrightarrow> ?R")
proof -
  let ?slot = "\<lambda>j. evict d now' (ts_recentMessages ts ! j)"
  have J: "length (ts_recentMessages ts) = n" "ts_evictionDuration ts = d" using I by (simp_all add: ringInv_def)
  have R: "?R \<longleftrightarrow> (\<exists>k < length h. length h \<le> k + n \<and> rm_sha256 (h ! k) = sha \<and> now' - rm_receivedAt (h ! k) \<le> d)"
  proof
    assume ?R
    then obtain i where i: "i < length h - (length h - n)" "rm_sha256 (drop (length h - n) h ! i) = sha \<and> now' - rm_receivedAt (drop (length h - n) h ! i) \<le> d"
      by (auto simp: list_ex_iff in_set_conv_nth)
    then have "length h - n + i < length h" "length h \<le> (length h - n + i) + n" by linarith+
    then show "\<exists>k < length h. length h \<le> k + n \<and> rm_sha256 (h ! k) = sha \<and> now' - rm_receivedAt (h ! k) \<le> d"
      using i(2) by (intro exI [of _ "length h - n + i"]) simp
  next
    assume "\<exists>k < length h. length h \<le> k + n \<and> rm_sha256 (h ! k) = sha \<and> now' - rm_receivedAt (h ! k) \<le> d"
    then obtain k where k: "k < length h" "length h \<le> k + n" "rm_sha256 (h ! k) = sha \<and> now' - rm_receivedAt (h ! k) \<le> d" by blast
    then have "drop (length h - n) h ! (k - (length h - n)) = h ! k" "k - (length h - n) < length (drop (length h - n) h)" by simp_all
    then show ?R unfolding list_ex_iff using k(3) by (metis nth_mem)
  qed
  have L: "snd (isDuplicate sha now' ts) \<longleftrightarrow> (\<exists>j < n. \<exists>m. ?slot j = Some m \<and> rm_sha256 m = sha)"
  proof -
    have c: "(case x of None \<Rightarrow> False | Some m \<Rightarrow> rm_sha256 m = sha) \<longleftrightarrow> (\<exists>m. x = Some m \<and> rm_sha256 m = sha)" for x by (cases x) auto
    show ?thesis unfolding isDuplicate_def Let_def snd_conv list_ex_length c by (auto simp: J)
  qed
  show ?thesis unfolding L R
  proof
    assume "\<exists>j < n. \<exists>m. ?slot j = Some m \<and> rm_sha256 m = sha"
    then obtain j m where j: "j < n" "?slot j = Some m" "rm_sha256 m = sha" by blast
    have "j < length h" using I j(1,2) by (cases "length h \<le> j") (simp_all add: ringInv_def evict_def)
    then obtain k where k: "k < length h" "length h \<le> k + n" "k mod n = j" using window_index j(1) by blast
    from ringInv_slot [OF I k(1,2) le] j(2) k(3) have "m = h ! k" "\<not> d < now' - rm_receivedAt (h ! k)" by simp_all
    then show "\<exists>k < length h. length h \<le> k + n \<and> rm_sha256 (h ! k) = sha \<and> now' - rm_receivedAt (h ! k) \<le> d"
      using k j(3) by (metis not_less)
  next
    assume "\<exists>k < length h. length h \<le> k + n \<and> rm_sha256 (h ! k) = sha \<and> now' - rm_receivedAt (h ! k) \<le> d"
    then obtain k where k: "k < length h" "length h \<le> k + n" "rm_sha256 (h ! k) = sha" "now' - rm_receivedAt (h ! k) \<le> d" by blast
    from ringInv_slot [OF I k(1,2) le] k(4) have "?slot (k mod n) = Some (h ! k)" by simp
    then show "\<exists>j < n. \<exists>m. ?slot j = Some m \<and> rm_sha256 m = sha" using n k(3) by (metis mod_less_divisor)
  qed
qed

lemma slot_differs:
  assumes "k < len" "len \<le> k + n" "k mod n = len mod n" "0 < (n :: nat)" shows "k + n = len"
proof -
  have "n dvd len - k" using assms(1,3) by (metis less_imp_le_nat mod_eq_dvd_iff_nat)
  moreover have "len - k \<le> n" "0 < len - k" using assms by simp_all
  ultimately have "len - k = n" by (metis dvd_imp_le le_antisym)
  then show ?thesis using assms(1) by simp
qed

lemma ringInv_add:
  assumes I: "ringInv n d now h ts" and "now \<le> rm_receivedAt m" "0 < n"
  shows "ringInv n d (rm_receivedAt m) (h @ [m]) (ringStep (AddOp m) ts)"
proof -
  let ?slots = "ts_recentMessages ts" and ?i = "length h mod n"
  have m: "\<lparr>rm_id = rm_id m, rm_version = rm_version m, rm_sha256 = rm_sha256 m, rm_receivedAt = rm_receivedAt m\<rparr> = m" by simp
  have J: "length ?slots = n" "ts_bufferIdx ts = ?i" "ts_bufferCapacity ts = n" "ts_evictionDuration ts = d"
    using I by (simp_all add: ringInv_def)
  have i: "?i < n" using assms(3) by simp
  have "?slots[?i := Some m] ! (k mod n) = Some ((h @ [m]) ! k)
      \<or> (?slots[?i := Some m] ! (k mod n) = None \<and> d < rm_receivedAt m - rm_receivedAt ((h @ [m]) ! k))"
    if k: "k < length (h @ [m])" "length (h @ [m]) \<le> k + n" for k
  proof (cases "k = length h")
    case True
    then show ?thesis using i J(1) by simp
  next
    case False
    then have k': "k < length h" using k(1) by simp
    have "k mod n \<noteq> ?i" using slot_differs [OF k' _ _ assms(3)] k(2) by fastforce
    moreover have "?slots ! (k mod n) = Some (h ! k) \<or> (?slots ! (k mod n) = None \<and> d < now - rm_receivedAt (h ! k))"
      using I k' k(2) by (simp add: ringInv_def)
    ultimately show ?thesis using k' assms(2) by (auto simp: nth_append)
  qed
  moreover have "?slots[?i := Some m] ! j = None" if "j < n" "length (h @ [m]) \<le> j" for j
  proof -
    have "length h < n" using that by simp
    then have "?i \<noteq> j" using that(2) by simp
    then show ?thesis using I that by (simp add: ringInv_def)
  qed
  ultimately show ?thesis unfolding ringInv_def by (simp add: addRecent_def m J mod_Suc_eq)
qed

lemma ringInv_run:
  assumes "0 < n" "ringInv n d now h ts" "sorted (now # map opTime ops)"
  shows "\<exists>now'. now' \<le> last (now # map opTime ops) \<and> ringInv n d now' (h @ added ops) (fold ringStep ops ts)"
  using assms(2,3)
proof (induction ops arbitrary: now h ts)
  case (Cons op ops)
  have "ringInv n d (opTime op) (h @ added [op]) (ringStep op ts)"
    using Cons.prems ringInv_check [OF _ _ assms(1)] ringInv_add [OF _ _ assms(1)] by (cases op) simp_all
  from Cons.IH [OF this] Cons.prems(2) have "\<exists>now'. now' \<le> last (opTime op # map opTime ops)
      \<and> ringInv n d now' ((h @ added [op]) @ added ops) (fold ringStep ops (ringStep op ts))" by simp
  moreover have "added (op # ops) = added [op] @ added ops" by (cases op) simp_all
  ultimately show ?case by simp
qed auto

text \<open>
  C20. The ring buffer of recent messages refines a window over all of them: after any sequence of
  checks and insertions in the order of time, a hash is a duplicate exactly if one of the last
  \<open>n\<close> inserted messages has it and arrived at most the eviction time ago.
\<close>

theorem dedup_ring_refines:
  assumes "0 < n" "sorted (map opTime ops @ [now])"
  shows "snd (isDuplicate sha now (fold ringStep ops (newTenantState n d)))
    \<longleftrightarrow> list_ex (\<lambda>m. rm_sha256 m = sha \<and> now - rm_receivedAt m \<le> d) (drop (length (added ops) - n) (added ops))"
proof (cases ops)
  case Nil
  then show ?thesis using isDuplicate_window [OF ringInv_new _ assms(1), of now now] by simp
next
  case (Cons op rest)
  have s: "sorted (opTime op # map opTime ops)" using assms(2) by (auto simp: Cons sorted_append)
  obtain now' where r: "now' \<le> last (opTime op # map opTime ops)" "ringInv n d now' (added ops) (fold ringStep ops (newTenantState n d))"
    using ringInv_run [OF assms(1) ringInv_new s] by auto
  have "last (opTime op # map opTime ops) \<le> now"
    using assms(2) last_in_set [of "map opTime ops"] by (auto simp: Cons sorted_append)
  from isDuplicate_window [OF r(2) order_trans [OF r(1) this] assms(1)] show ?thesis .
qed

section \<open>Concrete runs\<close>

definition demoUpdate :: "int \<Rightarrow> streamUpdate" where
  "demoUpdate v = \<lparr>ru_TenantID = ''t1'', ru_TargetScope = [], ru_RulepackID = ''p'', ru_Version = v, ru_ContentSHA256 = replicate (nat v) (CHR ''s'')\<rparr>"

definition demoIter :: "readResult \<Rightarrow> iterEnv" where
  "demoIter rr = \<lparr>ue_now = 5, ue_decode = (\<lambda>j. Inr (demoUpdate (int (length j)))), ue_handler = (\<lambda>u. None), ie_sel = Poll, ie_rand = 0,
     ie_ping = None, ie_read = rr, ie_pending = None\<rparr>"

definition tagged :: "string \<Rightarrow> xMessage" where
  "tagged j = \<lparr>xm_ID = ''1-0'', xm_Values = [''json'' \<mapsto> j, ''tenant_id'' \<mapsto> ''t1'']\<rparr>"

definition demoSub :: subscriber where
  "demoSub = \<lparr>sb_consumerGroup = ''g'', sb_consumerName = ''c'', sb_tenantID = ''t1'', sb_tenantState = Map.empty, sb_log = []\<rparr>"

theorem FullJitter_bounds_witness:
  "\<exists>d. FullJitter 12345 100000000 3000000000 70 = Some d \<and> 0 \<le> d \<and> d < 3000000000"
  using FullJitter_bounds [of 70 12345 100000000 3000000000] by simp

theorem StartSub_crash_witness:
  "\<exists>ms. ie_read (demoIter (ReadMsgs [\<lparr>xm_ID = ''1-0'', xm_Values = [''json'' \<mapsto> ''{}'']\<rparr>])) = ReadMsgs ms \<and> ms \<noteq> []"
  using StartSub_crash [of "[demoIter (ReadMsgs [\<lparr>xm_ID = ''1-0'', xm_Values = [''json'' \<mapsto> ''{}'']\<rparr>])]" demoSub]
  by (auto simp: demoIter_def poll_def backoffDur_def handleMessage_def)

theorem published_update_crashes_witness:
  "StartSub [demoIter (ReadMsgs [\<lparr>xm_ID = ''1-0'', xm_Values = [''json'' \<mapsto> ''{}'']\<rparr>])] (0, demoSub) = Crashed"
  by (rule published_update_crashes [where encode = "\<lambda>u. ''{}''" and upd = "demoUpdate 1"])
    (simp_all add: PublishRuleUpdate_def demoIter_def)

text \<open>Versions 1, 3 and 2 arrive; the last is dropped.\<close>

definition demoPolls :: "iterEnv list" where
  "demoPolls = [demoIter (ReadMsgs [tagged ''a'']), demoIter (ReadMsgs [tagged ''abc'']), demoIter (ReadMsgs [tagged ''ab''])]"

definition demoEnd :: "int \<times> subscriber" where
  "demoEnd = (case StartSub demoPolls (0, demoSub) of Polling fs \<Rightarrow> fs | _ \<Rightarrow> (0, demoSub))"

lemma demo_polling: "StartSub demoPolls (0, demoSub) = Polling demoEnd"
proof -
  have "case StartSub demoPolls (0, demoSub) of Polling fs \<Rightarrow> True | _ \<Rightarrow> False" by code_simp
  then show ?thesis by (auto simp: demoEnd_def split: startResult.splits)
qed

theorem applied_versions_increase_witness:
  "sorted_wrt (<) (appliedVersions ''t1'' (sb_log (snd demoEnd))) \<and> list_all (\<lambda>v. 0 < v) (appliedVersions ''t1'' (sb_log (snd demoEnd)))"
  by (rule applied_versions_increase [where addr = "''r''" and grp = "''g''" and consumer = "''c''" and tenant = "''t1''" and ?s0.0 = demoSub
        and Es = demoPolls and f = "fst demoEnd"])
    (simp_all add: NewSubscriber_def demoSub_def demo_polling [unfolded demoSub_def])

theorem dedup_ring_refines_witness:
  "snd (isDuplicate ''x'' 9 (fold ringStep [AddOp \<lparr>rm_id = ''1'', rm_version = 1, rm_sha256 = ''x'', rm_receivedAt = 5\<rparr>] (newTenantState 2 30)))"
  using dedup_ring_refines [of 2 "[AddOp \<lparr>rm_id = ''1'', rm_version = 1, rm_sha256 = ''x'', rm_receivedAt = 5\<rparr>]" 9 "''x''" 30] by simp

end
