(* ===== verification/Moderation.thy ===== *)
theory Moderation
  imports Scanner
begin

text \<open>
  The semantic analyzer on OpenAI's moderation service (\<^verbatim>\<open>internal/semantic/openai/openai.go\<close>) and
  its deterministic stand-in (\<^verbatim>\<open>internal/semantic/fake/fake.go\<close>). The service's answer, the waits on
  the rate limiter and on the semaphore, the clock, and the order in which Go visits a map are
  arguments; the LRU cache is the third-party one of \<open>world\<close>. Scores are real numbers.
\<close>

section \<open>Data\<close>

record moderationInput =
  mn_Text :: string
  mn_ImageURL :: string

record moderationResult =
  mr_Flagged :: bool
  mr_Categories :: "(string \<times> real) list"
  mr_Decision :: string
  mr_Confidence :: real
  mr_Reason :: string

text \<open>One result of the service: its categories and their scores, in the order the code asks for them.\<close>

datatype category =
    Harassment | HarassmentThreatening | Hate | HateThreatening | SelfHarm | SelfHarmIntent | SelfHarmInstructions
  | Sexual | SexualMinors | Violence | ViolenceGraphic | Illicit | IllicitViolent

fun categoryName :: "category \<Rightarrow> string" where
  "categoryName Harassment = ''harassment''"
| "categoryName HarassmentThreatening = ''harassment_threatening''"
| "categoryName Hate = ''hate''"
| "categoryName HateThreatening = ''hate_threatening''"
| "categoryName SelfHarm = ''self_harm''"
| "categoryName SelfHarmIntent = ''self_harm_intent''"
| "categoryName SelfHarmInstructions = ''self_harm_instructions''"
| "categoryName Sexual = ''sexual''"
| "categoryName SexualMinors = ''sexual_minors''"
| "categoryName Violence = ''violence''"
| "categoryName ViolenceGraphic = ''violence_graphic''"
| "categoryName Illicit = ''illicit''"
| "categoryName IllicitViolent = ''illicit_violent''"

definition askedCategories :: "category list" where
  "askedCategories = [Harassment, HarassmentThreatening, Hate, HateThreatening, SelfHarm, SelfHarmIntent, SelfHarmInstructions,
     Sexual, SexualMinors, Violence, ViolenceGraphic, Illicit, IllicitViolent]"

record moderation =
  mo_Flagged :: bool
  mo_Categories :: "category \<Rightarrow> bool"
  mo_Scores :: "category \<Rightarrow> real"

record modOptions =
  mp_BaseURL :: string
  mp_MaxConcurrency :: int
  mp_CacheSize :: int
  mp_CacheTTL :: int
  mp_RequestsPerSecond :: real
  mp_BurstSize :: int

record modAnalyzer =
  ma_cache :: "semLru option"
  ma_ttl :: int

definition withDefaults :: "modOptions \<Rightarrow> modOptions" where
  "withDefaults o1 =
     o1\<lparr>mp_BaseURL := (if mp_BaseURL o1 = [] then ''https://api.openai.com/v1'' else mp_BaseURL o1),
        mp_MaxConcurrency := (if mp_MaxConcurrency o1 \<le> 0 then 2 else mp_MaxConcurrency o1),
        mp_CacheSize := (if mp_CacheSize o1 \<le> 0 then 1000 else mp_CacheSize o1),
        mp_CacheTTL := (if mp_CacheTTL o1 \<le> 0 then 900000000000 else mp_CacheTTL o1),
        mp_RequestsPerSecond := (if mp_RequestsPerSecond o1 \<le> 0 then 10 else mp_RequestsPerSecond o1),
        mp_BurstSize := (if mp_BurstSize o1 \<le> 0 then 20 else mp_BurstSize o1)\<rparr>"

definition NewAnalyzer :: "'rx world \<Rightarrow> modOptions \<Rightarrow> modAnalyzer" where
  "NewAnalyzer W o1 = (let o2 = withDefaults o1 in \<lparr>ma_cache = scNew W (mp_CacheSize o2), ma_ttl = mp_CacheTTL o2\<rparr>)"

section \<open>The cache\<close>

definition spaceByte :: "char \<Rightarrow> bool" where
  "spaceByte c \<longleftrightarrow> byte c \<in> {9, 10, 12, 13, 32}"

text \<open>Replacing every match of \<^verbatim>\<open>\s+\<close> by a blank.\<close>

fun squeeze :: "bool \<Rightarrow> string \<Rightarrow> string" where
  "squeeze inRun [] = []"
| "squeeze inRun (c # s) =
     (if spaceByte c then (if inRun then squeeze True s else CHR '' '' # squeeze True s) else c # squeeze False s)"

definition normalizeForCache :: "'rx golib \<Rightarrow> string \<Rightarrow> string" where
  "normalizeForCache G s = (let s1 = squeeze False (strTrimSpace s) in strToLower G (if 500 < length s1 then take 500 s1 else s1))"

definition getCache :: "'rx world \<Rightarrow> int \<Rightarrow> string \<Rightarrow> modAnalyzer \<Rightarrow> modAnalyzer \<times> (bool \<times> real) option" where
  "getCache W t key a =
     (case ma_cache a of
        None \<Rightarrow> (a, None)
      | Some c \<Rightarrow>
          (case scGet W c key of
             (c1, None) \<Rightarrow> (a\<lparr>ma_cache := Some c1\<rparr>, None)
           | (c1, Some e) \<Rightarrow>
               if t < e_expiresAt e then (a\<lparr>ma_cache := Some c1\<rparr>, Some (e_ok e, e_conf e))
               else (a\<lparr>ma_cache := Some (scRemove W c1 key)\<rparr>, None)))"

definition putCache :: "'rx world \<Rightarrow> int \<Rightarrow> string \<Rightarrow> bool \<Rightarrow> real \<Rightarrow> modAnalyzer \<Rightarrow> modAnalyzer" where
  "putCache W t key verdict conf a =
     (case ma_cache a of
        None \<Rightarrow> a
      | Some c \<Rightarrow> a\<lparr>ma_cache := Some (scAdd W c key \<lparr>e_ok = verdict, e_conf = conf, e_expiresAt = t + ma_ttl a\<rparr>)\<rparr>)"

section \<open>The verdict\<close>

definition getDecision :: "bool \<Rightarrow> string" where
  "getDecision flagged = (if flagged then ''block'' else ''allow'')"

definition categoriesOf :: "moderation \<Rightarrow> (string \<times> real) list" where
  "categoriesOf m = map (\<lambda>c. (categoryName c, mo_Scores m c)) (filter (mo_Categories m) askedCategories)"

definition startScore :: "(string \<times> real) list \<Rightarrow> real \<times> string" where
  "startScore cats =
     (case map_of cats ''illicit'' of
        None \<Rightarrow> (0, [])
      | Some sc \<Rightarrow> if 1 / 2 < sc then (sc, ''prompt_injection'') else (0, []))"

definition raiseScore :: "string \<times> real \<Rightarrow> real \<times> string \<Rightarrow> real \<times> string" where
  "raiseScore cs best = (if fst best < snd cs then (snd cs, fst cs) else best)"

text \<open>\<open>visited\<close> holds the entries of the map in the order the loop visits them.\<close>

definition highest :: "(string \<times> real) list \<Rightarrow> (string \<times> real) list \<Rightarrow> real \<times> string" where
  "highest cats visited = fold raiseScore visited (startScore cats)"

definition thresholdOf :: "semantic \<Rightarrow> real" where
  "thresholdOf cfg = (if s_ConfidenceThreshold cfg = 0 then 7 / 10 else s_ConfidenceThreshold cfg)"

definition reasonFor :: "string \<Rightarrow> string" where
  "reasonFor cat =
     (if cat = ''prompt_injection'' then ''Potential prompt injection detected''
      else if strContains cat ''illicit'' then ''Instructions for wrongdoing detected''
      else if strContains cat ''harassment'' then ''Harassment content detected''
      else if strContains cat ''violence'' then ''Violence content detected''
      else if cat \<noteq> [] then ''Content violates '' @ strReplaceAll ''_'' '' '' cat @ '' policy''
      else ''Content flagged by moderation'')"

definition judge :: "((string \<times> real) list \<Rightarrow> (string \<times> real) list) \<Rightarrow> semantic \<Rightarrow> moderation \<Rightarrow> moderationResult" where
  "judge visit cfg m =
     (let cats = categoriesOf m;
          (maxScore, cat) = highest cats (visit cats);
          flagged = (mo_Flagged m \<or> thresholdOf cfg \<le> maxScore)
      in \<lparr>mr_Flagged = flagged, mr_Categories = cats, mr_Decision = getDecision flagged, mr_Confidence = maxScore,
          mr_Reason = (if flagged then reasonFor cat else [])\<rparr>)"

text \<open>What one call meets; the semaphore is taken unless the context ends first.\<close>

record modEnv =
  me_lookup :: int
  me_store :: int
  me_limiter :: "string option"
  me_ctxDone :: "string option"
  me_response :: "string + moderation list"
  me_visit :: "(string \<times> real) list \<Rightarrow> (string \<times> real) list"

definition modCacheKey :: "'rx golib \<Rightarrow> moderationInput \<Rightarrow> string" where
  "modCacheKey G i = ''mod:'' @ normalizeForCache G (mn_Text i) @ '':'' @ mn_ImageURL i"

definition AnalyzeWithModeration :: "'rx world \<Rightarrow> modEnv \<Rightarrow> moderationInput \<Rightarrow> semantic \<Rightarrow> modAnalyzer
    \<Rightarrow> modAnalyzer \<times> (string + moderationResult)" where
  "AnalyzeWithModeration W E i cfg a =
     (let key = modCacheKey (lib W) i in
      case getCache W (me_lookup E) key a of
        (a1, Some (flagged, conf)) \<Rightarrow>
          (a1, Inr \<lparr>mr_Flagged = flagged, mr_Categories = [], mr_Decision = getDecision flagged, mr_Confidence = conf, mr_Reason = []\<rparr>)
      | (a1, None) \<Rightarrow>
          (case me_limiter E of
             Some e \<Rightarrow> (a1, Inl (''rate limit exceeded: '' @ e))
           | None \<Rightarrow>
               (case me_ctxDone E of
                  Some e \<Rightarrow> (a1, Inl e)
                | None \<Rightarrow>
                    (case me_response E of
                       Inl e \<Rightarrow> (a1, Inl (''moderation api error: '' @ e))
                     | Inr [] \<Rightarrow> (a1, Inl ''no moderation results returned'')
                     | Inr (m # ms) \<Rightarrow>
                         let r = judge (me_visit E) cfg m
                         in (putCache W (me_store E) key (mr_Flagged r) (mr_Confidence r) a1, Inr r)))))"

definition AnalyzeModeration :: "'rx world \<Rightarrow> modEnv \<Rightarrow> string \<Rightarrow> semantic \<Rightarrow> modAnalyzer \<Rightarrow> modAnalyzer \<times> bool \<times> real \<times> string option" where
  "AnalyzeModeration W E input cfg a =
     (case AnalyzeWithModeration W E \<lparr>mn_Text = input, mn_ImageURL = []\<rparr> (cfg\<lparr>s_Model := ''omni-moderation-latest''\<rparr>) a of
        (a1, Inl e) \<Rightarrow> (a1, False, 0, Some e)
      | (a1, Inr r) \<Rightarrow> (a1, mr_Flagged r, mr_Confidence r, None))"

definition Analyze :: "'rx world \<Rightarrow> modEnv \<Rightarrow> string \<Rightarrow> semantic \<Rightarrow> modAnalyzer \<Rightarrow> modAnalyzer \<times> bool \<times> real \<times> string option" where
  "Analyze W E input cfg a = AnalyzeModeration W E input cfg a"

text \<open>The stand-in; its delay ends with the context's error if the context ends first.\<close>

definition FakeAnalyze :: "'rx golib \<Rightarrow> int \<Rightarrow> string option \<Rightarrow> string \<Rightarrow> bool \<times> real \<times> string option" where
  "FakeAnalyze G delay ctxDone input =
     (if 0 < delay \<and> ctxDone \<noteq> None then (False, 0, ctxDone)
      else if strContains (strToLower G input) ''[fake_match]'' then (True, 1, None)
      else (False, 1, None))"

section \<open>Verdicts\<close>

lemma fold_raise: "fst (fold raiseScore xs b) = Max (insert (fst b) (snd ` set xs))"
proof (induction xs arbitrary: b)
  case (Cons x xs)
  have "fst (raiseScore x b) = max (snd x) (fst b)" by (simp add: raiseScore_def)
  then have "fst (fold raiseScore (x # xs) b) = Max (insert (max (snd x) (fst b)) (snd ` set xs))" using Cons.IH by simp
  also have "\<dots> = Max (insert (fst b) (snd ` set (x # xs)))"
    by (cases "set xs = {}") (simp_all add: max.assoc max.commute max.left_commute)
  finally show ?case .
qed simp

lemma highest_score:
  assumes "set visited = set cats" shows "fst (highest cats visited) = Max (insert 0 (snd ` set cats))"
proof (cases "startScore cats = (0, [])")
  case False
  then obtain sc where sc: "startScore cats = (sc, ''prompt_injection'')" "map_of cats ''illicit'' = Some sc" "1 / 2 < sc"
    by (auto simp: startScore_def split: option.splits if_splits)
  have "sc \<in> snd ` set cats" using map_of_SomeD [OF sc(2)] by force
  then have "insert sc (snd ` set cats) = snd ` set cats" and "sc \<le> Max (snd ` set cats)" by auto
  moreover have "Max (insert 0 (snd ` set cats)) = max 0 (Max (snd ` set cats))"
    using calculation(1) by (intro Max_insert) auto
  ultimately show ?thesis using sc assms by (simp add: highest_def fold_raise)
qed (simp add: highest_def fold_raise assms)

text \<open>
  C21. The moderation verdict: the confidence is the highest score among the categories the service
  set, or zero; the text is flagged exactly if the service flagged it or the confidence reaches the
  rule's threshold, 0.7 if it has none; the decision is to block exactly what is flagged, and only
  that has a reason. In particular the order in which Go visits the map of categories does not matter.
\<close>

theorem moderation_verdict:
  assumes "set (visit (categoriesOf m)) = set (categoriesOf m)"
  shows "mr_Confidence (judge visit cfg m) = Max (insert 0 {mo_Scores m c |c. mo_Categories m c})
    \<and> mr_Flagged (judge visit cfg m) = (mo_Flagged m \<or> thresholdOf cfg \<le> Max (insert 0 {mo_Scores m c |c. mo_Categories m c}))
    \<and> (mr_Decision (judge visit cfg m) = ''block'') = mr_Flagged (judge visit cfg m)
    \<and> (mr_Reason (judge visit cfg m) \<noteq> []) = mr_Flagged (judge visit cfg m)"
proof -
  have "set askedCategories = UNIV"
  proof -
    have "c \<in> set askedCategories" for c by (cases c) (simp_all add: askedCategories_def)
    then show ?thesis by blast
  qed
  then have "snd ` set (categoriesOf m) = {mo_Scores m c |c. mo_Categories m c}" by (auto simp: categoriesOf_def image_image)
  then have "fst (highest (categoriesOf m) (visit (categoriesOf m))) = Max (insert 0 {mo_Scores m c |c. mo_Categories m c})"
    using highest_score [OF assms] by simp
  moreover have "reasonFor c \<noteq> []" for c by (simp add: reasonFor_def)
  ultimately show ?thesis by (cases "highest (categoriesOf m) (visit (categoriesOf m))") (simp add: judge_def getDecision_def Let_def)
qed

section \<open>What the cache shares\<close>

text \<open>What the analyzer relies on of the LRU cache: an entry just added is found.\<close>

definition findsAdded :: "'rx world \<Rightarrow> bool" where
  "findsAdded W \<longleftrightarrow> (\<forall>c k e. snd (scGet W (scAdd W c k e) k) = Some e)"

lemma putCache_get:
  assumes "findsAdded W" "ma_cache a \<noteq> None" "t' < t + ma_ttl a"
  shows "snd (getCache W t' key (putCache W t key v c a)) = Some (v, c)"
proof -
  obtain y where y: "ma_cache a = Some y" using assms(2) by blast
  let ?e = "\<lparr>e_ok = v, e_conf = c, e_expiresAt = t + ma_ttl a\<rparr>"
  obtain c1 where "scGet W (scAdd W y key ?e) key = (c1, Some ?e)" using assms(1) unfolding findsAdded_def by (metis prod.collapse)
  then show ?thesis using assms(3) y by (simp add: getCache_def putCache_def)
qed

lemma getCache_keeps:
  "ma_ttl (fst (getCache W t key a)) = ma_ttl a" "ma_cache (fst (getCache W t key a)) = None \<longleftrightarrow> ma_cache a = None"
  by (auto simp: getCache_def split: option.splits prod.splits)

text \<open>A call that asked the service leaves its verdict under the key.\<close>

lemma analyzed_cached:
  assumes "AnalyzeWithModeration W E i cfg a = (a', Inr r)" "snd (getCache W (me_lookup E) (modCacheKey (lib W) i) a) = None"
    and "findsAdded W" "ma_cache a \<noteq> None" "t < me_store E + ma_ttl a"
  shows "snd (getCache W t (modCacheKey (lib W) i) a') = Some (mr_Flagged r, mr_Confidence r)"
proof -
  obtain a1 where g: "getCache W (me_lookup E) (modCacheKey (lib W) i) a = (a1, None)" using assms(2) by (metis prod.collapse)
  have a1: "ma_ttl a1 = ma_ttl a" "ma_cache a1 \<noteq> None" using getCache_keeps [of W "me_lookup E" "modCacheKey (lib W) i" a] g assms(4) by auto
  have "a' = putCache W (me_store E) (modCacheKey (lib W) i) (mr_Flagged r) (mr_Confidence r) a1"
    using assms(1) g by (auto simp: AnalyzeWithModeration_def Let_def split: option.splits sum.splits list.splits)
  then show ?thesis using putCache_get [OF assms(3) a1(2)] assms(5) a1(1) by simp
qed

text \<open>
  A verdict is shared by every text with the same key and by every rule: after the service was
  asked about one text, each text whose first 500 normalised bytes are the same gets that verdict
  until it expires, whatever its rest says and whatever the threshold of the rule that asks; the
  service is not asked again.
\<close>

theorem moderation_verdict_shared:
  assumes "AnalyzeWithModeration W E i cfg a = (a', Inr r)" "snd (getCache W (me_lookup E) (modCacheKey (lib W) i) a) = None"
    and "findsAdded W" "ma_cache a \<noteq> None" "me_lookup E' < me_store E + ma_ttl a"
    and "normalizeForCache (lib W) (mn_Text j) = normalizeForCache (lib W) (mn_Text i)" "mn_ImageURL j = mn_ImageURL i"
  shows "\<exists>r'. snd (AnalyzeWithModeration W E' j cfg' a') = Inr r' \<and> mr_Flagged r' = mr_Flagged r \<and> mr_Confidence r' = mr_Confidence r"
proof -
  have "modCacheKey (lib W) j = modCacheKey (lib W) i" using assms(6,7) by (simp add: modCacheKey_def)
  then show ?thesis
    using analyzed_cached [OF assms(1-5)]
    by (cases "getCache W (me_lookup E') (modCacheKey (lib W) i) a'") (auto simp: AnalyzeWithModeration_def Let_def)
qed

text \<open>Texts that agree in 500 bytes without blanks share their key, whatever follows.\<close>

lemma runeSegs_ascii_append: "isAscii p \<Longrightarrow> runeSegs (p @ x) = map (\<lambda>c. (byte c, [c])) p @ runeSegs x"
  by (induction p) (auto simp: runeSegs_ascii_Cons)

lemma trimmed_prefix:
  assumes "isAscii p" "list_all (\<lambda>c. \<not> isSpaceRune (byte c)) p" "p \<noteq> []"
  shows "\<exists>y. strTrimSpace (p @ x) = p @ y"
proof -
  let ?sp = "\<lambda>(r, b). isSpaceRune r" and ?P = "map (\<lambda>c. (byte c, [c])) p"
  have n: "\<not> ?sp s" if "s \<in> set ?P" for s using that assms(2) by (auto simp: list_all_iff)
  then have d: "dropWhile ?sp (?P @ runeSegs x) = ?P @ runeSegs x" using assms(3) by (cases p) auto
  have "dropWhile ?sp (rev ?P) = rev ?P"
  proof (cases "rev ?P")
    case (Cons s ss)
    then have "s \<in> set ?P" by (metis list.set_intros(1) set_rev)
    with n [OF this] Cons show ?thesis by simp
  qed simp
  then have "\<exists>Y. dropWhile ?sp (rev (?P @ runeSegs x)) = Y @ rev ?P"
    by (cases "\<forall>s \<in> set (rev (runeSegs x)). ?sp s") (auto simp: dropWhile_append)
  then obtain Y where "dropWhile ?sp (rev (?P @ runeSegs x)) = Y @ rev ?P" by blast
  then have "strTrimSpace (p @ x) = concat (map snd (?P @ rev Y))"
    by (simp only: strTrimSpace_def Let_def runeSegs_ascii_append [OF assms(1)] d) simp
  moreover have "concat (map snd ?P) = p" by (induction p) simp_all
  ultimately show ?thesis by simp
qed

lemma squeeze_prefix: "list_all (\<lambda>c. \<not> spaceByte c) p \<Longrightarrow> \<exists>z. squeeze b (p @ y) = p @ z"
  by (induction p arbitrary: b) auto

lemma spaceByte_space: "spaceByte c \<Longrightarrow> isSpaceRune (byte c)"
  by (auto simp: spaceByte_def isSpaceRune_def)

lemma normalize_long:
  assumes "isAscii p" "list_all (\<lambda>c. \<not> isSpaceRune (byte c)) p" "length p = 500"
  shows "normalizeForCache G (p @ x) = strToLower G p"
proof -
  have "p \<noteq> []" using assms(3) by auto
  then obtain y where y: "strTrimSpace (p @ x) = p @ y" using trimmed_prefix assms by blast
  have "list_all (\<lambda>c. \<not> spaceByte c) p" using assms(2) spaceByte_space by (auto simp: list_all_iff)
  then obtain z where "squeeze False (p @ y) = p @ z" using squeeze_prefix by blast
  then show ?thesis using y assms(3) by (simp add: normalizeForCache_def Let_def)
qed

section \<open>Concrete calls\<close>

text \<open>A cache that never evicts, a rule with and one without a threshold, and an answer with score 0.6.\<close>

definition keepAll :: "string world" where
  "keepAll = \<lparr>lib = litLib, rcGet = (\<lambda>c k. (c, map_of c k)), rcAdd = (\<lambda>c k v. (k, v) # c), scNew = (\<lambda>n. Some []),
     scGet = (\<lambda>c k. (c, map_of c k)), scAdd = (\<lambda>c k v. (k, v) # c), scRemove = (\<lambda>c k. filter (\<lambda>p. fst p \<noteq> k) c), now = (\<lambda>k. 0)\<rparr>"

definition sem :: "real \<Rightarrow> semantic" where
  "sem th = \<lparr>s_Model = ''m'', s_Temperature = 0, s_MaxTokens = 0, s_AnalysisPrompt = [], s_ConfidenceThreshold = th, s_FallbackOnError = False\<rparr>"

definition violent :: moderation where
  "violent = \<lparr>mo_Flagged = False, mo_Categories = (\<lambda>c. c = Violence), mo_Scores = (\<lambda>c. 3 / 5)\<rparr>"

definition modCall :: "int \<Rightarrow> modEnv" where
  "modCall t = \<lparr>me_lookup = t, me_store = t, me_limiter = None, me_ctxDone = None, me_response = Inr [violent], me_visit = rev\<rparr>"

definition newAnalyzer :: modAnalyzer where
  "newAnalyzer = \<lparr>ma_cache = Some [], ma_ttl = 900\<rparr>"

definition askedA :: moderationInput where
  "askedA = \<lparr>mn_Text = ''a'', mn_ImageURL = []\<rparr>"

theorem moderation_verdict_witness:
  "mr_Confidence (judge rev (sem 0) violent) = Max (insert 0 {mo_Scores violent c |c. mo_Categories violent c})"
  using moderation_verdict [of rev violent "sem 0"] by simp

lemma judge_violent: "mr_Flagged (judge rev (sem 0) violent) = False" "mr_Confidence (judge rev (sem 0) violent) = 3 / 5"
  by (simp_all add: judge_def highest_def startScore_def raiseScore_def categoriesOf_def askedCategories_def violent_def thresholdOf_def
      sem_def)

lemma first_call:
  "AnalyzeWithModeration keepAll (modCall 5) askedA (sem 0) newAnalyzer
     = (putCache keepAll 5 (modCacheKey litLib askedA) False (3 / 5) newAnalyzer, Inr (judge rev (sem 0) violent))"
  "snd (getCache keepAll 5 (modCacheKey litLib askedA) newAnalyzer) = None"
  by (simp_all add: AnalyzeWithModeration_def getCache_def newAnalyzer_def keepAll_def modCall_def Let_def judge_violent)

text \<open>The score 0.6 passes under the default threshold, and then also for a rule whose threshold is 0.5.\<close>

theorem moderation_verdict_shared_witness:
  "\<exists>r'. snd (AnalyzeWithModeration keepAll (modCall 6) askedA (sem (1 / 2))
       (putCache keepAll 5 (modCacheKey litLib askedA) False (3 / 5) newAnalyzer)) = Inr r' \<and> mr_Flagged r' = False \<and> mr_Confidence r' = 3 / 5"
  using moderation_verdict_shared [OF first_call(1), of "modCall 6" askedA "sem (1 / 2)"] first_call(2)
  by (simp add: judge_violent findsAdded_def modCall_def newAnalyzer_def) (simp add: keepAll_def)

end
