(* ===== verification/Usage.thy ===== *)
theory Usage
  imports Go_Prelude "HOL-Library.Multiset"
begin

text \<open>
  Usage accounting and quotas: \<^verbatim>\<open>internal/usage\<close> (the interface, the Redis store, the text of the
  SQLite statements, and the per-tenant rate limits) and the in-memory stores of
  \<^verbatim>\<open>internal/interfaces/http/api\<close> (\<^verbatim>\<open>usage_store.go\<close>, \<^verbatim>\<open>quota_store.go\<close>,
  \<^verbatim>\<open>usage_helpers.go\<close>). Times are nanoseconds since 1970 in UTC, counters unbounded integers (Redis and Go keep
  them in 64 bits). The token bucket (\<^verbatim>\<open>golang.org/x/time/rate\<close>), the keys a Redis scan yields and the order in which Go visits
  a map are arguments.
\<close>

section \<open>Quotas\<close>

text \<open>The operations of a limiter; a limit of \<open>None\<close> is \<^verbatim>\<open>rate.Inf\<close>.\<close>

record 'l limiterLib =
  lm_New :: "real option \<Rightarrow> int \<Rightarrow> 'l"
  lm_AllowN :: "int \<Rightarrow> int \<Rightarrow> 'l \<Rightarrow> 'l \<times> bool"

record 'l quota =
  qt_rps :: "real option"
  qt_burst :: int
  qt_m :: "string \<rightharpoonup> 'l"

definition NewInMemoryQuota :: "real \<Rightarrow> int \<Rightarrow> 'l quota" where
  "NewInMemoryQuota defaultRPS defaultBurst =
     \<lparr>qt_rps = Some defaultRPS, qt_burst = (if defaultBurst \<le> 0 then 1 else defaultBurst), qt_m = Map.empty\<rparr>"

definition getLimiter :: "'l limiterLib \<Rightarrow> int \<Rightarrow> string \<Rightarrow> 'l quota \<Rightarrow> 'l quota \<times> 'l" where
  "getLimiter L t tenant q =
     (case qt_m q tenant of
        Some l \<Rightarrow> (q, l)
      | None \<Rightarrow>
          let q1 = q\<lparr>qt_rps := (case qt_rps q of Some r \<Rightarrow> if r \<le> 0 then None else Some r | None \<Rightarrow> None)\<rparr>;
              l = fst (lm_AllowN L t (qt_burst q1) (lm_New L (qt_rps q1) (qt_burst q1)))
          in (q1\<lparr>qt_m := (qt_m q1)(tenant \<mapsto> l)\<rparr>, l))"

definition AllowTenant :: "'l limiterLib \<Rightarrow> int \<Rightarrow> int \<Rightarrow> string \<Rightarrow> 'l quota \<Rightarrow> 'l quota \<times> bool" where
  "AllowTenant L t0 t tenant q =
     (case getLimiter L t0 tenant q of
        (q1, l) \<Rightarrow> (case lm_AllowN L t 1 l of (l1, ok) \<Rightarrow> (q1\<lparr>qt_m := (qt_m q1)(tenant \<mapsto> l1)\<rparr>, ok)))"

definition SetQuota :: "'l limiterLib \<Rightarrow> string \<Rightarrow> real option \<Rightarrow> int \<Rightarrow> 'l quota \<Rightarrow> 'l quota" where
  "SetQuota L tenant r burst q = q\<lparr>qt_m := (qt_m q)(tenant \<mapsto> lm_New L r (if burst \<le> 0 then 1 else burst))\<rparr>"

text \<open>The development store: a tenant without a limit is allowed.\<close>

definition DevAllow :: "'l limiterLib \<Rightarrow> int \<Rightarrow> string \<Rightarrow> (string \<rightharpoonup> 'l) \<Rightarrow> (string \<rightharpoonup> 'l) \<times> bool" where
  "DevAllow L t tenant m =
     (case m tenant of None \<Rightarrow> (m, True) | Some l \<Rightarrow> (case lm_AllowN L t 1 l of (l1, ok) \<Rightarrow> (m(tenant \<mapsto> l1), ok)))"

definition DevSet :: "'l limiterLib \<Rightarrow> string \<Rightarrow> real option \<Rightarrow> int \<Rightarrow> (string \<rightharpoonup> 'l) \<Rightarrow> (string \<rightharpoonup> 'l)" where
  "DevSet L tenant r burst m = m(tenant \<mapsto> lm_New L r burst)"

definition DevDelete :: "string \<Rightarrow> (string \<rightharpoonup> 'l) \<Rightarrow> (string \<rightharpoonup> 'l)" where
  "DevDelete tenant m = m(tenant := None)"

text \<open>The middleware: \<open>Some\<close> names the tenant that gets a 429.\<close>

definition tenantQuota :: "'l limiterLib \<Rightarrow> int \<Rightarrow> int \<Rightarrow> string \<Rightarrow> 'l quota option \<Rightarrow> 'l quota option \<times> string option" where
  "tenantQuota L t0 t tenant store =
     (case store of
        None \<Rightarrow> (None, None)
      | Some q \<Rightarrow>
          let tenant = (if tenant = [] then ''_default'' else tenant)
          in case AllowTenant L t0 t tenant q of (q1, ok) \<Rightarrow> (Some q1, if ok then None else Some tenant))"

definition CheckQuota :: "'l limiterLib \<Rightarrow> int \<Rightarrow> int \<Rightarrow> string \<Rightarrow> 'l quota option \<Rightarrow> 'l quota option \<times> bool" where
  "CheckQuota L t0 t tenant store =
     (case store of None \<Rightarrow> (None, True) | Some q \<Rightarrow> (case AllowTenant L t0 t tenant q of (q1, ok) \<Rightarrow> (Some q1, ok)))"

definition SetTenantQuota :: "'l limiterLib \<Rightarrow> string \<Rightarrow> real \<Rightarrow> int \<Rightarrow> 'l quota option \<Rightarrow> 'l quota option" where
  "SetTenantQuota L tenant requestsPerMinute burst store = map_option (SetQuota L tenant (Some requestsPerMinute) burst) store"

section \<open>Usage: data\<close>

datatype interval = IntervalMinute | IntervalHour | IntervalDay | IntervalOther

datatype groupBy = GroupByTenant | GroupByRoute | GroupByDecision

record usageQuery =
  uq_Tenant :: string
  uq_Start :: int
  uq_End :: int
  uq_Interval :: interval
  uq_GroupBy :: "groupBy list"

record usageRow =
  rw_Tenant :: string
  rw_Route :: string
  rw_Decision :: string
  rw_Provider :: string
  rw_Model :: string
  rw_IntervalStart :: int
  rw_Count :: int
  rw_Bytes :: int
  rw_PromptTokens :: int
  rw_CompletionTokens :: int
  rw_TotalTokens :: int

record usageRecord =
  ur_Tenant :: string
  ur_Route :: string
  ur_Decision :: string
  ur_Bytes :: int
  ur_PromptTokens :: int
  ur_CompletionTokens :: int
  ur_TotalTokens :: int
  ur_Provider :: string
  ur_Model :: string
  ur_Timestamp :: int

record usageResult =
  us_WindowStart :: int
  us_WindowEnd :: int
  us_Rows :: "usageRow list"

definition emptyRow :: usageRow where
  "emptyRow = \<lparr>rw_Tenant = [], rw_Route = [], rw_Decision = [], rw_Provider = [], rw_Model = [], rw_IntervalStart = 0, rw_Count = 0,
     rw_Bytes = 0, rw_PromptTokens = 0, rw_CompletionTokens = 0, rw_TotalTokens = 0\<rparr>"

section \<open>Usage: in memory\<close>

definition truncTo :: "int \<Rightarrow> int \<Rightarrow> int" where
  "truncTo d t = t - t mod d"

abbreviation minuteNs :: int where
  "minuteNs \<equiv> 60000000000"

definition RecordMem :: "string \<Rightarrow> string \<Rightarrow> string \<Rightarrow> int \<Rightarrow> int \<Rightarrow> usageRow list \<Rightarrow> usageRow list" where
  "RecordMem tenant route decision bytes t rows =
     rows @ [emptyRow\<lparr>rw_Tenant := tenant, rw_Route := route, rw_Decision := decision, rw_IntervalStart := t, rw_Count := 1,
       rw_Bytes := bytes\<rparr>]"

definition RecordTokensMem :: "usageRecord \<Rightarrow> usageRow list \<Rightarrow> usageRow list" where
  "RecordTokensMem r rows =
     rows @ [\<lparr>rw_Tenant = ur_Tenant r, rw_Route = ur_Route r, rw_Decision = ur_Decision r, rw_Provider = ur_Provider r,
       rw_Model = ur_Model r, rw_IntervalStart = ur_Timestamp r, rw_Count = 1, rw_Bytes = ur_Bytes r,
       rw_PromptTokens = ur_PromptTokens r, rw_CompletionTokens = ur_CompletionTokens r, rw_TotalTokens = ur_TotalTokens r\<rparr>]"

definition windowStart :: "interval \<Rightarrow> int \<Rightarrow> int" where
  "windowStart iv t =
     (case iv of
        IntervalMinute \<Rightarrow> truncTo minuteNs t
      | IntervalHour \<Rightarrow> truncTo (60 * minuteNs) t
      | IntervalDay \<Rightarrow> truncTo (1440 * minuteNs) t
      | IntervalOther \<Rightarrow> truncTo (60 * minuteNs) t)"

text \<open>The key of a group: the formatted window, here the window itself, and the text after it.\<close>

definition groupPart :: "usageRow \<Rightarrow> groupBy \<Rightarrow> string" where
  "groupPart row g =
     (case g of
        GroupByTenant \<Rightarrow> ''|tenant:'' @ rw_Tenant row
      | GroupByRoute \<Rightarrow> ''|route:'' @ rw_Route row
      | GroupByDecision \<Rightarrow> ''|decision:'' @ rw_Decision row)"

definition groupKey :: "usageQuery \<Rightarrow> usageRow \<Rightarrow> int \<times> string" where
  "groupKey q row = (windowStart (uq_Interval q) (rw_IntervalStart row), concat (map (groupPart row) (uq_GroupBy q)))"

definition mergeRow :: "usageRow \<Rightarrow> usageRow \<Rightarrow> usageRow" where
  "mergeRow row e =
     e\<lparr>rw_Count := rw_Count e + rw_Count row, rw_Bytes := rw_Bytes e + rw_Bytes row,
       rw_PromptTokens := rw_PromptTokens e + rw_PromptTokens row,
       rw_CompletionTokens := rw_CompletionTokens e + rw_CompletionTokens row,
       rw_TotalTokens := rw_TotalTokens e + rw_TotalTokens row\<rparr>"

fun addGroup :: "'k \<Rightarrow> ('v \<Rightarrow> 'v) \<Rightarrow> 'v \<Rightarrow> ('k \<times> 'v) list \<Rightarrow> ('k \<times> 'v) list" where
  "addGroup k f v [] = [(k, v)]"
| "addGroup k f v ((k', e) # gs) = (if k' = k then (k', f e) # gs else (k', e) # addGroup k f v gs)"

definition aggregateRows :: "(usageRow list \<Rightarrow> usageRow list) \<Rightarrow> usageQuery \<Rightarrow> usageRow list \<Rightarrow> usageRow list" where
  "aggregateRows visit q rows =
     visit (map snd (fold (\<lambda>row. addGroup (groupKey q row) (mergeRow row)
       (row\<lparr>rw_IntervalStart := windowStart (uq_Interval q) (rw_IntervalStart row)\<rparr>)) rows []))"

definition QueryMem :: "(usageRow list \<Rightarrow> usageRow list) \<Rightarrow> usageQuery \<Rightarrow> usageRow list \<Rightarrow> usageResult" where
  "QueryMem visit q rows =
     \<lparr>us_WindowStart = uq_Start q, us_WindowEnd = uq_End q,
      us_Rows = aggregateRows visit q
        (filter (\<lambda>row. \<not> (rw_IntervalStart row < uq_Start q \<or> uq_End q < rw_IntervalStart row)
                       \<and> \<not> (uq_Tenant q \<noteq> [] \<and> rw_Tenant row \<noteq> uq_Tenant q)) rows)\<rparr>"

section \<open>Usage: Redis\<close>

text \<open>
  A hash has fields and, once \<^verbatim>\<open>EXPIRE\<close> was sent for it, the time of the server at which it goes.
  \<open>clk\<close> is the time of the server when a command runs.
\<close>

type_synonym fieldMaps = "string \<rightharpoonup> (string \<rightharpoonup> int)"

record redisHash =
  rh_fields :: "string \<rightharpoonup> int"
  rh_expires :: "int option"

type_synonym hashes = "string \<rightharpoonup> redisHash"

definition goneAt :: "int \<Rightarrow> redisHash \<Rightarrow> bool" where
  "goneAt clk h \<longleftrightarrow> (case rh_expires h of None \<Rightarrow> False | Some x \<Rightarrow> x \<le> clk)"

definition fieldsAt :: "int \<Rightarrow> hashes \<Rightarrow> fieldMaps" where
  "fieldsAt clk H key = (case H key of None \<Rightarrow> None | Some h \<Rightarrow> if goneAt clk h then None else Some (rh_fields h))"

definition NewRedisUsageStore :: "string \<Rightarrow> int \<Rightarrow> string \<times> int" where
  "NewRedisUsageStore prefix ttl =
     (if prefix = [] then ''ps'' else prefix, if ttl \<le> 0 then 35 * 24 * 3600 * 1000000000 else ttl)"

definition orDefaultName :: "string \<Rightarrow> string" where
  "orDefaultName s = (if s = [] then ''default'' else s)"

definition usageKey :: "string \<Rightarrow> int \<Rightarrow> string \<Rightarrow> string \<Rightarrow> string" where
  "usageKey prefix ts tenant route =
     prefix @ '':usage:'' @ itoa ts @ '':'' @ strReplaceAll '':'' ''|'' (orDefaultName tenant) @ '':''
       @ strReplaceAll '':'' ''|'' (orDefaultName route)"

definition unixMinute :: "int \<Rightarrow> int" where
  "unixMinute t = truncTo minuteNs t div 1000000000"

definition decisionCol :: "string \<Rightarrow> string" where
  "decisionCol d = (if d = ''quarantine'' then ''quarantine'' else if d = ''deny'' then ''deny'' else ''allow'')"

text \<open>\<^verbatim>\<open>HINCRBY\<close> creates the hash and the field as needed.\<close>

definition fieldOf :: "(string \<rightharpoonup> int) option \<Rightarrow> string \<Rightarrow> int" where
  "fieldOf h f = (case h of None \<Rightarrow> 0 | Some m \<Rightarrow> (case m f of None \<Rightarrow> 0 | Some n \<Rightarrow> n))"

definition hincr :: "int \<Rightarrow> string \<Rightarrow> string \<Rightarrow> int \<Rightarrow> hashes \<Rightarrow> hashes" where
  "hincr clk key f n H =
     (let h = (case H key of
                 None \<Rightarrow> \<lparr>rh_fields = Map.empty, rh_expires = None\<rparr>
               | Some h \<Rightarrow> if goneAt clk h then \<lparr>rh_fields = Map.empty, rh_expires = None\<rparr> else h)
      in H(key \<mapsto> h\<lparr>rh_fields := (rh_fields h)(f \<mapsto> fieldOf (Some (rh_fields h)) f + n)\<rparr>))"

definition expire :: "int \<Rightarrow> int \<Rightarrow> string \<Rightarrow> hashes \<Rightarrow> hashes" where
  "expire clk ttl key H = (case H key of None \<Rightarrow> H | Some h \<Rightarrow> H(key \<mapsto> h\<lparr>rh_expires := Some (clk + ttl)\<rparr>))"

text \<open>The transaction runs as a whole, at one time, or fails.\<close>

definition RecordRedis :: "string \<Rightarrow> int \<Rightarrow> string option \<Rightarrow> int \<Rightarrow> string \<Rightarrow> string \<Rightarrow> string \<Rightarrow> int \<Rightarrow> int \<Rightarrow> hashes
    \<Rightarrow> hashes \<times> string option" where
  "RecordRedis prefix ttl err clk tenant route decision bytes t H =
     (let key = usageKey prefix (unixMinute t) tenant route
      in case err of
           Some e \<Rightarrow> (H, Some e)
         | None \<Rightarrow> (expire clk ttl key (hincr clk key ''bytes'' bytes (hincr clk key (decisionCol decision) 1 H)), None))"

definition hincrPos :: "int \<Rightarrow> string \<Rightarrow> string \<Rightarrow> int \<Rightarrow> hashes \<Rightarrow> hashes" where
  "hincrPos clk key f n H = (if 0 < n then hincr clk key f n H else H)"

definition RecordTokensRedis :: "string \<Rightarrow> int \<Rightarrow> string option \<Rightarrow> int \<Rightarrow> usageRecord \<Rightarrow> hashes \<Rightarrow> hashes \<times> string option" where
  "RecordTokensRedis prefix ttl err clk r H =
     (let key = prefix @ '':tokens:'' @ itoa (unixMinute (ur_Timestamp r)) @ '':'' @ ur_Tenant r @ '':'' @ ur_Route r @ '':''
                  @ ur_Provider r @ '':'' @ ur_Model r
      in case err of
           Some e \<Rightarrow> (H, Some e)
         | None \<Rightarrow>
             (expire clk ttl key
               (hincrPos clk key ''total_tokens'' (ur_TotalTokens r)
                 (hincrPos clk key ''completion_tokens'' (ur_CompletionTokens r)
                   (hincrPos clk key ''prompt_tokens'' (ur_PromptTokens r)
                     (hincr clk key ''bytes'' (ur_Bytes r) (hincr clk key (decisionCol (ur_Decision r)) 1 H))))), None))"

record keyAgg =
  ka_bucket :: int
  ka_tenant :: string
  ka_route :: string

record usageSums =
  sm_count :: int
  sm_bytes :: int
  sm_prompt :: int
  sm_completion :: int
  sm_total :: int

definition bucketSize :: "interval \<Rightarrow> int" where
  "bucketSize iv = (case iv of IntervalHour \<Rightarrow> 3600 | IntervalDay \<Rightarrow> 86400 | _ \<Rightarrow> 60)"

definition quotGo :: "int \<Rightarrow> int \<Rightarrow> int" where
  "quotGo a b = (if 0 \<le> a then a div b else - ((- a) div b))"

definition addSums :: "usageSums \<Rightarrow> usageSums \<Rightarrow> usageSums" where
  "addSums x y = \<lparr>sm_count = sm_count x + sm_count y, sm_bytes = sm_bytes x + sm_bytes y, sm_prompt = sm_prompt x + sm_prompt y,
     sm_completion = sm_completion x + sm_completion y, sm_total = sm_total x + sm_total y\<rparr>"

definition hmget :: "(string \<rightharpoonup> int) option \<Rightarrow> usageSums" where
  "hmget h = \<lparr>sm_count = fieldOf h ''allow'' + fieldOf h ''quarantine'' + fieldOf h ''deny'', sm_bytes = fieldOf h ''bytes'',
     sm_prompt = fieldOf h ''prompt_tokens'', sm_completion = fieldOf h ''completion_tokens'', sm_total = fieldOf h ''total_tokens''\<rparr>"

text \<open>The contribution of one key, \<open>None\<close> if it is skipped.\<close>

definition keyShare :: "usageQuery \<Rightarrow> fieldMaps \<Rightarrow> int \<Rightarrow> string \<Rightarrow> (keyAgg \<times> usageSums) option" where
  "keyShare q H ts key =
     (let parts = strSplit (CHR '':'') key;
          kTenant = strReplaceAll ''|'' '':'' (parts ! (length parts - 2));
          kRoute = strReplaceAll ''|'' '':'' (parts ! (length parts - 1))
      in if length parts < 5 then None
         else if uq_Tenant q \<noteq> [] \<and> uq_Tenant q \<noteq> kTenant then None
         else Some (\<lparr>ka_bucket = quotGo ts (bucketSize (uq_Interval q)) * bucketSize (uq_Interval q),
                     ka_tenant = (if GroupByTenant \<in> set (uq_GroupBy q) then kTenant else []),
                     ka_route = (if GroupByRoute \<in> set (uq_GroupBy q) then kRoute else [])\<rparr>, hmget (H key)))"

text \<open>The loop \<^verbatim>\<open>for ts := start; ts < end; ts += 60\<close>.\<close>

definition minutes :: "int \<Rightarrow> int \<Rightarrow> int list" where
  "minutes start stop = map (\<lambda>i. start + 60 * int i) [0..<nat ((stop - start + 59) div 60)]"

text \<open>
  \<open>scan p\<close> is what the \<^verbatim>\<open>SCAN\<close> commands for the keys that begin with \<open>p\<close> yield in all, or the error of a scan or of
  reading the fields.
\<close>

fun collectShares :: "(string \<Rightarrow> string + string list) \<Rightarrow> string \<Rightarrow> usageQuery \<Rightarrow> fieldMaps \<Rightarrow> int list \<Rightarrow> (keyAgg \<times> usageSums) list
    \<Rightarrow> string + (keyAgg \<times> usageSums) list" where
  "collectShares scan prefix q H [] acc = Inr acc"
| "collectShares scan prefix q H (ts # tss) acc =
     (case scan (prefix @ '':usage:'' @ itoa ts @ '':'') of
        Inl e \<Rightarrow> Inl e
      | Inr keys \<Rightarrow>
          collectShares scan prefix q H tss
            (fold (\<lambda>(k, v). addGroup k (\<lambda>e. addSums e v) v) (List.map_filter (keyShare q H ts) keys) acc))"

definition rowOf :: "usageQuery \<Rightarrow> keyAgg \<times> usageSums \<Rightarrow> usageRow" where
  "rowOf q kv =
     emptyRow\<lparr>rw_IntervalStart := ka_bucket (fst kv) * 1000000000, rw_Count := sm_count (snd kv), rw_Bytes := sm_bytes (snd kv),
       rw_PromptTokens := sm_prompt (snd kv), rw_CompletionTokens := sm_completion (snd kv), rw_TotalTokens := sm_total (snd kv),
       rw_Tenant := ka_tenant (fst kv), rw_Route := ka_route (fst kv)\<rparr>"

definition QueryRedis :: "(string \<Rightarrow> string + string list) \<Rightarrow> ((keyAgg \<times> usageSums) list \<Rightarrow> (keyAgg \<times> usageSums) list) \<Rightarrow> string \<Rightarrow> usageQuery
    \<Rightarrow> int \<Rightarrow> hashes \<Rightarrow> string + usageResult" where
  "QueryRedis scan visit prefix q clk H =
     (if uq_End q < uq_Start q then Inl ''invalid window''
      else case collectShares scan prefix q (fieldsAt clk H) (minutes (unixMinute (uq_Start q)) (unixMinute (uq_End q))) [] of
             Inl e \<Rightarrow> Inl e
           | Inr acc \<Rightarrow>
               Inr \<lparr>us_WindowStart = truncTo minuteNs (uq_Start q), us_WindowEnd = truncTo minuteNs (uq_End q),
                    us_Rows = sort_key rw_IntervalStart (map (rowOf q) (visit acc))\<rparr>)"

section \<open>Usage: SQLite statements\<close>

text \<open>The text and the arguments the store hands to SQLite.\<close>

abbreviation nl :: string where
  "nl \<equiv> [CHR 0x0A]"

definition recordSQL :: "string \<Rightarrow> string" where
  "recordSQL col =
     '' //nolint:gosec // Column names are from closed set (allow/quarantine/deny), not user input'' @ nl
     @ ''INSERT INTO usage_minute(tenant, route, ts_minute, '' @ col @ '', bytes)'' @ nl
     @ ''VALUES(?,?,?,?,?)'' @ nl
     @ ''ON CONFLICT(tenant, route, ts_minute)'' @ nl
     @ ''DO UPDATE SET '' @ col @ '' = '' @ col @ '' + excluded.'' @ col @ '', bytes = usage_minute.bytes + excluded.bytes'' @ nl"

definition recordArgs :: "string \<Rightarrow> string \<Rightarrow> int \<Rightarrow> int \<Rightarrow> string \<times> string \<times> int \<times> int \<times> int" where
  "recordArgs tenant route bytes t = (orDefaultName tenant, orDefaultName route, unixMinute t, 1, bytes)"

definition bucketExpr :: "interval \<Rightarrow> string" where
  "bucketExpr iv =
     (case iv of IntervalHour \<Rightarrow> ''(ts_minute/3600)*3600'' | IntervalDay \<Rightarrow> ''(ts_minute/86400)*86400'' | _ \<Rightarrow> ''ts_minute'')"

fun groupCol :: "groupBy \<Rightarrow> string" where
  "groupCol GroupByTenant = ''tenant''"
| "groupCol GroupByRoute = ''route''"
| "groupCol GroupByDecision = []"

definition groupCols :: "usageQuery \<Rightarrow> string list" where
  "groupCols q = (bucketExpr (uq_Interval q) @ '' AS bucket_ts'') # map groupCol (uq_GroupBy q)"

definition selectPart :: "usageQuery \<Rightarrow> string" where
  "selectPart q =
     ''SELECT '' @ strJoin '','' (groupCols q) @ '',''  @ '' ''
     @ strJoin '','' [''SUM(allow) AS allow'', ''SUM(quarantine) AS quarantine'', ''SUM(deny) AS deny'', ''SUM(bytes) AS bytes'']
     @ '' FROM usage_minute WHERE ''
     @ strJoin '' AND '' ([''ts_minute >= ?'', ''ts_minute < ?''] @ (if uq_Tenant q \<noteq> [] then [''tenant = ?''] else []))"

definition querySQL :: "usageQuery \<Rightarrow> string + string" where
  "querySQL q =
     (if uq_End q < uq_Start q then Inl ''invalid window''
      else if GroupByDecision \<in> set (uq_GroupBy q) then Inl ''group by decision not supported with current schema''
      else Inr (selectPart q @ '' GROUP BY '' @ strJoin '','' (groupCols q) @ '' ORDER BY bucket_ts ASC''))"

text \<open>
  The comment for the linter is part of the statement, and the alias of the bucket is repeated in the
  \<^verbatim>\<open>GROUP BY\<close> clause; SQLite's grammar allows neither.
\<close>

lemma recordSQL_comment: "hasPrefix (recordSQL col) '' //nolint''"
  by (simp add: recordSQL_def hasPrefix_def)

lemma querySQL_alias:
  assumes "querySQL q = Inr s"
  shows "\<exists>b. s = selectPart q @ '' GROUP BY '' @ (bucketExpr (uq_Interval q) @ '' AS bucket_ts'') @ b"
proof -
  have "\<exists>y. strJoin '','' (x # xs) = x @ y" for x and xs :: "string list" by (cases xs) auto
  then obtain y where y: "strJoin '','' (groupCols q) = (bucketExpr (uq_Interval q) @ '' AS bucket_ts'') @ y" unfolding groupCols_def by blast
  have "s = selectPart q @ '' GROUP BY '' @ strJoin '','' (groupCols q) @ '' ORDER BY bucket_ts ASC''"
    using assms unfolding querySQL_def by (metis sum.distinct(1) sum.inject(2))
  then show ?thesis unfolding y append_assoc by blast
qed

section \<open>Groups\<close>

lemma addGroup_sum:
  fixes \<mu> :: "'v \<Rightarrow> int"
  assumes "\<And>e. \<mu> (f e) = \<mu> e + \<mu> v"
  shows "sum_list (map (\<lambda>g. \<mu> (snd g)) (addGroup k f v gs)) = sum_list (map (\<lambda>g. \<mu> (snd g)) gs) + \<mu> v"
  using assms by (induction k f v gs rule: addGroup.induct) auto

lemma groups_sum:
  fixes \<mu> :: "'v \<Rightarrow> int"
  assumes "\<And>x e. \<mu> (f x e) = \<mu> e + \<mu> (v x)"
  shows "sum_list (map (\<lambda>g. \<mu> (snd g)) (fold (\<lambda>x. addGroup (k x) (f x) (v x)) xs gs))
    = sum_list (map (\<lambda>g. \<mu> (snd g)) gs) + sum_list (map (\<lambda>x. \<mu> (v x)) xs)"
proof (induction xs arbitrary: gs)
  case (Cons x xs)
  have "sum_list (map (\<lambda>g. \<mu> (snd g)) (addGroup (k x) (f x) (v x) gs)) = sum_list (map (\<lambda>g. \<mu> (snd g)) gs) + \<mu> (v x)"
    by (rule addGroup_sum) (rule assms)
  then show ?case using Cons.IH [of "addGroup (k x) (f x) (v x) gs"] by simp
qed simp

lemma addGroup_keys: "map fst (addGroup k f v gs) = (if k \<in> set (map fst gs) then map fst gs else map fst gs @ [k])"
  by (induction k f v gs rule: addGroup.induct) auto

section \<open>In-memory usage\<close>

definition inQuery :: "usageQuery \<Rightarrow> usageRow \<Rightarrow> bool" where
  "inQuery q row \<longleftrightarrow> uq_Start q \<le> rw_IntervalStart row \<and> rw_IntervalStart row \<le> uq_End q \<and> (uq_Tenant q = [] \<or> rw_Tenant row = uq_Tenant q)"

lemma perm_sum:
  fixes \<mu> :: "'a \<Rightarrow> int" shows "mset xs = mset ys \<Longrightarrow> sum_list (map \<mu> xs) = sum_list (map \<mu> ys)"
  by (metis mset_map sum_mset_sum_list)

lemma aggregate_sum:
  fixes \<mu> :: "usageRow \<Rightarrow> int"
  assumes "\<And>xs. mset (visit xs) = mset xs" "\<And>x e. \<mu> (mergeRow x e) = \<mu> e + \<mu> x" "\<And>x t. \<mu> (x\<lparr>rw_IntervalStart := t\<rparr>) = \<mu> x"
  shows "sum_list (map \<mu> (aggregateRows visit q rows)) = sum_list (map \<mu> rows)"
proof -
  let ?gs = "fold (\<lambda>row. addGroup (groupKey q row) (mergeRow row)
       (row\<lparr>rw_IntervalStart := windowStart (uq_Interval q) (rw_IntervalStart row)\<rparr>)) rows []"
  have "sum_list (map \<mu> (visit (map snd ?gs))) = sum_list (map \<mu> (map snd ?gs))" by (rule perm_sum) (rule assms(1))
  also have "\<dots> = sum_list (map (\<lambda>g. \<mu> (snd g)) ?gs)" by (simp add: comp_def)
  also have "\<dots> = sum_list (map \<mu> rows)"
    using groups_sum [where \<mu> = \<mu> and f = mergeRow and k = "groupKey q" and gs = "[]" and xs = rows
        and v = "\<lambda>row. row\<lparr>rw_IntervalStart := windowStart (uq_Interval q) (rw_IntervalStart row)\<rparr>"] assms(2,3)
    by simp
  finally show ?thesis by (simp only: aggregateRows_def)
qed

text \<open>
  The in-memory usage store loses and invents nothing: however a query groups, the counts, bytes
  and tokens of its rows add up to those of the recorded events of the window and tenant it asks for.
\<close>

theorem usage_conserved:
  assumes "\<And>xs. mset (visit xs) = mset xs"
  shows "sum_list (map rw_Count (us_Rows (QueryMem visit q rows))) = sum_list (map rw_Count (filter (inQuery q) rows))
    \<and> sum_list (map rw_Bytes (us_Rows (QueryMem visit q rows))) = sum_list (map rw_Bytes (filter (inQuery q) rows))
    \<and> sum_list (map rw_TotalTokens (us_Rows (QueryMem visit q rows))) = sum_list (map rw_TotalTokens (filter (inQuery q) rows))"
proof -
  have "(\<lambda>row. \<not> (rw_IntervalStart row < uq_Start q \<or> uq_End q < rw_IntervalStart row) \<and> \<not> (uq_Tenant q \<noteq> [] \<and> rw_Tenant row \<noteq> uq_Tenant q))
      = inQuery q"
    by (auto simp: inQuery_def fun_eq_iff)
  then have rows: "us_Rows (QueryMem visit q rows) = aggregateRows visit q (filter (inQuery q) rows)" by (simp add: QueryMem_def)
  show ?thesis unfolding rows
    by (intro conjI aggregate_sum [OF assms]) (simp_all add: mergeRow_def)
qed

section \<open>Redis keys\<close>

lemma replace_char: "strReplaceAll [c] [d] s = map (\<lambda>x. if x = c then d else x) s"
  by (induction s) (simp_all add: hasPrefix_def)

lemma split_one: "d \<notin> set x \<Longrightarrow> strSplit d x = [x]"
  by (induction x) auto

lemma split_at: "strSplit d (x @ d # y) = strSplit d x @ strSplit d y"
proof (induction x)
  case (Cons c x)
  then show ?case by (cases "strSplit d x") (auto split: list.splits)
qed simp

lemma itoa_colon: "0 \<le> i \<Longrightarrow> CHR '':'' \<notin> set (itoa i)"
  using natToStr_decimal [of "nat i"] by (auto simp: itoa_def isDecimal_def list_all_iff byte_def)

text \<open>What the key of an event stands for.\<close>

record usageEvent =
  ev_tenant :: string
  ev_route :: string
  ev_decision :: string
  ev_bytes :: int
  ev_time :: int

definition keyOf :: "string \<Rightarrow> usageEvent \<Rightarrow> string" where
  "keyOf prefix e = usageKey prefix (unixMinute (ev_time e)) (ev_tenant e) (ev_route e)"

definition pipeName :: "string \<Rightarrow> string" where
  "pipeName s = map (\<lambda>x. if x = CHR '':'' then CHR ''|'' else x) (orDefaultName s)"

definition colonName :: "string \<Rightarrow> string" where
  "colonName s = map (\<lambda>x. if x = CHR ''|'' then CHR '':'' else x) (orDefaultName s)"

lemma colon_pipe: "strReplaceAll ''|'' '':'' (pipeName s) = colonName s"
  by (simp add: pipeName_def colonName_def replace_char)

lemma keyOf_eq: "keyOf prefix e = prefix @ '':usage:'' @ itoa (unixMinute (ev_time e)) @ '':'' @ pipeName (ev_tenant e) @ '':'' @ pipeName (ev_route e)"
  by (simp add: keyOf_def usageKey_def pipeName_def replace_char)

lemma keyOf_parts:
  "\<exists>ps. 3 \<le> length ps \<and> strSplit (CHR '':'') (keyOf prefix e) = ps @ [pipeName (ev_tenant e), pipeName (ev_route e)]"
proof -
  have n: "CHR '':'' \<notin> set (pipeName s)" for s by (auto simp: pipeName_def)
  let ?ts = "itoa (unixMinute (ev_time e))"
  have "keyOf prefix e = prefix @ CHR '':'' # ''usage'' @ CHR '':'' # ?ts @ CHR '':'' # pipeName (ev_tenant e) @ CHR '':'' # pipeName (ev_route e)"
    by (simp add: keyOf_eq)
  then have "strSplit (CHR '':'') (keyOf prefix e) = strSplit (CHR '':'') prefix @ strSplit (CHR '':'') ''usage'' @ strSplit (CHR '':'') ?ts
      @ [pipeName (ev_tenant e)] @ [pipeName (ev_route e)]"
    by (simp only: split_at split_one [OF n])
  moreover have "1 \<le> length (strSplit (CHR '':'') x)" for x by (simp add: Suc_leI)
  from this [of prefix] this [of ?ts] have "3 \<le> length (strSplit (CHR '':'') prefix @ strSplit (CHR '':'') ''usage'' @ strSplit (CHR '':'') ?ts)"
    by simp
  ultimately show ?thesis
    by (intro exI [of _ "strSplit (CHR '':'') prefix @ strSplit (CHR '':'') ''usage'' @ strSplit (CHR '':'') ?ts"]) simp
qed

lemma hasPrefix_same [simp]: "hasPrefix (x @ y) (x @ z) = hasPrefix y z"
  by (simp add: hasPrefix_def)

lemma digits_prefix:
  "CHR '':'' \<notin> set a \<Longrightarrow> CHR '':'' \<notin> set b \<Longrightarrow> hasPrefix (a @ CHR '':'' # y) (b @ '':'') \<longleftrightarrow> a = b"
proof (induction a arbitrary: b)
  case Nil
  then show ?case by (cases b) (auto simp: hasPrefix_def)
next
  case (Cons c a)
  then show ?case by (cases b) (auto simp: hasPrefix_def)
qed

lemma unixMinute_eq: "unixMinute t = 60 * (t div minuteNs)"
proof -
  have "truncTo minuteNs t = minuteNs * (t div minuteNs)" unfolding truncTo_def by (metis minus_mod_eq_mult_div)
  then show ?thesis by (simp add: unixMinute_def)
qed

lemma keyOf_prefix:
  assumes "0 \<le> ev_time e" "0 \<le> ts"
  shows "hasPrefix (keyOf prefix e) (prefix @ '':usage:'' @ itoa ts @ '':'') \<longleftrightarrow> unixMinute (ev_time e) = ts"
proof -
  have m: "0 \<le> unixMinute (ev_time e)" using assms(1) by (simp add: unixMinute_eq pos_imp_zdiv_nonneg_iff)
  have "hasPrefix (keyOf prefix e) (prefix @ '':usage:'' @ itoa ts @ '':'')
      \<longleftrightarrow> hasPrefix (itoa (unixMinute (ev_time e)) @ CHR '':'' # pipeName (ev_tenant e) @ '':'' @ pipeName (ev_route e)) (itoa ts @ '':'')"
    unfolding keyOf_eq hasPrefix_same by simp
  also have "\<dots> \<longleftrightarrow> itoa (unixMinute (ev_time e)) = itoa ts" by (rule digits_prefix) (simp_all add: itoa_colon m assms)
  also have "\<dots> \<longleftrightarrow> unixMinute (ev_time e) = ts"
    using itoa_nat_inject [of "nat (unixMinute (ev_time e))" "nat ts"] m assms(2) by (simp add: eq_nat_nat_iff)
  finally show ?thesis .
qed

section \<open>What Redis holds\<close>

text \<open>Events recorded one after the other, each with the server's time.\<close>

definition recordEvent :: "string \<Rightarrow> int \<Rightarrow> int \<times> usageEvent \<Rightarrow> hashes \<Rightarrow> hashes" where
  "recordEvent prefix ttl r H =
     (let e = snd r
      in fst (RecordRedis prefix ttl None (fst r) (ev_tenant e) (ev_route e) (ev_decision e) (ev_bytes e) (ev_time e) H))"

definition recorded :: "string \<Rightarrow> int \<Rightarrow> (int \<times> usageEvent) list \<Rightarrow> hashes" where
  "recorded prefix ttl rs = fold (recordEvent prefix ttl) rs Map.empty"

lemma decisionCol_cases: "decisionCol d \<in> {''allow'', ''quarantine'', ''deny''}"
  by (simp add: decisionCol_def)

definition lasting :: "int \<Rightarrow> string \<Rightarrow> hashes \<Rightarrow> bool" where
  "lasting clk k H \<longleftrightarrow> (case H k of None \<Rightarrow> True | Some h \<Rightarrow> (\<exists>x. rh_expires h = Some x \<and> clk < x))"

lemma recordEvent_other: "keyOf prefix (snd r) \<noteq> k \<Longrightarrow> recordEvent prefix ttl r H k = H k"
  by (auto simp: recordEvent_def RecordRedis_def keyOf_def hincr_def expire_def Let_def split: option.splits)

lemma recordEvent_same:
  assumes "keyOf prefix (snd r) = k" "lasting clk k H" "fst r \<le> clk" "clk < fst r + ttl"
  shows "\<exists>h'. recordEvent prefix ttl r H k = Some h' \<and> rh_expires h' = Some (fst r + ttl)
    \<and> (\<forall>f. fieldOf (Some (rh_fields h')) f = fieldOf (map_option rh_fields (H k)) f
        + (if f = decisionCol (ev_decision (snd r)) then 1 else 0) + (if f = ''bytes'' then ev_bytes (snd r) else 0))"
proof -
  have "\<not> goneAt (fst r) h" if "H k = Some h" for h using assms(2,3) that by (auto simp: lasting_def goneAt_def)
  moreover have "\<not> goneAt (fst r) \<lparr>rh_fields = m, rh_expires = None\<rparr>" for m by (simp add: goneAt_def)
  moreover have "goneAt c (h\<lparr>rh_fields := m\<rparr>) = goneAt c h" for c h m by (simp add: goneAt_def)
  ultimately show ?thesis
    using assms(1) decisionCol_cases [of "ev_decision (snd r)"]
    by (cases "H k") (auto simp: recordEvent_def RecordRedis_def keyOf_def hincr_def expire_def fieldOf_def Let_def split: option.splits)
qed

lemma recordEvent_lasting:
  assumes "lasting clk k H" "keyOf prefix (snd r) = k \<Longrightarrow> fst r \<le> clk \<and> clk < fst r + ttl"
  shows "lasting clk k (recordEvent prefix ttl r H)"
proof (cases "keyOf prefix (snd r) = k")
  case True
  obtain h' where "recordEvent prefix ttl r H k = Some h'" "rh_expires h' = Some (fst r + ttl)"
    using recordEvent_same [OF True assms(1)] assms(2) [OF True] by blast
  with assms(2) [OF True] show ?thesis by (simp add: lasting_def)
next
  case False
  with assms(1) show ?thesis by (simp add: lasting_def recordEvent_other)
qed

lemma hmget_recordEvent:
  assumes "lasting clk k H" "keyOf prefix (snd r) = k \<Longrightarrow> fst r \<le> clk \<and> clk < fst r + ttl"
  shows "sm_count (hmget (map_option rh_fields (recordEvent prefix ttl r H k)))
      = sm_count (hmget (map_option rh_fields (H k))) + (if keyOf prefix (snd r) = k then 1 else 0)"
    "sm_bytes (hmget (map_option rh_fields (recordEvent prefix ttl r H k)))
      = sm_bytes (hmget (map_option rh_fields (H k))) + (if keyOf prefix (snd r) = k then ev_bytes (snd r) else 0)"
proof -
  have "sm_count (hmget (map_option rh_fields (recordEvent prefix ttl r H k))) = sm_count (hmget (map_option rh_fields (H k))) + 1
      \<and> sm_bytes (hmget (map_option rh_fields (recordEvent prefix ttl r H k))) = sm_bytes (hmget (map_option rh_fields (H k))) + ev_bytes (snd r)"
    if k: "keyOf prefix (snd r) = k"
  proof -
    obtain h' where h': "recordEvent prefix ttl r H k = Some h'"
      "\<And>f. fieldOf (Some (rh_fields h')) f = fieldOf (map_option rh_fields (H k)) f
        + (if f = decisionCol (ev_decision (snd r)) then 1 else 0) + (if f = ''bytes'' then ev_bytes (snd r) else 0)"
      using recordEvent_same [OF k assms(1), of ttl] assms(2) [OF k] by blast
    consider "decisionCol (ev_decision (snd r)) = ''allow''" | "decisionCol (ev_decision (snd r)) = ''quarantine''"
      | "decisionCol (ev_decision (snd r)) = ''deny''" using decisionCol_cases [of "ev_decision (snd r)"] by auto
    then show ?thesis by cases (simp_all add: hmget_def h')
  qed
  then show "sm_count (hmget (map_option rh_fields (recordEvent prefix ttl r H k)))
      = sm_count (hmget (map_option rh_fields (H k))) + (if keyOf prefix (snd r) = k then 1 else 0)"
    "sm_bytes (hmget (map_option rh_fields (recordEvent prefix ttl r H k)))
      = sm_bytes (hmget (map_option rh_fields (H k))) + (if keyOf prefix (snd r) = k then ev_bytes (snd r) else 0)"
    by (cases "keyOf prefix (snd r) = k"; simp add: recordEvent_other)+
qed

lemma fieldsAt_lasting: "lasting clk k H \<Longrightarrow> fieldsAt clk H k = map_option rh_fields (H k)"
  by (auto simp: lasting_def fieldsAt_def goneAt_def split: option.splits)

lemma recorded_none: "k \<notin> keyOf prefix ` snd ` set rs \<Longrightarrow> recorded prefix ttl rs k = None"
proof -
  have "fold (recordEvent prefix ttl) rs H k = H k" if "k \<notin> keyOf prefix ` snd ` set rs" for H
    using that by (induction rs arbitrary: H) (auto simp: recordEvent_other)
  then show "k \<notin> keyOf prefix ` snd ` set rs \<Longrightarrow> recorded prefix ttl rs k = None" by (simp add: recorded_def)
qed

text \<open>A key whose events were all recorded less than the time to live ago holds all of them.\<close>

lemma sum_recorded:
  assumes "\<And>r. r \<in> set rs \<Longrightarrow> keyOf prefix (snd r) = k \<Longrightarrow> fst r \<le> clk \<and> clk < fst r + ttl"
  shows "lasting clk k (recorded prefix ttl rs)"
    "sm_count (hmget (fieldsAt clk (recorded prefix ttl rs) k)) = sum_list (map (\<lambda>e. 1) (filter (\<lambda>e. keyOf prefix e = k) (map snd rs)))"
    "sm_bytes (hmget (fieldsAt clk (recorded prefix ttl rs) k)) = sum_list (map ev_bytes (filter (\<lambda>e. keyOf prefix e = k) (map snd rs)))"
proof -
  have "lasting clk k (fold (recordEvent prefix ttl) rs H)
    \<and> sm_count (hmget (map_option rh_fields (fold (recordEvent prefix ttl) rs H k)))
      = sm_count (hmget (map_option rh_fields (H k))) + sum_list (map (\<lambda>e. 1) (filter (\<lambda>e. keyOf prefix e = k) (map snd rs)))
    \<and> sm_bytes (hmget (map_option rh_fields (fold (recordEvent prefix ttl) rs H k)))
      = sm_bytes (hmget (map_option rh_fields (H k))) + sum_list (map ev_bytes (filter (\<lambda>e. keyOf prefix e = k) (map snd rs)))"
    if "lasting clk k H" for H
    using that assms
  proof (induction rs arbitrary: H)
    case (Cons r rs)
    have r: "keyOf prefix (snd r) = k \<Longrightarrow> fst r \<le> clk \<and> clk < fst r + ttl" using Cons.prems(2) by simp
    from Cons.IH [OF recordEvent_lasting [OF Cons.prems(1) r]] Cons.prems(2) hmget_recordEvent [OF Cons.prems(1) r] show ?case by simp
  qed simp
  from this [of Map.empty] have "lasting clk k (recorded prefix ttl rs)
    \<and> sm_count (hmget (map_option rh_fields (recorded prefix ttl rs k))) = sum_list (map (\<lambda>e. 1) (filter (\<lambda>e. keyOf prefix e = k) (map snd rs)))
    \<and> sm_bytes (hmget (map_option rh_fields (recorded prefix ttl rs k))) = sum_list (map ev_bytes (filter (\<lambda>e. keyOf prefix e = k) (map snd rs)))"
    by (simp add: recorded_def lasting_def hmget_def fieldOf_def)
  then show "lasting clk k (recorded prefix ttl rs)"
    "sm_count (hmget (fieldsAt clk (recorded prefix ttl rs) k)) = sum_list (map (\<lambda>e. 1) (filter (\<lambda>e. keyOf prefix e = k) (map snd rs)))"
    "sm_bytes (hmget (fieldsAt clk (recorded prefix ttl rs) k)) = sum_list (map ev_bytes (filter (\<lambda>e. keyOf prefix e = k) (map snd rs)))"
    by (simp_all add: fieldsAt_lasting)
qed

text \<open>Summing over classes and then over the members of each is summing over all.\<close>

lemma sum_classes:
  fixes w :: "'e \<Rightarrow> int"
  assumes "distinct ks"
  shows "sum_list (map (\<lambda>k. sum_list (map w (filter (\<lambda>e. f e = k \<and> P e) es))) ks) = sum_list (map w (filter (\<lambda>e. f e \<in> set ks \<and> P e) es))"
  using assms
proof (induction ks)
  case (Cons k ks)
  have "sum_list (map w (filter (\<lambda>e. f e \<in> set (k # ks) \<and> P e) es))
      = sum_list (map w (filter (\<lambda>e. f e = k \<and> P e) es)) + sum_list (map w (filter (\<lambda>e. f e \<in> set ks \<and> P e) es))"
    using Cons.prems by (induction es) auto
  then show ?case using Cons by simp
qed simp

section \<open>Querying Redis\<close>

definition shareOf :: "(usageSums \<Rightarrow> int) \<Rightarrow> (keyAgg \<times> usageSums) option \<Rightarrow> int" where
  "shareOf \<mu> o1 = (case o1 of None \<Rightarrow> 0 | Some kv \<Rightarrow> \<mu> (snd kv))"

lemma share_filter: "sum_list (map (\<lambda>kv. \<mu> (snd kv)) (List.map_filter g keys)) = sum_list (map (\<lambda>k. shareOf \<mu> (g k)) keys)"
  by (induction keys) (simp_all add: List.map_filter_simps shareOf_def split: option.splits)

lemma collectShares_sum:
  assumes "\<And>x y. \<mu> (addSums x y) = \<mu> x + \<mu> y" "\<And>ts. ts \<in> set tss \<Longrightarrow> scan (prefix @ '':usage:'' @ itoa ts @ '':'') = Inr (keys ts)"
  shows "\<exists>acc'. collectShares scan prefix q H tss acc = Inr acc' \<and> sum_list (map (\<lambda>g. \<mu> (snd g)) acc')
    = sum_list (map (\<lambda>g. \<mu> (snd g)) acc) + sum_list (map (\<lambda>ts. sum_list (map (\<lambda>k. shareOf \<mu> (keyShare q H ts k)) (keys ts))) tss)"
  using assms(2)
proof (induction tss arbitrary: acc)
  case (Cons ts tss)
  let ?acc = "fold (\<lambda>(k, v). addGroup k (\<lambda>e. addSums e v) v) (List.map_filter (keyShare q H ts) (keys ts)) acc"
  have "(\<lambda>(k, v). addGroup k (\<lambda>e. addSums e v) v) = (\<lambda>kv. addGroup (fst kv) (\<lambda>e. addSums e (snd kv)) (snd kv))" by auto
  note groups = this
  have "sum_list (map (\<lambda>g. \<mu> (snd g)) ?acc) = sum_list (map (\<lambda>g. \<mu> (snd g)) acc) + sum_list (map (\<lambda>k. shareOf \<mu> (keyShare q H ts k)) (keys ts))"
    using groups_sum [where \<mu> = \<mu> and k = fst and v = snd and f = "\<lambda>kv e. addSums e (snd kv)" and gs = acc] assms(1)
    unfolding groups by (simp add: share_filter)
  moreover have "scan (prefix @ '':usage:'' @ itoa ts @ '':'') = Inr (keys ts)" using Cons.prems by simp
  ultimately show ?case using Cons.IH [of ?acc] Cons.prems by (auto simp: algebra_simps)
qed simp

definition tenantMatches :: "usageQuery \<Rightarrow> usageEvent \<Rightarrow> bool" where
  "tenantMatches q e \<longleftrightarrow> uq_Tenant q = [] \<or> uq_Tenant q = colonName (ev_tenant e)"

lemma keyShare_event:
  "shareOf \<mu> (keyShare q H ts (keyOf prefix e)) = (if tenantMatches q e then \<mu> (hmget (H (keyOf prefix e))) else 0)"
proof -
  obtain ps where ps: "3 \<le> length ps" "strSplit (CHR '':'') (keyOf prefix e) = ps @ [pipeName (ev_tenant e), pipeName (ev_route e)]"
    using keyOf_parts by blast
  let ?parts = "strSplit (CHR '':'') (keyOf prefix e)"
  have "length ?parts = length ps + 2" "?parts ! (length ?parts - 2) = pipeName (ev_tenant e)" using ps(2) by (simp_all add: nth_append)
  then show ?thesis using ps(1) by (auto simp: keyShare_def Let_def shareOf_def tenantMatches_def colon_pipe)
qed

lemma minutes_distinct: "distinct (minutes start stop)"
  by (simp add: minutes_def distinct_map inj_on_def)

lemma minutes_set:
  assumes "60 dvd start" "60 dvd ts" shows "ts \<in> set (minutes start stop) \<longleftrightarrow> start \<le> ts \<and> ts < stop"
proof -
  obtain k where k: "ts = start + 60 * k" using assms by (metis dvdE dvd_diff add.commute diff_add_cancel)
  let ?n = "(stop - start + 59) div 60"
  have "ts \<in> set (minutes start stop) \<longleftrightarrow> (\<exists>i. k = int i \<and> i < nat ?n)"
    unfolding minutes_def k by auto
  also have "\<dots> \<longleftrightarrow> 0 \<le> k \<and> k < ?n" using zero_le_imp_eq_int [of k] by auto
  also have "\<dots> \<longleftrightarrow> start \<le> ts \<and> ts < stop"
  proof -
    have "60 * ?n \<le> stop - start + 59" "stop - start + 59 < 60 * ?n + 60" by linarith+
    then show ?thesis unfolding k by linarith
  qed
  finally show ?thesis .
qed

lemma same_key_tenant: "keyOf prefix e = keyOf prefix e' \<Longrightarrow> tenantMatches q e = tenantMatches q e'"
proof -
  assume k: "keyOf prefix e = keyOf prefix e'"
  obtain ps ps' where "strSplit (CHR '':'') (keyOf prefix e) = ps @ [pipeName (ev_tenant e), pipeName (ev_route e)]"
    "strSplit (CHR '':'') (keyOf prefix e') = ps' @ [pipeName (ev_tenant e'), pipeName (ev_route e')]"
    using keyOf_parts [of prefix e] keyOf_parts [of prefix e'] by blast
  then have "pipeName (ev_tenant e) = pipeName (ev_tenant e')" using k by simp
  then have "colonName (ev_tenant e) = colonName (ev_tenant e')" by (metis colon_pipe)
  then show ?thesis by (simp add: tenantMatches_def)
qed

lemma key_sum:
  assumes "\<mu> (hmget None) = 0" "k \<notin> keyOf prefix ` set es \<Longrightarrow> P k = None"
    and "\<And>e. e \<in> set es \<Longrightarrow> keyOf prefix e = k \<Longrightarrow> tenantMatches q e
      \<Longrightarrow> \<mu> (hmget (P k)) = sum_list (map w (filter (\<lambda>e. keyOf prefix e = k) es))"
  shows "shareOf \<mu> (keyShare q P ts k) = sum_list (map w (filter (\<lambda>e. keyOf prefix e = k \<and> tenantMatches q e) es))"
proof (cases "k \<in> keyOf prefix ` set es")
  case True
  then obtain e0 where e0: "k = keyOf prefix e0" "e0 \<in> set es" by blast
  have m: "tenantMatches q e = tenantMatches q e0" if "keyOf prefix e = k" for e using same_key_tenant [of prefix e e0 q] that e0 by simp
  have "filter (\<lambda>e. keyOf prefix e = k \<and> tenantMatches q e) es = (if tenantMatches q e0 then filter (\<lambda>e. keyOf prefix e = k) es else [])"
    using m by (auto simp: filter_empty_conv intro: filter_cong)
  then show ?thesis using keyShare_event [of \<mu> q P ts prefix e0] assms(3) [of e0] e0 by simp
next
  case False
  then have "filter (\<lambda>e. keyOf prefix e = k \<and> tenantMatches q e) es = []" by (auto simp: filter_empty_conv)
  with False assms(1,2) show ?thesis by (simp add: keyShare_def shareOf_def Let_def)
qed

text \<open>Summing over a list with repetitions counts each member as often as its class occurs.\<close>

lemma distinct_count_list: "distinct xs \<Longrightarrow> count_list xs x \<le> 1"
  by (induction xs) auto

lemma sum_times:
  fixes w :: "'e \<Rightarrow> int"
  shows "sum_list (map (\<lambda>k. sum_list (map w (filter (\<lambda>e. f e = k \<and> P e) es))) ks)
    = sum_list (map (\<lambda>e. int (count_list ks (f e)) * w e) (filter P es))"
proof (induction ks)
  case Nil
  show ?case by (induction es) auto
next
  case (Cons k ks)
  have "sum_list (map (\<lambda>e. int (count_list (k # ks) (f e)) * w e) (filter P es))
      = sum_list (map w (filter (\<lambda>e. f e = k \<and> P e) es)) + sum_list (map (\<lambda>e. int (count_list ks (f e)) * w e) (filter P es))"
    by (induction es) (auto simp: algebra_simps)
  then show ?case using Cons by simp
qed

text \<open>The events a query asks for.\<close>

definition inWindow :: "usageQuery \<Rightarrow> usageEvent \<Rightarrow> bool" where
  "inWindow q e \<longleftrightarrow> unixMinute (uq_Start q) \<le> unixMinute (ev_time e) \<and> unixMinute (ev_time e) < unixMinute (uq_End q) \<and> tenantMatches q e"

text \<open>
  What Redis documents of a complete iteration with \<^verbatim>\<open>SCAN\<close>: it returns the keys asked for that are there
  all the time, each at least once; it may return a key several times, and keys that go in the meantime.
\<close>

definition scans :: "(string \<Rightarrow> string + string list) \<Rightarrow> int \<Rightarrow> hashes \<Rightarrow> bool" where
  "scans scan clk H \<longleftrightarrow>
     (\<forall>p. \<exists>ks. scan p = Inr ks \<and> {k \<in> dom (fieldsAt clk H). hasPrefix k p} \<subseteq> set ks \<and> list_all (\<lambda>k. hasPrefix k p) ks)"

definition scanned :: "(string \<Rightarrow> string + string list) \<Rightarrow> string \<Rightarrow> int \<Rightarrow> string list" where
  "scanned scan prefix ts = (case scan (prefix @ '':usage:'' @ itoa ts @ '':'') of Inr ks \<Rightarrow> ks | Inl e \<Rightarrow> [])"

text \<open>How often the scan for the minute of an event returns the key of the event.\<close>

definition returned :: "(string \<Rightarrow> string + string list) \<Rightarrow> string \<Rightarrow> usageEvent \<Rightarrow> nat" where
  "returned scan prefix e = count_list (scanned scan prefix (unixMinute (ev_time e))) (keyOf prefix e)"

lemma minute_sum:
  fixes \<mu> :: "usageSums \<Rightarrow> int"
  assumes "scans scan clk H" "list_all (\<lambda>e. 0 \<le> ev_time e) es" "0 \<le> ts"
    and "\<mu> (hmget None) = 0" "\<And>k. k \<notin> keyOf prefix ` set es \<Longrightarrow> fieldsAt clk H k = None"
    and "\<And>e. e \<in> set es \<Longrightarrow> unixMinute (ev_time e) = ts \<Longrightarrow> tenantMatches q e
      \<Longrightarrow> \<mu> (hmget (fieldsAt clk H (keyOf prefix e))) = sum_list (map w (filter (\<lambda>e'. keyOf prefix e' = keyOf prefix e) es))"
  shows "sum_list (map (\<lambda>k. shareOf \<mu> (keyShare q (fieldsAt clk H) ts k)) (scanned scan prefix ts))
      = sum_list (map (\<lambda>e. int (returned scan prefix e) * w e) (filter (\<lambda>e. unixMinute (ev_time e) = ts \<and> tenantMatches q e) es))"
proof -
  let ?ks = "scanned scan prefix ts" and ?p = "prefix @ '':usage:'' @ itoa ts @ '':''"
  have pre: "hasPrefix k ?p" if "k \<in> set ?ks" for k
  proof -
    obtain ks where "scan ?p = Inr ks" "list_all (\<lambda>k. hasPrefix k ?p) ks" using assms(1) unfolding scans_def by blast
    with that show ?thesis by (auto simp: scanned_def list_all_iff)
  qed
  have minute: "unixMinute (ev_time e) = ts" if "e \<in> set es" "keyOf prefix e \<in> set ?ks" for e
    using pre [OF that(2)] keyOf_prefix [of e ts prefix] assms(2,3) that(1) by (auto simp: list_all_iff)
  have "map (\<lambda>k. shareOf \<mu> (keyShare q (fieldsAt clk H) ts k)) ?ks
      = map (\<lambda>k. sum_list (map w (filter (\<lambda>e. keyOf prefix e = k \<and> tenantMatches q e) es))) ?ks"
    using assms(4-6) minute by (intro map_cong refl key_sum) auto
  then have "sum_list (map (\<lambda>k. shareOf \<mu> (keyShare q (fieldsAt clk H) ts k)) ?ks)
      = sum_list (map (\<lambda>e. int (count_list ?ks (keyOf prefix e)) * w e) (filter (tenantMatches q) es))"
    by (simp only: sum_times)
  also have "\<dots> = sum_list (map (\<lambda>e. int (returned scan prefix e) * w e) (filter (\<lambda>e. unixMinute (ev_time e) = ts \<and> tenantMatches q e) es))"
  proof -
    have z: "count_list ?ks (keyOf prefix e) = 0" if "e \<in> set es" "unixMinute (ev_time e) \<noteq> ts" for e
      using minute that by (auto simp: count_list_0_iff)
    have "sum_list (map (\<lambda>e. int (count_list ?ks (keyOf prefix e)) * w e) (filter (tenantMatches q) xs))
        = sum_list (map (\<lambda>e. int (returned scan prefix e) * w e) (filter (\<lambda>e. unixMinute (ev_time e) = ts \<and> tenantMatches q e) xs))"
      if "set xs \<subseteq> set es" for xs
      using that by (induction xs) (auto simp: returned_def z)
    then show ?thesis by blast
  qed
  finally show ?thesis .
qed

lemma window_sum:
  fixes \<mu> :: "usageSums \<Rightarrow> int"
  assumes "scans scan clk H" "list_all (\<lambda>e. 0 \<le> ev_time e) es" "0 \<le> uq_Start q"
    and "\<And>x y. \<mu> (addSums x y) = \<mu> x + \<mu> y" "\<mu> (hmget None) = 0"
    and "\<And>k. k \<notin> keyOf prefix ` set es \<Longrightarrow> fieldsAt clk H k = None"
    and "\<And>e. e \<in> set es \<Longrightarrow> inWindow q e
      \<Longrightarrow> \<mu> (hmget (fieldsAt clk H (keyOf prefix e))) = sum_list (map w (filter (\<lambda>e'. keyOf prefix e' = keyOf prefix e) es))"
  shows "\<exists>acc. collectShares scan prefix q (fieldsAt clk H) (minutes (unixMinute (uq_Start q)) (unixMinute (uq_End q))) [] = Inr acc
    \<and> sum_list (map (\<lambda>g. \<mu> (snd g)) acc) = sum_list (map (\<lambda>e. int (returned scan prefix e) * w e) (filter (inWindow q) es))"
proof -
  let ?tss = "minutes (unixMinute (uq_Start q)) (unixMinute (uq_End q))" and ?P = "fieldsAt clk H"
  let ?w = "\<lambda>e. int (returned scan prefix e) * w e"
  have d: "60 dvd unixMinute t" for t by (simp add: unixMinute_eq)
  have pos: "0 \<le> ts" if "ts \<in> set ?tss" for ts
  proof -
    have "0 \<le> unixMinute (uq_Start q)" using assms(3) by (simp add: unixMinute_eq pos_imp_zdiv_nonneg_iff)
    then show ?thesis using that by (auto simp: minutes_def)
  qed
  have win: "inWindow q e" if "unixMinute (ev_time e) \<in> set ?tss" "tenantMatches q e" for e
    using that minutes_set [OF d d] by (auto simp: inWindow_def)
  have sc: "scan (prefix @ '':usage:'' @ itoa ts @ '':'') = Inr (scanned scan prefix ts)" for ts
  proof -
    obtain ks where "scan (prefix @ '':usage:'' @ itoa ts @ '':'') = Inr ks" using assms(1) unfolding scans_def by blast
    then show ?thesis by (simp add: scanned_def)
  qed
  have k: "sum_list (map (\<lambda>k. shareOf \<mu> (keyShare q ?P ts k)) (scanned scan prefix ts))
      = sum_list (map ?w (filter (\<lambda>e. unixMinute (ev_time e) = ts \<and> tenantMatches q e) es))"
    if "ts \<in> set ?tss" for ts
  proof (rule minute_sum [where \<mu> = \<mu> and w = w and q = q, OF assms(1,2) pos [OF that] assms(5,6)])
    fix e assume "e \<in> set es" "unixMinute (ev_time e) = ts" "tenantMatches q e"
    with win that show "\<mu> (hmget (?P (keyOf prefix e))) = sum_list (map w (filter (\<lambda>e'. keyOf prefix e' = keyOf prefix e) es))"
      by (intro assms(7)) auto
  qed
  have "map (\<lambda>ts. sum_list (map (\<lambda>k. shareOf \<mu> (keyShare q ?P ts k)) (scanned scan prefix ts))) ?tss
      = map (\<lambda>ts. sum_list (map ?w (filter (\<lambda>e. unixMinute (ev_time e) = ts \<and> tenantMatches q e) es))) ?tss"
    using k by (intro map_cong refl)
  then have "sum_list (map (\<lambda>ts. sum_list (map (\<lambda>k. shareOf \<mu> (keyShare q ?P ts k)) (scanned scan prefix ts))) ?tss)
      = sum_list (map ?w (filter (\<lambda>e. unixMinute (ev_time e) \<in> set ?tss \<and> tenantMatches q e) es))"
    using sum_classes [OF minutes_distinct, where w = ?w and f = "\<lambda>e. unixMinute (ev_time e)" and P = "tenantMatches q"] by (simp only:)
  also have "\<dots> = sum_list (map ?w (filter (inWindow q) es))" by (simp add: minutes_set [OF d d] inWindow_def conj_assoc cong: filter_cong)
  finally show ?thesis
    using collectShares_sum [where \<mu> = \<mu> and tss = ?tss and scan = scan and prefix = prefix and keys = "scanned scan prefix" and q = q and H = ?P and acc = "[]",
        OF assms(4) sc] by auto
qed

lemma same_key_window:
  assumes "keyOf prefix e = keyOf prefix e'" "0 \<le> ev_time e" "0 \<le> ev_time e'"
  shows "inWindow q e = inWindow q e'"
proof -
  have m: "0 \<le> unixMinute (ev_time e)" using assms(2) by (simp add: unixMinute_eq pos_imp_zdiv_nonneg_iff)
  have "unixMinute (ev_time e') = unixMinute (ev_time e)"
    using keyOf_prefix [OF assms(2) m, of prefix] keyOf_prefix [OF assms(3) m, of prefix] assms(1) by simp
  then show ?thesis using same_key_tenant [OF assms(1), of q] by (simp add: inWindow_def)
qed

lemma rows_sum:
  assumes "\<And>xs. mset (visit xs) = mset xs"
  shows "sum_list (map \<mu> (sort_key rw_IntervalStart (map (rowOf q) (visit acc)))) = sum_list (map (\<lambda>g. \<mu> (rowOf q g) :: int) acc)"
proof -
  have "mset (sort_key rw_IntervalStart (map (rowOf q) (visit acc))) = mset (map (rowOf q) acc)" using assms by simp
  then show ?thesis using perm_sum [of "sort_key rw_IntervalStart (map (rowOf q) (visit acc))" "map (rowOf q) acc" \<mu>] by (simp add: comp_def)
qed

lemma query_sums:
  assumes "scans scan clk (recorded prefix ttl rs)" "\<And>xs. mset (visit xs) = mset xs"
    and "list_all (\<lambda>e. 0 \<le> ev_time e) (map snd rs)" "0 \<le> uq_Start q" "uq_Start q \<le> uq_End q"
    and "\<And>r. r \<in> set rs \<Longrightarrow> inWindow q (snd r) \<Longrightarrow> fst r \<le> clk \<and> clk < fst r + ttl"
  shows "\<exists>res. QueryRedis scan visit prefix q clk (recorded prefix ttl rs) = Inr res
    \<and> sum_list (map rw_Count (us_Rows res)) = sum_list (map (\<lambda>e. int (returned scan prefix e)) (filter (inWindow q) (map snd rs)))
    \<and> sum_list (map rw_Bytes (us_Rows res)) = sum_list (map (\<lambda>e. int (returned scan prefix e) * ev_bytes e) (filter (inWindow q) (map snd rs)))"
proof -
  let ?H = "recorded prefix ttl rs" and ?es = "map snd rs"
  have none: "fieldsAt clk ?H k = None" if "k \<notin> keyOf prefix ` set ?es" for k
    using recorded_none [of k prefix rs ttl] that by (simp add: fieldsAt_def)
  have held: "\<And>r. r \<in> set rs \<Longrightarrow> keyOf prefix (snd r) = keyOf prefix e \<Longrightarrow> fst r \<le> clk \<and> clk < fst r + ttl"
    if e: "e \<in> set ?es" "inWindow q e" for e
    using same_key_window [of prefix _ e q] assms(3,6) that by (auto simp: list_all_iff)
  have zero: "sm_count (hmget None) = 0" "sm_bytes (hmget None) = 0" by (simp_all add: hmget_def fieldOf_def)
  have add: "sm_count (addSums x y) = sm_count x + sm_count y" "sm_bytes (addSums x y) = sm_bytes x + sm_bytes y" for x y
    by (simp_all add: addSums_def)
  have cnt: "sm_count (hmget (fieldsAt clk ?H (keyOf prefix e))) = sum_list (map (\<lambda>e. 1) (filter (\<lambda>e'. keyOf prefix e' = keyOf prefix e) ?es))"
    and byt: "sm_bytes (hmget (fieldsAt clk ?H (keyOf prefix e))) = sum_list (map ev_bytes (filter (\<lambda>e'. keyOf prefix e' = keyOf prefix e) ?es))"
    if "e \<in> set ?es" "inWindow q e" for e
    by (rule sum_recorded(2), erule (1) held [OF that], rule sum_recorded(3), erule (1) held [OF that])
  obtain acc where acc: "collectShares scan prefix q (fieldsAt clk ?H) (minutes (unixMinute (uq_Start q)) (unixMinute (uq_End q))) [] = Inr acc"
    "sum_list (map (\<lambda>g. sm_count (snd g)) acc) = sum_list (map (\<lambda>e. int (returned scan prefix e) * 1) (filter (inWindow q) ?es))"
    using window_sum [OF assms(1,3,4) add(1) zero(1) none cnt] by blast
  moreover have "sum_list (map (\<lambda>g. sm_bytes (snd g)) acc) = sum_list (map (\<lambda>e. int (returned scan prefix e) * ev_bytes e) (filter (inWindow q) ?es))"
    using window_sum [OF assms(1,3,4) add(2) zero(2) none byt] acc(1) by auto
  ultimately show ?thesis
    using rows_sum [OF assms(2), of rw_Count q acc] rows_sum [OF assms(2), of rw_Bytes q acc] assms(5)
    by (simp add: QueryRedis_def rowOf_def)
qed

lemma returned_window:
  assumes "scans scan clk (recorded prefix ttl rs)" "e \<in> set (map snd rs)" "0 \<le> ev_time e"
    and "\<And>r. r \<in> set rs \<Longrightarrow> keyOf prefix (snd r) = keyOf prefix e \<Longrightarrow> fst r \<le> clk \<and> clk < fst r + ttl"
  shows "1 \<le> returned scan prefix e"
proof -
  let ?H = "recorded prefix ttl rs" and ?p = "prefix @ '':usage:'' @ itoa (unixMinute (ev_time e)) @ '':''"
  have "sm_count (hmget (fieldsAt clk ?H (keyOf prefix e))) = int (length (filter (\<lambda>e'. keyOf prefix e' = keyOf prefix e) (map snd rs)))"
    using sum_recorded(2) [of rs prefix "keyOf prefix e" clk ttl] assms(4) by (simp add: sum_list_triv)
  moreover have "filter (\<lambda>e'. keyOf prefix e' = keyOf prefix e) (map snd rs) \<noteq> []" using assms(2) unfolding filter_empty_conv by blast
  moreover have "sm_count (hmget None) = 0" by (simp add: hmget_def fieldOf_def)
  ultimately have "sm_count (hmget (fieldsAt clk ?H (keyOf prefix e))) \<noteq> sm_count (hmget None)"
    by (simp only: of_nat_eq_0_iff length_0_conv not_False_eq_True)
  then have "keyOf prefix e \<in> dom (fieldsAt clk ?H)" by (metis domIff)
  moreover have "hasPrefix (keyOf prefix e) ?p"
    using assms(3) by (subst keyOf_prefix) (auto simp: unixMinute_eq pos_imp_zdiv_nonneg_iff)
  ultimately have "keyOf prefix e \<in> set (scanned scan prefix (unixMinute (ev_time e)))"
  proof -
    obtain ks where "scan ?p = Inr ks" "{k \<in> dom (fieldsAt clk ?H). hasPrefix k ?p} \<subseteq> set ks" using assms(1) unfolding scans_def by blast
    then show ?thesis using \<open>keyOf prefix e \<in> dom _\<close> \<open>hasPrefix _ ?p\<close> by (auto simp: scanned_def)
  qed
  then show ?thesis by (metis count_list_0_iff less_one not_less returned_def)
qed

text \<open>
  C22. What the Redis usage store counts. When every event that a query asks for was recorded before
  it and less than the time to live of its key ago, the query succeeds, and the counts and the bytes of
  its rows add up to the recorded events in the minutes of the window, up to but not including the minute
  of its end, of the tenant it asks for, each event as often as \<^verbatim>\<open>SCAN\<close> returned its key, which is at least once.
  So they are exactly the number and the bytes of these events when no scan repeats a key.
\<close>

theorem redis_usage_counts:
  assumes "scans scan clk (recorded prefix ttl rs)" "\<And>xs. mset (visit xs) = mset xs"
    and "list_all (\<lambda>e. 0 \<le> ev_time e) (map snd rs)" "0 \<le> uq_Start q" "uq_Start q \<le> uq_End q"
    and "\<And>r. r \<in> set rs \<Longrightarrow> inWindow q (snd r) \<Longrightarrow> fst r \<le> clk \<and> clk < fst r + ttl"
  shows "\<exists>res. QueryRedis scan visit prefix q clk (recorded prefix ttl rs) = Inr res
    \<and> (let es = filter (inWindow q) (map snd rs)
       in sum_list (map rw_Count (us_Rows res)) = sum_list (map (\<lambda>e. int (returned scan prefix e)) es)
        \<and> sum_list (map rw_Bytes (us_Rows res)) = sum_list (map (\<lambda>e. int (returned scan prefix e) * ev_bytes e) es)
        \<and> (\<forall>e \<in> set es. 1 \<le> returned scan prefix e)
        \<and> ((\<forall>ts. distinct (scanned scan prefix ts)) \<longrightarrow>
             sum_list (map rw_Count (us_Rows res)) = int (length es) \<and> sum_list (map rw_Bytes (us_Rows res)) = sum_list (map ev_bytes es)))"
proof -
  define es where "es = filter (inWindow q) (map snd rs)"
  have held: "\<And>r. r \<in> set rs \<Longrightarrow> keyOf prefix (snd r) = keyOf prefix e \<Longrightarrow> fst r \<le> clk \<and> clk < fst r + ttl" if "e \<in> set es" for e
    using same_key_window [of prefix _ e q] assms(3,6) that by (auto simp: list_all_iff es_def)
  have "0 \<le> ev_time e" "e \<in> set (map snd rs)" if "e \<in> set es" for e using assms(3) that by (auto simp: list_all_iff es_def)
  then have pos: "\<forall>e \<in> set es. 1 \<le> returned scan prefix e" using returned_window [OF assms(1)] held by blast
  have one: "sum_list (map (\<lambda>e. int (returned scan prefix e)) es) = int (length es)"
    "sum_list (map (\<lambda>e. int (returned scan prefix e) * ev_bytes e) es) = sum_list (map ev_bytes es)" if "\<forall>ts. distinct (scanned scan prefix ts)"
  proof -
    have "returned scan prefix e = 1" if "e \<in> set es" for e
    proof -
      have "count_list (scanned scan prefix (unixMinute (ev_time e))) (keyOf prefix e) \<le> 1"
        using \<open>\<forall>ts. distinct (scanned scan prefix ts)\<close> by (intro distinct_count_list) blast
      then show ?thesis using pos that by (force simp: returned_def)
    qed
    then show "sum_list (map (\<lambda>e. int (returned scan prefix e)) es) = int (length es)"
      "sum_list (map (\<lambda>e. int (returned scan prefix e) * ev_bytes e) es) = sum_list (map ev_bytes es)" by (simp_all add: sum_list_triv cong: map_cong)
  qed
  from query_sums [OF assms] one pos show ?thesis unfolding Let_def es_def [symmetric] by auto
qed

text \<open>
  A bar in a tenant's name makes its usage unreachable under that name: the key has it, but the query
  turns bars into colons.
\<close>

lemma bar_tenant_lost: "CHR ''|'' \<in> set n \<Longrightarrow> uq_Tenant q = n \<Longrightarrow> ev_tenant e = n \<Longrightarrow> \<not> inWindow q e"
proof
  assume a: "CHR ''|'' \<in> set n" "uq_Tenant q = n" "ev_tenant e = n" "inWindow q e"
  then have "n \<noteq> []" by auto
  then have "n = colonName n" using a by (simp add: inWindow_def tenantMatches_def)
  then have "CHR ''|'' \<in> set (colonName n)" using a(1) by simp
  then show False by (auto simp: colonName_def split: if_splits)
qed

text \<open>What is recorded with tokens goes under other keys, which no query reads.\<close>

lemma tokens_not_queried: "\<not> hasPrefix (prefix @ '':tokens:'' @ x) (prefix @ '':usage:'' @ y)"
proof -
  have c: "hasPrefix (a # s) (b # p) \<longleftrightarrow> a = b \<and> hasPrefix s p" for a b s p by (auto simp: hasPrefix_def)
  show ?thesis unfolding hasPrefix_same by (simp add: c)
qed

section \<open>Quotas of new tenants\<close>

text \<open>
  What \<^verbatim>\<open>golang.org/x/time/rate\<close> documents of a limiter: it holds at most \<open>burst\<close> tokens, all of
  them at first; a request for \<open>n\<close> succeeds if there are \<open>n\<close> and takes them; tokens come back at the
  limiter's rate per second.
\<close>

definition tokenBucket :: "'l limiterLib \<Rightarrow> ('l \<Rightarrow> real) \<Rightarrow> ('l \<Rightarrow> int \<Rightarrow> real) \<Rightarrow> bool" where
  "tokenBucket L rate tokens \<longleftrightarrow>
     (\<forall>r b t. rate (lm_New L (Some r) b) = r \<and> tokens (lm_New L (Some r) b) t = real_of_int b)
     \<and> (\<forall>l t n. snd (lm_AllowN L t n l) \<longleftrightarrow> real_of_int n \<le> tokens l t)
     \<and> (\<forall>l t n t'. snd (lm_AllowN L t n l) \<longrightarrow> t \<le> t' \<longrightarrow>
           tokens (fst (lm_AllowN L t n l)) t' \<le> tokens l t - real_of_int n + rate l * (real_of_int (t' - t) / 1000000000))"

text \<open>
  A new tenant starts with nothing: its limiter is created and at once drained of its whole burst,
  so its first request is refused unless a full token has come back in between.
\<close>

theorem new_tenant_denied:
  assumes "tokenBucket L rate tokens" "qt_m q tenant = None" "qt_rps q = Some r" "0 < r" "t0 \<le> t"
    and "r * (real_of_int (t - t0) / 1000000000) < 1"
  shows "\<not> snd (AllowTenant L t0 t tenant q)"
proof -
  let ?l = "lm_New L (Some r) (qt_burst q)"
  let ?l1 = "fst (lm_AllowN L t0 (qt_burst q) ?l)"
  have "snd (lm_AllowN L t0 (qt_burst q) ?l)" using assms(1) unfolding tokenBucket_def by (metis order_refl)
  moreover have "rate ?l = r" "tokens ?l t0 = real_of_int (qt_burst q)" using assms(1) unfolding tokenBucket_def by blast+
  ultimately have "tokens ?l1 t \<le> r * (real_of_int (t - t0) / 1000000000)"
    using assms(1,5) unfolding tokenBucket_def by (metis add_0 cancel_comm_monoid_add_class.diff_cancel)
  then have "\<not> snd (lm_AllowN L t 1 ?l1)" using assms(1,6) unfolding tokenBucket_def by (metis less_le_not_le of_int_1 order_trans)
  then show ?thesis using assms(2-4) by (auto simp: AllowTenant_def getLimiter_def Let_def split: prod.split)
qed

section \<open>Concrete runs\<close>

definition bucketLib :: "(real \<times> int \<times> real \<times> int option) limiterLib" where
  "bucketLib = \<lparr>lm_New = (\<lambda>r b. (case r of None \<Rightarrow> 0 | Some x \<Rightarrow> x, b, real_of_int b, None)),
     lm_AllowN = (\<lambda>t n (r, b, tok, lst).
       let cur = (case lst of None \<Rightarrow> tok | Some u \<Rightarrow> tok + r * (real_of_int (t - u) / 1000000000))
       in if real_of_int n \<le> cur then ((r, b, cur - real_of_int n, Some t), True) else ((r, b, tok, lst), False))\<rparr>"

lemma bucketLib_laws:
  "tokenBucket bucketLib fst (\<lambda>(r, b, tok, lst) t. case lst of None \<Rightarrow> tok | Some u \<Rightarrow> tok + r * (real_of_int (t - u) / 1000000000))"
  by (auto simp: tokenBucket_def bucketLib_def Let_def split: option.splits if_splits)

theorem new_tenant_denied_witness: "\<not> snd (AllowTenant bucketLib 5 6 ''acme'' (NewInMemoryQuota 10 20))"
  by (rule new_tenant_denied [OF bucketLib_laws, where r = 10]) (simp_all add: NewInMemoryQuota_def)

theorem usage_conserved_witness:
  "sum_list (map rw_Count (us_Rows (QueryMem rev \<lparr>uq_Tenant = [], uq_Start = 0, uq_End = 9, uq_Interval = IntervalHour, uq_GroupBy = []\<rparr>
     (RecordMem ''a'' ''r'' ''allow'' 3 5 (RecordMem ''b'' ''r'' ''deny'' 4 6 []))))) = 2"
  using usage_conserved [of rev "\<lparr>uq_Tenant = [], uq_Start = 0, uq_End = 9, uq_Interval = IntervalHour, uq_GroupBy = []\<rparr>"
      "RecordMem ''a'' ''r'' ''allow'' 3 5 (RecordMem ''b'' ''r'' ''deny'' 4 6 [])", THEN conjunct1]
  by (simp add: RecordMem_def emptyRow_def inQuery_def)

definition demoUsage :: usageEvent where
  "demoUsage = \<lparr>ev_tenant = ''a'', ev_route = ''r'', ev_decision = ''deny'', ev_bytes = 7, ev_time = 0\<rparr>"

definition usageScan :: "string \<Rightarrow> string + string list" where
  "usageScan p = Inr (filter (\<lambda>k. hasPrefix k p) [keyOf ''ps'' demoUsage])"

definition demoQuery :: usageQuery where
  "demoQuery = \<lparr>uq_Tenant = ''a'', uq_Start = 0, uq_End = 3600000000000, uq_Interval = IntervalHour, uq_GroupBy = [GroupByTenant]\<rparr>"

lemma demo_window: "filter (inWindow demoQuery) [demoUsage] = [demoUsage]"
  by (simp add: inWindow_def demoQuery_def demoUsage_def unixMinute_eq tenantMatches_def colonName_def orDefaultName_def)

lemma demo_keys: "k \<in> dom (fieldsAt 50 (recorded ''ps'' 100 [(5, demoUsage)])) \<Longrightarrow> k = keyOf ''ps'' demoUsage"
proof (rule ccontr)
  assume k: "k \<in> dom (fieldsAt 50 (recorded ''ps'' 100 [(5, demoUsage)]))" "k \<noteq> keyOf ''ps'' demoUsage"
  then have "recorded ''ps'' 100 [(5, demoUsage)] k = None" by (intro recorded_none) simp
  with k(1) show False by (simp add: fieldsAt_def dom_def)
qed

theorem redis_usage_counts_witness:
  "\<exists>res. QueryRedis usageScan rev ''ps'' demoQuery 50 (recorded ''ps'' 100 [(5, demoUsage)]) = Inr res
    \<and> sum_list (map rw_Count (us_Rows res)) = 1 \<and> sum_list (map rw_Bytes (us_Rows res)) = 7"
proof -
  have s: "scans usageScan 50 (recorded ''ps'' 100 [(5, demoUsage)])"
    using demo_keys by (auto simp: scans_def usageScan_def list_all_iff)
  have "\<forall>ts. distinct (scanned usageScan ''ps'' ts)" by (simp add: scanned_def usageScan_def)
  moreover have "map snd [(5 :: int, demoUsage)] = [demoUsage]" "ev_bytes demoUsage = 7" by (simp_all add: demoUsage_def)
  ultimately show ?thesis
    using redis_usage_counts [OF s, of rev demoQuery] demo_window by (auto simp: Let_def demoUsage_def demoQuery_def)
qed

text \<open>A scan that returns a key twice, as Redis may, doubles what the query reports.\<close>

lemma repeated_key_doubles:
  "\<exists>res. QueryRedis (\<lambda>p. Inr (concat (replicate 2 (filter (\<lambda>k. hasPrefix k p) [keyOf ''ps'' demoUsage])))) rev ''ps'' demoQuery 50
      (recorded ''ps'' 100 [(5, demoUsage)]) = Inr res
    \<and> sum_list (map rw_Count (us_Rows res)) = 2 \<and> sum_list (map rw_Bytes (us_Rows res)) = 14"
proof -
  let ?scan = "\<lambda>p. Inr (concat (replicate 2 (filter (\<lambda>k. hasPrefix k p) [keyOf ''ps'' demoUsage])))"
  have s: "scans ?scan 50 (recorded ''ps'' 100 [(5, demoUsage)])"
    using demo_keys by (auto simp: scans_def list_all_iff numeral_2_eq_2)
  have "hasPrefix (keyOf ''ps'' demoUsage) (''ps'' @ '':usage:'' @ itoa (unixMinute (ev_time demoUsage)) @ '':'')"
    by (subst keyOf_prefix) (simp_all add: demoUsage_def unixMinute_eq)
  then have "returned ?scan ''ps'' demoUsage = 2" by (simp add: returned_def scanned_def numeral_2_eq_2)
  moreover have "map snd [(5 :: int, demoUsage)] = [demoUsage]" "ev_bytes demoUsage = 7" by (simp_all add: demoUsage_def)
  ultimately show ?thesis
    using query_sums [OF s, of rev demoQuery] demo_window by (auto simp: demoUsage_def demoQuery_def)
qed

end
