(* ===== verification/Admin_API.thy ===== *)
theory Admin_API
  imports Tenant_Cache Assignment_Cache Go_Paths
begin

text \<open>
  The administrative HTTP API for tenants, assignments and audits
  (\<^verbatim>\<open>internal/interfaces/http/api/tenants.go\<close>, \<^verbatim>\<open>assignments.go\<close>, \<^verbatim>\<open>audits.go\<close>), its
  authentication (\<^verbatim>\<open>middleware.go\<close>), and the table of audit entries
  (\<^verbatim>\<open>postgres/audits.go\<close>). The handlers work on repositories given by their operations; both the
  plain and the cached ones of \<^verbatim>\<open>repository_factory.go\<close> are instances. What decoding the body
  yields, the clock, new identifiers and PostgreSQL's check of JSON are arguments. Of a reply, the
  metadata common to all is left out; of an audit entry, the fields that no handler sets. The table is
  the one the statements name: some of its columns are in no migration, and until they are, every
  audit statement fails.
\<close>

section \<open>Replies and authentication\<close>

datatype 'a httpReply =
    ErrorReply int string string "(string \<times> string) list"
  | OkReply int 'a
  | NoContent

text \<open>\<open>hdr\<close> gives the headers of the request; \<open>None\<close> lets it pass.\<close>

definition adminAuth :: "(string \<Rightarrow> string) \<Rightarrow> string \<Rightarrow> bool \<Rightarrow> (string \<Rightarrow> string) \<Rightarrow> 'a httpReply option" where
  "adminAuth lower adminToken allowInsecure hdr =
     (if adminToken = []
      then (if allowInsecure then None else Some (ErrorReply 401 ''UNAUTHORIZED'' ''admin token required'' []))
      else let tok = hdr ''Authorization'';
               tok = (if hasPrefix (lower tok) ''bearer '' then drop 7 tok else tok);
               tok = (if tok = [] then hdr ''X-PS-Admin-Token'' else tok)
           in if tok \<noteq> adminToken then Some (ErrorReply 401 ''UNAUTHORIZED'' ''invalid admin token'' []) else None)"

section \<open>The table of audit entries\<close>

record auditEntry =
  ad_ID :: uuid
  ad_TenantID :: "uuid option"
  ad_ActorID :: "uuid option"
  ad_ActorType :: string
  ad_ActorEmail :: string
  ad_Action :: string
  ad_ObjectType :: string
  ad_ObjectID :: uuid
  ad_Metadata :: "string option"
  ad_CreatedAt :: int

text \<open>
  \<^verbatim>\<open>INSERT\<close> leaves out the creation time, which the database sets; the identifier is the primary key,
  and the metadata must be JSON.
\<close>

definition CreateAudit :: "(string \<Rightarrow> bool) \<Rightarrow> string option \<Rightarrow> int \<Rightarrow> auditEntry \<Rightarrow> auditEntry list \<Rightarrow> auditEntry list \<times> string option" where
  "CreateAudit isJson dbErr t e rows =
     (case dbErr of
        Some x \<Rightarrow> (rows, Some (''create audit: '' @ x))
      | None \<Rightarrow>
          if ad_ID e \<in> set (map ad_ID rows) then (rows, Some ''create audit: duplicate key'')
          else if (case ad_Metadata e of None \<Rightarrow> False | Some m \<Rightarrow> \<not> isJson m) then (rows, Some ''create audit: invalid input syntax for type json'')
          else (rows @ [e\<lparr>ad_CreatedAt := t\<rparr>], None))"

definition auditLimit :: "int \<Rightarrow> int" where
  "auditLimit limit = (if limit \<le> 0 \<or> 1000 < limit then 100 else limit)"

text \<open>
  The errors of the count and of the listing are given with their wrapping. Entries of one time come in
  the order of insertion, which the query leaves open.
\<close>

definition listAudits :: "string option \<Rightarrow> (auditEntry \<Rightarrow> bool) \<Rightarrow> int \<Rightarrow> int \<Rightarrow> auditEntry list \<Rightarrow> string + auditEntry list \<times> nat" where
  "listAudits dbErr P offset limit rows =
     (case dbErr of
        Some e \<Rightarrow> Inl e
      | None \<Rightarrow>
          if offset < 0 then Inl ''OFFSET must not be negative''
          else Inr (take (nat (auditLimit limit)) (drop (nat offset) (sort_key (\<lambda>r. - ad_CreatedAt r) (filter P rows))),
                    length (filter P rows)))"

definition ListByTenantAudits :: "string option \<Rightarrow> uuid \<Rightarrow> int \<Rightarrow> int \<Rightarrow> auditEntry list \<Rightarrow> string + auditEntry list \<times> nat" where
  "ListByTenantAudits dbErr t offset limit rows = listAudits dbErr (\<lambda>r. ad_TenantID r = Some t) offset limit rows"

definition ListByObjectAudits :: "string option \<Rightarrow> string \<Rightarrow> uuid \<Rightarrow> int \<Rightarrow> int \<Rightarrow> auditEntry list \<Rightarrow> string + auditEntry list \<times> nat" where
  "ListByObjectAudits dbErr ty i offset limit rows =
     listAudits dbErr (\<lambda>r. ad_ObjectType r = ty \<and> ad_ObjectID r = i) offset limit rows"

definition ListByActionAudits :: "string option \<Rightarrow> string \<Rightarrow> int \<Rightarrow> int \<Rightarrow> auditEntry list \<Rightarrow> string + auditEntry list \<times> nat" where
  "ListByActionAudits dbErr act offset limit rows = listAudits dbErr (\<lambda>r. ad_Action r = act) offset limit rows"

definition GetAudit :: "string option \<Rightarrow> uuid \<Rightarrow> auditEntry list \<Rightarrow> string + auditEntry" where
  "GetAudit dbErr i rows =
     (case dbErr of
        Some e \<Rightarrow> Inl (''get audit: '' @ e)
      | None \<Rightarrow> (case find (\<lambda>r. ad_ID r = i) rows of None \<Rightarrow> Inl ''get audit: no rows in result set'' | Some r \<Rightarrow> Inr r))"

section \<open>Repositories\<close>

record 's tenantOps =
  to_Create :: "tenant \<Rightarrow> 's \<Rightarrow> 's \<times> string option"
  to_Get :: "uuid \<Rightarrow> 's \<Rightarrow> 's \<times> (string + tenant)"
  to_GetByName :: "string \<Rightarrow> 's \<Rightarrow> 's \<times> (string + tenant)"
  to_List :: "int \<Rightarrow> int \<Rightarrow> 's \<Rightarrow> string + tenant list \<times> nat"
  to_Delete :: "uuid \<Rightarrow> 's \<Rightarrow> 's \<times> string option"

record 's assignOps =
  ao_Create :: "assignment \<Rightarrow> 's \<Rightarrow> 's \<times> string option"
  ao_Get :: "uuid \<Rightarrow> 's \<Rightarrow> 's \<times> (string + assignment)"
  ao_ListByTenant :: "uuid \<Rightarrow> 's \<Rightarrow> 's \<times> (string + assignment list)"
  ao_ListByScope :: "uuid \<Rightarrow> string \<Rightarrow> 's \<Rightarrow> 's \<times> (string + assignment list)"
  ao_Update :: "assignment \<Rightarrow> 's \<Rightarrow> 's \<times> string option"
  ao_Delete :: "uuid \<Rightarrow> 's \<Rightarrow> 's \<times> string option"

text \<open>The plain and the cached repositories, with a database that answers.\<close>

definition pgTenants :: "int \<Rightarrow> uuid \<Rightarrow> (tenant list \<Rightarrow> tenant list) \<Rightarrow> tenant list tenantOps" where
  "pgTenants t new byName =
     \<lparr>to_Create = (\<lambda>a rows. case pgCreateTenant None new t a rows of (rows', a1, e) \<Rightarrow> (rows', e)),
      to_Get = (\<lambda>i rows. (rows, pgTenant None i rows)),
      to_GetByName = (\<lambda>n rows. (rows, pgTenantByName None n rows)),
      to_List = (\<lambda>off lim rows. ListTenants None None byName off lim rows),
      to_Delete = (\<lambda>i rows. pgDeleteTenant None i rows)\<rparr>"

definition redisTenants :: "redisEnv \<Rightarrow> uuid \<Rightarrow> (tenant list \<Rightarrow> tenant list) \<Rightarrow> tenantCache tenantOps" where
  "redisTenants E new byName =
     \<lparr>to_Create = CreateTenant E None new, to_Get = GetTenant E None, to_GetByName = GetTenantByName E None,
      to_List = (\<lambda>off lim s. ListTenants None None byName off lim (nc_rows s)), to_Delete = DeleteTenant E None None\<rparr>"

definition pgAssignments :: "int \<Rightarrow> uuid \<Rightarrow> (assignment list \<Rightarrow> assignment list) \<Rightarrow> assignment list assignOps" where
  "pgAssignments t new ord =
     \<lparr>ao_Create = (\<lambda>a rows. case pgCreate None new t a rows of (rows', a1, e) \<Rightarrow> (rows', e)),
      ao_Get = (\<lambda>i rows. (rows, pgGet None i rows)),
      ao_ListByTenant = (\<lambda>tn rows. (rows, pgSelect None ord (ofTenant tn) rows)),
      ao_ListByScope = (\<lambda>tn sc rows. (rows, pgSelect None ord (ofScope tn sc) rows)),
      ao_Update = (\<lambda>a rows. case pgUpdate None t a rows of (rows', a1, e) \<Rightarrow> (rows', e)),
      ao_Delete = pgDelete None\<rparr>"

section \<open>State of the API\<close>

record ('t, 'a) adminOpt =
  op_Tenants :: "'t tenantOps option"
  op_Assignments :: "'a assignOps option"
  op_Audit :: bool

record ('t, 'a) adminState =
  am_tenants :: 't
  am_assignments :: 'a
  am_audits :: "auditEntry list"

record adminEnv =
  av_now :: int
  av_new :: uuid
  av_newAudit :: uuid
  av_parse :: "string \<Rightarrow> uuid option"
  av_show :: "uuid \<Rightarrow> string"
  av_isJson :: "string \<Rightarrow> bool"
  av_auditErr :: "string option"
  av_lower :: "string \<Rightarrow> string"
  av_fold :: "string \<Rightarrow> string \<Rightarrow> bool"
  av_listErr :: "string option"

text \<open>The error of the audit entry is ignored.\<close>

definition auditLog :: "('t, 'a) adminOpt \<Rightarrow> adminEnv \<Rightarrow> auditEntry \<Rightarrow> ('t, 'a) adminState \<Rightarrow> ('t, 'a) adminState" where
  "auditLog opt V e s =
     (if op_Audit opt then s\<lparr>am_audits := fst (CreateAudit (av_isJson V) (av_auditErr V) (av_now V) e (am_audits s))\<rparr> else s)"

definition auditOf :: "string \<Rightarrow> string \<Rightarrow> uuid \<Rightarrow> string option \<Rightarrow> int \<Rightarrow> auditEntry" where
  "auditOf act ty obj meta t =
     \<lparr>ad_ID = 0, ad_TenantID = None, ad_ActorID = None, ad_ActorType = [], ad_ActorEmail = [], ad_Action = act, ad_ObjectType = ty,
      ad_ObjectID = obj, ad_Metadata = meta, ad_CreatedAt = t\<rparr>"

definition nameMeta :: "string \<Rightarrow> string" where
  "nameMeta n = ''{'' @ [CHR 0x22] @ ''name'' @ [CHR 0x22] @ '':'' @ [CHR 0x22] @ n @ [CHR 0x22] @ ''}''"

section \<open>Tenant handlers\<close>

definition noTenantRepo :: "'r httpReply" where
  "noTenantRepo = ErrorReply 501 ''NOT_IMPLEMENTED'' ''domain.Tenant management not configured'' []"

definition createTenantHandler :: "('t, 'a) adminOpt \<Rightarrow> adminEnv \<Rightarrow> string + string \<Rightarrow> ('t, 'a) adminState \<Rightarrow> ('t, 'a) adminState \<times> tenant httpReply" where
  "createTenantHandler opt V body s =
     (case op_Tenants opt of
        None \<Rightarrow> (s, noTenantRepo)
      | Some R \<Rightarrow>
          (case body of
             Inl e \<Rightarrow> (s, ErrorReply 400 ''INVALID_REQUEST'' ''Invalid request body'' [(''error'', e)])
           | Inr n \<Rightarrow>
               if n = [] then (s, ErrorReply 400 ''INVALID_ARGUMENT'' ''domain.Tenant name is required'' [])
               else (case to_GetByName R n (am_tenants s) of
                       (ts, Inr x) \<Rightarrow>
                         (s\<lparr>am_tenants := ts\<rparr>, ErrorReply 409 ''ALREADY_EXISTS'' ''domain.Tenant with this name already exists'' [(''name'', n)])
                     | (ts, Inl e) \<Rightarrow>
                         let tenant = \<lparr>tn_ID = av_new V, tn_Name = n, tn_Status = ''active'', tn_Metadata = ''null'',
                                       tn_CreatedAt = av_now V, tn_UpdatedAt = av_now V\<rparr>
                         in case to_Create R tenant ts of
                              (ts1, Some err) \<Rightarrow>
                                (s\<lparr>am_tenants := ts1\<rparr>, ErrorReply 500 ''INTERNAL_ERROR'' ''Failed to create tenant'' [(''error'', err)])
                            | (ts1, None) \<Rightarrow>
                                (auditLog opt V (auditOf ''tenant.create'' ''tenant'' (tn_ID tenant) (Some (nameMeta n)) (av_now V))
                                   (s\<lparr>am_tenants := ts1\<rparr>), OkReply 201 tenant))))"

definition listTenantsHandler :: "('t, 'a) adminOpt \<Rightarrow> ('t, 'a) adminState \<Rightarrow> tenant list httpReply" where
  "listTenantsHandler opt s =
     (case op_Tenants opt of
        None \<Rightarrow> noTenantRepo
      | Some R \<Rightarrow>
          (case to_List R 0 100 (am_tenants s) of
             Inl e \<Rightarrow> ErrorReply 500 ''INTERNAL_ERROR'' ''Failed to list tenants'' [(''error'', e)]
           | Inr (ts, n) \<Rightarrow> OkReply 200 ts))"

definition withTenant :: "('t, 'a) adminOpt \<Rightarrow> adminEnv \<Rightarrow> string \<Rightarrow> ('t, 'a) adminState
    \<Rightarrow> ('t tenantOps \<Rightarrow> uuid \<Rightarrow> ('t, 'a) adminState \<times> 'r httpReply) \<Rightarrow> ('t, 'a) adminState \<times> 'r httpReply" where
  "withTenant opt V idStr s k =
     (case op_Tenants opt of
        None \<Rightarrow> (s, noTenantRepo)
      | Some R \<Rightarrow>
          (case av_parse V idStr of
             None \<Rightarrow> (s, ErrorReply 400 ''INVALID_ARGUMENT'' ''Invalid tenant ID format'' [(''id'', idStr)])
           | Some i \<Rightarrow> k R i))"

definition getTenantHandler :: "('t, 'a) adminOpt \<Rightarrow> adminEnv \<Rightarrow> string \<Rightarrow> ('t, 'a) adminState \<Rightarrow> ('t, 'a) adminState \<times> tenant httpReply" where
  "getTenantHandler opt V idStr s =
     withTenant opt V idStr s (\<lambda>R i.
       case to_Get R i (am_tenants s) of
         (ts, Inl e) \<Rightarrow> (s\<lparr>am_tenants := ts\<rparr>, ErrorReply 404 ''NOT_FOUND'' ''domain.Tenant not found'' [(''id'', av_show V i)])
       | (ts, Inr t) \<Rightarrow> (s\<lparr>am_tenants := ts\<rparr>, OkReply 200 t))"

definition updateTenantHandler :: "('t, 'a) adminOpt \<Rightarrow> adminEnv \<Rightarrow> string \<Rightarrow> string + string \<Rightarrow> ('t, 'a) adminState
    \<Rightarrow> ('t, 'a) adminState \<times> tenant httpReply" where
  "updateTenantHandler opt V idStr body s =
     withTenant opt V idStr s (\<lambda>R i.
       case body of
         Inl e \<Rightarrow> (s, ErrorReply 400 ''INVALID_REQUEST'' ''Invalid request body'' [(''error'', e)])
       | Inr n \<Rightarrow>
           (case to_Get R i (am_tenants s) of
              (ts, Inl e) \<Rightarrow> (s\<lparr>am_tenants := ts\<rparr>, ErrorReply 404 ''NOT_FOUND'' ''domain.Tenant not found'' [(''id'', av_show V i)])
            | (ts, Inr tenant) \<Rightarrow>
                let done = (\<lambda>ts t. (auditLog opt V (auditOf ''tenant.update'' ''tenant'' (tn_ID t) (Some (nameMeta n)) (av_now V))
                                      (s\<lparr>am_tenants := ts\<rparr>), OkReply 200 t))
                in if n \<noteq> [] \<and> n \<noteq> tn_Name tenant
                   then (case to_GetByName R n ts of
                           (ts1, found) \<Rightarrow>
                             if (case found of Inl e \<Rightarrow> False | Inr x \<Rightarrow> tn_ID x \<noteq> i)
                             then (s\<lparr>am_tenants := ts1\<rparr>,
                                   ErrorReply 409 ''ALREADY_EXISTS'' ''domain.Tenant with this name already exists'' [(''name'', n)])
                             else done ts1 (tenant\<lparr>tn_Name := n, tn_UpdatedAt := av_now V\<rparr>))
                   else done ts tenant))"

definition deleteTenantHandler :: "('t, 'a) adminOpt \<Rightarrow> adminEnv \<Rightarrow> string \<Rightarrow> ('t, 'a) adminState \<Rightarrow> ('t, 'a) adminState \<times> tenant httpReply" where
  "deleteTenantHandler opt V idStr s =
     withTenant opt V idStr s (\<lambda>R i.
       case to_Get R i (am_tenants s) of
         (ts, Inl e) \<Rightarrow> (s\<lparr>am_tenants := ts\<rparr>, ErrorReply 404 ''NOT_FOUND'' ''Tenant not found'' [(''id'', av_show V i)])
       | (ts, Inr t) \<Rightarrow>
           (case to_Delete R i ts of
              (ts1, Some e) \<Rightarrow> (s\<lparr>am_tenants := ts1\<rparr>, ErrorReply 500 ''INTERNAL_ERROR'' ''Failed to delete tenant'' [(''error'', e)])
            | (ts1, None) \<Rightarrow>
                (auditLog opt V (auditOf ''tenant.delete'' ''tenant'' (tn_ID t) None (av_now V)) (s\<lparr>am_tenants := ts1\<rparr>), NoContent)))"

section \<open>Assignment handlers\<close>

definition noAssignRepo :: "'r httpReply" where
  "noAssignRepo = ErrorReply 501 ''NOT_IMPLEMENTED'' ''Assignment management not configured'' []"

record assignReq =
  rq_RulepackID :: uuid
  rq_TargetScope :: string
  rq_Priority :: int

definition withAssign :: "('t, 'a) adminOpt \<Rightarrow> adminEnv \<Rightarrow> string \<Rightarrow> string \<Rightarrow> ('t, 'a) adminState
    \<Rightarrow> ('a assignOps \<Rightarrow> uuid \<Rightarrow> ('t, 'a) adminState \<times> 'r httpReply) \<Rightarrow> ('t, 'a) adminState \<times> 'r httpReply" where
  "withAssign opt V msg idStr s k =
     (case op_Assignments opt of
        None \<Rightarrow> (s, noAssignRepo)
      | Some R \<Rightarrow>
          (case av_parse V idStr of
             None \<Rightarrow> (s, ErrorReply 400 ''INVALID_ARGUMENT'' msg [(''id'', idStr)])
           | Some i \<Rightarrow> k R i))"

text \<open>The metadata is a marshalled map, always JSON; \<open>meta\<close> is its text.\<close>

definition createAssignmentHandler :: "('t, 'a) adminOpt \<Rightarrow> adminEnv \<Rightarrow> string \<Rightarrow> string \<Rightarrow> string + assignReq \<Rightarrow> ('t, 'a) adminState
    \<Rightarrow> ('t, 'a) adminState \<times> assignment httpReply" where
  "createAssignmentHandler opt V meta idStr body s =
     withAssign opt V ''Invalid tenant ID format'' idStr s (\<lambda>R i.
       case body of
         Inl e \<Rightarrow> (s, ErrorReply 400 ''INVALID_REQUEST'' ''Invalid request body'' [(''error'', e)])
       | Inr req \<Rightarrow>
           if rq_RulepackID req = 0 then (s, ErrorReply 400 ''INVALID_ARGUMENT'' ''Rulepack ID is required'' [])
           else let scope = (if rq_TargetScope req = [] then ''*'' else rq_TargetScope req);
                    prio = (if rq_Priority req = 0 then 100 else rq_Priority req);
                    (ts, missing) = (case op_Tenants opt of
                                       None \<Rightarrow> (am_tenants s, False)
                                     | Some T \<Rightarrow> (case to_Get T i (am_tenants s) of (ts, Inl e) \<Rightarrow> (ts, True) | (ts, Inr t) \<Rightarrow> (ts, False)));
                    s1 = s\<lparr>am_tenants := ts\<rparr>
                in if missing then (s1, ErrorReply 404 ''TENANT_NOT_FOUND'' ''Tenant not found'' [(''tenant_id'', av_show V i)])
                   else let a = \<lparr>as_ID = av_new V, as_TenantID = i, as_PolicyID = rq_RulepackID req, as_TargetScope = scope, as_Priority = prio,
                                 as_Enabled = True, as_CreatedAt = av_now V, as_UpdatedAt = av_now V\<rparr>
                        in case ao_Create R a (am_assignments s1) of
                             (as1, Some err) \<Rightarrow>
                               (s1\<lparr>am_assignments := as1\<rparr>, ErrorReply 500 ''INTERNAL_ERROR'' ''Failed to create assignment'' [(''error'', err)])
                           | (as1, None) \<Rightarrow>
                               (auditLog opt V ((auditOf ''assignment.create'' ''assignment'' (as_ID a) (Some meta) (av_now V))
                                    \<lparr>ad_ID := av_newAudit V, ad_TenantID := Some i\<rparr>) (s1\<lparr>am_assignments := as1\<rparr>), OkReply 201 a))"

definition listAssignmentsHandler :: "('t, 'a) adminOpt \<Rightarrow> adminEnv \<Rightarrow> string \<Rightarrow> string \<Rightarrow> ('t, 'a) adminState
    \<Rightarrow> ('t, 'a) adminState \<times> assignment list httpReply" where
  "listAssignmentsHandler opt V idStr scope s =
     withAssign opt V ''Invalid tenant ID format'' idStr s (\<lambda>R i.
       case (if scope \<noteq> [] then ao_ListByScope R i scope (am_assignments s) else ao_ListByTenant R i (am_assignments s)) of
         (as1, Inl e) \<Rightarrow> (s\<lparr>am_assignments := as1\<rparr>, ErrorReply 500 ''INTERNAL_ERROR'' ''Failed to list assignments'' [(''error'', e)])
       | (as1, Inr l) \<Rightarrow> (s\<lparr>am_assignments := as1\<rparr>, OkReply 200 l))"

definition updateAssignmentHandler :: "('t, 'a) adminOpt \<Rightarrow> adminEnv \<Rightarrow> string \<Rightarrow> string \<Rightarrow> string + int \<Rightarrow> ('t, 'a) adminState
    \<Rightarrow> ('t, 'a) adminState \<times> int httpReply" where
  "updateAssignmentHandler opt V meta idStr body s =
     withAssign opt V ''Invalid assignment ID format'' idStr s (\<lambda>R i.
       case body of
         Inl e \<Rightarrow> (s, ErrorReply 400 ''INVALID_REQUEST'' ''Invalid request body'' [(''error'', e)])
       | Inr prio \<Rightarrow>
           if prio < 0 then (s, ErrorReply 400 ''INVALID_ARGUMENT'' ''Priority must be non-negative'' [(''priority'', itoa prio)])
           else (case ao_Get R i (am_assignments s) of
                   (as1, Inl e) \<Rightarrow>
                     (s\<lparr>am_assignments := as1\<rparr>, ErrorReply 404 ''ASSIGNMENT_NOT_FOUND'' ''Assignment not found'' [(''assignment_id'', av_show V i)])
                 | (as1, Inr a) \<Rightarrow>
                     (case ao_Update R (a\<lparr>as_Priority := prio, as_UpdatedAt := av_now V\<rparr>) as1 of
                        (as2, Some err) \<Rightarrow>
                          (s\<lparr>am_assignments := as2\<rparr>, ErrorReply 500 ''INTERNAL_ERROR'' ''Failed to update assignment'' [(''error'', err)])
                      | (as2, None) \<Rightarrow>
                          (auditLog opt V (auditOf ''assignment.update'' ''assignment'' i (Some meta) (av_now V)) (s\<lparr>am_assignments := as2\<rparr>),
                           OkReply 200 prio))))"

definition deleteAssignmentHandler :: "('t, 'a) adminOpt \<Rightarrow> adminEnv \<Rightarrow> string \<Rightarrow> ('t, 'a) adminState \<Rightarrow> ('t, 'a) adminState \<times> int httpReply" where
  "deleteAssignmentHandler opt V idStr s =
     withAssign opt V ''Invalid assignment ID format'' idStr s (\<lambda>R i.
       case ao_Delete R i (am_assignments s) of
         (as1, Some err) \<Rightarrow>
           (s\<lparr>am_assignments := as1\<rparr>,
            if err = ''assignment not found'' then ErrorReply 404 ''NOT_FOUND'' ''Assignment not found'' [(''id'', av_show V i)]
            else ErrorReply 500 ''INTERNAL_ERROR'' ''Failed to delete assignment'' [(''error'', err)])
       | (as1, None) \<Rightarrow>
           (auditLog opt V (auditOf ''assignment.delete'' ''assignment'' i None (av_now V)) (s\<lparr>am_assignments := as1\<rparr>), NoContent))"

section \<open>Audit handlers\<close>

record auditReq =
  ar_TenantID :: "uuid option"
  ar_ActorID :: "uuid option"
  ar_ActorEmail :: string
  ar_Actions :: "string list"
  ar_ObjectTypes :: "string list"
  ar_ObjectID :: "uuid option"
  ar_StartTime :: "int option"
  ar_EndTime :: "int option"
  ar_Limit :: int
  ar_Offset :: int

record auditPage =
  ap_Events :: "auditEntry list"
  ap_HasMore :: bool
  ap_Limit :: int
  ap_Offset :: int

definition noAuditRepo :: "'r httpReply" where
  "noAuditRepo = ErrorReply 501 ''NOT_IMPLEMENTED'' ''Audit management not configured'' []"

definition pageOf :: "int \<Rightarrow> int \<Rightarrow> auditEntry list \<Rightarrow> auditPage" where
  "pageOf limit offset es = \<lparr>ap_Events = es, ap_HasMore = (int (length es) = limit), ap_Limit = limit, ap_Offset = offset\<rparr>"

text \<open>The limit of the query, if it is a number between one and the highest allowed.\<close>

definition limitParam :: "int \<Rightarrow> int \<Rightarrow> string \<Rightarrow> int" where
  "limitParam def hi s =
     (case atoi s of None \<Rightarrow> def | Some l \<Rightarrow> if s \<noteq> [] \<and> 0 < l \<and> l \<le> hi then l else def)"

text \<open>No tenant and the nil tenant give no events.\<close>

definition tenantParam :: "adminEnv \<Rightarrow> string \<Rightarrow> uuid option" where
  "tenantParam V s = (if s = [] then Some 0 else av_parse V s)"

definition tenantEvents :: "adminEnv \<Rightarrow> uuid \<Rightarrow> int \<Rightarrow> auditEntry list \<Rightarrow> string + auditEntry list" where
  "tenantEvents V t limit rows =
     (if t = 0 then Inr [] else map_sum (\<lambda>e. e) fst (ListByTenantAudits (av_listErr V) t 0 limit rows))"

definition listAuditEventsHandler :: "('t, 'a) adminOpt \<Rightarrow> adminEnv \<Rightarrow> string \<Rightarrow> string \<Rightarrow> ('t, 'a) adminState \<Rightarrow> auditPage httpReply" where
  "listAuditEventsHandler opt V tenant limitStr s =
     (if \<not> op_Audit opt then noAuditRepo
      else case tenantParam V tenant of
             None \<Rightarrow> ErrorReply 400 ''INVALID_ARGUMENT'' ''Invalid tenant ID format'' [(''tenant_id'', tenant)]
           | Some t \<Rightarrow>
               let limit = limitParam 100 1000 limitStr
               in case tenantEvents V t limit (am_audits s) of
                    Inl e \<Rightarrow> ErrorReply 500 ''INTERNAL_ERROR'' ''Failed to retrieve audit events'' [(''error'', e)]
                  | Inr es \<Rightarrow> OkReply 200 (pageOf limit 0 es))"

definition matchesReq :: "adminEnv \<Rightarrow> auditReq \<Rightarrow> auditEntry \<Rightarrow> bool" where
  "matchesReq V req e \<longleftrightarrow>
     \<not> (ar_ActorID req \<noteq> None \<and> ad_ActorID e \<noteq> ar_ActorID req)
     \<and> \<not> (ar_ActorEmail req \<noteq> [] \<and> \<not> strContains (av_lower V (ad_ActorEmail e)) (av_lower V (ar_ActorEmail req)))
     \<and> (ar_Actions req = [] \<or> list_ex (av_fold V (ad_Action e)) (ar_Actions req))
     \<and> (ar_ObjectTypes req = [] \<or> list_ex (av_fold V (ad_ObjectType e)) (ar_ObjectTypes req))
     \<and> \<not> (case ar_StartTime req of None \<Rightarrow> False | Some t \<Rightarrow> ad_CreatedAt e < t)
     \<and> \<not> (case ar_EndTime req of None \<Rightarrow> False | Some t \<Rightarrow> t < ad_CreatedAt e)"

definition filterAuditEvents :: "adminEnv \<Rightarrow> auditReq \<Rightarrow> auditEntry list \<Rightarrow> auditEntry list" where
  "filterAuditEvents V req es =
     (let filtered = filter (matchesReq V req) es;
          start = nat (ar_Offset req)
      in if length filtered < start then []
         else let stop = min (start + nat (ar_Limit req)) (length filtered) in take (stop - start) (drop start filtered))"

definition boundReq :: "auditReq \<Rightarrow> auditReq" where
  "boundReq r = r\<lparr>ar_Limit := (if ar_Limit r \<le> 0 \<or> 1000 < ar_Limit r then 100 else ar_Limit r),
                 ar_Offset := (if ar_Offset r < 0 then 0 else ar_Offset r)\<rparr>"

definition searchRows :: "adminEnv \<Rightarrow> auditReq \<Rightarrow> auditEntry list \<Rightarrow> string + auditEntry list" where
  "searchRows V req rows =
     (case ar_TenantID req of
        Some t \<Rightarrow> map_sum (\<lambda>e. e) fst (ListByTenantAudits (av_listErr V) t 0 (ar_Limit req) rows)
      | None \<Rightarrow>
          (case (ar_ObjectID req, ar_ObjectTypes req) of
             (Some i, ty # tys) \<Rightarrow> map_sum (\<lambda>e. e) fst (ListByObjectAudits (av_listErr V) ty i 0 (ar_Limit req) rows)
           | _ \<Rightarrow> Inr []))"

definition searchAuditEventsHandler :: "('t, 'a) adminOpt \<Rightarrow> adminEnv \<Rightarrow> string + auditReq \<Rightarrow> ('t, 'a) adminState \<Rightarrow> auditPage httpReply" where
  "searchAuditEventsHandler opt V body s =
     (if \<not> op_Audit opt then noAuditRepo
      else case body of
             Inl e \<Rightarrow> ErrorReply 400 ''INVALID_REQUEST'' ''Invalid request body'' [(''error'', e)]
           | Inr r \<Rightarrow>
               let req = boundReq r
               in if (case (ar_StartTime req, ar_EndTime req) of (Some a, Some b) \<Rightarrow> b < a | _ \<Rightarrow> False)
                  then ErrorReply 400 ''INVALID_ARGUMENT'' ''End time must be after start time'' []
                  else case searchRows V req (am_audits s) of
                         Inl e \<Rightarrow> ErrorReply 500 ''INTERNAL_ERROR'' ''Failed to search audit events'' [(''error'', e)]
                       | Inr es \<Rightarrow> OkReply 200 (pageOf (ar_Limit req) (ar_Offset req) (filterAuditEvents V req es)))"

text \<open>An export: its format and its events, and then how they are written.\<close>

definition exportAuditEventsHandler :: "('t, 'a) adminOpt \<Rightarrow> adminEnv \<Rightarrow> string \<Rightarrow> string \<Rightarrow> string \<Rightarrow> ('t, 'a) adminState
    \<Rightarrow> (string \<times> auditEntry list) httpReply" where
  "exportAuditEventsHandler opt V formatStr tenant limitStr s =
     (if \<not> op_Audit opt then noAuditRepo
      else let fmt = (if formatStr = [] then ''json'' else formatStr)
           in if fmt \<noteq> ''json'' \<and> fmt \<noteq> ''csv''
              then ErrorReply 400 ''INVALID_ARGUMENT'' ''Unsupported export format'' [(''format'', fmt), (''supported'', ''json,csv'')]
              else case tenantParam V tenant of
                     None \<Rightarrow> ErrorReply 400 ''INVALID_ARGUMENT'' ''Invalid tenant ID format'' [(''tenant_id'', tenant)]
                   | Some t \<Rightarrow>
                       (case tenantEvents V t (limitParam 10000 50000 limitStr) (am_audits s) of
                          Inl e \<Rightarrow> ErrorReply 500 ''INTERNAL_ERROR'' ''Failed to export audit events'' [(''error'', e)]
                        | Inr es \<Rightarrow> OkReply 200 (fmt, es)))"

text \<open>The export as CSV; \<open>fmtTime\<close> is the time in its usual form, and the JSON form is left to the encoder.\<close>

definition csvFields :: "(int \<Rightarrow> string) \<Rightarrow> adminEnv \<Rightarrow> auditEntry \<Rightarrow> string list" where
  "csvFields fmtTime V e =
     [fmtTime (ad_CreatedAt e), ad_Action e, ad_ObjectType e, av_show V (ad_ObjectID e), ad_ActorEmail e,
      case ad_TenantID e of None \<Rightarrow> [] | Some t \<Rightarrow> av_show V t]"

definition csvHeader :: "string list" where
  "csvHeader = [''timestamp'', ''action'', ''object_type'', ''object_id'', ''actor_email'', ''tenant_id'']"

definition csvLine :: "string list \<Rightarrow> string" where
  "csvLine fs = strJoin '','' fs @ [CHR 0x0A]"

definition csvExport :: "(int \<Rightarrow> string) \<Rightarrow> adminEnv \<Rightarrow> auditEntry list \<Rightarrow> string" where
  "csvExport fmtTime V es = csvLine csvHeader @ concat (map (\<lambda>e. csvLine (csvFields fmtTime V e)) es)"

definition getAuditEventsByObjectHandler :: "('t, 'a) adminOpt \<Rightarrow> adminEnv \<Rightarrow> string \<Rightarrow> string \<Rightarrow> string \<Rightarrow> ('t, 'a) adminState
    \<Rightarrow> auditPage httpReply" where
  "getAuditEventsByObjectHandler opt V ty idStr limitStr s =
     (if \<not> op_Audit opt then noAuditRepo
      else if ty = [] then ErrorReply 400 ''INVALID_ARGUMENT'' ''Object type is required'' []
      else case av_parse V idStr of
             None \<Rightarrow> ErrorReply 400 ''INVALID_ARGUMENT'' ''Invalid object ID format'' [(''object_id'', idStr)]
           | Some i \<Rightarrow>
               let limit = limitParam 100 1000 limitStr
               in case ListByObjectAudits (av_listErr V) ty i 0 limit (am_audits s) of
                    Inl e \<Rightarrow> ErrorReply 500 ''INTERNAL_ERROR'' ''Failed to retrieve audit events for object'' [(''error'', e)]
                  | Inr (es, n) \<Rightarrow> OkReply 200 (pageOf limit 0 es))"

section \<open>Authentication\<close>

text \<open>
  The administrative routes are closed by default: a request passes exactly if a token is
  configured and the request presents it, in the authorization header, with or without the bearer
  scheme, or in its own header when the first holds none; or if no token is configured and insecure
  access was allowed.
\<close>

lemma admin_auth_iff:
  "adminAuth lower adminToken allowInsecure hdr = None \<longleftrightarrow>
     (if adminToken = [] then allowInsecure
      else adminToken \<in> {hdr ''Authorization'', drop 7 (hdr ''Authorization''), hdr ''X-PS-Admin-Token''}
        \<and> adminToken = (let tok = (if hasPrefix (lower (hdr ''Authorization'')) ''bearer '' then drop 7 (hdr ''Authorization'') else hdr ''Authorization'')
                         in if tok = [] then hdr ''X-PS-Admin-Token'' else tok))"
  by (auto simp: adminAuth_def Let_def)

section \<open>Tenants\<close>

definition plain :: "int \<Rightarrow> uuid \<Rightarrow> (tenant list \<Rightarrow> tenant list) \<Rightarrow> (assignment list \<Rightarrow> assignment list) \<Rightarrow> bool
    \<Rightarrow> (tenant list, assignment list) adminOpt" where
  "plain t new byName ord audit = \<lparr>op_Tenants = Some (pgTenants t new byName), op_Assignments = Some (pgAssignments t new ord), op_Audit = audit\<rparr>"

lemma auditLog_keeps [simp]: "am_tenants (auditLog opt V e s) = am_tenants s" "am_assignments (auditLog opt V e s) = am_assignments s"
  by (simp_all add: auditLog_def)

text \<open>
  Updating a tenant updates nothing: whatever the request, the table of tenants stays as it is,
  while a new name that is free is answered with a renamed tenant and status 200.
\<close>

theorem tenant_update_not_stored:
  "am_tenants (fst (updateTenantHandler (plain t new byName ord audit) V idStr body s)) = am_tenants s
   \<and> (av_parse V idStr = Some (tn_ID r) \<and> pgTenant None (tn_ID r) (am_tenants s) = Inr r \<and> body = Inr n \<and> n \<noteq> [] \<and> n \<noteq> tn_Name r
        \<and> n \<notin> set (map tn_Name (am_tenants s))
      \<longrightarrow> snd (updateTenantHandler (plain t new byName ord audit) V idStr body s) = OkReply 200 (r\<lparr>tn_Name := n, tn_UpdatedAt := av_now V\<rparr>))"
proof -
  have "find (\<lambda>q. tn_Name q = n) (am_tenants s) = None" if "n \<notin> set (map tn_Name (am_tenants s))"
    using that by (auto simp: find_None_iff)
  then show ?thesis
    by (auto simp: updateTenantHandler_def withTenant_def plain_def pgTenants_def pgTenantByName_def Let_def split: option.splits sum.splits)
qed

text \<open>Names stay unique, since the table refuses a second tenant with the name.\<close>

lemma pgCreateTenant_distinct:
  "distinct (map tn_Name rows) \<Longrightarrow> distinct (map tn_Name (fst (pgCreateTenant dbErr new t a rows)))"
  by (auto simp: pgCreateTenant_def Let_def split: option.splits)

lemma pgDeleteTenant_distinct:
  "distinct (map tn_Name rows) \<Longrightarrow> distinct (map tn_Name (fst (pgDeleteTenant dbErr i rows)))"
  by (auto simp: pgDeleteTenant_def Let_def distinct_map_filter split: option.splits)

lemma createTenant_rows:
  "am_tenants (fst (createTenantHandler (plain t new byName ord audit) V body s)) = am_tenants s
   \<or> (\<exists>a. am_tenants (fst (createTenantHandler (plain t new byName ord audit) V body s)) = fst (pgCreateTenant None new t a (am_tenants s)))"
  by (auto simp: createTenantHandler_def plain_def pgTenants_def Let_def split: option.splits sum.splits prod.splits)
     (metis fst_conv)+

lemma deleteTenant_rows:
  "am_tenants (fst (deleteTenantHandler (plain t new byName ord audit) V idStr s)) = am_tenants s
   \<or> (\<exists>i. am_tenants (fst (deleteTenantHandler (plain t new byName ord audit) V idStr s)) = fst (pgDeleteTenant None i (am_tenants s)))"
  by (auto simp: deleteTenantHandler_def withTenant_def plain_def pgTenants_def Let_def split: option.splits sum.splits prod.splits)
     (metis fst_conv)+

lemma tenant_names_distinct:
  assumes "distinct (map tn_Name (am_tenants s))"
  shows "distinct (map tn_Name (am_tenants (fst (createTenantHandler (plain t new byName ord audit) V body s))))"
    "distinct (map tn_Name (am_tenants (fst (deleteTenantHandler (plain t new byName ord audit) V idStr s))))"
  using createTenant_rows [of t new byName ord audit V body s] deleteTenant_rows [of t new byName ord audit V idStr s]
    pgCreateTenant_distinct [OF assms] pgDeleteTenant_distinct [OF assms] assms by metis+

section \<open>Audit entries\<close>

lemma auditLog_duplicate: "0 \<in> set (map ad_ID (am_audits s)) \<Longrightarrow> am_audits (auditLog opt V (auditOf act ty obj m t) s) = am_audits s"
  by (simp add: auditLog_def CreateAudit_def auditOf_def split: option.splits)

text \<open>
  Only the first of these changes leaves an audit entry: the handlers store their entries under the
  nil identifier, so once one is stored the table refuses every further one, the error is ignored,
  and tenants are created, renamed and deleted and assignments changed and deleted without a trace.
\<close>

theorem audit_entry_lost:
  assumes "0 \<in> set (map ad_ID (am_audits s))"
  shows "am_audits (fst (createTenantHandler opt V body s)) = am_audits s
    \<and> am_audits (fst (updateTenantHandler opt V idStr body s)) = am_audits s
    \<and> am_audits (fst (deleteTenantHandler opt V idStr s)) = am_audits s
    \<and> am_audits (fst (updateAssignmentHandler opt V meta idStr pbody s)) = am_audits s
    \<and> am_audits (fst (deleteAssignmentHandler opt V idStr s)) = am_audits s"
proof -
  have l: "am_audits (auditLog opt V (auditOf act ty obj m t) (s\<lparr>am_tenants := x\<rparr>)) = am_audits s"
    "am_audits (auditLog opt V (auditOf act ty obj m t) (s\<lparr>am_assignments := y\<rparr>)) = am_audits s" for act ty obj m t x y
    using auditLog_duplicate [of "s\<lparr>am_tenants := x\<rparr>" opt V act ty obj m t] auditLog_duplicate [of "s\<lparr>am_assignments := y\<rparr>" opt V act ty obj m t] assms
    by simp_all
  have "am_audits (fst (createTenantHandler opt V body s)) = am_audits s"
    by (auto simp: createTenantHandler_def Let_def l split: option.splits sum.splits prod.splits)
  moreover have "am_audits (fst (updateTenantHandler opt V idStr body s)) = am_audits s"
    by (auto simp: updateTenantHandler_def withTenant_def Let_def l split: option.splits sum.splits prod.splits)
  moreover have "am_audits (fst (deleteTenantHandler opt V idStr s)) = am_audits s"
    by (auto simp: deleteTenantHandler_def withTenant_def l split: option.splits sum.splits prod.splits)
  moreover have "am_audits (fst (updateAssignmentHandler opt V meta idStr pbody s)) = am_audits s"
    by (auto simp: updateAssignmentHandler_def withAssign_def l split: option.splits sum.splits prod.splits)
  moreover have "am_audits (fst (deleteAssignmentHandler opt V idStr s)) = am_audits s"
    by (auto simp: deleteAssignmentHandler_def withAssign_def l split: option.splits sum.splits prod.splits)
  ultimately show ?thesis by blast
qed

text \<open>The name goes into the metadata unescaped: it can add fields of its own, or make the text no JSON at all.\<close>

lemma name_injects: "nameMeta (n @ [CHR 0x22] @ '','' @ extra @ '':'' @ [CHR 0x22] @ v)
    = ''{'' @ [CHR 0x22] @ ''name'' @ [CHR 0x22] @ '':'' @ [CHR 0x22] @ n @ [CHR 0x22] @ '','' @ extra @ '':'' @ [CHR 0x22] @ v @ [CHR 0x22] @ ''}''"
  by (simp add: nameMeta_def)

lemma auditLog_not_json: "\<not> av_isJson V m \<Longrightarrow> am_audits (auditLog opt V (auditOf act ty obj (Some m) t) s) = am_audits s"
  by (simp add: auditLog_def CreateAudit_def auditOf_def split: option.splits)

lemma filterAuditEvents_page:
  "filterAuditEvents V req es = take (nat (ar_Limit req)) (drop (nat (ar_Offset req)) (filter (matchesReq V req) es))"
  by (auto simp: filterAuditEvents_def Let_def min_def)

lemma listed_bound:
  assumes "map_sum (\<lambda>e. e) fst (listAudits dbErr P off lmt rows) = Inr es"
  shows "int (length es) \<le> auditLimit lmt"
  using assms by (auto simp: listAudits_def auditLimit_def split: option.splits if_splits)

lemma searched_bound: "searchRows V req rows = Inr es \<Longrightarrow> int (length es) \<le> auditLimit (ar_Limit req)"
  using listed_bound [of "av_listErr V" _ 0 "ar_Limit req" rows es]
  by (auto simp: searchRows_def ListByTenantAudits_def ListByObjectAudits_def auditLimit_def split: option.splits list.splits if_splits)

lemma boundReq_fields:
  "ar_Limit (boundReq r) = auditLimit (ar_Limit r)" "ar_Offset (boundReq r) = max 0 (ar_Offset r)"
  "auditLimit (auditLimit n) = auditLimit n" "0 < auditLimit n"
  by (auto simp: boundReq_def auditLimit_def)

text \<open>
  A search never gets past its first page: the repository is asked for as many events as the page
  holds, from the first, and the offset is applied to those, so a page with an offset of at least the
  limit is empty, although the page before it says there is more.
\<close>

theorem search_second_page_empty:
  assumes "searchAuditEventsHandler opt V (Inr req) s = OkReply 200 page" "auditLimit (ar_Limit req) \<le> ar_Offset req"
  shows "ap_Events page = [] \<and> \<not> ap_HasMore page"
proof -
  obtain es where es: "searchRows V (boundReq req) (am_audits s) = Inr es"
    "page = pageOf (ar_Limit (boundReq req)) (ar_Offset (boundReq req)) (filterAuditEvents V (boundReq req) es)"
    using assms(1) by (auto simp: searchAuditEventsHandler_def noAuditRepo_def Let_def split: if_splits sum.splits)
  have "length (filter (matchesReq V (boundReq req)) es) \<le> nat (ar_Offset (boundReq req))"
    by (rule order_trans [OF length_filter_le]) (use searched_bound [OF es(1)] assms(2) in \<open>simp add: boundReq_fields\<close>)
  then have "filterAuditEvents V (boundReq req) es = []" by (simp add: filterAuditEvents_page)
  then show ?thesis using es(2) boundReq_fields(4) [of "ar_Limit req"] by (simp add: pageOf_def boundReq_fields(1))
qed

text \<open>
  An export is cut short: it asks the repository for up to 50000 events, 10000 unless told
  otherwise, but the repository takes a limit above 1000 for a mistake and returns 100.
\<close>

theorem export_truncated:
  assumes "exportAuditEventsHandler opt V fmt tenant limitStr s = OkReply 200 (f, es)"
    and "limitStr = [] \<or> (\<exists>l. atoi limitStr = Some l \<and> 1000 < l)"
  shows "length es \<le> 100"
proof -
  have "1000 < limitParam 10000 50000 limitStr" using assms(2) by (auto simp: limitParam_def split: option.splits)
  then have a: "auditLimit (limitParam 10000 50000 limitStr) = 100" by (simp add: auditLimit_def)
  have "int (length es) \<le> 100"
    using assms(1) listed_bound [of "av_listErr V" _ 0 "limitParam 10000 50000 limitStr" "am_audits s" es] a
    by (auto simp: exportAuditEventsHandler_def noAuditRepo_def tenantEvents_def ListByTenantAudits_def Let_def
        split: if_splits option.splits sum.splits)
  then show ?thesis by simp
qed

definition csvRead :: "string \<Rightarrow> string list list" where
  "csvRead s = map (strSplit (CHR '','')) (butlast (strSplit (CHR 0x0A) s))"

definition csvSafe :: "string \<Rightarrow> bool" where
  "csvSafe s \<longleftrightarrow> CHR '','' \<notin> set s \<and> CHR 0x0A \<notin> set s"

lemma strJoin_mem: "c \<notin> set d \<Longrightarrow> c \<in> set (strJoin d ws) \<longleftrightarrow> (\<exists>w \<in> set ws. c \<in> set w)"
  by (induction d ws rule: strJoin.induct) auto

lemma csvRead_line:
  assumes "fs \<noteq> []" "list_all csvSafe fs"
  shows "csvRead (csvLine fs @ t) = fs # csvRead t"
proof -
  have "CHR 0x0A \<notin> set (strJoin '','' fs)" using assms(2) by (auto simp: strJoin_mem csvSafe_def list_all_iff)
  then have "strSplit (CHR 0x0A) (csvLine fs @ t) = strJoin '','' fs # strSplit (CHR 0x0A) t"
    by (simp add: csvLine_def strSplit_sep)
  moreover have "strSplit (CHR '','') (strJoin '','' fs) = fs"
    using assms by (intro strSplit_join) (auto simp: csvSafe_def list_all_iff)
  ultimately show ?thesis by (simp add: csvRead_def)
qed

lemma strSplit_pieces: "x \<in> set (strSplit d s) \<Longrightarrow> d \<notin> set x \<and> set x \<subseteq> set s"
proof (induction s arbitrary: x)
  case (Cons c s)
  obtain w ws where w: "strSplit d s = w # ws" by (cases "strSplit d s") auto
  then have "d \<notin> set w \<and> set w \<subseteq> set s" using Cons.IH [of w] by simp
  moreover have "x = [] \<or> x \<in> set (strSplit d s) \<or> c \<noteq> d \<and> x = c # w" using Cons.prems w by (auto split: if_splits)
  ultimately show ?case using Cons.IH [of x] by auto
qed simp

lemma csvRead_safe:
  assumes "row \<in> set (csvRead s)" "f \<in> set row"
  shows "csvSafe f"
proof -
  obtain line where l: "line \<in> set (strSplit (CHR 0x0A) s)" "row = strSplit (CHR '','') line"
    using assms(1) by (auto simp: csvRead_def dest: in_set_butlastD)
  then have "CHR 0x0A \<notin> set line" "CHR '','' \<notin> set f \<and> set f \<subseteq> set line"
    using strSplit_pieces [of line] strSplit_pieces [of f] assms(2) by auto
  then show ?thesis by (auto simp: csvSafe_def)
qed

lemma csvRead_lines:
  assumes "\<And>e. e \<in> set es \<Longrightarrow> g e \<noteq> [] \<and> list_all csvSafe (g e)"
  shows "csvRead (concat (map (\<lambda>e. csvLine (g e)) es)) = map g es"
  using assms by (induction es) (simp_all add: csvRead_line, simp add: csvRead_def)

text \<open>
  C29. The CSV export says what was recorded, or it is broken: split at line breaks and commas it
  gives the six named columns and one row for each event with its time, action, object type and
  id, actor's mail address and tenant (empty when there is none), exactly when none of these texts
  holds a comma or a line break. Nothing is quoted, so an actor or an action with a comma shifts the columns.
\<close>

theorem csv_export_roundtrip:
  "csvRead (csvExport fmtTime V es) =
     [''timestamp'', ''action'', ''object_type'', ''object_id'', ''actor_email'', ''tenant_id'']
     # map (\<lambda>e. [fmtTime (ad_CreatedAt e), ad_Action e, ad_ObjectType e, av_show V (ad_ObjectID e), ad_ActorEmail e,
                   if ad_TenantID e = None then [] else av_show V (the (ad_TenantID e))]) es
   \<longleftrightarrow> (\<forall>e \<in> set es. csvSafe (fmtTime (ad_CreatedAt e)) \<and> csvSafe (ad_Action e) \<and> csvSafe (ad_ObjectType e)
         \<and> csvSafe (av_show V (ad_ObjectID e)) \<and> csvSafe (ad_ActorEmail e)
         \<and> (ad_TenantID e \<noteq> None \<longrightarrow> csvSafe (av_show V (the (ad_TenantID e)))))"
proof -
  let ?row = "\<lambda>e. [fmtTime (ad_CreatedAt e), ad_Action e, ad_ObjectType e, av_show V (ad_ObjectID e), ad_ActorEmail e,
      if ad_TenantID e = None then [] else av_show V (the (ad_TenantID e))]"
  let ?head = "[''timestamp'', ''action'', ''object_type'', ''object_id'', ''actor_email'', ''tenant_id'']"
  have row: "csvFields fmtTime V e = ?row e" for e by (simp add: csvFields_def split: option.split)
  have h: "csvRead (csvExport fmtTime V es) = ?head # csvRead (concat (map (\<lambda>e. csvLine (?row e)) es))"
    by (simp add: csvExport_def row csvHeader_def csvRead_line csvSafe_def)
  have "csvRead (concat (map (\<lambda>e. csvLine (?row e)) es)) = map ?row es \<longleftrightarrow> (\<forall>e \<in> set es. list_all csvSafe (?row e))"
  proof
    assume eq: "csvRead (concat (map (\<lambda>e. csvLine (?row e)) es)) = map ?row es"
    show "\<forall>e \<in> set es. list_all csvSafe (?row e)"
    proof
      fix e assume "e \<in> set es"
      then have "?row e \<in> set (csvRead (concat (map (\<lambda>e. csvLine (?row e)) es)))" unfolding eq set_map by (rule imageI)
      then show "list_all csvSafe (?row e)" unfolding list_all_iff using csvRead_safe by blast
    qed
  qed (intro csvRead_lines, simp)
  moreover have "csvSafe []" by (simp add: csvSafe_def)
  ultimately show ?thesis unfolding h by auto
qed

text \<open>A comma in a field shifts those after it.\<close>

lemma csv_comma_shifts:
  "csvRead (csvLine [a @ '','' @ b, c]) = csvRead (csvLine [a, b, c])"
  by (simp add: csvRead_def csvLine_def)

text \<open>A delete of an assignment that is not there is answered with 500: the handler looks for another text than the repository's.\<close>

lemma missing_assignment_500:
  assumes "av_parse V idStr = Some i" "i \<notin> set (map as_ID (am_assignments s))"
  shows "\<exists>msg d. snd (deleteAssignmentHandler (plain t new byName ord audit) V idStr s) = ErrorReply 500 ''INTERNAL_ERROR'' msg d"
  using assms by (simp add: deleteAssignmentHandler_def withAssign_def plain_def pgAssignments_def pgDelete_def)

section \<open>Witnesses\<close>

definition adminV :: adminEnv where
  "adminV = \<lparr>av_now = 5, av_new = 7, av_newAudit = 8, av_parse = (\<lambda>s. if s = ''one'' then Some 1 else if s = ''two'' then Some 2 else None),
     av_show = (\<lambda>i. ''id''), av_isJson = (\<lambda>s. True), av_auditErr = None, av_lower = (\<lambda>s. s), av_fold = (=), av_listErr = None\<rparr>"

definition acme :: tenant where
  "acme = \<lparr>tn_ID = 1, tn_Name = ''acme'', tn_Status = ''active'', tn_Metadata = ''null'', tn_CreatedAt = 1, tn_UpdatedAt = 1\<rparr>"

definition acmeEvent :: auditEntry where
  "acmeEvent = (auditOf ''tenant.create'' ''tenant'' 1 None 1)\<lparr>ad_TenantID := Some 1\<rparr>"

definition adminS :: "(tenant list, assignment list) adminState" where
  "adminS = \<lparr>am_tenants = [acme], am_assignments = [], am_audits = [acmeEvent]\<rparr>"

abbreviation adminOpt1 :: "(tenant list, assignment list) adminOpt" where
  "adminOpt1 \<equiv> plain 9 7 (\<lambda>ts. ts) (\<lambda>as. as) True"

theorem tenant_update_not_stored_witness:
  "snd (updateTenantHandler adminOpt1 adminV ''one'' (Inr ''new'') adminS) = OkReply 200 (acme\<lparr>tn_Name := ''new'', tn_UpdatedAt := 5\<rparr>)"
  using tenant_update_not_stored [of 9 7 "\<lambda>ts. ts" "\<lambda>as. as" True adminV "''one''" "Inr ''new''" adminS acme "''new''"]
  by (simp add: adminV_def adminS_def acme_def pgTenant_def)

theorem audit_entry_lost_witness:
  "am_audits (fst (createTenantHandler adminOpt1 adminV (Inr ''new'') adminS)) = am_audits adminS
   \<and> map tn_Name (am_tenants (fst (createTenantHandler adminOpt1 adminV (Inr ''new'') adminS))) = [''acme'', ''new'']"
  using audit_entry_lost [of adminS adminOpt1 adminV "Inr ''new''" "''one''" "[]" "Inr 1"]
  by (simp add: adminS_def acmeEvent_def auditOf_def)
     (simp add: createTenantHandler_def plain_def pgTenants_def pgTenantByName_def pgCreateTenant_def adminV_def acme_def Let_def)

definition pageReq :: "int \<Rightarrow> auditReq" where
  "pageReq off = \<lparr>ar_TenantID = Some 1, ar_ActorID = None, ar_ActorEmail = [], ar_Actions = [], ar_ObjectTypes = [], ar_ObjectID = None,
     ar_StartTime = None, ar_EndTime = None, ar_Limit = 1, ar_Offset = off\<rparr>"

definition twoEvents :: "(tenant list, assignment list) adminState" where
  "twoEvents = adminS\<lparr>am_audits := [acmeEvent, acmeEvent\<lparr>ad_ID := 3\<rparr>]\<rparr>"

lemma pages_run:
  "searchAuditEventsHandler adminOpt1 adminV (Inr (pageReq 0)) twoEvents = OkReply 200 \<lparr>ap_Events = [acmeEvent], ap_HasMore = True, ap_Limit = 1, ap_Offset = 0\<rparr>"
  "searchAuditEventsHandler adminOpt1 adminV (Inr (pageReq 1)) twoEvents = OkReply 200 \<lparr>ap_Events = [], ap_HasMore = False, ap_Limit = 1, ap_Offset = 1\<rparr>"
  by (simp_all add: searchAuditEventsHandler_def boundReq_def searchRows_def ListByTenantAudits_def listAudits_def auditLimit_def
      filterAuditEvents_page matchesReq_def pageOf_def pageReq_def twoEvents_def adminS_def adminV_def plain_def acmeEvent_def auditOf_def Let_def)

theorem search_second_page_empty_witness:
  "searchAuditEventsHandler adminOpt1 adminV (Inr (pageReq 0)) twoEvents
     = OkReply 200 \<lparr>ap_Events = [acmeEvent], ap_HasMore = True, ap_Limit = 1, ap_Offset = 0\<rparr>
   \<and> ap_Events \<lparr>ap_Events = [], ap_HasMore = False, ap_Limit = 1, ap_Offset = 1\<rparr> = []"
proof
  show "ap_Events \<lparr>ap_Events = [], ap_HasMore = False, ap_Limit = 1, ap_Offset = 1\<rparr> = []"
    using search_second_page_empty [OF pages_run(2)] by (simp add: pageReq_def auditLimit_def)
qed (rule pages_run(1))

lemma export_run: "exportAuditEventsHandler adminOpt1 adminV [] ''one'' [] twoEvents = OkReply 200 (''json'', [acmeEvent, acmeEvent\<lparr>ad_ID := 3\<rparr>])"
  by (simp add: exportAuditEventsHandler_def tenantParam_def tenantEvents_def ListByTenantAudits_def listAudits_def auditLimit_def limitParam_def
      twoEvents_def adminS_def adminV_def plain_def acmeEvent_def auditOf_def Let_def split: option.splits)

theorem export_truncated_witness: "length [acmeEvent, acmeEvent\<lparr>ad_ID := 3\<rparr>] \<le> 100"
  by (rule export_truncated [OF export_run]) simp

theorem csv_export_roundtrip_witness:
  "csvRead (csvExport (\<lambda>t. ''now'') adminV [acmeEvent])
     = [[''timestamp'', ''action'', ''object_type'', ''object_id'', ''actor_email'', ''tenant_id''],
        [''now'', ''tenant.create'', ''tenant'', ''id'', [], ''id'']]
   \<and> csvRead (csvExport (\<lambda>t. ''now'') adminV [acmeEvent\<lparr>ad_ActorEmail := ''a,b''\<rparr>])
     \<noteq> [[''timestamp'', ''action'', ''object_type'', ''object_id'', ''actor_email'', ''tenant_id''],
        [''now'', ''tenant.create'', ''tenant'', ''id'', ''a,b'', ''id'']]"
  using csv_export_roundtrip [of "\<lambda>t. ''now''" adminV "[acmeEvent]"]
    csv_export_roundtrip [of "\<lambda>t. ''now''" adminV "[acmeEvent\<lparr>ad_ActorEmail := ''a,b''\<rparr>]"]
  by (simp add: csvSafe_def acmeEvent_def auditOf_def adminV_def)

end
