(* ===== verification/Rulepack_SQL.thy ===== *)
theory Rulepack_SQL
  imports Rulepack_Service
begin

text \<open>
  The PostgreSQL store of rule packs, \<^verbatim>\<open>internal/infrastructure/persistence/postgres/rulepacks.go\<close>,
  with the constraints of its tables: unique identifiers, unique names per tenant, unique versions
  per pack, the allowed statuses, and the three foreign keys, of which the one from a pack to its
  current version is checked at the end of each statement. The text of a version is stored as
  \<^verbatim>\<open>jsonb\<close>: \<open>toJsonb\<close> is what PostgreSQL makes of a text, \<open>None\<close> if it is no JSON. \<open>dbErr\<close> is
  a failure of the connection or the statement for any other reason. The store is proved to satisfy
  the contract of the rule pack service.
\<close>

section \<open>Tables\<close>

record packRow =
  pr_ID :: uuid
  pr_TenantID :: uuid
  pr_Name :: string
  pr_Description :: string
  pr_Current :: "uuid option"

record packDb =
  db_tenants :: "uuid list"
  db_packs :: "packRow list"
  db_versions :: "versionRow list"

text \<open>What a statement takes from outside: a failure, a new identifier, the clock, the conversion to JSON.\<close>

record sqlEnv =
  sq_err :: "string option"
  sq_new :: uuid
  sq_now :: int
  sq_toJsonb :: "string \<Rightarrow> string option"

definition statuses :: "string list" where
  "statuses = [''draft'', ''approved'', ''active'', ''archived'']"

section \<open>Statements\<close>

text \<open>The insertion into \<^verbatim>\<open>rulepack_versions\<close>: \<open>None\<close> is a violated constraint or a bad value.\<close>

definition insertVersion :: "sqlEnv \<Rightarrow> uuid \<Rightarrow> int \<Rightarrow> string \<Rightarrow> string \<Rightarrow> uuid \<Rightarrow> packDb \<Rightarrow> packDb option" where
  "insertVersion Q pack version dsl status author d =
     (case sq_toJsonb Q dsl of
        None \<Rightarrow> None
      | Some j \<Rightarrow>
          if status \<in> set statuses \<and> - (2 ^ 31) \<le> version \<and> version < 2 ^ 31
             \<and> pack \<in> set (map pr_ID (db_packs d)) \<and> sq_new Q \<notin> set (map vr_ID (db_versions d))
             \<and> (pack, version) \<notin> set (map (\<lambda>v. (vr_RulepackID v, vr_Version v)) (db_versions d))
          then Some (d\<lparr>db_versions := db_versions d @ [\<lparr>vr_ID = sq_new Q, vr_RulepackID = pack, vr_Version = version,
                 vr_DSL = j, vr_Status = status, vr_CreatedBy = author, vr_CreatedAt = sq_now Q\<rparr>]\<rparr>)
          else None)"

text \<open>The update of a pack's current version, with the number of rows it changed.\<close>

definition toCurrent :: "uuid \<Rightarrow> uuid \<Rightarrow> packRow \<Rightarrow> packRow" where
  "toCurrent v pack p = (if pr_ID p = pack then p\<lparr>pr_Current := Some v\<rparr> else p)"

definition setCurrent :: "uuid \<Rightarrow> uuid \<Rightarrow> packDb \<Rightarrow> (packDb \<times> nat) option" where
  "setCurrent v pack d =
     (let hit = filter (\<lambda>p. pr_ID p = pack) (db_packs d)
      in if hit \<noteq> [] \<and> v \<notin> set (map vr_ID (db_versions d)) then None
         else Some (d\<lparr>db_packs := map (toCurrent v pack) (db_packs d)\<rparr>, length hit))"

text \<open>A deletion of versions fails if a pack has one of them as its current version.\<close>

definition deleteVersions :: "(versionRow \<Rightarrow> bool) \<Rightarrow> packDb \<Rightarrow> packDb option" where
  "deleteVersions P d =
     (if list_ex (\<lambda>v. P v \<and> Some (vr_ID v) \<in> set (map pr_Current (db_packs d))) (db_versions d) then None
      else Some (d\<lparr>db_versions := filter (\<lambda>v. \<not> P v) (db_versions d)\<rparr>))"

section \<open>Operations\<close>

definition failed :: "string \<Rightarrow> string option \<Rightarrow> string \<Rightarrow> repoErr" where
  "failed what dbErr violation = DbError (what @ (case dbErr of Some e \<Rightarrow> e | None \<Rightarrow> violation))"

definition sqlCreate :: "sqlEnv \<Rightarrow> uuid \<Rightarrow> string \<Rightarrow> string \<Rightarrow> packDb \<Rightarrow> packDb \<times> (repoErr + uuid)" where
  "sqlCreate Q tenant name desc d =
     (if sq_err Q \<noteq> None \<or> sq_new Q \<in> set (map pr_ID (db_packs d)) then (d, Inl (failed ''create rulepack: '' (sq_err Q) ''duplicate key''))
      else if (tenant, name) \<in> set (map (\<lambda>p. (pr_TenantID p, pr_Name p)) (db_packs d)) then (d, Inl ErrRulepackNameExists)
      else if tenant \<notin> set (db_tenants d) then (d, Inl (failed ''create rulepack: '' None ''violates foreign key constraint''))
      else (d\<lparr>db_packs := db_packs d @ [\<lparr>pr_ID = sq_new Q, pr_TenantID = tenant, pr_Name = name, pr_Description = desc, pr_Current = None\<rparr>]\<rparr>,
            Inr (sq_new Q)))"

definition sqlCreateVersion :: "sqlEnv \<Rightarrow> uuid \<Rightarrow> int \<Rightarrow> string \<Rightarrow> string \<Rightarrow> uuid \<Rightarrow> packDb \<Rightarrow> packDb \<times> (repoErr + uuid)" where
  "sqlCreateVersion Q pack version dsl status author d =
     (case (sq_err Q, insertVersion Q pack version dsl status author d) of
        (None, Some d1) \<Rightarrow> (d1, Inr (sq_new Q))
      | _ \<Rightarrow> (d, Inl (failed ''create version: '' (sq_err Q) ''invalid row'')))"

text \<open>A transaction that is not committed leaves the tables as they were. \<open>commitErr\<close> is the failure of the commit.\<close>

definition sqlCreateVersionActivateTx :: "string option \<Rightarrow> sqlEnv \<Rightarrow> uuid \<Rightarrow> int \<Rightarrow> string \<Rightarrow> uuid \<Rightarrow> packDb \<Rightarrow> packDb \<times> (repoErr + uuid)" where
  "sqlCreateVersionActivateTx commitErr Q pack version dsl author d =
     (case sq_err Q of
        Some e \<Rightarrow> (d, Inl (DbError (''begin tx: '' @ e)))
      | None \<Rightarrow>
          (case insertVersion Q pack version dsl ''approved'' author d of
             None \<Rightarrow> (d, Inl (failed ''create version: '' None ''invalid row''))
           | Some d1 \<Rightarrow>
               (case setCurrent (sq_new Q) pack d1 of
                  None \<Rightarrow> (d, Inl (failed ''activate version: '' None ''violates foreign key constraint''))
                | Some (d2, n) \<Rightarrow>
                    (case commitErr of
                       Some e \<Rightarrow> (d, Inl (DbError (''commit: '' @ e)))
                     | None \<Rightarrow> (d2, Inr (sq_new Q))))))"

text \<open>The rows of the join of packs with their current versions.\<close>

definition joined :: "uuid \<Rightarrow> packDb \<Rightarrow> versionRow list" where
  "joined pack d = concat (map (\<lambda>p. filter (\<lambda>v. pr_ID p = pack \<and> pr_Current p = Some (vr_ID v)) (db_versions d)) (db_packs d))"

definition sqlGetActive :: "string option \<Rightarrow> uuid \<Rightarrow> packDb \<Rightarrow> repoErr + string \<times> int" where
  "sqlGetActive dbErr pack d =
     (case dbErr of
        Some e \<Rightarrow> Inl (DbError (''get active: '' @ e))
      | None \<Rightarrow> (case joined pack d of [] \<Rightarrow> Inl (DbError ''not found'') | v # _ \<Rightarrow> Inr (vr_DSL v, vr_Version v)))"

definition sqlActivate :: "string option \<Rightarrow> uuid \<Rightarrow> uuid \<Rightarrow> packDb \<Rightarrow> packDb \<times> repoErr option" where
  "sqlActivate dbErr pack v d =
     (case (dbErr, setCurrent v pack d) of
        (None, Some (d1, n)) \<Rightarrow> if n = 0 then (d, Some (DbError ''activate: no rows'')) else (d1, None)
      | _ \<Rightarrow> (d, Some (failed ''activate: '' dbErr ''violates foreign key constraint'')))"

definition sqlGetVersion :: "string option \<Rightarrow> uuid \<Rightarrow> int \<Rightarrow> packDb \<Rightarrow> repoErr + string \<times> string" where
  "sqlGetVersion dbErr pack version d =
     (case dbErr of
        Some e \<Rightarrow> Inl (DbError e)
      | None \<Rightarrow>
          (case find (\<lambda>v. vr_RulepackID v = pack \<and> vr_Version v = version) (db_versions d) of
             None \<Rightarrow> Inl (DbError ''not found'')
           | Some v \<Rightarrow> Inr (vr_DSL v, vr_Status v)))"

definition isDraft :: "uuid \<Rightarrow> int \<Rightarrow> versionRow \<Rightarrow> bool" where
  "isDraft pack version v \<longleftrightarrow> vr_RulepackID v = pack \<and> vr_Version v = version \<and> vr_Status v = ''draft''"

definition approve :: "uuid \<Rightarrow> int \<Rightarrow> versionRow \<Rightarrow> versionRow" where
  "approve pack version v = (if isDraft pack version v then v\<lparr>vr_Status := ''approved''\<rparr> else v)"

definition sqlApproveVersion :: "string option \<Rightarrow> uuid \<Rightarrow> int \<Rightarrow> packDb \<Rightarrow> packDb \<times> repoErr option" where
  "sqlApproveVersion dbErr pack version d =
     (case dbErr of
        Some e \<Rightarrow> (d, Some (DbError e))
      | None \<Rightarrow>
          if \<not> list_ex (isDraft pack version) (db_versions d) then (d, Some (DbError ''no draft version updated''))
          else (d\<lparr>db_versions := map (approve pack version) (db_versions d)\<rparr>, None))"

text \<open>A left join: a pack without a current version has version 0. \<open>byName\<close> is the database's order of names.\<close>

definition sqlInfo :: "packDb \<Rightarrow> packRow \<Rightarrow> rulepackInfo" where
  "sqlInfo d p =
     \<lparr>ri_ID = pr_ID p, ri_Name = pr_Name p, ri_Description = pr_Description p,
      ri_Version = (case find (\<lambda>v. pr_Current p = Some (vr_ID v)) (db_versions d) of None \<Rightarrow> 0 | Some v \<Rightarrow> vr_Version v),
      ri_Active = (pr_Current p \<noteq> None)\<rparr>"

definition sqlListByTenant :: "string option \<Rightarrow> (packRow list \<Rightarrow> packRow list) \<Rightarrow> uuid \<Rightarrow> packDb \<Rightarrow> repoErr + rulepackInfo list" where
  "sqlListByTenant dbErr byName tenant d =
     (case dbErr of
        Some e \<Rightarrow> Inl (DbError (''list rulepacks: '' @ e))
      | None \<Rightarrow> Inr (map (sqlInfo d) (byName (filter (\<lambda>p. pr_TenantID p = tenant) (db_packs d)))))"

definition newestFirst :: "uuid \<Rightarrow> packDb \<Rightarrow> versionRow list" where
  "newestFirst pack d = sort_key (\<lambda>v. - vr_Version v) (filter (\<lambda>v. vr_RulepackID v = pack) (db_versions d))"

definition sqlGetLatestVersion :: "string option \<Rightarrow> uuid \<Rightarrow> packDb \<Rightarrow> repoErr + uuid \<times> int" where
  "sqlGetLatestVersion dbErr pack d =
     (case dbErr of
        Some e \<Rightarrow> Inl (DbError (''get latest version: '' @ e))
      | None \<Rightarrow> (case newestFirst pack d of [] \<Rightarrow> Inl (DbError ''no versions found'') | v # _ \<Rightarrow> Inr (vr_ID v, vr_Version v)))"

definition sqlActivateLatest :: "string option \<Rightarrow> uuid \<Rightarrow> packDb \<Rightarrow> packDb \<times> repoErr option" where
  "sqlActivateLatest dbErr pack d =
     (case sqlGetLatestVersion dbErr pack d of
        Inl e \<Rightarrow> (d, Some e)
      | Inr (v, _) \<Rightarrow> sqlActivate dbErr pack v d)"

definition sqlDelete :: "string option \<Rightarrow> string option \<Rightarrow> uuid \<Rightarrow> packDb \<Rightarrow> packDb \<times> repoErr option" where
  "sqlDelete dbErr commitErr pack d =
     (case dbErr of
        Some e \<Rightarrow> (d, Some (DbError (''begin transaction: '' @ e)))
      | None \<Rightarrow>
          (case deleteVersions (\<lambda>v. vr_RulepackID v = pack) d of
             None \<Rightarrow> (d, Some (DbError ''delete versions: violates foreign key constraint''))
           | Some d1 \<Rightarrow>
               if pack \<notin> set (map pr_ID (db_packs d1)) then (d, Some (DbError ''rulepack not found''))
               else (case commitErr of
                       Some e \<Rightarrow> (d, Some (DbError e))
                     | None \<Rightarrow> (d1\<lparr>db_packs := filter (\<lambda>p. pr_ID p \<noteq> pack) (db_packs d1)\<rparr>, None))))"

text \<open>
  The deletion joins the versions of the pack with all packs, not with their own: a version goes if
  it is not among the newest and some pack has not got it as its current version.
\<close>

definition purged :: "uuid \<Rightarrow> int \<Rightarrow> packDb \<Rightarrow> versionRow \<Rightarrow> bool" where
  "purged pack keep d v \<longleftrightarrow>
     vr_RulepackID v = pack \<and> vr_ID v \<notin> set (map vr_ID (take (nat keep) (newestFirst pack d)))
     \<and> list_ex (\<lambda>p. pr_Current p = None \<or> pr_Current p \<noteq> Some (vr_ID v)) (db_packs d)"

definition sqlPurgeOldVersions :: "string option \<Rightarrow> uuid \<Rightarrow> int \<Rightarrow> packDb \<Rightarrow> packDb \<times> repoErr option" where
  "sqlPurgeOldVersions dbErr pack keep d =
     (if keep \<le> 0 then (d, None)
      else case (dbErr, deleteVersions (purged pack keep d) d) of
             (None, Some d1) \<Rightarrow> (d1, None)
           | _ \<Rightarrow> (d, Some (failed ''purge old versions: '' dbErr ''violates foreign key constraint'')))"

text \<open>The store through the interface of the service, with a database that answers.\<close>

definition sqlOps :: "(string \<Rightarrow> string option) \<Rightarrow> (packRow list \<Rightarrow> packRow list) \<Rightarrow> packDb repoOps" where
  "sqlOps toJsonb byName =
     (let Q = (\<lambda>e. \<lparr>sq_err = None, sq_new = oe_new e, sq_now = oe_now e, sq_toJsonb = toJsonb\<rparr>)
      in \<lparr>ro_create = (\<lambda>e. sqlCreate (Q e)), ro_createVersion = (\<lambda>e. sqlCreateVersion (Q e)),
          ro_createVersionActivateTx = (\<lambda>e. sqlCreateVersionActivateTx None (Q e)),
          ro_getActive = sqlGetActive None, ro_activate = sqlActivate None, ro_activateLatest = (\<lambda>e. sqlActivateLatest None),
          ro_listByTenant = (\<lambda>e. sqlListByTenant None byName), ro_delete = sqlDelete None None,
          ro_purge = (\<lambda>e pack k d. fst (sqlPurgeOldVersions None pack k d))\<rparr>)"

section \<open>Invariant\<close>

definition sqlInv :: "packDb \<Rightarrow> bool" where
  "sqlInv d \<longleftrightarrow> distinct (map pr_ID (db_packs d)) \<and> distinct (map vr_ID (db_versions d))
     \<and> distinct (map (\<lambda>p. (pr_TenantID p, pr_Name p)) (db_packs d))
     \<and> distinct (map (\<lambda>v. (vr_RulepackID v, vr_Version v)) (db_versions d))
     \<and> pr_TenantID ` set (db_packs d) \<subseteq> set (db_tenants d)
     \<and> vr_RulepackID ` set (db_versions d) \<subseteq> pr_ID ` set (db_packs d)
     \<and> Option.these (pr_Current ` set (db_packs d)) \<subseteq> vr_ID ` set (db_versions d)"

lemma these_current: "c \<in> Option.these (pr_Current ` S) \<longleftrightarrow> (\<exists>p \<in> S. pr_Current p = Some c)"
  by (force simp: in_these_eq)

lemma insertVersion_inv: "sqlInv d \<Longrightarrow> insertVersion Q pack n dsl s a d = Some d1 \<Longrightarrow> sqlInv d1"
  by (auto simp: sqlInv_def insertVersion_def image_subset_iff split: option.splits if_splits)

lemma toCurrent_parts [simp]:
  "pr_ID (toCurrent v pack p) = pr_ID p" "pr_TenantID (toCurrent v pack p) = pr_TenantID p" "pr_Name (toCurrent v pack p) = pr_Name p"
  "pr_Current (toCurrent v pack p) = (if pr_ID p = pack then Some v else pr_Current p)"
  "pr_ID \<circ> toCurrent v pack = pr_ID"
  by (auto simp: toCurrent_def)

lemma setCurrent_inv:
  assumes "sqlInv d" "setCurrent v pack d = Some (d1, n)"
  shows "sqlInv d1"
proof -
  have d1: "d1 = d\<lparr>db_packs := map (toCurrent v pack) (db_packs d)\<rparr>"
    and v: "filter (\<lambda>p. pr_ID p = pack) (db_packs d) = [] \<or> v \<in> vr_ID ` set (db_versions d)"
    using assms(2) by (auto simp: setCurrent_def Let_def split: if_splits)
  have "Option.these (pr_Current ` toCurrent v pack ` set (db_packs d)) \<subseteq> vr_ID ` set (db_versions d)"
  proof
    fix c assume "c \<in> Option.these (pr_Current ` toCurrent v pack ` set (db_packs d))"
    then obtain p where p: "p \<in> set (db_packs d)" "pr_Current (toCurrent v pack p) = Some c" by (auto simp only: these_current)
    show "c \<in> vr_ID ` set (db_versions d)"
    proof (cases "pr_ID p = pack")
      case True
      with p v show ?thesis by (auto simp: filter_empty_conv)
    next
      case False
      with p have "c \<in> Option.these (pr_Current ` set (db_packs d))" by (auto simp: these_current)
      then show ?thesis using assms(1) by (auto simp: sqlInv_def)
    qed
  qed
  then show ?thesis using assms(1) by (simp add: sqlInv_def d1 image_image comp_def)
qed

lemma deleteVersions_SomeD:
  assumes "deleteVersions P d = Some d1"
  shows "d1 = d\<lparr>db_versions := filter (\<lambda>v. \<not> P v) (db_versions d)\<rparr>"
    "\<And>p v. p \<in> set (db_packs d) \<Longrightarrow> v \<in> set (db_versions d) \<Longrightarrow> pr_Current p = Some (vr_ID v) \<Longrightarrow> \<not> P v"
  using assms by (force simp: deleteVersions_def list_ex_iff split: if_splits)+

lemma deleteVersions_inv:
  assumes "sqlInv d" "deleteVersions P d = Some d1"
  shows "sqlInv d1"
proof -
  note d1 = deleteVersions_SomeD [OF assms(2)]
  have "Option.these (pr_Current ` set (db_packs d)) \<subseteq> vr_ID ` {v \<in> set (db_versions d). \<not> P v}"
  proof
    fix c assume c: "c \<in> Option.these (pr_Current ` set (db_packs d))"
    then obtain v where "v \<in> set (db_versions d)" "vr_ID v = c" using assms(1) by (auto simp: sqlInv_def)
    with c d1(2) show "c \<in> vr_ID ` {v \<in> set (db_versions d). \<not> P v}" by (force simp: these_current)
  qed
  then show ?thesis using assms(1) by (auto simp: sqlInv_def d1(1) distinct_map_filter)
qed

section \<open>The active version\<close>

lemma joined_set: "set (joined pack d) = {v \<in> set (db_versions d). \<exists>p \<in> set (db_packs d). pr_ID p = pack \<and> pr_Current p = Some (vr_ID v)}"
  by (auto simp: joined_def)

lemma sqlGetActive_current:
  assumes "sqlInv d" "p \<in> set (db_packs d)" "pr_ID p = pack" "v \<in> set (db_versions d)" "pr_Current p = Some (vr_ID v)"
  shows "sqlGetActive None pack d = Inr (vr_DSL v, vr_Version v)"
proof -
  have "w = v" if "w \<in> set (joined pack d)" for w
  proof -
    from that obtain q where q: "w \<in> set (db_versions d)" "q \<in> set (db_packs d)" "pr_ID q = pack" "pr_Current q = Some (vr_ID w)"
      by (auto simp: joined_set)
    have "q = p" using assms q by (auto simp: sqlInv_def distinct_map dest: inj_onD)
    then show "w = v" using assms q by (auto simp: sqlInv_def distinct_map dest: inj_onD)
  qed
  moreover have "v \<in> set (joined pack d)" using assms by (auto simp: joined_set)
  ultimately obtain l where "joined pack d = v # l" by (cases "joined pack d") auto
  then show ?thesis by (simp add: sqlGetActive_def)
qed

lemma deleteVersions_active:
  assumes "deleteVersions P d = Some d1"
  shows "sqlGetActive e pack d1 = sqlGetActive e pack d"
proof -
  note d1 = deleteVersions_SomeD [OF assms]
  have "filter (\<lambda>v. pr_ID p = pack \<and> pr_Current p = Some (vr_ID v)) (filter (\<lambda>v. \<not> P v) (db_versions d))
      = filter (\<lambda>v. pr_ID p = pack \<and> pr_Current p = Some (vr_ID v)) (db_versions d)" if "p \<in> set (db_packs d)" for p
    using d1(2) [OF that] by (auto simp: filter_filter intro: filter_cong)
  then have "joined pack d1 = joined pack d" by (simp add: joined_def d1(1) cong: map_cong)
  then show ?thesis by (cases e) (simp_all add: sqlGetActive_def)
qed

lemma activate_serves:
  assumes "sqlInv d" "setCurrent (vr_ID v) pack d = Some (d1, n)" "n \<noteq> 0" "v \<in> set (db_versions d)"
  shows "sqlGetActive None pack d1 = Inr (vr_DSL v, vr_Version v)"
proof -
  obtain p where p: "p \<in> set (db_packs d)" "pr_ID p = pack"
    using assms(2,3) by (auto simp: setCurrent_def Let_def filter_empty_conv split: if_splits)
  then have "toCurrent (vr_ID v) pack p \<in> set (db_packs d1)" "v \<in> set (db_versions d1)"
    using assms(2,4) by (force simp: setCurrent_def Let_def split: if_splits)+
  then show ?thesis
    using sqlGetActive_current [OF setCurrent_inv [OF assms(1,2)]] p(2) by fastforce
qed

section \<open>The contract of the service\<close>

definition sqlFresh :: "opEnv \<Rightarrow> packDb \<Rightarrow> bool" where
  "sqlFresh e d \<longleftrightarrow> oe_new e \<notin> set (map pr_ID (db_packs d)) \<and> oe_new e \<notin> set (map vr_ID (db_versions d))"

definition jsonbOf :: "(string \<Rightarrow> string option) \<Rightarrow> string \<Rightarrow> string" where
  "jsonbOf toJsonb dsl = (case toJsonb dsl of Some j \<Rightarrow> j | None \<Rightarrow> dsl)"

lemma insertVersion_new:
  assumes "insertVersion Q pack n dsl s a d = Some d1"
  shows "\<exists>v \<in> set (db_versions d1). vr_ID v = sq_new Q \<and> vr_RulepackID v = pack
      \<and> vr_DSL v = jsonbOf (sq_toJsonb Q) dsl \<and> vr_Version v = n"
    "db_packs d1 = db_packs d" "pack \<in> set (map pr_ID (db_packs d))"
  using assms by (auto simp: insertVersion_def jsonbOf_def split: option.splits if_splits)

lemma sqlCreateVersion_inv: "sqlInv d \<Longrightarrow> sqlInv (fst (sqlCreateVersion Q pack n dsl s a d))"
  by (auto simp: sqlCreateVersion_def insertVersion_inv split: option.splits)

lemma sqlActivate_inv: "sqlInv d \<Longrightarrow> sqlInv (fst (sqlActivate dbErr pack v d))"
  by (auto simp: sqlActivate_def setCurrent_inv split: option.splits)

lemma sqlTx_inv: "sqlInv d \<Longrightarrow> sqlInv (fst (sqlCreateVersionActivateTx c Q pack n dsl a d))"
  by (auto simp: sqlCreateVersionActivateTx_def dest: insertVersion_inv setCurrent_inv split: option.splits)

lemma sqlPurge_inv: "sqlInv d \<Longrightarrow> sqlInv (fst (sqlPurgeOldVersions dbErr pack k d))"
  by (auto simp: sqlPurgeOldVersions_def deleteVersions_inv split: option.splits)

lemma sqlDelete_inv:
  assumes "sqlInv d"
  shows "sqlInv (fst (sqlDelete dbErr commitErr pack d))"
proof -
  have "sqlInv (d1\<lparr>db_packs := filter (\<lambda>p. pr_ID p \<noteq> pack) (db_packs d1)\<rparr>)"
    if "deleteVersions (\<lambda>v. vr_RulepackID v = pack) d = Some d1" for d1
  proof -
    have i: "sqlInv d1" by (rule deleteVersions_inv [OF assms that])
    have owners: "vr_RulepackID ` set (db_versions d1) \<subseteq> pr_ID ` set (db_packs d1)" using i by (simp add: sqlInv_def)
    have "vr_RulepackID ` set (db_versions d1) \<subseteq> pr_ID ` {p \<in> set (db_packs d1). pr_ID p \<noteq> pack}"
    proof (rule image_subsetI)
      fix v assume v: "v \<in> set (db_versions d1)"
      then have other: "vr_RulepackID v \<noteq> pack" using deleteVersions_SomeD(1) [OF that] by simp
      obtain p where "p \<in> set (db_packs d1)" "vr_RulepackID v = pr_ID p" using owners v by blast
      with other show "vr_RulepackID v \<in> pr_ID ` {p \<in> set (db_packs d1). pr_ID p \<noteq> pack}" by (intro image_eqI [of _ _ p]) auto
    qed
    moreover have "Option.these (pr_Current ` {p \<in> set (db_packs d1). pr_ID p \<noteq> pack}) \<subseteq> vr_ID ` set (db_versions d1)"
    proof
      fix c assume "c \<in> Option.these (pr_Current ` {p \<in> set (db_packs d1). pr_ID p \<noteq> pack})"
      then have "c \<in> Option.these (pr_Current ` set (db_packs d1))" by (auto simp: these_current)
      then show "c \<in> vr_ID ` set (db_versions d1)" using i by (auto simp: sqlInv_def)
    qed
    ultimately show ?thesis using i by (auto simp: sqlInv_def distinct_map_filter)
  qed
  then show ?thesis using assms by (auto simp: sqlDelete_def split: option.splits)
qed

lemma sqlCreate_inv: "sqlInv d \<Longrightarrow> sqlInv (fst (sqlCreate Q tenant name desc d))"
  by (auto simp: sqlCreate_def sqlInv_def these_current)

lemma setCurrent_hits:
  assumes "setCurrent v pack d = Some (d1, n)" "pack \<in> set (map pr_ID (db_packs d))"
  shows "n \<noteq> 0"
  using assms by (auto simp: setCurrent_def Let_def filter_empty_conv split: if_splits)

interpretation sql: rulepack_store "sqlOps toJsonb byName" sqlInv sqlFresh "jsonbOf toJsonb" for toJsonb byName
proof unfold_locales
  fix r e pack n dsl a r' v
  assume ok: "sqlInv r" and tx: "ro_createVersionActivateTx (sqlOps toJsonb byName) e pack n dsl a r = (r', Inr v)"
  let ?Q = "\<lparr>sq_err = None, sq_new = oe_new e, sq_now = oe_now e, sq_toJsonb = toJsonb\<rparr>"
  obtain d1 k where d1: "insertVersion ?Q pack n dsl ''approved'' a r = Some d1" and r': "setCurrent (oe_new e) pack d1 = Some (r', k)"
    using tx by (auto simp: sqlOps_def sqlCreateVersionActivateTx_def Let_def split: option.splits)
  obtain w where w: "w \<in> set (db_versions d1)" "vr_ID w = oe_new e" "vr_DSL w = jsonbOf toJsonb dsl" "vr_Version w = n"
    using insertVersion_new(1) [OF d1] by auto
  have i: "sqlInv d1" by (rule insertVersion_inv [OF ok d1])
  have k: "k \<noteq> 0" using setCurrent_hits [OF r'] insertVersion_new(2,3) [OF d1] by simp
  show "sqlInv r' \<and> ro_getActive (sqlOps toJsonb byName) pack r' = Inr (jsonbOf toJsonb dsl, n)"
    using setCurrent_inv [OF i r'] activate_serves [OF i, of w pack r' k] r' k w by (simp add: sqlOps_def Let_def)
next
  fix r e pack n dsl s a r1 v r'
  assume ok: "sqlInv r" and c: "ro_createVersion (sqlOps toJsonb byName) e pack n dsl s a r = (r1, Inr v)"
    and act: "ro_activate (sqlOps toJsonb byName) pack v r1 = (r', None)"
  let ?Q = "\<lparr>sq_err = None, sq_new = oe_new e, sq_now = oe_now e, sq_toJsonb = toJsonb\<rparr>"
  have d1: "insertVersion ?Q pack n dsl s a r = Some r1" and v: "v = oe_new e"
    using c by (auto simp: sqlOps_def sqlCreateVersion_def Let_def split: option.splits)
  obtain k where k: "setCurrent v pack r1 = Some (r', k)" "k \<noteq> 0"
    using act by (auto simp: sqlOps_def sqlActivate_def Let_def split: option.splits if_splits)
  obtain w where w: "w \<in> set (db_versions r1)" "vr_ID w = v" "vr_DSL w = jsonbOf toJsonb dsl" "vr_Version w = n"
    using insertVersion_new(1) [OF d1] v by auto
  have i: "sqlInv r1" by (rule insertVersion_inv [OF ok d1])
  show "sqlInv r' \<and> ro_getActive (sqlOps toJsonb byName) pack r' = Inr (jsonbOf toJsonb dsl, n)"
    using setCurrent_inv [OF i k(1)] activate_serves [OF i, of w pack r' k] k w by (simp add: sqlOps_def Let_def)
next
  fix r e pack k p
  assume "sqlInv r"
  then show "sqlInv (ro_purge (sqlOps toJsonb byName) e pack k r)
      \<and> ro_getActive (sqlOps toJsonb byName) p (ro_purge (sqlOps toJsonb byName) e pack k r) = ro_getActive (sqlOps toJsonb byName) p r"
    using sqlPurge_inv [of r None pack k]
    by (auto simp: sqlOps_def Let_def sqlPurgeOldVersions_def deleteVersions_active split: option.splits)
next
  fix r pack r'
  assume "sqlInv r" and d: "ro_delete (sqlOps toJsonb byName) pack r = (r', None)"
  then have "sqlInv r'" using sqlDelete_inv [of r None None pack] by (simp add: sqlOps_def Let_def)
  moreover have "joined pack r' = []"
    using d by (auto simp: sqlOps_def Let_def sqlDelete_def joined_def split: option.splits if_splits)
  ultimately show "sqlInv r' \<and> (\<exists>err. ro_getActive (sqlOps toJsonb byName) pack r' = Inl err)"
    by (simp add: sqlOps_def Let_def sqlGetActive_def)
qed

section \<open>Properties\<close>

lemma approve_parts [simp]:
  "vr_ID (approve pack n v) = vr_ID v" "vr_RulepackID (approve pack n v) = vr_RulepackID v" "vr_Version (approve pack n v) = vr_Version v"
  by (auto simp: approve_def)

lemma sqlApprove_inv: "sqlInv d \<Longrightarrow> sqlInv (fst (sqlApproveVersion e pack n d))"
  by (auto simp: sqlApproveVersion_def sqlInv_def image_image comp_def split: option.splits)

lemma sqlActivateLatest_inv: "sqlInv d \<Longrightarrow> sqlInv (fst (sqlActivateLatest e pack d))"
  by (auto simp: sqlActivateLatest_def sqlActivate_inv split: sum.splits)

text \<open>The rows of a pack and those of all others.\<close>

definition own :: "uuid \<Rightarrow> packDb \<Rightarrow> versionRow list" where
  "own pack d = filter (\<lambda>v. vr_RulepackID v = pack) (db_versions d)"

definition others :: "uuid \<Rightarrow> packDb \<Rightarrow> packRow list \<times> versionRow list" where
  "others pack d = (filter (\<lambda>p. pr_ID p \<noteq> pack) (db_packs d), filter (\<lambda>v. vr_RulepackID v \<noteq> pack) (db_versions d))"

lemma others_insertVersion: "insertVersion Q pack n dsl s a d = Some d1 \<Longrightarrow> others pack d1 = others pack d"
  by (auto simp: insertVersion_def others_def split: option.splits if_splits)

lemma others_setCurrent: "setCurrent v pack d = Some (d1, n) \<Longrightarrow> others pack d1 = others pack d"
proof -
  have "filter (\<lambda>p. pr_ID p \<noteq> pack) (map (toCurrent v pack) ps) = filter (\<lambda>p. pr_ID p \<noteq> pack) ps" for ps
    by (induction ps) (auto simp: toCurrent_def)
  then show "setCurrent v pack d = Some (d1, n) \<Longrightarrow> others pack d1 = others pack d"
    by (auto simp: setCurrent_def others_def Let_def split: if_splits)
qed

lemma others_deleteVersions:
  assumes "deleteVersions P d = Some d1" "\<And>v. P v \<Longrightarrow> vr_RulepackID v = pack"
  shows "others pack d1 = others pack d"
proof -
  have "filter (\<lambda>v. vr_RulepackID v \<noteq> pack) (filter (\<lambda>v. \<not> P v) vs) = filter (\<lambda>v. vr_RulepackID v \<noteq> pack) vs" for vs
    using assms(2) by (induction vs) auto
  then show ?thesis unfolding deleteVersions_SomeD(1) [OF assms(1)] by (simp add: others_def)
qed

text \<open>Every statement names its pack: the rows of the other packs stay as they are.\<close>

lemma sql_frame:
  "others pack (fst (sqlCreateVersion Q pack n dsl s a d)) = others pack d"
  "others pack (fst (sqlCreateVersionActivateTx c Q pack n dsl a d)) = others pack d"
  "others pack (fst (sqlActivate e pack v d)) = others pack d"
  "others pack (fst (sqlActivateLatest e pack d)) = others pack d"
  "others pack (fst (sqlApproveVersion e pack n d)) = others pack d"
  "others pack (fst (sqlDelete e c pack d)) = others pack d"
  "others pack (fst (sqlPurgeOldVersions e pack k d)) = others pack d"
proof -
  show "others pack (fst (sqlCreateVersion Q pack n dsl s a d)) = others pack d"
    by (auto simp: sqlCreateVersion_def others_insertVersion split: option.splits)
  show "others pack (fst (sqlCreateVersionActivateTx c Q pack n dsl a d)) = others pack d"
    by (auto simp: sqlCreateVersionActivateTx_def dest!: others_insertVersion others_setCurrent split: option.splits)
  show act: "others pack (fst (sqlActivate e pack v d)) = others pack d" for v
    by (auto simp: sqlActivate_def others_setCurrent split: option.splits)
  show "others pack (fst (sqlActivateLatest e pack d)) = others pack d"
    by (auto simp: sqlActivateLatest_def act split: sum.splits)
  have "filter (\<lambda>v. vr_RulepackID v \<noteq> pack) (map (approve pack n) vs) = filter (\<lambda>v. vr_RulepackID v \<noteq> pack) vs" for vs
    by (induction vs) (auto simp: approve_def isDraft_def)
  then show "others pack (fst (sqlApproveVersion e pack n d)) = others pack d"
    by (auto simp: sqlApproveVersion_def others_def split: option.splits)
  have "others pack (d1\<lparr>db_packs := filter (\<lambda>p. pr_ID p \<noteq> pack) (db_packs d1)\<rparr>) = others pack d1" for d1 by (simp add: others_def)
  then show "others pack (fst (sqlDelete e c pack d)) = others pack d"
    by (auto simp: sqlDelete_def dest!: others_deleteVersions split: option.splits)
  show "others pack (fst (sqlPurgeOldVersions e pack k d)) = others pack d"
    by (auto simp: sqlPurgeOldVersions_def purged_def dest!: others_deleteVersions split: option.splits)
qed

lemma newestFirst_set: "set (newestFirst pack d) = set (own pack d)"
  by (simp add: newestFirst_def own_def)

lemma newestFirst_hd:
  assumes "newestFirst pack d = v # vs" "u \<in> set (own pack d)"
  shows "vr_Version u \<le> vr_Version v"
proof -
  have "sorted (map (\<lambda>v. - vr_Version v) (newestFirst pack d))" by (simp add: newestFirst_def)
  then show ?thesis using assms newestFirst_set [of pack d] by auto
qed

lemma activate_effect:
  assumes "sqlInv d" "sqlActivate e pack v d = (d', None)"
  shows "\<exists>w \<in> set (db_versions d). vr_ID w = v \<and> sqlGetActive None pack d' = Inr (vr_DSL w, vr_Version w)" "db_versions d' = db_versions d"
proof -
  obtain n where n: "setCurrent v pack d = Some (d', n)" "n \<noteq> 0"
    using assms(2) by (auto simp: sqlActivate_def split: option.splits if_splits)
  then obtain w where w: "w \<in> set (db_versions d)" "vr_ID w = v"
    by (auto simp: setCurrent_def Let_def split: if_splits)
  show "\<exists>w \<in> set (db_versions d). vr_ID w = v \<and> sqlGetActive None pack d' = Inr (vr_DSL w, vr_Version w)"
    using activate_serves [OF assms(1), of w pack d' n] n w by auto
  show "db_versions d' = db_versions d" using n by (auto simp: setCurrent_def Let_def split: if_splits)
qed

lemma activateLatest_effect:
  assumes "sqlInv d" "sqlActivateLatest e pack d = (d', None)"
  shows "\<exists>w \<in> set (own pack d). (\<forall>u \<in> set (own pack d). vr_Version u \<le> vr_Version w)
    \<and> sqlGetActive None pack d' = Inr (vr_DSL w, vr_Version w)"
proof -
  obtain w ws where w: "newestFirst pack d = w # ws" "sqlActivate e pack (vr_ID w) d = (d', None)"
    using assms(2) by (auto simp: sqlActivateLatest_def sqlGetLatestVersion_def split: option.splits list.splits)
  then have m: "w \<in> set (own pack d)" using newestFirst_set [of pack d] by auto
  obtain w' where w': "w' \<in> set (db_versions d)" "vr_ID w' = vr_ID w" "sqlGetActive None pack d' = Inr (vr_DSL w', vr_Version w')"
    using activate_effect(1) [OF assms(1) w(2)] by blast
  have "w' = w" using w'(1,2) m assms(1) by (auto simp: sqlInv_def own_def distinct_map dest: inj_onD)
  then show ?thesis using w' m newestFirst_hd [OF w(1)] by blast
qed

lemma purge_effect:
  assumes "sqlInv d" "sqlPurgeOldVersions e pack k d = (d', None)" "0 < k"
  shows "set (take (nat k) (newestFirst pack d)) \<subseteq> set (own pack d')" "set (own pack d') \<subseteq> set (own pack d)"
    "\<And>v. v \<in> set (own pack d') \<Longrightarrow> v \<in> set (take (nat k) (newestFirst pack d)) \<or> (\<exists>p \<in> set (db_packs d). pr_ID p = pack \<and> pr_Current p = Some (vr_ID v))"
    "sqlGetActive f q d' = sqlGetActive f q d"
proof -
  have dv: "deleteVersions (purged pack k d) d = Some d'"
    using assms(2,3) by (auto simp: sqlPurgeOldVersions_def split: option.splits)
  note d' = deleteVersions_SomeD(1) [OF dv]
  have top: "v \<in> set (own pack d)" if "v \<in> set (take (nat k) (newestFirst pack d))" for v
    using that newestFirst_set [of pack d] by (auto dest: in_set_takeD)
  show "set (take (nat k) (newestFirst pack d)) \<subseteq> set (own pack d')"
    using top by (auto simp: d' own_def purged_def)
  show "set (own pack d') \<subseteq> set (own pack d)" by (auto simp: d' own_def)
  show "sqlGetActive f q d' = sqlGetActive f q d" by (rule deleteVersions_active [OF dv])
  fix v assume v: "v \<in> set (own pack d')"
  show "v \<in> set (take (nat k) (newestFirst pack d)) \<or> (\<exists>p \<in> set (db_packs d). pr_ID p = pack \<and> pr_Current p = Some (vr_ID v))"
  proof (cases "vr_ID v \<in> set (map vr_ID (take (nat k) (newestFirst pack d)))")
    case True
    then obtain u where u: "u \<in> set (take (nat k) (newestFirst pack d))" "vr_ID u = vr_ID v" by auto
    have "u = v" using u(2) top [OF u(1)] v assms(1) by (auto simp: d' own_def sqlInv_def distinct_map dest: inj_onD)
    with u show ?thesis by blast
  next
    case False
    have "v \<in> set (db_versions d)" "vr_RulepackID v = pack" "\<not> purged pack k d v" using v by (auto simp: d' own_def)
    with False have "\<forall>p \<in> set (db_packs d). pr_Current p = Some (vr_ID v)" by (auto simp: purged_def list_ex_iff)
    moreover obtain p where "p \<in> set (db_packs d)" "pr_ID p = pack"
      using \<open>v \<in> set (db_versions d)\<close> \<open>vr_RulepackID v = pack\<close> assms(1) by (force simp: sqlInv_def)
    ultimately show ?thesis by blast
  qed
qed

lemma purge_outcome:
  assumes "sqlInv d"
  shows "case sqlPurgeOldVersions e pack k d of (d', Some _) \<Rightarrow> d' = d
       | (d', None) \<Rightarrow> if k \<le> 0 then d' = d
           else (\<forall>f q. sqlGetActive f q d' = sqlGetActive f q d) \<and> db_packs d' = db_packs d
             \<and> set (take (nat k) (newestFirst pack d)) \<subseteq> set (own pack d') \<and> set (own pack d') \<subseteq> set (own pack d)
             \<and> (\<forall>w \<in> set (own pack d'). w \<in> set (take (nat k) (newestFirst pack d))
                 \<or> (\<exists>p \<in> set (db_packs d). pr_ID p = pack \<and> pr_Current p = Some (vr_ID w)))"
proof (cases "sqlPurgeOldVersions e pack k d")
  case (Pair d' out)
  show ?thesis
  proof (cases out)
    case None
    show ?thesis
    proof (cases "k \<le> 0")
      case True
      then show ?thesis using Pair None by (simp add: sqlPurgeOldVersions_def)
    next
      case False
      then have k: "0 < k" by simp
      have "db_packs d' = db_packs d"
        using Pair by (auto simp: sqlPurgeOldVersions_def split: option.splits if_splits dest!: deleteVersions_SomeD(1))
      with purge_effect [OF assms Pair [unfolded None] k] False show ?thesis unfolding Pair None by simp
    qed
  next
    case (Some err)
    then show ?thesis using Pair by (auto simp: sqlPurgeOldVersions_def split: option.splits if_splits)
  qed
qed

lemma createVersion_effect:
  assumes "sqlCreateVersion Q pack n dsl s a d = (d', Inr v)"
  shows "db_packs d' = db_packs d \<and> own pack d' = own pack d @ [\<lparr>vr_ID = v, vr_RulepackID = pack, vr_Version = n,
      vr_DSL = jsonbOf (sq_toJsonb Q) dsl, vr_Status = s, vr_CreatedBy = a, vr_CreatedAt = sq_now Q\<rparr>] \<and> v = sq_new Q"
  using assms by (auto simp: sqlCreateVersion_def insertVersion_def jsonbOf_def own_def split: option.splits if_splits)

lemma approve_effect:
  assumes "sqlApproveVersion e pack n d = (d', None)"
  shows "db_packs d' = db_packs d" "own pack d' = map (\<lambda>v. if vr_Version v = n \<and> vr_Status v = ''draft'' then v\<lparr>vr_Status := ''approved''\<rparr> else v) (own pack d)"
    "\<exists>v \<in> set (own pack d). vr_Version v = n \<and> vr_Status v = ''draft''"
proof -
  have d': "d' = d\<lparr>db_versions := map (approve pack n) (db_versions d)\<rparr>" and ex: "list_ex (isDraft pack n) (db_versions d)"
    using assms by (auto simp: sqlApproveVersion_def split: option.splits if_splits)
  show "db_packs d' = db_packs d" by (simp add: d')
  have "filter (\<lambda>v. vr_RulepackID v = pack) (map (approve pack n) vs)
      = map (\<lambda>v. if vr_Version v = n \<and> vr_Status v = ''draft'' then v\<lparr>vr_Status := ''approved''\<rparr> else v) (filter (\<lambda>v. vr_RulepackID v = pack) vs)" for vs
    by (induction vs) (auto simp: approve_def isDraft_def)
  then show "own pack d' = map (\<lambda>v. if vr_Version v = n \<and> vr_Status v = ''draft'' then v\<lparr>vr_Status := ''approved''\<rparr> else v) (own pack d)"
    by (simp add: own_def d')
  show "\<exists>v \<in> set (own pack d). vr_Version v = n \<and> vr_Status v = ''draft''" using ex by (auto simp: own_def list_ex_iff isDraft_def)
qed

lemma delete_effect:
  "sqlDelete e c pack d = (d', None) \<Longrightarrow> own pack d' = [] \<and> pack \<notin> set (map pr_ID (db_packs d')) \<and> pack \<in> set (map pr_ID (db_packs d))"
  by (auto simp: sqlDelete_def own_def deleteVersions_def split: option.splits if_splits)

lemma sql_errors_keep:
  "sqlCreateVersion Q pack n dsl s a d = (d', Inl err) \<Longrightarrow> d' = d"
  "sqlActivate e pack v d = (d', Some err) \<Longrightarrow> d' = d" "sqlActivateLatest e pack d = (d', Some err) \<Longrightarrow> d' = d"
  "sqlApproveVersion e pack n d = (d', Some err) \<Longrightarrow> d' = d" "sqlDelete e c pack d = (d', Some err) \<Longrightarrow> d' = d"
  "sqlPurgeOldVersions e pack k d = (d', Some err) \<Longrightarrow> d' = d"
  by (auto simp: sqlCreateVersion_def sqlActivate_def sqlActivateLatest_def sqlApproveVersion_def sqlDelete_def sqlPurgeOldVersions_def
      split: option.splits sum.splits if_splits)

text \<open>
  C31. What the statements of the PostgreSQL store do, on tables whose constraints hold. None of them touches the
  packs and versions of another pack, and one that fails changes nothing. A version is added with the given number, text (as
  PostgreSQL writes the JSON), status and author; activating makes the version with the given identifier the one that is served, and activating the latest
  the pack's version with the highest number; approving changes the status of that draft of the pack and nothing
  else; deleting removes the pack and all its versions. Purging keeps the newest versions asked for and whatever is
  served to anybody, and of the pack it keeps nothing else but its current version.
\<close>

theorem sql_store_effects:
  assumes "sqlInv d"
  shows "others pack (fst (sqlCreateVersion Q pack n dsl s a d)) = others pack d \<and> others pack (fst (sqlActivate e pack v d)) = others pack d
    \<and> others pack (fst (sqlActivateLatest e pack d)) = others pack d \<and> others pack (fst (sqlApproveVersion e pack n d)) = others pack d
    \<and> others pack (fst (sqlDelete e c pack d)) = others pack d \<and> others pack (fst (sqlPurgeOldVersions e pack k d)) = others pack d
    \<and> (case sqlCreateVersion Q pack n dsl s a d of (d', Inl _) \<Rightarrow> d' = d
       | (d', Inr i) \<Rightarrow> db_packs d' = db_packs d \<and> own pack d' = own pack d @ [\<lparr>vr_ID = i, vr_RulepackID = pack, vr_Version = n,
           vr_DSL = jsonbOf (sq_toJsonb Q) dsl, vr_Status = s, vr_CreatedBy = a, vr_CreatedAt = sq_now Q\<rparr>])
    \<and> (case sqlActivate e pack v d of (d', Some _) \<Rightarrow> d' = d
       | (d', None) \<Rightarrow> db_versions d' = db_versions d
           \<and> (\<exists>w \<in> set (db_versions d). vr_ID w = v \<and> sqlGetActive None pack d' = Inr (vr_DSL w, vr_Version w)))
    \<and> (case sqlActivateLatest e pack d of (d', Some _) \<Rightarrow> d' = d
       | (d', None) \<Rightarrow> (\<exists>w \<in> set (own pack d). (\<forall>u \<in> set (own pack d). vr_Version u \<le> vr_Version w)
           \<and> sqlGetActive None pack d' = Inr (vr_DSL w, vr_Version w)))
    \<and> (case sqlApproveVersion e pack n d of (d', Some _) \<Rightarrow> d' = d
       | (d', None) \<Rightarrow> db_packs d' = db_packs d \<and> (\<exists>w \<in> set (own pack d). vr_Version w = n \<and> vr_Status w = ''draft'')
           \<and> own pack d' = map (\<lambda>w. if vr_Version w = n \<and> vr_Status w = ''draft'' then w\<lparr>vr_Status := ''approved''\<rparr> else w) (own pack d))
    \<and> (case sqlDelete e c pack d of (d', Some _) \<Rightarrow> d' = d
       | (d', None) \<Rightarrow> own pack d' = [] \<and> pack \<notin> set (map pr_ID (db_packs d')) \<and> pack \<in> set (map pr_ID (db_packs d)))
    \<and> (case sqlPurgeOldVersions e pack k d of (d', Some _) \<Rightarrow> d' = d
       | (d', None) \<Rightarrow> if k \<le> 0 then d' = d
           else (\<forall>f q. sqlGetActive f q d' = sqlGetActive f q d) \<and> db_packs d' = db_packs d
             \<and> set (take (nat k) (newestFirst pack d)) \<subseteq> set (own pack d') \<and> set (own pack d') \<subseteq> set (own pack d)
             \<and> (\<forall>w \<in> set (own pack d'). w \<in> set (take (nat k) (newestFirst pack d))
                 \<or> (\<exists>p \<in> set (db_packs d). pr_ID p = pack \<and> pr_Current p = Some (vr_ID w))))"
proof (intro conjI)
  show "case sqlCreateVersion Q pack n dsl s a d of (d', Inl _) \<Rightarrow> d' = d
       | (d', Inr i) \<Rightarrow> db_packs d' = db_packs d \<and> own pack d' = own pack d @ [\<lparr>vr_ID = i, vr_RulepackID = pack, vr_Version = n,
           vr_DSL = jsonbOf (sq_toJsonb Q) dsl, vr_Status = s, vr_CreatedBy = a, vr_CreatedAt = sq_now Q\<rparr>]"
    using createVersion_effect [of Q pack n dsl s a d] sql_errors_keep(1) [of Q pack n dsl s a d] by (auto split: prod.split sum.split)
  show "case sqlActivate e pack v d of (d', Some _) \<Rightarrow> d' = d
       | (d', None) \<Rightarrow> db_versions d' = db_versions d
           \<and> (\<exists>w \<in> set (db_versions d). vr_ID w = v \<and> sqlGetActive None pack d' = Inr (vr_DSL w, vr_Version w))"
    using activate_effect [OF assms, of e pack v] sql_errors_keep(2) [of e pack v d] by (auto split: prod.split option.split)
  show "case sqlActivateLatest e pack d of (d', Some _) \<Rightarrow> d' = d
       | (d', None) \<Rightarrow> (\<exists>w \<in> set (own pack d). (\<forall>u \<in> set (own pack d). vr_Version u \<le> vr_Version w)
           \<and> sqlGetActive None pack d' = Inr (vr_DSL w, vr_Version w))"
    using activateLatest_effect [OF assms, of e pack] sql_errors_keep(3) [of e pack d] by (auto split: prod.split option.split)
  show "case sqlApproveVersion e pack n d of (d', Some _) \<Rightarrow> d' = d
       | (d', None) \<Rightarrow> db_packs d' = db_packs d \<and> (\<exists>w \<in> set (own pack d). vr_Version w = n \<and> vr_Status w = ''draft'')
           \<and> own pack d' = map (\<lambda>w. if vr_Version w = n \<and> vr_Status w = ''draft'' then w\<lparr>vr_Status := ''approved''\<rparr> else w) (own pack d)"
    using approve_effect [of e pack n d] sql_errors_keep(4) [of e pack n d] by (auto split: prod.split option.split)
  show "case sqlDelete e c pack d of (d', Some _) \<Rightarrow> d' = d
       | (d', None) \<Rightarrow> own pack d' = [] \<and> pack \<notin> set (map pr_ID (db_packs d')) \<and> pack \<in> set (map pr_ID (db_packs d))"
    using delete_effect [of e c pack d] sql_errors_keep(5) [of e c pack d] by (auto split: prod.split option.split)
  show "case sqlPurgeOldVersions e pack k d of (d', Some _) \<Rightarrow> d' = d
       | (d', None) \<Rightarrow> if k \<le> 0 then d' = d
           else (\<forall>f q. sqlGetActive f q d' = sqlGetActive f q d) \<and> db_packs d' = db_packs d
             \<and> set (take (nat k) (newestFirst pack d)) \<subseteq> set (own pack d') \<and> set (own pack d') \<subseteq> set (own pack d)
             \<and> (\<forall>w \<in> set (own pack d'). w \<in> set (take (nat k) (newestFirst pack d))
                 \<or> (\<exists>p \<in> set (db_packs d). pr_ID p = pack \<and> pr_Current p = Some (vr_ID w)))"
    by (rule purge_outcome [OF assms])
qed (rule sql_frame)+

definition ownsActive :: "uuid \<Rightarrow> packDb \<Rightarrow> bool" where
  "ownsActive pack d \<longleftrightarrow> (\<exists>p \<in> set (db_packs d). \<exists>v \<in> set (db_versions d).
     pr_ID p = pack \<and> pr_Current p = Some (vr_ID v) \<and> vr_RulepackID v = pack)"

lemma ownsActive_undeletable: "ownsActive pack d \<Longrightarrow> \<exists>err. sqlDelete e c pack d = (d, Some (DbError err))"
proof -
  assume "ownsActive pack d"
  then obtain p v where "p \<in> set (db_packs d)" "v \<in> set (db_versions d)" "pr_Current p = Some (vr_ID v)" "vr_RulepackID v = pack"
    by (auto simp: ownsActive_def)
  then have "list_ex (\<lambda>v. vr_RulepackID v = pack \<and> Some (vr_ID v) \<in> set (map pr_Current (db_packs d))) (db_versions d)"
    by (force simp: list_ex_iff)
  then show ?thesis by (auto simp: sqlDelete_def deleteVersions_def split: option.splits)
qed

lemma ownsActive_tx:
  assumes "sqlCreateVersionActivateTx c Q pack n dsl a d = (d', Inr v)"
  shows "ownsActive pack d'"
proof -
  obtain d1 k where d1: "insertVersion Q pack n dsl ''approved'' a d = Some d1" and d': "setCurrent (sq_new Q) pack d1 = Some (d', k)"
    using assms by (auto simp: sqlCreateVersionActivateTx_def split: option.splits)
  obtain w where w: "w \<in> set (db_versions d1)" "vr_ID w = sq_new Q" "vr_RulepackID w = pack"
    using insertVersion_new(1) [OF d1] by auto
  obtain p where p: "p \<in> set (db_packs d1)" "pr_ID p = pack"
    using insertVersion_new(2,3) [OF d1] by auto
  have "d' = d1\<lparr>db_packs := map (toCurrent (sq_new Q) pack) (db_packs d1)\<rparr>"
    using d' by (auto simp: setCurrent_def Let_def split: if_splits)
  then have "toCurrent (sq_new Q) pack p \<in> set (db_packs d')" "w \<in> set (db_versions d')" using p w by auto
  then show ?thesis using p w unfolding ownsActive_def
    by (intro bexI [of _ "toCurrent (sq_new Q) pack p"] bexI [of _ w]) simp_all
qed

lemma ownsActive_purge: "ownsActive pack d \<Longrightarrow> ownsActive pack (fst (sqlPurgeOldVersions e pack k d))"
proof -
  have "ownsActive pack d1" if "ownsActive pack d" "deleteVersions P d = Some d1" for d1 P
    using that(1) deleteVersions_SomeD [OF that(2)] unfolding ownsActive_def by (simp, metis)
  then show "ownsActive pack d \<Longrightarrow> ?thesis" by (auto simp: sqlPurgeOldVersions_def split: option.splits)
qed

text \<open>
  A rule pack that the service activated on PostgreSQL can never be deleted through the service: the
  versions are deleted before the pack that refers to one of them, which the foreign key forbids.
\<close>

theorem sql_activated_undeletable:
  assumes "CreateVersionActivate G (sqlOps toJsonb byName) sha ends e tenant pack n dsl sv = (sv', None)"
  shows "\<exists>err. Delete (sqlOps toJsonb byName) tenant' pack sv' = (sv', Some (RepoError (DbError err)))"
proof -
  let ?Q = "\<lparr>sq_err = None, sq_new = oe_new e, sq_now = oe_now e, sq_toJsonb = toJsonb\<rparr>"
  obtain r v where tx: "sqlCreateVersionActivateTx None ?Q pack n dsl 0 (sv_repo sv) = (r, Inr v)"
    and sv': "sv_repo sv' = fst (sqlPurgeOldVersions None pack (retentionFromEnv G) r)"
    using assms by (auto simp: CreateVersionActivate_def sqlOps_def publish_def Let_def split: option.splits prod.splits sum.splits if_splits)
  have "ownsActive pack (sv_repo sv')" unfolding sv' by (rule ownsActive_purge [OF ownsActive_tx [OF tx]])
  then obtain err where "sqlDelete None None pack (sv_repo sv') = (sv_repo sv', Some (DbError err))"
    using ownsActive_undeletable [of pack "sv_repo sv'" None None] by auto
  then show ?thesis by (auto simp: Delete_def sqlOps_def Let_def)
qed

text \<open>
  Purging does nothing at all when the current version of the pack is not among the newest: the
  statement takes the current version for one to delete as soon as there is another pack with
  another current version, or none, and then the foreign key makes the whole statement fail.
\<close>

theorem sql_purge_blocked:
  assumes "p \<in> set (db_packs d)" "pr_ID p = pack" "pr_Current p = Some (vr_ID v)" "v \<in> set (db_versions d)" "vr_RulepackID v = pack"
    and "vr_ID v \<notin> set (map vr_ID (take (nat keep) (newestFirst pack d)))"
    and "q \<in> set (db_packs d)" "pr_Current q \<noteq> Some (vr_ID v)" "0 < keep"
  shows "\<exists>err. sqlPurgeOldVersions e pack keep d = (d, Some (DbError err))"
proof -
  have "purged pack keep d v" using assms by (auto simp: purged_def list_ex_iff)
  then have "deleteVersions (purged pack keep d) d = None"
    using assms(1,3,4) by (auto simp: deleteVersions_def list_ex_iff image_iff; metis)
  then show ?thesis using assms(9) by (auto simp: sqlPurgeOldVersions_def failed_def split: option.splits)
qed

text \<open>
  On PostgreSQL too a version activated through the service reaches the enforcer: it is among the
  packs an enforcer of the tenant loads, decoded from the text as the database gives it back.
\<close>

theorem sql_activated_pack_loaded:
  assumes "sqlInv (sv_repo sv)" "sqlFresh e (sv_repo sv)"
    and "CreateVersionActivate G (sqlOps toJsonb byName) sha ends e tenant pack n dsl sv = (sv', None)"
    and "p \<in> set (db_packs (sv_repo sv))" "pr_ID p = pack" "pr_TenantID p = tenant"
    and "decode (jsonbOf toJsonb dsl) = Inr rp" "\<And>ps. set (byName ps) = set ps"
  shows "\<exists>packs. LoadRulesFromDatabase (sqlOps toJsonb byName) decode e' tenant (sv_repo sv') = Inr packs \<and> rp \<in> set packs"
proof -
  let ?r = "sv_repo sv'" and ?O = "sqlOps toJsonb byName"
  let ?Q = "\<lparr>sq_err = None, sq_new = oe_new e, sq_now = oe_now e, sq_toJsonb = toJsonb\<rparr>"
  have act: "ro_getActive ?O pack ?r = Inr (jsonbOf toJsonb dsl, n)"
    using sql.CreateVersionActivate_serves [OF assms(1-3)] by simp
  obtain r v where tx: "sqlCreateVersionActivateTx None ?Q pack n dsl 0 (sv_repo sv) = (r, Inr v)"
    and r: "?r = fst (sqlPurgeOldVersions None pack (retentionFromEnv G) r)"
    using assms(3) by (auto simp: CreateVersionActivate_def sqlOps_def publish_def Let_def split: option.splits prod.splits sum.splits if_splits)
  have "db_packs ?r = db_packs r" unfolding r
    by (auto simp: sqlPurgeOldVersions_def split: option.splits dest!: deleteVersions_SomeD(1))
  moreover have "toCurrent (oe_new e) pack p \<in> set (db_packs r)"
    using tx assms(4) by (auto simp: sqlCreateVersionActivateTx_def setCurrent_def insertVersion_def Let_def split: option.splits if_splits)
  ultimately have "sqlInfo ?r (toCurrent (oe_new e) pack p) \<in> set (map (sqlInfo ?r) (byName (filter (\<lambda>p. pr_TenantID p = tenant) (db_packs ?r))))"
    using assms(6,8) by auto
  moreover have "activePack ?O decode ?r (sqlInfo ?r (toCurrent (oe_new e) pack p)) = [rp]"
    using act assms(5,7) by (simp add: activePack_def sqlInfo_def)
  ultimately show ?thesis by (force simp: LoadRulesFromDatabase_def sqlOps_def sqlListByTenant_def Let_def)
qed

section \<open>Witnesses\<close>

definition onePack :: packDb where
  "onePack = \<lparr>db_tenants = [1],
     db_packs = [\<lparr>pr_ID = 2, pr_TenantID = 1, pr_Name = ''a'', pr_Description = [], pr_Current = None\<rparr>,
                 \<lparr>pr_ID = 3, pr_TenantID = 1, pr_Name = ''b'', pr_Description = [], pr_Current = None\<rparr>],
     db_versions = []\<rparr>"

abbreviation plainOps :: "packDb repoOps" where
  "plainOps \<equiv> sqlOps Some (\<lambda>ps. ps)"

definition newService :: "packDb service" where
  "newService = \<lparr>sv_repo = onePack, sv_hasPub = False, sv_hasAudit = False, sv_published = [], sv_audited = []\<rparr>"

definition opEnv7 :: opEnv where
  "opEnv7 = \<lparr>oe_now = 1, oe_new = 7, oe_ord = []\<rparr>"

definition servedPack :: "packDb service" where
  "servedPack = newService\<lparr>sv_repo := onePack\<lparr>
     db_packs := [\<lparr>pr_ID = 2, pr_TenantID = 1, pr_Name = ''a'', pr_Description = [], pr_Current = Some 7\<rparr>,
                  \<lparr>pr_ID = 3, pr_TenantID = 1, pr_Name = ''b'', pr_Description = [], pr_Current = None\<rparr>],
     db_versions := [\<lparr>vr_ID = 7, vr_RulepackID = 2, vr_Version = 1, vr_DSL = ''{}'', vr_Status = ''approved'', vr_CreatedBy = 0, vr_CreatedAt = 1\<rparr>]\<rparr>\<rparr>"

lemma onePack_inv: "sqlInv onePack"
  by (simp add: sqlInv_def onePack_def)

lemma activate_run: "CreateVersionActivate litLib plainOps id None opEnv7 1 2 1 ''{}'' newService = (servedPack, None)"
  by (simp add: CreateVersionActivate_def canaryDelay_def retentionFromEnv_def litLib_def sqlOps_def sqlCreateVersionActivateTx_def insertVersion_def
      setCurrent_def toCurrent_def publish_def sqlPurgeOldVersions_def deleteVersions_def purged_def newestFirst_def statuses_def
      newService_def onePack_def servedPack_def opEnv7_def Let_def)

lemma servedPack_inv: "sqlInv (sv_repo servedPack)"
  by (simp add: sqlInv_def servedPack_def newService_def onePack_def these_current subset_iff)

theorem sql_store_effects_witness:
  "others 3 (fst (sqlDelete None None 3 (sv_repo servedPack))) = others 3 (sv_repo servedPack)
   \<and> snd (sqlDelete None None 3 (sv_repo servedPack)) = None \<and> own 3 (fst (sqlDelete None None 3 (sv_repo servedPack))) = []
   \<and> (\<exists>w \<in> set (own 2 (sv_repo servedPack)). sqlGetActive None 2 (fst (sqlActivateLatest None 2 (sv_repo servedPack))) = Inr (vr_DSL w, vr_Version w))"
proof -
  have ok: "snd (sqlDelete None None 3 (sv_repo servedPack)) = None" "snd (sqlActivateLatest None 2 (sv_repo servedPack)) = None"
    by (simp_all add: sqlDelete_def deleteVersions_def sqlActivateLatest_def sqlGetLatestVersion_def newestFirst_def sqlActivate_def setCurrent_def
        servedPack_def newService_def onePack_def)
  note all = sql_store_effects [OF servedPack_inv, where e = None and c = None]
  have "others 3 (fst (sqlDelete None None 3 (sv_repo servedPack))) = others 3 (sv_repo servedPack)" using all [of 3] by blast
  moreover have "own 3 (fst (sqlDelete None None 3 (sv_repo servedPack))) = []"
    using all [of 3] ok(1) by (cases "sqlDelete None None 3 (sv_repo servedPack)") (simp only: prod.case snd_conv fst_conv option.case)
  moreover have "\<exists>w \<in> set (own 2 (sv_repo servedPack)). sqlGetActive None 2 (fst (sqlActivateLatest None 2 (sv_repo servedPack))) = Inr (vr_DSL w, vr_Version w)"
    using all [of 2] ok(2) by (cases "sqlActivateLatest None 2 (sv_repo servedPack)") (simp only: prod.case snd_conv fst_conv option.case, blast)
  ultimately show ?thesis using ok(1) by blast
qed

theorem sql_activated_undeletable_witness:
  "\<exists>err. Delete plainOps 1 2 servedPack = (servedPack, Some (RepoError (DbError err)))"
  by (rule sql_activated_undeletable [OF activate_run])

theorem sql_activated_pack_loaded_witness:
  "\<exists>packs. LoadRulesFromDatabase plainOps (\<lambda>dsl. Inr zeroPack) opEnv7 1 (sv_repo servedPack) = Inr packs \<and> zeroPack \<in> set packs"
proof (rule sql_activated_pack_loaded [OF _ _ activate_run])
  show "sqlInv (sv_repo newService)" by (simp add: newService_def onePack_inv)
  show "sqlFresh opEnv7 (sv_repo newService)" by (simp add: newService_def sqlFresh_def opEnv7_def onePack_def)
  show "hd (db_packs onePack) \<in> set (db_packs (sv_repo newService))" "pr_ID (hd (db_packs onePack)) = 2" "pr_TenantID (hd (db_packs onePack)) = 1"
    by (simp_all add: newService_def onePack_def)
qed simp_all

definition crowdedPack :: packDb where
  "crowdedPack = (sv_repo servedPack)\<lparr>db_versions := db_versions (sv_repo servedPack)
     @ [\<lparr>vr_ID = 8, vr_RulepackID = 2, vr_Version = 2, vr_DSL = ''{}'', vr_Status = ''draft'', vr_CreatedBy = 0, vr_CreatedAt = 1\<rparr>]\<rparr>"

theorem sql_purge_blocked_witness: "\<exists>err. sqlPurgeOldVersions None 2 1 crowdedPack = (crowdedPack, Some (DbError err))"
  by (rule sql_purge_blocked [where p = "hd (db_packs crowdedPack)" and q = "last (db_packs crowdedPack)" and v = "hd (db_versions crowdedPack)"])
     (simp_all add: crowdedPack_def servedPack_def onePack_def newService_def newestFirst_def)

end
