(* ===== verification/Rulepack_API.thy ===== *)
theory Rulepack_API
  imports Rulepack_SQL Admin_API
begin

text \<open>
  The HTTP handlers of rule packs, \<^verbatim>\<open>internal/interfaces/http/api/rulepacks.go\<close>, over the rule
  pack service and whatever store it has. The cache of answers by idempotency key is a map. How
  errors are written, the reading of files, the clock and new identifiers are arguments; creating a
  pack and uploading its version each take their own.
\<close>

section \<open>Data\<close>

record rulepackMeta =
  rm_ID :: string
  rm_Name :: string
  rm_Version :: string
  rm_Source :: string
  rm_Active :: bool

record ('r, 'rx) packApi =
  pa_ops :: "'r repoOps"
  pa_lib :: "'rx golib"
  pa_sha :: "string \<Rightarrow> string"
  pa_parse :: "string \<Rightarrow> dslErr + rulePack"
  pa_show :: "uuid \<Rightarrow> string"
  pa_uuid :: "string \<Rightarrow> uuid option"
  pa_svcErr :: "serviceErr \<Rightarrow> string"
  pa_dslErr :: "dslErr \<Rightarrow> string"

type_synonym idemStore = "string \<rightharpoonup> rulepackMeta"

definition defaultTenantID :: uuid where
  "defaultTenantID = 1"

section \<open>Handlers\<close>

definition internalError :: "('r, 'rx) packApi \<Rightarrow> serviceErr \<Rightarrow> 'a httpReply" where
  "internalError A err = ErrorReply 500 ''INTERNAL_ERROR'' (pa_svcErr A err) []"

definition invalidArgument :: "string \<Rightarrow> 'a httpReply" where
  "invalidArgument msg = ErrorReply 400 ''INVALID_ARGUMENT'' msg []"

definition metaOf :: "('r, 'rx) packApi \<Rightarrow> rulepackInfo \<Rightarrow> rulepackMeta" where
  "metaOf A rp = \<lparr>rm_ID = pa_show A (ri_ID rp), rm_Name = ri_Name rp, rm_Version = itoa (ri_Version rp), rm_Source = [], rm_Active = ri_Active rp\<rparr>"

definition listRulepacks :: "('r, 'rx) packApi \<Rightarrow> opEnv \<Rightarrow> 'r service \<Rightarrow> rulepackMeta list httpReply" where
  "listRulepacks A e sv =
     (case ro_listByTenant (pa_ops A) e defaultTenantID (sv_repo sv) of
        Inl err \<Rightarrow> internalError A (RepoError err)
      | Inr rps \<Rightarrow> OkReply 200 (map (metaOf A) rps))"

definition zeroMeta :: rulepackMeta where
  "zeroMeta = \<lparr>rm_ID = [], rm_Name = [], rm_Version = [], rm_Source = [], rm_Active = False\<rparr>"

definition activeRulepack :: "('r, 'rx) packApi \<Rightarrow> opEnv \<Rightarrow> 'r service \<Rightarrow> rulepackMeta httpReply" where
  "activeRulepack A e sv =
     (case ro_listByTenant (pa_ops A) e defaultTenantID (sv_repo sv) of
        Inl err \<Rightarrow> internalError A (RepoError err)
      | Inr rps \<Rightarrow> OkReply 200 (case find ri_Active rps of None \<Rightarrow> zeroMeta | Some rp \<Rightarrow> metaOf A rp))"

definition validateRulepack :: "'rx golib \<Rightarrow> (string + (yaml \<Rightarrow> schemaErr option)) \<Rightarrow> (rulePack \<Rightarrow> yaml) \<Rightarrow> (string \<Rightarrow> string + rulePack) \<Rightarrow> string
    \<Rightarrow> (bool \<times> dslErr list) httpReply" where
  "validateRulepack G sch encode decode body = OkReply 200 (ValidateDSL G sch encode decode body)"

text \<open>Creating a pack and its first version, which uploading and reloading share.\<close>

definition createFirst :: "('r, 'rx) packApi \<Rightarrow> string option \<Rightarrow> opEnv \<Rightarrow> opEnv \<Rightarrow> string \<Rightarrow> bool \<Rightarrow> (rulePack \<Rightarrow> string) \<Rightarrow> 'r service
    \<Rightarrow> 'r service \<times> (rulepackMeta httpReply + rulepackMeta)" where
  "createFirst A ends e1 e2 data activate source sv =
     (case pa_parse A data of
        Inl err \<Rightarrow> (sv, Inl (invalidArgument (pa_dslErr A err)))
      | Inr pack \<Rightarrow>
          (case Create (pa_ops A) e1 defaultTenantID (m_Name (p_Metadata pack)) (m_Description (p_Metadata pack)) sv of
             (sv1, Inl (NameExists n)) \<Rightarrow> (sv1, Inl (ErrorReply 409 ''ALREADY_EXISTS'' (pa_svcErr A (NameExists n)) []))
           | (sv1, Inl err) \<Rightarrow> (sv1, Inl (internalError A err))
           | (sv1, Inr packID) \<Rightarrow>
               (case Upload (pa_lib A) (pa_ops A) (pa_sha A) ends e2 defaultTenantID packID 1 data activate sv1 of
                  (sv2, v, Some err) \<Rightarrow> (sv2, Inl (internalError A err))
                | (sv2, v, None) \<Rightarrow>
                    (sv2, Inr \<lparr>rm_ID = pa_show A packID, rm_Name = m_Name (p_Metadata pack), rm_Version = itoa 1,
                               rm_Source = source pack, rm_Active = activate\<rparr>))))"

text \<open>The body of an upload: a multipart form that fails to parse or lacks the file, or the data.\<close>

datatype upload = BadForm string | NoFile | Data string

definition createRulepack :: "('r, 'rx) packApi \<Rightarrow> string option \<Rightarrow> opEnv \<Rightarrow> opEnv \<Rightarrow> string \<Rightarrow> string \<Rightarrow> upload \<Rightarrow> idemStore \<times> 'r service
    \<Rightarrow> (idemStore \<times> 'r service) \<times> rulepackMeta httpReply" where
  "createRulepack A ends e1 e2 idemKey activateParam body s =
     (case s of (idem, sv) \<Rightarrow>
        (case (if idemKey \<noteq> [] then idem idemKey else None) of
           Some meta \<Rightarrow> ((idem, sv), OkReply 200 meta)
         | None \<Rightarrow>
             (case body of
                BadForm err \<Rightarrow> ((idem, sv), ErrorReply 400 ''INVALID_ARGUMENT'' ''invalid multipart form'' [(''error'', err)])
              | NoFile \<Rightarrow> ((idem, sv), invalidArgument ''missing file'')
              | Data data \<Rightarrow>
                  (case createFirst A ends e1 e2 data (activateParam = ''true'') p_SourcePath sv of
                     (sv', Inl r) \<Rightarrow> ((idem, sv'), r)
                   | (sv', Inr meta) \<Rightarrow> ((if idemKey \<noteq> [] then idem(idemKey \<mapsto> meta) else idem, sv'), OkReply 201 meta)))))"

definition reloadRulepack :: "('r, 'rx) packApi \<Rightarrow> string option \<Rightarrow> opEnv \<Rightarrow> opEnv \<Rightarrow> (string \<Rightarrow> string + string) \<Rightarrow> string \<Rightarrow> 'r service
    \<Rightarrow> 'r service \<times> rulepackMeta httpReply" where
  "reloadRulepack A ends e1 e2 readFile pathParam sv =
     (let path = (if pathParam = [] then getenv (pa_lib A) ''PS_ENFORCER_RULEPACK'' else pathParam)
      in if path = [] then (sv, invalidArgument ''no path provided'')
         else case readFile path of
                Inl err \<Rightarrow> (sv, invalidArgument (''failed to read file: '' @ err))
              | Inr data \<Rightarrow>
                  (case createFirst A ends e1 e2 data True (\<lambda>pack. path) sv of
                     (sv', Inl r) \<Rightarrow> (sv', r)
                   | (sv', Inr meta) \<Rightarrow> (sv', OkReply 200 meta)))"

definition etag :: "string \<Rightarrow> string" where
  "etag v = [CHR 0x22] @ v @ [CHR 0x22]"

text \<open>The reply carries the new tag. \<open>reqID\<close> is the field of the body, empty if the body is no JSON.\<close>

definition setActiveRulepack :: "('r, 'rx) packApi \<Rightarrow> string option \<Rightarrow> opEnv \<Rightarrow> string \<Rightarrow> string \<Rightarrow> 'r service
    \<Rightarrow> 'r service \<times> (string \<times> rulepackMeta) httpReply" where
  "setActiveRulepack A ends e ifMatch reqID sv =
     (if reqID = [] then (sv, invalidArgument ''missing id'')
      else case pa_uuid A reqID of
             None \<Rightarrow> (sv, invalidArgument ''invalid id format'')
           | Some packID \<Rightarrow>
               let curVer = (case ro_getActive (pa_ops A) packID (sv_repo sv) of Inl err \<Rightarrow> 0 | Inr (dsl, n) \<Rightarrow> n);
                   expected = etag (itoa curVer)
               in if ifMatch = [] then (sv, ErrorReply 428 ''PRECONDITION_REQUIRED'' ''If-Match header required'' [])
                  else if ifMatch \<noteq> ''*'' \<and> ifMatch \<noteq> expected
                  then (sv, ErrorReply 412 ''PRECONDITION_FAILED'' ''ETag mismatch'' [(''expected'', expected), (''got'', ifMatch)])
                  else case ServiceActivateLatest (pa_lib A) (pa_ops A) (pa_sha A) ends e defaultTenantID packID sv of
                         (sv1, Some err) \<Rightarrow> (sv1, internalError A err)
                       | (sv1, None) \<Rightarrow>
                           (case ro_listByTenant (pa_ops A) e defaultTenantID (sv_repo sv1) of
                              Inl err \<Rightarrow> (sv1, internalError A (RepoError err))
                            | Inr rps \<Rightarrow>
                                (case find (\<lambda>rp. ri_ID rp = packID \<and> ri_Active rp) rps of
                                   None \<Rightarrow> (sv1, ErrorReply 404 ''NOT_FOUND'' ''rulepack not found'' [])
                                 | Some rp \<Rightarrow> (sv1, OkReply 200 (etag (itoa (ri_Version rp)), metaOf A rp)))))"

definition deleteRulepack :: "('r, 'rx) packApi \<Rightarrow> string \<Rightarrow> 'r service \<Rightarrow> 'r service \<times> unit httpReply" where
  "deleteRulepack A idStr sv =
     (case pa_uuid A idStr of
        None \<Rightarrow> (sv, invalidArgument ''invalid id format'')
      | Some packID \<Rightarrow>
          (case Delete (pa_ops A) defaultTenantID packID sv of
             (sv1, Some err) \<Rightarrow> (sv1, internalError A err)
           | (sv1, None) \<Rightarrow> (sv1, NoContent)))"

section \<open>Idempotent creation\<close>

text \<open>The requests to the handlers that change something, one after the other.\<close>

datatype packRequest =
    CreateRequest "string option" opEnv opEnv string string upload
  | ReloadRequest "string option" opEnv opEnv "string \<Rightarrow> string + string" string
  | SetActiveRequest "string option" opEnv string string
  | DeleteRequest string

fun servePack :: "('r, 'rx) packApi \<Rightarrow> packRequest \<Rightarrow> idemStore \<times> 'r service \<Rightarrow> idemStore \<times> 'r service" where
  "servePack A (CreateRequest ends e1 e2 key act body) s = fst (createRulepack A ends e1 e2 key act body s)"
| "servePack A (ReloadRequest ends e1 e2 readFile path) (idem, sv) = (idem, fst (reloadRulepack A ends e1 e2 readFile path sv))"
| "servePack A (SetActiveRequest ends e ifMatch reqID) (idem, sv) = (idem, fst (setActiveRulepack A ends e ifMatch reqID sv))"
| "servePack A (DeleteRequest idStr) (idem, sv) = (idem, fst (deleteRulepack A idStr sv))"

lemma createRulepack_idem:
  "fst (fst (createRulepack A ends e1 e2 key act body s)) = fst s
   \<or> (\<exists>meta. key \<noteq> [] \<and> fst s key = None \<and> fst (fst (createRulepack A ends e1 e2 key act body s)) = (fst s)(key \<mapsto> meta))"
proof -
  obtain idem sv where s: "s = (idem, sv)" by (meson surj_pair)
  show ?thesis unfolding s by (auto simp: createRulepack_def split: option.splits upload.splits prod.splits sum.splits)
qed

lemma servePack_idem: "fst s key = Some meta \<Longrightarrow> fst (servePack A q s) key = Some meta"
proof (cases q)
  case (CreateRequest ends e1 e2 key' act body)
  then show "fst s key = Some meta \<Longrightarrow> fst (servePack A q s) key = Some meta"
    using createRulepack_idem [of A ends e1 e2 key' act body s] by auto
qed (cases s; simp)+

lemma served_idem: "fst s key = Some meta \<Longrightarrow> fst (fold (servePack A) qs s) key = Some meta"
  by (induction qs arbitrary: s) (simp_all add: servePack_idem)

text \<open>
  C33. A retry with the same idempotency key does nothing, however late: once a creation with a key has
  succeeded, and whatever requests to create (with this or other keys), reload, activate and delete rule packs the process has served
  since, every creation with that key, whatever its body, answers 200 with the same description and leaves
  store, messages, audit and the remembered answers as they are, also when the pack was deleted meanwhile.
\<close>

theorem retry_idempotent:
  assumes "createRulepack A ends e1 e2 key act body s = (s', OkReply 201 meta)" "key \<noteq> []"
  shows "createRulepack A ends' e1' e2' key act' body' (fold (servePack A) qs s') = (fold (servePack A) qs s', OkReply 200 meta)"
proof -
  have "fst s' key = Some meta"
    using assms by (auto simp: createRulepack_def invalidArgument_def createFirst_def internalError_def
        split: option.splits prod.splits sum.splits upload.splits if_splits serviceErr.splits)
  then have "fst (fold (servePack A) qs s') key = Some meta" by (rule served_idem)
  then show ?thesis using assms(2) by (cases "fold (servePack A) qs s'") (simp add: createRulepack_def)
qed

section \<open>Creation on PostgreSQL\<close>

definition named :: "uuid \<Rightarrow> string \<Rightarrow> packDb \<Rightarrow> bool" where
  "named tenant name d \<longleftrightarrow> (tenant, name) \<in> set (map (\<lambda>p. (pr_TenantID p, pr_Name p)) (db_packs d))"

lemma Create_named:
  assumes "pa_ops A = sqlOps toJsonb byName" "\<And>ps. set (byName ps) = set ps" "named tenant name (sv_repo sv)"
  shows "Create (pa_ops A) e tenant name desc sv = (sv, Inl (NameExists name))"
proof -
  have "list_ex (\<lambda>i. ri_Name i = name) (map (sqlInfo d) (byName (filter (\<lambda>p. pr_TenantID p = tenant) (db_packs d))))"
    if "named tenant name d" for d
    using that assms(2) by (force simp: named_def list_ex_iff sqlInfo_def)
  then show ?thesis using assms(1,3) by (simp add: Create_def sqlOps_def sqlListByTenant_def Let_def)
qed

lemma createFirst_named:
  assumes "pa_ops A = sqlOps toJsonb byName" "\<And>ps. set (byName ps) = set ps"
    and "pa_parse A data = Inr pack" "named defaultTenantID (m_Name (p_Metadata pack)) (sv_repo sv)"
  shows "\<exists>msg. createFirst A ends e1 e2 data act src sv = (sv, Inl (ErrorReply 409 ''ALREADY_EXISTS'' msg []))"
  using Create_named [OF assms(1,2,4)] assms(3) by (simp add: createFirst_def)

lemma Create_ok_named:
  assumes "Create (sqlOps toJsonb byName) e tenant name desc sv = (sv', Inr i)"
  shows "named tenant name (sv_repo sv')" "i \<in> set (map pr_ID (db_packs (sv_repo sv')))"
  using assms by (auto simp: Create_def sqlOps_def sqlCreate_def named_def emitAudit_def Let_def split: sum.splits prod.splits if_splits)

lemma named_steps:
  "named t n d \<Longrightarrow> named t n (fst (sqlCreateVersion Q pack v dsl s a d))"
  "named t n d \<Longrightarrow> named t n (fst (sqlActivate err pack i d))"
  by (auto simp: named_def sqlCreateVersion_def sqlActivate_def insertVersion_def setCurrent_def Let_def image_image split: option.splits if_splits)

lemma Upload_named:
  assumes "named t n (sv_repo sv)"
  shows "named t n (sv_repo (fst (Upload G (sqlOps toJsonb byName) sha ends e tenant pack version dsl act sv)))"
proof -
  let ?Q = "\<lparr>sq_err = None, sq_new = oe_new e, sq_now = oe_now e, sq_toJsonb = toJsonb\<rparr>"
  note step = named_steps [OF assms]
  have c: "named t n r" if "sqlCreateVersion ?Q pack version dsl s a (sv_repo sv) = (r, x)" for r s a x
    using step(1) [of ?Q pack version dsl s a] that by simp
  have a: "named t n r'" if "sqlActivate None pack i r = (r', x)" "named t n r" for r r' i x
    using named_steps(2) [OF that(2), of None pack i] that(1) by simp
  show ?thesis
    using assms by (auto simp: Upload_def sqlOps_def Let_def emitAudit_def publish_def dest: c a split: prod.splits sum.splits option.splits)
qed

lemma createFirst_ok_named:
  assumes "pa_ops A = sqlOps toJsonb byName" "createFirst A ends e1 e2 data act src sv = (sv', Inr meta)" "pa_parse A data = Inr pack"
  shows "named defaultTenantID (m_Name (p_Metadata pack)) (sv_repo sv')"
proof -
  obtain sv1 i where sv1: "Create (sqlOps toJsonb byName) e1 defaultTenantID (m_Name (p_Metadata pack)) (m_Description (p_Metadata pack)) sv = (sv1, Inr i)"
    and sv': "sv' = fst (Upload (pa_lib A) (sqlOps toJsonb byName) (pa_sha A) ends e2 defaultTenantID i 1 data act sv1)"
    using assms by (auto simp: createFirst_def split: prod.splits sum.splits option.splits serviceErr.splits)
  show ?thesis unfolding sv' by (rule Upload_named [OF Create_ok_named(1) [OF sv1]])
qed

text \<open>
  Reloading a rule pack works once: on PostgreSQL, after a reload of a file that succeeded, reloading
  a file whose pack has the same name, the same file above all, is answered with 409 and changes nothing.
\<close>

theorem reload_only_once:
  assumes "pa_ops A = sqlOps toJsonb byName" "\<And>ps. set (byName ps) = set ps"
    and "reloadRulepack A ends e1 e2 readFile path sv = (sv', OkReply 200 meta)" "path \<noteq> []" "readFile path = Inr data"
    and "pa_parse A data = Inr pack" "readFile' path' = Inr data'" "path' \<noteq> []" "pa_parse A data' = Inr pack'"
    and "m_Name (p_Metadata pack') = m_Name (p_Metadata pack)"
  shows "\<exists>msg. reloadRulepack A ends' e1' e2' readFile' path' sv' = (sv', ErrorReply 409 ''ALREADY_EXISTS'' msg [])"
proof -
  have "createFirst A ends e1 e2 data True (\<lambda>pack. path) sv = (sv', Inr meta)"
    using assms(3-5) by (auto simp: reloadRulepack_def createFirst_def internalError_def invalidArgument_def Let_def
        split: prod.splits sum.splits option.splits serviceErr.splits)
  then have "named defaultTenantID (m_Name (p_Metadata pack')) (sv_repo sv')"
    using createFirst_ok_named [OF assms(1) _ assms(6)] assms(10) by simp
  from createFirst_named [OF assms(1,2,9) this, of ends' e1' e2' True "\<lambda>pack. path'"] show ?thesis
    using assms(7,8) by (auto simp: reloadRulepack_def Let_def)
qed

text \<open>
  On PostgreSQL a rule pack written in YAML cannot be uploaded: the payload passes all checks, the
  pack is created, and then storing the text fails because the column takes JSON only. The pack stays
  behind without a version, and a retry is answered with 409.
\<close>

theorem yaml_upload_orphan:
  assumes "pa_ops A = sqlOps toJsonb byName" "\<And>ps. set (byName ps) = set ps"
    and "pa_parse A data = Inr pack" "toJsonb data = None"
    and "\<not> named defaultTenantID (m_Name (p_Metadata pack)) (sv_repo sv)" "defaultTenantID \<in> set (db_tenants (sv_repo sv))"
    and "sqlFresh e1 (sv_repo sv)" "idem key = None"
  shows "\<exists>sv' msg msg'.
      createRulepack A ends e1 e2 key act (Data data) (idem, sv) = ((idem, sv'), ErrorReply 500 ''INTERNAL_ERROR'' msg [])
      \<and> named defaultTenantID (m_Name (p_Metadata pack)) (sv_repo sv') \<and> db_versions (sv_repo sv') = db_versions (sv_repo sv)
      \<and> createRulepack A ends e1' e2' key act (Data data) (idem, sv') = ((idem, sv'), ErrorReply 409 ''ALREADY_EXISTS'' msg' [])"
proof -
  let ?n = "m_Name (p_Metadata pack)" and ?O = "sqlOps toJsonb byName"
  have "\<not> list_ex (\<lambda>i. ri_Name i = ?n) (map (sqlInfo d) (byName (filter (\<lambda>p. pr_TenantID p = defaultTenantID) (db_packs d))))"
    if "\<not> named defaultTenantID ?n d" for d
    using that assms(2) by (force simp: named_def list_ex_iff sqlInfo_def)
  then obtain sv1 where sv1: "Create ?O e1 defaultTenantID ?n (m_Description (p_Metadata pack)) sv = (sv1, Inr (oe_new e1))"
    "db_versions (sv_repo sv1) = db_versions (sv_repo sv)"
    using assms(5-7)
    by (auto simp: Create_def sqlOps_def sqlListByTenant_def sqlCreate_def named_def sqlFresh_def emitAudit_def Let_def)
  let ?err = "RepoError (failed ''create version: '' None ''invalid row'')"
  have up: "Upload (pa_lib A) ?O (pa_sha A) ends e2 defaultTenantID (oe_new e1) 1 data (act = ''true'') sv1 = (sv1, 0, Some ?err)"
    using assms(4) by (simp add: Upload_def sqlOps_def sqlCreateVersion_def insertVersion_def Let_def)
  have 1: "createRulepack A ends e1 e2 key act (Data data) (idem, sv) = ((idem, sv1), ErrorReply 500 ''INTERNAL_ERROR'' (pa_svcErr A ?err) [])"
    using assms(1,3,8) sv1(1) up by (simp add: createRulepack_def createFirst_def internalError_def)
  have n: "named defaultTenantID ?n (sv_repo sv1)" by (rule Create_ok_named(1) [OF sv1(1)])
  obtain msg' where "createFirst A ends e1' e2' data (act = ''true'') p_SourcePath sv1 = (sv1, Inl (ErrorReply 409 ''ALREADY_EXISTS'' msg' []))"
    using createFirst_named [OF assms(1-3) n] by blast
  then have "createRulepack A ends e1' e2' key act (Data data) (idem, sv1) = ((idem, sv1), ErrorReply 409 ''ALREADY_EXISTS'' msg' [])"
    using assms(8) by (simp add: createRulepack_def)
  with 1 n sv1(2) show ?thesis by blast
qed

section \<open>Activation\<close>

text \<open>
  Activation is guarded by the version: unless the request names the version that is active now, or
  any, it is refused with 428 or 412 and nothing changes.
\<close>

theorem activation_guarded:
  assumes "setActiveRulepack A ends e ifMatch reqID sv = (sv', r)" "reqID \<noteq> []" "pa_uuid A reqID = Some i"
    and "ifMatch \<noteq> ''*''" "\<And>dsl n. ro_getActive (pa_ops A) i (sv_repo sv) = Inr (dsl, n) \<Longrightarrow> ifMatch \<noteq> etag (itoa n)"
    and "\<And>err. ro_getActive (pa_ops A) i (sv_repo sv) = Inl err \<Longrightarrow> ifMatch \<noteq> etag (itoa 0)"
  shows "sv' = sv \<and> (\<exists>msg d. r = ErrorReply 428 ''PRECONDITION_REQUIRED'' msg d \<or> r = ErrorReply 412 ''PRECONDITION_FAILED'' msg d)"
  using assms by (auto simp: setActiveRulepack_def Let_def split: if_splits sum.splits)

section \<open>Witnesses\<close>

definition jsonOnly :: "string \<Rightarrow> string option" where
  "jsonOnly d = (if d = ''{}'' then Some d else None)"

definition apiA :: "(packDb, string) packApi" where
  "apiA = \<lparr>pa_ops = sqlOps jsonOnly (\<lambda>ps. ps), pa_lib = litLib, pa_sha = id, pa_parse = (\<lambda>d. Inr zeroPack), pa_show = (\<lambda>i. ''id''),
     pa_uuid = (\<lambda>s. if s = ''two'' then Some 2 else None), pa_svcErr = (\<lambda>e. ''err''), pa_dslErr = (\<lambda>e. ''err'')\<rparr>"

definition env8 :: opEnv where
  "env8 = \<lparr>oe_now = 1, oe_new = 8, oe_ord = []\<rparr>"

definition createdMeta :: "string \<Rightarrow> bool \<Rightarrow> rulepackMeta" where
  "createdMeta src act = \<lparr>rm_ID = ''id'', rm_Name = [], rm_Version = itoa 1, rm_Source = src, rm_Active = act\<rparr>"

lemmas run_defs = createFirst_def Create_def Upload_def sqlOps_def sqlListByTenant_def sqlInfo_def sqlCreate_def sqlCreateVersion_def
  insertVersion_def sqlActivate_def setCurrent_def toCurrent_def emitAudit_def publish_def canaryDelay_def statuses_def jsonOnly_def apiA_def
  opEnv7_def env8_def newService_def onePack_def createdMeta_def zeroPack_def zeroMetadata_def defaultTenantID_def litLib_def Let_def

lemma create_run: "\<exists>s'. createRulepack apiA None opEnv7 env8 ''k'' [] (Data ''{}'') (Map.empty, newService) = (s', OkReply 201 (createdMeta [] False))"
  by (simp add: createRulepack_def run_defs)

theorem retry_idempotent_witness:
  "\<exists>s'. createRulepack apiA None opEnv7 env8 ''k'' [] (Data ''{}'') (Map.empty, newService) = (s', OkReply 201 (createdMeta [] False))
     \<and> snd (createRulepack apiA None opEnv7 env8 ''k'' [] NoFile
         (fold (servePack apiA) [CreateRequest None opEnv7 env8 ''other'' [] (Data ''{}''), DeleteRequest ''two''] s'))
       = OkReply 200 (createdMeta [] False)"
proof -
  obtain s' where c: "createRulepack apiA None opEnv7 env8 ''k'' [] (Data ''{}'') (Map.empty, newService) = (s', OkReply 201 (createdMeta [] False))"
    using create_run by blast
  from retry_idempotent [OF c, of None opEnv7 env8 "[]" NoFile "[CreateRequest None opEnv7 env8 ''other'' [] (Data ''{}''), DeleteRequest ''two'']"] c
  show ?thesis by (intro exI [of _ s']) simp
qed

lemma reload_run: "\<exists>sv'. reloadRulepack apiA None opEnv7 env8 (\<lambda>p. Inr ''{}'') ''f'' newService = (sv', OkReply 200 (createdMeta ''f'' True))"
  by (simp add: reloadRulepack_def run_defs)

theorem reload_only_once_witness:
  "\<exists>sv' msg. reloadRulepack apiA None opEnv7 env8 (\<lambda>p. Inr ''{}'') ''f'' newService = (sv', OkReply 200 (createdMeta ''f'' True))
     \<and> reloadRulepack apiA None opEnv7 env8 (\<lambda>p. Inr ''{}'') ''f'' sv' = (sv', ErrorReply 409 ''ALREADY_EXISTS'' msg [])"
proof -
  have ops: "pa_ops apiA = sqlOps jsonOnly (\<lambda>ps. ps)" "pa_parse apiA ''{}'' = Inr zeroPack" by (simp_all add: apiA_def)
  obtain sv' where r: "reloadRulepack apiA None opEnv7 env8 (\<lambda>p. Inr ''{}'') ''f'' newService = (sv', OkReply 200 (createdMeta ''f'' True))"
    using reload_run by blast
  with reload_only_once [OF ops(1) _ r _ _ ops(2) _ _ ops(2), of "\<lambda>p. Inr ''{}''" "''f''" None opEnv7 env8] show ?thesis by auto
qed

theorem yaml_upload_orphan_witness:
  "\<exists>sv' msg. createRulepack apiA None opEnv7 env8 [] [] (Data ''a: 1'') (Map.empty, newService) = ((Map.empty, sv'), ErrorReply 500 ''INTERNAL_ERROR'' msg [])"
proof -
  have "pa_ops apiA = sqlOps jsonOnly (\<lambda>ps. ps)" "pa_parse apiA ''a: 1'' = Inr zeroPack" "jsonOnly ''a: 1'' = None"
    by (simp_all add: apiA_def jsonOnly_def)
  moreover have "\<not> named defaultTenantID (m_Name (p_Metadata zeroPack)) (sv_repo newService)" "defaultTenantID \<in> set (db_tenants (sv_repo newService))"
    "sqlFresh opEnv7 (sv_repo newService)"
    by (simp_all add: named_def newService_def onePack_def zeroPack_def zeroMetadata_def defaultTenantID_def sqlFresh_def opEnv7_def)
  ultimately show ?thesis
    using yaml_upload_orphan [of apiA jsonOnly "\<lambda>ps. ps" "''a: 1''" zeroPack newService opEnv7 Map.empty "[]"] by blast
qed

theorem activation_guarded_witness:
  "fst (setActiveRulepack apiA None opEnv7 (etag ''4'') ''two'' newService) = newService"
proof -
  obtain sv' r where r: "setActiveRulepack apiA None opEnv7 (etag ''4'') ''two'' newService = (sv', r)" by fastforce
  moreover have "ro_getActive (pa_ops apiA) 2 (sv_repo newService) = Inl (DbError ''not found'')"
    by (simp add: apiA_def sqlOps_def sqlGetActive_def joined_def newService_def onePack_def Let_def)
  moreover have "etag ''4'' \<noteq> ''*''" "etag ''4'' \<noteq> etag (itoa 0)" by code_simp+
  ultimately show ?thesis using activation_guarded [OF r, of 2] by (simp add: apiA_def)
qed

end
