(* ===== verification/Control_Plane.thy ===== *)
theory Control_Plane
  imports Rulepack_API
begin

text \<open>
  The control plane: its handlers, \<^verbatim>\<open>internal/interfaces/http/controlplane/handlers.go\<close>, and the
  validation service, \<^verbatim>\<open>internal/application/services/validation.go\<close>, over the PostgreSQL store,
  as \<^verbatim>\<open>cmd/controlplane/main.go\<close> puts them together. Bodies come decoded, \<open>None\<close> being a body
  that does not decode. Decoding a rule pack is an argument for each format; since a failed JSON
  decoding leaves what it had read, the second one starts from there.
\<close>

section \<open>Validation\<close>

record packCodec =
  pd_json :: "string \<Rightarrow> rulePack \<times> string option"
  pd_yaml :: "rulePack \<Rightarrow> string \<Rightarrow> string + rulePack"
  pd_encode :: "rulePack \<Rightarrow> string + string"

definition parsePack :: "packCodec \<Rightarrow> string \<Rightarrow> string + rulePack" where
  "parsePack C raw =
     (case pd_json C raw of
        (pack, None) \<Rightarrow> Inr pack
      | (pack, Some err) \<Rightarrow>
          (case pd_yaml C pack raw of
             Inl e \<Rightarrow> Inl (''invalid DSL format - not valid JSON or YAML: '' @ err)
           | Inr pack' \<Rightarrow> Inr pack'))"

definition validatePayload :: "packCodec \<Rightarrow> (rulePack \<Rightarrow> string list) \<Rightarrow> string \<Rightarrow> string option" where
  "validatePayload C validate raw =
     (case parsePack C raw of
        Inl e \<Rightarrow> Some e
      | Inr pack \<Rightarrow>
          if validate pack \<noteq> []
          then Some (''validation errors:'' @ concat (map (\<lambda>e. [CHR 0x0A] @ ''  - '' @ e) (validate pack)))
          else None)"

definition NormalizeDSL :: "packCodec \<Rightarrow> string \<Rightarrow> string + string" where
  "NormalizeDSL C raw =
     (case parsePack C raw of
        Inl e \<Rightarrow> Inl e
      | Inr pack \<Rightarrow> (case pd_encode C pack of Inl e \<Rightarrow> Inl (''failed to normalize DSL: '' @ e) | Inr j \<Rightarrow> Inr j))"

text \<open>
  The names of the top-level fields of a rule pack: as \<^verbatim>\<open>encoding/json\<close> writes them, there being
  no JSON tags, and as the YAML decoder reads them.
\<close>

definition jsonFields :: "string list" where
  "jsonFields = [''APIVersion'', ''Kind'', ''Metadata'', ''Rules'', ''Extends'', ''Imports'', ''Composition'', ''Performance'',
     ''Overrides'', ''Context'', ''SourcePath'']"

definition yamlFields :: "string list" where
  "yamlFields = [''apiVersion'', ''kind'', ''metadata'', ''rules'', ''extends'', ''imports'', ''composition'', ''performance'',
     ''overrides'', ''context'']"

section \<open>State\<close>

record 'a cpState =
  cp_svc :: "packDb service"
  cp_assign :: 'a
  cp_audits :: "auditEntry list"
  cp_published :: "(string \<times> ruleUpdate) list"

record ('a, 'rx) cpEnv =
  cv_lib :: "'rx golib"
  cv_parse :: "string \<Rightarrow> uuid option"
  cv_show :: "uuid \<Rightarrow> string"
  cv_new :: uuid
  cv_now :: int
  cv_dbErr :: "string option"
  cv_toJsonb :: "string \<Rightarrow> string option"
  cv_byName :: "packRow list \<Rightarrow> packRow list"
  cv_codec :: packCodec
  cv_validate :: "rulePack \<Rightarrow> string list"
  cv_sha :: "string \<Rightarrow> string"
  cv_ends :: "string option"
  cv_auditErr :: "string option"
  cv_assignOps :: "'a assignOps"
  cv_errText :: "repoErr \<Rightarrow> string"
  cv_svcText :: "serviceErr \<Rightarrow> string"

abbreviation cp_db :: "'a cpState \<Rightarrow> packDb" where
  "cp_db s \<equiv> sv_repo (cp_svc s)"

definition setDb :: "packDb \<Rightarrow> 'a cpState \<Rightarrow> 'a cpState" where
  "setDb d s = s\<lparr>cp_svc := (cp_svc s)\<lparr>sv_repo := d\<rparr>\<rparr>"

definition sqlEnvOf :: "('a, 'rx) cpEnv \<Rightarrow> sqlEnv" where
  "sqlEnvOf V = \<lparr>sq_err = cv_dbErr V, sq_new = cv_new V, sq_now = cv_now V, sq_toJsonb = cv_toJsonb V\<rparr>"

definition fail :: "int \<Rightarrow> string \<Rightarrow> 'r httpReply" where
  "fail status msg = ErrorReply status [] msg []"

section \<open>Handlers\<close>

definition cpCreateRulepack :: "('a, 'rx) cpEnv \<Rightarrow> (string \<times> string \<times> string) option \<Rightarrow> 'a cpState \<Rightarrow> 'a cpState \<times> string httpReply" where
  "cpCreateRulepack V body s =
     (case body of
        None \<Rightarrow> (s, fail 400 ''invalid request body'')
      | Some (tenantStr, name, desc) \<Rightarrow>
          (case cv_parse V tenantStr of
             None \<Rightarrow> (s, fail 400 ''invalid tenant ID'')
           | Some tenant \<Rightarrow>
               (case sqlCreate (sqlEnvOf V) tenant name desc (cp_db s) of
                  (d, Inl err) \<Rightarrow> (setDb d s, fail 500 (cv_errText V err))
                | (d, Inr i) \<Rightarrow>
                    ((setDb d s)\<lparr>cp_audits := fst (CreateAudit (\<lambda>m. True) (cv_auditErr V) (cv_now V)
                        ((auditOf ''create_rulepack'' ''rulepack'' i None 0)\<lparr>ad_TenantID := Some tenant\<rparr>) (cp_audits s))\<rparr>,
                     OkReply 201 (cv_show V i)))))"

text \<open>The body: it cannot be read, is no JSON, or has a version and a rule pack.\<close>

datatype uploadBody = Unreadable | NotJson | VersionOf int string

definition cpUploadVersion :: "('a, 'rx) cpEnv \<Rightarrow> string \<Rightarrow> uploadBody \<Rightarrow> 'a cpState \<Rightarrow> 'a cpState \<times> (string \<times> string) httpReply" where
  "cpUploadVersion V idStr body s =
     (case cv_parse V idStr of
        None \<Rightarrow> (s, fail 400 ''invalid rulepack ID'')
      | Some pack \<Rightarrow>
          (case body of
             Unreadable \<Rightarrow> (s, fail 400 ''failed to read body'')
           | NotJson \<Rightarrow> (s, fail 400 ''invalid JSON'')
           | VersionOf version dsl \<Rightarrow>
               (case validatePayload (cv_codec V) (cv_validate V) dsl of
                  Some err \<Rightarrow> (s, fail 400 err)
                | None \<Rightarrow>
                    (case NormalizeDSL (cv_codec V) dsl of
                       Inl err \<Rightarrow> (s, fail 400 (''failed to normalize DSL: '' @ err))
                     | Inr normalized \<Rightarrow>
                         (case sqlCreateVersion (sqlEnvOf V) pack version normalized ''draft'' 0 (cp_db s) of
                            (d, Inl err) \<Rightarrow> (setDb d s, fail 500 (cv_errText V err))
                          | (d, Inr v) \<Rightarrow> (setDb d s, OkReply 201 (cv_show V v, ''draft'')))))))"

definition withVersion :: "('a, 'rx) cpEnv \<Rightarrow> string \<Rightarrow> string \<Rightarrow> 'a cpState \<Rightarrow> (uuid \<Rightarrow> int \<Rightarrow> 'a cpState \<times> 'r httpReply) \<Rightarrow> 'a cpState \<times> 'r httpReply" where
  "withVersion V idStr verStr s k =
     (case cv_parse V idStr of
        None \<Rightarrow> (s, fail 400 ''invalid rulepack ID'')
      | Some pack \<Rightarrow> (case atoi verStr of None \<Rightarrow> (s, fail 400 ''invalid version'') | Some version \<Rightarrow> k pack version))"

definition cpApproveVersion :: "('a, 'rx) cpEnv \<Rightarrow> string \<Rightarrow> string \<Rightarrow> 'a cpState \<Rightarrow> 'a cpState \<times> string httpReply" where
  "cpApproveVersion V idStr verStr s =
     withVersion V idStr verStr s (\<lambda>pack version.
       case sqlApproveVersion (cv_dbErr V) pack version (cp_db s) of
         (d, Some err) \<Rightarrow> (setDb d s, fail 400 (cv_errText V err))
       | (d, None) \<Rightarrow> (setDb d s, OkReply 200 ''approved''))"

definition cpActivateVersion :: "('a, 'rx) cpEnv \<Rightarrow> string \<Rightarrow> string \<Rightarrow> (string \<times> string) option \<Rightarrow> 'a cpState \<Rightarrow> 'a cpState \<times> string httpReply" where
  "cpActivateVersion V idStr verStr body s =
     withVersion V idStr verStr s (\<lambda>pack version.
       case body of
         None \<Rightarrow> (s, fail 400 ''invalid request'')
       | Some (tenantStr, dsl) \<Rightarrow>
           (case cv_parse V tenantStr of
              None \<Rightarrow> (s, fail 400 ''invalid tenant ID'')
            | Some tenant \<Rightarrow>
                (case CreateVersionActivate (cv_lib V) (sqlOps (cv_toJsonb V) (cv_byName V)) (cv_sha V) (cv_ends V)
                        \<lparr>oe_now = cv_now V, oe_new = cv_new V, oe_ord = []\<rparr> tenant pack version dsl (cp_svc s) of
                   (sv, Some err) \<Rightarrow> (s\<lparr>cp_svc := sv\<rparr>, fail 500 (cv_svcText V err))
                 | (sv, None) \<Rightarrow> (s\<lparr>cp_svc := sv\<rparr>, OkReply 200 ''activated''))))"

definition cpCreateAssignment :: "('a, 'rx) cpEnv \<Rightarrow> (string \<times> string \<times> string \<times> int) option \<Rightarrow> 'a cpState \<Rightarrow> 'a cpState \<times> string httpReply" where
  "cpCreateAssignment V body s =
     (case body of
        None \<Rightarrow> (s, fail 400 ''invalid request body'')
      | Some (tenantStr, packStr, scope, prio) \<Rightarrow>
          (case cv_parse V tenantStr of
             None \<Rightarrow> (s, fail 400 ''invalid tenant ID'')
           | Some tenant \<Rightarrow>
               (case cv_parse V packStr of
                  None \<Rightarrow> (s, fail 400 ''invalid rulepack ID'')
                | Some pack \<Rightarrow>
                    (case ao_Create (cv_assignOps V) \<lparr>as_ID = cv_new V, as_TenantID = tenant, as_PolicyID = pack, as_TargetScope = scope,
                            as_Priority = prio, as_Enabled = True, as_CreatedAt = cv_now V, as_UpdatedAt = cv_now V\<rparr> (cp_assign s) of
                       (a, Some err) \<Rightarrow> (s\<lparr>cp_assign := a\<rparr>, fail 500 err)
                     | (a, None) \<Rightarrow>
                         let s1 = s\<lparr>cp_assign := a\<rparr>;
                             s2 = (if sv_hasPub (cp_svc s)
                                   then (case sqlGetActive (cv_dbErr V) pack (cp_db s) of
                                           Inl err \<Rightarrow> s1
                                         | Inr (dsl, version) \<Rightarrow>
                                             s1\<lparr>cp_published := cp_published s1 @ [(scope, updateFor tenant pack version (cv_sha V dsl))]\<rparr>)
                                   else s1)
                         in (s2, OkReply 201 (cv_show V (cv_new V)))))))"

definition cpGetRulepack :: "('a, 'rx) cpEnv \<Rightarrow> string \<Rightarrow> 'a cpState \<Rightarrow> (string \<times> int \<times> string) httpReply" where
  "cpGetRulepack V idStr s =
     (case cv_parse V idStr of
        None \<Rightarrow> fail 400 ''invalid rulepack ID''
      | Some pack \<Rightarrow>
          (case sqlGetActive (cv_dbErr V) pack (cp_db s) of
             Inl err \<Rightarrow> fail 404 ''rulepack not found''
           | Inr (dsl, version) \<Rightarrow> OkReply 200 (cv_show V pack, version, dsl)))"

definition cpGetRulepackVersion :: "('a, 'rx) cpEnv \<Rightarrow> string \<Rightarrow> string \<Rightarrow> 'a cpState \<Rightarrow> 'a cpState \<times> (string \<times> int \<times> string \<times> string) httpReply" where
  "cpGetRulepackVersion V idStr verStr s =
     withVersion V idStr verStr s (\<lambda>pack version.
       case sqlGetVersion (cv_dbErr V) pack version (cp_db s) of
         Inl err \<Rightarrow> (s, fail 404 (cv_errText V err))
       | Inr (dsl, status) \<Rightarrow> (s, OkReply 200 (cv_show V pack, version, status, dsl)))"

section \<open>Properties\<close>

definition hasVersion :: "uuid \<Rightarrow> int \<Rightarrow> packDb \<Rightarrow> bool" where
  "hasVersion pack version d \<longleftrightarrow> (pack, version) \<in> set (map (\<lambda>v. (vr_RulepackID v, vr_Version v)) (db_versions d))"

lemma hasVersion_tx:
  assumes "hasVersion pack version (sv_repo sv)"
  shows "\<exists>err. CreateVersionActivate G (sqlOps toJsonb byName) sha ends e tenant pack version dsl sv = (sv, Some err)"
proof -
  have "insertVersion Q pack version dsl s a (sv_repo sv) = None" for Q s a
    using assms by (auto simp: hasVersion_def insertVersion_def split: option.splits)
  then show ?thesis by (simp add: CreateVersionActivate_def sqlOps_def sqlCreateVersionActivateTx_def Let_def split: option.splits)
qed

lemma hasVersion_approve: "hasVersion pack version d \<Longrightarrow> hasVersion pack version (fst (sqlApproveVersion err p v d))"
  by (auto simp: hasVersion_def sqlApproveVersion_def image_image split: option.splits)

lemma hasVersion_created: "sqlCreateVersion Q pack version dsl s a d = (d', Inr i) \<Longrightarrow> hasVersion pack version d'"
  by (auto simp: sqlCreateVersion_def insertVersion_def hasVersion_def split: option.splits if_splits)

text \<open>
  The way through upload, approval and activation ends in an error: activating inserts the version
  anew, which its uniqueness forbids, so a version that was uploaded, and approved or not, cannot
  be activated next; the answer is 500 and nothing changes.
\<close>

theorem approved_not_activatable:
  assumes "cpUploadVersion V idStr (VersionOf version dsl) s = (s1, OkReply 201 r)"
    and "cpApproveVersion V' idStr verStr s1 = (s2, r')" "atoi verStr = Some version"
    and "cv_parse V'' idStr = cv_parse V idStr" "cv_parse V'' tenantStr = Some tenant"
  shows "\<exists>err. cpActivateVersion V'' idStr verStr (Some (tenantStr, dsl')) s2 = (s2, ErrorReply 500 [] err [])"
proof -
  obtain pack d i where up: "cv_parse V idStr = Some pack" "hasVersion pack version d" "s1 = setDb d s"
    using assms(1) by (auto simp: cpUploadVersion_def fail_def dest!: hasVersion_created split: option.splits sum.splits prod.splits)
  have "hasVersion pack version (cp_db s2)"
  proof -
    have "s2 = s1 \<or> (\<exists>p v. s2 = setDb (fst (sqlApproveVersion (cv_dbErr V') p v (cp_db s1))) s1)"
      using assms(2) by (auto simp: cpApproveVersion_def withVersion_def split: option.splits prod.splits) (metis fst_conv)+
    then show ?thesis using up(2,3) by (auto simp: setDb_def intro: hasVersion_approve)
  qed
  then obtain err where "CreateVersionActivate (cv_lib V'') (sqlOps (cv_toJsonb V'') (cv_byName V'')) (cv_sha V'') (cv_ends V'')
      \<lparr>oe_now = cv_now V'', oe_new = cv_new V'', oe_ord = []\<rparr> tenant pack version dsl' (cp_svc s2) = (cp_svc s2, Some err)"
    using hasVersion_tx by blast
  then show ?thesis using assms(3-5) up(1) by (simp add: cpActivateVersion_def withVersion_def fail_def)
qed

text \<open>
  Activation asks for no approval and no check: any text that is JSON, valid as a rule pack or not,
  becomes the active version of a pack in one request, provided its number is new.
\<close>

theorem unapproved_activated:
  assumes "cv_parse V idStr = Some pack" "atoi verStr = Some version" "cv_parse V tenantStr = Some tenant"
    and "sqlInv (cp_db s)" "pack \<in> set (map pr_ID (db_packs (cp_db s)))" "\<not> hasVersion pack version (cp_db s)"
    and "cv_new V \<notin> set (map pr_ID (db_packs (cp_db s)))" "cv_new V \<notin> set (map vr_ID (db_versions (cp_db s)))"
    and "cv_toJsonb V dsl = Some j" "- (2 ^ 31) \<le> version" "version < 2 ^ 31" "cv_ends V = None"
  shows "\<exists>s'. cpActivateVersion V idStr verStr (Some (tenantStr, dsl)) s = (s', OkReply 200 ''activated'')
    \<and> sqlGetActive None pack (cp_db s') = Inr (j, version)"
proof -
  let ?e = "\<lparr>oe_now = cv_now V, oe_new = cv_new V, oe_ord = []\<rparr>"
  let ?Q = "\<lparr>sq_err = None, sq_new = cv_new V, sq_now = cv_now V, sq_toJsonb = cv_toJsonb V\<rparr>"
  let ?O = "sqlOps (cv_toJsonb V) (cv_byName V)"
  obtain d1 where d1: "insertVersion ?Q pack version dsl ''approved'' 0 (cp_db s) = Some d1"
    using assms(5,6,8-11) by (auto simp: insertVersion_def hasVersion_def statuses_def)
  have "cv_new V \<in> set (map vr_ID (db_versions d1))" using insertVersion_new(1) [OF d1] by force
  then obtain d2 k where d2: "setCurrent (cv_new V) pack d1 = Some (d2, k)" by (auto simp: setCurrent_def Let_def)
  have "canaryDelay (cv_lib V) (cv_ends V) = None" using assms(12) by (simp add: canaryDelay_def Let_def split: option.splits)
  then obtain sv where sv: "CreateVersionActivate (cv_lib V) ?O (cv_sha V) (cv_ends V) ?e tenant pack version dsl (cp_svc s) = (sv, None)"
    using d1 d2 by (auto simp: CreateVersionActivate_def sqlOps_def sqlCreateVersionActivateTx_def Let_def)
  have "ro_getActive ?O pack (sv_repo sv) = Inr (j, version)"
    using sql.CreateVersionActivate_serves [OF assms(4) _ sv] assms(7-9) by (simp add: sqlFresh_def jsonbOf_def)
  then show ?thesis using sv assms(1-3) by (simp add: cpActivateVersion_def withVersion_def sqlOps_def Let_def)
qed

text \<open>
  C34. What the control plane's activation request does, for well-formed identifiers, a pack that exists, a text that is JSON and
  a version number of 32 bits, with a database that answers and no canary delay: it activates exactly the versions that are not stored. As long as a
  version with the number is stored for the pack, as a draft or approved, the answer is 500 and nothing
  changes; otherwise the answer is 200 and the text of the request, whatever it says, is the active version of the pack under that number.
\<close>

theorem activation_needs_new_version:
  assumes "cv_parse V idStr = Some pack" "atoi verStr = Some version" "cv_parse V tenantStr = Some tenant"
    and "sqlInv (cp_db s)" "pack \<in> set (map pr_ID (db_packs (cp_db s)))"
    and "cv_new V \<notin> set (map pr_ID (db_packs (cp_db s)))" "cv_new V \<notin> set (map vr_ID (db_versions (cp_db s)))"
    and "cv_toJsonb V dsl = Some j" "- (2 ^ 31) \<le> version" "version < 2 ^ 31" "cv_ends V = None"
  shows "if \<exists>v \<in> set (db_versions (cp_db s)). vr_RulepackID v = pack \<and> vr_Version v = version
    then \<exists>err. cpActivateVersion V idStr verStr (Some (tenantStr, dsl)) s = (s, ErrorReply 500 [] err [])
    else \<exists>s'. cpActivateVersion V idStr verStr (Some (tenantStr, dsl)) s = (s', OkReply 200 ''activated'')
      \<and> sqlGetActive None pack (cp_db s') = Inr (j, version)"
proof (cases "hasVersion pack version (cp_db s)")
  case True
  then obtain err where "CreateVersionActivate (cv_lib V) (sqlOps (cv_toJsonb V) (cv_byName V)) (cv_sha V) (cv_ends V)
      \<lparr>oe_now = cv_now V, oe_new = cv_new V, oe_ord = []\<rparr> tenant pack version dsl (cp_svc s) = (cp_svc s, Some err)"
    using hasVersion_tx by blast
  then have "cpActivateVersion V idStr verStr (Some (tenantStr, dsl)) s = (s, ErrorReply 500 [] (cv_svcText V err) [])"
    using assms(1-3) by (simp add: cpActivateVersion_def withVersion_def fail_def)
  then show ?thesis using True by (auto simp: hasVersion_def)
next
  case False
  then have "\<not> (\<exists>v \<in> set (db_versions (cp_db s)). vr_RulepackID v = pack \<and> vr_Version v = version)" by (auto simp: hasVersion_def)
  then show ?thesis using unapproved_activated [OF assms(1-5) False assms(6-11)] by auto
qed

text \<open>No field of a normalised rule pack has a name under which the enforcer looks for it.\<close>

lemma normalised_fields_unknown: "set jsonFields \<inter> set yamlFields = {}"
  by (simp add: jsonFields_def yamlFields_def)

lemma approve_not_draft: "\<not> isDraft pack version (approve pack version v)"
  by (simp add: approve_def isDraft_def)

lemma no_draft_left: "\<not> list_ex (isDraft pack version) (map (approve pack version) vs)"
  by (induction vs) (simp_all add: approve_not_draft)

lemma approve_once:
  assumes "cpApproveVersion V idStr verStr s = (s', OkReply 200 r)" "cv_parse V' idStr = cv_parse V idStr"
  shows "\<exists>err. cpApproveVersion V' idStr verStr s' = (s', ErrorReply 400 [] err [])"
proof -
  obtain pack version where p: "cv_parse V idStr = Some pack" "atoi verStr = Some version"
    "db_versions (cp_db s') = map (approve pack version) (db_versions (cp_db s))"
    using assms(1) by (auto simp: cpApproveVersion_def withVersion_def sqlApproveVersion_def fail_def setDb_def split: option.splits if_splits)
  then have "\<not> list_ex (isDraft pack version) (db_versions (cp_db s'))" by (simp only: no_draft_left not_False_eq_True)
  then have "\<exists>err. sqlApproveVersion (cv_dbErr V') pack version (cp_db s') = (cp_db s', Some err)"
    by (auto simp: sqlApproveVersion_def split: option.splits)
  then show ?thesis using p(1,2) assms(2) by (auto simp: cpApproveVersion_def withVersion_def fail_def setDb_def)
qed

section \<open>Witnesses\<close>

definition cpV :: "(assignment list, string) cpEnv" where
  "cpV = \<lparr>cv_lib = litLib, cv_parse = (\<lambda>s. if s = ''one'' then Some 1 else if s = ''two'' then Some 2 else None), cv_show = (\<lambda>i. ''id''),
     cv_new = 7, cv_now = 1, cv_dbErr = None, cv_toJsonb = Some, cv_byName = (\<lambda>ps. ps),
     cv_codec = \<lparr>pd_json = (\<lambda>d. (zeroPack, None)), pd_yaml = (\<lambda>p d. Inl ''bad''), pd_encode = (\<lambda>p. Inr ''{}'')\<rparr>,
     cv_validate = (\<lambda>p. []), cv_sha = id, cv_ends = None, cv_auditErr = None, cv_assignOps = pgAssignments 1 9 (\<lambda>as. as),
     cv_errText = (\<lambda>e. ''err''), cv_svcText = (\<lambda>e. ''err'')\<rparr>"

definition cpS :: "assignment list cpState" where
  "cpS = \<lparr>cp_svc = newService, cp_assign = [], cp_audits = [], cp_published = []\<rparr>"

lemma upload_run: "\<exists>s1 r. cpUploadVersion cpV ''two'' (VersionOf 3 ''{}'') cpS = (s1, OkReply 201 r)"
  by (simp add: cpUploadVersion_def cpV_def cpS_def validatePayload_def NormalizeDSL_def parsePack_def sqlEnvOf_def sqlCreateVersion_def
      insertVersion_def statuses_def newService_def onePack_def)

theorem approved_not_activatable_witness:
  "\<exists>s1 r s2 r' err. cpUploadVersion cpV ''two'' (VersionOf 3 ''{}'') cpS = (s1, OkReply 201 r)
     \<and> cpApproveVersion cpV ''two'' (itoa 3) s1 = (s2, r')
     \<and> cpActivateVersion cpV ''two'' (itoa 3) (Some (''one'', ''{}'')) s2 = (s2, ErrorReply 500 [] err [])"
proof -
  obtain s1 r where up: "cpUploadVersion cpV ''two'' (VersionOf 3 ''{}'') cpS = (s1, OkReply 201 r)" using upload_run by blast
  obtain s2 r' where ap: "cpApproveVersion cpV ''two'' (itoa 3) s1 = (s2, r')" by fastforce
  have "atoi (itoa 3) = Some 3" by (rule atoi_itoa) simp_all
  moreover have "cv_parse cpV ''one'' = Some 1" by (simp add: cpV_def)
  ultimately show ?thesis using approved_not_activatable [OF up ap] up ap by blast
qed

theorem activation_needs_new_version_witness:
  "(\<exists>s1 r err. cpUploadVersion cpV ''two'' (VersionOf 3 ''{}'') cpS = (s1, OkReply 201 r)
     \<and> cpActivateVersion (cpV\<lparr>cv_new := 8\<rparr>) ''two'' (itoa 3) (Some (''one'', ''{}'')) s1 = (s1, ErrorReply 500 [] err []))
   \<and> (\<exists>s'. cpActivateVersion cpV ''two'' (itoa 3) (Some (''one'', ''{}'')) cpS = (s', OkReply 200 ''activated''))"
proof
  have a: "atoi (itoa 3) = Some 3" by (rule atoi_itoa) simp_all
  obtain s1 r where up: "cpUploadVersion cpV ''two'' (VersionOf 3 ''{}'') cpS = (s1, OkReply 201 r)" using upload_run by blast
  then have db: "cp_db s1 = onePack\<lparr>db_versions := [\<lparr>vr_ID = 7, vr_RulepackID = 2, vr_Version = 3, vr_DSL = ''{}'', vr_Status = ''draft'',
      vr_CreatedBy = 0, vr_CreatedAt = 1\<rparr>]\<rparr>"
    by (auto simp: cpUploadVersion_def cpV_def cpS_def validatePayload_def NormalizeDSL_def parsePack_def sqlEnvOf_def sqlCreateVersion_def
      insertVersion_def statuses_def newService_def onePack_def setDb_def)
  have "sqlInv (cp_db s1)" unfolding db by (simp add: sqlInv_def onePack_def)
  then have "\<exists>err. cpActivateVersion (cpV\<lparr>cv_new := 8\<rparr>) ''two'' (itoa 3) (Some (''one'', ''{}'')) s1 = (s1, ErrorReply 500 [] err [])"
    using activation_needs_new_version [of "cpV\<lparr>cv_new := 8\<rparr>" "''two''" 2 "itoa 3" 3 "''one''" 1 s1 "''{}''" "''{}''"] a
    by (simp add: db onePack_def cpV_def)
  with up show "\<exists>s1 r err. cpUploadVersion cpV ''two'' (VersionOf 3 ''{}'') cpS = (s1, OkReply 201 r)
     \<and> cpActivateVersion (cpV\<lparr>cv_new := 8\<rparr>) ''two'' (itoa 3) (Some (''one'', ''{}'')) s1 = (s1, ErrorReply 500 [] err [])" by blast
  have "sqlInv (cp_db cpS)" by (simp add: cpS_def newService_def onePack_inv)
  then show "\<exists>s'. cpActivateVersion cpV ''two'' (itoa 3) (Some (''one'', ''{}'')) cpS = (s', OkReply 200 ''activated'')"
    using activation_needs_new_version [of cpV "''two''" 2 "itoa 3" 3 "''one''" 1 cpS "''{}''" "''{}''"] a
    by (auto simp: cpV_def cpS_def newService_def onePack_def)
qed

theorem unapproved_activated_witness:
  "\<exists>s'. cpActivateVersion cpV ''two'' (itoa 3) (Some (''one'', ''nonsense'')) cpS = (s', OkReply 200 ''activated'')
     \<and> sqlGetActive None 2 (cp_db s') = Inr (''nonsense'', 3)"
proof (rule unapproved_activated)
  show "atoi (itoa 3) = Some 3" by (rule atoi_itoa) simp_all
  show "sqlInv (cp_db cpS)" by (simp add: cpS_def newService_def onePack_inv)
qed (simp_all add: cpV_def cpS_def newService_def onePack_def hasVersion_def)

end
