(* ===== verification/Policy_API.thy ===== *)
theory Policy_API
  imports Policy_Events Admin_API
begin

text \<open>
  The HTTP handlers of policies, \<^verbatim>\<open>internal/interfaces/http/api/policy_handlers.go\<close> with the
  requests and answers of \<^verbatim>\<open>policy_dtos.go\<close>, over the policy service. Bodies come decoded;
  how errors and identifiers are written is an argument.
\<close>

section \<open>Requests and answers\<close>

record policyRequest =
  qr_Name :: string
  qr_Content :: string
  qr_Type :: string

record policyView =
  pw_ID :: string
  pw_Name :: string
  pw_Version :: int
  pw_Type :: string
  pw_CreatedAt :: int
  pw_UpdatedAt :: int

record policyHttp =
  ph_parse :: "string \<Rightarrow> uuid option"
  ph_show :: "uuid \<Rightarrow> string"
  ph_err :: "svcErr \<Rightarrow> string"
  ph_scanErr :: "scanError \<Rightarrow> string"

definition convertPolicyToResponse :: "policyHttp \<Rightarrow> policy \<Rightarrow> policyView" where
  "convertPolicyToResponse H p =
     \<lparr>pw_ID = ph_show H (po_ID p), pw_Name = po_Name p, pw_Version = po_Version p, pw_Type = po_Type p,
      pw_CreatedAt = po_CreatedAt p, pw_UpdatedAt = po_UpdatedAt p\<rparr>"

definition policyOf :: "uuid \<Rightarrow> string \<Rightarrow> string \<Rightarrow> string \<Rightarrow> policy" where
  "policyOf i name content ty =
     \<lparr>po_ID = i, po_Name = name, po_Version = 0, po_Content = content, po_Type = ty, po_CreatedBy = None, po_CreatedAt = 0, po_UpdatedAt = 0\<rparr>"

definition convertRequestToPolicy :: "policyRequest \<Rightarrow> policy" where
  "convertRequestToPolicy q = policyOf 0 (qr_Name q) (qr_Content q) (qr_Type q)"

text \<open>The type is not part of an update.\<close>

definition convertUpdateRequestToPolicy :: "uuid \<Rightarrow> policyRequest \<Rightarrow> policy" where
  "convertUpdateRequestToPolicy i q = policyOf i (qr_Name q) (qr_Content q) []"

definition parseListFilter :: "(string \<Rightarrow> string) \<Rightarrow> policyFilter" where
  "parseListFilter query =
     \<lparr>f_type = (if query ''type'' \<noteq> [] then Some (query ''type'') else None),
      f_name = (if query ''name'' \<noteq> [] then Some (query ''name'') else None),
      f_limit = (if query ''limit'' = [] then None
                 else case atoi (query ''limit'') of
                        None \<Rightarrow> Some 50
                      | Some l \<Rightarrow> if 0 < l \<and> l \<le> 1000 then Some l else Some 50),
      f_active = None\<rparr>"

section \<open>Handlers\<close>

definition listPoliciesHandler :: "policyHttp \<Rightarrow> uuid list \<Rightarrow> (string \<Rightarrow> string) \<Rightarrow> 'rx policySys \<Rightarrow> (policyView list \<times> nat) httpReply" where
  "listPoliciesHandler H ord query y =
     (case ListWithFilter ord (parseListFilter query) (y_repo y) of
        (ps, n) \<Rightarrow> OkReply 200 (map (convertPolicyToResponse H) ps, n))"

definition badBody :: "string \<Rightarrow> 'r httpReply" where
  "badBody e = ErrorReply 400 ''INVALID_REQUEST'' ''Invalid request body'' [(''error'', e)]"

definition createPolicyHandler :: "policyHttp \<Rightarrow> polEnv \<Rightarrow> string + policyRequest \<Rightarrow> 'rx policySys \<Rightarrow> 'rx policySys \<times> policyView httpReply" where
  "createPolicyHandler H e body y =
     (case body of
        Inl err \<Rightarrow> (y, badBody err)
      | Inr q \<Rightarrow>
          (case CreatePolicy e (convertRequestToPolicy q) y of
             (y', Inl err) \<Rightarrow> (y', ErrorReply 400 ''CREATE_FAILED'' ''Failed to create policy'' [(''error'', ph_err H err)])
           | (y', Inr p) \<Rightarrow> (y', OkReply 201 (convertPolicyToResponse H p))))"

definition withPolicyID :: "policyHttp \<Rightarrow> string \<Rightarrow> 's \<Rightarrow> (uuid \<Rightarrow> 's \<times> 'r httpReply) \<Rightarrow> 's \<times> 'r httpReply" where
  "withPolicyID H idStr y k =
     (if idStr = [] then (y, ErrorReply 400 ''INVALID_ARGUMENT'' ''Policy ID is required'' [])
      else case ph_parse H idStr of
             None \<Rightarrow> (y, ErrorReply 400 ''INVALID_ARGUMENT'' ''Invalid policy ID format'' [(''policy_id'', idStr)])
           | Some i \<Rightarrow> k i)"

definition getPolicyHandler :: "policyHttp \<Rightarrow> string \<Rightarrow> 'rx policySys \<Rightarrow> 'rx policySys \<times> policyView httpReply" where
  "getPolicyHandler H idStr y =
     withPolicyID H idStr y (\<lambda>i.
       case policyGet i (y_repo y) of
         Inl err \<Rightarrow> (y, ErrorReply 404 ''POLICY_NOT_FOUND'' ''Policy not found'' [(''policy_id'', ph_show H i)])
       | Inr p \<Rightarrow> (y, OkReply 200 (convertPolicyToResponse H p)))"

definition updatePolicyHandler :: "policyHttp \<Rightarrow> polEnv \<Rightarrow> string \<Rightarrow> string + policyRequest \<Rightarrow> 'rx policySys \<Rightarrow> 'rx policySys \<times> policyView httpReply" where
  "updatePolicyHandler H e idStr body y =
     withPolicyID H idStr y (\<lambda>i.
       case body of
         Inl err \<Rightarrow> (y, badBody err)
       | Inr q \<Rightarrow>
           (case UpdatePolicy e (convertUpdateRequestToPolicy i q) y of
              (y', Inl err) \<Rightarrow> (y', ErrorReply 400 ''UPDATE_FAILED'' ''Failed to update policy'' [(''error'', ph_err H err)])
            | (y', Inr p) \<Rightarrow> (y', OkReply 200 (convertPolicyToResponse H p))))"

text \<open>The answer to an action is the identifier and what became of the policy.\<close>

definition answerAction :: "policyHttp \<Rightarrow> int \<Rightarrow> string \<Rightarrow> string \<Rightarrow> string \<Rightarrow> uuid \<Rightarrow> 'rx policySys \<times> svcErr option
    \<Rightarrow> 'rx policySys \<times> (string \<times> string) httpReply" where
  "answerAction H status code msg did i out =
     (case out of
        (y, Some err) \<Rightarrow> (y, ErrorReply status code msg [(''error'', ph_err H err)])
      | (y, None) \<Rightarrow> (y, OkReply 200 (ph_show H i, did)))"

definition deletePolicyHandler :: "policyHttp \<Rightarrow> string \<Rightarrow> 'rx policySys \<Rightarrow> 'rx policySys \<times> (string \<times> string) httpReply" where
  "deletePolicyHandler H idStr y =
     withPolicyID H idStr y (\<lambda>i. answerAction H 404 ''DELETE_FAILED'' ''Failed to delete policy'' ''deleted'' i (DeletePolicy i y))"

definition activatePolicyHandler :: "policyHttp \<Rightarrow> 'rx world \<Rightarrow> (rulePack list \<Rightarrow> rulePack list) \<Rightarrow> polLib \<Rightarrow> polEnv \<Rightarrow> string \<Rightarrow> 'rx policySys
    \<Rightarrow> 'rx policySys \<times> (string \<times> string) httpReply" where
  "activatePolicyHandler H W srt D e idStr y =
     withPolicyID H idStr y (\<lambda>i.
       answerAction H 500 ''ACTIVATION_FAILED'' ''Failed to activate policy'' ''activated'' i (ActivatePolicy W srt D e i y))"

definition deactivatePolicyHandler :: "policyHttp \<Rightarrow> 'rx world \<Rightarrow> (rulePack list \<Rightarrow> rulePack list) \<Rightarrow> polLib \<Rightarrow> polEnv \<Rightarrow> string \<Rightarrow> 'rx policySys
    \<Rightarrow> 'rx policySys \<times> (string \<times> string) httpReply" where
  "deactivatePolicyHandler H W srt D e idStr y =
     withPolicyID H idStr y (\<lambda>i.
       answerAction H 500 ''DEACTIVATION_FAILED'' ''Failed to deactivate policy'' ''deactivated'' i (DeactivatePolicy W srt D e i y))"

definition testPolicyHandler :: "policyHttp \<Rightarrow> 'rx world \<Rightarrow> (rulePack list \<Rightarrow> rulePack list) \<Rightarrow> polLib \<Rightarrow> scanEnv \<Rightarrow> nat \<Rightarrow> nat \<Rightarrow> uuid \<Rightarrow> int
    \<Rightarrow> string \<Rightarrow> string + string \<Rightarrow> 'rx policySys \<Rightarrow> 'rx policySys \<times> policyScanResult httpReply" where
  "testPolicyHandler H W srt D env clock calls newID t idStr body y =
     withPolicyID H idStr y (\<lambda>i.
       case body of
         Inl err \<Rightarrow> (y, badBody err)
       | Inr content \<Rightarrow>
           (case TestPolicy W srt D env clock calls newID t i content y of
              (g, Inl err) \<Rightarrow>
                (y\<lparr>y_globals := g\<rparr>, ErrorReply 500 ''TEST_FAILED'' ''Failed to test policy''
                   [(''error'', case err of Inl x \<Rightarrow> ph_err H x | Inr x \<Rightarrow> ph_scanErr H x)])
            | (g, Inr res) \<Rightarrow> (y\<lparr>y_globals := g\<rparr>, OkReply 200 res)))"

definition validatePolicyHandler :: "policyHttp \<Rightarrow> polEnv \<Rightarrow> string + policyRequest \<Rightarrow> (bool \<times> string list) httpReply" where
  "validatePolicyHandler H e body =
     (case body of
        Inl err \<Rightarrow> badBody err
      | Inr q \<Rightarrow>
          (case ValidatePolicy (pe_invalid e) (convertRequestToPolicy q) of
             Some err \<Rightarrow> OkReply 200 (False, [ph_err H err])
           | None \<Rightarrow> OkReply 200 (True, [])))"

section \<open>Properties\<close>

text \<open>A handler leaves the system as it is or does what the service call does.\<close>

lemma handler_states:
  "fst (createPolicyHandler H e body y) = y \<or> (\<exists>p. fst (createPolicyHandler H e body y) = fst (CreatePolicy e p y))"
  "fst (updatePolicyHandler H e idStr body y) = y \<or> (\<exists>p. fst (updatePolicyHandler H e idStr body y) = fst (UpdatePolicy e p y))"
  "fst (deletePolicyHandler H idStr y) = y \<or> (\<exists>i. fst (deletePolicyHandler H idStr y) = fst (DeletePolicy i y))"
  "fst (activatePolicyHandler H W srt D e idStr y) = y
     \<or> (\<exists>i. fst (activatePolicyHandler H W srt D e idStr y) = fst (ActivatePolicy W srt D e i y))"
  "fst (deactivatePolicyHandler H W srt D e idStr y) = y
     \<or> (\<exists>i. fst (deactivatePolicyHandler H W srt D e idStr y) = fst (DeactivatePolicy W srt D e i y))"
  by (auto simp: createPolicyHandler_def updatePolicyHandler_def deletePolicyHandler_def activatePolicyHandler_def deactivatePolicyHandler_def
      answerAction_def withPolicyID_def split: sum.splits prod.splits option.splits) (metis fst_conv)+

lemma created_policy:
  assumes "createPolicyHandler H e (Inr q) y = (y1, OkReply 201 v)"
  shows "pw_ID v = ph_show H (pe_new e) \<and> y1 = fst (CreatePolicy e (convertRequestToPolicy q) y)
    \<and> (\<exists>p. policies (y_repo y1) (pe_new e) = Some p \<and> po_Name p = qr_Name q \<and> po_Content p = qr_Content q \<and> po_Type p = qr_Type q)"
  using assms by (auto simp: createPolicyHandler_def CreatePolicy_def policyCreate_def convertRequestToPolicy_def convertPolicyToResponse_def
      policyOf_def Let_def split: sum.splits prod.splits option.splits if_splits)

lemma activation_over_http:
  assumes "reachableSys True W srt D y" "validPick (pe_pick e 0)" "idStr \<noteq> []" "ph_parse H idStr = Some i"
    and "policies (y_repo y) i = Some p"
  shows "\<exists>y'. activatePolicyHandler H W srt D e idStr y = (y', OkReply 200 (ph_show H i, ''activated'')) \<and> reachableSys True W srt D y'
    \<and> policies (y_repo y') i \<noteq> None \<and> (\<exists>y''. settles W srt D i y' y'')
    \<and> (\<forall>y''. settles W srt D i y' y'' \<longrightarrow>
         ps_active (y_manager y'') i = Some (p\<lparr>po_UpdatedAt := pe_now e\<rparr>) \<and> inSync W srt D (y_manager y''))"
    "\<exists>y'. deactivatePolicyHandler H W srt D e idStr y = (y', OkReply 200 (ph_show H i, ''deactivated'')) \<and> reachableSys True W srt D y'
    \<and> (\<exists>y''. settles W srt D i y' y'')
    \<and> (\<forall>y''. settles W srt D i y' y'' \<longrightarrow> ps_active (y_manager y'') i = None \<and> inSync W srt D (y_manager y''))"
proof -
  have st: "storeOk (y_repo y)" and bus: "y_bus y = theBus" using sysInv_reachable [OF assms(1)] by (simp_all add: sysInv_def)
  let ?a = "PolicyActivated i (p\<lparr>po_UpdatedAt := pe_now e\<rparr>) (pe_user e)" and ?d = "PolicyDeactivated i (p\<lparr>po_UpdatedAt := pe_now e\<rparr>) (pe_user e)"
  obtain ya where ya: "ActivatePolicy W srt D e i y = (ya, None)" "eventStep W srt D (pe_pick e 0) ?a y ya"
    using ActivatePolicy_Some [OF st assms(5), of W srt D e] by (metis prod.collapse)
  obtain yd where yd: "DeactivatePolicy W srt D e i y = (yd, None)" "eventStep W srt D (pe_pick e 0) ?d y yd"
    using DeactivatePolicy_Some [OF st assms(5), of W srt D e] by (metis prod.collapse)
  have r: "reachableSys True W srt D ya" "reachableSys True W srt D yd"
    using reach_step [OF assms(1)] step_activate [OF assms(2)] step_deactivate [OF assms(2)] ya(1) yd(1) by (metis fst_conv)+
  have a: "i \<in> ev_id ` set (y_published ya)" "ps_active (y_service ya) i = Some (p\<lparr>po_UpdatedAt := pe_now e\<rparr>)"
    and pa: "policies (y_repo ya) i \<noteq> None"
    using ya(2) by (auto simp: eventStep_def applyEv_def domIff)
  have d: "i \<in> ev_id ` set (y_published yd)" "ps_active (y_service yd) i = None"
    using yd(2) by (auto simp: eventStep_def applyEv_def)
  have h: "activatePolicyHandler H W srt D e idStr y = (ya, OkReply 200 (ph_show H i, ''activated''))"
    "deactivatePolicyHandler H W srt D e idStr y = (yd, OkReply 200 (ph_show H i, ''deactivated''))"
    using assms(3,4) ya(1) yd(1)
    by (simp_all add: activatePolicyHandler_def deactivatePolicyHandler_def withPolicyID_def answerAction_def)
  show "\<exists>y'. activatePolicyHandler H W srt D e idStr y = (y', OkReply 200 (ph_show H i, ''activated'')) \<and> reachableSys True W srt D y'
    \<and> policies (y_repo y') i \<noteq> None \<and> (\<exists>y''. settles W srt D i y' y'')
    \<and> (\<forall>y''. settles W srt D i y' y'' \<longrightarrow>
         ps_active (y_manager y'') i = Some (p\<lparr>po_UpdatedAt := pe_now e\<rparr>) \<and> inSync W srt D (y_manager y''))"
    using h(1) r(1) pa settles_total settled_manager [OF _ r(1) a(1)] a(2) by metis
  show "\<exists>y'. deactivatePolicyHandler H W srt D e idStr y = (y', OkReply 200 (ph_show H i, ''deactivated'')) \<and> reachableSys True W srt D y'
    \<and> (\<exists>y''. settles W srt D i y' y'')
    \<and> (\<forall>y''. settles W srt D i y' y'' \<longrightarrow> ps_active (y_manager y'') i = None \<and> inSync W srt D (y_manager y''))"
    using h(2) r(2) settles_total settled_manager [OF _ r(2) d(1)] d(2) by metis
qed

text \<open>
  C30. The life of a policy over HTTP, in an orderly environment. Once a request to create a
  policy is answered with 201, the request to activate the identifier of the answer is answered with 200; the
  goroutines then waiting can all run, and when none of this policy is left the manager, which
  enforces, has the policy with the name, content and type of the request, and the rules of its scanner are those of
  its policies. The request to deactivate it is answered with 200 as well, and when the goroutines have run the manager
  does not have it any more.
\<close>

theorem policy_over_http:
  assumes "reachableSys True W srt D y" "pe_new e \<notin> usedIds y" "validPick (pe_pick e1 0)" "validPick (pe_pick e2 0)"
    and "ph_parse H (ph_show H (pe_new e)) = Some (pe_new e)" "ph_show H (pe_new e) \<noteq> []"
    and "createPolicyHandler H e (Inr q) y = (y1, OkReply 201 v)"
  shows "\<exists>y2. activatePolicyHandler H W srt D e1 (pw_ID v) y1 = (y2, OkReply 200 (pw_ID v, ''activated''))
    \<and> (\<exists>y3. settles W srt D (pe_new e) y2 y3)
    \<and> (\<forall>y3. settles W srt D (pe_new e) y2 y3 \<longrightarrow>
         (\<exists>p. ps_active (y_manager y3) (pe_new e) = Some p
              \<and> po_Name p = qr_Name q \<and> po_Content p = qr_Content q \<and> po_Type p = qr_Type q)
         \<and> inSync W srt D (y_manager y3)
         \<and> (\<exists>y4. deactivatePolicyHandler H W srt D e2 (pw_ID v) y3 = (y4, OkReply 200 (pw_ID v, ''deactivated''))
              \<and> (\<exists>y5. settles W srt D (pe_new e) y4 y5)
              \<and> (\<forall>y5. settles W srt D (pe_new e) y4 y5 \<longrightarrow>
                   ps_active (y_manager y5) (pe_new e) = None \<and> inSync W srt D (y_manager y5))))"
proof -
  let ?i = "pe_new e"
  note c = created_policy [OF assms(7)]
  then obtain p where p: "policies (y_repo y1) ?i = Some p" "po_Name p = qr_Name q" "po_Content p = qr_Content q" "po_Type p = qr_Type q" by blast
  have v: "pw_ID v = ph_show H ?i" using c by blast
  have r1: "reachableSys True W srt D y1" using c reach_step [OF assms(1) step_create [OF assms(2)]] by metis
  obtain y2 where y2: "activatePolicyHandler H W srt D e1 (pw_ID v) y1 = (y2, OkReply 200 (pw_ID v, ''activated''))"
    "reachableSys True W srt D y2" "policies (y_repo y2) ?i \<noteq> None" "\<exists>y3. settles W srt D ?i y2 y3"
    and m2: "\<And>y3. settles W srt D ?i y2 y3 \<Longrightarrow>
      ps_active (y_manager y3) ?i = Some (p\<lparr>po_UpdatedAt := pe_now e1\<rparr>) \<and> inSync W srt D (y_manager y3)"
    using activation_over_http(1) [OF r1 assms(3,6,5) p(1)] unfolding v by blast
  have "\<exists>y4. deactivatePolicyHandler H W srt D e2 (pw_ID v) y3 = (y4, OkReply 200 (pw_ID v, ''deactivated''))
      \<and> (\<exists>y5. settles W srt D ?i y4 y5)
      \<and> (\<forall>y5. settles W srt D ?i y4 y5 \<longrightarrow> ps_active (y_manager y5) ?i = None \<and> inSync W srt D (y_manager y5))"
    if s: "settles W srt D ?i y2 y3" for y3
  proof -
    obtain p3 where "policies (y_repo y3) ?i = Some p3" using settles_keeps(3) [OF s y2(2)] y2(3) by auto
    from activation_over_http(2) [OF settles_keeps(1) [OF s y2(2)] assms(4,6,5) this] show ?thesis unfolding v by blast
  qed
  moreover have "\<exists>p'. ps_active (y_manager y3) ?i = Some p' \<and> po_Name p' = qr_Name q \<and> po_Content p' = qr_Content q \<and> po_Type p' = qr_Type q"
    if "settles W srt D ?i y2 y3" for y3
    using m2 [OF that] p(2-4) by simp
  ultimately show ?thesis using y2(1,4) m2 by blast
qed

text \<open>
  An update of a policy is not enforced: whatever the answer, both scanners keep the rules they have
  and no event goes out, so an active policy stays in force as it was; and a successful update also
  takes the type away from the stored policy.
\<close>

theorem updated_policy_not_enforced:
  assumes "updatePolicyHandler H e idStr body y = (y', r)"
  shows "y_service y' = y_service y \<and> y_manager y' = y_manager y \<and> y_pending y' = y_pending y \<and> y_published y' = y_published y
    \<and> (\<forall>view. r = OkReply 200 view \<longrightarrow> (\<exists>i p. ph_parse H idStr = Some i \<and> policies (y_repo y') i = Some p \<and> po_Type p = []))"
proof -
  have "y' = y \<or> (\<exists>p. y' = fst (UpdatePolicy e p y))" using handler_states(2) [of H e idStr body y] assms by simp
  then have "y_service y' = y_service y \<and> y_manager y' = y_manager y \<and> y_pending y' = y_pending y \<and> y_published y' = y_published y"
    using UpdatePolicy_storeOnly [of y e] by (auto simp: storeOnly_def)
  moreover have "\<exists>i p. ph_parse H idStr = Some i \<and> policies (y_repo y') i = Some p \<and> po_Type p = []" if "r = OkReply 200 view" for view
    using assms that
    by (auto simp: updatePolicyHandler_def withPolicyID_def badBody_def UpdatePolicy_def policyUpdate_def audit_def convertUpdateRequestToPolicy_def
        policyOf_def Let_def split: sum.splits prod.splits option.splits if_splits)
  ultimately show ?thesis by blast
qed

section \<open>Witnesses\<close>

definition httpH :: policyHttp where
  "httpH = \<lparr>ph_parse = (\<lambda>s. if s = ''b'' then Some builtinPolicyID else None), ph_show = (\<lambda>i. ''id''), ph_err = (\<lambda>e. ''err''), ph_scanErr = (\<lambda>e. ''err'')\<rparr>"

definition newContent :: policyRequest where
  "newContent = \<lparr>qr_Name = ''n'', qr_Content = ''c'', qr_Type = ''custom''\<rparr>"

lemma demoStart_new: "pe_new someEnv \<notin> usedIds demoStart"
  by (simp add: someEnv_def usedIds_def demoStart_def initSys_def NewScannerManager_theBus NewPolicyRepository_def builtinPolicyID_def
      NewPolicyScannerService_def)

theorem policy_over_http_witness:
  "\<exists>y1 v y2 y3 p. createPolicyHandler (httpH\<lparr>ph_parse := (\<lambda>s. Some 1)\<rparr>) someEnv (Inr newContent) demoStart = (y1, OkReply 201 v)
     \<and> activatePolicyHandler (httpH\<lparr>ph_parse := (\<lambda>s. Some 1)\<rparr>) litWorld id demoLib someEnv (pw_ID v) y1 = (y2, OkReply 200 (pw_ID v, ''activated''))
     \<and> settles litWorld id demoLib 1 y2 y3 \<and> ps_active (y_manager y3) 1 = Some p \<and> po_Content p = ''c''"
proof -
  let ?H = "httpH\<lparr>ph_parse := (\<lambda>s. Some 1)\<rparr>"
  have new: "pe_new someEnv = 1" by (simp add: someEnv_def)
  obtain y1 v where c: "createPolicyHandler ?H someEnv (Inr newContent) demoStart = (y1, OkReply 201 v)"
    using demoStart_new
    by (simp add: createPolicyHandler_def CreatePolicy_def ValidatePolicy_def policyCreate_def convertRequestToPolicy_def policyOf_def newContent_def
        usedIds_def someEnv_def Let_def domIff)
  have q: "qr_Content newContent = ''c''" by (simp add: newContent_def)
  have H: "ph_parse ?H (ph_show ?H (pe_new someEnv)) = Some (pe_new someEnv)" "ph_show ?H (pe_new someEnv) \<noteq> []"
    by (simp_all add: httpH_def new)
  from policy_over_http [OF demoStart_facts(1) demoStart_new someEnv_valid someEnv_valid H c, unfolded new q] c show ?thesis by blast
qed

theorem updated_policy_not_enforced_witness:
  "\<exists>y' view p. updatePolicyHandler httpH someEnv ''b'' (Inr newContent) demoStart = (y', OkReply 200 view)
     \<and> y_manager y' = y_manager demoStart \<and> policies (y_repo y') builtinPolicyID = Some p \<and> po_Content p = ''c'' \<and> po_Type p = []"
proof -
  obtain y' view p where u: "updatePolicyHandler httpH someEnv ''b'' (Inr newContent) demoStart = (y', OkReply 200 view)"
    "policies (y_repo y') builtinPolicyID = Some p" "po_Content p = ''c''" "po_Type p = []"
    by (simp add: updatePolicyHandler_def withPolicyID_def httpH_def newContent_def UpdatePolicy_def policyGet_def policyUpdate_def ValidatePolicy_def
        convertUpdateRequestToPolicy_def policyOf_def someEnv_def audit_def demoStart_def initSys_def NewScannerManager_theBus
        NewPolicyRepository_def Let_def)
  with updated_policy_not_enforced [OF u(1)] show ?thesis by blast
qed

end
