(* ===== verification/Redis_Queue.thy ===== *)
theory Redis_Queue
  imports Go_Any Transitions "HOL-Library.Multiset"
begin

text \<open>
  The durable job queue over a Redis stream, \<^verbatim>\<open>internal/jobs/queue/redis.go\<close>. Redis and its
  client are outside the repository: the commands the queue issues are a record of functions on the
  state of the server, and what Redis documents of them is the locale \<open>redis_stream\<close>. Commands
  may fail in any way Redis permits, a reply that is lost after the command took effect included. The
  consumers of one process interleave freely with its producers and with the end of its context.
\<close>

section \<open>Messages and commands\<close>

record qmsg =
  q_ID :: string
  q_Type :: string
  q_Input :: string
  q_Metadata :: "string \<rightharpoonup> goAny"

text \<open>
  \<^verbatim>\<open>XGROUP CREATE ... $ MKSTREAM\<close>, \<^verbatim>\<open>XADD\<close>, \<^verbatim>\<open>XREADGROUP ... >\<close> with a count,
  \<^verbatim>\<open>XACK\<close> and \<^verbatim>\<open>XCLAIM ... JUSTID\<close>. The queue ignores the errors of the last two.
\<close>

record 'r streamOps =
  so_group :: "'r \<Rightarrow> 'r \<times> string option"
  so_add :: "string \<Rightarrow> 'r \<Rightarrow> 'r \<times> (string + string)"
  so_read :: "nat \<Rightarrow> 'r \<Rightarrow> 'r \<times> (string + (string \<times> string) list)"
  so_ack :: "string \<Rightarrow> 'r \<Rightarrow> 'r"
  so_claim :: "string \<Rightarrow> 'r \<Rightarrow> 'r"

datatype queueErr = MissingName | GroupFailed string

definition ensureGroup :: "'r streamOps \<Rightarrow> 'r \<Rightarrow> 'r \<times> queueErr option" where
  "ensureGroup R r =
     (case so_group R r of
        (r', Some e) \<Rightarrow> (r', if strContains e ''BUSYGROUP'' then None else Some (GroupFailed e))
      | (r', None) \<Rightarrow> (r', None))"

definition NewRedisQueue :: "'r streamOps \<Rightarrow> string \<Rightarrow> string \<Rightarrow> string \<Rightarrow> 'r \<Rightarrow> 'r \<times> queueErr option" where
  "NewRedisQueue R stream grp consumerName r =
     (if stream = [] \<or> grp = [] \<or> consumerName = [] then (r, Some MissingName) else ensureGroup R r)"

text \<open>\<open>enc\<close> is the JSON text of a message, or why there is none.\<close>

definition EnqueueRedis :: "(qmsg \<Rightarrow> string + string) \<Rightarrow> 'r streamOps \<Rightarrow> qmsg \<Rightarrow> 'r \<Rightarrow> 'r \<times> (string + string)" where
  "EnqueueRedis enc R m r = (case enc m of Inl e \<Rightarrow> (r, Inl e) | Inr raw \<Rightarrow> so_add R raw r)"

section \<open>Consumers\<close>

text \<open>
  A consumer loop is before the check of the context, in \<^verbatim>\<open>XREADGROUP\<close>, in the pause after a
  failed one, between the messages of a batch, in the handler, or has returned.
\<close>

datatype loopState =
    LoopTop
  | InRead
  | InPause
  | InBatch "(string \<times> string) list"
  | InHandler string "(string \<times> string) list"
  | LoopEnded

text \<open>
  \<open>qs_done\<close>: the context is cancelled; \<open>qs_closed\<close>: \<^verbatim>\<open>RunConsumers\<close> has closed
  \<^verbatim>\<open>errCh\<close> and returned; \<open>qs_crashed\<close>: the process has panicked. \<open>qs_handled\<close> records the calls of
  the handler, \<open>qs_over\<close> the messages a loop is done with.
\<close>

record 'r queueSys =
  qs_redis :: 'r
  qs_pool :: "loopState list"
  qs_done :: bool
  qs_closed :: bool
  qs_crashed :: bool
  qs_handled :: "(string \<times> qmsg) list"
  qs_over :: "string list"

definition RunConsumers :: "int \<Rightarrow> 'r \<Rightarrow> 'r queueSys" where
  "RunConsumers n r =
     \<lparr>qs_redis = r, qs_pool = replicate (nat (if n \<le> 0 then 1 else n)) LoopTop, qs_done = False, qs_closed = False,
      qs_crashed = False, qs_handled = [], qs_over = []\<rparr>"

definition atLoop :: "nat \<Rightarrow> loopState \<Rightarrow> 'r queueSys \<Rightarrow> bool" where
  "atLoop w c s \<longleftrightarrow> \<not> qs_crashed s \<and> w < length (qs_pool s) \<and> qs_pool s ! w = c"

definition goLoop :: "nat \<Rightarrow> loopState \<Rightarrow> 'r queueSys \<Rightarrow> 'r queueSys" where
  "goLoop w c s = s\<lparr>qs_pool := (qs_pool s)[w := c]\<rparr>"

definition readCount :: nat where
  "readCount = 10"

text \<open>The message is not acknowledged; the claim is the attempt to have it retried.\<close>

definition handlerFailed :: "'r streamOps \<Rightarrow> nat \<Rightarrow> string \<Rightarrow> (string \<times> string) list \<Rightarrow> 'r queueSys \<Rightarrow> 'r queueSys" where
  "handlerFailed R w i ms s =
     (goLoop w (InBatch ms) s)\<lparr>qs_redis := so_claim R i (qs_redis s), qs_over := i # qs_over s\<rparr>"

text \<open>Sending on the closed channel panics.\<close>

inductive consume :: "'r streamOps \<Rightarrow> (string \<Rightarrow> qmsg option) \<Rightarrow> 'r queueSys \<Rightarrow> 'r queueSys \<Rightarrow> bool"
  for R :: "'r streamOps" and dec :: "string \<Rightarrow> qmsg option" where
  c_stop: "atLoop w LoopTop s \<Longrightarrow> qs_done s \<Longrightarrow> \<not> qs_closed s \<Longrightarrow> consume R dec s (goLoop w LoopEnded s)"
| c_panic: "atLoop w LoopTop s \<Longrightarrow> qs_done s \<Longrightarrow> qs_closed s \<Longrightarrow>
    consume R dec s ((goLoop w LoopEnded s)\<lparr>qs_crashed := True\<rparr>)"
| c_call: "atLoop w LoopTop s \<Longrightarrow> \<not> qs_done s \<Longrightarrow> consume R dec s (goLoop w InRead s)"
| c_read: "atLoop w InRead s \<Longrightarrow> so_read R readCount (qs_redis s) = (r', Inr ms) \<Longrightarrow>
    consume R dec s ((goLoop w (InBatch ms) s)\<lparr>qs_redis := r'\<rparr>)"
| c_readErr: "atLoop w InRead s \<Longrightarrow> so_read R readCount (qs_redis s) = (r', Inl e) \<Longrightarrow>
    consume R dec s ((goLoop w InPause s)\<lparr>qs_redis := r'\<rparr>)"
| c_pause: "atLoop w InPause s \<Longrightarrow> consume R dec s (goLoop w LoopTop s)"
| c_leave: "atLoop w InPause s \<Longrightarrow> qs_done s \<Longrightarrow> consume R dec s (goLoop w LoopEnded s)"
| c_next: "atLoop w (InBatch []) s \<Longrightarrow> consume R dec s (goLoop w LoopTop s)"
| c_drop: "atLoop w (InBatch ((i, d) # ms)) s \<Longrightarrow> dec d = None \<Longrightarrow>
    consume R dec s ((goLoop w (InBatch ms) s)\<lparr>qs_redis := so_ack R i (qs_redis s), qs_over := i # qs_over s\<rparr>)"
| c_begin: "atLoop w (InBatch ((i, d) # ms)) s \<Longrightarrow> dec d = Some m \<Longrightarrow>
    consume R dec s ((goLoop w (InHandler i ms) s)\<lparr>qs_handled := qs_handled s @ [(i, m)]\<rparr>)"
| c_ok: "atLoop w (InHandler i ms) s \<Longrightarrow>
    consume R dec s ((goLoop w (InBatch ms) s)\<lparr>qs_redis := so_ack R i (qs_redis s), qs_over := i # qs_over s\<rparr>)"
| c_fail: "atLoop w (InHandler i ms) s \<Longrightarrow>
    consume R dec s (handlerFailed R w i ms s)"

text \<open>Around the consumers: producers, the end of the context, and the return of \<^verbatim>\<open>RunConsumers\<close>.\<close>

inductive queueStep :: "(qmsg \<Rightarrow> string + string) \<Rightarrow> 'r streamOps \<Rightarrow> (string \<Rightarrow> qmsg option) \<Rightarrow> 'r queueSys \<Rightarrow> 'r queueSys \<Rightarrow> bool"
  for enc :: "qmsg \<Rightarrow> string + string" and R :: "'r streamOps" and dec :: "string \<Rightarrow> qmsg option" where
  e_work: "consume R dec s s' \<Longrightarrow> queueStep enc R dec s s'"
| e_enqueue: "\<not> qs_crashed s \<Longrightarrow> queueStep enc R dec s (s\<lparr>qs_redis := fst (EnqueueRedis enc R m (qs_redis s))\<rparr>)"
| e_cancel: "\<not> qs_crashed s \<Longrightarrow> queueStep enc R dec s (s\<lparr>qs_done := True\<rparr>)"
| e_close: "\<not> qs_crashed s \<Longrightarrow> qs_done s \<Longrightarrow> queueStep enc R dec s (s\<lparr>qs_closed := True\<rparr>)"

section \<open>What Redis documents\<close>

text \<open>
  \<open>entries\<close> are the entries of the stream from the creation of the group on, each with an identifier
  of its own, \<open>delivered\<close> how many of them the group has passed, \<open>pending\<close> the list of those
  delivered and not acknowledged. A group created at \<^verbatim>\<open>$\<close> sees nothing that was added earlier;
  reading with \<^verbatim>\<open>>\<close> yields entries that no consumer was given yet; a claim with \<^verbatim>\<open>JUSTID\<close>
  delivers nothing.
\<close>

locale redis_stream =
  fixes R :: "'r streamOps"
    and entries :: "'r \<Rightarrow> (string \<times> string) list"
    and delivered :: "'r \<Rightarrow> nat"
    and pending :: "'r \<Rightarrow> string set"
  assumes ids: "distinct (map fst (entries r))"
    and passed: "delivered r \<le> length (entries r)"
    and group_new: "so_group R r = (r', None) \<Longrightarrow> entries r' = [] \<and> pending r' = {}"
    and group_old: "so_group R r = (r', Some e) \<Longrightarrow> r' = r"
    and add_views: "delivered (fst (so_add R d r)) = delivered r" "pending (fst (so_add R d r)) = pending r"
    and add_entry: "so_add R d r = (r', Inr i) \<Longrightarrow> entries r' = entries r @ [(i, d)]"
    and add_lost: "so_add R d r = (r', Inl e) \<Longrightarrow> entries r' = entries r \<or> (\<exists>i. entries r' = entries r @ [(i, d)])"
    and read_entries: "entries (fst (so_read R n r)) = entries r"
    and read_new: "so_read R n r = (r', Inr ms) \<Longrightarrow>
      ms = take n (drop (delivered r) (entries r)) \<and> delivered r' = delivered r + length ms
      \<and> pending r' = pending r \<union> fst ` set ms"
    and read_lost: "so_read R n r = (r', Inl e) \<Longrightarrow> delivered r \<le> delivered r' \<and> pending r \<subseteq> pending r'"
    and ack_views: "entries (so_ack R i r) = entries r" "delivered (so_ack R i r) = delivered r"
      "pending r - {i} \<subseteq> pending (so_ack R i r)" "pending (so_ack R i r) \<subseteq> pending r"
    and claim_views: "entries (so_claim R i r) = entries r" "delivered (so_claim R i r) = delivered r"
      "pending (so_claim R i r) = pending r"

section \<open>The invariant\<close>

text \<open>The messages a loop has yet to start, and those it has in hand, the one in the handler included.\<close>

fun todo :: "loopState \<Rightarrow> string list" where
  "todo (InBatch ms) = map fst ms"
| "todo (InHandler i ms) = map fst ms"
| "todo _ = []"

fun inHand :: "loopState \<Rightarrow> string list" where
  "inHand (InHandler i ms) = i # map fst ms"
| "inHand c = todo c"

fun batchOf :: "loopState \<Rightarrow> (string \<times> string) list" where
  "batchOf (InBatch ms) = ms"
| "batchOf (InHandler i ms) = ms"
| "batchOf _ = []"

lemma mset_concat_update:
  assumes "w < length xs"
  shows "mset (concat (map f (xs[w := c]))) + mset (f (xs ! w)) = mset (concat (map f xs)) + mset (f c)"
  using assms
proof (induction xs arbitrary: w)
  case (Cons x xs)
  show ?case
  proof (cases w)
    case 0
    then show ?thesis by (simp add: ac_simps)
  next
    case (Suc v)
    with Cons.prems have "mset (concat (map f (xs[v := c]))) + mset (f (xs ! v)) = mset (concat (map f xs)) + mset (f c)"
      by (intro Cons.IH) simp
    then show ?thesis by (simp add: Suc add.assoc)
  qed
qed simp

lemma goLoop_simps [simp]:
  "qs_redis (goLoop w c s) = qs_redis s" "qs_done (goLoop w c s) = qs_done s"
  "qs_closed (goLoop w c s) = qs_closed s" "qs_crashed (goLoop w c s) = qs_crashed s"
  "qs_handled (goLoop w c s) = qs_handled s" "qs_over (goLoop w c s) = qs_over s"
  "qs_pool (goLoop w c s) = (qs_pool s)[w := c]"
  by (simp_all add: goLoop_def)

lemma handlerFailed_simps [simp]:
  "qs_redis (handlerFailed R w i ms s) = so_claim R i (qs_redis s)" "qs_done (handlerFailed R w i ms s) = qs_done s"
  "qs_closed (handlerFailed R w i ms s) = qs_closed s" "qs_crashed (handlerFailed R w i ms s) = qs_crashed s"
  "qs_handled (handlerFailed R w i ms s) = qs_handled s" "qs_over (handlerFailed R w i ms s) = i # qs_over s"
  "qs_pool (handlerFailed R w i ms s) = (qs_pool s)[w := InBatch ms]"
  by (simp_all add: handlerFailed_def)

definition passedIDs :: "('r \<Rightarrow> (string \<times> string) list) \<Rightarrow> ('r \<Rightarrow> nat) \<Rightarrow> 'r \<Rightarrow> string list" where
  "passedIDs entries delivered r = map fst (take (delivered r) (entries r))"

definition fitsIn :: "(loopState \<Rightarrow> string list) \<Rightarrow> string list \<Rightarrow> loopState list \<Rightarrow> string list \<Rightarrow> bool" where
  "fitsIn f xs pool ds \<longleftrightarrow> mset (concat (map f pool)) + mset xs \<subseteq># mset ds"

text \<open>Every delivered entry is with at most one loop, at most once, and what was handled is not in any batch.\<close>

definition queueInv :: "(string \<Rightarrow> qmsg option) \<Rightarrow> ('r \<Rightarrow> (string \<times> string) list) \<Rightarrow> ('r \<Rightarrow> nat) \<Rightarrow> 'r queueSys \<Rightarrow> bool" where
  "queueInv dec entries delivered s \<longleftrightarrow>
     fitsIn todo (map fst (qs_handled s)) (qs_pool s) (passedIDs entries delivered (qs_redis s))
     \<and> fitsIn inHand (qs_over s) (qs_pool s) (passedIDs entries delivered (qs_redis s))
     \<and> (\<forall>c \<in> set (qs_pool s). set (batchOf c) \<subseteq> set (entries (qs_redis s)))
     \<and> (\<forall>(i, m) \<in> set (qs_handled s). \<exists>d. (i, d) \<in> set (entries (qs_redis s)) \<and> dec d = Some m)"

text \<open>What a loop has in hand is pending at the server, and the message in a handler is recorded.\<close>

definition handsOk :: "('r \<Rightarrow> string set) \<Rightarrow> 'r queueSys \<Rightarrow> bool" where
  "handsOk pending s \<longleftrightarrow>
     (\<forall>c \<in> set (qs_pool s). set (inHand c) \<subseteq> pending (qs_redis s))
     \<and> (\<forall>i ms. InHandler i ms \<in> set (qs_pool s) \<longrightarrow> i \<in> fst ` set (qs_handled s))"

lemma fitsIn_step:
  assumes "fitsIn f xs pool ds" "w < length pool" "pool ! w = c0"
    and "mset (f c) + mset xs' + mset ds \<subseteq># mset (f c0) + mset xs + mset ds'"
  shows "fitsIn f xs' (pool[w := c]) ds'"
  unfolding fitsIn_def subseteq_mset_def
proof
  fix a
  have "count (mset (concat (map f (pool[w := c]))) + mset (f c0)) a = count (mset (concat (map f pool)) + mset (f c)) a"
    using mset_concat_update [OF assms(2), of f c] assms(3) by simp
  moreover have "count (mset (concat (map f pool)) + mset xs) a \<le> count (mset ds) a"
    using assms(1) unfolding fitsIn_def by (rule mset_subset_eq_count)
  moreover have "count (mset (f c) + mset xs' + mset ds) a \<le> count (mset (f c0) + mset xs + mset ds') a"
    using assms(4) by (rule mset_subset_eq_count)
  ultimately show "count (mset (concat (map f (pool[w := c]))) + mset xs') a \<le> count (mset ds') a" by simp
qed

lemma fitsIn_distinct:
  assumes "fitsIn f xs pool ds" "distinct ds"
  shows "distinct xs" "c \<in> set pool \<Longrightarrow> a \<in> set (f c) \<Longrightarrow> a \<notin> set xs" "set xs \<subseteq> set ds"
proof -
  have le: "count (mset (concat (map f pool))) a + count (mset xs) a \<le> count (mset ds) a" for a
    using assms(1) mset_subset_eq_count [of "mset (concat (map f pool)) + mset xs" "mset ds" a] by (simp add: fitsIn_def)
  have one: "count (mset ds) a \<le> 1" for a
    using assms(2) by (simp add: distinct_count_atmost_1)
  show "distinct xs"
    unfolding distinct_count_atmost_1
  proof
    fix a
    have "count (mset xs) a \<le> 1" using le [of a] one [of a] by simp
    moreover have "a \<in> set xs \<longleftrightarrow> count (mset xs) a \<noteq> 0" by (metis count_eq_zero_iff set_mset_mset)
    ultimately show "count (mset xs) a = (if a \<in> set xs then 1 else 0)" by (simp add: order_antisym)
  qed
  show "a \<notin> set xs" if "c \<in> set pool" "a \<in> set (f c)"
  proof
    assume "a \<in> set xs"
    moreover have "a \<in> set (concat (map f pool))" using that by auto
    ultimately have "count (mset xs) a \<noteq> 0" "count (mset (concat (map f pool))) a \<noteq> 0"
      by (metis count_eq_zero_iff set_mset_mset)+
    then show False using le [of a] one [of a] by linarith
  qed
  show "set xs \<subseteq> set ds"
    using assms(1) set_mset_mono [of "mset (concat (map f pool)) + mset xs" "mset ds"] by (auto simp: fitsIn_def)
qed

lemma batches_update:
  "(\<forall>c \<in> set pool. set (batchOf c) \<subseteq> E) \<Longrightarrow> set (batchOf c) \<subseteq> E \<Longrightarrow> \<forall>c \<in> set (pool[w := c]). set (batchOf c) \<subseteq> E"
  using set_update_subset_insert [of pool w c] by blast

context redis_stream
begin

lemma passed_distinct: "distinct (passedIDs entries delivered r)"
  unfolding passedIDs_def using ids [of r] by (metis distinct_take take_map)

lemma passed_read:
  assumes "so_read R n r = (r', Inr ms)"
  shows "passedIDs entries delivered r' = passedIDs entries delivered r @ map fst ms" "entries r' = entries r"
    "set ms \<subseteq> set (entries r)"
proof -
  note new = read_new [OF assms]
  show e: "entries r' = entries r" using read_entries [of n r] assms by simp
  have "take (length ms) (drop (delivered r) (entries r)) = ms" using new by (metis append_eq_conv_conj append_take_drop_id)
  then show "passedIDs entries delivered r' = passedIDs entries delivered r @ map fst ms"
    using new e by (simp add: passedIDs_def take_add)
  show "set ms \<subseteq> set (entries r)" using new by (metis set_take_subset set_drop_subset subset_trans)
qed

lemma passed_same [simp]:
  "passedIDs entries delivered (so_ack R i r) = passedIDs entries delivered r"
  "passedIDs entries delivered (so_claim R i r) = passedIDs entries delivered r"
  by (simp_all add: passedIDs_def ack_views claim_views)

lemma entries_add: "\<exists>es. entries (fst (so_add R d r)) = entries r @ es"
proof (cases "so_add R d r")
  case (Pair r' res)
  then show ?thesis using add_lost [of d r r'] add_entry [of d r r'] by (cases res) auto
qed

lemma passed_add: "passedIDs entries delivered (fst (so_add R d r)) = passedIDs entries delivered r"
  using entries_add [of d r] passed [of r] by (auto simp: passedIDs_def add_views)

lemma inv_grows:
  assumes "queueInv dec entries delivered s" "entries r' = entries (qs_redis s) @ es"
    "passedIDs entries delivered r' = passedIDs entries delivered (qs_redis s)"
  shows "queueInv dec entries delivered (s\<lparr>qs_redis := r'\<rparr>)"
  using assms unfolding queueInv_def by fastforce

text \<open>One loop goes on from \<open>c0\<close> to \<open>c\<close>.\<close>

lemma inv_move:
  assumes "queueInv dec entries delivered s" "atLoop w c0 s"
    and "qs_pool s' = (qs_pool s)[w := c]" "entries (qs_redis s') = entries (qs_redis s)"
    and "passedIDs entries delivered (qs_redis s') = passedIDs entries delivered (qs_redis s) @ ds"
    and "mset (todo c) + mset (map fst (qs_handled s')) \<subseteq># mset (todo c0) + mset (map fst (qs_handled s)) + mset ds"
    and "mset (inHand c) + mset (qs_over s') \<subseteq># mset (inHand c0) + mset (qs_over s) + mset ds"
    and "set (batchOf c) \<subseteq> set (entries (qs_redis s))"
    and "\<forall>(i, m) \<in> set (qs_handled s') - set (qs_handled s). \<exists>d. (i, d) \<in> set (entries (qs_redis s)) \<and> dec d = Some m"
  shows "queueInv dec entries delivered s'"
proof -
  let ?D = "passedIDs entries delivered (qs_redis s)"
  have at: "w < length (qs_pool s)" "qs_pool s ! w = c0" using assms(2) by (auto simp: atLoop_def)
  note I = assms(1) [unfolded queueInv_def]
  have "fitsIn todo (map fst (qs_handled s')) ((qs_pool s)[w := c]) (?D @ ds)"
    using fitsIn_step [of todo "map fst (qs_handled s)" "qs_pool s" ?D w c0 c "map fst (qs_handled s')" "?D @ ds"]
      I at assms(6) by (simp add: ac_simps)
  moreover have "fitsIn inHand (qs_over s') ((qs_pool s)[w := c]) (?D @ ds)"
    using fitsIn_step [of inHand "qs_over s" "qs_pool s" ?D w c0 c "qs_over s'" "?D @ ds"]
      I at assms(7) by (simp add: ac_simps)
  moreover have "\<forall>c \<in> set ((qs_pool s)[w := c]). set (batchOf c) \<subseteq> set (entries (qs_redis s))"
    using I assms(8) by (intro batches_update) auto
  moreover have "\<forall>(i, m) \<in> set (qs_handled s'). \<exists>d. (i, d) \<in> set (entries (qs_redis s)) \<and> dec d = Some m"
    using I assms(9) by fast
  ultimately show ?thesis unfolding queueInv_def assms(3-5) by blast
qed

lemma passed_lost:
  assumes "so_read R n r = (r', Inl e)"
  shows "\<exists>ds. passedIDs entries delivered r' = passedIDs entries delivered r @ ds" "entries r' = entries r"
proof -
  show e: "entries r' = entries r" using read_entries [of n r] assms by simp
  obtain k where "delivered r' = delivered r + k" using read_lost [OF assms] le_Suc_ex by blast
  then show "\<exists>ds. passedIDs entries delivered r' = passedIDs entries delivered r @ ds"
    by (simp add: passedIDs_def e take_add)
qed

lemma batch_entries:
  assumes "queueInv dec entries delivered s" "atLoop w c s"
  shows "set (batchOf c) \<subseteq> set (entries (qs_redis s))"
proof -
  have "c \<in> set (qs_pool s)" using assms(2) by (auto simp: atLoop_def)
  then show ?thesis using assms(1) by (simp add: queueInv_def)
qed

lemma inv_consume:
  assumes inv: "queueInv dec entries delivered s" and "consume R dec s s'"
  shows "queueInv dec entries delivered s'"
  using assms(2)
proof cases
  case (c_read w r' ms)
  then show ?thesis using passed_read [OF c_read(3)] by (intro inv_move [OF inv c_read(2), where ds = "map fst ms"]) auto
next
  case (c_readErr w r' e)
  from passed_lost(1) [OF c_readErr(3)] obtain ds
    where "passedIDs entries delivered r' = passedIDs entries delivered (qs_redis s) @ ds" ..
  then show ?thesis using c_readErr passed_lost(2) [OF c_readErr(3)]
    by (intro inv_move [OF inv c_readErr(2), where ds = ds]) auto
next
  case (c_begin w i d ms m)
  then show ?thesis using batch_entries [OF inv c_begin(2)]
    by (intro inv_move [OF inv c_begin(2), where ds = "[]"]) auto
next
  case (c_drop w i d ms)
  then show ?thesis using batch_entries [OF inv c_drop(2)]
    by (intro inv_move [OF inv c_drop(2), where ds = "[]"]) (auto simp: ack_views)
next
  case (c_ok w i ms)
  then show ?thesis using batch_entries [OF inv c_ok(2)]
    by (intro inv_move [OF inv c_ok(2), where ds = "[]"]) (auto simp: ack_views)
next
  case (c_fail w i ms)
  then show ?thesis using batch_entries [OF inv c_fail(2)]
    by (intro inv_move [OF inv c_fail(2), where ds = "[]"]) (auto simp: claim_views)
qed (rule inv_move [OF inv, where ds = "[]"], assumption, auto)+

lemma inv_queueStep:
  assumes "queueInv dec entries delivered s" "queueStep enc R dec s s'"
  shows "queueInv dec entries delivered s'"
  using assms(2)
proof cases
  case e_work
  with assms(1) show ?thesis by (rule inv_consume)
next
  case (e_enqueue m)
  have "\<exists>es. entries (fst (EnqueueRedis enc R m r)) = entries r @ es"
    "passedIDs entries delivered (fst (EnqueueRedis enc R m r)) = passedIDs entries delivered r" for r
    using entries_add passed_add by (auto simp: EnqueueRedis_def split: sum.split)
  with inv_grows [OF assms(1)] e_enqueue show ?thesis by blast
qed (use assms(1) in \<open>simp_all add: queueInv_def\<close>)

lemma inv_start: "queueInv dec entries delivered (RunConsumers n r)"
  by (simp add: queueInv_def RunConsumers_def fitsIn_def)

text \<open>A message whose handler has returned and that was not acknowledged.\<close>

lemma over_not_inHand:
  assumes "queueInv dec entries delivered s" "atLoop w c s" "i \<in> set (qs_over s)"
  shows "i \<notin> set (inHand c)"
proof -
  have "c \<in> set (qs_pool s)" using assms(2) by (auto simp: atLoop_def)
  then show ?thesis using assms(1,3) fitsIn_distinct(2) [OF _ passed_distinct] by (auto simp: queueInv_def)
qed

lemma ack_other: "i \<in> pending r \<Longrightarrow> j \<noteq> i \<Longrightarrow> i \<in> pending (so_ack R j r)"
  using ack_views(3) [of r j] by blast

lemma stuck_consume:
  assumes "queueInv dec entries delivered s" "i \<in> set (qs_over s) \<and> i \<in> pending (qs_redis s)" "consume R dec s s'"
  shows "i \<in> set (qs_over s') \<and> i \<in> pending (qs_redis s')"
  using assms(3)
proof cases
  case (c_read w r' ms)
  then show ?thesis using assms(2) read_new [OF c_read(3)] by auto
next
  case (c_readErr w r' e)
  then show ?thesis using assms(2) read_lost [OF c_readErr(3)] by auto
next
  case (c_drop w j d ms)
  then show ?thesis using assms(2) over_not_inHand [OF assms(1) c_drop(2), of i] by (auto intro: ack_other)
next
  case (c_ok w j ms)
  then show ?thesis using assms(2) over_not_inHand [OF assms(1) c_ok(2), of i] by (auto intro: ack_other)
qed (use assms(2) in \<open>auto simp: claim_views\<close>)

lemma stuck_queueStep:
  assumes "queueInv dec entries delivered s" "i \<in> set (qs_over s) \<and> i \<in> pending (qs_redis s)" "queueStep enc R dec s s'"
  shows "i \<in> set (qs_over s') \<and> i \<in> pending (qs_redis s')"
  using assms(3)
proof cases
  case e_work
  with assms(1,2) show ?thesis by (rule stuck_consume)
next
  case (e_enqueue m)
  then show ?thesis using assms(2) by (auto simp: EnqueueRedis_def add_views split: sum.split)
qed (use assms(2) in simp_all)

lemma handled_grows: "consume R dec s s' \<Longrightarrow> set (qs_handled s) \<subseteq> set (qs_handled s')"
  by (cases rule: consume.cases) auto

lemma hands_move:
  assumes "handsOk pending s" "atLoop w c0 s" "qs_pool s' = (qs_pool s)[w := c]"
    and "set (qs_handled s) \<subseteq> set (qs_handled s')"
    and "\<And>i ms. c = InHandler i ms \<Longrightarrow> i \<in> fst ` set (qs_handled s')"
    and "\<And>d j. d \<in> set (qs_pool s') \<Longrightarrow> j \<in> set (inHand d) \<Longrightarrow> j \<in> pending (qs_redis s) \<Longrightarrow> j \<in> pending (qs_redis s')"
    and "set (inHand c) \<subseteq> pending (qs_redis s')"
  shows "handsOk pending s'"
proof -
  have "d = c \<or> d \<in> set (qs_pool s)" if "d \<in> set (qs_pool s')" for d
    using that assms(3) set_update_subset_insert [of "qs_pool s" w c] by auto
  then show ?thesis using assms unfolding handsOk_def by blast
qed

lemma hands_ack:
  assumes "queueInv dec entries delivered s'" "handsOk pending s" "atLoop w c0 s" "qs_pool s' = (qs_pool s)[w := c]"
    and "qs_redis s' = so_ack R i (qs_redis s)" "i \<in> set (qs_over s')" "qs_handled s' = qs_handled s"
    and "set (inHand c) \<subseteq> set (inHand c0)" "c = InBatch ms"
  shows "handsOk pending s'"
proof -
  have ne: "j \<noteq> i" if "d \<in> set (qs_pool s')" "j \<in> set (inHand d)" for d j
    using that assms(1,6) fitsIn_distinct(2) [OF _ passed_distinct] by (auto simp: queueInv_def)
  have c: "c \<in> set (qs_pool s')" "c0 \<in> set (qs_pool s)"
    using assms(3,4) by (auto simp: atLoop_def set_update_memI)
  have "set (inHand c) \<subseteq> pending (qs_redis s)" using c(2) assms(2,8) by (auto simp: handsOk_def)
  then have "set (inHand c) \<subseteq> pending (qs_redis s')" using ne [OF c(1)] assms(5) by (auto intro: ack_other)
  moreover have "j \<in> pending (qs_redis s')"
    if "d \<in> set (qs_pool s')" "j \<in> set (inHand d)" "j \<in> pending (qs_redis s)" for d j
    using that ne [of d j] assms(5) by (simp add: ack_other)
  ultimately show ?thesis using assms(7,9) by (intro hands_move [OF assms(2-4)]) simp_all
qed

lemma hands_consume:
  assumes "queueInv dec entries delivered s" "handsOk pending s" "consume R dec s s'"
  shows "handsOk pending s'"
proof -
  note inv' = inv_consume [OF assms(1,3)]
  have hand: "set (inHand c) \<subseteq> pending (qs_redis s)" if "atLoop w c s" for w c
    using that assms(2) by (auto simp: handsOk_def atLoop_def)
  from assms(3) show ?thesis
  proof cases
    case (c_read w r' ms)
    then show ?thesis using read_new [OF c_read(3)] by (intro hands_move [OF assms(2) c_read(2)]) auto
  next
    case (c_readErr w r' e)
    then show ?thesis using read_lost [OF c_readErr(3)] by (intro hands_move [OF assms(2) c_readErr(2)]) auto
  next
    case (c_begin w i d ms m)
    then show ?thesis using hand [OF c_begin(2)] by (intro hands_move [OF assms(2) c_begin(2)]) (auto simp: image_subset_iff)
  next
    case (c_drop w i d ms)
    then show ?thesis by (intro hands_ack [OF inv' assms(2) c_drop(2)]) auto
  next
    case (c_ok w i ms)
    then show ?thesis by (intro hands_ack [OF inv' assms(2) c_ok(2)]) auto
  next
    case (c_fail w i ms)
    then show ?thesis using hand [OF c_fail(2)]
      by (intro hands_move [OF assms(2) c_fail(2)]) (auto simp: claim_views)
  qed (rule hands_move [OF assms(2)], assumption, auto)+
qed

lemma hands_queueStep:
  assumes "queueInv dec entries delivered s" "handsOk pending s" "queueStep enc R dec s s'"
  shows "handsOk pending s'"
  using assms(3)
proof cases
  case e_work
  with assms(1,2) show ?thesis by (rule hands_consume)
next
  case (e_enqueue m)
  then show ?thesis using assms(2) by (auto simp: handsOk_def EnqueueRedis_def add_views split: sum.split)
qed (use assms(2) in \<open>simp_all add: handsOk_def\<close>)

end

sublocale redis_stream \<subseteq> hands: kept_property "queueStep enc R dec" "queueInv dec entries delivered" "handsOk pending"
    for enc dec
  by unfold_locales (rule inv_queueStep hands_queueStep; assumption)+

sublocale redis_stream \<subseteq> queue: kept_property "queueStep enc R dec" "queueInv dec entries delivered"
    "\<lambda>s. i \<in> set (qs_over s) \<and> i \<in> pending (qs_redis s)" for enc dec i
  by unfold_locales (rule inv_queueStep stuck_queueStep; assumption)+

context redis_stream
begin

lemma reached:
  assumes "(queueStep enc R dec)\<^sup>*\<^sup>* (RunConsumers n r) s"
  shows "queueInv dec entries delivered s" "handsOk pending s"
proof -
  show "queueInv dec entries delivered s" using assms inv_start by (rule hands.inv_run)
  have "handsOk pending (RunConsumers n r)" by (simp add: handsOk_def RunConsumers_def)
  then show "handsOk pending s" using assms inv_start hands.kept_run by blast
qed

lemma stuck_inv:
  "(queueStep enc R dec)\<^sup>*\<^sup>* s s' \<Longrightarrow> queueInv dec entries delivered s \<Longrightarrow> queueInv dec entries delivered s'"
  by (rule hands.inv_run)

lemma stuck_run:
  assumes "(queueStep enc R dec)\<^sup>*\<^sup>* s s'" "queueInv dec entries delivered s" "i \<in> set (qs_over s) \<and> i \<in> pending (qs_redis s)"
  shows "i \<in> set (qs_over s') \<and> i \<in> pending (qs_redis s')"
  using assms by (rule queue.kept_run)

lemma handled_once: "queueInv dec entries delivered s \<Longrightarrow> distinct (map fst (qs_handled s))"
  using fitsIn_distinct(1) [OF _ passed_distinct] by (auto simp: queueInv_def)

lemma handled_run: "(queueStep enc R dec)\<^sup>*\<^sup>* s s' \<Longrightarrow> set (qs_handled s) \<subseteq> set (qs_handled s')"
proof (induction rule: rtranclp_induct)
  case (step u v)
  from step(2) have "set (qs_handled u) \<subseteq> set (qs_handled v)" by cases (auto dest: handled_grows)
  with step(3) show ?case by blast
qed simp

end

section \<open>The end of the consumers\<close>

text \<open>Once the context is done, a loop reads at most one more batch.\<close>

fun loopEffort :: "loopState \<Rightarrow> nat" where
  "loopEffort LoopEnded = 0"
| "loopEffort LoopTop = 1"
| "loopEffort InPause = 2"
| "loopEffort (InBatch ms) = 2 * length ms + 2"
| "loopEffort (InHandler i ms) = 2 * length ms + 3"
| "loopEffort InRead = 2 * readCount + 3"

definition poolEffort :: "'r queueSys \<Rightarrow> nat" where
  "poolEffort s = sum_list (map loopEffort (qs_pool s))"

lemma effort_move:
  assumes "atLoop w c0 s" "qs_pool s' = (qs_pool s)[w := c]" "loopEffort c < loopEffort c0"
  shows "poolEffort s' < poolEffort s"
proof -
  have w: "w < length (qs_pool s)" "qs_pool s ! w = c0" using assms(1) by (auto simp: atLoop_def)
  then have "poolEffort s' = poolEffort s + loopEffort c - loopEffort c0"
    using assms(2) by (simp add: poolEffort_def map_update sum_list_update)
  moreover have "loopEffort c0 \<le> poolEffort s"
    using w unfolding poolEffort_def by (metis elem_le_sum_list length_map nth_map)
  ultimately show ?thesis using assms(3) by simp
qed

text \<open>A loop that has work in hand, or is back at its top, can only end in the panic.\<close>

fun busy :: "loopState \<Rightarrow> bool" where
  "busy (InBatch ms) = True"
| "busy (InHandler i ms) = True"
| "busy LoopTop = True"
| "busy _ = False"

definition doomed :: "nat \<Rightarrow> 'r queueSys \<Rightarrow> bool" where
  "doomed w s \<longleftrightarrow> qs_closed s \<and> (qs_crashed s \<or> (\<exists>c. atLoop w c s \<and> busy c))"

lemma consume_done: "consume R dec s s' \<Longrightarrow> qs_done s' = qs_done s \<and> qs_closed s' = qs_closed s"
  by (cases rule: consume.cases) auto

lemma atLoop_move:
  assumes "atLoop w c s" "atLoop v c0 s" "qs_pool s' = (qs_pool s)[v := c1]" "busy c" "busy c0 \<Longrightarrow> busy c1"
    "qs_crashed s' = qs_crashed s"
  shows "\<exists>c. atLoop w c s' \<and> busy c"
  using assms by (cases "w = v") (auto simp: atLoop_def)

lemma doomed_consume:
  assumes "qs_done s" "doomed w s" "consume R dec s s'"
  shows "doomed w s'"
proof (cases "qs_crashed s'")
  case True
  then show ?thesis using assms(2) consume_done [OF assms(3)] by (simp add: doomed_def)
next
  case False
  have "\<not> qs_crashed s" using assms(3) by cases (auto simp: atLoop_def)
  then obtain c where c: "atLoop w c s" "busy c" and "qs_closed s" using assms(2) by (auto simp: doomed_def)
  from assms(3) have "\<exists>c. atLoop w c s' \<and> busy c"
  proof cases
    case (c_readErr v r' e)
    then show ?thesis by (intro atLoop_move [OF c(1) c_readErr(2) _ c(2)]) auto
  next
    case (c_leave v)
    then show ?thesis by (intro atLoop_move [OF c(1) c_leave(2) _ c(2)]) auto
  qed (use False \<open>qs_closed s\<close> assms(1) atLoop_move [OF c(1) _ _ c(2), of _ _ s'] in auto)
  then show ?thesis using consume_done [OF assms(3)] \<open>qs_closed s\<close> by (simp add: doomed_def)
qed

interpretation doom: kept_property "consume R dec" qs_done "doomed w" for R :: "'r streamOps" and dec w
  by unfold_locales (auto simp: consume_done doomed_consume)

lemma doomed_ends:
  assumes "qs_done s" "doomed w s" "\<not> (\<exists>u. consume R dec s u)"
  shows "qs_crashed s"
proof (rule ccontr)
  assume "\<not> qs_crashed s"
  with assms(2) obtain c where c: "atLoop w c s" "busy c" "qs_closed s" by (auto simp: doomed_def)
  have "\<exists>u. consume R dec s u"
  proof (cases c rule: busy.cases)
    case (1 ms)
    show ?thesis
    proof (cases ms)
      case Nil
      with 1 c show ?thesis using c_next by blast
    next
      case (Cons x xs)
      obtain i d where "x = (i, d)" by (cases x)
      with Cons 1 c have "atLoop w (InBatch ((i, d) # xs)) s" by simp
      then show ?thesis using c_drop [of w i d xs s dec R] c_begin [of w i d xs s dec] by (cases "dec d") blast+
    qed
  next
    case (2 i ms)
    with c show ?thesis using c_ok by blast
  next
    case 3
    with c assms(1) show ?thesis using c_panic by blast
  qed (use c in simp_all)
  with assms(3) show False ..
qed

context redis_stream
begin

lemma consume_effort:
  assumes "qs_done s" "consume R dec s s'"
  shows "poolEffort s' < poolEffort s"
  using assms(2)
proof cases
  case (c_read w r' ms)
  then have "length ms \<le> readCount" using read_new [OF c_read(3)] by simp
  then show ?thesis using c_read by (intro effort_move [OF c_read(2), where c = "InBatch ms"]) auto
next
  case (c_call w)
  with assms(1) show ?thesis by simp
next
  case (c_readErr w r' e)
  then show ?thesis by (intro effort_move [OF c_readErr(2), where c = InPause]) auto
qed (rule effort_move, assumption, simp, simp)+

end

sublocale redis_stream \<subseteq> ending: bounded_run "consume R dec" qs_done poolEffort for dec
  by unfold_locales (auto simp: consume_done consume_effort)

context redis_stream
begin

lemma comes_to_rest: "qs_done s \<Longrightarrow> \<exists>s'. (consume R dec)\<^sup>*\<^sup>* s s' \<and> \<not> (\<exists>u. consume R dec s' u)"
  by (rule ending.run_ends)

lemma steps_bounded: "(consume R dec ^^ n) s s' \<Longrightarrow> qs_done s \<Longrightarrow> n \<le> poolEffort s"
  using ending.run_bound by fastforce

end

section \<open>Redis, for examples\<close>

text \<open>
  A server that never fails: \<open>rf_old\<close> entries precede the group, \<open>rf_past\<close> were delivered, \<open>rf_data\<close>
  are still to be.
\<close>

record refRedis =
  rf_group :: bool
  rf_old :: nat
  rf_past :: "string list"
  rf_data :: "string list"
  rf_pending :: "string list"

definition refID :: "nat \<Rightarrow> string" where
  "refID k = replicate k CHR ''1''"

primrec numbered :: "nat \<Rightarrow> string list \<Rightarrow> (string \<times> string) list" where
  "numbered k [] = []"
| "numbered k (d # ds) = (refID k, d) # numbered (Suc k) ds"

definition refEntries :: "refRedis \<Rightarrow> (string \<times> string) list" where
  "refEntries r = numbered (rf_old r) (rf_past r @ rf_data r)"

definition refDelivered :: "refRedis \<Rightarrow> nat" where
  "refDelivered r = length (rf_past r)"

definition refPending :: "refRedis \<Rightarrow> string set" where
  "refPending r = set (rf_pending r)"

definition refOps :: "refRedis streamOps" where
  "refOps =
     \<lparr>so_group = (\<lambda>r. if rf_group r then (r, Some ''BUSYGROUP Consumer Group name already exists'')
        else (\<lparr>rf_group = True, rf_old = rf_old r + length (rf_past r @ rf_data r), rf_past = [], rf_data = [], rf_pending = []\<rparr>, None)),
      so_add = (\<lambda>d r. (r\<lparr>rf_data := rf_data r @ [d]\<rparr>, Inr (refID (rf_old r + length (rf_past r @ rf_data r))))),
      so_read = (\<lambda>n r. if \<not> rf_group r then (r, Inl ''NOGROUP'')
        else let ms = take n (drop (refDelivered r) (refEntries r))
             in (r\<lparr>rf_past := rf_past r @ take n (rf_data r), rf_data := drop n (rf_data r),
                   rf_pending := rf_pending r @ map fst ms\<rparr>, Inr ms)),
      so_ack = (\<lambda>i r. r\<lparr>rf_pending := removeAll i (rf_pending r)\<rparr>),
      so_claim = (\<lambda>i r. r)\<rparr>"

lemma refID_inj: "refID j = refID k \<longleftrightarrow> j = k"
  unfolding refID_def by (metis length_replicate)

lemma numbered_simps [simp]:
  "length (numbered k ds) = length ds"
  "numbered k (ds @ es) = numbered k ds @ numbered (k + length ds) es"
  by (induction ds arbitrary: k) auto

lemma numbered_ids: "i \<in> fst ` set (numbered k ds) \<Longrightarrow> \<exists>j \<ge> k. i = refID j"
  by (induction ds arbitrary: k) (auto dest: Suc_leD)

lemma numbered_distinct: "distinct (map fst (numbered k ds))"
proof (induction ds arbitrary: k)
  case (Cons d ds)
  have "refID k \<notin> fst ` set (numbered (Suc k) ds)"
    using numbered_ids [of "refID k" "Suc k" ds] by (auto simp: refID_inj)
  with Cons [of "Suc k"] show ?case by simp
qed simp

lemma ref_read:
  assumes "so_read refOps n r = (r', Inr ms)"
  shows "ms = take n (drop (refDelivered r) (refEntries r))
    \<and> refDelivered r' = refDelivered r + length ms \<and> refPending r' = refPending r \<union> fst ` set ms"
proof -
  have ms: "ms = take n (drop (refDelivered r) (refEntries r))"
    and r': "r' = r\<lparr>rf_past := rf_past r @ take n (rf_data r), rf_data := drop n (rf_data r),
      rf_pending := rf_pending r @ map fst ms\<rparr>"
    using assms by (auto simp: refOps_def Let_def split: if_splits)
  have "length ms = length (take n (rf_data r))"
    unfolding ms by (simp add: refDelivered_def refEntries_def)
  then show ?thesis unfolding r' by (simp add: ms refDelivered_def refPending_def)
qed

lemma ref_read_entries: "refEntries (fst (so_read refOps n r)) = refEntries r"
  by (simp add: refOps_def Let_def refEntries_def flip: numbered_simps(2))

interpretation ref: redis_stream refOps refEntries refDelivered refPending
proof (unfold_locales, goal_cases)
  case (1 r)
  show ?case unfolding refEntries_def by (rule numbered_distinct)
next
  case (9 n r)
  show ?case by (rule ref_read_entries)
next
  case (10 n r r' ms)
  then show ?case by (rule ref_read)
qed (auto simp: refOps_def Let_def refEntries_def refDelivered_def refPending_def add.assoc split: if_splits)

text \<open>One consumer has taken the only message and calls its handler.\<close>

definition demoMsg :: qmsg where
  "demoMsg = \<lparr>q_ID = ''j1'', q_Type = ''scan'', q_Input = ''text'', q_Metadata = Map.empty\<rparr>"

definition demoDec :: "string \<Rightarrow> qmsg option" where
  "demoDec d = (if d = ''x'' then Some demoMsg else None)"

definition demoQueue :: "bool \<Rightarrow> loopState \<Rightarrow> (string \<times> qmsg) list \<Rightarrow> refRedis queueSys" where
  "demoQueue given c hs =
     \<lparr>qs_redis = \<lparr>rf_group = True, rf_old = 1, rf_past = (if given then [''x''] else []),
        rf_data = (if given then [] else [''x'']), rf_pending = (if given then [''1''] else [])\<rparr>,
      qs_pool = [c], qs_done = False, qs_closed = False, qs_crashed = False, qs_handled = hs, qs_over = []\<rparr>"

lemma demo_at: "atLoop 0 c (demoQueue given c hs)"
  by (simp add: atLoop_def demoQueue_def)

lemma demo_reached:
  "(queueStep enc refOps demoDec)\<^sup>*\<^sup>* (RunConsumers 1 (qs_redis (demoQueue False LoopTop [])))
     (demoQueue True (InHandler ''1'' []) [(''1'', demoMsg)])"
proof -
  have start: "RunConsumers 1 (qs_redis (demoQueue False LoopTop [])) = demoQueue False LoopTop []"
    by (simp add: RunConsumers_def demoQueue_def)
  have "consume refOps demoDec (demoQueue False LoopTop []) (demoQueue False InRead [])"
    using c_call [OF demo_at, of False "[]" refOps demoDec] by (simp add: demoQueue_def goLoop_def)
  moreover have "consume refOps demoDec (demoQueue False InRead []) (demoQueue True (InBatch [(''1'', ''x'')]) [])"
    using c_read [OF demo_at, of refOps False "[]" "qs_redis (demoQueue True LoopTop [])" "[(''1'', ''x'')]" demoDec]
    by (simp add: demoQueue_def goLoop_def refOps_def refDelivered_def refEntries_def refID_def readCount_def)
  moreover have "consume refOps demoDec (demoQueue True (InBatch [(''1'', ''x'')]) [])
      (demoQueue True (InHandler ''1'' []) [(''1'', demoMsg)])"
    using c_begin [where i = "''1''" and d = "''x''" and ms = "[]" and m = demoMsg and R = refOps and dec = demoDec, OF demo_at, of True "[]"]
    by (simp add: demoQueue_def goLoop_def demoDec_def)
  ultimately show ?thesis unfolding start by (meson e_work rtranclp.rtrancl_into_rtrancl rtranclp.rtrancl_refl)
qed

section \<open>Properties\<close>

text \<open>
  Whatever the consumers, the producers and the server do, no entry of the stream is handed to
  the handler twice, and every message that is handed over is what its entry decodes to.
\<close>

theorem handled_at_most_once:
  assumes "redis_stream R entries delivered pending"
    and "(queueStep enc R dec)\<^sup>*\<^sup>* (RunConsumers n r) s"
  shows "distinct (map fst (qs_handled s))
    \<and> (\<forall>(i, m) \<in> set (qs_handled s). \<exists>d. (i, d) \<in> set (entries (qs_redis s)) \<and> dec d = Some m)"
  using redis_stream.reached(1) [OF assms] redis_stream.handled_once [OF assms(1)] by (simp add: queueInv_def)

theorem handled_at_most_once_witness:
  "distinct (map fst (qs_handled (demoQueue True (InHandler ''1'' []) [(''1'', demoMsg)])))
    \<and> demoDec ''x'' = Some demoMsg"
  using handled_at_most_once [OF ref.redis_stream_axioms demo_reached [of "\<lambda>m. Inr ''x''"]]
  by (simp add: demoQueue_def refEntries_def refID_def)

text \<open>
  C35. A message whose handler fails is never handed to a handler again, although the code means to
  have it retried after the visibility timeout: whatever happens afterwards, the handler has been called
  for it once, and it stays in the list of pending entries for ever. The claim does not
  deliver it, and the loops read only entries that were never delivered.
\<close>

theorem failed_never_retried:
  assumes "redis_stream R entries delivered pending"
    and "(queueStep enc R dec)\<^sup>*\<^sup>* (RunConsumers n r) s" "atLoop w (InHandler i ms) s"
    and "(queueStep enc R dec)\<^sup>*\<^sup>* (handlerFailed R w i ms s) s'"
  shows "count_list (map fst (qs_handled s')) i = 1 \<and> i \<in> pending (qs_redis s')"
proof -
  note Q = redis_stream.reached [OF assms(1,2)]
  let ?f = "handlerFailed R w i ms s"
  have st: "queueStep enc R dec s ?f" using assms(3) by (intro e_work c_fail)
  have inv: "queueInv dec entries delivered ?f" by (rule redis_stream.inv_queueStep [OF assms(1) Q(1) st])
  have h: "InHandler i ms \<in> set (qs_pool s)" using assms(3) by (metis atLoop_def nth_mem)
  then have "i \<in> set (qs_over ?f) \<and> i \<in> pending (qs_redis ?f)"
    using Q(2) by (force simp: handsOk_def redis_stream.claim_views [OF assms(1)])
  then have p: "i \<in> pending (qs_redis s')"
    using redis_stream.stuck_run [OF assms(1,4) inv] by blast
  have "i \<in> fst ` set (qs_handled ?f)" using h Q(2) by (auto simp: handsOk_def)
  then have "i \<in> set (map fst (qs_handled s'))"
    using redis_stream.handled_run [OF assms(1,4)] by auto
  moreover have "distinct (map fst (qs_handled s'))"
    using redis_stream.stuck_inv [OF assms(1,4) inv] by (rule redis_stream.handled_once [OF assms(1)])
  ultimately have "count_list (map fst (qs_handled s')) i = 1"
    by (simp only: distinct_count_atmost_1 count_mset) (metis count_mset)
  with p show ?thesis by blast
qed

theorem failed_never_retried_witness:
  "count_list (map fst (qs_handled (handlerFailed refOps 0 ''1'' [] (demoQueue True (InHandler ''1'' []) [(''1'', demoMsg)])))) ''1'' = 1
    \<and> ''1'' \<in> refPending (qs_redis (handlerFailed refOps 0 ''1'' [] (demoQueue True (InHandler ''1'' []) [(''1'', demoMsg)])))"
  by (rule failed_never_retried [OF ref.redis_stream_axioms demo_reached [of "\<lambda>m. Inr ''x''"] demo_at rtranclp.rtrancl_refl])

text \<open>
  C36. Stopping the consumers while one of them has messages in hand crashes the process: once
  \<^verbatim>\<open>RunConsumers\<close> has returned, no run of the loops has more steps than \<open>poolEffort\<close>
  says, and wherever a run can go no further it has ended in the panic of the send on the channel that \<^verbatim>\<open>RunConsumers\<close> closed.
\<close>

theorem shutdown_panics:
  assumes "redis_stream R entries delivered pending"
    and "qs_done s" "qs_closed s" "atLoop w c s" "busy c"
  shows "(\<forall>n s'. (consume R dec ^^ n) s s' \<longrightarrow> n \<le> poolEffort s)
    \<and> (\<exists>s'. (consume R dec)\<^sup>*\<^sup>* s s' \<and> \<not> (\<exists>u. consume R dec s' u))
    \<and> (\<forall>s'. (consume R dec)\<^sup>*\<^sup>* s s' \<longrightarrow> \<not> (\<exists>u. consume R dec s' u) \<longrightarrow> qs_crashed s')"
proof -
  have d: "doomed w s" using assms by (auto simp: doomed_def)
  have "qs_crashed s'" if "(consume R dec)\<^sup>*\<^sup>* s s'" "\<not> (\<exists>u. consume R dec s' u)" for s'
    using doom.kept_run [OF that(1) assms(2) d] doom.inv_run [OF that(1) assms(2)] that(2) by (intro doomed_ends)
  then show ?thesis using redis_stream.comes_to_rest [OF assms(1,2)] redis_stream.steps_bounded [OF assms(1) _ assms(2)] by blast
qed

theorem shutdown_panics_witness:
  "\<exists>s'. (consume refOps demoDec)\<^sup>*\<^sup>* ((demoQueue True (InBatch []) [])\<lparr>qs_done := True, qs_closed := True\<rparr>) s' \<and> qs_crashed s'"
proof -
  let ?s = "(demoQueue True (InBatch []) [])\<lparr>qs_done := True, qs_closed := True\<rparr>"
  have "qs_done ?s" "qs_closed ?s" "atLoop 0 (InBatch []) ?s" "busy (InBatch [])"
    by (simp_all add: demoQueue_def atLoop_def)
  from shutdown_panics [OF ref.redis_stream_axioms this, of demoDec] show ?thesis by blast
qed

end
