(* ===== verification/Event_Stream.thy ===== *)
theory Event_Stream
  imports Go_Paths "HOL-Library.Sublist"
begin

text \<open>
  The events of the HTTP API, \<^verbatim>\<open>internal/interfaces/http/api/events.go\<close>, and the stream of them
  that \<^verbatim>\<open>event_stream.go\<close> serves. The hub's lock makes \<open>Subscribe\<close> and \<open>Unsubscribe\<close>
  atomic; publishers hold it for reading, so the sends of two of them to different channels may
  interleave, and the atomic step of a publisher is one send. A panic is the value \<open>None\<close>. The
  JSON text of an event is an argument.
\<close>

section \<open>Events on the wire\<close>

record 'd event =
  ev_Type :: string
  ev_Data :: 'd
  ev_Time :: "int option"

definition lineBreak :: char where
  "lineBreak = CHR 0x0A"

definition eventName :: "'d event \<Rightarrow> string" where
  "eventName e = (if ev_Type e = [] then ''message'' else ev_Type e)"

text \<open>\<open>render\<close> is the JSON object of the type, the time and the data.\<close>

definition payloadOf :: "(string \<Rightarrow> int \<Rightarrow> 'd \<Rightarrow> string) \<Rightarrow> int \<Rightarrow> 'd event \<Rightarrow> string" where
  "payloadOf render now e = render (ev_Type e) (case ev_Time e of None \<Rightarrow> now | Some t \<Rightarrow> t) (ev_Data e)"

definition SSE :: "(string \<Rightarrow> int \<Rightarrow> 'd \<Rightarrow> string) \<Rightarrow> int \<Rightarrow> 'd event \<Rightarrow> string" where
  "SSE render now e =
     ''event: '' @ eventName e @ [lineBreak] @ ''data: '' @ payloadOf render now e @ [lineBreak, lineBreak]"

section \<open>The hub\<close>

text \<open>
  A channel has its buffer and whether it is closed. \<open>ec_got\<close> and \<open>ec_offered\<close> record what its
  reader has received and what publishers tried to send.
\<close>

record 'd eventChan =
  ec_buf :: "'d event list"
  ec_closed :: bool
  ec_got :: "'d event list"
  ec_offered :: "'d event list"

record 'd eventHub =
  eh_chans :: "'d eventChan list"
  eh_subs :: "nat set"

definition chanCap :: nat where
  "chanCap = 16"

definition NewEventHub :: "'d eventHub" where
  "NewEventHub = \<lparr>eh_chans = [], eh_subs = {}\<rparr>"

definition newChan :: "'d eventChan" where
  "newChan = \<lparr>ec_buf = [], ec_closed = False, ec_got = [], ec_offered = []\<rparr>"

definition SubscribeHub :: "'d eventHub \<Rightarrow> 'd eventHub \<times> nat" where
  "SubscribeHub h =
     (let ch = length (eh_chans h)
      in (h\<lparr>eh_chans := eh_chans h @ [newChan], eh_subs := insert ch (eh_subs h)\<rparr>, ch))"

text \<open>Closing a closed channel panics.\<close>

definition UnsubscribeHub :: "nat \<Rightarrow> 'd eventHub \<Rightarrow> 'd eventHub option" where
  "UnsubscribeHub ch h =
     (if ch \<notin> eh_subs h then Some h
      else if ec_closed (eh_chans h ! ch) then None
      else Some (h\<lparr>eh_subs := eh_subs h - {ch}, eh_chans := (eh_chans h)[ch := (eh_chans h ! ch)\<lparr>ec_closed := True\<rparr>]\<rparr>))"

text \<open>The send of a publisher to one subscriber; a full buffer drops the event, a closed channel panics.\<close>

definition offer :: "'d event \<Rightarrow> nat \<Rightarrow> 'd eventHub \<Rightarrow> 'd eventHub option" where
  "offer e ch h =
     (if ch \<notin> eh_subs h then Some h
      else let c = eh_chans h ! ch
           in if ec_closed c then None
              else Some (h\<lparr>eh_chans := (eh_chans h)[ch :=
                     c\<lparr>ec_buf := (if length (ec_buf c) < chanCap then ec_buf c @ [e] else ec_buf c),
                       ec_offered := ec_offered c @ [e]\<rparr>]\<rparr>))"

text \<open>\<open>order\<close> is the order in which the map of subscribers is visited.\<close>

fun PublishHub :: "'d event \<Rightarrow> nat list \<Rightarrow> 'd eventHub \<Rightarrow> 'd eventHub option" where
  "PublishHub e [] h = Some h"
| "PublishHub e (ch # order) h = (case offer e ch h of None \<Rightarrow> None | Some h' \<Rightarrow> PublishHub e order h')"

definition receive :: "nat \<Rightarrow> 'd eventHub \<Rightarrow> 'd eventHub \<times> 'd event option" where
  "receive ch h =
     (if ch < length (eh_chans h) then
        (case ec_buf (eh_chans h ! ch) of
           [] \<Rightarrow> (h, None)
         | e # es \<Rightarrow>
             (h\<lparr>eh_chans := (eh_chans h)[ch := (eh_chans h ! ch)\<lparr>ec_buf := es, ec_got := ec_got (eh_chans h ! ch) @ [e]\<rparr>]\<rparr>, Some e))
      else (h, None))"

datatype 'd hubOp = OpSubscribe | OpUnsubscribe nat | OpOffer "'d event" nat | OpReceive nat

fun hubStep :: "'d hubOp \<Rightarrow> 'd eventHub \<Rightarrow> 'd eventHub option" where
  "hubStep OpSubscribe h = Some (fst (SubscribeHub h))"
| "hubStep (OpUnsubscribe ch) h = UnsubscribeHub ch h"
| "hubStep (OpOffer e ch) h = offer e ch h"
| "hubStep (OpReceive ch) h = Some (fst (receive ch h))"

fun runHub :: "'d hubOp list \<Rightarrow> 'd eventHub \<Rightarrow> 'd eventHub option" where
  "runHub [] h = Some h"
| "runHub (x # xs) h = (case hubStep x h of None \<Rightarrow> None | Some h' \<Rightarrow> runHub xs h')"

section \<open>The stream\<close>

definition eventFilters :: "string \<Rightarrow> string list option" where
  "eventFilters types =
     (let v = strTrimSpace types
      in if v = [] then None
         else Some (filter (\<lambda>t. t \<noteq> []) (map strTrimSpace (strSplit (CHR '','') v))))"

definition passes :: "string list option \<Rightarrow> 'd event \<Rightarrow> bool" where
  "passes filters e \<longleftrightarrow> (case filters of None \<Rightarrow> True | Some fs \<Rightarrow> fs = [] \<or> ev_Type e \<in> set fs)"

definition readyData :: string where
  "readyData = CHR 0x7B # CHR 0x22 # ''status'' @ CHR 0x22 # CHR 0x3A # CHR 0x22 # ''ok'' @ [CHR 0x22, CHR 0x7D]"

text \<open>What the handler writes until it leaves, having received \<open>evs\<close>.\<close>

definition eventStreamHandler :: "(string \<Rightarrow> int \<Rightarrow> 'd \<Rightarrow> string) \<Rightarrow> int \<Rightarrow> string \<Rightarrow> 'd event list \<Rightarrow> string" where
  "eventStreamHandler render now types evs =
     ''event: ready'' @ [lineBreak] @ ''data: '' @ readyData @ [lineBreak, lineBreak]
     @ concat (map (SSE render now) (filter (passes (eventFilters types)) evs))"

text \<open>How a client reads such a stream: the lines of each frame up to the empty line.\<close>

fun sseFrames :: "string list \<Rightarrow> (string \<times> string) list" where
  "sseFrames (a # b # [] # rest) = (drop 7 a, drop 6 b) # sseFrames rest"
| "sseFrames _ = []"

definition sseRead :: "string \<Rightarrow> (string \<times> string) list" where
  "sseRead s = sseFrames (strSplit lineBreak s)"

section \<open>The hub never panics\<close>

text \<open>
  What was received and what waits is a subsequence of what was offered, and the two agree on
  their first sixteen events.
\<close>

definition chanOk :: "'d eventChan \<Rightarrow> bool" where
  "chanOk c \<longleftrightarrow>
     length (ec_buf c) \<le> chanCap \<and> subseq (ec_got c @ ec_buf c) (ec_offered c)
     \<and> take chanCap (ec_got c @ ec_buf c) = take chanCap (ec_offered c)"

definition hubOk :: "'d eventHub \<Rightarrow> bool" where
  "hubOk h \<longleftrightarrow>
     list_all chanOk (eh_chans h) \<and> eh_subs h = {ch. ch < length (eh_chans h) \<and> \<not> ec_closed (eh_chans h ! ch)}"

lemma take_snoc_both:
  assumes "take n xs = take n ys"
  shows "take n (xs @ [e]) = take n (ys @ [e])"
proof (cases "length ys < n")
  case True
  then have "length xs < n" using arg_cong [OF assms, of length] by (simp add: min_def split: if_splits)
  with True assms show ?thesis by simp
next
  case False
  then have "n \<le> length xs" using arg_cong [OF assms, of length] by (simp add: min_def split: if_splits)
  with False assms show ?thesis by simp
qed

lemma chanOk_offer:
  assumes "chanOk c"
  shows "chanOk (c\<lparr>ec_buf := (if length (ec_buf c) < chanCap then ec_buf c @ [e] else ec_buf c), ec_offered := ec_offered c @ [e]\<rparr>)"
proof (cases "length (ec_buf c) < chanCap")
  case True
  have "subseq ((ec_got c @ ec_buf c) @ [e]) (ec_offered c @ [e])"
    using assms by (intro list_emb_append_mono) (auto simp: chanOk_def)
  moreover have "take chanCap ((ec_got c @ ec_buf c) @ [e]) = take chanCap (ec_offered c @ [e])"
    using assms by (intro take_snoc_both) (simp add: chanOk_def)
  ultimately show ?thesis using True assms by (simp add: chanOk_def)
next
  case False
  then have "take chanCap (ec_offered c @ [e]) = take chanCap (ec_offered c)"
    using assms list_emb_length [of "(=)" "ec_got c @ ec_buf c" "ec_offered c"] by (simp add: chanOk_def)
  with False assms show ?thesis by (auto simp: chanOk_def intro: list_emb_append2)
qed

lemma chanOk_simps:
  "chanOk newChan" "chanOk c \<Longrightarrow> chanOk (c\<lparr>ec_closed := b\<rparr>)"
  "chanOk c \<Longrightarrow> ec_buf c = e # es \<Longrightarrow> chanOk (c\<lparr>ec_buf := es, ec_got := ec_got c @ [e]\<rparr>)"
  by (auto simp: chanOk_def newChan_def)

lemma list_all_update: "list_all P xs \<Longrightarrow> P x \<Longrightarrow> list_all P (xs[i := x])"
  using set_update_subset_insert [of xs i x] by (auto simp: list_all_iff)

lemma hubOk_nth: "hubOk h \<Longrightarrow> ch < length (eh_chans h) \<Longrightarrow> chanOk (eh_chans h ! ch)"
  by (simp add: hubOk_def list_all_length)

lemma hubOk_put:
  assumes "hubOk h" "chanOk c" "ec_closed c = ec_closed (eh_chans h ! ch)"
  shows "hubOk (h\<lparr>eh_chans := (eh_chans h)[ch := c]\<rparr>)"
proof -
  have "ec_closed ((eh_chans h)[ch := c] ! j) = ec_closed (eh_chans h ! j)" if "j < length (eh_chans h)" for j
    using assms(3) that by (cases "ch = j") simp_all
  then have "{j. j < length (eh_chans h) \<and> \<not> ec_closed ((eh_chans h)[ch := c] ! j)}
      = {j. j < length (eh_chans h) \<and> \<not> ec_closed (eh_chans h ! j)}" by auto
  moreover have "list_all chanOk ((eh_chans h)[ch := c])"
    using assms by (intro list_all_update) (simp_all add: hubOk_def)
  ultimately show ?thesis using assms(1) by (simp add: hubOk_def)
qed

lemma hubOk_step:
  assumes "hubOk h"
  shows "\<exists>h'. hubStep x h = Some h' \<and> hubOk h'"
proof (cases x)
  case OpSubscribe
  let ?n = "length (eh_chans h)"
  have "insert ?n (eh_subs h) = {ch. ch < Suc ?n \<and> \<not> ec_closed ((eh_chans h @ [newChan]) ! ch)}"
  proof (rule set_eqI)
    fix c
    have s: "eh_subs h = {ch. ch < ?n \<and> \<not> ec_closed (eh_chans h ! ch)}" using assms by (simp add: hubOk_def)
    show "c \<in> insert ?n (eh_subs h) \<longleftrightarrow> c \<in> {ch. ch < Suc ?n \<and> \<not> ec_closed ((eh_chans h @ [newChan]) ! ch)}"
      unfolding s by (cases "c < ?n"; cases "c = ?n") (simp_all add: nth_append newChan_def)
  qed
  then show ?thesis using OpSubscribe assms chanOk_simps(1)
    by (simp add: SubscribeHub_def Let_def hubOk_def)
next
  case (OpUnsubscribe ch)
  show ?thesis
  proof (cases "ch \<in> eh_subs h")
    case True
    let ?c = "(eh_chans h ! ch)\<lparr>ec_closed := True\<rparr>"
    have s: "eh_subs h = {j. j < length (eh_chans h) \<and> \<not> ec_closed (eh_chans h ! j)}" using assms by (simp add: hubOk_def)
    with True have ch: "ch < length (eh_chans h)" "\<not> ec_closed (eh_chans h ! ch)" by simp_all
    have "eh_subs h - {ch} = {j. j < length (eh_chans h) \<and> \<not> ec_closed ((eh_chans h)[ch := ?c] ! j)}"
    proof (rule set_eqI)
      fix j
      show "j \<in> eh_subs h - {ch} \<longleftrightarrow> j \<in> {j. j < length (eh_chans h) \<and> \<not> ec_closed ((eh_chans h)[ch := ?c] ! j)}"
        unfolding s by (cases "j = ch") (use ch in simp_all)
    qed
    moreover have "list_all chanOk ((eh_chans h)[ch := ?c])"
      using assms hubOk_nth [OF assms ch(1)] by (intro list_all_update chanOk_simps(2)) (simp_all add: hubOk_def)
    ultimately have "hubOk (h\<lparr>eh_subs := eh_subs h - {ch}, eh_chans := (eh_chans h)[ch := ?c]\<rparr>)"
      by (simp add: hubOk_def)
    with True ch OpUnsubscribe show ?thesis by (simp add: UnsubscribeHub_def)
  qed (use OpUnsubscribe assms in \<open>simp add: UnsubscribeHub_def\<close>)
next
  case (OpOffer e ch)
  show ?thesis
  proof (cases "ch \<in> eh_subs h")
    case True
    then have ch: "ch < length (eh_chans h)" "\<not> ec_closed (eh_chans h ! ch)" using assms by (auto simp: hubOk_def)
    from hubOk_put [OF assms chanOk_offer [OF hubOk_nth [OF assms ch(1)], of e], of ch] True ch(2) OpOffer
    show ?thesis by (simp add: offer_def Let_def)
  qed (use OpOffer assms in \<open>simp add: offer_def\<close>)
next
  case (OpReceive ch)
  show ?thesis
  proof (cases "ch < length (eh_chans h) \<and> ec_buf (eh_chans h ! ch) \<noteq> []")
    case True
    then obtain e es where es: "ec_buf (eh_chans h ! ch) = e # es" by (auto simp: neq_Nil_conv)
    from hubOk_put [OF assms chanOk_simps(3) [OF hubOk_nth [OF assms] es], of ch] True es OpReceive
    show ?thesis by (simp add: receive_def)
  next
    case False
    with OpReceive assms show ?thesis by (auto simp: receive_def)
  qed
qed

lemma runHub_ok: "hubOk h \<Longrightarrow> \<exists>h'. runHub ops h = Some h' \<and> hubOk h'"
proof (induction ops arbitrary: h)
  case (Cons x xs)
  from hubOk_step [OF Cons.prems, of x] Cons.IH show ?case by auto
qed simp

lemma publish_runs: "PublishHub e order h = runHub (map (OpOffer e) order) h"
  by (induction order arbitrary: h) (auto split: option.split)

section \<open>Properties\<close>

text \<open>
  C37. Whatever the order in which subscribers come, go (also twice) and read, and publishers send,
  the hub never panics: no channel is closed twice or sent to after it was closed. Exactly the
  channels that are open are subscribed, no buffer holds more than sixteen events, a
  subscriber receives its events in the order they were published, without any that was not, and none
  of the first sixteen after its subscription is lost.
\<close>

theorem event_hub_safe: "\<exists>h. runHub ops NewEventHub = Some h \<and> hubOk h"
  by (rule runHub_ok) (simp add: hubOk_def NewEventHub_def)

text \<open>Publishing to every subscriber is such a sequence of sends, in any order of the map.\<close>

theorem publish_reaches_all:
  assumes "hubOk h" "set order = eh_subs h" "distinct order"
  shows "\<exists>h'. PublishHub e order h = Some h' \<and> hubOk h' \<and> eh_subs h' = eh_subs h
    \<and> (\<forall>ch \<in> eh_subs h. ec_offered (eh_chans h' ! ch) = ec_offered (eh_chans h ! ch) @ [e])"
proof -
  have "\<exists>h'. PublishHub e order h = Some h' \<and> hubOk h' \<and> eh_subs h' = eh_subs h
      \<and> (\<forall>ch. ec_offered (eh_chans h' ! ch) =
            (if ch \<in> set order then ec_offered (eh_chans h ! ch) @ [e] else ec_offered (eh_chans h ! ch)))"
    if "hubOk h" "set order \<subseteq> eh_subs h" "distinct order" for order h
    using that
  proof (induction order arbitrary: h)
    case (Cons ch order)
    obtain h1 where h1: "offer e ch h = Some h1" "hubOk h1"
      using hubOk_step [OF Cons.prems(1), of "OpOffer e ch"] by auto
    have lt: "ch < length (eh_chans h)" using Cons.prems by (auto simp: hubOk_def)
    have subs: "eh_subs h1 = eh_subs h"
      and off: "ec_offered (eh_chans h1 ! c) = (if c = ch then ec_offered (eh_chans h ! c) @ [e] else ec_offered (eh_chans h ! c))" for c
      using h1(1) Cons.prems(2) lt by (auto simp: offer_def Let_def split: if_splits)
    have "set order \<subseteq> eh_subs h1" "distinct order" using Cons.prems subs by auto
    from Cons.IH [OF h1(2) this] obtain h' where "PublishHub e order h1 = Some h'" "hubOk h'" "eh_subs h' = eh_subs h1"
      "\<forall>ch. ec_offered (eh_chans h' ! ch) = (if ch \<in> set order then ec_offered (eh_chans h1 ! ch) @ [e] else ec_offered (eh_chans h1 ! ch))"
      by blast
    with h1(1) subs off Cons.prems(3) show ?case by auto
  qed simp
  from this [OF assms(1) _ assms(3)] assms(2) show ?thesis by auto
qed

lemma sse_frame:
  assumes "lineBreak \<notin> set a" "lineBreak \<notin> set b"
  shows "sseRead (''event: '' @ a @ [lineBreak] @ ''data: '' @ b @ [lineBreak, lineBreak] @ s) = (a, b) # sseRead s"
proof -
  have "lineBreak \<notin> set (''event: '' @ a)" "lineBreak \<notin> set (''data: '' @ b)"
    using assms by (auto simp: lineBreak_def)
  from strSplit_sep [OF this(1), of "(''data: '' @ b) @ lineBreak # lineBreak # s"] strSplit_sep [OF this(2), of "lineBreak # s"]
  have "strSplit lineBreak ((''event: '' @ a) @ lineBreak # (''data: '' @ b) @ lineBreak # lineBreak # s)
      = (''event: '' @ a) # (''data: '' @ b) # [] # strSplit lineBreak s"
    by simp
  then show ?thesis by (simp add: sseRead_def)
qed

text \<open>
  A client that reads the stream line by line gets back the ready frame and then exactly the
  received events whose type is asked for, in order, with their names and JSON texts, as long as
  no type and no JSON text holds a line break.
\<close>

theorem event_stream_roundtrip:
  assumes "\<forall>e \<in> set evs. lineBreak \<notin> set (ev_Type e) \<and> lineBreak \<notin> set (payloadOf render now e)"
  shows "sseRead (eventStreamHandler render now types evs) =
    (''ready'', readyData) # map (\<lambda>e. (eventName e, payloadOf render now e)) (filter (passes (eventFilters types)) evs)"
proof -
  let ?es = "filter (passes (eventFilters types)) evs"
  have "lineBreak \<notin> set (eventName e)" if "lineBreak \<notin> set (ev_Type e)" for e :: "'a event"
    using that by (auto simp: eventName_def lineBreak_def)
  then have "sseRead (concat (map (SSE render now) es)) = map (\<lambda>e. (eventName e, payloadOf render now e)) es"
    if "\<forall>e \<in> set es. lineBreak \<notin> set (ev_Type e) \<and> lineBreak \<notin> set (payloadOf render now e)" for es
    using that
  proof (induction es)
    case (Cons e es)
    then show ?case by (simp add: SSE_def sse_frame [simplified])
  qed (simp add: sseRead_def)
  moreover have "sseRead (eventStreamHandler render now types evs) = (''ready'', readyData) # sseRead (concat (map (SSE render now) ?es))"
  proof -
    have "lineBreak \<notin> set ''ready''" "lineBreak \<notin> set readyData" by (simp_all add: lineBreak_def readyData_def)
    from sse_frame [OF this] show ?thesis by (simp add: eventStreamHandler_def)
  qed
  ultimately show ?thesis using assms by simp
qed

theorem event_stream_roundtrip_witness:
  "sseRead (eventStreamHandler (\<lambda>ty t d. d) 0 ''decision'' [\<lparr>ev_Type = ''decision'', ev_Data = ''x'', ev_Time = None\<rparr>,
      \<lparr>ev_Type = ''rules'', ev_Data = ''y'', ev_Time = None\<rparr>]) = [(''ready'', readyData), (''decision'', ''x'')]"
proof -
  have "strTrimSpace ''decision'' = ''decision''"
    by (simp add: strTrimSpace_def runeSegs_ascii isAscii_def isSpaceRune_def byte_def)
  then have f: "eventFilters ''decision'' = Some [''decision'']" by (simp add: eventFilters_def)
  show ?thesis
    by (subst event_stream_roundtrip) (simp_all add: lineBreak_def payloadOf_def eventName_def passes_def f)
qed

end
