(* ===== verification/Runtime_API.thy ===== *)
theory Runtime_API
  imports Check Rulesets Admin_API Event_Stream
begin

text \<open>
  The remaining handlers of \<^verbatim>\<open>internal/interfaces/http/api\<close>: the runtime configuration
  (\<^verbatim>\<open>config.go\<close>), user authentication (\<^verbatim>\<open>auth.go\<close>), the scan of records
  (\<^verbatim>\<open>enforcement.go\<close>), the decision history (\<^verbatim>\<open>decisions.go\<close>), the active rules
  (\<^verbatim>\<open>active_rules.go\<close>), the system endpoints (\<^verbatim>\<open>system.go\<close>, \<^verbatim>\<open>admin_routes.go\<close>) and the
  summary of metrics (\<^verbatim>\<open>metrics_summary.go\<close>). Bodies come decoded; \<^verbatim>\<open>float64\<close> values are reals.
\<close>

section \<open>Parameters with defaults\<close>

definition parseIntDefault :: "string \<Rightarrow> int \<Rightarrow> int" where
  "parseIntDefault s dflt = (if s = [] then dflt else case atoi s of Some n \<Rightarrow> n | None \<Rightarrow> dflt)"

definition parseFloatDefault :: "(string \<Rightarrow> real option) \<Rightarrow> string \<Rightarrow> real \<Rightarrow> real" where
  "parseFloatDefault parseFloat s dflt = (if s = [] then dflt else case parseFloat s of Some x \<Rightarrow> x | None \<Rightarrow> dflt)"

section \<open>The runtime configuration\<close>

record runtimeConfig =
  cf_EnforcementMode :: string
  cf_FailOn :: string
  cf_RedactionEnabled :: bool
  cf_MaxStreamBytes :: int
  cf_StreamWindow :: int
  cf_StreamOverlap :: int
  cf_RPS :: real
  cf_RPSBurst :: int
  cf_InflightLimitBytes :: int
  cf_InflightBackoffMs :: int
  cf_PerRuleTimeoutMs :: int
  cf_RequestTimeoutMs :: int
  cf_ResponseTimeoutMs :: int

definition zeroConfig :: runtimeConfig where
  "zeroConfig =
     \<lparr>cf_EnforcementMode = [], cf_FailOn = [], cf_RedactionEnabled = False, cf_MaxStreamBytes = 0, cf_StreamWindow = 0,
      cf_StreamOverlap = 0, cf_RPS = 0, cf_RPSBurst = 0, cf_InflightLimitBytes = 0, cf_InflightBackoffMs = 0,
      cf_PerRuleTimeoutMs = 0, cf_RequestTimeoutMs = 0, cf_ResponseTimeoutMs = 0\<rparr>"

definition NewRuntimeConfigStoreFromEnv :: "'rx golib \<Rightarrow> (string \<Rightarrow> real option) \<Rightarrow> runtimeConfig" where
  "NewRuntimeConfigStoreFromEnv G parseFloat =
     (let env = getenv G;
          mode = strToLower G (strTrimSpace (env ''PS_ENFORCER_MODE''));
          failOn = strToUpper G (strTrimSpace (env ''PS_ENFORCER_FAIL_ON''));
          red = strToLower G (strTrimSpace (env ''PS_ENFORCER_REDACTION_MUTATION''))
      in \<lparr>cf_EnforcementMode = (if mode = [] then ''observe'' else mode),
          cf_FailOn = (if failOn = [] then ''HIGH'' else failOn),
          cf_RedactionEnabled = (\<not> (red = ''0'' \<or> red = ''false'')),
          cf_MaxStreamBytes = parseIntDefault (env ''PS_ENFORCER_MAX_STREAM_BYTES'') 5000000,
          cf_StreamWindow = parseIntDefault (env ''PS_ENFORCER_STREAM_WINDOW'') (64 * 1024),
          cf_StreamOverlap = parseIntDefault (env ''PS_ENFORCER_STREAM_OVERLAP'') 4096,
          cf_RPS = parseFloatDefault parseFloat (env ''PS_ENFORCER_RPS'') 0,
          cf_RPSBurst = parseIntDefault (env ''PS_ENFORCER_RPS_BURST'') 1,
          cf_InflightLimitBytes = parseIntDefault (env ''PS_ENFORCER_INFLIGHT_LIMIT_BYTES'') 0,
          cf_InflightBackoffMs = parseIntDefault (env ''PS_ENFORCER_INFLIGHT_BACKOFF_MS'') 0,
          cf_PerRuleTimeoutMs = 0, cf_RequestTimeoutMs = 300, cf_ResponseTimeoutMs = 300\<rparr>)"

text \<open>A field of the update counts unless it is the zero value of its type.\<close>

definition patch :: "'a \<Rightarrow> 'a \<Rightarrow> 'a \<Rightarrow> 'a" where
  "patch zero new old = (if new \<noteq> zero then new else old)"

definition UpdateConfig :: "runtimeConfig \<Rightarrow> runtimeConfig \<Rightarrow> runtimeConfig" where
  "UpdateConfig p c =
     \<lparr>cf_EnforcementMode = patch [] (cf_EnforcementMode p) (cf_EnforcementMode c),
      cf_FailOn = patch [] (cf_FailOn p) (cf_FailOn c),
      cf_RedactionEnabled =
        (cf_RedactionEnabled p \<or> \<not> cf_RedactionEnabled p \<and> cf_RedactionEnabled c \<and> p \<noteq> zeroConfig),
      cf_MaxStreamBytes = patch 0 (cf_MaxStreamBytes p) (cf_MaxStreamBytes c),
      cf_StreamWindow = patch 0 (cf_StreamWindow p) (cf_StreamWindow c),
      cf_StreamOverlap = patch 0 (cf_StreamOverlap p) (cf_StreamOverlap c),
      cf_RPS = patch 0 (cf_RPS p) (cf_RPS c),
      cf_RPSBurst = patch 0 (cf_RPSBurst p) (cf_RPSBurst c),
      cf_InflightLimitBytes = patch 0 (cf_InflightLimitBytes p) (cf_InflightLimitBytes c),
      cf_InflightBackoffMs = patch 0 (cf_InflightBackoffMs p) (cf_InflightBackoffMs c),
      cf_PerRuleTimeoutMs = patch 0 (cf_PerRuleTimeoutMs p) (cf_PerRuleTimeoutMs c),
      cf_RequestTimeoutMs = patch 0 (cf_RequestTimeoutMs p) (cf_RequestTimeoutMs c),
      cf_ResponseTimeoutMs = patch 0 (cf_ResponseTimeoutMs p) (cf_ResponseTimeoutMs c)\<rparr>"

datatype configReq = GetConfig | PutConfig runtimeConfig | ResetConfig

text \<open>
  The routes of \<^verbatim>\<open>/config\<close>; \<open>auth\<close> is the answer of the admin check, which guards the changes. The body
  of a PUT is what could be decoded, the zero configuration if nothing could.
\<close>

definition configHandler :: "'rx golib \<Rightarrow> (string \<Rightarrow> real option) \<Rightarrow> runtimeConfig httpReply option \<Rightarrow> configReq \<Rightarrow> runtimeConfig
    \<Rightarrow> runtimeConfig \<times> runtimeConfig httpReply" where
  "configHandler G parseFloat auth q c =
     (case q of
        GetConfig \<Rightarrow> (c, OkReply 200 c)
      | PutConfig p \<Rightarrow>
          (case auth of Some e \<Rightarrow> (c, e) | None \<Rightarrow> (UpdateConfig p c, OkReply 200 (UpdateConfig p c)))
      | ResetConfig \<Rightarrow>
          (case auth of
             Some e \<Rightarrow> (c, e)
           | None \<Rightarrow> let c' = NewRuntimeConfigStoreFromEnv G parseFloat in (c', OkReply 200 c')))"

section \<open>User authentication and the time limit\<close>

definition decisionPath :: "string \<Rightarrow> bool" where
  "decisionPath p \<longleftrightarrow> p = ''/check'' \<or> p = ''/scan'' \<or> hasPrefix p ''/v1/check'' \<or> hasPrefix p ''/v1/scan''"

definition userAuth :: "'rx golib \<Rightarrow> httpReq \<Rightarrow> 'a httpReply option" where
  "userAuth G r =
     (if \<not> decisionPath (rq_Path r) then None
      else let reqToken = getenv G ''PS_ENFORCER_AUTH_TOKEN''
           in if reqToken \<noteq> [] \<and> \<not> HttpAuthOK r reqToken
              then Some (ErrorReply 401 ''UNAUTHORIZED'' ''authentication required'' []) else None)"

definition IsEventStream :: "string \<Rightarrow> string \<Rightarrow> bool" where
  "IsEventStream verb path \<longleftrightarrow> verb = ''GET'' \<and> (path = ''/events'' \<or> path = ''/v1/events'')"

section \<open>POST /scan\<close>

record scanConfig =
  sc_timeoutMs :: int
  sc_maxBytes :: int

definition scanLimits :: "runtimeConfig \<Rightarrow> scanConfig" where
  "scanLimits c =
     \<lparr>sc_timeoutMs = (if cf_RequestTimeoutMs c \<le> 0 then 2000 else cf_RequestTimeoutMs c),
      sc_maxBytes = (if cf_MaxStreamBytes c \<le> 0 then 5000000 else cf_MaxStreamBytes c)\<rparr>"

datatype scanReply =
    Ndjson "(string \<times> string \<times> nat) list"
  | Report scanReport

text \<open>
  The lines of an NDJSON body: up to the first that the scanner's buffer of ten megabytes cannot hold. The
  error of the scanner is not looked at.
\<close>

definition ndjsonLines :: "string \<Rightarrow> string list" where
  "ndjsonLines d = map dropCR (takeWhile (\<lambda>l. length l < 10 * 1024 * 1024) (rawLines d))"

text \<open>
  \<open>line\<close> is \<^verbatim>\<open>runScanLine\<close> on a record, \<open>arr\<close> the elements of a JSON array. The result is the answer
  and the decisions published as events. Errors of reading the body are ignored.
\<close>

definition scanHandler :: "(string \<Rightarrow> string \<times> string \<times> nat) \<Rightarrow> (string \<Rightarrow> string list option) \<Rightarrow> runtimeConfig \<Rightarrow> string \<Rightarrow> string
    \<Rightarrow> httpReq \<Rightarrow> scanReply \<times> (string \<times> string \<times> nat) list" where
  "scanHandler line arr c aggregateParam contentType r =
     (let aggregate = (if aggregateParam \<noteq> [] then aggregateParam \<noteq> ''false'' else True);
          body = fst (limitBody (sc_maxBytes (scanLimits c)) r)
      in if hasPrefix contentType ''application/x-ndjson'' \<and> \<not> aggregate
         then let ds = map line (ndjsonLines body) in (Ndjson ds, ds)
         else case (if hasPrefix body ''['' then arr body else None) of
                Some (x # xs) \<Rightarrow> let ds = map line (x # xs) in (Report (scanReportOf ds), ds)
              | _ \<Rightarrow> let ds = [line body] in (Report (scanReportOf ds), ds))"

section \<open>The decision history\<close>

definition maxDecisionLimit :: int where "maxDecisionLimit = 500"

definition parseDecisionQuery :: "(string \<Rightarrow> string) \<Rightarrow> string + query" where
  "parseDecisionQuery param =
     (let limitErr = ''limit must be an integer between 1 and 500'';
          beforeErr = ''before must be a positive integer cursor from a previous response's next'';
          v = strTrimSpace (param ''limit''); b = strTrimSpace (param ''before''); d = strTrimSpace (param ''decision'')
      in case (if v = [] then Some 100 else case atoi v of Some n \<Rightarrow> if n < 1 \<or> n > maxDecisionLimit then None else Some n | None \<Rightarrow> None) of
           None \<Rightarrow> Inl limitErr
         | Some limit \<Rightarrow>
             (case (if b = [] then Some 0 else case atoi b of Some n \<Rightarrow> if n < 1 then None else Some n | None \<Rightarrow> None) of
                None \<Rightarrow> Inl beforeErr
              | Some before \<Rightarrow>
                  if d \<in> {[], Allow, Deny, Quarantine}
                  then Inr \<lparr>q_Limit = limit, q_Decision = d, q_Before = before\<rparr>
                  else Inl ''decision must be allow, deny, or quarantine''))"

definition listDecisionsHandler :: "(string \<Rightarrow> string) \<Rightarrow> decLog \<Rightarrow> (decRecord list \<times> int option) httpReply" where
  "listDecisionsHandler param l =
     (case parseDecisionQuery param of
        Inl e \<Rightarrow> ErrorReply 400 ''INVALID_ARGUMENT'' e []
      | Inr q \<Rightarrow>
          (let page = PageOf l q in OkReply 200 (pg_Records page, if pg_Next page > 0 then Some (pg_Next page) else None)))"

text \<open>\<open>unescape\<close> is \<^verbatim>\<open>url.PathUnescape\<close>.\<close>

definition getDecisionHandler :: "(string \<Rightarrow> string option) \<Rightarrow> string \<Rightarrow> decLog \<Rightarrow> decRecord httpReply" where
  "getDecisionHandler unescape raw l =
     (case unescape raw of
        None \<Rightarrow> ErrorReply 400 ''INVALID_ARGUMENT'' ''invalid request id'' []
      | Some i \<Rightarrow>
          (case Get l i of
             None \<Rightarrow> ErrorReply 404 ''NOT_FOUND'' ''decision not found or no longer retained'' []
           | Some rec \<Rightarrow> OkReply 200 rec))"

section \<open>The active rules\<close>

definition emptySnapshot :: snapshot where
  "emptySnapshot = \<lparr>sn_Source = [], sn_LoadedAt = None, sn_Generation = 0, sn_RuleCount = 0, sn_Packs = []\<rparr>"

definition activeRulesSnapshot :: "'w ruleSet option \<Rightarrow> snapshot" where
  "activeRulesSnapshot active = (case active of None \<Rightarrow> emptySnapshot | Some s \<Rightarrow> Snapshot s)"

text \<open>The set, the world, the answer, and the generation and rule count published as an event.\<close>

definition reloadRulesHandler :: "(string \<Rightarrow> string + rulePack list) \<Rightarrow> int \<Rightarrow> 'w ruleSet option \<Rightarrow> 'w
    \<Rightarrow> 'w ruleSet option \<times> 'w \<times> snapshot httpReply \<times> (int \<times> nat) option" where
  "reloadRulesHandler load t active w =
     (case active of
        None \<Rightarrow> (None, w, ErrorReply 409 ''RULES_NOT_CONFIGURED'' ''gateway has no reloadable rulepack set'' [], None)
      | Some s \<Rightarrow>
          (case Reload load t (s, w) of ((s', w'), snap, err) \<Rightarrow>
             (Some s', w',
              (case err of
                 Some ErrNoSource \<Rightarrow> (ErrorReply 409 ''RULES_NOT_CONFIGURED'' ''PS_ENFORCER_RULEPACK is not set'' [], None)
               | Some (LoadError p e) \<Rightarrow>
                   (ErrorReply 422 ''RULEPACK_INVALID'' ''reload failed; previous rules stay active'' [(''error'', ''load '' @ p @ '': '' @ e)], None)
               | None \<Rightarrow> (OkReply 200 snap, Some (sn_Generation snap, sn_RuleCount snap))))))"

section \<open>The system endpoints\<close>

record systemFeatures =
  sf_AsyncJobs :: bool
  sf_L3Semantic :: bool
  sf_TenantManagement :: bool
  sf_AuditLogging :: bool
  sf_UsageTracking :: bool
  sf_QuotaManagement :: bool

definition getFeaturesHandler :: "bool \<Rightarrow> bool \<Rightarrow> bool \<Rightarrow> bool \<Rightarrow> systemFeatures httpReply" where
  "getFeaturesHandler tenants audits usage quotas =
     OkReply 200 \<lparr>sf_AsyncJobs = True, sf_L3Semantic = True, sf_TenantManagement = tenants, sf_AuditLogging = audits,
       sf_UsageTracking = usage, sf_QuotaManagement = quotas\<rparr>"

text \<open>The delay passed to the hook is in nanoseconds, in 64 bits.\<close>

definition shutdownDelay :: "string \<Rightarrow> int" where
  "shutdownDelay v =
     (if v = [] then 0
      else case atoi v of Some n \<Rightarrow> if n \<ge> 0 then wrap64 (n * 1000000000) else 0 | None \<Rightarrow> 0)"

definition shutdownSystemHandler :: "string \<Rightarrow> int \<times> int option httpReply" where
  "shutdownSystemHandler v =
     (let delay = shutdownDelay v in (delay, OkReply 202 (if delay > 0 then Some (delay div 1000000000) else None)))"

record componentStatus =
  co_Status :: string
  co_Message :: string

definition databaseStatus :: "string option \<Rightarrow> componentStatus" where
  "databaseStatus err =
     (case err of
        Some e \<Rightarrow> \<lparr>co_Status = ''unhealthy'', co_Message = ''Database query failed''\<rparr>
      | None \<Rightarrow> \<lparr>co_Status = ''healthy'', co_Message = ''Database connectivity OK''\<rparr>)"

definition memoryStatus :: "real \<Rightarrow> componentStatus" where
  "memoryStatus usedMB =
     (let s1 = (if usedMB > 1000 then \<lparr>co_Status = ''degraded'', co_Message = ''High memory usage''\<rparr>
                else \<lparr>co_Status = ''healthy'', co_Message = ''Memory usage normal''\<rparr>)
      in if usedMB > 2000 then \<lparr>co_Status = ''unhealthy'', co_Message = ''Critical memory usage''\<rparr> else s1)"

definition goroutineStatus :: "int \<Rightarrow> componentStatus" where
  "goroutineStatus n =
     (let s1 = (if n > 1000 then \<lparr>co_Status = ''degraded'', co_Message = ''High goroutine count''\<rparr>
                else \<lparr>co_Status = ''healthy'', co_Message = ''Goroutine count normal''\<rparr>)
      in if n > 5000 then \<lparr>co_Status = ''unhealthy'', co_Message = ''Critical goroutine count''\<rparr> else s1)"

text \<open>\<open>db\<close> is the error of the query, if there is a repository to ask.\<close>

definition componentsOf :: "string option option \<Rightarrow> real \<Rightarrow> int \<Rightarrow> string \<rightharpoonup> componentStatus" where
  "componentsOf db usedMB goroutines =
     (case db of None \<Rightarrow> Map.empty | Some err \<Rightarrow> [''database'' \<mapsto> databaseStatus err])
       (''memory'' \<mapsto> memoryStatus usedMB, ''goroutines'' \<mapsto> goroutineStatus goroutines)"

text \<open>The loop over the components, in the order in which the map is visited.\<close>

fun overallStatus :: "componentStatus list \<Rightarrow> string \<Rightarrow> string" where
  "overallStatus [] acc = acc"
| "overallStatus (c # cs) acc =
     (if co_Status c = ''unhealthy'' then ''unhealthy''
      else overallStatus cs (if co_Status c = ''degraded'' \<and> acc = ''healthy'' then ''degraded'' else acc))"

definition getSystemStatusHandler :: "string option option \<Rightarrow> real \<Rightarrow> int \<Rightarrow> string list \<Rightarrow> (string \<times> (string \<rightharpoonup> componentStatus)) httpReply" where
  "getSystemStatusHandler db usedMB goroutines order =
     (let cs = componentsOf db usedMB goroutines;
          s = overallStatus (map (the \<circ> cs) order) ''healthy''
      in OkReply (if s = ''degraded'' then 206 else if s = ''unhealthy'' then 503 else 200) (s, cs))"

definition getHealthCheckHandler :: "string option option \<Rightarrow> bool \<Rightarrow> bool \<Rightarrow> (string \<times> (string \<rightharpoonup> string)) httpReply" where
  "getHealthCheckHandler db usageStore quotaStore =
     (let c0 = (case db of
                  None \<Rightarrow> Map.empty
                | Some (Some e) \<Rightarrow> [''database'' \<mapsto> ''unhealthy'']
                | Some None \<Rightarrow> [''database'' \<mapsto> ''healthy'']);
          c1 = (if usageStore then c0(''usage_store'' \<mapsto> ''healthy'') else c0);
          c2 = (if quotaStore then c1(''quota_store'' \<mapsto> ''healthy'') else c1)
      in OkReply 200 (case db of Some (Some e) \<Rightarrow> ''degraded'' | _ \<Rightarrow> ''healthy'', c2))"

section \<open>The summary of metrics\<close>

text \<open>A histogram is its buckets: the upper bound in seconds and the count of all observations up to it.\<close>

fun p95Loop :: "real \<Rightarrow> nat \<Rightarrow> (real \<times> nat) list \<Rightarrow> real" where
  "p95Loop threshold cum [] = 0"
| "p95Loop threshold cum ((upper, k) # bs) =
     (if real (cum + k) \<ge> threshold then upper * 1000 else p95Loop threshold (cum + k) bs)"

fun statsP95 :: "(real \<times> nat) list option list \<Rightarrow> real" where
  "statsP95 [] = 0"
| "statsP95 (None # ms) = statsP95 ms"
| "statsP95 (Some bs # ms) =
     (let n = sum_list (map snd bs)
      in if n = 0 then statsP95 ms
         else let p95 = p95Loop (real n * (95 / 100)) 0 bs in if p95 > 0 then p95 else statsP95 ms)"

text \<open>The decisions by label, added up over the metrics; one without the label or a counter is skipped.\<close>

fun decisionTotals :: "(string \<times> int option) list \<Rightarrow> (string \<rightharpoonup> int) \<Rightarrow> string \<rightharpoonup> int" where
  "decisionTotals [] dt = dt"
| "decisionTotals ((decision, counter) # ms) dt =
     decisionTotals ms
       (case counter of
          Some n \<Rightarrow> if decision \<noteq> [] then dt(decision \<mapsto> countOf dt decision + n) else dt
        | None \<Rightarrow> dt)"

section \<open>Configuration\<close>

lemma patch_simps [simp]: "patch z z x = x" "patch z y (patch z y x) = patch z y x"
  by (simp_all add: patch_def)

lemma UpdateConfig_zero: "UpdateConfig zeroConfig c = c\<lparr>cf_RedactionEnabled := False\<rparr>"
  by (simp add: UpdateConfig_def zeroConfig_def)

lemma UpdateConfig_keeps_redaction:
  "p \<noteq> zeroConfig \<Longrightarrow> cf_RedactionEnabled c \<Longrightarrow> cf_RedactionEnabled (UpdateConfig p c)"
  by (simp add: UpdateConfig_def)

lemma updates_keep_redaction:
  "zeroConfig \<notin> set ps \<Longrightarrow> cf_RedactionEnabled c \<Longrightarrow> cf_RedactionEnabled (fold UpdateConfig ps c)"
  by (induction ps arbitrary: c) (auto simp: UpdateConfig_keeps_redaction)

lemma UpdateConfig_idem: "UpdateConfig p (UpdateConfig p c) = UpdateConfig p c"
  by (simp add: UpdateConfig_def) blast

text \<open>
  Redaction cannot be turned off through the API except by accident: no update that says
  anything else turns it off, also one that sets it to false together with another field, however
  many are made; but the update that says nothing, which is also what a body that cannot be decoded
  amounts to, turns it off and changes nothing else.
\<close>

theorem redaction_switch:
  assumes "cf_RedactionEnabled c"
  shows "(zeroConfig \<notin> set ps \<longrightarrow> cf_RedactionEnabled (fold UpdateConfig ps c))
    \<and> fst (configHandler G parseFloat None (PutConfig zeroConfig) c) = c\<lparr>cf_RedactionEnabled := False\<rparr>"
  using updates_keep_redaction [OF _ assms] by (simp add: configHandler_def UpdateConfig_zero)

theorem redaction_switch_witness:
  "cf_RedactionEnabled (fold UpdateConfig [zeroConfig\<lparr>cf_FailOn := ''LOW'', cf_RedactionEnabled := False\<rparr>] (zeroConfig\<lparr>cf_RedactionEnabled := True\<rparr>))"
  by (rule redaction_switch [THEN conjunct1, THEN mp]) (simp_all add: zeroConfig_def)

section \<open>Status\<close>

lemma overallStatus_char:
  "overallStatus cs acc =
     (if \<exists>c \<in> set cs. co_Status c = ''unhealthy'' then ''unhealthy''
      else if acc = ''healthy'' \<and> (\<exists>c \<in> set cs. co_Status c = ''degraded'') then ''degraded'' else acc)"
proof (induction cs arbitrary: acc)
  case (Cons c cs)
  show ?case by (cases "co_Status c = ''unhealthy''"; cases "co_Status c = ''degraded''") (simp_all add: Cons.IH)
qed simp

text \<open>
  The status of the system is the worst of its components, whatever the order in which the map of
  components is visited: 503 if one is unhealthy, else 206 if one is degraded, else 200.
\<close>

theorem system_status_worst:
  assumes "set order = dom (componentsOf db usedMB goroutines)"
  shows "\<exists>s. getSystemStatusHandler db usedMB goroutines order =
      OkReply (if s = ''unhealthy'' then 503 else if s = ''degraded'' then 206 else 200) (s, componentsOf db usedMB goroutines)
    \<and> (s = ''unhealthy'' \<longleftrightarrow> (\<exists>e. db = Some (Some e)) \<or> usedMB > 2000 \<or> goroutines > 5000)
    \<and> (s = ''healthy'' \<longleftrightarrow> \<not> (\<exists>e. db = Some (Some e)) \<and> usedMB \<le> 1000 \<and> goroutines \<le> 1000)"
proof -
  let ?cs = "componentsOf db usedMB goroutines"
  let ?S = "(case db of None \<Rightarrow> {} | Some err \<Rightarrow> {databaseStatus err}) \<union> {memoryStatus usedMB, goroutineStatus goroutines}"
  have "dom ?cs = (case db of None \<Rightarrow> {} | Some err \<Rightarrow> {''database''}) \<union> {''memory'', ''goroutines''}"
    by (auto simp: componentsOf_def split: option.split)
  then have S: "set (map (the \<circ> ?cs) order) = ?S"
    using assms by (simp add: componentsOf_def split: option.split)
  let ?s = "overallStatus (map (the \<circ> ?cs) order) ''healthy''"
  have s: "?s = (if \<exists>c \<in> ?S. co_Status c = ''unhealthy'' then ''unhealthy''
      else if \<exists>c \<in> ?S. co_Status c = ''degraded'' then ''degraded'' else ''healthy'')"
    unfolding overallStatus_char S by simp
  have "co_Status (databaseStatus err) = (if err = None then ''healthy'' else ''unhealthy'')" for err
    by (simp add: databaseStatus_def split: option.split)
  then have "(?s = ''unhealthy'' \<longleftrightarrow> (\<exists>e. db = Some (Some e)) \<or> usedMB > 2000 \<or> goroutines > 5000)
    \<and> (?s = ''healthy'' \<longleftrightarrow> \<not> (\<exists>e. db = Some (Some e)) \<and> usedMB \<le> 1000 \<and> goroutines \<le> 1000)"
    unfolding s by (auto simp: memoryStatus_def goroutineStatus_def Let_def split: option.split)
  moreover have "getSystemStatusHandler db usedMB goroutines order =
      OkReply (if ?s = ''unhealthy'' then 503 else if ?s = ''degraded'' then 206 else 200) (?s, ?cs)"
    by (simp add: getSystemStatusHandler_def Let_def)
  ultimately show ?thesis by blast
qed

section \<open>Paging through the history\<close>

text \<open>A client that asks for pages, passing on the cursor of each as text. \<^const>\<open>None\<close>
  is a refused request, or a cursor left over when \<open>n\<close> requests were made.\<close>

definition pageParams :: "string \<Rightarrow> string \<Rightarrow> string \<Rightarrow> string \<Rightarrow> string" where
  "pageParams limit decision before k =
     (if k = ''limit'' then limit else if k = ''decision'' then decision else if k = ''before'' then before else [])"

fun followPages :: "nat \<Rightarrow> string \<Rightarrow> string \<Rightarrow> string \<Rightarrow> decLog \<Rightarrow> decRecord list option" where
  "followPages 0 limit decision before l = None"
| "followPages (Suc n) limit decision before l =
     (case listDecisionsHandler (pageParams limit decision before) l of
        OkReply s (rs, None) \<Rightarrow> Some rs
      | OkReply s (rs, Some b) \<Rightarrow> map_option ((@) rs) (followPages n limit decision (itoa b) l)
      | _ \<Rightarrow> None)"

lemma trim_plain:
  assumes "list_all (\<lambda>c. byte c < 128 \<and> \<not> isSpaceRune (byte c)) s"
  shows "strTrimSpace s = s"
proof -
  let ?sp = "\<lambda>(r, b). isSpaceRune r" and ?m = "map (\<lambda>c. (byte c, [c])) s"
  have seg: "runeSegs s = ?m" using assms by (intro runeSegs_ascii) (simp add: isAscii_def list_all_iff)
  have id: "dropWhile ?sp xs = xs" if "set xs \<subseteq> set ?m" for xs
    using that assms by (cases xs) (auto simp: list_all_iff)
  have "concat (map snd ?m) = s" by (induction s) auto
  then show ?thesis by (simp add: strTrimSpace_def Let_def seg id)
qed

lemma trim_number: "0 \<le> n \<Longrightarrow> strTrimSpace (itoa n) = itoa n" "0 \<le> n \<Longrightarrow> itoa n \<noteq> []"
proof -
  assume "0 \<le> n"
  then have "isDecimal (itoa n)" by (simp add: itoa_def)
  then show "strTrimSpace (itoa n) = itoa n" "itoa n \<noteq> []"
    by (intro trim_plain, auto simp: isDecimal_def list_all_iff isSpaceRune_def)
qed

lemma trim_decision: "d \<in> {[], Allow, Deny, Quarantine} \<Longrightarrow> strTrimSpace d = d"
  by (rule trim_plain) (auto simp: Allow_def Deny_def Quarantine_def byte_def isSpaceRune_def)

lemma query_of_params:
  assumes "1 \<le> n" "n \<le> 500" "d \<in> {[], Allow, Deny, Quarantine}" "0 \<le> b" "b < 2 ^ 63" "before = (if b = 0 then [] else itoa b)"
  shows "parseDecisionQuery (pageParams (itoa n) d before) = Inr \<lparr>q_Limit = n, q_Decision = d, q_Before = b\<rparr>"
proof -
  have "atoi (itoa n) = Some n" using assms by (intro atoi_itoa) auto
  moreover have "atoi (itoa b) = Some b" using assms by (intro atoi_itoa) auto
  moreover have "strTrimSpace [] = []" by (rule trim_plain) simp
  ultimately show ?thesis
    using assms trim_number [of n] trim_number [of b] trim_decision [OF assms(3)]
    by (simp add: parseDecisionQuery_def pageParams_def Let_def maxDecisionLimit_def)
qed

lemma next_range:
  assumes "logInv l" "0 < q_Limit q" "q_Limit q < 2 ^ 63" "int (lg_size l) < 2 ^ 63"
  shows "0 \<le> pg_Next (PageOf l q)" "pg_Next (PageOf l q) \<le> lg_total l"
proof -
  let ?ms = "filter (matchesQuery q) (hist l)" and ?n = "nat (q_Limit q)"
  have "last (take ?n ?ms) \<in> set (hist l)" if "\<not> length ?ms \<le> ?n"
  proof -
    have "take ?n ?ms \<noteq> []" using that assms(2) by auto
    then have "last (take ?n ?ms) \<in> set (take ?n ?ms)" by (rule last_in_set)
    then show ?thesis using set_take_subset [of ?n ?ms] by auto
  qed
  moreover have "0 \<le> lg_total l" using assms(1) by (auto simp: logInv_def)
  ultimately show "0 \<le> pg_Next (PageOf l q)" "pg_Next (PageOf l q) \<le> lg_total l"
    unfolding PageOf_spec [OF assms] Let_def using hist_range [OF assms(1)] by (auto simp: less_imp_le)
qed

lemma followPages_all:
  assumes "logInv l" "lg_total l < 2 ^ 63" "1 \<le> n" "n \<le> 500" "d \<in> {[], Allow, Deny, Quarantine}"
  shows "0 \<le> b \<Longrightarrow> b < 2 ^ 63 \<Longrightarrow> followPages k (itoa n) d (if b = 0 then [] else itoa b) l
    = allPages k l \<lparr>q_Limit = n, q_Decision = d, q_Before = b\<rparr>"
proof (induction k arbitrary: b)
  case (Suc k)
  let ?q = "\<lparr>q_Limit = n, q_Decision = d, q_Before = b\<rparr>"
  have sz: "int (lg_size l) < 2 ^ 63" using assms(1,2) by (auto simp: logInv_def)
  have r: "0 \<le> pg_Next (PageOf l ?q)" "pg_Next (PageOf l ?q) < 2 ^ 63"
    using next_range [OF assms(1) _ _ sz, of ?q] assms(2-4) by auto
  note pq = query_of_params [OF assms(3-5) Suc.prems refl]
  show ?case
  proof (cases "pg_Next (PageOf l ?q) = 0")
    case True
    then show ?thesis by (simp add: listDecisionsHandler_def pq Let_def)
  next
    case False
    with Suc.IH [OF r] r(1) show ?thesis by (simp add: listDecisionsHandler_def pq Let_def)
  qed
qed simp

text \<open>
  C38. A client that follows the cursors of the decision history through the HTTP API, as text, gets
  every retained record with the decision it asks for, each once and newest first, for every page size the
  API admits, and is done within as many requests as there are records plus one.
\<close>

theorem history_paging:
  assumes "logInv l" "lg_total l < 2 ^ 63" "1 \<le> n" "n \<le> 500" "d \<in> {[], Allow, Deny, Quarantine}"
  shows "followPages (Suc (lg_size l)) (itoa n) d [] l = Some (filter (\<lambda>r. d = [] \<or> rc_Decision r = d) (hist l))"
proof -
  let ?q = "\<lparr>q_Limit = n, q_Decision = d, q_Before = 0\<rparr>"
  have sz: "int (lg_size l) < 2 ^ 63" using assms(1,2) by (auto simp: logInv_def)
  have "length (filter (matchesQuery ?q) (hist l)) < Suc (lg_size l)"
    using length_filter_le [of "matchesQuery ?q" "hist l"] by simp
  then have "allPages (Suc (lg_size l)) l ?q = Some (filter (matchesQuery ?q) (hist l))"
    using assms(3,4) by (intro allPages_filter [OF assms(1) _ _ sz]) auto
  moreover have "matchesQuery ?q = (\<lambda>r. d = [] \<or> rc_Decision r = d)" by (auto simp: matchesQuery_def)
  ultimately show ?thesis using followPages_all [OF assms, of 0 "Suc (lg_size l)"] by simp
qed

theorem history_paging_witness:
  "followPages (Suc (lg_size (Add 5 (req 1) (NewLog 0 2)))) (itoa 1) Deny [] (Add 5 (req 1) (NewLog 0 2))
    = Some (filter (\<lambda>r. Deny = [] \<or> rc_Decision r = Deny) (hist (Add 5 (req 1) (NewLog 0 2))))"
  by (rule history_paging) (simp_all add: logInv_Add logInv_NewLog, simp add: Add_def NewLog_def Let_def)

section \<open>Scanning records\<close>

text \<open>
  What lies beyond the limit of a body is not scanned and nothing says so: the answer to a body
  that is too long, and the events, are those to its first part.
\<close>

theorem scan_truncates:
  assumes "sc_maxBytes (scanLimits c) < int (length (rq_Body r))"
  shows "scanHandler line arr c agg ct r =
    scanHandler line arr c agg ct (r\<lparr>rq_Body := take (nat (sc_maxBytes (scanLimits c))) (rq_Body r)\<rparr>)"
proof -
  have "0 < sc_maxBytes (scanLimits c)" by (simp add: scanLimits_def)
  then show ?thesis using assms by (simp add: scanHandler_def limitBody_def min_def)
qed

theorem scan_truncates_witness:
  "scanHandler (\<lambda>d. (''allow'', d, 0)) (\<lambda>d. None) (zeroConfig\<lparr>cf_MaxStreamBytes := 2\<rparr>) [] [] (demoReq\<lparr>rq_Body := ''okBAD''\<rparr>)
    = (Report (scanReportOf [(''allow'', ''ok'', 0)]), [(''allow'', ''ok'', 0)])"
proof -
  have "scanHandler (\<lambda>d. (''allow'', d, 0)) (\<lambda>d. None) (zeroConfig\<lparr>cf_MaxStreamBytes := 2\<rparr>) [] [] (demoReq\<lparr>rq_Body := ''okBAD''\<rparr>)
      = scanHandler (\<lambda>d. (''allow'', d, 0)) (\<lambda>d. None) (zeroConfig\<lparr>cf_MaxStreamBytes := 2\<rparr>) [] [] (demoReq\<lparr>rq_Body := ''ok''\<rparr>)"
    using scan_truncates [of "zeroConfig\<lparr>cf_MaxStreamBytes := 2\<rparr>" "demoReq\<lparr>rq_Body := ''okBAD''\<rparr>"
        "\<lambda>d. (''allow'', d, 0)" "\<lambda>d. None" "[]" "[]"] by (simp add: scanLimits_def)
  also have "\<dots> = (Report (scanReportOf [(''allow'', ''ok'', 0)]), [(''allow'', ''ok'', 0)])"
    by (simp add: scanHandler_def limitBody_def scanLimits_def hasPrefix_def Let_def)
  finally show ?thesis .
qed

text \<open>Every record of the body has its decision, and each decision is published.\<close>

lemma scan_published:
  "case scanHandler line arr c agg ct r of
     (Ndjson ds, es) \<Rightarrow> es = ds
   | (Report rep, es) \<Rightarrow> es = rp_Decisions rep \<and> rp_Total rep = length es \<and> rp_Violations rep = sum_list (map (snd \<circ> snd) es)"
  by (auto simp: scanHandler_def scanReportOf_def Let_def split: option.split list.split)

section \<open>Reloading, stopping, measuring\<close>

text \<open>Only a reload that succeeds changes the rules or the world, and only it is published.\<close>

lemma reload_handler_cases:
  "case reloadRulesHandler load t (Some s) w of (s', w', answer, ev) \<Rightarrow>
     (\<exists>snap. answer = OkReply 200 snap \<and> s' = Some (fst (fst (Reload load t (s, w)))) \<and> snap = Snapshot (the s')
        \<and> ev = Some (set_generation s + 1, sn_RuleCount snap))
     \<or> ((\<exists>code msg ds. answer = ErrorReply 409 code msg ds \<or> answer = ErrorReply 422 code msg ds) \<and> s' = Some s \<and> w' = w \<and> ev = None)"
  by (auto simp: reloadRulesHandler_def Reload_def Snapshot_def Let_def split: sum.split)

text \<open>
  A delay of a shutdown is honoured up to 9223372036 seconds; the next one wraps around to a negative
  duration, and the answer does not mention a delay.
\<close>

theorem shutdown_delay:
  "(0 \<le> n \<longrightarrow> n \<le> 9223372036 \<longrightarrow> shutdownDelay (itoa n) = n * 1000000000)
    \<and> shutdownDelay (itoa 9223372037) < 0
    \<and> snd (shutdownSystemHandler (itoa 9223372037)) = OkReply 202 None"
proof -
  have v: "itoa m \<noteq> []" if "0 \<le> m" for m using trim_number(2) [OF that] .
  have "shutdownDelay (itoa n) = n * 1000000000" if "0 \<le> n" "n \<le> 9223372036"
  proof -
    have "atoi (itoa n) = Some n" "wrap64 (n * 1000000000) = n * 1000000000"
      using that by (auto intro!: atoi_itoa wrap64_id)
    then show ?thesis using v that by (simp add: shutdownDelay_def)
  qed
  moreover have neg: "shutdownDelay (itoa 9223372037) < 0"
  proof -
    have "atoi (itoa 9223372037) = Some 9223372037" by (rule atoi_itoa) simp_all
    then show ?thesis using v [of 9223372037] by (simp add: shutdownDelay_def wrap64_def)
  qed
  ultimately show ?thesis by (simp add: shutdownSystemHandler_def Let_def)
qed

theorem shutdown_delay_witness: "shutdownDelay (itoa 30) = 30000000000"
  using shutdown_delay [of 30] by simp

lemma p95Loop_flat:
  assumes "us \<noteq> []" "real (cum + (length us - 1) * k) < threshold" "threshold \<le> real (cum + length us * k)"
  shows "p95Loop threshold cum (map (\<lambda>u. (u, k)) us) = last us * 1000"
  using assms
proof (induction us arbitrary: cum)
  case (Cons u us)
  note IH = Cons.IH and prems = Cons.prems
  show ?case
  proof (cases us)
    case Nil
    with prems show ?thesis by simp
  next
    case (Cons v vs)
    then have "cum + k \<le> cum + (length (u # us) - 1) * k" by simp
    then have "real (cum + k) < threshold" using prems(2)
      by (meson le_less_trans of_nat_le_iff)
    with Cons IH [of "cum + k"] prems show ?thesis by (simp add: algebra_simps)
  qed
qed simp

text \<open>
  The summary adds up counts that are cumulative already. If every request was faster than the first
  bound of a histogram with fewer than twenty buckets, the reported 95th percentile is the last bound.
\<close>

theorem p95_overstated:
  assumes "us \<noteq> []" "length us < 20" "0 < k" "0 < last us"
  shows "statsP95 [Some (map (\<lambda>u. (u, k)) us)] = last us * 1000"
proof -
  have s: "sum_list (map snd (map (\<lambda>u. (u, k)) us)) = length us * k" by (induction us) auto
  have "p95Loop (real (length us * k) * (95 / 100)) 0 (map (\<lambda>u. (u, k)) us) = last us * 1000"
  proof (rule p95Loop_flat [OF assms(1)])
    have "real (length us - 1) < real (length us) * (95 / 100)" using assms(1,2) by (cases us) auto
    then show "real (0 + (length us - 1) * k) < real (length us * k) * (95 / 100)"
      using assms(3) mult_strict_right_mono [of "real (length us - 1)" "real (length us) * (95 / 100)" "real k"] by (simp add: algebra_simps)
  qed simp
  then show ?thesis using assms s by simp
qed

theorem p95_overstated_witness: "statsP95 [Some [(1 / 10, 100), (2 / 10, 100), (8 / 10, 100)]] = 800"
  using p95_overstated [of "[1 / 10, 2 / 10, 8 / 10]" 100] by simp

end
