(* ===== verification/Kafka_Producer.thy ===== *)
theory Kafka_Producer
  imports Audit_Log
begin

text \<open>
  The Kafka producer of \<^verbatim>\<open>internal/infrastructure/messaging/kafka/producer.go\<close> and how the audit
  logger of \<^verbatim>\<open>internal/audit/kafka.go\<close> makes and uses one. The client library is outside the
  repository: what its writer answers to messages is an argument. The statistics are a map of values of
  any type, as in the code, so that a type assertion that fails is a panic, the value \<open>None\<close>.
\<close>

section \<open>Configuration\<close>

record tlsConfig =
  tl_Enabled :: bool
  tl_InsecureSkipVerify :: bool

record saslConfig =
  sa_Enabled :: bool
  sa_Username :: string
  sa_Password :: string

record producerConfig =
  pc_Brokers :: "string list"
  pc_Topic :: string
  pc_BatchSize :: int
  pc_BatchTimeout :: int
  pc_Compression :: string
  pc_RequiredAcks :: int
  pc_MaxAttempts :: int
  pc_Async :: bool
  pc_TLS :: "tlsConfig option"
  pc_SASL :: "saslConfig option"

record kafkaDialer =
  kd_InsecureSkipVerify :: bool
  kd_SASL :: "(string \<times> string) option"

record kafkaWriter =
  kw_Brokers :: "string list"
  kw_Topic :: string
  kw_RequiredAcks :: int
  kw_MaxAttempts :: int
  kw_BatchSize :: int
  kw_BatchTimeout :: int
  kw_Async :: bool
  kw_Codec :: "string option"
  kw_Dialer :: "kafkaDialer option"

datatype statVal = StInt int | StBool bool | StTime int | StText string

record producer =
  pr_writer :: kafkaWriter
  pr_stats :: "string \<rightharpoonup> statVal"
  pr_closed :: bool

datatype kafkaErr = ConfigurationError string | ServiceUnavailable string

definition defaulted :: "int \<Rightarrow> int \<Rightarrow> int" where
  "defaulted v dflt = (if v = 0 then dflt else v)"

definition codecOf :: "string \<Rightarrow> string option" where
  "codecOf c = (if c \<in> {''gzip'', ''snappy'', ''lz4'', ''zstd''} then Some c else None)"

text \<open>Credentials are used only together with TLS.\<close>

definition dialerOf :: "producerConfig \<Rightarrow> kafkaDialer option" where
  "dialerOf c =
     (case pc_TLS c of
        Some tls \<Rightarrow>
          if tl_Enabled tls
          then Some \<lparr>kd_InsecureSkipVerify = tl_InsecureSkipVerify tls,
                     kd_SASL = (case pc_SASL c of
                                  Some s \<Rightarrow> if sa_Enabled s then Some (sa_Username s, sa_Password s) else None
                                | None \<Rightarrow> None)\<rparr>
          else None
      | None \<Rightarrow> None)"

definition newStats :: "int \<Rightarrow> string \<rightharpoonup> statVal" where
  "newStats t =
     [''messages_sent'' \<mapsto> StInt 0, ''bytes_sent'' \<mapsto> StInt 0, ''errors'' \<mapsto> StInt 0,
      ''connected'' \<mapsto> StBool True, ''started_at'' \<mapsto> StTime t]"

text \<open>\<open>env\<close> is the variable \<^verbatim>\<open>PS_KAFKA_BROKERS\<close>, which becomes one broker, whatever it holds.\<close>

definition NewProducer :: "string \<Rightarrow> int \<Rightarrow> producerConfig option \<Rightarrow> kafkaErr + producer" where
  "NewProducer env t cfg =
     (case cfg of
        None \<Rightarrow> Inl (ConfigurationError ''producer config is required'')
      | Some c \<Rightarrow>
          if pc_Brokers c = [] \<and> env = [] then Inl (ConfigurationError ''no brokers configured'')
          else Inr
            \<lparr>pr_writer =
               \<lparr>kw_Brokers = (if pc_Brokers c = [] then [env] else pc_Brokers c), kw_Topic = pc_Topic c,
                kw_RequiredAcks = defaulted (pc_RequiredAcks c) 1, kw_MaxAttempts = defaulted (pc_MaxAttempts c) 3,
                kw_BatchSize = defaulted (pc_BatchSize c) 100, kw_BatchTimeout = defaulted (pc_BatchTimeout c) 100000000,
                kw_Async = pc_Async c, kw_Codec = codecOf (pc_Compression c), kw_Dialer = dialerOf c\<rparr>,
             pr_stats = newStats t, pr_closed = False\<rparr>)"

section \<open>Operations\<close>

definition Connect :: "int \<Rightarrow> producer \<Rightarrow> producer \<times> kafkaErr option" where
  "Connect t p =
     (if pr_closed p then (p, Some (ServiceUnavailable ''kafka producer is closed''))
      else (p\<lparr>pr_stats := (pr_stats p)(''connected'' \<mapsto> StBool True, ''connected_at'' \<mapsto> StTime t)\<rparr>, None))"

text \<open>\<open>werr\<close> is the error of closing the writer.\<close>

definition CloseProducer :: "int \<Rightarrow> string option \<Rightarrow> producer \<Rightarrow> producer \<times> string option" where
  "CloseProducer t werr p =
     (if pr_closed p then (p, None)
      else (p\<lparr>pr_closed := True, pr_stats := (pr_stats p)(''connected'' \<mapsto> StBool False, ''closed_at'' \<mapsto> StTime t)\<rparr>, werr))"

definition boolStat :: "string \<Rightarrow> producer \<Rightarrow> bool option" where
  "boolStat k p = (case pr_stats p k of Some (StBool b) \<Rightarrow> Some b | _ \<Rightarrow> None)"

definition intStat :: "string \<Rightarrow> producer \<Rightarrow> int option" where
  "intStat k p = (case pr_stats p k of Some (StInt n) \<Rightarrow> Some n | _ \<Rightarrow> None)"

definition IsConnected :: "producer \<Rightarrow> bool option" where
  "IsConnected p = (if pr_closed p then Some False else boolStat ''connected'' p)"

text \<open>The counters are unbounded here; Go's wrap around after \<open>2 ^ 63\<close> messages.\<close>

definition raiseStat :: "string \<Rightarrow> int \<Rightarrow> producer \<Rightarrow> producer option" where
  "raiseStat k d p =
     (case intStat k p of
        None \<Rightarrow> None
      | Some n \<Rightarrow> Some (p\<lparr>pr_stats := (pr_stats p)(k \<mapsto> StInt (n + d))\<rparr>))"

definition setStat :: "string \<Rightarrow> statVal \<Rightarrow> producer \<Rightarrow> producer" where
  "setStat k v p = p\<lparr>pr_stats := (pr_stats p)(k \<mapsto> v)\<rparr>"

text \<open>The writer's logger of errors.\<close>

definition logError :: "int \<Rightarrow> string \<Rightarrow> producer \<Rightarrow> producer option" where
  "logError t msg p =
     map_option (\<lambda>p'. setStat ''last_error_time'' (StTime t) (setStat ''last_error'' (StText msg) p')) (raiseStat ''errors'' 1 p)"

record kafkaMsg =
  km_Topic :: string
  km_Key :: string
  km_Value :: string
  km_Headers :: "(string \<times> string) list"

record queueMsg =
  qm_ID :: string
  qm_Type :: string
  qm_Payload :: string
  qm_Headers :: "(string \<times> string) list"

record publishResult =
  pb_MessageID :: string
  pb_Topic :: string
  pb_Error :: "kafkaErr option"

definition countSent :: "int \<Rightarrow> int \<Rightarrow> producer \<Rightarrow> producer option" where
  "countSent n bytes p =
     (case raiseStat ''messages_sent'' n p of None \<Rightarrow> None | Some p' \<Rightarrow> raiseStat ''bytes_sent'' bytes p')"

text \<open>
  \<open>send\<close> is what the writer does with messages: an error, or nothing. The outer \<open>None\<close> is a panic; \<open>mid\<close> is
  the identifier made from the topic and the clock.
\<close>

definition PublishKafka :: "(kafkaWriter \<Rightarrow> kafkaMsg list \<Rightarrow> string option) \<Rightarrow> int \<Rightarrow> string \<Rightarrow> string \<Rightarrow> string \<Rightarrow> (string \<times> string) list
    \<Rightarrow> producer \<Rightarrow> (producer \<times> (kafkaErr + publishResult)) option" where
  "PublishKafka send t mid topic message headers p =
     (if pr_closed p then Some (p, Inl (ServiceUnavailable ''kafka producer is closed''))
      else
        (case send (pr_writer p) [\<lparr>km_Topic = topic, km_Key = [], km_Value = message, km_Headers = headers\<rparr>] of
           Some e \<Rightarrow> Some (p, Inl (ServiceUnavailable (''failed to publish to Kafka: '' @ e)))
         | None \<Rightarrow>
             map_option (\<lambda>p'. (setStat ''last_publish_time'' (StTime t) p', Inr \<lparr>pb_MessageID = mid, pb_Topic = topic, pb_Error = None\<rparr>))
               (countSent 1 (int (length message)) p)))"

definition toKafka :: "queueMsg \<Rightarrow> kafkaMsg" where
  "toKafka m = \<lparr>km_Topic = qm_Type m, km_Key = qm_ID m, km_Value = qm_Payload m, km_Headers = qm_Headers m\<rparr>"

definition PublishBatch :: "(kafkaWriter \<Rightarrow> kafkaMsg list \<Rightarrow> string option) \<Rightarrow> int \<Rightarrow> queueMsg list
    \<Rightarrow> producer \<Rightarrow> (producer \<times> (kafkaErr + publishResult list)) option" where
  "PublishBatch send t messages p =
     (if pr_closed p then Some (p, Inl (ServiceUnavailable ''kafka producer is closed''))
      else
        (case send (pr_writer p) (map toKafka messages) of
           Some e \<Rightarrow> Some (p, Inl (ServiceUnavailable (''failed to publish batch to Kafka: '' @ e)))
         | None \<Rightarrow>
             map_option (\<lambda>p'. (setStat ''last_batch_time'' (StTime t) (setStat ''last_batch_size'' (StInt (int (length messages))) p'),
                               Inr (map (\<lambda>m. \<lparr>pb_MessageID = qm_ID m, pb_Topic = qm_Type m, pb_Error = None\<rparr>) messages)))
               (countSent (int (length messages)) (sum_list (map (int \<circ> length \<circ> qm_Payload) messages)) p)))"

text \<open>What arrives on the channel of \<^verbatim>\<open>PublishAsync\<close>: always one result.\<close>

definition PublishAsync :: "(kafkaWriter \<Rightarrow> kafkaMsg list \<Rightarrow> string option) \<Rightarrow> int \<Rightarrow> string \<Rightarrow> string \<Rightarrow> string \<Rightarrow> (string \<times> string) list
    \<Rightarrow> producer \<Rightarrow> (producer \<times> publishResult) option" where
  "PublishAsync send t mid topic message headers p =
     map_option (\<lambda>(p', res). (p', case res of
         Inl e \<Rightarrow> \<lparr>pb_MessageID = [], pb_Topic = topic, pb_Error = Some e\<rparr>
       | Inr r \<Rightarrow> r)) (PublishKafka send t mid topic message headers p)"

section \<open>The audit logger\<close>

record kafkaLogger =
  kl_producer :: producer
  kl_topic :: string

definition auditProducerConfig :: "string list \<Rightarrow> string \<Rightarrow> producerConfig" where
  "auditProducerConfig brokers topic =
     \<lparr>pc_Brokers = brokers, pc_Topic = topic, pc_BatchSize = 100, pc_BatchTimeout = 100000000, pc_Compression = ''snappy'',
      pc_RequiredAcks = -1, pc_MaxAttempts = 5, pc_Async = False, pc_TLS = None, pc_SASL = None\<rparr>"

definition NewKafkaLogger :: "string \<Rightarrow> int \<Rightarrow> string list \<Rightarrow> string \<Rightarrow> kafkaErr + kafkaLogger" where
  "NewKafkaLogger env t brokers topic =
     (if brokers = [] \<or> strTrimSpace topic = [] then Inl (ConfigurationError ''brokers and topic are required'')
      else case NewProducer env t (Some (auditProducerConfig brokers topic)) of
             Inl e \<Rightarrow> Inl e
           | Inr p \<Rightarrow> (case Connect t p of
                         (p', Some e) \<Rightarrow> Inl e
                       | (p', None) \<Rightarrow> Inr \<lparr>kl_producer = p', kl_topic = topic\<rparr>))"

text \<open>\<open>LogKafka\<close> with the outcome of the logger's own producer.\<close>

fun kafkaErrText :: "kafkaErr \<Rightarrow> string" where
  "kafkaErrText (ConfigurationError e) = e"
| "kafkaErrText (ServiceUnavailable e) = e"

definition LogThrough :: "(kafkaWriter \<Rightarrow> kafkaMsg list \<Rightarrow> string option) \<Rightarrow> 'rx auditEnv \<Rightarrow> (int \<Rightarrow> string) \<Rightarrow> int \<Rightarrow> string \<Rightarrow> auditEvent
    \<Rightarrow> kafkaLogger \<times> (auditEvent \<times> (string \<times> string) list) list \<Rightarrow> (kafkaLogger \<times> (auditEvent \<times> (string \<times> string) list) list) \<times> logOutcome" where
  "LogThrough send A rfc3339 t mid e = (\<lambda>(l, sent).
     let e2 = hashed A t e in
     case ae_json A (eventJson e2) of
       None \<Rightarrow> ((l, sent), LogFailed ''failed to marshal audit event'')
     | Some payload \<Rightarrow>
         (case PublishKafka send t mid (kl_topic l) payload (kafkaHeaders rfc3339 e2) (kl_producer l) of
            None \<Rightarrow> ((l, sent), LogPanic)
          | Some (p', out) \<Rightarrow>
              (case LogKafka A rfc3339 t (case out of Inl x \<Rightarrow> Inl (kafkaErrText x) | Inr r \<Rightarrow> Inr (Some (pb_MessageID r))) e sent of
                 (sent', oc) \<Rightarrow> ((l\<lparr>kl_producer := p'\<rparr>, sent'), oc))))"

section \<open>The statistics\<close>

datatype kafkaOp =
    KConnect int
  | KClose int "string option"
  | KPublish int string string string "(string \<times> string) list"
  | KBatch int "queueMsg list"
  | KLogError int string

definition kafkaStep :: "(kafkaWriter \<Rightarrow> kafkaMsg list \<Rightarrow> string option) \<Rightarrow> kafkaOp \<Rightarrow> producer \<Rightarrow> producer option" where
  "kafkaStep send x p =
     (case x of
        KConnect t \<Rightarrow> Some (fst (Connect t p))
      | KClose t werr \<Rightarrow> Some (fst (CloseProducer t werr p))
      | KPublish t mid topic message headers \<Rightarrow> map_option fst (PublishKafka send t mid topic message headers p)
      | KBatch t ms \<Rightarrow> map_option fst (PublishBatch send t ms p)
      | KLogError t msg \<Rightarrow> logError t msg p)"

fun runKafka :: "(kafkaWriter \<Rightarrow> kafkaMsg list \<Rightarrow> string option) \<Rightarrow> kafkaOp list \<Rightarrow> producer \<Rightarrow> producer option" where
  "runKafka send [] p = Some p"
| "runKafka send (x # xs) p = (case kafkaStep send x p of None \<Rightarrow> None | Some p' \<Rightarrow> runKafka send xs p')"

text \<open>What the statistics mean: closed or not, messages and bytes accepted by the writer, errors logged.\<close>

record tally =
  ta_closed :: bool
  ta_messages :: int
  ta_bytes :: int
  ta_errors :: int

definition accepts :: "(kafkaWriter \<Rightarrow> kafkaMsg list \<Rightarrow> string option) \<Rightarrow> kafkaWriter \<Rightarrow> kafkaMsg list \<Rightarrow> tally \<Rightarrow> tally" where
  "accepts send w ms a =
     (if \<not> ta_closed a \<and> send w ms = None
      then a\<lparr>ta_messages := ta_messages a + int (length ms), ta_bytes := ta_bytes a + sum_list (map (int \<circ> length \<circ> km_Value) ms)\<rparr>
      else a)"

fun tallyStep :: "(kafkaWriter \<Rightarrow> kafkaMsg list \<Rightarrow> string option) \<Rightarrow> kafkaWriter \<Rightarrow> kafkaOp \<Rightarrow> tally \<Rightarrow> tally" where
  "tallyStep send w (KConnect t) a = a"
| "tallyStep send w (KClose t werr) a = a\<lparr>ta_closed := True\<rparr>"
| "tallyStep send w (KPublish t mid topic message headers) a =
     accepts send w [\<lparr>km_Topic = topic, km_Key = [], km_Value = message, km_Headers = headers\<rparr>] a"
| "tallyStep send w (KBatch t ms) a = accepts send w (map toKafka ms) a"
| "tallyStep send w (KLogError t msg) a = a\<lparr>ta_errors := ta_errors a + 1\<rparr>"

text \<open>The statistics are typed as the code asserts, and say what the tally says.\<close>

definition showsTally :: "producer \<Rightarrow> tally \<Rightarrow> bool" where
  "showsTally p a \<longleftrightarrow>
     pr_closed p = ta_closed a \<and> intStat ''messages_sent'' p = Some (ta_messages a)
     \<and> intStat ''bytes_sent'' p = Some (ta_bytes a) \<and> intStat ''errors'' p = Some (ta_errors a)
     \<and> boolStat ''connected'' p = Some (\<not> ta_closed a)"

lemma stat_setStat [simp]:
  "intStat k (setStat j v p) = (if k = j then (case v of StInt n \<Rightarrow> Some n | _ \<Rightarrow> None) else intStat k p)"
  "boolStat k (setStat j v p) = (if k = j then (case v of StBool b \<Rightarrow> Some b | _ \<Rightarrow> None) else boolStat k p)"
  "pr_closed (setStat j v p) = pr_closed p" "pr_writer (setStat j v p) = pr_writer p"
  by (simp_all add: setStat_def intStat_def boolStat_def)

lemma raiseStat_eq: "raiseStat k d p = map_option (\<lambda>n. setStat k (StInt (n + d)) p) (intStat k p)"
  by (simp add: raiseStat_def setStat_def split: option.split)

lemma Connect_eq:
  "fst (Connect t p) = (if pr_closed p then p else setStat ''connected_at'' (StTime t) (setStat ''connected'' (StBool True) p))"
  by (simp add: Connect_def setStat_def)

lemma CloseProducer_eq:
  "fst (CloseProducer t werr p) =
     (if pr_closed p then p else setStat ''closed_at'' (StTime t) (setStat ''connected'' (StBool False) (p\<lparr>pr_closed := True\<rparr>)))"
  by (simp add: CloseProducer_def setStat_def)

lemma stat_closed [simp]:
  "intStat k (p\<lparr>pr_closed := b\<rparr>) = intStat k p" "boolStat k (p\<lparr>pr_closed := b\<rparr>) = boolStat k p"
  by (simp_all add: intStat_def boolStat_def)

lemma countSent_shows:
  assumes "showsTally p a"
  shows "\<exists>p'. countSent n b p = Some p' \<and> pr_writer p' = pr_writer p
    \<and> showsTally p' (a\<lparr>ta_messages := ta_messages a + n, ta_bytes := ta_bytes a + b\<rparr>)"
  using assms by (simp add: countSent_def raiseStat_eq showsTally_def)

lemma showsTally_set:
  "showsTally p a \<Longrightarrow> k \<notin> {''messages_sent'', ''bytes_sent'', ''errors'', ''connected''} \<Longrightarrow> showsTally (setStat k v p) a"
  by (auto simp: showsTally_def)

lemma Publish_shows:
  assumes "showsTally p a"
  shows "\<exists>p' out. PublishKafka send t mid topic message headers p = Some (p', out) \<and> pr_writer p' = pr_writer p
    \<and> showsTally p' (accepts send (pr_writer p) [\<lparr>km_Topic = topic, km_Key = [], km_Value = message, km_Headers = headers\<rparr>] a)"
proof -
  have c: "pr_closed p = ta_closed a" using assms by (simp add: showsTally_def)
  obtain p' where "countSent 1 (int (length message)) p = Some p'" "pr_writer p' = pr_writer p"
    "showsTally p' (a\<lparr>ta_messages := ta_messages a + 1, ta_bytes := ta_bytes a + int (length message)\<rparr>)"
    using countSent_shows [OF assms] by blast
  with assms c show ?thesis by (simp add: PublishKafka_def accepts_def showsTally_set split: option.split)
qed

lemma Batch_shows:
  assumes "showsTally p a"
  shows "\<exists>p' out. PublishBatch send t ms p = Some (p', out) \<and> pr_writer p' = pr_writer p
    \<and> showsTally p' (accepts send (pr_writer p) (map toKafka ms) a)"
proof -
  let ?b = "sum_list (map (int \<circ> length \<circ> qm_Payload) ms)"
  have c: "pr_closed p = ta_closed a" using assms by (simp add: showsTally_def)
  have b: "sum_list (map (int \<circ> length \<circ> km_Value) (map toKafka ms)) = ?b" by (induction ms) (auto simp: toKafka_def)
  obtain p' where "countSent (int (length ms)) ?b p = Some p'" "pr_writer p' = pr_writer p"
    "showsTally p' (a\<lparr>ta_messages := ta_messages a + int (length ms), ta_bytes := ta_bytes a + ?b\<rparr>)"
    using countSent_shows [OF assms] by blast
  with assms c b show ?thesis by (simp add: PublishBatch_def accepts_def showsTally_set split: option.split)
qed

lemma kafkaStep_shows:
  assumes "showsTally p a"
  shows "\<exists>p'. kafkaStep send x p = Some p' \<and> pr_writer p' = pr_writer p \<and> showsTally p' (tallyStep send (pr_writer p) x a)"
proof (cases x)
  case (KPublish t mid topic message headers)
  with Publish_shows [OF assms, of send t mid topic message headers] show ?thesis by (auto simp: kafkaStep_def)
next
  case (KBatch t ms)
  with Batch_shows [OF assms, of send t ms] show ?thesis by (auto simp: kafkaStep_def)
next
  case (KConnect t)
  with assms show ?thesis by (simp add: kafkaStep_def Connect_eq showsTally_def)
next
  case (KClose t werr)
  with assms show ?thesis by (simp add: kafkaStep_def CloseProducer_eq showsTally_def)
next
  case (KLogError t msg)
  with assms show ?thesis by (simp add: kafkaStep_def logError_def raiseStat_eq showsTally_def)
qed

lemma runKafka_shows:
  "showsTally p a \<Longrightarrow> \<exists>p'. runKafka send xs p = Some p' \<and> showsTally p' (fold (tallyStep send (pr_writer p)) xs a)"
proof (induction xs arbitrary: p a)
  case (Cons x xs)
  from kafkaStep_shows [OF Cons.prems, of send x] obtain p1
    where p1: "kafkaStep send x p = Some p1" "pr_writer p1 = pr_writer p" "showsTally p1 (tallyStep send (pr_writer p) x a)" by blast
  from Cons.IH [OF p1(3)] p1(1,2) show ?case by simp
qed simp

lemma shows_connected: "showsTally p a \<Longrightarrow> IsConnected p = Some (\<not> pr_closed p)"
  by (simp add: IsConnected_def showsTally_def)

section \<open>Properties\<close>

text \<open>
  C39. None of the type assertions on the statistics of a producer ever fails: after any
  operations on a new producer the counters are integers and the connection flag a boolean, so that nothing
  panics, and they count exactly the messages and bytes the writer accepted before the producer was closed
  and the errors it logged; the producer is connected exactly as long as it is not closed.
\<close>

theorem producer_stats:
  assumes "NewProducer env t cfg = Inr p"
  shows "\<exists>p'. runKafka send xs p = Some p'
    \<and> showsTally p' (fold (tallyStep send (pr_writer p)) xs \<lparr>ta_closed = False, ta_messages = 0, ta_bytes = 0, ta_errors = 0\<rparr>)
    \<and> IsConnected p' = Some (\<not> pr_closed p')"
proof -
  have "pr_stats p = newStats t" "\<not> pr_closed p"
    using assms by (auto simp: NewProducer_def split: option.splits if_splits)
  then have "showsTally p \<lparr>ta_closed = False, ta_messages = 0, ta_bytes = 0, ta_errors = 0\<rparr>"
    by (simp add: showsTally_def intStat_def boolStat_def newStats_def)
  from runKafka_shows [OF this, of send xs] obtain p' where "runKafka send xs p = Some p'"
    "showsTally p' (fold (tallyStep send (pr_writer p)) xs \<lparr>ta_closed = False, ta_messages = 0, ta_bytes = 0, ta_errors = 0\<rparr>)"
    by blast
  with shows_connected show ?thesis by blast
qed

theorem producer_stats_witness:
  "\<exists>p p'. NewProducer ''b:9092'' 0 (Some (auditProducerConfig [] ''t'')) = Inr p
    \<and> runKafka (\<lambda>w ms. None) [KPublish 1 ''m'' ''t'' ''abc'' [], KClose 2 None, KPublish 3 ''n'' ''t'' ''x'' []] p = Some p'
    \<and> intStat ''messages_sent'' p' = Some 1 \<and> intStat ''bytes_sent'' p' = Some 3 \<and> IsConnected p' = Some False"
proof -
  let ?xs = "[KPublish 1 ''m'' ''t'' ''abc'' [], KClose 2 None, KPublish 3 ''n'' ''t'' ''x'' []]"
  obtain p where p: "NewProducer ''b:9092'' 0 (Some (auditProducerConfig [] ''t'')) = Inr p" by (simp add: NewProducer_def)
  from producer_stats [OF p, of "\<lambda>w ms. None" ?xs] obtain p' where "runKafka (\<lambda>w ms. None) ?xs p = Some p'"
    "showsTally p' \<lparr>ta_closed = True, ta_messages = 1, ta_bytes = 3, ta_errors = 0\<rparr>" "IsConnected p' = Some (\<not> pr_closed p')"
    by (auto simp: accepts_def)
  with p show ?thesis by (auto simp: showsTally_def)
qed

text \<open>
  The library's rule on topics: one that is set on the writer must not be set on a message as well.
\<close>

definition topicExclusive :: "(kafkaWriter \<Rightarrow> kafkaMsg list \<Rightarrow> string option) \<Rightarrow> bool" where
  "topicExclusive send \<longleftrightarrow> (\<forall>w ms. kw_Topic w \<noteq> [] \<longrightarrow> (\<exists>m \<in> set ms. km_Topic m \<noteq> []) \<longrightarrow> send w ms \<noteq> None)"

lemma logger_shape:
  assumes "NewKafkaLogger env t brokers topic = Inr l"
  shows "kl_topic l = topic" "kw_Topic (pr_writer (kl_producer l)) = topic" "\<not> pr_closed (kl_producer l)" "topic \<noteq> []"
proof -
  have "strTrimSpace [] = []" by (simp add: strTrimSpace_def runeSegs_ascii)
  then show "kl_topic l = topic" "kw_Topic (pr_writer (kl_producer l)) = topic" "\<not> pr_closed (kl_producer l)" "topic \<noteq> []"
    using assms by (auto simp: NewKafkaLogger_def NewProducer_def Connect_def auditProducerConfig_def split: if_splits)
qed

text \<open>
  C40. The Kafka audit log never receives an event. The logger gives its topic to the writer and to every
  message, which the client library refuses, so that each event fails, alone or in a batch, and the logger
  is left as it was.
\<close>

theorem kafka_audit_unusable:
  assumes "topicExclusive send" "NewKafkaLogger env t0 brokers topic = Inr l"
  shows "(\<exists>x. LogThrough send A rfc3339 t mid e (l, sent) = ((l, sent), LogFailed x))
    \<and> (ms \<noteq> [] \<longrightarrow> (\<exists>x. PublishBatch send t (map (\<lambda>m. m\<lparr>qm_Type := topic\<rparr>) ms) (kl_producer l) = Some (kl_producer l, Inl x)))"
proof -
  note L = logger_shape [OF assms(2)]
  have no: "\<exists>x. send (pr_writer (kl_producer l)) ks = Some x" if "\<exists>k \<in> set ks. km_Topic k = topic" for ks
    using that assms(1) L unfolding topicExclusive_def by (metis not_None_eq)
  have "\<exists>x. LogThrough send A rfc3339 t mid e (l, sent) = ((l, sent), LogFailed x)"
  proof (cases "ae_json A (eventJson (hashed A t e))")
    case (Some payload)
    obtain x where "send (pr_writer (kl_producer l))
        [\<lparr>km_Topic = topic, km_Key = [], km_Value = payload, km_Headers = kafkaHeaders rfc3339 (hashed A t e)\<rparr>] = Some x"
      using no by fastforce
    with Some L show ?thesis by (simp add: LogThrough_def PublishKafka_def LogKafka_def Let_def)
  qed (simp add: LogThrough_def Let_def)
  moreover have "\<exists>x. PublishBatch send t (map (\<lambda>m. m\<lparr>qm_Type := topic\<rparr>) ms) (kl_producer l) = Some (kl_producer l, Inl x)"
    if "ms \<noteq> []"
  proof -
    have "\<exists>k \<in> set (map toKafka (map (\<lambda>m. m\<lparr>qm_Type := topic\<rparr>) ms)). km_Topic k = topic"
      using that by (cases ms) (auto simp: toKafka_def)
    from no [OF this] obtain x where "send (pr_writer (kl_producer l)) (map toKafka (map (\<lambda>m. m\<lparr>qm_Type := topic\<rparr>) ms)) = Some x" by blast
    then show ?thesis using L by (simp add: PublishBatch_def)
  qed
  ultimately show ?thesis by blast
qed

definition refSend :: "kafkaWriter \<Rightarrow> kafkaMsg list \<Rightarrow> string option" where
  "refSend w ms =
     (if kw_Topic w \<noteq> [] \<and> list_ex (\<lambda>m. km_Topic m \<noteq> []) ms then Some ''Topic must not be specified for both Writer and Message''
      else None)"

theorem kafka_audit_unusable_witness:
  "\<exists>l x. NewKafkaLogger [] 0 [''b:9092''] ''audit'' = Inr l
    \<and> LogThrough refSend demoAudit (\<lambda>t. ''now'') 1 ''m'' demoEvent (l, []) = ((l, []), LogFailed x)"
proof -
  have "strTrimSpace ''audit'' \<noteq> []"
    by (simp add: strTrimSpace_def runeSegs_ascii isAscii_def isSpaceRune_def byte_def)
  then obtain l where l: "NewKafkaLogger [] 0 [''b:9092''] ''audit'' = Inr l"
    by (simp add: NewKafkaLogger_def NewProducer_def Connect_def auditProducerConfig_def)
  have "topicExclusive refSend" by (auto simp: topicExclusive_def refSend_def list_ex_iff)
  from kafka_audit_unusable [OF this l] l show ?thesis by blast
qed

end
