(* ===== verification/Enforcer_Serve.thy ===== *)
theory Enforcer_Serve
  imports Runtime_API Go_Paths
begin

text \<open>
  How the HTTP enforcer starts and stops, \<^verbatim>\<open>serve.go\<close>, \<^verbatim>\<open>tls.go\<close>, \<^verbatim>\<open>toggles.go\<close> and
  the start of \<^verbatim>\<open>server.go\<close> under \<^verbatim>\<open>internal/interfaces/http/enforcer\<close>: the choice
  between plain HTTP and TLS, what an unreachable database does to the mode, and the hook that stops the
  server. Network addresses, files and certificates are arguments.
\<close>

section \<open>Toggles\<close>

definition envLower :: "'rx golib \<Rightarrow> string \<Rightarrow> string" where
  "envLower G key = strToLower G (strTrimSpace (getenv G key))"

definition metricsEnabled :: "'rx golib \<Rightarrow> bool" where
  "metricsEnabled G \<longleftrightarrow> envLower G ''PS_ENFORCER_DISABLE_METRICS'' \<notin> {''1'', ''true'', ''yes''}"

definition tracingEnabled :: "'rx golib \<Rightarrow> bool" where
  "tracingEnabled G \<longleftrightarrow> envLower G ''PS_ENFORCER_DISABLE_TRACING'' \<notin> {''1'', ''true'', ''yes''}"

definition fastMode :: "'rx golib \<Rightarrow> bool" where
  "fastMode G \<longleftrightarrow> envLower G ''PS_ENFORCER_FAST'' \<in> {''1'', ''true'', ''yes''}"

definition envBool :: "'rx golib \<Rightarrow> string \<Rightarrow> bool" where
  "envBool G key \<longleftrightarrow> envLower G key \<in> {''1'', ''true'', ''yes'', ''on''}"

section \<open>TLS\<close>

definition tlsMode :: "'rx golib \<Rightarrow> string" where
  "tlsMode G =
     (let mode = envLower G ''PS_ENFORCER_TLS_MODE''
      in if mode = ''require'' \<or> mode = ''disable'' then mode else ''auto'')"

text \<open>
  \<open>splitHost\<close> is the host of \<^verbatim>\<open>net.SplitHostPort\<close>, \<open>loopbackIP\<close> whether a host that
  \<^verbatim>\<open>net.ParseIP\<close> accepts is a loopback address.
\<close>

definition isLoopbackAddr :: "'rx golib \<Rightarrow> (string \<Rightarrow> string option) \<Rightarrow> (string \<Rightarrow> bool option) \<Rightarrow> string \<Rightarrow> bool" where
  "isLoopbackAddr G splitHost loopbackIP addr =
     (if hasPrefix addr '':'' then False
      else let host = strTrimSpace (case splitHost addr of Some h \<Rightarrow> h | None \<Rightarrow> addr)
           in if host = [] \<or> host = ''0.0.0.0'' \<or> host = ''::'' then False
              else if strEqualFold G host ''localhost'' then True
              else case loopbackIP host of Some b \<Rightarrow> b | None \<Rightarrow> False)"

definition findTLSPair :: "'rx golib \<Rightarrow> (string \<Rightarrow> bool) \<Rightarrow> (string \<times> string) option" where
  "findTLSPair G exists =
     (let certFile = strTrimSpace (getenv G ''PS_ENFORCER_TLS_CERT''); keyFile = strTrimSpace (getenv G ''PS_ENFORCER_TLS_KEY'')
      in if certFile \<noteq> [] \<and> keyFile \<noteq> [] then Some (certFile, keyFile)
         else find (\<lambda>(c, k). exists c \<and> exists k)
                [(''/tls/server.crt'', ''/tls/server.key''), (''tls/server.crt'', ''tls/server.key'')])"

text \<open>\<open>pem\<close> reads a file; the inner option is whether certificates could be parsed from it.\<close>

definition verifiesClients :: "'rx golib \<Rightarrow> (string \<Rightarrow> bool option) \<Rightarrow> bool" where
  "verifiesClients G pem =
     (let ca = getenv G ''PS_ENFORCER_TLS_CLIENT_CA''
      in ca \<noteq> [] \<and> ValidateCAFilePath G ca = None \<and> pem ca = Some True)"

datatype listening = PlainHttp | Https string string bool | ExitsWithError

text \<open>How the server starts to listen. That listening then fails, for a bad certificate say, is only logged and not told apart.\<close>

definition serveMode :: "'rx golib \<Rightarrow> (string \<Rightarrow> string option) \<Rightarrow> (string \<Rightarrow> bool option) \<Rightarrow> (string \<Rightarrow> bool) \<Rightarrow> (string \<Rightarrow> bool option)
    \<Rightarrow> string \<Rightarrow> listening" where
  "serveMode G splitHost loopbackIP exists pem addr =
     (let pair = findTLSPair G exists;
          startHTTPS = (\<lambda>(c, k). Https c k (verifiesClients G pem))
      in if tlsMode G = ''disable'' then PlainHttp
         else if tlsMode G = ''require'' then (case pair of None \<Rightarrow> ExitsWithError | Some p \<Rightarrow> startHTTPS p)
         else if \<not> isLoopbackAddr G splitHost loopbackIP addr
         then (case pair of None \<Rightarrow> ExitsWithError | Some p \<Rightarrow> startHTTPS p)
         else (case pair of Some p \<Rightarrow> startHTTPS p | None \<Rightarrow> PlainHttp))"

section \<open>Starting with a database\<close>

text \<open>\<open>dbOk\<close>: the pool could be opened and answers. The environment is changed for the whole process.\<close>

definition dbHealthy :: "'rx golib \<Rightarrow> bool \<Rightarrow> bool" where
  "dbHealthy G dbOk \<longleftrightarrow> getenv G ''PS_PG_DSN'' = [] \<or> dbOk"

definition startEnv :: "'rx golib \<Rightarrow> bool \<Rightarrow> 'rx golib" where
  "startEnv G dbOk =
     (if dbHealthy G dbOk then G else G\<lparr>getenv := (getenv G)(''PS_ENFORCER_MODE'' := ''observe'')\<rparr>)"

definition readyz :: "'rx golib \<Rightarrow> bool \<Rightarrow> bool \<Rightarrow> int" where
  "readyz G dbOk hasRules =
     (if dbHealthy G dbOk \<and> (hasRules \<or> \<not> envBool G ''PS_REQUIRE_RULEPACK_AT_STARTUP'') then 200 else 503)"

text \<open>The usage store on Redis: its address, prefix and how long entries live, in nanoseconds.\<close>

definition usageStoreFromEnv :: "'rx golib \<Rightarrow> (string \<times> string \<times> int) option" where
  "usageStoreFromEnv G =
     (let addr = strTrimSpace (getenv G ''PS_USAGE_REDIS_ADDR'');
          prefix = firstNonEmpty [strTrimSpace (getenv G ''PS_USAGE_PREFIX''), strTrimSpace (getenv G ''PS_REGION''), ''ps''];
          v = strTrimSpace (getenv G ''PS_USAGE_TTL_DAYS'');
          days = (if v = [] then 35 else case atoi v of Some n \<Rightarrow> if n > 0 then n else 35 | None \<Rightarrow> 35)
      in if addr = [] then None else Some (addr, prefix, wrap64 (wrap64 (days * 24) * 3600000000000)))"

section \<open>Stopping\<close>

datatype shutdownAct = CloseAudit | CloseUsage | ClosePool | StopServer

text \<open>
  The hook: what it does, in order. \<open>cancelled\<close>: the context it was given ends while it waits; nothing is done
  then.
\<close>

definition OnShutdown :: "bool \<Rightarrow> bool \<Rightarrow> bool \<Rightarrow> bool \<Rightarrow> int \<Rightarrow> shutdownAct list" where
  "OnShutdown cancelled audit usage pool delay =
     (if delay > 0 \<and> cancelled then []
      else (if audit then [CloseAudit] else []) @ (if usage then [CloseUsage] else []) @ (if pool then [ClosePool] else [])
           @ [StopServer])"

text \<open>
  The two routes that call it: \<^verbatim>\<open>/admin/system/shutdown\<close> with a context of its own, \<^verbatim>\<open>/admin/shutdown\<close>
  with that of the request, which the HTTP server cancels when the handler has returned.
\<close>

definition systemShutdown :: "bool \<Rightarrow> bool \<Rightarrow> bool \<Rightarrow> string \<Rightarrow> shutdownAct list" where
  "systemShutdown audit usage pool v = OnShutdown False audit usage pool (shutdownDelay v)"

definition adminShutdown :: "bool \<Rightarrow> bool \<Rightarrow> bool \<Rightarrow> string \<Rightarrow> shutdownAct list" where
  "adminShutdown audit usage pool v = OnShutdown True audit usage pool (shutdownDelay v)"

section \<open>Properties\<close>

lemma tlsMode_cases: "tlsMode G \<in> {''require'', ''disable'', ''auto''}"
  by (simp add: tlsMode_def Let_def)

text \<open>
  C32. The enforcer serves plain HTTP only if TLS was disabled by name or the address is a
  loopback one and there is no certificate; on any other address, and in the mode that requires TLS, it
  serves TLS with the pair found, or exits. In every case it does one of the three.
\<close>

theorem plain_http_only:
  "(serveMode G splitHost loopbackIP exists pem addr = PlainHttp \<longleftrightarrow>
      tlsMode G = ''disable'' \<or> tlsMode G = ''auto'' \<and> isLoopbackAddr G splitHost loopbackIP addr \<and> findTLSPair G exists = None)
    \<and> (serveMode G splitHost loopbackIP exists pem addr = ExitsWithError \<longleftrightarrow>
      findTLSPair G exists = None
      \<and> (tlsMode G = ''require'' \<or> tlsMode G = ''auto'' \<and> \<not> isLoopbackAddr G splitHost loopbackIP addr))
    \<and> (serveMode G splitHost loopbackIP exists pem addr = Https c k v \<longleftrightarrow>
      findTLSPair G exists = Some (c, k) \<and> v = verifiesClients G pem \<and> tlsMode G \<noteq> ''disable'')"
proof -
  have "tlsMode G = ''require'' \<or> tlsMode G = ''disable'' \<or> tlsMode G = ''auto''" using tlsMode_cases [of G] by simp
  then show ?thesis
    by (elim disjE) (auto simp: serveMode_def Let_def split: option.split)
qed

theorem plain_http_only_witness:
  "serveMode litLib (\<lambda>a. Some ''10.0.0.1'') (\<lambda>h. Some False) (\<lambda>f. False) (\<lambda>f. None) ''10.0.0.1:80'' = ExitsWithError"
proof -
  have "strTrimSpace [] = []" "strTrimSpace ''10.0.0.1'' = ''10.0.0.1''"
    by (rule trim_plain, simp add: byte_def isSpaceRune_def)+
  moreover have "tlsMode litLib = ''auto''"
    by (simp add: tlsMode_def envLower_def litLib_def calculation strToLower_def isAscii_def mapBytes_def)
  moreover have "\<not> strEqualFold litLib ''10.0.0.1'' ''localhost''"
    by (simp add: strEqualFold_def runes_ascii isAscii_def byte_def runeFold_def lowerAscii_def)
  ultimately have "findTLSPair litLib (\<lambda>f. False) = None" "tlsMode litLib = ''auto''"
    "\<not> isLoopbackAddr litLib (\<lambda>a. Some ''10.0.0.1'') (\<lambda>h. Some False) ''10.0.0.1:80''"
    by (simp_all add: findTLSPair_def isLoopbackAddr_def litLib_def hasPrefix_def)
  then show ?thesis
    using plain_http_only [of litLib "\<lambda>a. Some ''10.0.0.1''" "\<lambda>h. Some False" "\<lambda>f. False" "\<lambda>f. None" "''10.0.0.1:80''"] by blast
qed

text \<open>
  A client CA that cannot be used is not an error: the server then accepts clients without a
  certificate.
\<close>

theorem client_ca_ignored:
  assumes "findTLSPair G exists = Some (c, k)" "tlsMode G = ''require''"
    and "pem (getenv G ''PS_ENFORCER_TLS_CLIENT_CA'') \<noteq> Some True"
  shows "serveMode G splitHost loopbackIP exists pem addr = Https c k False"
  using assms by (simp add: serveMode_def verifiesClients_def Let_def)

text \<open>
  If a database is configured and cannot be reached when the enforcer starts, no check is ever
  answered with 403, whatever mode was configured, and the server reports that it is not ready.
\<close>

theorem db_down_never_blocks:
  assumes "getenv G ''PS_PG_DSN'' \<noteq> []"
  shows "statusFor (startEnv G False) decision = 200 \<and> readyz G False hasRules = 503"
proof -
  have "strTrimSpace ''observe'' = ''observe''" by (rule trim_plain) (simp add: byte_def isSpaceRune_def)
  moreover have "strToLower H ''observe'' = ''observe''" for H :: "'a golib"
    by (simp add: strToLower_def isAscii_def mapBytes_def lowerAscii_def byte_def) code_simp
  ultimately have "enforcerMode (startEnv G False) = ''observe''"
    using assms by (simp add: enforcerMode_def startEnv_def dbHealthy_def Let_def)
  then show ?thesis using assms by (simp add: statusFor_def readyz_def dbHealthy_def)
qed

text \<open>
  A delayed shutdown through \<^verbatim>\<open>/admin/shutdown\<close> does not stop anything, while the one through
  \<^verbatim>\<open>/admin/system/shutdown\<close> does.
\<close>

theorem delayed_shutdown_lost:
  assumes "1 \<le> n" "n \<le> 9223372036"
  shows "adminShutdown audit usage pool (itoa n) = [] \<and> StopServer \<in> set (systemShutdown audit usage pool (itoa n))"
proof -
  have "shutdownDelay (itoa n) = n * 1000000000"
  proof -
    have "atoi (itoa n) = Some n" "wrap64 (n * 1000000000) = n * 1000000000"
      using assms by (auto intro!: atoi_itoa wrap64_id)
    then show ?thesis using trim_number(2) [of n] assms by (simp add: shutdownDelay_def)
  qed
  then show ?thesis using assms by (simp add: adminShutdown_def systemShutdown_def OnShutdown_def)
qed

end
