(* ===== verification/Spec2Isabelle.thy ===== *)
theory Spec2Isabelle
  imports Go_Prelude Severity Verifiers Rules_Types Rules_Merge Regex_Literals Rules_Complexity Aho
    Scanner Scanner_Eval Scanner_IO Redact Decisions Rulesets Rules_Validate Go_Paths Rules_Loader
    Ext_Proc Ext_Proc_Streams Check Rulepack_Repo Rulepack_Service Enforcer_Ctor
    Policy_Repo Policy_Scanner Policy_Events Go_Any Transitions Jobs Jobs_Scan Audit_Log
    Redis_Cache Assignment_Cache Token_Cache Tenant_Cache Rule_Updates Moderation Usage
    Admin_API Rulepack_SQL Rulepack_API Control_Plane Policy_API
    Redis_Queue Event_Stream Runtime_API Kafka_Producer Enforcer_Serve
begin

text \<open>
  \<^bold>\<open>PromptShield\<close> scans prompts and model responses with rule packs and decides whether a
  request is allowed, quarantined or denied. This development models its core in the order the
  data flows.

  \<^bold>\<open>Rule packs.\<close> \<open>Rules_Types\<close> has the records of \<^verbatim>\<open>internal/rules/types.go\<close> and the
  scan results of \<^verbatim>\<open>pkg/types/types.go\<close>. \<open>Rules_Loader\<close> is \<^verbatim>\<open>LoadPacks\<close>
  (\<^verbatim>\<open>loader.go\<close>, \<^verbatim>\<open>loader_file.go\<close>, \<^verbatim>\<open>loader_imports.go\<close>): files, directories,
  globs, marketplace slugs, URLs and the recursive import closure. With network imports switched off it
  is proved to return whatever cycles the imports form, to yield exactly the inductively defined closure,
  and to fail as a whole if one import fails. \<open>Rules_Validate\<close> is \<^verbatim>\<open>validate.go\<close> and \<^verbatim>\<open>loader_validate.go\<close>;
  \<open>Rules_Complexity\<close> has the structural limits on regular expressions and both pattern compilers
  (\<^verbatim>\<open>complexity.go\<close>, \<^verbatim>\<open>patterns.go\<close>). \<open>Rules_Merge\<close> is \<^verbatim>\<open>merge.go\<close>, both
  strategies, specified by the rules and overrides that win.
  \<open>Go_Paths\<close> models \<^verbatim>\<open>path/filepath\<close> on Unix and \<^verbatim>\<open>internal/security/paths\<close>.

  \<^bold>\<open>The scan engine.\<close> \<open>Scanner\<close> has the engine's state, every setter, rule compilation and
  \<^verbatim>\<open>LoadRulePacks\<close> (\<^verbatim>\<open>internal/scanner/scanner.go\<close>, \<^verbatim>\<open>rule_eval.go\<close>,
  \<^verbatim>\<open>loader.go\<close>); \<open>Aho\<close> the keyword matcher; \<open>Regex_Literals\<close> token extraction, cache keys
  and the coarse score; \<open>Verifiers\<close> the Luhn, SSN, IBAN and e-mail checks; \<open>Scanner_Eval\<close> the
  evaluation of a line through the keyword, regex and semantic stages (\<^verbatim>\<open>evaluate.go\<close>,
  \<^verbatim>\<open>semantic.go\<close>); \<open>Scanner_IO\<close> the reading of inputs, line by line and chunked
  (\<^verbatim>\<open>io.go\<close>). The locale \<open>line_evaluator\<close> and its extension \<open>numbered_evaluator\<close> are what
  the readers rely on, and \<open>blind_evaluator\<close> what the chunked reader needs; all are interpreted on
  \<^verbatim>\<open>evaluateLine\<close>. The lemmas show that a scan reports only enabled rules, that it never
  stops silently, and that without a stream limit the chunked reader's
  violations do not depend on how the input is cut.

  \<^bold>\<open>Enforcement.\<close> \<open>Redact\<close> is \<^verbatim>\<open>internal/shared/redact\<close>. \<open>Ext_Proc\<close> is one stream of the
  Envoy external processor (\<^verbatim>\<open>internal/interfaces/grpc/enforcer/process_stream.go\<close>,
  \<^verbatim>\<open>server.go\<close>): headers, sliding windows with their tails, verdicts, mutations and replies.
  \<open>processStream\<close> adds how a stream ends: by a decision, by the peer closing or failing, by an answer that
  cannot be sent, or with its context; only the first emits a decision event.
  \<open>Ext_Proc_Streams\<close> puts any number of streams into one server as an inductive step relation: the
  stream slots, the shared counter of bytes in flight with its waiting loop, and rule reloads in
  between; the counter's invariant is by rule induction over the reachable states.
  \<open>Enforcer_Ctor\<close> is the constructor (\<^verbatim>\<open>ctor.go\<close>): it shows that the server it builds is an
  initial state of that relation and that its scans never fail. \<open>Check\<close> has the two HTTP decision
  handlers (\<^verbatim>\<open>internal/interfaces/http/enforcer/check.go\<close>,
  \<^verbatim>\<open>internal/interfaces/http/api/enforcement.go\<close>) over \<^verbatim>\<open>ScanReader\<close>, and what they
  record.

  \<^bold>\<open>State around it.\<close> \<open>Decisions\<close> is the ring of recent decisions
  (\<^verbatim>\<open>internal/application/decisions\<close>): the locale \<open>bounded_history\<close> states the abstract history
  and is interpreted on \<^verbatim>\<open>Log.Add\<close>; paging is proved complete and stable under additions.
  \<open>Rulesets\<close> is the active rule set with its listeners. \<open>Rulepack_Repo\<close> is the in-memory rule-pack
  repository with its invariant along all operations, and \<open>Rulepack_Service\<close> the service over a
  repository interface; the locale \<open>rulepack_store\<close> states what the service relies on and is
  interpreted on the in-memory repository, which gives that an activated version reaches the
  enforcer.

  \<^bold>\<open>Policies.\<close> \<open>Policy_Repo\<close> is the in-memory policy store, \<open>Policy_Scanner\<close> the conversion of
  policies to rule packs with the scanner over the active ones
  (\<^verbatim>\<open>policy_scanner_service.go\<close>). \<open>Policy_Events\<close> has the event bus, the scanner manager of the
  enforcer, the policy service and the synchronisation with the frontend, and puts them into one
  step relation in which the goroutines of the bus run in any order: the locale \<open>keyed_events\<close> states
  when handling events out of order makes no difference, and is interpreted on the manager's
  handlers. For a policy with a published event the manager follows the service if each policy's events
  arrive in order and nothing else writes to the scanners, and need not otherwise.

  \<^bold>\<open>Jobs and audit.\<close> \<open>Jobs\<close> is the job manager (\<^verbatim>\<open>internal/jobs/manager.go\<close>) as an interleaving
  of submissions, cancellations, clean-ups and workers; \<open>Transitions\<close> has the locales for invariants,
  kept properties and bounded runs of a step relation, all interpreted on its steps. \<open>Jobs_Scan\<close> is
  the scan processor with the default manager and the HTTP handlers of jobs. \<open>Audit_Log\<close> is
  \<^verbatim>\<open>internal/audit\<close>: redaction, the canonical hash and the loggers; the locale \<open>hash_chain\<close> gives
  that a checked chain with a known last hash cannot be changed without a collision, and the entries of
  the file logger are shown to be those of the calls, redacted where the code redacts. \<open>Go_Any\<close> has
  the dynamic values of \<^verbatim>\<open>map[string]interface{}\<close>. \<open>Redis_Queue\<close> is the durable queue over a Redis
  stream (\<^verbatim>\<open>internal/jobs/queue/redis.go\<close>): what Redis documents of the commands is the locale
  \<open>redis_stream\<close>, and the consumers are a step relation over it; failed messages are never retried, and
  stopping busy consumers crashes. \<open>Kafka_Producer\<close> is the Kafka producer
  (\<^verbatim>\<open>internal/infrastructure/messaging/kafka\<close>) with its statistics, and the audit logger over it.

  \<^bold>\<open>Stores and caches.\<close> \<open>Redis_Cache\<close> has what the caching repositories use of Redis.
  \<open>Assignment_Cache\<close>, \<open>Token_Cache\<close> and \<open>Tenant_Cache\<close> are the tables of policy assignments, API
  tokens and tenants with their SQL statements and the caches over them
  (\<^verbatim>\<open>internal/infrastructure/persistence/postgres\<close>). The lists enforcement reads equal the
  database's as long as Redis answers; revoked tokens are refused as long as it does and operations do not
  overlap, and an overlap is shown that brings one back; tenants are read as stored, except by an old name.

  \<^bold>\<open>Rule updates and moderation.\<close> \<open>Rule_Updates\<close> is the publisher and the subscriber of live rule
  updates with its breaker, back-off and duplicate detection
  (\<^verbatim>\<open>internal/infrastructure/messaging/nats\<close>, \<^verbatim>\<open>internal/backoff\<close>): a run is a list of what
  each poll meets, and its log the commands sent. The versions applied for the tenant a message
  names only increase, the ring of recent messages refines a window, and the only crash is the one every published update causes. \<open>Moderation\<close> is the
  analyzer on the moderation service (\<^verbatim>\<open>internal/semantic\<close>): its verdict, and what its cache
  shares. \<open>Usage\<close> is usage accounting and quotas (\<^verbatim>\<open>internal/usage\<close> and the in-memory stores of
  the API): queries of both stores add up to what was recorded (of the Redis store: while the keys
  live, and as often as \<^verbatim>\<open>SCAN\<close> returns them), and a new tenant's first request finds its quota drained.

  \<^bold>\<open>HTTP API.\<close> \<open>Admin_API\<close> has the administrative handlers for tenants, assignments and audits with
  their authentication and the table of audit entries
  (\<^verbatim>\<open>internal/interfaces/http/api\<close>, \<^verbatim>\<open>postgres/audits.go\<close>), over repositories given
  by their operations, of which the plain and the cached ones are instances. It shows what the
  handlers change and what they only say they change, which audit entries are lost, and when a CSV
  export reads back. \<open>Rulepack_SQL\<close> is the PostgreSQL store of rule packs with the constraints of its
  tables and what each statement does to a pack and to no other, a second interpretation of \<open>rulepack_store\<close>; \<open>Rulepack_API\<close> the handlers of rule packs,
  with creation idempotent however late the retry and activation guarded by the version; \<open>Control_Plane\<close>
  the handlers of the control plane with the validation service, which activate only versions that are not stored;
  \<open>Policy_API\<close> the handlers of policies, whose requests are steps of the relation of \<open>Policy_Events\<close>, so
  that a policy can be followed from the request that creates it to the scanner that enforces it. \<open>Event_Stream\<close> is the hub of events and the stream served
  from it (\<^verbatim>\<open>events.go\<close>, \<^verbatim>\<open>event_stream.go\<close>): the hub never panics, and a client reads back what was
  received. \<open>Runtime_API\<close> has the remaining handlers: the runtime configuration, the scan of records, the
  decision history, the active rules, and the status of the system. \<open>Enforcer_Serve\<close> is how the enforcer
  starts and stops (\<^verbatim>\<open>serve.go\<close>, \<^verbatim>\<open>tls.go\<close>): when it serves without TLS, and that a database it
  cannot reach makes it let everything pass.

  \<^bold>\<open>Conventions.\<close> \<open>Go_Prelude\<close> holds Go strings as byte lists, UTF-8 decoding, the string
  functions used, integer parsing, and the record \<open>golib\<close> of what comes from outside: Unicode
  tables, RE2, the environment, the Aho-Corasick library, \<^verbatim>\<open>sort.Slice\<close>. Semantic analyzers,
  file system, network, YAML decoder and JSON schema are arguments too, with their documented
  behaviour as hypotheses where a theorem needs it. Errors are values of sum types, one constructor
  per return. Go's map iteration order, the clock, random identifiers and whether a send fails are
  arguments, so the theorems hold for all of them. \<^verbatim>\<open>int\<close> values are unbounded integers except
  where the code can overflow: \<open>ParseCapacity\<close> and the other number parsers keep the 64-bit range,
  and the paging theorem assumes it.

  \<^bold>\<open>Fuel.\<close> Three functions take fuel. \<open>resolve\<close>, the closure of \<^verbatim>\<open>LoadPacks\<close>, is given the depth
  of nested imports; the number of readable files is enough and more changes nothing
  (\<open>LoadPacks_terminates\<close>). \<open>allPages\<close> follows page cursors and is \<^const>\<open>None\<close> when pages are left over;
  one more than the number of retained records is enough (\<open>allPages_complete\<close>), also for \<open>followPages\<close>,
  which does so over HTTP. Everything else is total; what may go on for ever, the
  streams, events and workers, is a step relation.

  \<^bold>\<open>Not modelled.\<close> Metrics, tracing and telemetry, HTTP routing, middleware and rendering, the
  wiring of processes, demos, and the interface and DTO declarations. In the modelled handlers, metrics, spans
  and logging are omitted; the rate limiter of the streams only delays. Identifiers from
  \<^verbatim>\<open>uuid.New\<close> are taken to be new.
\<close>

end
